(* ===== verification/RustStd.thy ===== *)
theory RustStd
  imports Main "HOL-Library.List_Lexorder"
begin

section \<open>The parts of Rust's standard library that the program uses\<close>

text \<open>
  Shared vocabulary of the development: machine integers, strings, and the standard-library
  operations on them that the modelled code calls.

  A Rust \<open>char\<close> is a Unicode scalar value, here an \<^typ>\<open>int\<close>; a \<open>str\<close> is the list of its
  chars. Comparing two strings by code point is the same as comparing their UTF-8 bytes, so the
  lexicographic order of \<^theory_text>\<open>HOL-Library.List_Lexorder\<close> is Rust's \<open>Ord\<close> on strings.
  Machine integers are \<^typ>\<open>nat\<close> with the width written out in every operation that can pass it.
\<close>

named_theorems rust_std \<open>evaluation rules of the standard-library functions\<close>

subsection \<open>Machine integers\<close>

definition u64_max :: nat where
  "u64_max = 2 ^ 64 - 1"

definition checked_add64 :: "nat \<Rightarrow> nat \<Rightarrow> nat option" where
  "checked_add64 a b = (if a + b \<le> u64_max then Some (a + b) else None)"

definition saturating_add64 :: "nat \<Rightarrow> nat \<Rightarrow> nat" where
  "saturating_add64 a b = min (a + b) u64_max"

definition wrapping_add64 :: "nat \<Rightarrow> nat \<Rightarrow> nat" where
  "wrapping_add64 a b = (a + b) mod 2 ^ 64"

lemma checked_add64_Some [simp]:
  "checked_add64 a b = Some c \<longleftrightarrow> c = a + b \<and> a + b \<le> u64_max"
  by (auto simp: checked_add64_def)

lemma checked_add64_None [simp]: "checked_add64 a b = None \<longleftrightarrow> u64_max < a + b"
  by (auto simp: checked_add64_def)

lemma saturating_add64_le [simp]: "saturating_add64 a b \<le> u64_max"
  by (simp add: saturating_add64_def)

lemma saturating_add64_less: "a < u64_max \<Longrightarrow> 0 < b \<Longrightarrow> a < saturating_add64 a b"
  by (simp add: saturating_add64_def)

lemma wrapping_add64_small: "a + b \<le> u64_max \<Longrightarrow> wrapping_add64 a b = a + b"
  by (simp add: wrapping_add64_def u64_max_def)

lemma u64_max_pos [simp]: "0 < u64_max" "Suc 0 \<le> u64_max"
  by (simp_all add: u64_max_def)

text \<open>Evaluation compares with the width over \<^typ>\<open>int\<close>, whose numerals are binary.\<close>

lemma u64_max_int: "int u64_max = 18446744073709551615"
  by (simp add: u64_max_def)

lemma checked_add64_code [code]:
  "checked_add64 a b =
     (if int a + int b \<le> 18446744073709551615 then Some (a + b) else None)"
  unfolding checked_add64_def u64_max_int [symmetric] by simp

lemma saturating_add64_code [code]:
  "saturating_add64 a b =
     (if int a + int b \<le> 18446744073709551615 then a + b else u64_max)"
  unfolding saturating_add64_def u64_max_int [symmetric] by simp

lemma wrapping_add64_code [code]:
  "wrapping_add64 a b =
     (if int a + int b \<le> 18446744073709551615 then a + b else (a + b) mod 2 ^ 64)"
  unfolding u64_max_int [symmetric] using wrapping_add64_small [of a b]
  by (simp add: wrapping_add64_def flip: of_nat_add)

subsection \<open>Characters and strings\<close>

type_synonym uchar = int
type_synonym ustr = "int list"

definition lit :: "string \<Rightarrow> ustr" where
  "lit s = map of_char s"

definition chr :: "string \<Rightarrow> uchar" where
  "chr s = (case s of [] \<Rightarrow> 0 | c # _ \<Rightarrow> of_char c)"

lemma lit_simps: "lit [] = []" "lit (c # s) = of_char c # lit s"
  by (simp_all add: lit_def)

lemma chr_simps [simp]: "chr (c # s) = of_char c"
  by (simp add: chr_def)

lemma length_lit [simp]: "length (lit s) = length s"
  by (simp add: lit_def)

lemma lit_append: "lit (s @ t) = lit s @ lit t"
  by (simp add: lit_def)

lemma lit_eq_Nil [simp]: "lit s = [] \<longleftrightarrow> s = []" "[] = lit s \<longleftrightarrow> s = []"
  by (auto simp: lit_def)

lemma lit_eq_iff [simp]: "lit s = lit t \<longleftrightarrow> s = t"
  by (simp add: lit_def inj_map_eq_map inj_def)

text \<open>The characters with the Unicode property \<open>White_Space\<close>, which \<open>char::is_whitespace\<close> tests.\<close>

definition is_whitespace :: "uchar \<Rightarrow> bool" where
  "is_whitespace c \<longleftrightarrow>
     9 \<le> c \<and> c \<le> 13 \<or> c = 32 \<or> c = 0x85 \<or> c = 0xA0 \<or> c = 0x1680 \<or>
     0x2000 \<le> c \<and> c \<le> 0x200A \<or> c = 0x2028 \<or> c = 0x2029 \<or> c = 0x202F \<or> c = 0x205F \<or> c = 0x3000"

definition is_ascii_digit :: "uchar \<Rightarrow> bool" where
  "is_ascii_digit c \<longleftrightarrow> 48 \<le> c \<and> c \<le> 57"

definition is_ascii_alphabetic :: "uchar \<Rightarrow> bool" where
  "is_ascii_alphabetic c \<longleftrightarrow> 65 \<le> c \<and> c \<le> 90 \<or> 97 \<le> c \<and> c \<le> 122"

definition is_ascii_alphanumeric :: "uchar \<Rightarrow> bool" where
  "is_ascii_alphanumeric c \<longleftrightarrow> is_ascii_alphabetic c \<or> is_ascii_digit c"

definition to_ascii_lowercase :: "uchar \<Rightarrow> uchar" where
  "to_ascii_lowercase c = (if 65 \<le> c \<and> c \<le> 90 then c + 32 else c)"

definition trim_start :: "ustr \<Rightarrow> ustr" where
  "trim_start s = dropWhile is_whitespace s"

definition trim_end :: "ustr \<Rightarrow> ustr" where
  "trim_end s = rev (dropWhile is_whitespace (rev s))"

definition trim :: "ustr \<Rightarrow> ustr" where
  "trim s = trim_end (trim_start s)"

fun starts_with :: "ustr \<Rightarrow> ustr \<Rightarrow> bool" where
  "starts_with s [] = True"
| "starts_with [] (p # ps) = False"
| "starts_with (c # s) (p # ps) = (c = p \<and> starts_with s ps)"

fun strip_prefix :: "ustr \<Rightarrow> ustr \<Rightarrow> ustr option" where
  "strip_prefix s [] = Some s"
| "strip_prefix [] (p # ps) = None"
| "strip_prefix (c # s) (p # ps) = (if c = p then strip_prefix s ps else None)"

fun contains_str :: "ustr \<Rightarrow> ustr \<Rightarrow> bool" where
  "contains_str [] p = (p = [])"
| "contains_str (c # s) p = (starts_with (c # s) p \<or> contains_str s p)"

lemma starts_with_iff: "starts_with s p \<longleftrightarrow> (\<exists>t. s = p @ t)"
  by (induction s p rule: starts_with.induct) auto

lemma starts_with_append [simp]: "starts_with (p @ s) p"
  by (simp add: starts_with_iff)

lemma strip_prefix_Some: "strip_prefix s p = Some t \<longleftrightarrow> s = p @ t"
  by (induction s p rule: strip_prefix.induct) auto

lemma strip_prefix_None: "strip_prefix s p = None \<longleftrightarrow> \<not> starts_with s p"
  by (induction s p rule: strip_prefix.induct) auto

lemma strip_prefix_append [simp]: "strip_prefix (p @ s) p = Some s"
  by (simp add: strip_prefix_Some)

text \<open>\<open>str::split_once\<close> with a one-character pattern.\<close>

fun split_once_char :: "uchar \<Rightarrow> ustr \<Rightarrow> (ustr \<times> ustr) option" where
  "split_once_char p [] = None"
| "split_once_char p (c # s) =
     (if c = p then Some ([], s)
      else map_option (\<lambda>(a, b). (c # a, b)) (split_once_char p s))"

lemma split_once_char_Some:
  "split_once_char p s = Some (a, b) \<longleftrightarrow> s = a @ p # b \<and> p \<notin> set a"
  by (induction s arbitrary: a b) (auto simp: Cons_eq_append_conv)

text \<open>\<open>str::split\<close> with a one-character pattern, and \<open>Path::file_name\<close> on Unix: empty and current
  directory components are passed over, and a path that ends in the parent directory has none.\<close>

fun split_char :: "uchar \<Rightarrow> ustr \<Rightarrow> ustr list" where
  "split_char p [] = [[]]"
| "split_char p (c # s) =
     (if c = p then [] # split_char p s
      else (case split_char p s of [] \<Rightarrow> [[c]] | x # xs \<Rightarrow> (c # x) # xs))"

definition path_file_name :: "ustr \<Rightarrow> ustr option" where
  "path_file_name s =
     (let comps = filter (\<lambda>c. c \<noteq> [] \<and> c \<noteq> lit ''.'') (split_char (chr ''/'') s)
      in if comps = [] \<or> last comps = lit ''..'' then None else Some (last comps))"

text \<open>\<open>[String]::join\<close>.\<close>

fun join :: "ustr list \<Rightarrow> ustr \<Rightarrow> ustr" where
  "join [] sep = []"
| "join [x] sep = x"
| "join (x # y # ys) sep = x @ sep @ join (y # ys) sep"

lemma join_Cons: "ys \<noteq> [] \<Longrightarrow> join (x # ys) sep = x @ sep @ join ys sep"
  by (cases ys) auto

subsection \<open>Lines\<close>

text \<open>
  \<open>str::lines\<close>: pieces end at a line feed; a line feed drops itself and one carriage return
  before it; a last piece without a line feed keeps everything, and is left out when empty.
\<close>

definition newline :: uchar where "newline = 10"

definition strip_cr :: "ustr \<Rightarrow> ustr" where
  "strip_cr s = (if s \<noteq> [] \<and> last s = 13 then butlast s else s)"

fun lines_aux :: "ustr \<Rightarrow> ustr \<Rightarrow> ustr list" where
  "lines_aux acc [] = (if acc = [] then [] else [rev acc])"
| "lines_aux acc (c # s) =
     (if c = 10 then strip_cr (rev acc) # lines_aux [] s else lines_aux (c # acc) s)"

definition lines :: "ustr \<Rightarrow> ustr list" where
  "lines s = lines_aux [] s"

definition plain_line :: "ustr \<Rightarrow> bool" where
  "plain_line l \<longleftrightarrow> newline \<notin> set l \<and> (l = [] \<or> last l \<noteq> 13)"

lemma strip_cr_plain: "plain_line l \<Longrightarrow> strip_cr l = l"
  by (auto simp: plain_line_def strip_cr_def)

lemma lines_aux_append:
  "newline \<notin> set l \<Longrightarrow> lines_aux acc (l @ s) = lines_aux (rev l @ acc) s"
  by (induction l arbitrary: acc) (auto simp: newline_def)

lemma lines_newline: "plain_line l \<Longrightarrow> lines (l @ newline # s) = l # lines s"
  by (auto simp: lines_def lines_aux_append plain_line_def newline_def strip_cr_def)

lemma lines_last: "newline \<notin> set l \<Longrightarrow> lines l = (if l = [] then [] else [l])"
  using lines_aux_append [of l "[]" "[]"] by (simp add: lines_def)

lemma lines_Nil [simp]: "lines [] = []"
  by (simp add: lines_def)

subsection \<open>Decimal numbers\<close>

fun dec :: "nat \<Rightarrow> ustr" where
  "dec n = (if n < 10 then [48 + int n] else dec (n div 10) @ [48 + int (n mod 10)])"

declare dec.simps [simp del]

fun digits_value :: "nat \<Rightarrow> ustr \<Rightarrow> nat option" where
  "digits_value acc [] = Some acc"
| "digits_value acc (c # s) =
     (if is_ascii_digit c then digits_value (10 * acc + nat (c - 48)) s else None)"

text \<open>\<open>str::parse::<u64>\<close>: an optional plus sign, then digits; \<open>None\<close> is the parse error.\<close>

definition parse_u64 :: "ustr \<Rightarrow> nat option" where
  "parse_u64 s =
     (let ds = (case s of [] \<Rightarrow> [] | c # t \<Rightarrow> if c = 43 then t else s)
      in if ds = [] then None
         else (case digits_value 0 ds of
             None \<Rightarrow> None
           | Some n \<Rightarrow> if n \<le> u64_max then Some n else None))"

lemma parse_u64_code [code]:
  "parse_u64 s =
     (let ds = (case s of [] \<Rightarrow> [] | c # t \<Rightarrow> if c = 43 then t else s)
      in if ds = [] then None
         else (case digits_value 0 ds of
             None \<Rightarrow> None
           | Some n \<Rightarrow> if int n \<le> 18446744073709551615 then Some n else None))"
  unfolding parse_u64_def u64_max_int [symmetric] of_nat_le_iff by (rule refl)

lemma dec_nonempty [simp]: "dec n \<noteq> []"
  by (subst dec.simps) simp

lemma dec_digits: "\<forall>c \<in> set (dec n). is_ascii_digit c"
proof (induction n rule: dec.induct)
  case (1 n)
  show ?case
  proof (cases "n < 10")
    case True
    then show ?thesis by (subst dec.simps) (simp add: is_ascii_digit_def)
  next
    case False
    then show ?thesis using 1
      by (subst dec.simps) (auto simp: is_ascii_digit_def)
  qed
qed

lemma digits_value_append:
  "digits_value acc s = Some k \<Longrightarrow> digits_value acc (s @ t) = digits_value k t"
  by (induction acc s rule: digits_value.induct) (auto split: if_splits)

lemma digits_value_dec: "digits_value 0 (dec n) = Some n"
proof (induction n rule: dec.induct)
  case (1 n)
  show ?case
  proof (cases "n < 10")
    case True
    then show ?thesis by (subst dec.simps) (simp add: is_ascii_digit_def)
  next
    case False
    then have "digits_value 0 (dec (n div 10)) = Some (n div 10)" using 1 by simp
    with False show ?thesis
      by (subst dec.simps) (simp add: digits_value_append is_ascii_digit_def)
  qed
qed

lemma parse_u64_dec: "n \<le> u64_max \<Longrightarrow> parse_u64 (dec n) = Some n"
proof -
  assume n: "n \<le> u64_max"
  obtain c t where ct: "dec n = c # t" by (meson dec_nonempty neq_Nil_conv)
  then have "is_ascii_digit c" using dec_digits [of n] by simp
  then have "c \<noteq> 43" by (auto simp: is_ascii_digit_def)
  with ct n digits_value_dec [of n] show ?thesis by (simp add: parse_u64_def)
qed

lemma parse_u64_le: "parse_u64 s = Some n \<Longrightarrow> n \<le> u64_max"
  by (auto simp: parse_u64_def Let_def split: if_splits option.splits list.splits)

lemma dec_inject: "dec m = dec n \<longleftrightarrow> m = n"
  by (metis digits_value_dec option.inject)

subsection \<open>Trimming\<close>

lemma dropWhile_hd: "s \<noteq> [] \<Longrightarrow> \<not> P (hd s) \<Longrightarrow> dropWhile P s = s"
  by (cases s) auto

lemma trim_end_not_ws: "s \<noteq> [] \<Longrightarrow> \<not> is_whitespace (last s) \<Longrightarrow> trim_end s = s"
  by (simp add: trim_end_def dropWhile_hd hd_rev)

lemma trim_start_not_ws: "s \<noteq> [] \<Longrightarrow> \<not> is_whitespace (hd s) \<Longrightarrow> trim_start s = s"
  by (simp add: trim_start_def dropWhile_hd)

lemma trim_not_ws:
  "s \<noteq> [] \<Longrightarrow> \<not> is_whitespace (hd s) \<Longrightarrow> \<not> is_whitespace (last s) \<Longrightarrow> trim s = s"
  by (simp add: trim_def trim_start_not_ws trim_end_not_ws)

lemma trim_end_last: "trim_end s \<noteq> [] \<Longrightarrow> \<not> is_whitespace (last (trim_end s))"
  unfolding trim_end_def by (metis Nil_is_rev_conv hd_dropWhile last_rev)

lemma trim_end_prefix: "\<exists>t. s = trim_end s @ t"
  unfolding trim_end_def
  by (metis rev_append rev_rev_ident takeWhile_dropWhile_id)

lemma trim_Nil [simp]: "trim [] = []"
  by (simp add: trim_def trim_start_def trim_end_def)

lemma trim_hd: "trim s \<noteq> [] \<Longrightarrow> \<not> is_whitespace (hd (trim s))"
proof -
  assume "trim s \<noteq> []"
  then have ne: "trim_end (trim_start s) \<noteq> []" by (simp add: trim_def)
  obtain t where t: "trim_start s = trim_end (trim_start s) @ t"
    using trim_end_prefix by blast
  with ne have hd: "hd (trim_end (trim_start s)) = hd (trim_start s)"
    by (metis hd_append2)
  have "trim_start s \<noteq> []" using ne t by auto
  then have "\<not> is_whitespace (hd (trim_start s))"
    unfolding trim_start_def by (rule hd_dropWhile)
  with hd show ?thesis by (simp add: trim_def)
qed

lemma trim_last: "trim s \<noteq> [] \<Longrightarrow> \<not> is_whitespace (last (trim s))"
  by (simp add: trim_def trim_end_last)

lemma trim_idem [simp]: "trim (trim s) = trim s"
  by (cases "trim s = []") (simp_all add: trim_not_ws trim_hd trim_last)

lemma trim_end_Cons:
  "trim_end (c # s) = (if trim_end s = [] \<and> is_whitespace c then [] else c # trim_end s)"
  by (auto simp: trim_end_def dropWhile_append)

lemma trim_end_idem [simp]: "trim_end (trim_end s) = trim_end s"
  by (simp add: trim_end_def dropWhile_dropWhile1)

lemma trim_start_trim_end: "trim_start (trim_end s) = trim_end (trim_start s)"
proof (induction s)
  case Nil
  then show ?case by (simp add: trim_start_def trim_end_def)
next
  case (Cons c s)
  show ?case
  proof (cases "is_whitespace c")
    case True
    then have "trim_start (c # s) = trim_start s" by (simp add: trim_start_def)
    moreover have "trim_start (trim_end (c # s)) = trim_start (trim_end s)"
      using True by (simp add: trim_end_Cons trim_start_def)
    ultimately show ?thesis using Cons by simp
  next
    case False
    then show ?thesis by (simp add: trim_end_Cons trim_start_def)
  qed
qed

lemma trim_of_trim_end [simp]: "trim (trim_end s) = trim s"
  by (simp add: trim_def trim_start_trim_end)

subsection \<open>Searching and replacing\<close>

text \<open>
  \<open>str::matches(p).count()\<close>, \<open>str::replace\<close> and \<open>str::replacen(.., 1)\<close>: matches are found from
  the left and do not overlap; the empty pattern matches between all characters.
\<close>

function match_count_from :: "ustr \<Rightarrow> ustr \<Rightarrow> nat" where
  "match_count_from p s =
     (if p = [] \<or> length s < length p then 0
      else if starts_with s p then Suc (match_count_from p (drop (length p) s))
      else match_count_from p (tl s))"
  by pat_completeness auto
termination
  by (relation "measure (\<lambda>(p, s). length s)") (auto simp: not_less neq_Nil_conv)

declare match_count_from.simps [simp del]

definition match_count :: "ustr \<Rightarrow> ustr \<Rightarrow> nat" where
  "match_count s p = (if p = [] then length s + 1 else match_count_from p s)"

function replace_from :: "ustr \<Rightarrow> ustr \<Rightarrow> ustr \<Rightarrow> ustr" where
  "replace_from p n s =
     (if p = [] \<or> length s < length p then s
      else if starts_with s p then n @ replace_from p n (drop (length p) s)
      else hd s # replace_from p n (tl s))"
  by pat_completeness auto
termination
  by (relation "measure (\<lambda>(p, n, s). length s)") (auto simp: not_less neq_Nil_conv)

declare replace_from.simps [simp del]

definition str_replace :: "ustr \<Rightarrow> ustr \<Rightarrow> ustr \<Rightarrow> ustr" where
  "str_replace s p n = (if p = [] then concat (map (\<lambda>c. n @ [c]) s) @ n else replace_from p n s)"

fun replace_first :: "ustr \<Rightarrow> ustr \<Rightarrow> ustr \<Rightarrow> ustr" where
  "replace_first [] p n = (if p = [] then n else [])"
| "replace_first (c # s) p n =
     (if starts_with (c # s) p then n @ drop (length p) (c # s) else c # replace_first s p n)"

lemma starts_with_length: "starts_with s p \<Longrightarrow> length p \<le> length s"
  by (auto simp: starts_with_iff)

lemma contains_str_iff: "contains_str s p \<longleftrightarrow> (\<exists>a b. s = a @ p @ b)"
proof (induction s)
  case Nil
  then show ?case by auto
next
  case (Cons c s)
  show ?case
  proof
    assume "contains_str (c # s) p"
    then consider "starts_with (c # s) p" | "contains_str s p" by auto
    then show "\<exists>a b. c # s = a @ p @ b"
    proof cases
      case 1
      then obtain b where "c # s = p @ b" by (auto simp: starts_with_iff)
      then show ?thesis by (intro exI [of _ "[]"] exI [of _ b]) simp
    next
      case 2
      then obtain a b where "s = a @ p @ b" using Cons by auto
      then show ?thesis by (intro exI [of _ "c # a"] exI [of _ b]) simp
    qed
  next
    assume "\<exists>a b. c # s = a @ p @ b"
    then obtain a b where ab: "c # s = a @ p @ b" by blast
    show "contains_str (c # s) p"
    proof (cases a)
      case Nil
      then have "starts_with (c # s) p" using ab by (metis append_Nil starts_with_append)
      then show ?thesis unfolding contains_str.simps by (rule disjI1)
    next
      case (Cons d a')
      then have "contains_str s p" using ab Cons.IH by auto
      then show ?thesis by simp
    qed
  qed
qed

lemma match_count_from_pos: "p \<noteq> [] \<Longrightarrow> 0 < match_count_from p s \<longleftrightarrow> contains_str s p"
proof (induction p s rule: match_count_from.induct)
  case (1 p s)
  show ?case
  proof (cases "length s < length p")
    case True
    then show ?thesis by (subst match_count_from.simps) (auto simp: contains_str_iff)
  next
    case False
    then obtain c t where s: "s = c # t" using "1.prems" by (cases s) auto
    show ?thesis using 1 False s by (subst match_count_from.simps) auto
  qed
qed

text \<open>When a non-empty pattern matches, the first match is replaced and the text before it has none.\<close>

lemma replace_first_split:
  "contains_str s p \<Longrightarrow> p \<noteq> [] \<Longrightarrow> \<exists>a b. s = a @ p @ b \<and> replace_first s p n = a @ n @ b"
proof (induction s)
  case (Cons c s)
  show ?case
  proof (cases "starts_with (c # s) p")
    case True
    then obtain b where "c # s = p @ b" by (auto simp: starts_with_iff)
    moreover have "replace_first (c # s) p n = n @ drop (length p) (c # s)" using True by simp
    ultimately show ?thesis by (intro exI [of _ "[]"] exI [of _ b]) simp
  next
    case False
    then obtain a b where "s = a @ p @ b" "replace_first s p n = a @ n @ b"
      using Cons by auto
    with False show ?thesis by (intro exI [of _ "c # a"] exI [of _ b]) simp
  qed
qed simp

text \<open>The number of bytes of the UTF-8 encoding, \<open>str::len\<close>.\<close>

definition utf8_len :: "ustr \<Rightarrow> int" where
  "utf8_len s = sum_list (map (\<lambda>c. if c < 0x80 then 1 else if c < 0x800 then 2 else if c < 0x10000 then 3 else 4) s)"

end
