(* ===== verification/Prelude.thy ===== *)
theory Prelude
  imports RustStd
begin

section \<open>Shared vocabulary: fallible stateful code, JSON values, step systems\<close>

text \<open>
  \<^item> A Rust method \<open>fn f(&mut self, ..) -> Result<A, E>\<close> is a function from the state to a result
    and a state: an error keeps whatever the method had already written, so "a failed call changes
    nothing" is a theorem about the code and not a consequence of the modelling.
  \<^item> \<open>serde_json::Value\<close> is the datatype of JSON values; an object is its list of entries.
  \<^item> The interfaces that several components provide are locales: a bounded step system (every
    step decreases a measure, so runs are finite) and a keyed store (what a lookup returns after
    a write or a removal).
\<close>

named_theorems em_simps \<open>unfolding rules of the error-state combinators\<close>

subsection \<open>Fallible state transformers\<close>

type_synonym ('s, 'e, 'a) em = "'s \<Rightarrow> ('e + 'a) \<times> 's"

definition retE :: "'a \<Rightarrow> ('s, 'e, 'a) em" where
  "retE a = (\<lambda>s. (Inr a, s))"

definition throwE :: "'e \<Rightarrow> ('s, 'e, 'a) em" where
  "throwE e = (\<lambda>s. (Inl e, s))"

definition getE :: "('s \<Rightarrow> 'a) \<Rightarrow> ('s, 'e, 'a) em" where
  "getE f = (\<lambda>s. (Inr (f s), s))"

definition modifyE :: "('s \<Rightarrow> 's) \<Rightarrow> ('s, 'e, unit) em" where
  "modifyE f = (\<lambda>s. (Inr (), f s))"

definition bindE :: "('s, 'e, 'a) em \<Rightarrow> ('a \<Rightarrow> ('s, 'e, 'b) em) \<Rightarrow> ('s, 'e, 'b) em" where
  "bindE m k = (\<lambda>s. case m s of (Inl e, s') \<Rightarrow> (Inl e, s') | (Inr a, s') \<Rightarrow> k a s')"

definition thenE :: "('s, 'e, 'a) em \<Rightarrow> ('s, 'e, 'b) em \<Rightarrow> ('s, 'e, 'b) em" where
  "thenE m k = bindE m (\<lambda>_. k)"

text \<open>\<open>Option::ok_or(e)?\<close>.\<close>

definition okOrE :: "'e \<Rightarrow> 'a option \<Rightarrow> ('s, 'e, 'a) em" where
  "okOrE e x = (case x of None \<Rightarrow> throwE e | Some a \<Rightarrow> retE a)"

lemma retE_apply [simp, em_simps]: "retE a s = (Inr a, s)"
  by (simp add: retE_def)

lemma throwE_apply [simp, em_simps]: "throwE e s = (Inl e, s)"
  by (simp add: throwE_def)

lemma getE_apply [simp, em_simps]: "getE f s = (Inr (f s), s)"
  by (simp add: getE_def)

lemma modifyE_apply [simp, em_simps]: "modifyE f s = (Inr (), f s)"
  by (simp add: modifyE_def)

lemma bindE_apply [em_simps]:
  "bindE m k s = (case m s of (Inl e, s') \<Rightarrow> (Inl e, s') | (Inr a, s') \<Rightarrow> k a s')"
  by (simp add: bindE_def)

lemma thenE_apply [em_simps]:
  "thenE m k s = (case m s of (Inl e, s') \<Rightarrow> (Inl e, s') | (Inr a, s') \<Rightarrow> k s')"
  by (simp add: thenE_def bindE_def)

lemma okOrE_apply [em_simps]:
  "okOrE e x s = (case x of None \<Rightarrow> (Inl e, s) | Some a \<Rightarrow> (Inr a, s))"
  by (simp add: okOrE_def split: option.split)

subsection \<open>JSON values\<close>

datatype json =
    JNull
  | JBool bool
  | JNum int
  | JStr ustr
  | JArr "json list"
  | JObj "(ustr \<times> json) list"

definition jget :: "string \<Rightarrow> json \<Rightarrow> json option" where
  "jget k v = (case v of JObj kvs \<Rightarrow> map_of kvs (lit k) | _ \<Rightarrow> None)"

definition as_str :: "json \<Rightarrow> ustr option" where
  "as_str v = (case v of JStr s \<Rightarrow> Some s | _ \<Rightarrow> None)"

definition as_array :: "json \<Rightarrow> json list option" where
  "as_array v = (case v of JArr vs \<Rightarrow> Some vs | _ \<Rightarrow> None)"

definition as_bool :: "json \<Rightarrow> bool option" where
  "as_bool v = (case v of JBool b \<Rightarrow> Some b | _ \<Rightarrow> None)"

definition as_u64 :: "json \<Rightarrow> nat option" where
  "as_u64 v = (case v of JNum n \<Rightarrow> if 0 \<le> n \<and> n \<le> 18446744073709551615 then Some (nat n) else None | _ \<Rightarrow> None)"

definition is_null :: "json \<Rightarrow> bool" where
  "is_null v \<longleftrightarrow> v = JNull"

definition jstr :: "string \<Rightarrow> json \<Rightarrow> ustr option" where
  "jstr k v = Option.bind (jget k v) as_str"

lemma as_str_Some [simp]: "as_str v = Some s \<longleftrightarrow> v = JStr s"
  by (cases v) (auto simp: as_str_def)

lemma as_array_Some [simp]: "as_array v = Some vs \<longleftrightarrow> v = JArr vs"
  by (cases v) (auto simp: as_array_def)

lemma as_array_JArr [simp]: "as_array (JArr vs) = Some vs"
  by simp

lemma jget_JObj [simp]: "jget k (JObj kvs) = map_of kvs (lit k)"
  by (simp add: jget_def)

subsection \<open>Step systems that must stop\<close>

text \<open>
  \<open>step s i\<close> is the state after input \<open>i\<close> when the system accepts it. A measure that every
  accepted input decreases bounds the length of every run.
\<close>

fun run_steps :: "('s \<Rightarrow> 'i \<Rightarrow> 's option) \<Rightarrow> 's \<Rightarrow> 'i list \<Rightarrow> 's option" where
  "run_steps step s [] = Some s"
| "run_steps step s (i # is) =
     (case step s i of None \<Rightarrow> None | Some t \<Rightarrow> run_steps step t is)"

lemma run_steps_append:
  "run_steps step s (is @ js) =
     (case run_steps step s is of None \<Rightarrow> None | Some t \<Rightarrow> run_steps step t js)"
  by (induction "is" arbitrary: s) (auto split: option.splits)

locale step_invariant =
  fixes step :: "'s \<Rightarrow> 'i \<Rightarrow> 's option"
    and inv :: "'s \<Rightarrow> bool"
  assumes step_inv: "inv s \<Longrightarrow> step s i = Some t \<Longrightarrow> inv t"
begin

lemma run_inv: "inv s \<Longrightarrow> run_steps step s is = Some t \<Longrightarrow> inv t"
  by (induction "is" arbitrary: s) (auto split: option.splits intro: step_inv)

end

locale bounded_steps = step_invariant step inv
  for step :: "'s \<Rightarrow> 'i \<Rightarrow> 's option" and inv :: "'s \<Rightarrow> bool" +
  fixes m :: "'s \<Rightarrow> nat"
  assumes step_decreases: "inv s \<Longrightarrow> step s i = Some t \<Longrightarrow> m t < m s"
begin

lemma run_measure: "inv s \<Longrightarrow> run_steps step s is = Some t \<Longrightarrow> m t + length is \<le> m s"
proof (induction "is" arbitrary: s)
  case Nil
  then show ?case by simp
next
  case (Cons i "is")
  then obtain u where u: "step s i = Some u" "run_steps step u is = Some t"
    by (auto split: option.splits)
  then have "m u < m s" "inv u" using Cons.prems by (auto intro: step_decreases step_inv)
  then show ?case using Cons.IH [of u] u by fastforce
qed

lemma run_bounded: "inv s \<Longrightarrow> run_steps step s is = Some t \<Longrightarrow> length is \<le> m s"
  using run_measure by fastforce

end

subsection \<open>Keyed stores\<close>

locale keyed_store =
  fixes lookup :: "'st \<Rightarrow> 'k \<Rightarrow> 'v option"
    and put :: "'st \<Rightarrow> 'k \<Rightarrow> 'v \<Rightarrow> 'st"
    and remove :: "'st \<Rightarrow> 'k \<Rightarrow> 'st"
  assumes lookup_put: "lookup (put st k v) k' = (if k' = k then Some v else lookup st k')"
    and lookup_remove: "lookup (remove st k) k' = (if k' = k then None else lookup st k')"
begin

text \<open>Writing a batch of entries in order; where the keys are distinct, the order is immaterial.\<close>

fun put_all :: "'st \<Rightarrow> ('k \<times> 'v) list \<Rightarrow> 'st" where
  "put_all st [] = st"
| "put_all st ((k, v) # kvs) = put_all (put st k v) kvs"

lemma lookup_put_all_other: "k \<notin> fst ` set kvs \<Longrightarrow> lookup (put_all st kvs) k = lookup st k"
  by (induction st kvs rule: put_all.induct) (auto simp: lookup_put)

lemma lookup_put_all:
  "distinct (map fst kvs) \<Longrightarrow>
     lookup (put_all st kvs) k = (case map_of kvs k of None \<Rightarrow> lookup st k | Some v \<Rightarrow> Some v)"
proof (induction st kvs rule: put_all.induct)
  case (2 st j v kvs)
  then have "map_of kvs j = None" by (simp add: map_of_eq_None_iff)
  with 2 show ?case by (auto simp: lookup_put lookup_put_all_other split: option.split)
qed simp

end

end
