(* ===== verification/LoopMachine.thy ===== *)
theory LoopMachine
  imports Prelude
begin

section \<open>The agent loop's control state (crates/rara-agent: types.rs, machine.rs)\<close>

text \<open>
  The serialisable state machine that sequences one entry into the agent loop. Each operation is
  an error-state transformer, so the machine after a rejected call is part of its result.
  Lemmas: what a rejected call leaves behind, effect identities, the correspondence between the
  machine's phase and the effect it last asked for, the counters' limits, and termination under
  a turn limit.
\<close>

subsection \<open>types.rs\<close>

datatype execution_mode = Execute | Plan | Review

record loop_progress =
  agentic_turns :: nat

record iteration_budget =
  max_turns :: "nat option"
  token_budget :: "nat option"
  total_model_tokens :: nat

record response_evidence =
  had_text_response :: bool
  had_reasoning_response :: bool

definition is_reasoning_only :: "response_evidence \<Rightarrow> bool" where
  "is_reasoning_only r \<longleftrightarrow> had_reasoning_response r \<and> \<not> had_text_response r"

record model_observation =
  tool_call_count :: nat
  plan_exit_call_id :: "ustr option"
  plan_updated :: bool
  malformed_proposed_plan :: bool
  continue_inspection :: bool
  response :: response_evidence

record inspection_evidence =
  has_any_evidence :: bool
  has_minimum_review_evidence :: bool

record pending_interactions =
  pending_user_input :: bool
  pending_approval :: bool

record continuation_context =
  mode :: execution_mode
  plan_steps :: nat
  inspection :: inspection_evidence
  pending :: pending_interactions

datatype plan_exit_issue = IncompletePlan | MissingPlan

record plan_exit_rejection =
  rejected_call_id :: ustr
  issue :: plan_exit_issue

datatype text_continuation =
  PlanNeedsEvidence | PlanReasoningOnly | ExecuteNeedsInspection | ExecuteReasoningOnly

datatype continuation =
  PlanExitRepair plan_exit_rejection | Automatic text_continuation | StopHookBlocked

datatype stop_hook_outcome = AllowCompletion | BlockCompletion

datatype tool_batch_outcome = ResultsAvailable | AwaitingApproval

datatype loop_end =
    ResponseComplete
  | StopHookLimitReached nat
  | MaxTurnsReached nat
  | TokenBudgetReached nat nat \<comment> \<open>budget, used\<close>
  | PlanExitRepairExhausted plan_exit_rejection
  | EndAwaitingApproval

datatype loop_effect =
    RequestModel
  | RecordAssistant
  | Continue continuation
  | RunStopHooks bool \<comment> \<open>\<open>stop_hook_active\<close>\<close>
  | RunTools
  | CommitToolResults
  | Finalize loop_end

type_synonym effect_id = nat

record loop_request =
  request_id :: effect_id
  effect :: loop_effect

datatype loop_phase =
    PhReady | PhModelPending | PhAssistantPending | PhStopHooksPending | PhToolsPending
  | PhToolResultsPending | PhContinuationPending | PhFinalizing | PhFinished

datatype loop_input =
    BeginIteration | ModelCompleted | AssistantRecorded | StopHooksCompleted | ToolsCompleted
  | CheckpointCompleted | FinalizationCompleted

datatype transition_error =
    WrongPhase loop_input loop_phase
  | WrongEffect effect_id effect_id \<comment> \<open>expected, received\<close>
  | CounterOverflow
  | EffectCounterOverflow

definition continuation_for ::
  "continuation_context \<Rightarrow> model_observation \<Rightarrow> loop_progress \<Rightarrow> continuation option" where
  "continuation_for ctx obs prog =
     (if pending_user_input (pending ctx) \<or> pending_approval (pending ctx) then None
      else
        let reasoning_only = is_reasoning_only (response obs)
        in (case mode ctx of
              Plan \<Rightarrow>
                let shallow_initial_plan =
                      plan_updated obs \<and> agentic_turns prog = 0 \<and> plan_steps ctx \<le> 1;
                    missing_inspection =
                      agentic_turns prog > 0 \<and> \<not> plan_updated obs
                      \<and> has_any_evidence (inspection ctx)
                      \<and> \<not> has_minimum_review_evidence (inspection ctx);
                    should_continue =
                      (continue_inspection obs \<or> shallow_initial_plan \<or> missing_inspection
                        \<or> reasoning_only)
                      \<and> (continue_inspection obs \<or> has_any_evidence (inspection ctx)
                        \<or> plan_steps ctx > 0 \<or> had_text_response (response obs)
                        \<or> reasoning_only)
                in if should_continue
                   then Some (Automatic (if reasoning_only then PlanReasoningOnly
                                         else PlanNeedsEvidence))
                   else None
            | Execute \<Rightarrow>
                if continue_inspection obs \<or> reasoning_only
                then Some (Automatic (if reasoning_only then ExecuteReasoningOnly
                                      else ExecuteNeedsInspection))
                else None
            | Review \<Rightarrow> None))"

subsection \<open>machine.rs\<close>

definition MAX_PLAN_EXIT_REPAIRS :: nat where "MAX_PLAN_EXIT_REPAIRS = 1"

definition MAX_STOP_HOOK_CONTINUATIONS :: nat where "MAX_STOP_HOOK_CONTINUATIONS = 8"

datatype loop_state =
    Ready
  | ModelPending
  | AssistantPending model_observation
  | StopHooksPending
  | ToolsPending
  | ToolResultsPending
  | ContinuationPending continuation
  | Finalizing loop_end
  | Finished loop_end

record loop_machine =
  state :: loop_state
  effect_id :: effect_id
  progress :: loop_progress
  plan_exit_repairs :: nat
  stop_hook_continuations :: nat

type_synonym 'a machine_op = "(loop_machine, transition_error, 'a) em"

definition new_machine :: "loop_progress \<Rightarrow> loop_machine" where
  "new_machine p =
     \<lparr>state = Ready, effect_id = 0, progress = p, plan_exit_repairs = 0,
      stop_hook_continuations = 0\<rparr>"

fun phase_of :: "loop_state \<Rightarrow> loop_phase" where
  "phase_of Ready = PhReady"
| "phase_of ModelPending = PhModelPending"
| "phase_of (AssistantPending _) = PhAssistantPending"
| "phase_of StopHooksPending = PhStopHooksPending"
| "phase_of ToolsPending = PhToolsPending"
| "phase_of ToolResultsPending = PhToolResultsPending"
| "phase_of (ContinuationPending _) = PhContinuationPending"
| "phase_of (Finalizing _) = PhFinalizing"
| "phase_of (Finished _) = PhFinished"

definition wrong_phase :: "loop_input \<Rightarrow> 'a machine_op" where
  "wrong_phase input = (\<lambda>m. throwE (WrongPhase input (phase_of (state m))) m)"

definition require_phase :: "loop_phase \<Rightarrow> loop_input \<Rightarrow> unit machine_op" where
  "require_phase ph input =
     (\<lambda>m. if phase_of (state m) = ph then retE () m else wrong_phase input m)"

definition require_effect :: "effect_id \<Rightarrow> unit machine_op" where
  "require_effect received =
     (\<lambda>m. if received = effect_id m then retE () m
          else throwE (WrongEffect (effect_id m) received) m)"

definition next_effect_id :: "effect_id machine_op" where
  "next_effect_id = (\<lambda>m. okOrE EffectCounterOverflow (checked_add64 (effect_id m) 1) m)"

definition request :: "effect_id \<Rightarrow> loop_effect \<Rightarrow> loop_request machine_op" where
  "request i e =
     thenE (modifyE (\<lambda>m. m\<lparr>effect_id := i\<rparr>)) (retE \<lparr>request_id = i, effect = e\<rparr>)"

definition set_state :: "loop_state \<Rightarrow> unit machine_op" where
  "set_state st = modifyE (\<lambda>m. m\<lparr>state := st\<rparr>)"

definition finalize :: "effect_id \<Rightarrow> loop_end \<Rightarrow> loop_request machine_op" where
  "finalize next e = thenE (set_state (Finalizing e)) (request next (Finalize e))"

definition continue_with :: "effect_id \<Rightarrow> continuation \<Rightarrow> loop_request machine_op" where
  "continue_with next c = thenE (set_state (ContinuationPending c)) (request next (Continue c))"

definition increment_turn :: "unit machine_op" where
  "increment_turn =
     (\<lambda>m. case checked_add64 (agentic_turns (progress m)) 1 of
            None \<Rightarrow> throwE CounterOverflow m
          | Some n \<Rightarrow> modifyE (\<lambda>m. m\<lparr>progress := (progress m)\<lparr>agentic_turns := n\<rparr>\<rparr>) m)"

definition reached :: "nat option \<Rightarrow> nat \<Rightarrow> nat option" where
  "reached bound n = (case bound of Some l \<Rightarrow> if l \<le> n then Some l else None | None \<Rightarrow> None)"

definition next_iteration :: "effect_id \<Rightarrow> iteration_budget \<Rightarrow> loop_request machine_op" where
  "next_iteration next budget =
     (\<lambda>m. case reached (max_turns budget) (agentic_turns (progress m)) of
            Some limit \<Rightarrow> finalize next (MaxTurnsReached limit) m
          | None \<Rightarrow>
              (case reached (token_budget budget) (total_model_tokens budget) of
                Some limit \<Rightarrow>
                  finalize next (TokenBudgetReached limit (total_model_tokens budget)) m
              | None \<Rightarrow> thenE (set_state ModelPending) (request next RequestModel) m))"

definition begin_iteration :: "iteration_budget \<Rightarrow> loop_request machine_op" where
  "begin_iteration budget =
     thenE (require_phase PhReady BeginIteration)
       (bindE next_effect_id (\<lambda>next. next_iteration next budget))"

definition model_completed :: "effect_id \<Rightarrow> model_observation \<Rightarrow> loop_request machine_op" where
  "model_completed receipt obs =
     thenE (require_effect receipt)
       (thenE (require_phase PhModelPending ModelCompleted)
         (bindE next_effect_id (\<lambda>next m.
           case plan_exit_call_id obs of
             Some call_id \<Rightarrow>
               if malformed_proposed_plan obs \<or> \<not> plan_updated obs then
                 let rejection = \<lparr>rejected_call_id = call_id,
                       issue = (if malformed_proposed_plan obs then IncompletePlan
                                else MissingPlan)\<rparr>
                 in if plan_exit_repairs m < MAX_PLAN_EXIT_REPAIRS then
                      thenE increment_turn
                        (thenE (modifyE (\<lambda>m. m\<lparr>plan_exit_repairs := plan_exit_repairs m + 1\<rparr>))
                          (continue_with next (PlanExitRepair rejection))) m
                    else finalize next (PlanExitRepairExhausted rejection) m
               else thenE (set_state (AssistantPending obs)) (request next RecordAssistant) m
           | None \<Rightarrow> thenE (set_state (AssistantPending obs)) (request next RecordAssistant) m)))"

definition assistant_recorded ::
  "effect_id \<Rightarrow> continuation_context \<Rightarrow> loop_request machine_op" where
  "assistant_recorded receipt ctx =
     thenE (require_effect receipt)
       (bindE next_effect_id (\<lambda>next m.
         case state m of
           AssistantPending obs \<Rightarrow>
             if tool_call_count obs > 0 then
               thenE increment_turn (thenE (set_state ToolsPending) (request next RunTools)) m
             else (case continuation_for ctx obs (progress m) of
               Some c \<Rightarrow> thenE increment_turn (continue_with next c) m
             | None \<Rightarrow>
                 thenE (set_state StopHooksPending)
                   (request next (RunStopHooks (stop_hook_continuations m > 0))) m)
         | _ \<Rightarrow> wrong_phase AssistantRecorded m))"

definition stop_hooks_completed ::
  "effect_id \<Rightarrow> stop_hook_outcome \<Rightarrow> loop_request machine_op" where
  "stop_hooks_completed receipt outcome =
     thenE (require_effect receipt)
       (thenE (require_phase PhStopHooksPending StopHooksCompleted)
         (bindE next_effect_id (\<lambda>next m.
           case outcome of
             AllowCompletion \<Rightarrow> finalize next ResponseComplete m
           | BlockCompletion \<Rightarrow>
               if stop_hook_continuations m < MAX_STOP_HOOK_CONTINUATIONS then
                 thenE increment_turn
                   (thenE (modifyE (\<lambda>m. m\<lparr>stop_hook_continuations :=
                                              stop_hook_continuations m + 1\<rparr>))
                     (continue_with next StopHookBlocked)) m
               else finalize next (StopHookLimitReached MAX_STOP_HOOK_CONTINUATIONS) m)))"

definition tools_completed ::
  "effect_id \<Rightarrow> tool_batch_outcome \<Rightarrow> loop_request machine_op" where
  "tools_completed receipt outcome =
     thenE (require_effect receipt)
       (thenE (require_phase PhToolsPending ToolsCompleted)
         (bindE next_effect_id (\<lambda>next.
           case outcome of
             ResultsAvailable \<Rightarrow>
               thenE (set_state ToolResultsPending) (request next CommitToolResults)
           | AwaitingApproval \<Rightarrow> finalize next EndAwaitingApproval)))"

definition checkpoint_completed ::
  "effect_id \<Rightarrow> iteration_budget \<Rightarrow> loop_request machine_op" where
  "checkpoint_completed receipt budget =
     thenE (require_effect receipt) (\<lambda>m.
       case state m of
         ContinuationPending _ \<Rightarrow> bindE next_effect_id (\<lambda>next. next_iteration next budget) m
       | ToolResultsPending \<Rightarrow> bindE next_effect_id (\<lambda>next. next_iteration next budget) m
       | _ \<Rightarrow> wrong_phase CheckpointCompleted m)"

definition finalization_completed :: "effect_id \<Rightarrow> loop_end machine_op" where
  "finalization_completed receipt =
     thenE (require_effect receipt) (\<lambda>m.
       case state m of
         Finalizing e \<Rightarrow> thenE (set_state (Finished e)) (retE e) m
       | _ \<Rightarrow> wrong_phase FinalizationCompleted m)"

subsection \<open>One step of the machine\<close>

datatype machine_input =
    InBegin iteration_budget
  | InModel effect_id model_observation
  | InAssistant effect_id continuation_context
  | InStopHooks effect_id stop_hook_outcome
  | InTools effect_id tool_batch_outcome
  | InCheckpoint effect_id iteration_budget
  | InFinalization effect_id

text \<open>The request a call returns; \<open>finalization_completed\<close> returns an end and no request.\<close>

fun apply_input :: "machine_input \<Rightarrow> loop_request option machine_op" where
  "apply_input (InBegin b) = bindE (begin_iteration b) (\<lambda>r. retE (Some r))"
| "apply_input (InModel i obs) = bindE (model_completed i obs) (\<lambda>r. retE (Some r))"
| "apply_input (InAssistant i ctx) = bindE (assistant_recorded i ctx) (\<lambda>r. retE (Some r))"
| "apply_input (InStopHooks i out) = bindE (stop_hooks_completed i out) (\<lambda>r. retE (Some r))"
| "apply_input (InTools i out) = bindE (tools_completed i out) (\<lambda>r. retE (Some r))"
| "apply_input (InCheckpoint i b) = bindE (checkpoint_completed i b) (\<lambda>r. retE (Some r))"
| "apply_input (InFinalization i) = bindE (finalization_completed i) (\<lambda>_. retE None)"

fun receipt_of :: "machine_input \<Rightarrow> effect_id option" where
  "receipt_of (InBegin b) = None"
| "receipt_of (InModel i obs) = Some i"
| "receipt_of (InAssistant i ctx) = Some i"
| "receipt_of (InStopHooks i out) = Some i"
| "receipt_of (InTools i out) = Some i"
| "receipt_of (InCheckpoint i b) = Some i"
| "receipt_of (InFinalization i) = Some i"

definition machine_step :: "loop_machine \<Rightarrow> machine_input \<Rightarrow> loop_machine option" where
  "machine_step m i = (case apply_input i m of (Inr _, m') \<Rightarrow> Some m' | (Inl _, _) \<Rightarrow> None)"

text \<open>The state the machine waits in for the effect it asked for.\<close>

fun awaits :: "loop_effect \<Rightarrow> loop_state \<Rightarrow> bool" where
  "awaits RequestModel st = (st = ModelPending)"
| "awaits RecordAssistant st = (\<exists>obs. st = AssistantPending obs)"
| "awaits (Continue c) st = (st = ContinuationPending c)"
| "awaits (RunStopHooks _) st = (st = StopHooksPending)"
| "awaits RunTools st = (st = ToolsPending)"
| "awaits CommitToolResults st = (st = ToolResultsPending)"
| "awaits (Finalize e) st = (st = Finalizing e)"

lemmas machine_ops =
  begin_iteration_def model_completed_def assistant_recorded_def stop_hooks_completed_def
  tools_completed_def checkpoint_completed_def finalization_completed_def
  next_iteration_def finalize_def continue_with_def increment_turn_def request_def set_state_def
  next_effect_id_def require_phase_def require_effect_def wrong_phase_def

lemmas machine_splits =
  if_splits option.splits loop_state.splits stop_hook_outcome.splits tool_batch_outcome.splits

lemma apply_input_failed: "apply_input i m = (Inl e, m') \<Longrightarrow> m' = m"
  by (cases i) (auto simp: machine_ops em_simps Let_def split: machine_splits)

lemma apply_input_request:
  "apply_input i m = (Inr (Some r), m') \<Longrightarrow>
     request_id r = effect_id m + 1 \<and> effect_id m' = effect_id m + 1 \<and> effect_id m < u64_max
     \<and> awaits (effect r) (state m')"
  by (cases i) (auto simp: machine_ops em_simps Let_def split: machine_splits)

lemma apply_input_receipt:
  "apply_input i m = (Inr out, m') \<Longrightarrow> receipt_of i = Some k \<Longrightarrow> k = effect_id m"
  by (cases i) (auto simp: machine_ops em_simps split: machine_splits)

lemma apply_input_stale:
  "receipt_of i = Some k \<Longrightarrow> k \<noteq> effect_id m \<Longrightarrow>
     apply_input i m = (Inl (WrongEffect (effect_id m) k), m)"
  by (cases i) (auto simp: machine_ops em_simps)

lemma apply_input_finished:
  "state m = Finished e \<Longrightarrow> \<exists>err. apply_input i m = (Inl err, m)"
  by (cases i) (auto simp: machine_ops em_simps split: option.splits)

lemma apply_input_end:
  "apply_input i m = (Inr None, m') \<Longrightarrow>
     \<exists>e. state m = Finalizing e \<and> m' = m\<lparr>state := Finished e\<rparr>"
  by (cases i) (auto simp: machine_ops em_simps Let_def split: machine_splits)

text \<open>The inputs that report the outcome of an effect.\<close>

fun answers :: "machine_input \<Rightarrow> loop_effect \<Rightarrow> bool" where
  "answers (InModel _ _) e = (e = RequestModel)"
| "answers (InAssistant _ _) e = (e = RecordAssistant)"
| "answers (InStopHooks _ _) e = (\<exists>a. e = RunStopHooks a)"
| "answers (InTools _ _) e = (e = RunTools)"
| "answers (InCheckpoint _ _) e = (e = CommitToolResults \<or> (\<exists>c. e = Continue c))"
| "answers (InFinalization _) e = (\<exists>x. e = Finalize x)"
| "answers (InBegin _) e = False"

lemma apply_input_answers:
  "awaits e (state m) \<Longrightarrow> answers i e \<Longrightarrow> receipt_of i = Some (effect_id m)
    \<Longrightarrow> apply_input i m = (Inl err, m') \<Longrightarrow> err = CounterOverflow \<or> err = EffectCounterOverflow"
  by (cases i) (auto simp: machine_ops em_simps Let_def split: machine_splits)

subsection \<open>Counters\<close>

definition counters_ok :: "loop_machine \<Rightarrow> bool" where
  "counters_ok m \<longleftrightarrow>
     plan_exit_repairs m \<le> MAX_PLAN_EXIT_REPAIRS
     \<and> stop_hook_continuations m \<le> MAX_STOP_HOOK_CONTINUATIONS
     \<and> effect_id m \<le> u64_max
     \<and> (agentic_turns (progress m) \<le> u64_max)"

lemma machine_step_counters: "counters_ok m \<Longrightarrow> machine_step m i = Some m' \<Longrightarrow> counters_ok m'"
  by (cases i)
    (auto simp: machine_step_def counters_ok_def machine_ops em_simps Let_def
      split: machine_splits prod.splits sum.splits)

interpretation lm_counters: step_invariant machine_step counters_ok
  by unfold_locales (rule machine_step_counters)

lemma new_machine_counters: "agentic_turns p \<le> u64_max \<Longrightarrow> counters_ok (new_machine p)"
  by (simp add: counters_ok_def new_machine_def)

text \<open>Turns are counted up by accepted tool iterations and forced continuations, one at a time.\<close>

lemma machine_step_turns:
  "machine_step m i = Some m' \<Longrightarrow>
     agentic_turns (progress m') = agentic_turns (progress m)
     \<or> agentic_turns (progress m') = agentic_turns (progress m) + 1"
  by (cases i)
    (auto simp: machine_step_def machine_ops em_simps Let_def
      split: machine_splits prod.splits sum.splits)

subsection \<open>Termination under a turn limit\<close>

fun input_budget :: "machine_input \<Rightarrow> iteration_budget option" where
  "input_budget (InBegin b) = Some b"
| "input_budget (InCheckpoint i b) = Some b"
| "input_budget _ = None"

definition limited_input :: "nat \<Rightarrow> machine_input \<Rightarrow> bool" where
  "limited_input L i \<longleftrightarrow>
     (case input_budget i of None \<Rightarrow> True
      | Some b \<Rightarrow> (case max_turns b of None \<Rightarrow> False | Some l \<Rightarrow> l \<le> L))"

definition limited_step :: "nat \<Rightarrow> loop_machine \<Rightarrow> machine_input \<Rightarrow> loop_machine option" where
  "limited_step L m i = (if limited_input L i then machine_step m i else None)"

fun state_rank :: "loop_state \<Rightarrow> nat" where
  "state_rank Ready = 5"
| "state_rank ModelPending = 4"
| "state_rank (AssistantPending _) = 3"
| "state_rank StopHooksPending = 2"
| "state_rank ToolsPending = 6"
| "state_rank ToolResultsPending = 5"
| "state_rank (ContinuationPending _) = 5"
| "state_rank (Finalizing _) = 1"
| "state_rank (Finished _) = 0"

definition turn_measure :: "nat \<Rightarrow> loop_machine \<Rightarrow> nat" where
  "turn_measure L m = 6 * (L - agentic_turns (progress m)) + state_rank (state m)"

definition turn_guard :: "nat \<Rightarrow> loop_machine \<Rightarrow> bool" where
  "turn_guard L m \<longleftrightarrow>
     (case state m of
        ModelPending \<Rightarrow> agentic_turns (progress m) < L
      | AssistantPending _ \<Rightarrow> agentic_turns (progress m) < L
      | StopHooksPending \<Rightarrow> agentic_turns (progress m) < L
      | _ \<Rightarrow> True)"

lemma turn_guard_new [simp]: "turn_guard L (new_machine p)"
  by (simp add: turn_guard_def new_machine_def)

lemma limited_step_guard: "turn_guard L m \<Longrightarrow> limited_step L m i = Some m' \<Longrightarrow> turn_guard L m'"
  by (cases i)
    (auto simp: limited_step_def limited_input_def machine_step_def turn_guard_def reached_def
        machine_ops em_simps Let_def
      split: machine_splits prod.splits sum.splits)

lemma limited_step_measure:
  "turn_guard L m \<Longrightarrow> limited_step L m i = Some m' \<Longrightarrow> turn_measure L m' < turn_measure L m"
  by (cases i)
    (auto simp: limited_step_def limited_input_def machine_step_def turn_guard_def reached_def
        turn_measure_def machine_ops em_simps Let_def
      split: machine_splits prod.splits sum.splits)

interpretation lm_turns: bounded_steps "limited_step L" "turn_guard L" "turn_measure L" for L
  by unfold_locales (auto intro: limited_step_guard limited_step_measure)

subsection \<open>Properties\<close>

definition example_observation :: model_observation where
  "example_observation =
     \<lparr>tool_call_count = 1, plan_exit_call_id = None, plan_updated = False,
      malformed_proposed_plan = False, continue_inspection = False,
      response = \<lparr>had_text_response = True, had_reasoning_response = False\<rparr>\<rparr>"

definition example_budget :: iteration_budget where
  "example_budget = \<lparr>max_turns = Some 2, token_budget = Some 100, total_model_tokens = 7\<rparr>"

definition example_machine :: loop_machine where
  "example_machine = \<lparr>state = ModelPending, effect_id = 1, progress = \<lparr>agentic_turns = 0\<rparr>,
     plan_exit_repairs = 0, stop_hook_continuations = 0\<rparr>"

text \<open>
  A call the machine rejects (wrong phase, stale receipt, counter overflow) leaves every field
  of the machine as it was, although the code writes its fields before some of its checks.
\<close>

theorem rejected_call_changes_nothing:
  assumes "apply_input i m = (Inl e, m')"
  shows "m' = m"
  using assms by (rule apply_input_failed)

theorem rejected_call_changes_nothing_witness:
  "apply_input (InModel 5 example_observation) example_machine
     = (Inl (WrongEffect 1 5), example_machine)
   \<and> snd (apply_input (InModel 5 example_observation) example_machine) = example_machine"
proof -
  have h: "apply_input (InModel 5 example_observation) example_machine
     = (Inl (WrongEffect 1 5), example_machine)"
    by (simp add: example_machine_def machine_ops em_simps)
  show ?thesis using h rejected_call_changes_nothing [OF h] by simp
qed

text \<open>
  Every request the machine issues carries a fresh identity, the one after the machine's last,
  and the machine then waits for exactly that effect.
\<close>

theorem request_is_fresh_and_awaited:
  assumes "apply_input i m = (Inr (Some r), m')"
  shows "request_id r = effect_id m + 1 \<and> effect_id m' = request_id r
    \<and> request_id r \<le> u64_max \<and> awaits (effect r) (state m')"
  using apply_input_request [OF assms] by auto

theorem request_is_fresh_and_awaited_witness:
  "\<exists>r m'. apply_input (InModel 1 example_observation) example_machine = (Inr (Some r), m')
     \<and> request_id r = 2 \<and> effect r = RecordAssistant
     \<and> state m' = AssistantPending example_observation
     \<and> effect_id m' = request_id r"
proof -
  have h: "apply_input (InModel 1 example_observation) example_machine =
     (Inr (Some \<lparr>request_id = 2, effect = RecordAssistant\<rparr>),
      example_machine\<lparr>state := AssistantPending example_observation, effect_id := 2\<rparr>)"
    by (simp add: example_machine_def example_observation_def machine_ops em_simps
        checked_add64_def u64_max_def)
  show ?thesis using h request_is_fresh_and_awaited [OF h] by simp
qed

text \<open>
  An acknowledgement is used once: after any accepted call that issued a request, every later
  acknowledgement of that call's receipt is refused with \<open>WrongEffect\<close> and changes nothing.
\<close>

theorem receipt_is_used_once:
  assumes "apply_input i m = (Inr (Some r), m')"
    and "receipt_of i = Some k" and "receipt_of j = Some k"
  shows "apply_input j m' = (Inl (WrongEffect (request_id r) k), m')"
proof -
  have "effect_id m' = k + 1" "request_id r = effect_id m'"
    using apply_input_request [OF assms(1)] apply_input_receipt [OF assms(1,2)] by auto
  then show ?thesis using apply_input_stale [OF assms(3)] by simp
qed

theorem receipt_is_used_once_witness:
  "apply_input (InModel 1 example_observation)
     (example_machine\<lparr>state := AssistantPending example_observation, effect_id := 2\<rparr>)
   = (Inl (WrongEffect 2 1),
      example_machine\<lparr>state := AssistantPending example_observation, effect_id := 2\<rparr>)"
proof -
  have h: "apply_input (InModel 1 example_observation) example_machine =
     (Inr (Some \<lparr>request_id = 2, effect = RecordAssistant\<rparr>),
      example_machine\<lparr>state := AssistantPending example_observation, effect_id := 2\<rparr>)"
    by (simp add: example_machine_def example_observation_def machine_ops em_simps
        checked_add64_def u64_max_def)
  show ?thesis
    using receipt_is_used_once [OF h, of 1 "InModel 1 example_observation"] by simp
qed

text \<open>
  The repair and hook counters never pass their limits and no counter passes its width, in any
  state a run of accepted calls can reach from a new machine.
\<close>

theorem reachable_counters_bounded:
  assumes "agentic_turns p \<le> u64_max"
    and "run_steps machine_step (new_machine p) is = Some m"
  shows "plan_exit_repairs m \<le> MAX_PLAN_EXIT_REPAIRS
    \<and> stop_hook_continuations m \<le> MAX_STOP_HOOK_CONTINUATIONS
    \<and> effect_id m \<le> u64_max \<and> agentic_turns (progress m) \<le> u64_max"
  using lm_counters.run_inv [OF new_machine_counters [OF assms(1)] assms(2)]
  by (simp add: counters_ok_def)

theorem reachable_counters_bounded_witness:
  "stop_hook_continuations (example_machine) \<le> MAX_STOP_HOOK_CONTINUATIONS
   \<and> run_steps machine_step (new_machine \<lparr>agentic_turns = 0\<rparr>) [InBegin example_budget]
       = Some example_machine"
proof -
  have p: "agentic_turns \<lparr>agentic_turns = 0\<rparr> \<le> u64_max" by simp
  have h: "run_steps machine_step (new_machine \<lparr>agentic_turns = 0\<rparr>) [InBegin example_budget]
       = Some example_machine"
    by (simp add: machine_step_def new_machine_def example_machine_def example_budget_def
        machine_ops em_simps checked_add64_def u64_max_def reached_def)
  show ?thesis using h reachable_counters_bounded [OF p h] by simp
qed

text \<open>
  C8 With every budget limited to at most L turns, no run of the machine accepts more than
  \<open>6 * L + 5\<close> calls: the loop ends whatever the host reports, and its state is final before then.
\<close>

theorem turn_limit_bounds_runs:
  assumes "run_steps (limited_step L) (new_machine p) is = Some m"
  shows "length is \<le> 6 * (L - agentic_turns p) + 5"
  using lm_turns.run_bounded [OF turn_guard_new assms]
  by (simp add: turn_measure_def new_machine_def)

theorem turn_limit_bounds_runs_witness:
  "run_steps (limited_step 2) (new_machine \<lparr>agentic_turns = 0\<rparr>) [InBegin example_budget]
     = Some example_machine
   \<and> length [InBegin example_budget] \<le> 17"
proof -
  have h: "run_steps (limited_step 2) (new_machine \<lparr>agentic_turns = 0\<rparr>) [InBegin example_budget]
       = Some example_machine"
    by (simp add: limited_step_def limited_input_def machine_step_def new_machine_def
        example_machine_def example_budget_def
        machine_ops em_simps checked_add64_def u64_max_def reached_def)
  show ?thesis using h turn_limit_bounds_runs [OF h] by simp
qed

text \<open>
  The model is asked only within the budget: a request for the model is issued only while the
  turns taken are below the turn limit and the tokens used are below the token budget.
\<close>

theorem model_requested_within_budget:
  assumes "apply_input i m = (Inr (Some r), m')" and "effect r = RequestModel"
    and "input_budget i = Some b"
  shows "(\<forall>l. max_turns b = Some l \<longrightarrow> agentic_turns (progress m') < l)
    \<and> (\<forall>t. token_budget b = Some t \<longrightarrow> total_model_tokens b < t)"
  using assms
  by (cases i) (auto simp: machine_ops em_simps reached_def split: machine_splits)

theorem model_requested_within_budget_witness:
  "agentic_turns (progress example_machine) < 2 \<and> (7::nat) < 100"
proof -
  have h: "apply_input (InBegin example_budget) (new_machine \<lparr>agentic_turns = 0\<rparr>) =
     (Inr (Some \<lparr>request_id = 1, effect = RequestModel\<rparr>), example_machine)"
    by (simp add: new_machine_def example_machine_def example_budget_def
        machine_ops em_simps checked_add64_def u64_max_def reached_def)
  show ?thesis
    using model_requested_within_budget [OF h, of example_budget]
    by (simp add: example_budget_def)
qed

text \<open>A finished machine accepts nothing: every further call is refused and changes nothing.\<close>

theorem finished_is_final:
  assumes "state m = Finished e"
  shows "machine_step m i = None \<and> snd (apply_input i m) = m"
  using apply_input_finished [OF assms, of i] by (auto simp: machine_step_def)

theorem finished_is_final_witness:
  "machine_step (example_machine\<lparr>state := Finished ResponseComplete\<rparr>) (InFinalization 1) = None"
  using finished_is_final
    [of "example_machine\<lparr>state := Finished ResponseComplete\<rparr>" ResponseComplete "InFinalization 1"]
  by simp

end
