(* ===== verification/LoopExecutor.thy ===== *)
theory LoopExecutor
  imports LoopMachine
begin

section \<open>The loop executor (crates/rara-agent/src/executor.rs)\<close>

text \<open>
  \<open>execute_loop\<close> performs each requested effect through its host and feeds the result back to
  the machine. The host (the trait \<open>LoopEffects\<close>) is a parameter: a record of functions on the
  host's own state \<open>'h\<close>, each of which may fail with an error of the host. The executor's own
  state is the host and the progress it publishes. Running out of fuel is \<open>None\<close>; the lemmas say
  how much fuel a turn limit makes enough, so that the loop returns.
\<close>

record stop_hook_context =
  stop_hook_active :: bool

record 'h loop_effects =
  host_budget :: "'h \<Rightarrow> iteration_budget"
  request_model :: "loop_progress \<Rightarrow> ('h, ustr, model_observation) em"
  record_assistant :: "loop_progress \<Rightarrow> ('h, ustr, continuation_context) em"
  continue_turn :: "continuation \<Rightarrow> loop_progress \<Rightarrow> ('h, ustr, unit) em"
  run_stop_hooks :: "stop_hook_context \<Rightarrow> loop_progress \<Rightarrow> ('h, ustr, stop_hook_outcome) em"
  run_tools :: "loop_progress \<Rightarrow> ('h, ustr, tool_batch_outcome) em"
  commit_tool_results :: "loop_progress \<Rightarrow> ('h, ustr, unit) em"
  finalize_host :: "loop_end \<Rightarrow> loop_progress \<Rightarrow> ('h, ustr, unit) em"

datatype loop_error = HostError ustr | Transition transition_error

text \<open>What one pass of the loop body leads to: the next request, the end, or an error.\<close>

datatype 'a pass_result = NextRequest 'a | Returned loop_end | Failed loop_error

definition from_host ::
  "(ustr + 'a) \<times> 'h \<Rightarrow> ('a \<Rightarrow> 'h \<Rightarrow> 'b pass_result \<times> 'h \<times> loop_machine)
     \<Rightarrow> loop_machine \<Rightarrow> 'b pass_result \<times> 'h \<times> loop_machine" where
  "from_host r k m =
     (case r of (Inl e, h) \<Rightarrow> (Failed (HostError e), h, m) | (Inr a, h) \<Rightarrow> k a h)"

definition from_machine ::
  "(transition_error + loop_request) \<times> loop_machine \<Rightarrow> 'h
     \<Rightarrow> loop_request pass_result \<times> 'h \<times> loop_machine" where
  "from_machine r h =
     (case r of (Inl e, m) \<Rightarrow> (Failed (Transition e), h, m) | (Inr q, m) \<Rightarrow> (NextRequest q, h, m))"

definition from_end ::
  "(transition_error + loop_end) \<times> loop_machine \<Rightarrow> 'h
     \<Rightarrow> loop_request pass_result \<times> 'h \<times> loop_machine" where
  "from_end r h =
     (case r of (Inl e, m) \<Rightarrow> (Failed (Transition e), h, m) | (Inr e, m) \<Rightarrow> (Returned e, h, m))"

definition loop_body ::
  "'h loop_effects \<Rightarrow> loop_request \<Rightarrow> 'h \<Rightarrow> loop_machine
     \<Rightarrow> loop_request pass_result \<times> 'h \<times> loop_machine" where
  "loop_body eff req h m =
     (let p = progress m; i = request_id req in
      case effect req of
        RequestModel \<Rightarrow>
          from_host (request_model eff p h) (\<lambda>obs h. from_machine (model_completed i obs m) h) m
      | RecordAssistant \<Rightarrow>
          from_host (record_assistant eff p h)
            (\<lambda>ctx h. from_machine (assistant_recorded i ctx m) h) m
      | Continue c \<Rightarrow>
          from_host (continue_turn eff c p h)
            (\<lambda>_ h. from_machine (checkpoint_completed i (host_budget eff h) m) h) m
      | RunStopHooks active \<Rightarrow>
          from_host (run_stop_hooks eff \<lparr>stop_hook_active = active\<rparr> p h)
            (\<lambda>out h. from_machine (stop_hooks_completed i out m) h) m
      | RunTools \<Rightarrow>
          from_host (run_tools eff p h) (\<lambda>out h. from_machine (tools_completed i out m) h) m
      | CommitToolResults \<Rightarrow>
          from_host (commit_tool_results eff p h)
            (\<lambda>_ h. from_machine (checkpoint_completed i (host_budget eff h) m) h) m
      | Finalize e \<Rightarrow>
          from_host (finalize_host eff e p h)
            (\<lambda>_ h. from_end (finalization_completed i m) h) m)"

fun run_loop ::
  "'h loop_effects \<Rightarrow> nat \<Rightarrow> loop_request \<Rightarrow> 'h \<Rightarrow> loop_machine
     \<Rightarrow> ((loop_error + loop_end) \<times> 'h \<times> loop_progress) option" where
  "run_loop eff 0 req h m = None"
| "run_loop eff (Suc fuel) req h m =
     (case loop_body eff req h m of
        (NextRequest q, h', m') \<Rightarrow> run_loop eff fuel q h' m'
      | (Returned e, h', m') \<Rightarrow> Some (Inr e, h', progress m)
      | (Failed err, h', m') \<Rightarrow> Some (Inl err, h', progress m))"

definition execute_loop ::
  "'h loop_effects \<Rightarrow> nat \<Rightarrow> 'h \<Rightarrow> loop_progress
     \<Rightarrow> ((loop_error + loop_end) \<times> 'h \<times> loop_progress) option" where
  "execute_loop eff fuel h p =
     (case begin_iteration (host_budget eff h) (new_machine p) of
        (Inl e, m) \<Rightarrow> Some (Inl (Transition e), h, p)
      | (Inr req, m) \<Rightarrow> run_loop eff fuel req h m)"

subsection \<open>One pass\<close>

text \<open>The machine and the request in hand agree: the request is the last one issued.\<close>

definition in_step :: "loop_request \<Rightarrow> loop_machine \<Rightarrow> bool" where
  "in_step req m \<longleftrightarrow> request_id req = effect_id m \<and> awaits (effect req) (state m)"

definition overflow_error :: "loop_error \<Rightarrow> bool" where
  "overflow_error e \<longleftrightarrow>
     e = Transition CounterOverflow \<or> e = Transition EffectCounterOverflow"

definition host_error :: "loop_error \<Rightarrow> bool" where
  "host_error e \<longleftrightarrow> (\<exists>msg. e = HostError msg)"

text \<open>Each pass applies exactly one input to the machine, or stops at a host error before it.\<close>

definition pass_input ::
  "'h loop_effects \<Rightarrow> loop_request \<Rightarrow> 'h \<Rightarrow> loop_machine \<Rightarrow> machine_input option" where
  "pass_input eff req h m =
     (let p = progress m; i = request_id req in
      case effect req of
        RequestModel \<Rightarrow>
          (case request_model eff p h of (Inr obs, _) \<Rightarrow> Some (InModel i obs) | _ \<Rightarrow> None)
      | RecordAssistant \<Rightarrow>
          (case record_assistant eff p h of (Inr ctx, _) \<Rightarrow> Some (InAssistant i ctx) | _ \<Rightarrow> None)
      | Continue c \<Rightarrow>
          (case continue_turn eff c p h of
             (Inr _, h') \<Rightarrow> Some (InCheckpoint i (host_budget eff h')) | _ \<Rightarrow> None)
      | RunStopHooks active \<Rightarrow>
          (case run_stop_hooks eff \<lparr>stop_hook_active = active\<rparr> p h of
             (Inr out, _) \<Rightarrow> Some (InStopHooks i out) | _ \<Rightarrow> None)
      | RunTools \<Rightarrow>
          (case run_tools eff p h of (Inr out, _) \<Rightarrow> Some (InTools i out) | _ \<Rightarrow> None)
      | CommitToolResults \<Rightarrow>
          (case commit_tool_results eff p h of
             (Inr _, h') \<Rightarrow> Some (InCheckpoint i (host_budget eff h')) | _ \<Rightarrow> None)
      | Finalize e \<Rightarrow>
          (case finalize_host eff e p h of (Inr _, _) \<Rightarrow> Some (InFinalization i) | _ \<Rightarrow> None))"

lemma from_host_iff:
  "from_host r k m = (NextRequest q, h', m') \<longleftrightarrow>
     (\<exists>a h. r = (Inr a, h) \<and> k a h = (NextRequest q, h', m'))"
  "from_host r k m = (Returned e, h', m') \<longleftrightarrow>
     (\<exists>a h. r = (Inr a, h) \<and> k a h = (Returned e, h', m'))"
  "from_host r k m = (Failed err, h', m') \<longleftrightarrow>
     (\<exists>msg. r = (Inl msg, h') \<and> err = HostError msg \<and> m' = m)
     \<or> (\<exists>a h. r = (Inr a, h) \<and> k a h = (Failed err, h', m'))"
  by (auto simp: from_host_def split: prod.splits sum.splits)

lemma from_machine_iff:
  "from_machine r h = (NextRequest q, h', m') \<longleftrightarrow> r = (Inr q, m') \<and> h' = h"
  "from_machine r h \<noteq> (Returned e, h', m')"
  "from_machine r h = (Failed err, h', m') \<longleftrightarrow>
     (\<exists>e. r = (Inl e, m') \<and> err = Transition e \<and> h' = h)"
  by (auto simp: from_machine_def split: prod.splits sum.splits)

lemma from_end_iff:
  "from_end r h \<noteq> (NextRequest q, h', m')"
  "from_end r h = (Returned e, h', m') \<longleftrightarrow> r = (Inr e, m') \<and> h' = h"
  "from_end r h = (Failed err, h', m') \<longleftrightarrow>
     (\<exists>e. r = (Inl e, m') \<and> err = Transition e \<and> h' = h)"
  by (auto simp: from_end_def split: prod.splits sum.splits)

lemmas pass_simps =
  loop_body_def pass_input_def from_host_iff from_machine_iff from_end_iff Let_def bindE_apply

lemma loop_body_next:
  assumes "loop_body eff req h m = (NextRequest q, h', m')"
  shows "\<exists>i. pass_input eff req h m = Some i \<and> apply_input i m = (Inr (Some q), m')"
  using assms by (cases "effect req") (auto simp: pass_simps)

lemma pass_input_answers:
  "pass_input eff req h m = Some i \<Longrightarrow> answers i (effect req) \<and> receipt_of i = Some (request_id req)"
  by (cases "effect req")
    (auto simp: pass_input_def Let_def split: prod.splits sum.splits)

lemma loop_body_next_in_step:
  "loop_body eff req h m = (NextRequest q, h', m') \<Longrightarrow> in_step q m'"
  by (drule loop_body_next) (auto simp: in_step_def dest: apply_input_request)

lemma loop_body_failed_cases:
  assumes "loop_body eff req h m = (Failed err, h', m')"
  shows "host_error err \<or>
    (\<exists>i e. pass_input eff req h m = Some i \<and> apply_input i m = (Inl e, m') \<and> err = Transition e)"
  using assms by (cases "effect req") (auto simp: pass_simps host_error_def)

lemma loop_body_failed:
  assumes "loop_body eff req h m = (Failed err, h', m')" and "in_step req m"
  shows "host_error err \<or> overflow_error err"
proof (cases "host_error err")
  case False
  then obtain i e where i: "pass_input eff req h m = Some i" "apply_input i m = (Inl e, m')"
    and err: "err = Transition e"
    using loop_body_failed_cases [OF assms(1)] by blast
  from i(1) have "answers i (effect req)" "receipt_of i = Some (effect_id m)"
    using pass_input_answers assms(2) by (fastforce simp: in_step_def)+
  with i(2) assms(2) have "e = CounterOverflow \<or> e = EffectCounterOverflow"
    by (auto simp: in_step_def dest: apply_input_answers)
  with err show ?thesis by (auto simp: overflow_error_def)
qed simp

lemma finalization_completed_ok:
  "finalization_completed i m = (Inr e, m') \<longleftrightarrow>
     i = effect_id m \<and> state m = Finalizing e \<and> m' = m\<lparr>state := Finished e\<rparr>"
  by (cases "state m")
    (auto simp: finalization_completed_def em_simps require_effect_def wrong_phase_def set_state_def)

lemma loop_body_returned:
  assumes "loop_body eff req h m = (Returned e, h', m')"
  shows "\<exists>e'. effect req = Finalize e' \<and> finalize_host eff e' (progress m) h = (Inr (), h')
    \<and> state m = Finalizing e \<and> m' = m\<lparr>state := Finished e\<rparr>"
  using assms by (cases "effect req") (auto simp: pass_simps finalization_completed_ok)

subsection \<open>The whole loop\<close>

lemma begin_iteration_in_step:
  assumes "begin_iteration b m = (Inr req, m')"
  shows "in_step req m'"
  using apply_input_request [of "InBegin b" m req m'] assms
  by (simp add: in_step_def em_simps)

lemma run_loop_error:
  "run_loop eff fuel req h m = Some (Inl err, h', p') \<Longrightarrow> in_step req m
     \<Longrightarrow> host_error err \<or> overflow_error err"
proof (induction eff fuel req h m rule: run_loop.induct)
  case (2 eff fuel req h m)
  then show ?case
    by (auto split: prod.splits pass_result.splits
        dest: loop_body_failed loop_body_next_in_step)
qed simp

lemma run_loop_end:
  "run_loop eff fuel req h m = Some (Inr e, h', p') \<Longrightarrow> in_step req m
     \<Longrightarrow> \<exists>h0. finalize_host eff e p' h0 = (Inr (), h')"
proof (induction eff fuel req h m rule: run_loop.induct)
  case (2 eff fuel req h m)
  show ?case
  proof (cases "loop_body eff req h m")
    case (fields r h1 m1)
    show ?thesis
    proof (cases r)
      case (NextRequest q)
      then have "in_step q m1" "run_loop eff fuel q h1 m1 = Some (Inr e, h', p')"
        using 2(2) fields by (auto dest: loop_body_next_in_step)
      then show ?thesis using 2(1) [OF fields [symmetric] NextRequest refl] by simp
    next
      case (Returned e1)
      then have "e1 = e" "h1 = h'" "p' = progress m" using 2(2) fields by auto
      moreover have "\<exists>e'. effect req = Finalize e' \<and> finalize_host eff e' (progress m) h = (Inr (), h1)
          \<and> state m = Finalizing e1 \<and> m1 = m\<lparr>state := Finished e1\<rparr>"
        by (rule loop_body_returned) (simp add: fields Returned)
      ultimately show ?thesis using 2(3) by (auto simp: in_step_def)
    next
      case (Failed err)
      then show ?thesis using 2(2) fields by simp
    qed
  qed
qed simp

definition host_limits :: "'h loop_effects \<Rightarrow> nat \<Rightarrow> bool" where
  "host_limits eff L \<longleftrightarrow> (\<forall>h. \<exists>l. max_turns (host_budget eff h) = Some l \<and> l \<le> L)"

lemma pass_input_budget:
  "pass_input eff req h m = Some i \<Longrightarrow> input_budget i = Some b \<Longrightarrow> \<exists>h'. b = host_budget eff h'"
  by (cases "effect req") (auto simp: pass_input_def Let_def split: prod.splits sum.splits)

lemma limited_pass_input:
  assumes "host_limits eff L" and "pass_input eff req h m = Some i"
  shows "limited_input L i"
proof (cases "input_budget i")
  case (Some b)
  then obtain h' where "b = host_budget eff h'" using pass_input_budget [OF assms(2)] by auto
  moreover obtain l where "max_turns (host_budget eff h') = Some l" "l \<le> L"
    using assms(1) unfolding host_limits_def by auto
  ultimately show ?thesis using Some by (simp add: limited_input_def)
qed (simp add: limited_input_def)

lemma loop_body_limited:
  assumes "host_limits eff L" and "loop_body eff req h m = (NextRequest q, h', m')"
  shows "\<exists>i. limited_step L m i = Some m'"
proof -
  obtain i where "pass_input eff req h m = Some i" "apply_input i m = (Inr (Some q), m')"
    using loop_body_next [OF assms(2)] by blast
  then have "limited_step L m i = Some m'"
    using limited_pass_input [OF assms(1)] by (simp add: limited_step_def machine_step_def)
  then show ?thesis ..
qed

lemma run_loop_returns:
  "host_limits eff L \<Longrightarrow> turn_guard L m \<Longrightarrow> turn_measure L m < fuel
     \<Longrightarrow> run_loop eff fuel req h m \<noteq> None"
proof (induction eff fuel req h m rule: run_loop.induct)
  case (2 eff fuel req h m)
  show ?case
  proof (cases "loop_body eff req h m")
    case (fields r h1 m1)
    show ?thesis
    proof (cases r)
      case (NextRequest q)
      then obtain i where "limited_step L m i = Some m1"
        using loop_body_limited [OF 2(2), of req h m q h1 m1] fields by auto
      then have "turn_guard L m1" "turn_measure L m1 < turn_measure L m"
        using 2(3) by (auto intro: limited_step_guard limited_step_measure)
      then show ?thesis using 2 fields NextRequest by simp
    qed (use fields in simp_all)
  qed
qed simp

subsection \<open>Properties\<close>

text \<open>A host that answers once and is then done, for the examples.\<close>

definition plain_host :: "nat loop_effects" where
  "plain_host =
     \<lparr>host_budget = (\<lambda>_. \<lparr>max_turns = Some 3, token_budget = None, total_model_tokens = 0\<rparr>),
      request_model = (\<lambda>_ h. (Inr (example_observation\<lparr>tool_call_count := 0\<rparr>), h + 1)),
      record_assistant = (\<lambda>_ h. (Inr \<lparr>mode = Execute, plan_steps = 0,
         inspection = \<lparr>has_any_evidence = False, has_minimum_review_evidence = False\<rparr>,
         pending = \<lparr>pending_user_input = False, pending_approval = False\<rparr>\<rparr>, h + 1)),
      continue_turn = (\<lambda>_ _ h. (Inr (), h + 1)),
      run_stop_hooks = (\<lambda>_ _ h. (Inr AllowCompletion, h + 1)),
      run_tools = (\<lambda>_ h. (Inr ResultsAvailable, h + 1)),
      commit_tool_results = (\<lambda>_ h. (Inr (), h + 1)),
      finalize_host = (\<lambda>_ _ h. (Inr (), h + 1))\<rparr>"

definition failing_host :: "nat loop_effects" where
  "failing_host = plain_host\<lparr>request_model := (\<lambda>_ h. (Inl (lit ''offline''), h))\<rparr>"

lemma plain_host_limits: "host_limits plain_host 3"
  by (simp add: host_limits_def plain_host_def)

lemma plain_host_run:
  "execute_loop plain_host 6 0 \<lparr>agentic_turns = 0\<rparr>
     = Some (Inr ResponseComplete, 4, \<lparr>agentic_turns = 0\<rparr>)"
  by code_simp

lemma failing_host_run:
  "execute_loop failing_host 6 0 \<lparr>agentic_turns = 0\<rparr>
     = Some (Inl (HostError (lit ''offline'')), 0, \<lparr>agentic_turns = 0\<rparr>)"
  by code_simp

text \<open>
  C1 The executor keeps the machine's protocol for every host: an error it returns is the host's
  own or a counter overflow, never a wrong phase or a wrong receipt.
\<close>

theorem executor_keeps_protocol:
  assumes "execute_loop eff fuel h p = Some (Inl err, h', p')"
  shows "host_error err \<or> overflow_error err"
proof (cases "begin_iteration (host_budget eff h) (new_machine p)")
  case (Pair r m)
  show ?thesis
  proof (cases r)
    case (Inl e)
    with Pair assms show ?thesis
      by (auto simp: execute_loop_def machine_ops em_simps new_machine_def overflow_error_def
          split: machine_splits)
  next
    case (Inr req)
    then have "in_step req m" using Pair begin_iteration_in_step by simp
    moreover have "run_loop eff fuel req h m = Some (Inl err, h', p')"
      using assms Pair Inr by (simp add: execute_loop_def)
    ultimately show ?thesis by (rule run_loop_error [rotated])
  qed
qed

theorem executor_keeps_protocol_witness:
  "host_error (HostError (lit ''offline'')) \<or> overflow_error (HostError (lit ''offline''))"
  using executor_keeps_protocol [OF failing_host_run] .

lemma execute_loop_returns:
  assumes lim: "host_limits eff L" and fuel: "6 * L + 5 < fuel"
  shows "\<exists>r h' p'. execute_loop eff fuel h p = Some (r, h', p')"
proof (cases "begin_iteration (host_budget eff h) (new_machine p)")
  case (Pair r m)
  show ?thesis
  proof (cases r)
    case (Inl e)
    with Pair show ?thesis by (simp add: execute_loop_def)
  next
    case (Inr req)
    let ?b = "InBegin (host_budget eff h)"
    have "apply_input ?b (new_machine p) = (Inr (Some req), m)"
      using Pair Inr by (simp add: em_simps)
    moreover have "limited_input L ?b"
      using lim [unfolded host_limits_def, rule_format, of h] by (auto simp: limited_input_def)
    ultimately have s: "limited_step L (new_machine p) ?b = Some m"
      by (simp add: limited_step_def machine_step_def)
    then have "turn_measure L m < turn_measure L (new_machine p)" "turn_guard L m"
      using limited_step_measure [OF turn_guard_new] limited_step_guard [OF turn_guard_new] by auto
    then have "turn_measure L m < fuel"
      using fuel by (simp add: turn_measure_def new_machine_def)
    then show ?thesis
      using run_loop_returns [OF lim \<open>turn_guard L m\<close>] Pair Inr
      by (auto simp: execute_loop_def)
  qed
qed

text \<open>
  With a turn limit L the loop returns for every host: fuel \<open>6 * L + 6\<close> is never used up, so the
  executor ends with the loop's end or an error instead of running on.
\<close>

theorem executor_returns:
  assumes "\<forall>h. \<exists>l. max_turns (host_budget eff h) = Some l \<and> l \<le> L"
    and "6 * L + 5 < fuel"
  shows "\<exists>r h' p'. execute_loop eff fuel h p = Some (r, h', p')"
  by (rule execute_loop_returns [OF _ assms(2)]) (use assms(1) in \<open>simp add: host_limits_def\<close>)

theorem executor_returns_witness:
  "\<exists>r h' p'. execute_loop plain_host 24 0 \<lparr>agentic_turns = 0\<rparr> = Some (r, h', p')"
  using executor_returns [of plain_host 3 24] plain_host_limits by (simp add: host_limits_def)

text \<open>
  A successful return means the host acknowledged exactly that end: the last effect of the loop
  was the host's finalisation of the returned end with the published progress, and it succeeded.
\<close>

theorem executor_end_was_finalized:
  assumes "execute_loop eff fuel h p = Some (Inr e, h', p')"
  shows "\<exists>h0. finalize_host eff e p' h0 = (Inr (), h')"
proof (cases "begin_iteration (host_budget eff h) (new_machine p)")
  case (Pair r m)
  show ?thesis
  proof (cases r)
    case (Inl err)
    with Pair assms show ?thesis by (simp add: execute_loop_def)
  next
    case (Inr req)
    then have "in_step req m" using Pair begin_iteration_in_step by simp
    moreover have "run_loop eff fuel req h m = Some (Inr e, h', p')"
      using assms Pair Inr by (simp add: execute_loop_def)
    ultimately show ?thesis by (rule run_loop_end [rotated])
  qed
qed

theorem executor_end_was_finalized_witness:
  "\<exists>h0. finalize_host plain_host ResponseComplete \<lparr>agentic_turns = 0\<rparr> h0 = (Inr (), 4)"
  using executor_end_was_finalized [OF plain_host_run] .

end
