(* ===== verification/ToolHistory.thy ===== *)
theory ToolHistory
  imports Prelude
begin

section \<open>Repairing interrupted tool calls (crates/rara-agent: history.rs, history/pairing.rs)\<close>

text \<open>
  Before a new request the transcript must answer every tool call, and hold no result without its
  call. The theory models the repair pass over the message list and states the protocol it aims
  at as two checkers: every call is answered before the next assistant message and no result is
  an orphan (\<open>paired\<close>), and nothing stands between a call and its results (\<open>strictly_paired\<close>).
  Lemmas: the repair gives the first for every history, the second and idempotence when results
  do not share a message with other blocks, and a history where the second fails.
\<close>

record message =
  role :: ustr
  content :: json

subsection \<open>pairing.rs\<close>

fun filter_map :: "('a \<Rightarrow> 'b option) \<Rightarrow> 'a list \<Rightarrow> 'b list" where
  "filter_map f [] = []"
| "filter_map f (x # xs) = (case f x of None \<Rightarrow> filter_map f xs | Some y \<Rightarrow> y # filter_map f xs)"

definition is_block :: "string \<Rightarrow> json \<Rightarrow> bool" where
  "is_block t b \<longleftrightarrow> jstr ''type'' b = Some (lit t)"

definition tool_use_ids_in_blocks :: "json list \<Rightarrow> ustr list" where
  "tool_use_ids_in_blocks blocks = filter_map (jstr ''id'') (filter (is_block ''tool_use'') blocks)"

definition has_tool_result_block :: "json list \<Rightarrow> bool" where
  "has_tool_result_block blocks \<longleftrightarrow> (\<exists>b \<in> set blocks. is_block ''tool_result'' b)"

text \<open>The blocks kept and the calls still pending.\<close>

fun keep_or_drop_tool_results :: "json list \<Rightarrow> ustr list \<Rightarrow> json list \<times> ustr list" where
  "keep_or_drop_tool_results [] pending = ([], pending)"
| "keep_or_drop_tool_results (b # bs) pending =
     (if \<not> is_block ''tool_result'' b then
        (let (kept, p) = keep_or_drop_tool_results bs pending in (b # kept, p))
      else (case jstr ''tool_use_id'' b of
        None \<Rightarrow> keep_or_drop_tool_results bs pending
      | Some i \<Rightarrow>
          if i \<in> set pending then
            (let (kept, p) = keep_or_drop_tool_results bs (remove1 i pending) in (b # kept, p))
          else keep_or_drop_tool_results bs pending))"

definition synthetic_block :: "ustr \<Rightarrow> json" where
  "synthetic_block i = JObj
     [(lit ''type'', JStr (lit ''tool_result'')),
      (lit ''tool_use_id'', JStr i),
      (lit ''content'',
       JStr (lit ''Tool execution was interrupted before a result was recorded.'')),
      (lit ''is_error'', JBool True)]"

definition synthetic_tool_result_blocks :: "ustr list \<Rightarrow> json list" where
  "synthetic_tool_result_blocks pending = map synthetic_block pending"

subsection \<open>history.rs\<close>

definition flush_pending :: "ustr list \<Rightarrow> message list" where
  "flush_pending pending =
     (if pending = [] then []
      else [\<lparr>role = lit ''user'', content = JArr (synthetic_tool_result_blocks pending)\<rparr>])"

definition message_blocks :: "message \<Rightarrow> json list" where
  "message_blocks m = (case as_array (content m) of None \<Rightarrow> [] | Some bs \<Rightarrow> bs)"

fun repair_from :: "message list \<Rightarrow> ustr list \<Rightarrow> message list" where
  "repair_from [] pending = flush_pending pending"
| "repair_from (m # ms) pending =
     (let blocks = message_blocks m in
      if role m = lit ''assistant'' then
        flush_pending pending @ m # repair_from ms (tool_use_ids_in_blocks blocks)
      else if role m = lit ''user'' \<and> has_tool_result_block blocks then
        (let (kept, p) = keep_or_drop_tool_results blocks pending in
         (if kept = [] then [] else [\<lparr>role = role m, content = JArr kept\<rparr>]) @ repair_from ms p)
      else flush_pending pending @ m # repair_from ms [])"

definition repair_tool_result_history :: "message list \<Rightarrow> message list" where
  "repair_tool_result_history history = repair_from history []"

subsection \<open>The protocol\<close>

text \<open>Answering pending calls with the results of a message; \<open>None\<close> when one is an orphan.\<close>

fun consume :: "json list \<Rightarrow> ustr list \<Rightarrow> ustr list option" where
  "consume [] pending = Some pending"
| "consume (b # bs) pending =
     (if \<not> is_block ''tool_result'' b then consume bs pending
      else (case jstr ''tool_use_id'' b of
        None \<Rightarrow> None
      | Some i \<Rightarrow> if i \<in> set pending then consume bs (remove1 i pending) else None))"

definition is_result_message :: "message \<Rightarrow> bool" where
  "is_result_message m \<longleftrightarrow> role m = lit ''user'' \<and> has_tool_result_block (message_blocks m)"

fun paired :: "message list \<Rightarrow> ustr list \<Rightarrow> bool" where
  "paired [] pending = (pending = [])"
| "paired (m # ms) pending =
     (if role m = lit ''assistant'' then
        pending = [] \<and> paired ms (tool_use_ids_in_blocks (message_blocks m))
      else if is_result_message m then
        (case consume (message_blocks m) pending of None \<Rightarrow> False | Some p \<Rightarrow> paired ms p)
      else paired ms pending)"

fun strictly_paired :: "message list \<Rightarrow> ustr list \<Rightarrow> bool" where
  "strictly_paired [] pending = (pending = [])"
| "strictly_paired (m # ms) pending =
     (if role m = lit ''assistant'' then
        pending = [] \<and> strictly_paired ms (tool_use_ids_in_blocks (message_blocks m))
      else if is_result_message m then
        (case consume (message_blocks m) pending of
           None \<Rightarrow> False | Some p \<Rightarrow> strictly_paired ms p)
      else pending = [] \<and> strictly_paired ms [])"

text \<open>Results come in messages of their own.\<close>

definition results_alone :: "message \<Rightarrow> bool" where
  "results_alone m \<longleftrightarrow>
     (is_result_message m \<longrightarrow> (\<forall>b \<in> set (message_blocks m). is_block ''tool_result'' b))"

subsection \<open>Lemmas\<close>

lemma lit_assistant_user [simp]: "lit ''user'' \<noteq> lit ''assistant''"
  by simp

lemma is_block_synthetic [simp]: "is_block t (synthetic_block i) \<longleftrightarrow> t = ''tool_result''"
  by (auto simp: is_block_def synthetic_block_def jstr_def as_str_def)

lemma synthetic_id [simp]: "jstr ''tool_use_id'' (synthetic_block i) = Some i"
  by (simp add: synthetic_block_def jstr_def as_str_def)

lemma consume_synthetic: "consume (map synthetic_block ids) (ids @ rest) = Some rest"
  by (induction ids) auto

lemma message_blocks_JArr [simp]: "message_blocks \<lparr>role = r, content = JArr bs\<rparr> = bs"
  by (simp add: message_blocks_def)

lemma paired_flush:
  "paired (flush_pending pending @ ms) pending = paired ms []"
  using consume_synthetic [of pending "[]"]
  by (cases pending)
    (auto simp: flush_pending_def is_result_message_def has_tool_result_block_def
      synthetic_tool_result_blocks_def)

lemma strictly_paired_flush:
  "strictly_paired (flush_pending pending @ ms) pending = strictly_paired ms []"
  using consume_synthetic [of pending "[]"]
  by (cases pending)
    (auto simp: flush_pending_def is_result_message_def has_tool_result_block_def
      synthetic_tool_result_blocks_def)

lemma consume_kept:
  "keep_or_drop_tool_results bs pending = (kept, p) \<Longrightarrow> consume kept pending = Some p"
  by (induction bs pending arbitrary: kept p rule: keep_or_drop_tool_results.induct)
    (auto split: if_splits option.splits prod.splits)

lemma kept_subset:
  "keep_or_drop_tool_results bs pending = (kept, p) \<Longrightarrow> set kept \<subseteq> set bs"
  by (induction bs pending arbitrary: kept p rule: keep_or_drop_tool_results.induct)
    (fastforce split: if_splits option.splits prod.splits)+

lemma consume_keeps_all:
  "consume bs pending = Some p \<Longrightarrow> keep_or_drop_tool_results bs pending = (bs, p)"
  by (induction bs pending rule: consume.induct) (auto split: if_splits option.splits)

lemma consume_no_results: "\<not> has_tool_result_block bs \<Longrightarrow> consume bs pending = Some pending"
  by (induction bs) (auto simp: has_tool_result_block_def)

lemma repair_paired: "paired (repair_from ms pending) pending"
proof (induction ms pending rule: repair_from.induct)
  case (1 pending)
  then show ?case using paired_flush [of pending "[]"] by simp
next
  case (2 m ms pending)
  let ?bs = "message_blocks m"
  show ?case
  proof (cases "role m = lit ''assistant''")
    case True
    with 2 show ?thesis by (simp add: Let_def paired_flush)
  next
    case na: False
    show ?thesis
    proof (cases "role m = lit ''user'' \<and> has_tool_result_block ?bs")
      case True
      obtain kept p where kp: "keep_or_drop_tool_results ?bs pending = (kept, p)"
        by (cases "keep_or_drop_tool_results ?bs pending")
      have c: "consume kept pending = Some p" using kp by (rule consume_kept)
      have IH: "paired (repair_from ms p) p"
        using 2 na True kp by simp
      show ?thesis
      proof (cases "kept = []")
        case True
        with c have "p = pending" by simp
        then show ?thesis using \<open>kept = []\<close> kp na IH
            \<open>role m = lit ''user'' \<and> has_tool_result_block ?bs\<close>
          by (simp add: Let_def)
      next
        case False
        let ?m = "\<lparr>role = role m, content = JArr kept\<rparr>"
        have "p = pending" if "\<not> is_result_message ?m"
          using that c consume_no_results [of kept pending] True
          by (auto simp: is_result_message_def)
        then have "paired (?m # repair_from ms p) pending"
          using c IH True by auto
        then show ?thesis using False kp na True by (simp add: Let_def)
      qed
    next
      case False
      then show ?thesis using 2 na by (auto simp: Let_def paired_flush is_result_message_def)
    qed
  qed
qed

lemma repair_strictly_paired:
  "list_all results_alone ms \<Longrightarrow> strictly_paired (repair_from ms pending) pending"
proof (induction ms pending rule: repair_from.induct)
  case (1 pending)
  then show ?case using strictly_paired_flush [of pending "[]"] by simp
next
  case (2 m ms pending)
  let ?bs = "message_blocks m"
  show ?case
  proof (cases "role m = lit ''assistant''")
    case True
    with 2 show ?thesis by (simp add: Let_def strictly_paired_flush)
  next
    case na: False
    show ?thesis
    proof (cases "role m = lit ''user'' \<and> has_tool_result_block ?bs")
      case True
      obtain kept p where kp: "keep_or_drop_tool_results ?bs pending = (kept, p)"
        by (cases "keep_or_drop_tool_results ?bs pending")
      have c: "consume kept pending = Some p" using kp by (rule consume_kept)
      have IH: "strictly_paired (repair_from ms p) p"
        using 2 na True kp by simp
      show ?thesis
      proof (cases "kept = []")
        case True
        with c have "p = pending" by simp
        then show ?thesis using \<open>kept = []\<close> kp na IH
            \<open>role m = lit ''user'' \<and> has_tool_result_block ?bs\<close>
          by (simp add: Let_def)
      next
        case False
        let ?m = "\<lparr>role = role m, content = JArr kept\<rparr>"
        have "\<forall>b \<in> set kept. is_block ''tool_result'' b"
          using kept_subset [OF kp] 2(4) True by (auto simp: results_alone_def is_result_message_def)
        with False have "is_result_message ?m"
          using True by (cases kept) (auto simp: is_result_message_def has_tool_result_block_def)
        then have "strictly_paired (?m # repair_from ms p) pending"
          using c IH True by simp
        then show ?thesis using False kp na True by (simp add: Let_def)
      qed
    next
      case False
      then show ?thesis
        using 2 na by (auto simp: Let_def strictly_paired_flush is_result_message_def)
    qed
  qed
qed

lemma repair_fixes_strict: "strictly_paired ms pending \<Longrightarrow> repair_from ms pending = ms"
proof (induction ms pending rule: repair_from.induct)
  case (1 pending)
  then show ?case by (simp add: flush_pending_def)
next
  case (2 m ms pending)
  let ?bs = "message_blocks m"
  show ?case
  proof (cases "role m \<noteq> lit ''assistant'' \<and> is_result_message m")
    case True
    then have u: "role m = lit ''user''" and r: "has_tool_result_block ?bs"
      by (auto simp: is_result_message_def)
    obtain p where p: "consume ?bs pending = Some p" "strictly_paired ms p"
      using 2(4) True by (auto split: option.splits)
    then have "keep_or_drop_tool_results ?bs pending = (?bs, p)" by (simp add: consume_keeps_all)
    moreover have "content m = JArr ?bs" "?bs \<noteq> []"
      using r by (cases "content m"; auto simp: message_blocks_def has_tool_result_block_def as_array_def)+
    ultimately show ?thesis using 2(2) u r p True by (simp add: Let_def)
  next
    case False
    then show ?thesis using 2
      by (auto simp: Let_def flush_pending_def is_result_message_def split: if_splits)
  qed
qed

lemma repair_assistants:
  "filter (\<lambda>m. role m = lit ''assistant'') (repair_from ms pending)
     = filter (\<lambda>m. role m = lit ''assistant'') ms"
  by (induction ms pending rule: repair_from.induct)
    (auto simp: Let_def flush_pending_def split: prod.splits)

subsection \<open>Properties\<close>

definition example_call :: message where
  "example_call = \<lparr>role = lit ''assistant'', content = JArr
     [JObj [(lit ''type'', JStr (lit ''tool_use'')), (lit ''id'', JStr (lit ''call_1''))]]\<rparr>"

definition example_text :: message where
  "example_text = \<lparr>role = lit ''user'', content = JArr
     [JObj [(lit ''type'', JStr (lit ''text'')), (lit ''text'', JStr (lit ''go on''))]]\<rparr>"

definition example_stale :: message where
  "example_stale = \<lparr>role = lit ''user'', content = JArr
     [JObj [(lit ''type'', JStr (lit ''tool_result'')), (lit ''tool_use_id'', JStr (lit ''old''))],
      JObj [(lit ''type'', JStr (lit ''text'')), (lit ''text'', JStr (lit ''go on''))]]\<rparr>"

text \<open>
  C11 Whatever history the repair is given, in its output every tool call is answered before the
  next assistant message or the end, each exactly once, and no result is left without its call.
\<close>

theorem repaired_history_is_paired: "paired (repair_tool_result_history history) []"
  unfolding repair_tool_result_history_def by (rule repair_paired)

text \<open>
  When results come in messages of their own (as the tool executor writes them), nothing stands
  between a call and its results after the repair, and repairing again changes nothing.
\<close>

theorem repaired_history_is_strict:
  assumes "list_all results_alone history"
  shows "strictly_paired (repair_tool_result_history history) []
    \<and> repair_tool_result_history (repair_tool_result_history history)
        = repair_tool_result_history history"
  using repair_strictly_paired [OF assms, of "[]"] repair_fixes_strict
  by (simp add: repair_tool_result_history_def)

theorem repaired_history_is_strict_witness:
  "strictly_paired (repair_tool_result_history [example_call, example_text]) []"
proof -
  have h: "list_all results_alone [example_call, example_text]"
    by (simp add: results_alone_def is_result_message_def example_call_def example_text_def
        has_tool_result_block_def is_block_def jstr_def as_str_def)
  show ?thesis using repaired_history_is_strict [OF h] by simp
qed

text \<open>
  The repair leaves a history that keeps the protocol as it is, and in every history it keeps
  all assistant messages, unchanged and in order.
\<close>

theorem repair_keeps_sound_history:
  "(strictly_paired history [] \<longrightarrow> repair_tool_result_history history = history)
   \<and> filter (\<lambda>m. role m = lit ''assistant'') (repair_tool_result_history history)
       = filter (\<lambda>m. role m = lit ''assistant'') history"
  using repair_fixes_strict repair_assistants by (simp add: repair_tool_result_history_def)

theorem repair_keeps_sound_history_witness:
  "repair_tool_result_history [example_text] = [example_text]"
proof -
  have h: "strictly_paired [example_text] []"
    by (simp add: is_result_message_def example_text_def
        has_tool_result_block_def is_block_def jstr_def as_str_def)
  show ?thesis using h repair_keeps_sound_history [of "[example_text]"] by simp
qed

text \<open>
  A user message that mixes a stale result with text defeats the repair: the stale block is
  dropped, the text is kept in front of the filler, so an unanswered call is followed by user text
  and its result comes only afterwards; a second repair moves the filler.
\<close>

theorem stale_result_separates_call:
  "repair_tool_result_history [example_call, example_stale]
     = [example_call, example_text,
        \<lparr>role = lit ''user'', content = JArr [synthetic_block (lit ''call_1'')]\<rparr>]
   \<and> \<not> strictly_paired (repair_tool_result_history [example_call, example_stale]) []
   \<and> repair_tool_result_history (repair_tool_result_history [example_call, example_stale])
     = [example_call,
        \<lparr>role = lit ''user'', content = JArr [synthetic_block (lit ''call_1'')]\<rparr>, example_text]"
  by code_simp

end
