(* ===== verification/BTreeMap.thy ===== *)
theory BTreeMap
  imports Prelude
begin

section \<open>\<open>BTreeMap\<close> as a key-ordered association list\<close>

text \<open>
  The standard library's ordered map: iteration goes through the keys in ascending order, and an
  insertion replaces the value of an existing key. The lookup of the model is \<^const>\<open>map_of\<close>.
  The map is an instance of the keyed store of the prelude.
\<close>

fun bt_insert :: "'k::linorder \<Rightarrow> 'v \<Rightarrow> ('k \<times> 'v) list \<Rightarrow> ('k \<times> 'v) list" where
  "bt_insert k v [] = [(k, v)]"
| "bt_insert k v ((k', v') # m) =
     (if k < k' then (k, v) # (k', v') # m
      else if k = k' then (k, v) # m
      else (k', v') # bt_insert k v m)"

definition bt_remove :: "'k \<Rightarrow> ('k \<times> 'v) list \<Rightarrow> ('k \<times> 'v) list" where
  "bt_remove k m = filter (\<lambda>kv. fst kv \<noteq> k) m"

definition bt_map :: "('v \<Rightarrow> 'w) \<Rightarrow> ('k \<times> 'v) list \<Rightarrow> ('k \<times> 'w) list" where
  "bt_map f m = map (\<lambda>(k, v). (k, f v)) m"

definition bt_ok :: "('k::linorder \<times> 'v) list \<Rightarrow> bool" where
  "bt_ok m \<longleftrightarrow> sorted_wrt (<) (map fst m)"

lemma map_of_bt_insert [simp]: "map_of (bt_insert k v m) = (map_of m)(k \<mapsto> v)"
  by (induction k v m rule: bt_insert.induct) (auto simp: fun_eq_iff)

lemma map_of_bt_remove [simp]: "map_of (bt_remove k m) = (map_of m)(k := None)"
  unfolding bt_remove_def by (induction m) (auto simp: fun_eq_iff)

lemma map_of_bt_map [simp]: "map_of (bt_map f m) = map_option f \<circ> map_of m"
  unfolding bt_map_def by (induction m) (auto simp: fun_eq_iff)

lemma keys_bt_insert [simp]: "fst ` set (bt_insert k v m) = insert k (fst ` set m)"
  by (induction k v m rule: bt_insert.induct) (auto simp: image_iff)

lemma keys_bt_map [simp]: "map fst (bt_map f m) = map fst m"
  unfolding bt_map_def by (induction m) auto

lemma bt_ok_insert: "bt_ok m \<Longrightarrow> bt_ok (bt_insert k v m)"
proof (induction k v m rule: bt_insert.induct)
  case (2 k v k' v' m)
  have "set (map fst (bt_insert k v m)) = insert k (fst ` set m)" by simp
  with 2 show ?case by (auto simp: bt_ok_def)
qed (simp add: bt_ok_def)

lemma bt_ok_remove: "bt_ok m \<Longrightarrow> bt_ok (bt_remove k m)"
  unfolding bt_ok_def bt_remove_def by (induction m) auto

lemma bt_ok_map: "bt_ok (bt_map f m) \<longleftrightarrow> bt_ok m"
  by (simp add: bt_ok_def)

lemma bt_ok_Nil [simp]: "bt_ok []"
  by (simp add: bt_ok_def)

lemma bt_ok_distinct: "bt_ok m \<Longrightarrow> distinct (map fst m)"
  unfolding bt_ok_def using strict_sorted_iff by blast

lemma bt_ok_in_map_of: "bt_ok m \<Longrightarrow> (k, v) \<in> set m \<longleftrightarrow> map_of m k = Some v"
  using bt_ok_distinct map_of_eq_Some_iff by metis

interpretation btree: keyed_store map_of "\<lambda>m k v. bt_insert k v m" "\<lambda>m k. bt_remove k m"
  by unfold_locales simp_all

end
