(* ===== verification/TaskList.thy ===== *)
theory TaskList
  imports BTreeMap
begin

section \<open>The shared task list store\<close>

text \<open>
  The store of \<open>src/src/tasklist.rs\<close>: one JSON file per task in a directory per task list, shared
  by several agents, every change made under an exclusive lock on the directory.

  \<^item> A directory is the list of its entries in the order \<open>read_dir\<close> yields them. A regular file is
    given by what \<open>serde_json\<close> makes of its bytes: a record, or nothing when they do not parse.
    Writing a record and reading it back gives the record (the documented round trip of serde).
  \<^item> The environment of a call is the clock and the predicate saying which file operations fail.
  \<^item> The lock is held for the whole of a create or an update, so each is one step on the directory.
  \<^item> A failed write leaves the destination as it was: the content goes to a temporary file that is
    renamed over the destination, and is removed on failure.
\<close>

subsection \<open>Records\<close>

datatype task_status = Pending | InProgress | Completed

record task_record =
  t_id :: ustr
  t_subject :: ustr
  t_description :: ustr
  t_active_form :: "ustr option"
  t_owner :: "ustr option"
  t_status :: task_status
  t_revision :: nat
  t_updated_at :: nat
  t_blocks :: "ustr list"
  t_blocked_by :: "ustr list"
  t_metadata :: "(ustr \<times> json) list"

record new_task_record =
  n_subject :: ustr
  n_description :: ustr
  n_active_form :: "ustr option"
  n_metadata :: "(ustr \<times> json) list"

record task_update =
  u_expected_revision :: "nat option"
  u_subject :: "ustr option"
  u_description :: "ustr option"
  u_active_form :: "ustr option option"
  u_owner :: "ustr option option"
  u_claim_owner :: "ustr option"
  u_release_owner :: "ustr option"
  u_status :: "task_status option"
  u_metadata :: "(ustr \<times> json) list"
  u_add_blocks :: "ustr list"
  u_add_blocked_by :: "ustr list"
  u_delete :: bool

definition default_update :: task_update where
  "default_update =
     \<lparr>u_expected_revision = None, u_subject = None, u_description = None, u_active_form = None,
      u_owner = None, u_claim_owner = None, u_release_owner = None, u_status = None,
      u_metadata = [], u_add_blocks = [], u_add_blocked_by = [], u_delete = False\<rparr>"

record status_change =
  sc_from :: task_status
  sc_to :: task_status

record task_update_outcome =
  o_success :: bool
  o_task_id :: ustr
  o_updated_fields :: "ustr list"
  o_revision :: "nat option"
  o_updated_at :: "nat option"
  o_status_change :: "status_change option"
  o_error :: "ustr option"

definition outcome_not_found :: "ustr \<Rightarrow> task_update_outcome" where
  "outcome_not_found k =
     \<lparr>o_success = False, o_task_id = k, o_updated_fields = [], o_revision = None,
      o_updated_at = None, o_status_change = None, o_error = Some (lit ''Task not found'')\<rparr>"

definition outcome_stale :: "ustr \<Rightarrow> nat \<Rightarrow> nat \<Rightarrow> task_update_outcome" where
  "outcome_stale k current_revision updated_at =
     \<lparr>o_success = False, o_task_id = k, o_updated_fields = [], o_revision = Some current_revision,
      o_updated_at = Some updated_at, o_status_change = None,
      o_error = Some (lit ''Task revision mismatch'')\<rparr>"

definition outcome_conflict :: "ustr \<Rightarrow> nat \<Rightarrow> nat \<Rightarrow> ustr \<Rightarrow> task_update_outcome" where
  "outcome_conflict k current_revision updated_at err =
     \<lparr>o_success = False, o_task_id = k, o_updated_fields = [], o_revision = Some current_revision,
      o_updated_at = Some updated_at, o_status_change = None, o_error = Some err\<rparr>"

definition outcome_deleted :: "ustr \<Rightarrow> task_update_outcome" where
  "outcome_deleted k =
     \<lparr>o_success = True, o_task_id = k, o_updated_fields = [lit ''deleted''], o_revision = None,
      o_updated_at = None, o_status_change = None, o_error = None\<rparr>"

subsection \<open>Identifiers\<close>

text \<open>\<open>Path::is_absolute\<close> on Unix.\<close>

definition is_absolute_path :: "ustr \<Rightarrow> bool" where
  "is_absolute_path s = starts_with s (lit ''/'')"

definition is_valid_task_id :: "ustr \<Rightarrow> bool" where
  "is_valid_task_id task_id =
     (let k = trim task_id
      in k \<noteq> [] \<and> \<not> contains_str k (lit ''/'') \<and> \<not> contains_str k [92] \<and>
         \<not> contains_str k (lit ''..'') \<and> \<not> is_absolute_path k)"

definition canonical_char :: "uchar \<Rightarrow> uchar" where
  "canonical_char c = (if is_ascii_alphanumeric c \<or> c = chr ''-'' \<or> c = chr ''_'' then c else chr ''-'')"

definition trim_matches :: "uchar \<Rightarrow> ustr \<Rightarrow> ustr" where
  "trim_matches c s = rev (dropWhile (\<lambda>x. x = c) (rev (dropWhile (\<lambda>x. x = c) s)))"

definition canonical_task_list_id :: "ustr \<Rightarrow> ustr" where
  "canonical_task_list_id task_list_id =
     (let normalized = trim_matches (chr ''-'') (map canonical_char (trim task_list_id))
      in if normalized = [] then lit ''default'' else normalized)"

text \<open>\<open>Path::file_stem\<close> and \<open>Path::extension\<close> of a file name: the split at the last dot, with no
  extension when there is no dot or nothing before it.\<close>

fun split_last_dot :: "ustr \<Rightarrow> (ustr \<times> ustr) option" where
  "split_last_dot [] = None"
| "split_last_dot (c # s) =
     (case split_last_dot s of
        Some (a, b) \<Rightarrow> Some (c # a, b)
      | None \<Rightarrow> if c = chr ''.'' then Some ([], s) else None)"

definition stem_extension :: "ustr \<Rightarrow> ustr \<times> ustr option" where
  "stem_extension name =
     (case split_last_dot name of
        None \<Rightarrow> (name, None)
      | Some (a, b) \<Rightarrow> if a = [] then (name, None) else (a, Some b))"

definition task_file_name :: "ustr \<Rightarrow> ustr" where
  "task_file_name task_id = task_id @ lit ''.json''"

subsection \<open>Directories\<close>

text \<open>An entry is a regular file or anything else (a directory, a symbolic link, a socket).\<close>

datatype dir_entry = RealFile "task_record option" | OtherEntry

type_synonym directory = "(ustr \<times> dir_entry) list"

fun dir_put :: "directory \<Rightarrow> ustr \<Rightarrow> dir_entry \<Rightarrow> directory" where
  "dir_put [] name e = [(name, e)]"
| "dir_put ((n, x) # d) name e = (if n = name then (n, e) # d else (n, x) # dir_put d name e)"

definition dir_remove :: "directory \<Rightarrow> ustr \<Rightarrow> directory" where
  "dir_remove d name = filter (\<lambda>x. fst x \<noteq> name) d"

definition is_real_file :: "directory \<Rightarrow> ustr \<Rightarrow> bool" where
  "is_real_file d name = (case map_of d name of Some (RealFile _) \<Rightarrow> True | _ \<Rightarrow> False)"

definition task_id_from_path :: "directory \<Rightarrow> ustr \<Rightarrow> ustr option" where
  "task_id_from_path d name =
     (if \<not> is_real_file d name then None
      else if starts_with name (lit ''.'') then None
      else (case stem_extension name of
          (_, None) \<Rightarrow> None
        | (stem, Some ext) \<Rightarrow>
            if map to_ascii_lowercase ext \<noteq> lit ''json'' then None
            else if is_valid_task_id stem then Some stem else None))"

datatype io_op =
    CreateRoot | CreateListDir | OpenLock | LockDir
  | ReadDir | ReadEntry ustr | ReadFile ustr | WriteFile ustr | RemoveFile ustr

record task_env =
  now_secs :: nat
  io_fails :: "io_op \<Rightarrow> bool"

datatype task_error =
    IoFailure io_op
  | ParseFailure ustr
  | IdMismatch ustr ustr
  | RootNotRealDirectory
  | ListNotRealDirectory
  | LockNotRealFile
  | InvalidTaskId ustr
  | InvalidDependency ustr ustr
  | DependencyNotFound string ustr
  | AlreadyExists ustr
  | NotRealFile ustr
  | ExpectFailed

definition read_task_file :: "task_env \<Rightarrow> directory \<Rightarrow> ustr \<Rightarrow> ustr \<Rightarrow> task_error + task_record" where
  "read_task_file env d name expected_task_id =
     (if io_fails env (ReadFile name) then Inl (IoFailure (ReadFile name))
      else (case map_of d name of
          Some (RealFile (Some task)) \<Rightarrow>
            if is_valid_task_id (t_id task) \<and> t_id task = expected_task_id
            then Inr (if t_revision task = 0 then task\<lparr>t_revision := 1\<rparr> else task)
            else Inl (IdMismatch (t_id task) expected_task_id)
        | Some (RealFile None) \<Rightarrow> Inl (ParseFailure name)
        | _ \<Rightarrow> Inl (IoFailure (ReadFile name))))"

definition get_task_from_dir :: "task_env \<Rightarrow> ustr \<Rightarrow> (directory, task_error, task_record option) em" where
  "get_task_from_dir env task_id =
     (\<lambda>d. if \<not> is_real_file d (task_file_name task_id) then (Inr None, d)
          else (case read_task_file env d (task_file_name task_id) task_id of
              Inl e \<Rightarrow> (Inl e, d)
            | Inr t \<Rightarrow> (Inr (Some t), d)))"

definition write_task_file_at_path :: "task_env \<Rightarrow> task_record \<Rightarrow> ustr \<Rightarrow> (directory, task_error, unit) em" where
  "write_task_file_at_path env task name =
     (\<lambda>d. if io_fails env (WriteFile name) then (Inl (IoFailure (WriteFile name)), d)
          else (Inr (), dir_put d name (RealFile (Some task))))"

definition write_new_task_file :: "task_env \<Rightarrow> task_record \<Rightarrow> (directory, task_error, unit) em" where
  "write_new_task_file env task =
     (\<lambda>d. if map_of d (task_file_name (t_id task)) \<noteq> None
          then (Inl (AlreadyExists (task_file_name (t_id task))), d)
          else write_task_file_at_path env task (task_file_name (t_id task)) d)"

definition write_task_file :: "task_env \<Rightarrow> task_record \<Rightarrow> (directory, task_error, unit) em" where
  "write_task_file env task =
     (\<lambda>d. if \<not> is_real_file d (task_file_name (t_id task))
          then (Inl (NotRealFile (task_file_name (t_id task))), d)
          else write_task_file_at_path env task (task_file_name (t_id task)) d)"

text \<open>The loop \<open>for related_task in related_tasks.values() { self.write_task_file(..)? }\<close>.\<close>

fun write_task_files :: "task_env \<Rightarrow> task_record list \<Rightarrow> (directory, task_error, unit) em" where
  "write_task_files env [] = retE ()"
| "write_task_files env (t # ts) = thenE (write_task_file env t) (write_task_files env ts)"

subsection \<open>Listing\<close>

text \<open>Numeric identifiers come first, in numeric order; the others follow in string order.\<close>

datatype task_key = NumKey nat | TextKey ustr

definition task_key :: "task_record \<Rightarrow> task_key" where
  "task_key t = (case parse_u64 (t_id t) of Some n \<Rightarrow> NumKey n | None \<Rightarrow> TextKey (t_id t))"

instantiation task_key :: linorder
begin

definition less_eq_task_key :: "task_key \<Rightarrow> task_key \<Rightarrow> bool" where
  "less_eq_task_key a b =
     (case (a, b) of
        (NumKey m, NumKey n) \<Rightarrow> m \<le> n
      | (NumKey _, TextKey _) \<Rightarrow> True
      | (TextKey _, NumKey _) \<Rightarrow> False
      | (TextKey s, TextKey t) \<Rightarrow> s \<le> t)"

definition less_task_key :: "task_key \<Rightarrow> task_key \<Rightarrow> bool" where
  "less_task_key a b = (a \<le> b \<and> \<not> b \<le> (a :: task_key))"

instance
  by standard (auto simp: less_task_key_def less_eq_task_key_def split: task_key.splits)

end

text \<open>\<open>sort_by\<close> is a stable sort, as \<^const>\<open>sort_key\<close> is.\<close>

definition sort_tasks_by_id :: "task_record list \<Rightarrow> task_record list" where
  "sort_tasks_by_id ts = sort_key task_key ts"

fun list_entries :: "task_env \<Rightarrow> directory \<Rightarrow> ustr list \<Rightarrow> task_error + task_record list" where
  "list_entries env d [] = Inr []"
| "list_entries env d (name # names) =
     (if io_fails env (ReadEntry name) then Inl (IoFailure (ReadEntry name))
      else (case list_entries env d names of
          Inl e \<Rightarrow> Inl e
        | Inr ts \<Rightarrow>
            (case task_id_from_path d name of
               None \<Rightarrow> Inr ts
             | Some task_id \<Rightarrow>
                 (case read_task_file env d name task_id of
                    Inl _ \<Rightarrow> Inr ts
                  | Inr t \<Rightarrow> Inr (t # ts)))))"

text \<open>What \<open>symlink_metadata\<close> finds at the path of the root or of a task list.\<close>

datatype 'c dir_node = Missing | RealDirectory 'c | LinkToDirectory 'c | DanglingLink | OtherNode

fun node_exists :: "'c dir_node \<Rightarrow> bool" where
  "node_exists Missing = False"
| "node_exists DanglingLink = False"
| "node_exists _ = True"

fun is_real_directory :: "'c dir_node \<Rightarrow> bool" where
  "is_real_directory (RealDirectory _) = True"
| "is_real_directory _ = False"

fun node_entries :: "directory dir_node \<Rightarrow> directory" where
  "node_entries (RealDirectory d) = d"
| "node_entries (LinkToDirectory d) = d"
| "node_entries _ = []"

record task_store =
  ts_root :: "unit dir_node"
  ts_lists :: "ustr \<Rightarrow> directory dir_node"

definition task_list_dir :: "task_store \<Rightarrow> ustr \<Rightarrow> directory dir_node" where
  "task_list_dir s task_list_id = ts_lists s (canonical_task_list_id task_list_id)"

definition list_tasks :: "task_env \<Rightarrow> task_store \<Rightarrow> ustr \<Rightarrow> task_error + task_record list" where
  "list_tasks env s task_list_id =
     (case task_list_dir s task_list_id of
        RealDirectory d \<Rightarrow>
          if io_fails env ReadDir then Inl (IoFailure ReadDir)
          else (case list_entries env d (map fst d) of
              Inl e \<Rightarrow> Inl e
            | Inr ts \<Rightarrow> Inr (sort_tasks_by_id ts))
      | _ \<Rightarrow> Inr [])"

text \<open>A path below a linked directory is resolved through the link.\<close>

definition get_task :: "task_env \<Rightarrow> task_store \<Rightarrow> ustr \<Rightarrow> ustr \<Rightarrow> task_error + task_record option" where
  "get_task env s task_list_id task_id =
     (if \<not> is_valid_task_id (trim task_id) then Inr None
      else fst (get_task_from_dir env (trim task_id) (node_entries (task_list_dir s task_list_id))))"

subsection \<open>The locked section\<close>

text \<open>\<open>fs::create_dir_all\<close> follows links; it fails on a dangling link and on a non-directory.\<close>

definition create_dir_all :: "task_env \<Rightarrow> io_op \<Rightarrow> 'c \<Rightarrow> 'c dir_node \<Rightarrow> task_error + 'c dir_node" where
  "create_dir_all env op blank node =
     (case node of
        Missing \<Rightarrow> if io_fails env op then Inl (IoFailure op) else Inr (RealDirectory blank)
      | RealDirectory _ \<Rightarrow> Inr node
      | LinkToDirectory _ \<Rightarrow> Inr node
      | _ \<Rightarrow> Inl (IoFailure op))"

definition prepare_task_list_dir :: "task_env \<Rightarrow> ustr \<Rightarrow> (task_store, task_error, directory) em" where
  "prepare_task_list_dir env task_list_id =
     (\<lambda>s. case create_dir_all env CreateRoot () (ts_root s) of
        Inl e \<Rightarrow> (Inl e, s)
      | Inr root \<Rightarrow>
          let s = s\<lparr>ts_root := root\<rparr>
          in if \<not> is_real_directory root then (Inl RootNotRealDirectory, s)
             else let node = task_list_dir s task_list_id
               in if node_exists node \<and> \<not> is_real_directory node then (Inl ListNotRealDirectory, s)
                  else (case create_dir_all env CreateListDir [] node of
                      Inl e \<Rightarrow> (Inl e, s)
                    | Inr node' \<Rightarrow>
                        (Inr (node_entries node'),
                         s\<lparr>ts_lists := (ts_lists s)(canonical_task_list_id task_list_id := node')\<rparr>)))"

definition open_lock_file :: "task_env \<Rightarrow> (directory, task_error, unit) em" where
  "open_lock_file env =
     (\<lambda>d. case map_of d (lit ''.lock'') of
        None \<Rightarrow> if io_fails env OpenLock then (Inl (IoFailure OpenLock), d)
                else (Inr (), dir_put d (lit ''.lock'') (RealFile None))
      | Some (RealFile _) \<Rightarrow> if io_fails env OpenLock then (Inl (IoFailure OpenLock), d) else (Inr (), d)
      | Some OtherEntry \<Rightarrow> (Inl LockNotRealFile, d))"

definition lock_exclusive :: "task_env \<Rightarrow> (directory, task_error, unit) em" where
  "lock_exclusive env =
     (if io_fails env LockDir then throwE (IoFailure LockDir) else retE ())"

text \<open>Preparation, lock, and the body of the operation on the list's directory.\<close>

definition with_task_list_lock ::
    "task_env \<Rightarrow> ustr \<Rightarrow> (directory, task_error, 'a) em \<Rightarrow> (task_store, task_error, 'a) em" where
  "with_task_list_lock env task_list_id body =
     bindE (prepare_task_list_dir env task_list_id)
       (\<lambda>d s. case thenE (open_lock_file env) (thenE (lock_exclusive env) body) d of
          (r, d') \<Rightarrow>
            (r, s\<lparr>ts_lists := (ts_lists s)(canonical_task_list_id task_list_id := RealDirectory d')\<rparr>))"

subsection \<open>Creating a task\<close>

fun highest_task_id :: "task_env \<Rightarrow> directory \<Rightarrow> ustr list \<Rightarrow> nat \<Rightarrow> task_error + nat" where
  "highest_task_id env d [] highest_id = Inr highest_id"
| "highest_task_id env d (name # names) highest_id =
     (if io_fails env (ReadEntry name) then Inl (IoFailure (ReadEntry name))
      else (case task_id_from_path d name of
          None \<Rightarrow> highest_task_id env d names highest_id
        | Some task_id \<Rightarrow>
            (case parse_u64 task_id of
               Some n \<Rightarrow> highest_task_id env d names (max highest_id n)
             | None \<Rightarrow> highest_task_id env d names highest_id)))"

text \<open>\<open>highest_id + 1\<close> wraps in a release build.\<close>

definition next_task_id_in_dir :: "task_env \<Rightarrow> (directory, task_error, ustr) em" where
  "next_task_id_in_dir env =
     (\<lambda>d. if io_fails env ReadDir then (Inl (IoFailure ReadDir), d)
          else (case highest_task_id env d (map fst d) 0 of
              Inl e \<Rightarrow> (Inl e, d)
            | Inr highest_id \<Rightarrow> (Inr (dec (wrapping_add64 highest_id 1)), d)))"

definition new_task :: "task_env \<Rightarrow> ustr \<Rightarrow> new_task_record \<Rightarrow> task_record" where
  "new_task env next_id input =
     \<lparr>t_id = next_id, t_subject = n_subject input, t_description = n_description input,
      t_active_form = n_active_form input, t_owner = None, t_status = Pending, t_revision = 1,
      t_updated_at = now_secs env, t_blocks = [], t_blocked_by = [], t_metadata = n_metadata input\<rparr>"

definition create_task_locked :: "task_env \<Rightarrow> new_task_record \<Rightarrow> (directory, task_error, task_record) em" where
  "create_task_locked env input =
     bindE (next_task_id_in_dir env)
       (\<lambda>next_id. thenE (write_new_task_file env (new_task env next_id input))
          (retE (new_task env next_id input)))"

definition create_task ::
    "task_env \<Rightarrow> ustr \<Rightarrow> new_task_record \<Rightarrow> (task_store, task_error, task_record) em" where
  "create_task env task_list_id input = with_task_list_lock env task_list_id (create_task_locked env input)"

subsection \<open>Updating a task\<close>

definition apply_text_update :: "ustr \<Rightarrow> ustr option \<Rightarrow> ustr \<Rightarrow> ustr list \<Rightarrow> ustr \<times> ustr list" where
  "apply_text_update target upd field_name updated_fields =
     (case upd of
        Some v \<Rightarrow> if target \<noteq> v then (v, updated_fields @ [field_name]) else (target, updated_fields)
      | None \<Rightarrow> (target, updated_fields))"

definition apply_optional_text_update ::
    "ustr option \<Rightarrow> ustr option option \<Rightarrow> ustr \<Rightarrow> ustr list \<Rightarrow> ustr option \<times> ustr list" where
  "apply_optional_text_update target upd field_name updated_fields =
     (case upd of
        Some v \<Rightarrow> if target \<noteq> v then (v, updated_fields @ [field_name]) else (target, updated_fields)
      | None \<Rightarrow> (target, updated_fields))"

text \<open>The new owner, the field list, and the conflict when there is one.\<close>

definition apply_release :: "ustr option \<Rightarrow> ustr option \<Rightarrow> ustr list \<Rightarrow> ustr option \<times> ustr list \<times> ustr option" where
  "apply_release owner release_owner updated_fields =
     (case release_owner of
        None \<Rightarrow> (owner, updated_fields, None)
      | Some release \<Rightarrow>
          (case owner of
             None \<Rightarrow> (owner, updated_fields, None)
           | Some existing \<Rightarrow>
               if existing \<noteq> release
               then (owner, updated_fields,
                     Some (lit ''Task is owned by '' @ existing @ lit '', not '' @ release))
               else (None, updated_fields @ [lit ''owner''], None)))"

definition apply_owner_claim_update ::
    "ustr option \<Rightarrow> ustr option \<Rightarrow> ustr option \<Rightarrow> ustr list \<Rightarrow> ustr option \<times> ustr list \<times> ustr option" where
  "apply_owner_claim_update owner claim_owner release_owner updated_fields =
     (case claim_owner of
        None \<Rightarrow> apply_release owner release_owner updated_fields
      | Some claim \<Rightarrow>
          (case owner of
             Some existing \<Rightarrow>
               if existing \<noteq> claim
               then (owner, updated_fields, Some (lit ''Task already owned by '' @ existing))
               else apply_release owner release_owner updated_fields
           | None \<Rightarrow> apply_release (Some claim) release_owner (updated_fields @ [lit ''owner''])))"

definition bump_task_revision :: "task_env \<Rightarrow> task_record \<Rightarrow> task_record" where
  "bump_task_revision env t =
     t\<lparr>t_revision := saturating_add64 (t_revision t) 1, t_updated_at := now_secs env\<rparr>"

fun merge_metadata :: "(ustr \<times> json) list \<Rightarrow> (ustr \<times> json) list \<Rightarrow> (ustr \<times> json) list" where
  "merge_metadata target [] = target"
| "merge_metadata target ((k, v) # updates) =
     merge_metadata (if is_null v then bt_remove k target else bt_insert k v target) updates"

definition push_unique :: "ustr list \<Rightarrow> ustr \<Rightarrow> ustr list \<times> bool" where
  "push_unique vs v = (if v \<in> set vs then (vs, False) else (vs @ [v], True))"

definition ensure_valid_dependency :: "ustr \<Rightarrow> ustr \<Rightarrow> (directory, task_error, unit) em" where
  "ensure_valid_dependency blocker_id blocked_id =
     (if \<not> is_valid_task_id blocker_id \<or> \<not> is_valid_task_id blocked_id \<or> blocker_id = blocked_id
      then throwE (InvalidDependency blocker_id blocked_id) else retE ())"

definition load_dependency_task :: "task_env \<Rightarrow> ustr \<Rightarrow> string \<Rightarrow> (directory, task_error, task_record) em" where
  "load_dependency_task env task_id role =
     bindE (get_task_from_dir env task_id) (\<lambda>t. okOrE (DependencyNotFound role task_id) t)"

type_synonym related = "(ustr \<times> task_record) list"

fun load_blocked :: "task_env \<Rightarrow> ustr \<Rightarrow> ustr list \<Rightarrow> related \<Rightarrow> (directory, task_error, related) em" where
  "load_blocked env task_id [] rel = retE rel"
| "load_blocked env task_id (k # ks) rel =
     thenE (ensure_valid_dependency task_id k)
       (if map_of rel k \<noteq> None then load_blocked env task_id ks rel
        else bindE (load_dependency_task env k ''blocked'')
          (\<lambda>t. load_blocked env task_id ks (bt_insert k t rel)))"

fun load_blockers :: "task_env \<Rightarrow> ustr \<Rightarrow> ustr list \<Rightarrow> related \<Rightarrow> (directory, task_error, related) em" where
  "load_blockers env task_id [] rel = retE rel"
| "load_blockers env task_id (k # ks) rel =
     thenE (ensure_valid_dependency k task_id)
       (if map_of rel k \<noteq> None then load_blockers env task_id ks rel
        else bindE (load_dependency_task env k ''blocking'')
          (\<lambda>t. load_blockers env task_id ks (bt_insert k t rel)))"

text \<open>One round of each linking loop: the related record and the task itself.\<close>

definition link_blocked :: "task_env \<Rightarrow> ustr \<Rightarrow> task_record \<Rightarrow> task_record" where
  "link_blocked env task_id blocked =
     (case push_unique (t_blocked_by blocked) task_id of
        (vs, True) \<Rightarrow> bump_task_revision env (blocked\<lparr>t_blocked_by := vs\<rparr>)
      | (_, False) \<Rightarrow> blocked)"

definition link_blocker :: "task_env \<Rightarrow> ustr \<Rightarrow> task_record \<Rightarrow> task_record" where
  "link_blocker env task_id blocker =
     (case push_unique (t_blocks blocker) task_id of
        (vs, True) \<Rightarrow> bump_task_revision env (blocker\<lparr>t_blocks := vs\<rparr>)
      | (_, False) \<Rightarrow> blocker)"

fun add_blocks_loop ::
    "task_env \<Rightarrow> ustr \<Rightarrow> ustr list \<Rightarrow> related \<Rightarrow> task_record \<Rightarrow> task_error + related \<times> task_record" where
  "add_blocks_loop env task_id [] rel task = Inr (rel, task)"
| "add_blocks_loop env task_id (k # ks) rel task =
     (case map_of rel k of
        None \<Rightarrow> Inl ExpectFailed
      | Some blocked \<Rightarrow>
          add_blocks_loop env task_id ks (bt_insert k (link_blocked env task_id blocked) rel)
            (task\<lparr>t_blocks := fst (push_unique (t_blocks task) k)\<rparr>))"

fun add_blocked_by_loop ::
    "task_env \<Rightarrow> ustr \<Rightarrow> ustr list \<Rightarrow> related \<Rightarrow> task_record \<Rightarrow> task_error + related \<times> task_record" where
  "add_blocked_by_loop env task_id [] rel task = Inr (rel, task)"
| "add_blocked_by_loop env task_id (k # ks) rel task =
     (case map_of rel k of
        None \<Rightarrow> Inl ExpectFailed
      | Some blocker \<Rightarrow>
          add_blocked_by_loop env task_id ks (bt_insert k (link_blocker env task_id blocker) rel)
            (task\<lparr>t_blocked_by := fst (push_unique (t_blocked_by task) k)\<rparr>))"

definition liftE :: "'e + 'a \<Rightarrow> ('s, 'e, 'a) em" where
  "liftE r = (\<lambda>s. (r, s))"

definition apply_dependency_updates ::
    "task_env \<Rightarrow> ustr \<Rightarrow> task_record \<Rightarrow> ustr list \<Rightarrow> ustr list \<Rightarrow> ustr list \<Rightarrow>
     (directory, task_error, task_record \<times> ustr list) em" where
  "apply_dependency_updates env task_id task add_blocks add_blocked_by updated_fields =
     bindE (load_blocked env task_id add_blocks []) (\<lambda>rel.
     bindE (load_blockers env task_id add_blocked_by rel) (\<lambda>rel.
     bindE (liftE (add_blocks_loop env task_id add_blocks rel task)) (\<lambda>(rel, task).
     let updated_fields = (if add_blocks \<noteq> [] then updated_fields @ [lit ''blocks''] else updated_fields)
     in bindE (liftE (add_blocked_by_loop env task_id add_blocked_by rel task)) (\<lambda>(rel, task).
     let updated_fields =
       (if add_blocked_by \<noteq> [] then updated_fields @ [lit ''blockedBy''] else updated_fields)
     in thenE (write_task_files env (map snd rel)) (retE (task, updated_fields))))))"

fun load_known_references ::
    "task_env \<Rightarrow> ustr \<Rightarrow> ustr list \<Rightarrow> related \<Rightarrow> (directory, task_error, related) em" where
  "load_known_references env task_id [] rel = retE rel"
| "load_known_references env task_id (k # ks) rel =
     (if \<not> is_valid_task_id k \<or> k = task_id then load_known_references env task_id ks rel
      else if map_of rel k \<noteq> None then load_known_references env task_id ks rel
      else bindE (get_task_from_dir env k)
        (\<lambda>t. load_known_references env task_id ks
           (case t of None \<Rightarrow> rel | Some t \<Rightarrow> bt_insert k t rel)))"

definition drop_references :: "ustr \<Rightarrow> task_record \<Rightarrow> task_record" where
  "drop_references task_id t =
     t\<lparr>t_blocks := filter (\<lambda>k. k \<noteq> task_id) (t_blocks t),
       t_blocked_by := filter (\<lambda>k. k \<noteq> task_id) (t_blocked_by t)\<rparr>"

definition remove_known_task_references ::
    "task_env \<Rightarrow> ustr \<Rightarrow> task_record \<Rightarrow> (directory, task_error, unit) em" where
  "remove_known_task_references env task_id task =
     bindE (load_known_references env task_id (t_blocked_by task @ t_blocks task) [])
       (\<lambda>rel. write_task_files env (map snd (bt_map (drop_references task_id) rel)))"

definition remove_task_file :: "task_env \<Rightarrow> ustr \<Rightarrow> (directory, task_error, unit) em" where
  "remove_task_file env name =
     (\<lambda>d. if io_fails env (RemoveFile name) \<or> map_of d name = None
          then (Inl (IoFailure (RemoveFile name)), d) else (Inr (), dir_remove d name))"

definition delete_task_locked :: "task_env \<Rightarrow> ustr \<Rightarrow> (directory, task_error, task_update_outcome) em" where
  "delete_task_locked env task_id =
     bindE (get_task_from_dir env task_id) (\<lambda>found.
       case found of
         None \<Rightarrow> retE (outcome_not_found task_id)
       | Some task \<Rightarrow>
           thenE (remove_known_task_references env task_id task)
          (thenE (remove_task_file env (task_file_name task_id))
          (retE (outcome_deleted task_id))))"

text \<open>The fields of the record before the dependencies, with the conflict that stops the update.\<close>

definition apply_field_updates ::
    "task_record \<Rightarrow> task_update \<Rightarrow> task_record \<times> ustr list \<times> ustr option" where
  "apply_field_updates task upd =
     (let (subject, changed) = apply_text_update (t_subject task) (u_subject upd) (lit ''subject'') [];
          (description, changed) =
            apply_text_update (t_description task) (u_description upd) (lit ''description'') changed;
          (active_form, changed) =
            apply_optional_text_update (t_active_form task) (u_active_form upd) (lit ''activeForm'') changed;
          (owner, changed, conflict) =
            apply_owner_claim_update (t_owner task) (u_claim_owner upd) (u_release_owner upd) changed;
          task = task\<lparr>t_subject := subject, t_description := description,
                      t_active_form := active_form, t_owner := owner\<rparr>
      in if conflict \<noteq> None then (task, changed, conflict)
         else let (owner, changed) = apply_optional_text_update owner (u_owner upd) (lit ''owner'') changed;
                  task = task\<lparr>t_owner := owner\<rparr>;
                  (task, changed) =
                    (case u_status upd of
                       Some st \<Rightarrow> if t_status task \<noteq> st then (task\<lparr>t_status := st\<rparr>, changed @ [lit ''status''])
                                  else (task, changed)
                     | None \<Rightarrow> (task, changed));
                  (task, changed) =
                    (if u_metadata upd \<noteq> []
                     then (task\<lparr>t_metadata := merge_metadata (t_metadata task) (u_metadata upd)\<rparr>,
                           changed @ [lit ''metadata''])
                     else (task, changed))
              in (task, changed, None))"

definition outcome_updated :: "ustr \<Rightarrow> task_status \<Rightarrow> task_record \<Rightarrow> ustr list \<Rightarrow> task_update_outcome" where
  "outcome_updated task_id old_status task updated_fields =
     \<lparr>o_success = True, o_task_id = task_id, o_updated_fields = remdups_adj (sort updated_fields),
      o_revision = Some (t_revision task), o_updated_at = Some (t_updated_at task),
      o_status_change =
        (if old_status \<noteq> t_status task then Some \<lparr>sc_from = old_status, sc_to = t_status task\<rparr> else None),
      o_error = None\<rparr>"

definition store_updated ::
    "task_env \<Rightarrow> ustr \<Rightarrow> task_status \<Rightarrow> task_record \<Rightarrow> ustr list \<Rightarrow>
     (directory, task_error, task_update_outcome) em" where
  "store_updated env task_id old_status task updated_fields =
     (if updated_fields \<noteq> []
      then thenE (write_task_file env (bump_task_revision env task))
             (retE (outcome_updated task_id old_status (bump_task_revision env task) updated_fields))
      else retE (outcome_updated task_id old_status task updated_fields))"

definition modify_task_locked ::
    "task_env \<Rightarrow> ustr \<Rightarrow> task_update \<Rightarrow> (directory, task_error, task_update_outcome) em" where
  "modify_task_locked env task_id upd =
     bindE (get_task_from_dir env task_id) (\<lambda>found.
       case found of
         None \<Rightarrow> retE (outcome_not_found task_id)
       | Some task \<Rightarrow>
           if u_expected_revision upd \<noteq> None \<and> u_expected_revision upd \<noteq> Some (t_revision task)
           then retE (outcome_stale task_id (t_revision task) (t_updated_at task))
           else (case apply_field_updates task upd of
               (_, _, Some conflict) \<Rightarrow>
                 retE (outcome_conflict task_id (t_revision task) (t_updated_at task) conflict)
             | (task', changed, None) \<Rightarrow>
                 bindE (apply_dependency_updates env task_id task' (u_add_blocks upd)
                          (u_add_blocked_by upd) changed)
                   (\<lambda>(task', changed). store_updated env task_id (t_status task) task' changed)))"

definition update_task_locked ::
    "task_env \<Rightarrow> ustr \<Rightarrow> task_update \<Rightarrow> (directory, task_error, task_update_outcome) em" where
  "update_task_locked env task_id upd =
     (if u_delete upd then delete_task_locked env task_id else modify_task_locked env task_id upd)"

definition update_task ::
    "task_env \<Rightarrow> ustr \<Rightarrow> ustr \<Rightarrow> task_update \<Rightarrow> (task_store, task_error, task_update_outcome) em" where
  "update_task env task_list_id task_id upd =
     (if \<not> is_valid_task_id (trim task_id) then throwE (InvalidTaskId (trim task_id))
      else with_task_list_lock env task_list_id (update_task_locked env (trim task_id) upd))"

subsection \<open>Views\<close>

record task_list_entry =
  e_id :: ustr
  e_subject :: ustr
  e_status :: task_status
  e_revision :: nat
  e_updated_at :: nat
  e_owner :: "ustr option"
  e_blocked_by :: "ustr list"

record task_details =
  d_id :: ustr
  d_subject :: ustr
  d_description :: ustr
  d_status :: task_status
  d_revision :: nat
  d_updated_at :: nat
  d_owner :: "ustr option"
  d_blocks :: "ustr list"
  d_blocked_by :: "ustr list"

definition task_list_entry_from_task :: "task_record \<Rightarrow> ustr set \<Rightarrow> task_list_entry" where
  "task_list_entry_from_task t completed_task_ids =
     \<lparr>e_id = t_id t, e_subject = t_subject t, e_status = t_status t, e_revision = t_revision t,
      e_updated_at = t_updated_at t, e_owner = t_owner t,
      e_blocked_by = filter (\<lambda>k. k \<notin> completed_task_ids) (t_blocked_by t)\<rparr>"

definition task_list_entries :: "task_record list \<Rightarrow> task_list_entry list" where
  "task_list_entries tasks =
     (let completed = set (map t_id (filter (\<lambda>t. t_status t = Completed) tasks))
      in map (\<lambda>t. task_list_entry_from_task t completed) tasks)"

definition task_details_of :: "task_record \<Rightarrow> task_details" where
  "task_details_of t =
     \<lparr>d_id = t_id t, d_subject = t_subject t, d_description = t_description t, d_status = t_status t,
      d_revision = t_revision t, d_updated_at = t_updated_at t, d_owner = t_owner t,
      d_blocks = t_blocks t, d_blocked_by = t_blocked_by t\<rparr>"

subsection \<open>What a directory says\<close>

text \<open>
  \<open>task_at d k\<close> is the task a reader of the directory finds under the identifier \<open>k\<close>: the abstract
  contents of the list. The two sides of a dependency live in two files; \<open>deps_ok\<close> says that every
  edge is recorded on both sides and that both ends exist.
\<close>

definition task_at :: "directory \<Rightarrow> ustr \<Rightarrow> task_record option" where
  "task_at d k =
     (case map_of d (task_file_name k) of
        Some (RealFile (Some t)) \<Rightarrow>
          if is_valid_task_id (t_id t) \<and> t_id t = k
          then Some (if t_revision t = 0 then t\<lparr>t_revision := 1\<rparr> else t) else None
      | _ \<Rightarrow> None)"

definition tasks_in :: "directory \<Rightarrow> task_record list" where
  "tasks_in d =
     List.map_filter (\<lambda>(_, e). case e of RealFile (Some t) \<Rightarrow> task_at d (t_id t) | _ \<Rightarrow> None) d"

definition edge_ok :: "(ustr \<Rightarrow> task_record option) \<Rightarrow> task_record \<Rightarrow> bool" where
  "edge_ok m t \<longleftrightarrow>
     (\<forall>b \<in> set (t_blocks t).
        case m b of None \<Rightarrow> False | Some tb \<Rightarrow> t_id t \<in> set (t_blocked_by tb)) \<and>
     (\<forall>b \<in> set (t_blocked_by t).
        case m b of None \<Rightarrow> False | Some tb \<Rightarrow> t_id t \<in> set (t_blocks tb))"

definition deps_ok :: "directory \<Rightarrow> bool" where
  "deps_ok d \<longleftrightarrow> (\<forall>t \<in> set (tasks_in d). edge_ok (task_at d) t)"

definition valid_record :: "task_record \<Rightarrow> bool" where
  "valid_record t \<longleftrightarrow> is_valid_task_id (t_id t) \<and> t_revision t \<noteq> 0"

named_theorems task_simps \<open>field projections of the small record updates\<close>

lemma map_of_dir_put [simp]: "map_of (dir_put d n e) = (map_of d)(n \<mapsto> e)"
  by (induction d n e rule: dir_put.induct) (auto simp: fun_eq_iff)

lemma map_of_dir_remove [simp]: "map_of (dir_remove d n) = (map_of d)(n := None)"
  unfolding dir_remove_def by (induction d) (auto simp: fun_eq_iff)

interpretation task_dir: keyed_store map_of dir_put dir_remove
  by unfold_locales simp_all

lemma task_file_name_inj [simp]: "task_file_name j = task_file_name k \<longleftrightarrow> j = k"
  by (simp add: task_file_name_def)

lemma task_at_Some:
  "task_at d k = Some t \<Longrightarrow> t_id t = k \<and> is_valid_task_id k \<and> t_revision t \<noteq> 0"
  by (auto simp: task_at_def split: option.splits dir_entry.splits if_splits)

lemma task_at_valid: "task_at d k = Some t \<Longrightarrow> valid_record t"
  using task_at_Some by (auto simp: valid_record_def)

lemma task_at_real: "task_at d k = Some t \<Longrightarrow> is_real_file d (task_file_name k)"
  by (auto simp: task_at_def is_real_file_def split: option.splits dir_entry.splits)

lemma tasks_in_iff: "t \<in> set (tasks_in d) \<longleftrightarrow> task_at d (t_id t) = Some t"
proof
  assume "t \<in> set (tasks_in d)"
  then have "\<exists>k. task_at d k = Some t"
    by (auto simp: tasks_in_def List.map_filter_def split: dir_entry.splits option.splits)
  with task_at_Some show "task_at d (t_id t) = Some t" by blast
next
  assume t: "task_at d (t_id t) = Some t"
  then obtain u where u: "map_of d (task_file_name (t_id t)) = Some (RealFile (Some u))" "t_id u = t_id t"
    by (auto simp: task_at_def split: option.splits dir_entry.splits if_splits)
  then have "(task_file_name (t_id t), RealFile (Some u)) \<in> set d" by (simp add: map_of_SomeD)
  then show "t \<in> set (tasks_in d)"
    using t u
    by (fastforce simp: tasks_in_def List.map_filter_def image_iff
        intro!: bexI [of _ "(task_file_name (t_id t), RealFile (Some u))"])
qed

lemma deps_ok_iff: "deps_ok d \<longleftrightarrow> (\<forall>k t. task_at d k = Some t \<longrightarrow> edge_ok (task_at d) t)"
  unfolding deps_ok_def using tasks_in_iff task_at_Some by metis

lemma edge_ok_iff:
  "edge_ok m t \<longleftrightarrow>
     (\<forall>b \<in> set (t_blocks t). \<exists>tb. m b = Some tb \<and> t_id t \<in> set (t_blocked_by tb)) \<and>
     (\<forall>b \<in> set (t_blocked_by t). \<exists>tb. m b = Some tb \<and> t_id t \<in> set (t_blocks tb))"
  by (auto simp: edge_ok_def split: option.splits)

lemma edge_okD:
  assumes "edge_ok m t"
  shows "b \<in> set (t_blocks t) \<Longrightarrow> \<exists>tb. m b = Some tb \<and> t_id t \<in> set (t_blocked_by tb)"
    and "b \<in> set (t_blocked_by t) \<Longrightarrow> \<exists>tb. m b = Some tb \<and> t_id t \<in> set (t_blocks tb)"
  using assms by (auto simp: edge_ok_iff)

subsection \<open>Reading and writing\<close>

lemma get_task_from_dir_result:
  assumes "get_task_from_dir env k d = (r, d')"
  shows "d' = d" and "r = Inr x \<Longrightarrow> x = task_at d k"
  using assms
  by (auto simp: get_task_from_dir_def read_task_file_def task_at_def is_real_file_def
      split: if_splits option.splits dir_entry.splits)

lemma get_task_from_dir_Inr:
  "get_task_from_dir env k d = (Inr x, d') \<Longrightarrow> d' = d \<and> x = task_at d k"
  using get_task_from_dir_result by metis

lemma write_task_file_Inl: "write_task_file env t d = (Inl e, d') \<Longrightarrow> d' = d"
  by (auto simp: write_task_file_def write_task_file_at_path_def split: if_splits)

lemma task_at_put:
  "valid_record t \<Longrightarrow>
     task_at (dir_put d (task_file_name (t_id t)) (RealFile (Some t))) = (task_at d)(t_id t \<mapsto> t)"
  by (rule ext) (simp add: task_at_def valid_record_def)

lemma write_task_file_Inr:
  assumes "write_task_file env t d = (Inr u, d')"
  shows "d' = dir_put d (task_file_name (t_id t)) (RealFile (Some t))"
  using assms by (auto simp: write_task_file_def write_task_file_at_path_def split: if_splits)

lemma write_task_file_at:
  assumes "write_task_file env t d = (Inr u, d')" "valid_record t"
  shows "task_at d' = (task_at d)(t_id t \<mapsto> t)"
  using write_task_file_Inr [OF assms(1)] task_at_put [OF assms(2)] by simp

lemma thenE_Inr:
  "thenE m k s = (Inr a, s'') \<longleftrightarrow> (\<exists>b s'. m s = (Inr b, s') \<and> k s' = (Inr a, s''))"
  by (auto simp: thenE_apply split: prod.splits sum.splits)

lemma bindE_Inr:
  "bindE m k s = (Inr a, s'') \<longleftrightarrow> (\<exists>b s'. m s = (Inr b, s') \<and> k b s' = (Inr a, s''))"
  by (auto simp: bindE_apply split: prod.splits sum.splits)

lemma write_task_files_at:
  assumes "write_task_files env ts d = (Inr u, d')" "\<forall>t \<in> set ts. valid_record t"
    and "distinct (map t_id ts)"
  shows "task_at d' = task_at d ++ map_of (map (\<lambda>t. (t_id t, t)) ts)"
  using assms
proof (induction ts arbitrary: d)
  case Nil
  then show ?case by simp
next
  case (Cons t ts)
  then obtain d1 where d1: "write_task_file env t d = (Inr (), d1)"
    "write_task_files env ts d1 = (Inr u, d')"
    by (auto simp: thenE_Inr)
  then have "task_at d' = (task_at d)(t_id t \<mapsto> t) ++ map_of (map (\<lambda>t. (t_id t, t)) ts)"
    using Cons write_task_file_at by fastforce
  moreover have "t_id t \<notin> dom (map_of (map (\<lambda>t. (t_id t, t)) ts))"
    using Cons.prems(3) by (auto simp: dom_map_of_conv_image_fst)
  ultimately show ?case
    by (auto simp: fun_eq_iff map_add_def domIff split: option.splits)
qed

subsection \<open>Loading the related tasks\<close>

text \<open>A loaded map is key-ordered and holds each task under its own identifier.\<close>

definition keyed :: "related \<Rightarrow> bool" where
  "keyed rel \<longleftrightarrow> bt_ok rel \<and> (\<forall>k t. map_of rel k = Some t \<longrightarrow> t_id t = k \<and> valid_record t)"

lemma keyed_Nil [simp]: "keyed []"
  by (simp add: keyed_def)

lemma keyed_insert: "keyed rel \<Longrightarrow> t_id t = k \<Longrightarrow> valid_record t \<Longrightarrow> keyed (bt_insert k t rel)"
  by (auto simp: keyed_def bt_ok_insert split: if_splits)

lemma keyed_map:
  assumes "keyed rel" "\<And>t. t_id (f t) = t_id t" "\<And>t. t_revision (f t) = t_revision t"
  shows "keyed (bt_map f rel)"
  using assms unfolding keyed_def bt_ok_map valid_record_def
  by (auto simp: map_option_case split: option.splits)

lemma write_related_at:
  assumes w: "write_task_files env (map snd rel) d = (Inr u, d')" and "keyed rel"
  shows "task_at d' = task_at d ++ map_of rel"
proof -
  have k: "\<And>k t. (k, t) \<in> set rel \<Longrightarrow> t_id t = k \<and> valid_record t"
    using assms(2) bt_ok_in_map_of by (fastforce simp: keyed_def)
  then have "map (\<lambda>t. (t_id t, t)) (map snd rel) = rel"
    by (auto intro!: map_idI)
  moreover have "distinct (map t_id (map snd rel))"
  proof -
    have "map t_id (map snd rel) = map fst rel" using k by auto
    moreover have "distinct (map fst rel)" using assms(2) bt_ok_distinct by (auto simp: keyed_def)
    ultimately show ?thesis by presburger
  qed
  moreover have "\<forall>t \<in> set (map snd rel). valid_record t" using k by fastforce
  ultimately show ?thesis using write_task_files_at [OF w] by presburger
qed

definition loaded :: "directory \<Rightarrow> related \<Rightarrow> bool" where
  "loaded d rel \<longleftrightarrow> keyed rel \<and> map_of rel \<subseteq>\<^sub>m task_at d"

lemma loaded_Nil [simp]: "loaded d []"
  by (simp add: loaded_def)

lemma loaded_insert:
  assumes "loaded d rel" "task_at d k = Some t"
  shows "loaded d (bt_insert k t rel)"
proof -
  have "keyed (bt_insert k t rel)"
    using assms(1) task_at_Some [OF assms(2)] task_at_valid [OF assms(2)]
    by (intro keyed_insert) (auto simp: loaded_def)
  moreover have "(map_of rel)(k \<mapsto> t) \<subseteq>\<^sub>m task_at d"
    using assms by (auto simp: loaded_def map_le_def)
  ultimately show ?thesis by (simp add: loaded_def)
qed

lemma load_dependency_task_Inr:
  assumes "load_dependency_task env k role d = (Inr t, d')"
  shows "d' = d \<and> task_at d k = Some t"
proof -
  obtain x d1 where x: "get_task_from_dir env k d = (Inr x, d1)"
    "okOrE (DependencyNotFound role k) x d1 = (Inr t, d')"
    using assms unfolding load_dependency_task_def bindE_Inr by blast
  from x(2) have "x = Some t \<and> d' = d1" by (cases x) (simp_all add: okOrE_apply)
  with get_task_from_dir_Inr [OF x(1)] show ?thesis by metis
qed

lemma ensure_valid_dependency_Inr:
  "ensure_valid_dependency a b d = (Inr u, d') \<longleftrightarrow>
     d' = d \<and> is_valid_task_id a \<and> is_valid_task_id b \<and> a \<noteq> b"
  by (auto simp: ensure_valid_dependency_def)

lemma load_blocked_Inr:
  assumes "load_blocked env task_id ks rel d = (Inr rel', d')" "loaded d rel"
  shows "d' = d \<and> loaded d rel' \<and> dom (map_of rel') = dom (map_of rel) \<union> set ks \<and> task_id \<notin> set ks"
  using assms
proof (induction ks arbitrary: rel)
  case (Cons k ks)
  show ?case
  proof (cases "map_of rel k = None")
    case True
    then obtain t where t: "task_id \<noteq> k" "task_at d k = Some t"
      "load_blocked env task_id ks (bt_insert k t rel) d = (Inr rel', d')"
      using Cons.prems(1)
      by (auto simp: thenE_Inr bindE_Inr ensure_valid_dependency_Inr dest!: load_dependency_task_Inr)
    show ?thesis using Cons.IH [OF t(3) loaded_insert [OF Cons.prems(2) t(2)]] t(1) by auto
  next
    case False
    then have t: "task_id \<noteq> k" "load_blocked env task_id ks rel d = (Inr rel', d')"
      using Cons.prems(1) by (auto simp: thenE_Inr ensure_valid_dependency_Inr)
    show ?thesis using Cons.IH [OF t(2) Cons.prems(2)] t(1) False by (auto simp: domIff)
  qed
qed simp

lemma load_blockers_Inr:
  assumes "load_blockers env task_id ks rel d = (Inr rel', d')" "loaded d rel"
  shows "d' = d \<and> loaded d rel' \<and> dom (map_of rel') = dom (map_of rel) \<union> set ks \<and> task_id \<notin> set ks"
  using assms
proof (induction ks arbitrary: rel)
  case (Cons k ks)
  show ?case
  proof (cases "map_of rel k = None")
    case True
    then obtain t where t: "task_id \<noteq> k" "task_at d k = Some t"
      "load_blockers env task_id ks (bt_insert k t rel) d = (Inr rel', d')"
      using Cons.prems(1)
      by (auto simp: thenE_Inr bindE_Inr ensure_valid_dependency_Inr dest!: load_dependency_task_Inr)
    show ?thesis using Cons.IH [OF t(3) loaded_insert [OF Cons.prems(2) t(2)]] t(1) by auto
  next
    case False
    then have t: "task_id \<noteq> k" "load_blockers env task_id ks rel d = (Inr rel', d')"
      using Cons.prems(1) by (auto simp: thenE_Inr ensure_valid_dependency_Inr)
    show ?thesis using Cons.IH [OF t(2) Cons.prems(2)] t(1) False by (auto simp: domIff)
  qed
qed simp

lemma load_known_references_Inr:
  assumes "load_known_references env task_id ks rel d = (Inr rel', d')" "loaded d rel"
    and "task_id \<notin> dom (map_of rel)"
  shows "d' = d \<and> loaded d rel' \<and> task_id \<notin> dom (map_of rel') \<and>
     dom (map_of rel) \<subseteq> dom (map_of rel') \<and> set ks \<inter> dom (task_at d) - {task_id} \<subseteq> dom (map_of rel')"
  using assms
proof (induction ks arbitrary: rel)
  case (Cons k ks)
  consider (skip) "\<not> is_valid_task_id k \<or> k = task_id \<or> map_of rel k \<noteq> None"
    | (load) "is_valid_task_id k" "k \<noteq> task_id" "map_of rel k = None" by blast
  then show ?case
  proof cases
    case skip
    then have "load_known_references env task_id ks rel d = (Inr rel', d')"
      using Cons.prems(1) by (auto split: if_splits)
    note IH = Cons.IH [OF this Cons.prems(2,3)]
    have "k \<in> dom (task_at d) - {task_id} \<longrightarrow> k \<in> dom (map_of rel)"
      using skip task_at_Some by (auto simp: domIff)
    with IH show ?thesis by auto
  next
    case load
    then obtain t where t: "t = task_at d k"
      "load_known_references env task_id ks (case t of None \<Rightarrow> rel | Some t \<Rightarrow> bt_insert k t rel) d = (Inr rel', d')"
      using Cons.prems(1) by (auto simp: bindE_Inr dest!: get_task_from_dir_Inr)
    show ?thesis
    proof (cases t)
      case None
      then show ?thesis using Cons.IH [of rel] t Cons.prems(2,3) by (auto simp: domIff)
    next
      case (Some u)
      then have u: "task_at d k = Some u" using t(1) by simp
      have "load_known_references env task_id ks (bt_insert k u rel) d = (Inr rel', d')"
        "task_id \<notin> dom (map_of (bt_insert k u rel))"
        using t(2) Some Cons.prems(3) load(2) by auto
      note IH = Cons.IH [OF this(1) loaded_insert [OF Cons.prems(2) u] this(2)]
      moreover have "dom (map_of (bt_insert k u rel)) = insert k (dom (map_of rel))" by simp
      ultimately have "insert k (dom (map_of rel)) \<subseteq> dom (map_of rel')" by blast
      moreover have "set (k # ks) \<inter> dom (task_at d) - {task_id} \<subseteq> insert k (set ks \<inter> dom (task_at d) - {task_id})"
        by (simp add: subset_iff)
      ultimately show ?thesis using IH by blast
    qed
  qed
qed simp

subsection \<open>Linking\<close>

lemma set_push_unique [simp]: "set (fst (push_unique vs v)) = insert v (set vs)"
  by (auto simp: push_unique_def)

lemma link_blocked_simps [task_simps]:
  "t_id (link_blocked env k t) = t_id t"
  "t_blocks (link_blocked env k t) = t_blocks t"
  "set (t_blocked_by (link_blocked env k t)) = insert k (set (t_blocked_by t))"
  by (auto simp: link_blocked_def push_unique_def bump_task_revision_def)

lemma link_blocker_simps [task_simps]:
  "t_id (link_blocker env k t) = t_id t"
  "t_blocked_by (link_blocker env k t) = t_blocked_by t"
  "set (t_blocks (link_blocker env k t)) = insert k (set (t_blocks t))"
  by (auto simp: link_blocker_def push_unique_def bump_task_revision_def)

lemma bump_nonzero: "t_revision (bump_task_revision env t) \<noteq> 0"
  by (simp add: bump_task_revision_def saturating_add64_def u64_max_def)

lemma valid_bump: "is_valid_task_id (t_id t) \<Longrightarrow> valid_record (bump_task_revision env t)"
  using bump_nonzero [of env t] by (simp add: valid_record_def bump_task_revision_def)

lemma valid_link_blocked: "valid_record t \<Longrightarrow> valid_record (link_blocked env k t)"
  using bump_nonzero by (auto simp: link_blocked_def push_unique_def valid_record_def task_simps)
    (simp add: bump_task_revision_def)

lemma valid_link_blocker: "valid_record t \<Longrightarrow> valid_record (link_blocker env k t)"
  using bump_nonzero by (auto simp: link_blocker_def push_unique_def valid_record_def task_simps)
    (simp add: bump_task_revision_def)

lemma link_blocked_idem: "link_blocked env k (link_blocked env k t) = link_blocked env k t"
  using link_blocked_simps(3) [of env k t] by (simp add: link_blocked_def [of env k "link_blocked env k t"] push_unique_def)

lemma link_blocker_idem: "link_blocker env k (link_blocker env k t) = link_blocker env k t"
  using link_blocker_simps(3) [of env k t] by (simp add: link_blocker_def [of env k "link_blocker env k t"] push_unique_def)

lemma add_blocks_loop_Inr:
  assumes "add_blocks_loop env task_id ks rel task = Inr (rel', task')"
  shows "map_of rel' = (\<lambda>k. map_option (if k \<in> set ks then link_blocked env task_id else (\<lambda>t. t)) (map_of rel k))
    \<and> (\<exists>bs. task' = task\<lparr>t_blocks := bs\<rparr> \<and> set bs = set (t_blocks task) \<union> set ks)"
  using assms
proof (induction ks arbitrary: rel task)
  case Nil
  then show ?case by (auto simp: option.map_ident fun_eq_iff intro!: exI [of _ "t_blocks task"])
next
  case (Cons k ks)
  then obtain b where b: "map_of rel k = Some b"
    "add_blocks_loop env task_id ks (bt_insert k (link_blocked env task_id b) rel)
       (task\<lparr>t_blocks := fst (push_unique (t_blocks task) k)\<rparr>) = Inr (rel', task')"
    by (auto split: option.splits)
  note IH = Cons.IH [OF b(2)]
  have "\<exists>bs. task' = task\<lparr>t_blocks := bs\<rparr> \<and> set bs = set (t_blocks task) \<union> set (k # ks)"
    using IH by auto
  moreover have "map_of rel' = (\<lambda>j. map_option (if j \<in> set (k # ks) then link_blocked env task_id else (\<lambda>t. t)) (map_of rel j))"
    using IH b(1) by (auto simp: fun_eq_iff link_blocked_idem)
  ultimately show ?case by blast
qed

lemma add_blocked_by_loop_Inr:
  assumes "add_blocked_by_loop env task_id ks rel task = Inr (rel', task')"
  shows "map_of rel' = (\<lambda>k. map_option (if k \<in> set ks then link_blocker env task_id else (\<lambda>t. t)) (map_of rel k))
    \<and> (\<exists>bs. task' = task\<lparr>t_blocked_by := bs\<rparr> \<and> set bs = set (t_blocked_by task) \<union> set ks)"
  using assms
proof (induction ks arbitrary: rel task)
  case Nil
  then show ?case by (auto simp: option.map_ident fun_eq_iff intro!: exI [of _ "t_blocked_by task"])
next
  case (Cons k ks)
  then obtain b where b: "map_of rel k = Some b"
    "add_blocked_by_loop env task_id ks (bt_insert k (link_blocker env task_id b) rel)
       (task\<lparr>t_blocked_by := fst (push_unique (t_blocked_by task) k)\<rparr>) = Inr (rel', task')"
    by (auto split: option.splits)
  note IH = Cons.IH [OF b(2)]
  have "\<exists>bs. task' = task\<lparr>t_blocked_by := bs\<rparr> \<and> set bs = set (t_blocked_by task) \<union> set (k # ks)"
    using IH by auto
  moreover have "map_of rel' = (\<lambda>j. map_option (if j \<in> set (k # ks) then link_blocker env task_id else (\<lambda>t. t)) (map_of rel j))"
    using IH b(1) by (auto simp: fun_eq_iff link_blocker_idem)
  ultimately show ?case by blast
qed

subsection \<open>The abstract effect of the operations\<close>

definition link_spec :: "task_env \<Rightarrow> ustr \<Rightarrow> ustr list \<Rightarrow> ustr list \<Rightarrow> task_record \<Rightarrow> task_record" where
  "link_spec env task_id bs cs t =
     (if t_id t \<in> set cs then link_blocker env task_id else (\<lambda>t. t))
       ((if t_id t \<in> set bs then link_blocked env task_id else (\<lambda>t. t)) t)"

lemma link_spec_simps [task_simps]:
  "t_id (link_spec env k bs cs t) = t_id t"
  "set (t_blocks (link_spec env k bs cs t)) = set (t_blocks t) \<union> (if t_id t \<in> set cs then {k} else {})"
  "set (t_blocked_by (link_spec env k bs cs t)) = set (t_blocked_by t) \<union> (if t_id t \<in> set bs then {k} else {})"
  by (simp_all add: link_spec_def task_simps)

lemma liftE_Inr [simp]: "liftE r s = (Inr a, s') \<longleftrightarrow> r = Inr a \<and> s' = s"
  by (auto simp: liftE_def)

lemma apply_dependency_updates_Inr:
  assumes "apply_dependency_updates env task_id task bs cs fs d = (Inr (task', fs'), d')"
  shows "task_at d' = (\<lambda>k. map_option (link_spec env task_id bs cs) (task_at d k))"
    and "set bs \<union> set cs \<subseteq> dom (task_at d) - {task_id}"
    and "\<exists>xs ys. task' = task\<lparr>t_blocks := xs, t_blocked_by := ys\<rparr> \<and>
            set xs = set (t_blocks task) \<union> set bs \<and> set ys = set (t_blocked_by task) \<union> set cs"
    and "fs' = fs @ (if bs \<noteq> [] then [lit ''blocks''] else []) @ (if cs \<noteq> [] then [lit ''blockedBy''] else [])"
proof -
  obtain r1 d1 r2 d2 r3 t3 r4 d4 where
    st: "load_blocked env task_id bs [] d = (Inr r1, d1)"
      "load_blockers env task_id cs r1 d1 = (Inr r2, d2)"
      "add_blocks_loop env task_id bs r2 task = Inr (r3, t3)"
      "add_blocked_by_loop env task_id cs r3 t3 = Inr (r4, task')"
      "write_task_files env (map snd r4) d2 = (Inr (), d')"
    and fs: "fs' = fs @ (if bs \<noteq> [] then [lit ''blocks''] else []) @ (if cs \<noteq> [] then [lit ''blockedBy''] else [])"
    using assms
    by (auto simp: apply_dependency_updates_def bindE_Inr thenE_Inr Let_def split: prod.splits)
  note l1 = load_blocked_Inr [OF st(1) loaded_Nil]
  have l2: "d2 = d" "loaded d r2" "dom (map_of r2) = set bs \<union> set cs" "task_id \<notin> set bs \<union> set cs"
    using load_blockers_Inr [OF st(2)] l1 by auto
  then have r2: "k \<in> set bs \<union> set cs \<Longrightarrow> map_of r2 k = task_at d k" for k
    by (simp add: loaded_def map_le_def)
  note a = add_blocks_loop_Inr [OF st(3)] and b = add_blocked_by_loop_Inr [OF st(4)]
  have idk: "map_of r2 k = Some t \<Longrightarrow> t_id t = k \<and> valid_record t" for k t
    using l2(2) by (simp add: loaded_def keyed_def)
  have r4: "map_of r4 = (\<lambda>k. map_option (link_spec env task_id bs cs) (map_of r2 k))"
  proof (rule ext)
    show "map_of r4 k = map_option (link_spec env task_id bs cs) (map_of r2 k)" for k
      using a b idk [of k] by (cases "map_of r2 k") (auto simp: link_spec_def task_simps)
  qed
  have "bt_ok r4"
  proof -
    have ab: "add_blocks_loop env task_id ks r t = Inr (r', t') \<Longrightarrow> bt_ok r \<Longrightarrow> bt_ok r'" for ks r t r' t'
      by (induction ks arbitrary: r t) (auto split: option.splits simp: bt_ok_insert)
    have bb: "add_blocked_by_loop env task_id ks r t = Inr (r', t') \<Longrightarrow> bt_ok r \<Longrightarrow> bt_ok r'" for ks r t r' t'
      by (induction ks arbitrary: r t) (auto split: option.splits simp: bt_ok_insert)
    show ?thesis using ab [OF st(3)] bb [OF st(4)] l2(2) by (simp add: loaded_def keyed_def)
  qed
  moreover have "t_id t = k \<and> valid_record t" if "map_of r4 k = Some t" for k t
  proof -
    from that r4 obtain u where u: "map_of r2 k = Some u" "t = link_spec env task_id bs cs u" by auto
    then show ?thesis using idk [OF u(1)] valid_link_blocked valid_link_blocker
      by (simp add: task_simps link_spec_def)
  qed
  ultimately have "keyed r4" by (simp add: keyed_def)
  with write_related_at [OF st(5)] have w: "task_at d' = task_at d ++ map_of r4" using l2(1) by simp
  show "task_at d' = (\<lambda>k. map_option (link_spec env task_id bs cs) (task_at d k))"
  proof (rule ext)
    fix k
    show "task_at d' k = map_option (link_spec env task_id bs cs) (task_at d k)"
    proof (cases "k \<in> set bs \<union> set cs")
      case True
      then have "map_of r4 k = map_option (link_spec env task_id bs cs) (task_at d k)" "map_of r4 k \<noteq> None"
        using r2 [OF True] r4 l2(3) True by (simp, metis True domIff option.map_disc_iff)
      then show ?thesis using w by (auto simp: map_add_def split: option.splits)
    next
      case False
      then have "map_of r4 k = None" using r4 l2(3) by auto
      moreover have "map_option (link_spec env task_id bs cs) (task_at d k) = task_at d k"
        using False task_at_Some [of d k] by (cases "task_at d k") (auto simp: link_spec_def)
      ultimately show ?thesis using w by (simp add: map_add_def)
    qed
  qed
  show "set bs \<union> set cs \<subseteq> dom (task_at d) - {task_id}"
  proof
    fix k assume k: "k \<in> set bs \<union> set cs"
    then have "map_of r2 k \<noteq> None" using l2(3) by auto
    with r2 [OF k] l2(4) k show "k \<in> dom (task_at d) - {task_id}" by auto
  qed
  obtain xs ys where "t3 = task\<lparr>t_blocks := xs\<rparr>" "set xs = set (t_blocks task) \<union> set bs"
    "task' = t3\<lparr>t_blocked_by := ys\<rparr>" "set ys = set (t_blocked_by t3) \<union> set cs"
    using a b by blast
  then show "\<exists>xs ys. task' = task\<lparr>t_blocks := xs, t_blocked_by := ys\<rparr> \<and>
      set xs = set (t_blocks task) \<union> set bs \<and> set ys = set (t_blocked_by task) \<union> set cs"
    by (intro exI [of _ xs] exI [of _ ys]) simp
  show "fs' = fs @ (if bs \<noteq> [] then [lit ''blocks''] else []) @ (if cs \<noteq> [] then [lit ''blockedBy''] else [])"
    by (rule fs)
qed

text \<open>The field updates touch neither the identifier nor the dependencies.\<close>

lemma apply_field_updates_frame:
  assumes "apply_field_updates t upd = (t', changed, c)"
  shows "t_id t' = t_id t" "t_blocks t' = t_blocks t" "t_blocked_by t' = t_blocked_by t"
    "t_revision t' = t_revision t"
  using assms
  by (auto simp: apply_field_updates_def Let_def split: prod.splits if_splits option.splits)

lemma modify_task_locked_Inr:
  assumes "modify_task_locked env task_id upd d = (Inr out, d')"
  shows "d' = d \<and> \<not> o_success out
    \<or> d' = d \<and> o_success out \<and> o_updated_fields out = [] \<and> u_add_blocks upd = [] \<and> u_add_blocked_by upd = []
    \<or> (\<exists>t t'. task_at d task_id = Some t \<and> o_success out \<and> o_updated_fields out \<noteq> [] \<and>
          set (u_add_blocks upd) \<union> set (u_add_blocked_by upd) \<subseteq> dom (task_at d) - {task_id} \<and>
          t_id t' = task_id \<and> t_revision t' = t_revision t \<and> o_revision out = Some (t_revision (bump_task_revision env t')) \<and>
          set (t_blocks t') = set (t_blocks t) \<union> set (u_add_blocks upd) \<and>
          set (t_blocked_by t') = set (t_blocked_by t) \<union> set (u_add_blocked_by upd) \<and>
          task_at d' = (\<lambda>k. map_option (link_spec env task_id (u_add_blocks upd) (u_add_blocked_by upd)) (task_at d k))
            (task_id \<mapsto> bump_task_revision env t'))"
proof -
  obtain found d1 where f: "get_task_from_dir env task_id d = (Inr found, d1)"
    using assms unfolding modify_task_locked_def bindE_Inr by blast
  then have f': "d1 = d" "found = task_at d task_id" using get_task_from_dir_Inr by blast+
  show ?thesis
  proof (cases found)
    case None
    then show ?thesis using assms f f'
      by (auto simp: modify_task_locked_def bindE_apply outcome_not_found_def)
  next
    case (Some t)
    then have at: "task_at d task_id = Some t" using f' by simp
    obtain t1 changed c where a: "apply_field_updates t upd = (t1, changed, c)" by (metis prod_cases3)
    note frame = apply_field_updates_frame [OF a]
    consider "\<not> o_success out \<and> d' = d"
      | t2 fs d2 where "apply_dependency_updates env task_id t1 (u_add_blocks upd) (u_add_blocked_by upd) changed d = (Inr (t2, fs), d2)"
        "store_updated env task_id (t_status t) t2 fs d2 = (Inr out, d')"
      using assms f f' Some a
      by (auto simp: modify_task_locked_def bindE_apply outcome_stale_def outcome_conflict_def
          split: if_splits option.splits prod.splits sum.splits)
    then show ?thesis
    proof cases
      case 1
      then show ?thesis by simp
    next
      case 2
      note D = apply_dependency_updates_Inr [OF 2(1)]
      from D(3) obtain xs ys where t2: "t2 = t1\<lparr>t_blocks := xs, t_blocked_by := ys\<rparr>"
        "set xs = set (t_blocks t1) \<union> set (u_add_blocks upd)"
        "set ys = set (t_blocked_by t1) \<union> set (u_add_blocked_by upd)" by blast
      have tid: "t_id t2 = task_id" "t_revision t2 = t_revision t"
        using t2(1) frame task_at_Some [OF at] by simp_all
      show ?thesis
      proof (cases "fs = []")
        case True
        then have e: "u_add_blocks upd = []" "u_add_blocked_by upd = []" "changed = []"
          using D(4) by (auto split: if_splits)
        have "d2 = d"
          using 2(1) e by (auto simp: apply_dependency_updates_def bindE_apply thenE_apply liftE_def)
        then show ?thesis using 2(2) True e
          by (auto simp: store_updated_def outcome_updated_def)
      next
        case False
        then have w: "write_task_file env (bump_task_revision env t2) d2 = (Inr (), d')"
          and out: "out = outcome_updated task_id (t_status t) (bump_task_revision env t2) fs"
          using 2(2) by (auto simp: store_updated_def thenE_Inr)
        have "is_valid_task_id (t_id t2)" using task_at_Some [OF at] tid by simp
        then have "task_at d' = (task_at d2)(task_id \<mapsto> bump_task_revision env t2)"
          using write_task_file_at [OF w valid_bump] tid by (simp add: bump_task_revision_def)
        moreover have "o_updated_fields out \<noteq> []" "o_success out"
          "o_revision out = Some (t_revision (bump_task_revision env t2))"
          using out False by (simp_all add: outcome_updated_def) (metis length_0_conv length_sort)
        ultimately show ?thesis
          using D(1,2) at t2 tid frame by (intro disjI2 exI [of _ t] exI [of _ t2]) simp
      qed
    qed
  qed
qed

lemma task_at_remove: "task_at (dir_remove d (task_file_name k)) = (task_at d)(k := None)"
  by (rule ext) (simp add: task_at_def)

lemma drop_references_simps [task_simps]:
  "t_id (drop_references k t) = t_id t"
  "t_revision (drop_references k t) = t_revision t"
  "set (t_blocks (drop_references k t)) = set (t_blocks t) - {k}"
  "set (t_blocked_by (drop_references k t)) = set (t_blocked_by t) - {k}"
  by (auto simp: drop_references_def)

lemma delete_task_locked_Inr:
  assumes "delete_task_locked env task_id d = (Inr out, d')"
  shows "task_at d task_id = None \<and> d' = d \<and> out = outcome_not_found task_id
    \<or> (\<exists>t R. task_at d task_id = Some t \<and> out = outcome_deleted task_id \<and> task_id \<notin> R \<and>
          (set (t_blocked_by t) \<union> set (t_blocks t)) \<inter> dom (task_at d) - {task_id} \<subseteq> R \<and>
          task_at d' = (\<lambda>k. map_option (if k \<in> R then drop_references task_id else (\<lambda>t. t)) (task_at d k))
            (task_id := None))"
proof -
  obtain found d1 where f: "get_task_from_dir env task_id d = (Inr found, d1)"
    using assms unfolding delete_task_locked_def bindE_Inr by blast
  then have f': "d1 = d" "found = task_at d task_id" using get_task_from_dir_Inr by blast+
  show ?thesis
  proof (cases found)
    case None
    then show ?thesis using assms f f'
      by (auto simp: delete_task_locked_def bindE_apply)
  next
    case (Some t)
    then have at: "task_at d task_id = Some t" using f' by simp
    obtain rel d2 d3 where st:
      "load_known_references env task_id (t_blocked_by t @ t_blocks t) [] d = (Inr rel, d2)"
      "write_task_files env (map snd (bt_map (drop_references task_id) rel)) d2 = (Inr (), d3)"
      "remove_task_file env (task_file_name task_id) d3 = (Inr (), d')"
      "out = outcome_deleted task_id"
      using assms f at f'(1) f'(2) [symmetric]
      by (auto simp: delete_task_locked_def remove_known_task_references_def bindE_Inr thenE_Inr
          dest!: get_task_from_dir_Inr)
    note L = load_known_references_Inr [OF st(1) loaded_Nil]
    have L': "d2 = d" "loaded d rel" "task_id \<notin> dom (map_of rel)"
      "set (t_blocked_by t @ t_blocks t) \<inter> dom (task_at d) - {task_id} \<subseteq> dom (map_of rel)"
      using L by simp_all
    have "keyed (bt_map (drop_references task_id) rel)"
      using L'(2) by (intro keyed_map) (auto simp: loaded_def task_simps)
    note w = write_related_at [OF st(2) this]
    have d': "d' = dir_remove d3 (task_file_name task_id)"
      using st(3) by (auto simp: remove_task_file_def split: if_splits)
    have "task_at d3 = (\<lambda>k. map_option (if k \<in> dom (map_of rel) then drop_references task_id else (\<lambda>t. t)) (task_at d k))"
    proof (rule ext)
      fix k
      show "task_at d3 k = map_option (if k \<in> dom (map_of rel) then drop_references task_id else (\<lambda>t. t)) (task_at d k)"
      proof (cases "map_of rel k")
        case None
        then show ?thesis using w L'(1) by (simp add: map_add_def domIff option.map_ident)
      next
        case (Some u)
        then have "task_at d k = Some u" using L'(2) by (metis domI loaded_def map_le_def)
        then show ?thesis using Some w L'(1) by (simp add: map_add_def domIff)
      qed
    qed
    then have "task_at d' = (\<lambda>k. map_option (if k \<in> dom (map_of rel) then drop_references task_id else (\<lambda>t. t)) (task_at d k)) (task_id := None)"
      by (simp add: d' task_at_remove)
    then show ?thesis using at st(4) L'(3,4)
      by (intro disjI2 exI [of _ t] exI [of _ "dom (map_of rel)"]) simp
  qed
qed

subsection \<open>The lock and the other lists\<close>

definition list_entries_of :: "task_store \<Rightarrow> ustr \<Rightarrow> directory" where
  "list_entries_of s task_list_id = node_entries (task_list_dir s task_list_id)"

lemma task_file_name_not_lock [simp]: "task_file_name k \<noteq> lit ''.lock''"
proof
  assume "task_file_name k = lit ''.lock''"
  then have "last (task_file_name k) = last (lit ''.lock'')" by simp
  then show False by (simp add: task_file_name_def lit_simps)
qed

lemma open_lock_file_frame:
  assumes "open_lock_file env d = (r, d')"
  shows "n \<noteq> lit ''.lock'' \<Longrightarrow> map_of d' n = map_of d n"
  using assms by (auto simp: open_lock_file_def split: option.splits dir_entry.splits if_splits)

lemma task_at_cong: "(\<And>n. n \<noteq> lit ''.lock'' \<Longrightarrow> map_of d' n = map_of d n) \<Longrightarrow> task_at d' = task_at d"
  by (rule ext) (simp add: task_at_def)

lemma with_task_list_lock_Inr:
  assumes "with_task_list_lock env l body s = (Inr r, s')"
  obtains d1 where "body d1 = (Inr r, list_entries_of s' l)"
    and "\<And>n. n \<noteq> lit ''.lock'' \<Longrightarrow> map_of d1 n = map_of (list_entries_of s l) n"
    and "task_at d1 = task_at (list_entries_of s l)"
    and "\<And>l'. canonical_task_list_id l' \<noteq> canonical_task_list_id l \<Longrightarrow> list_entries_of s' l' = list_entries_of s l'"
proof -
  obtain d s1 where p: "prepare_task_list_dir env l s = (Inr d, s1)"
    and b: "(case thenE (open_lock_file env) (thenE (lock_exclusive env) body) d of
          (r, d') \<Rightarrow>
            (r, s1\<lparr>ts_lists := (ts_lists s1)(canonical_task_list_id l := RealDirectory d')\<rparr>)) = (Inr r, s')"
    using assms unfolding with_task_list_lock_def bindE_Inr by blast
  have d: "d = list_entries_of s l"
    "\<And>l'. canonical_task_list_id l' \<noteq> canonical_task_list_id l \<Longrightarrow> list_entries_of s1 l' = list_entries_of s l'"
    using p
    by (auto simp: prepare_task_list_dir_def create_dir_all_def list_entries_of_def task_list_dir_def
        Let_def split: dir_node.splits if_splits)
  from b obtain d' where d': "thenE (open_lock_file env) (thenE (lock_exclusive env) body) d = (Inr r, d')"
    "s' = s1\<lparr>ts_lists := (ts_lists s1)(canonical_task_list_id l := RealDirectory d')\<rparr>"
    by (auto split: prod.splits)
  from d'(1) obtain d1 where d1: "open_lock_file env d = (Inr (), d1)" "body d1 = (Inr r, d')"
    by (auto simp: thenE_Inr lock_exclusive_def split: if_splits)
  have fr: "\<And>n. n \<noteq> lit ''.lock'' \<Longrightarrow> map_of d1 n = map_of (list_entries_of s l) n"
    using open_lock_file_frame [OF d1(1)] d(1) by simp
  show thesis
  proof (rule that [of d1])
    show "body d1 = (Inr r, list_entries_of s' l)"
      using d1(2) d'(2) by (simp add: list_entries_of_def task_list_dir_def)
    show "task_at d1 = task_at (list_entries_of s l)" using fr by (rule task_at_cong)
    show "canonical_task_list_id l' \<noteq> canonical_task_list_id l \<Longrightarrow> list_entries_of s' l' = list_entries_of s l'" for l'
      using d(2) d'(2) by (simp add: list_entries_of_def task_list_dir_def)
  qed (rule fr)
qed

lemma update_task_Inr:
  assumes "update_task env l k upd s = (Inr out, s')"
  obtains d1 where "is_valid_task_id (trim k)"
    and "update_task_locked env (trim k) upd d1 = (Inr out, list_entries_of s' l)"
    and "\<And>n. n \<noteq> lit ''.lock'' \<Longrightarrow> map_of d1 n = map_of (list_entries_of s l) n"
    and "task_at d1 = task_at (list_entries_of s l)"
    and "\<And>l'. canonical_task_list_id l' \<noteq> canonical_task_list_id l \<Longrightarrow> list_entries_of s' l' = list_entries_of s l'"
  using assms by (auto simp: update_task_def split: if_splits elim!: with_task_list_lock_Inr)

subsection \<open>Dependencies as a relation\<close>

definition blocks_edge :: "(ustr \<Rightarrow> task_record option) \<Rightarrow> ustr \<Rightarrow> ustr \<Rightarrow> bool" where
  "blocks_edge m a b \<longleftrightarrow> (case m a of None \<Rightarrow> False | Some t \<Rightarrow> b \<in> set (t_blocks t))"

definition blocked_edge :: "(ustr \<Rightarrow> task_record option) \<Rightarrow> ustr \<Rightarrow> ustr \<Rightarrow> bool" where
  "blocked_edge m a b \<longleftrightarrow> (case m b of None \<Rightarrow> False | Some t \<Rightarrow> a \<in> set (t_blocked_by t))"

lemmas edge_defs = blocks_edge_def blocked_edge_def

lemma deps_ok_edges: "deps_ok d \<longleftrightarrow> (\<forall>a b. blocks_edge (task_at d) a b \<longleftrightarrow> blocked_edge (task_at d) a b)"
proof -
  have k: "\<And>k t. task_at d k = Some t \<Longrightarrow> t_id t = k" using task_at_Some by blast
  have 1: "deps_ok d" if e: "\<forall>a b. blocks_edge (task_at d) a b \<longleftrightarrow> blocked_edge (task_at d) a b"
    unfolding deps_ok_iff edge_ok_iff
  proof (intro allI impI conjI ballI)
    fix j t b assume t: "task_at d j = Some t"
    show "\<exists>tb. task_at d b = Some tb \<and> t_id t \<in> set (t_blocked_by tb)" if "b \<in> set (t_blocks t)"
      using that t e [THEN spec [of _ j], THEN spec [of _ b]] k [OF t]
      by (auto simp: edge_defs split: option.splits)
    show "\<exists>tb. task_at d b = Some tb \<and> t_id t \<in> set (t_blocks tb)" if "b \<in> set (t_blocked_by t)"
      using that t e [THEN spec [of _ b], THEN spec [of _ j]] k [OF t]
      by (auto simp: edge_defs split: option.splits)
  qed
  have 2: "blocks_edge (task_at d) a b = blocked_edge (task_at d) a b" if e: "deps_ok d" for a b
  proof
    assume "blocks_edge (task_at d) a b"
    then obtain t where t: "task_at d a = Some t" "b \<in> set (t_blocks t)"
      by (auto simp: edge_defs split: option.splits)
    then obtain tb where "task_at d b = Some tb" "a \<in> set (t_blocked_by tb)"
      using e k [OF t(1)] edge_okD(1) unfolding deps_ok_iff by blast
    then show "blocked_edge (task_at d) a b" by (simp add: edge_defs)
  next
    assume "blocked_edge (task_at d) a b"
    then obtain t where t: "task_at d b = Some t" "a \<in> set (t_blocked_by t)"
      by (auto simp: edge_defs split: option.splits)
    then obtain ta where "task_at d a = Some ta" "b \<in> set (t_blocks ta)"
      using e k [OF t(1)] edge_okD(2) unfolding deps_ok_iff by blast
    then show "blocks_edge (task_at d) a b" by (simp add: edge_defs)
  qed
  from 1 2 show ?thesis by blast
qed

lemma bump_dependencies [task_simps]:
  "t_blocks (bump_task_revision env t) = t_blocks t"
  "t_blocked_by (bump_task_revision env t) = t_blocked_by t"
  "t_id (bump_task_revision env t) = t_id t"
  by (simp_all add: bump_task_revision_def)

lemma modify_keeps_deps:
  assumes "modify_task_locked env k upd d = (Inr out, d')" "deps_ok d"
  shows "deps_ok d'"
  using modify_task_locked_Inr [OF assms(1)]
proof (elim disjE exE conjE)
  fix t t'
  let ?bs = "u_add_blocks upd" and ?cs = "u_add_blocked_by upd"
  assume t: "task_at d k = Some t" and sub: "set ?bs \<union> set ?cs \<subseteq> dom (task_at d) - {k}"
    and t': "set (t_blocks t') = set (t_blocks t) \<union> set ?bs"
      "set (t_blocked_by t') = set (t_blocked_by t) \<union> set ?cs"
    and d': "task_at d' = (\<lambda>j. map_option (link_spec env k ?bs ?cs) (task_at d j)) (k \<mapsto> bump_task_revision env t')"
  have ids: "task_at d j = Some u \<Longrightarrow> t_id u = j" for j u using task_at_Some by blast
  have 1: "blocks_edge (task_at d') a b \<longleftrightarrow>
      blocks_edge (task_at d) a b \<or> a = k \<and> b \<in> set ?bs \<or> b = k \<and> a \<in> set ?cs" for a b
    using sub t t' ids by (auto simp: d' edge_defs task_simps split: option.splits)
  have 2: "blocked_edge (task_at d') a b \<longleftrightarrow>
      blocked_edge (task_at d) a b \<or> a = k \<and> b \<in> set ?bs \<or> b = k \<and> a \<in> set ?cs" for a b
    using sub t t' ids by (auto simp: d' edge_defs task_simps split: option.splits)
  from 1 2 assms(2) show ?thesis by (simp add: deps_ok_edges)
qed (use assms(2) in simp_all)

lemma delete_keeps_deps:
  assumes "delete_task_locked env k d = (Inr out, d')" "deps_ok d"
  shows "deps_ok d'" and "o_success out \<Longrightarrow> task_at d' k = None"
    and "o_success out \<Longrightarrow> \<not> blocks_edge (task_at d') a k \<and> \<not> blocked_edge (task_at d') k a"
proof -
  have "deps_ok d' \<and> (o_success out \<longrightarrow> task_at d' k = None \<and>
      (\<forall>a. \<not> blocks_edge (task_at d') a k \<and> \<not> blocked_edge (task_at d') k a))"
    using delete_task_locked_Inr [OF assms(1)]
  proof (elim disjE exE conjE)
    fix t R
    assume t: "task_at d k = Some t" and R: "k \<notin> R"
        "(set (t_blocked_by t) \<union> set (t_blocks t)) \<inter> dom (task_at d) - {k} \<subseteq> R"
      and d': "task_at d' = (\<lambda>j. map_option (if j \<in> R then drop_references k else (\<lambda>t. t)) (task_at d j)) (k := None)"
    have sym: "blocks_edge (task_at d) a b \<longleftrightarrow> blocked_edge (task_at d) a b" for a b
      using assms(2) by (simp add: deps_ok_edges)
    have e1: "a \<in> R" if "blocks_edge (task_at d) a k" "a \<noteq> k" for a
    proof -
      have "a \<in> set (t_blocked_by t)" using that(1) t unfolding sym by (simp add: edge_defs)
      moreover have "a \<in> dom (task_at d)" using that(1) by (auto simp: edge_defs split: option.splits)
      ultimately show ?thesis using R(2) that(2) by blast
    qed
    have e2: "b \<in> R" if "blocks_edge (task_at d) k b" "b \<noteq> k" for b
    proof -
      have "b \<in> set (t_blocks t)" using that(1) t by (simp add: edge_defs)
      moreover have "b \<in> dom (task_at d)"
        using that(1) unfolding sym by (auto simp: edge_defs split: option.splits)
      ultimately show ?thesis using R(2) that(2) by blast
    qed
    have 1: "blocks_edge (task_at d') a b \<longleftrightarrow> blocks_edge (task_at d) a b \<and> a \<noteq> k \<and> b \<noteq> k" for a b
      using e1 [of a] by (auto simp: d' edge_defs task_simps split: option.splits)
    have 2: "blocked_edge (task_at d') a b \<longleftrightarrow> blocked_edge (task_at d) a b \<and> a \<noteq> k \<and> b \<noteq> k" for a b
      using e2 [of b, unfolded sym] by (auto simp: d' edge_defs task_simps split: option.splits)
    show ?thesis using 1 2 sym by (simp add: deps_ok_edges d')
  qed (use assms(2) in \<open>simp_all add: outcome_not_found_def\<close>)
  then show "deps_ok d'" and "o_success out \<Longrightarrow> task_at d' k = None"
    and "o_success out \<Longrightarrow> \<not> blocks_edge (task_at d') a k \<and> \<not> blocked_edge (task_at d') k a"
    by auto
qed

subsection \<open>Creation\<close>

lemma highest_task_id_upper:
  assumes "highest_task_id env d names h = Inr h'"
  shows "h \<le> h' \<and> (\<forall>name \<in> set names. \<forall>k n. task_id_from_path d name = Some k \<longrightarrow> parse_u64 k = Some n \<longrightarrow> n \<le> h')"
  using assms
proof (induction names arbitrary: h)
  case (Cons name names)
  then show ?case
    by (cases "task_id_from_path d name"; cases "parse_u64 (the (task_id_from_path d name))")
      (fastforce split: if_splits)+
qed simp

lemma highest_task_id_le_max: "highest_task_id env d names h = Inr h' \<Longrightarrow> h \<le> u64_max \<Longrightarrow> h' \<le> u64_max"
  by (induction env d names h rule: highest_task_id.induct) (auto split: if_splits option.splits simp: parse_u64_le)

lemma wrapping_le_max: "wrapping_add64 a b \<le> u64_max"
proof -
  have "(a + b) mod 2 ^ 64 < (2 :: nat) ^ 64" by simp
  then show ?thesis unfolding wrapping_add64_def u64_max_def by linarith
qed

lemma dec_valid_id: "is_valid_task_id (dec n)"
proof -
  obtain c ds where c: "dec n = c # ds" by (meson dec_nonempty neq_Nil_conv)
  have dig: "\<forall>x \<in> set (dec n). 48 \<le> x \<and> x \<le> 57" using dec_digits by (auto simp: is_ascii_digit_def)
  have ws: "\<And>x. 48 \<le> x \<and> x \<le> 57 \<Longrightarrow> \<not> is_whitespace x" by (auto simp: is_whitespace_def)
  have trim: "trim (dec n) = dec n"
    using dig by (intro trim_not_ws ws) auto
  have no: "\<not> contains_str s [x]" "\<not> contains_str s [x, y]" if "\<forall>c \<in> set s. 48 \<le> c \<and> c \<le> 57" "x < 48 \<or> 57 < x" for s x y
    using that by (induction s) (auto simp: starts_with_iff)
  have "\<not> starts_with (dec n) [47]" using dig c by auto
  then show ?thesis using no [OF dig] trim
    by (simp add: is_valid_task_id_def is_absolute_path_def lit_simps Let_def)
qed

lemma create_task_Inr:
  assumes "create_task env l input s = (Inr t, s')"
  obtains h where "t = new_task env (dec (wrapping_add64 h 1)) input" "h \<le> u64_max"
    and "\<And>name k n. task_id_from_path (list_entries_of s l) name = Some k \<Longrightarrow> parse_u64 k = Some n \<Longrightarrow> n \<le> h"
    and "map_of (list_entries_of s l) (task_file_name (t_id t)) = None"
    and "task_at (list_entries_of s' l) = (task_at (list_entries_of s l))(t_id t \<mapsto> t)"
    and "\<And>l'. canonical_task_list_id l' \<noteq> canonical_task_list_id l \<Longrightarrow> list_entries_of s' l' = list_entries_of s l'"
proof -
  let ?d = "list_entries_of s l"
  obtain d1 where b: "create_task_locked env input d1 = (Inr t, list_entries_of s' l)"
    and fr: "\<And>n. n \<noteq> lit ''.lock'' \<Longrightarrow> map_of d1 n = map_of ?d n" "task_at d1 = task_at ?d"
    and other: "\<And>l'. canonical_task_list_id l' \<noteq> canonical_task_list_id l \<Longrightarrow> list_entries_of s' l' = list_entries_of s l'"
    using assms unfolding create_task_def by (auto elim!: with_task_list_lock_Inr)
  from b obtain h where h: "highest_task_id env d1 (map fst d1) 0 = Inr h"
    "t = new_task env (dec (wrapping_add64 h 1)) input"
    "write_new_task_file env t d1 = (Inr (), list_entries_of s' l)"
    by (auto simp: create_task_locked_def bindE_Inr thenE_Inr next_task_id_in_dir_def
        split: if_splits sum.splits)
  have real: "task_id_from_path d1 name = task_id_from_path ?d name" if "name \<noteq> lit ''.lock''" for name
    using fr(1) [OF that] by (simp add: task_id_from_path_def is_real_file_def)
  have ne: "task_id_from_path d name = Some k \<Longrightarrow> name \<noteq> lit ''.lock'' \<and> name \<in> set (map fst d)" for d name k
  proof -
    assume a: "task_id_from_path d name = Some k"
    have "starts_with (lit ''.lock'') (lit ''.'')" by (simp add: lit_simps)
    moreover have "is_real_file d name \<longrightarrow> name \<in> set (map fst d)"
      by (auto simp: is_real_file_def split: option.splits dest!: map_of_SomeD)
        (metis fst_conv imageI)
    ultimately show ?thesis using a by (auto simp: task_id_from_path_def split: if_splits)
  qed
  have up: "n \<le> h" if "task_id_from_path ?d name = Some k" "parse_u64 k = Some n" for name k n
  proof -
    have "task_id_from_path d1 name = Some k" using that(1) real ne by metis
    with ne have "name \<in> set (map fst d1)" by blast
    with highest_task_id_upper [OF h(1)] that(2) \<open>task_id_from_path d1 name = Some k\<close> show ?thesis by blast
  qed
  have v: "valid_record t" by (simp add: h(2) new_task_def valid_record_def dec_valid_id)
  from h(3) have w: "map_of d1 (task_file_name (t_id t)) = None"
    "list_entries_of s' l = dir_put d1 (task_file_name (t_id t)) (RealFile (Some t))"
    by (auto simp: write_new_task_file_def write_task_file_at_path_def split: if_splits)
  show thesis
    using that [OF h(2) highest_task_id_le_max [OF h(1)] up _ _ other] w task_at_put [OF v] fr by simp
qed

lemma create_keeps_deps:
  assumes "create_task env l input s = (Inr t, s')" "deps_ok (list_entries_of s l)"
  shows "deps_ok (list_entries_of s' l)"
proof -
  obtain h where t: "t = new_task env (dec (wrapping_add64 h 1)) input"
    and fresh: "map_of (list_entries_of s l) (task_file_name (t_id t)) = None"
    and at: "task_at (list_entries_of s' l) = (task_at (list_entries_of s l))(t_id t \<mapsto> t)"
    using create_task_Inr [OF assms(1)] by metis
  have "task_at (list_entries_of s l) (t_id t) = None" using fresh by (simp add: task_at_def)
  moreover have "t_blocks t = []" "t_blocked_by t = []" by (simp_all add: t new_task_def)
  ultimately have "blocks_edge (task_at (list_entries_of s' l)) a b = blocks_edge (task_at (list_entries_of s l)) a b"
    "blocked_edge (task_at (list_entries_of s' l)) a b = blocked_edge (task_at (list_entries_of s l)) a b" for a b
    by (auto simp: at edge_defs)
  then show ?thesis using assms(2) by (simp add: deps_ok_edges)
qed

text \<open>The stores an agent can reach with calls that return \<open>Ok\<close>, from a list with no tasks.\<close>

inductive task_reach :: "ustr \<Rightarrow> task_store \<Rightarrow> bool" for l where
  start: "list_entries_of s l = [] \<Longrightarrow> task_reach l s"
| create: "task_reach l s \<Longrightarrow> create_task env l' input s = (Inr t, s') \<Longrightarrow> task_reach l s'"
| update: "task_reach l s \<Longrightarrow> update_task env l' k upd s = (Inr out, s') \<Longrightarrow> task_reach l s'"

lemma update_keeps_deps:
  assumes "update_task env l k upd s = (Inr out, s')" "deps_ok (list_entries_of s l)"
  shows "deps_ok (list_entries_of s' l)"
proof -
  obtain d1 where d1: "update_task_locked env (trim k) upd d1 = (Inr out, list_entries_of s' l)"
    "task_at d1 = task_at (list_entries_of s l)"
    using update_task_Inr [OF assms(1)] by metis
  then have "deps_ok d1" using assms(2) by (simp add: deps_ok_edges)
  with d1(1) show ?thesis
    using modify_keeps_deps delete_keeps_deps(1) by (auto simp: update_task_locked_def split: if_splits)
qed

lemma list_of_other:
  "canonical_task_list_id l' = canonical_task_list_id l \<Longrightarrow> list_entries_of s l' = list_entries_of s l"
  by (simp add: list_entries_of_def task_list_dir_def)

subsection \<open>Properties\<close>

text \<open>
  C14. In every store that successful creates and updates can reach, each dependency is recorded
  on both sides: a task lists another among those it blocks exactly when the other exists and
  lists it among those that block it.
\<close>

theorem dependencies_stay_symmetric:
  assumes "task_reach l s"
  shows "deps_ok (list_entries_of s l)"
  using assms
proof induction
  case (start s)
  then show ?case by (simp add: deps_ok_def tasks_in_def List.map_filter_def)
next
  case (create s env l' input t s')
  show ?case
  proof (cases "canonical_task_list_id l' = canonical_task_list_id l")
    case True
    then show ?thesis
      using create_keeps_deps [OF create.hyps(2)] create.IH list_of_other [OF True] by simp
  next
    case False
    have "list_entries_of s' l = list_entries_of s l"
      using create_task_Inr [OF create.hyps(2)] False by metis
    then show ?thesis using create.IH by simp
  qed
next
  case (update s env l' k upd out s')
  show ?case
  proof (cases "canonical_task_list_id l' = canonical_task_list_id l")
    case True
    then show ?thesis
      using update_keeps_deps [OF update.hyps(2)] update.IH list_of_other [OF True] by simp
  next
    case False
    have "list_entries_of s' l = list_entries_of s l"
      using update_task_Inr [OF update.hyps(2)] False by metis
    then show ?thesis using update.IH by simp
  qed
qed

lemma reach_create:
  "task_reach l s \<Longrightarrow> \<not> isl (fst (create_task env l' input s)) \<Longrightarrow>
     task_reach l (snd (create_task env l' input s))"
  by (cases "create_task env l' input s"; cases "fst (create_task env l' input s)")
    (auto intro: task_reach.create)

lemma reach_update:
  "task_reach l s \<Longrightarrow> \<not> isl (fst (update_task env l' k upd s)) \<Longrightarrow>
     task_reach l (snd (update_task env l' k upd s))"
  by (cases "update_task env l' k upd s"; cases "fst (update_task env l' k upd s)")
    (auto intro: task_reach.update)

definition demo_env :: task_env where
  "demo_env = \<lparr>now_secs = 7, io_fails = (\<lambda>_. False)\<rparr>"

definition demo_input :: "string \<Rightarrow> new_task_record" where
  "demo_input s = \<lparr>n_subject = lit s, n_description = [], n_active_form = None, n_metadata = []\<rparr>"

definition demo_store :: task_store where
  "demo_store = \<lparr>ts_root = Missing, ts_lists = (\<lambda>_. Missing)\<rparr>"

definition demo_two :: task_store where
  "demo_two = snd (create_task demo_env (lit ''team'') (demo_input ''b'')
     (snd (create_task demo_env (lit ''team'') (demo_input ''a'') demo_store)))"

definition demo_linked :: task_store where
  "demo_linked = snd (update_task demo_env (lit ''team'') (lit ''1'')
     (default_update\<lparr>u_add_blocks := [lit ''2''], u_claim_owner := Some (lit ''me'')\<rparr>) demo_two)"

lemma demo_linked_reach: "task_reach (lit ''team'') demo_linked"
proof -
  have 0: "task_reach (lit ''team'') demo_store"
    by (rule task_reach.start) (simp add: demo_store_def list_entries_of_def task_list_dir_def)
  have 1: "task_reach (lit ''team'') (snd (create_task demo_env (lit ''team'') (demo_input ''a'') demo_store))"
    by (rule reach_create [OF 0]) code_simp
  have 2: "task_reach (lit ''team'') demo_two"
    unfolding demo_two_def by (rule reach_create [OF 1]) code_simp
  show ?thesis unfolding demo_linked_def by (rule reach_update [OF 2]) code_simp
qed

theorem dependencies_stay_symmetric_witness:
  "deps_ok (list_entries_of demo_linked (lit ''team'')) \<and>
   map_option t_blocked_by (task_at (list_entries_of demo_linked (lit ''team'')) (lit ''2'')) = Some [lit ''1'']"
proof
  show "deps_ok (list_entries_of demo_linked (lit ''team''))"
    by (rule dependencies_stay_symmetric [OF demo_linked_reach])
  show "map_option t_blocked_by (task_at (list_entries_of demo_linked (lit ''team'')) (lit ''2'')) = Some [lit ''1'']"
    by code_simp
qed

text \<open>
  A successful delete removes the task and every reference to it: no remaining task of the
  list blocks it or is blocked by it. Other lists are not touched.
\<close>

theorem deleted_task_leaves_no_reference:
  assumes "update_task env l k upd s = (Inr out, s')" and "u_delete upd" and "o_success out"
    and "deps_ok (list_entries_of s l)"
  shows "task_at (list_entries_of s' l) (trim k) = None \<and>
     (\<forall>t \<in> set (tasks_in (list_entries_of s' l)). trim k \<notin> set (t_blocks t) \<union> set (t_blocked_by t))"
proof -
  obtain d1 where d1: "update_task_locked env (trim k) upd d1 = (Inr out, list_entries_of s' l)"
    "task_at d1 = task_at (list_entries_of s l)"
    using update_task_Inr [OF assms(1)] by metis
  then have ok: "deps_ok d1" and del: "delete_task_locked env (trim k) d1 = (Inr out, list_entries_of s' l)"
    using assms(2,4) by (auto simp: deps_ok_edges update_task_locked_def)
  note D = delete_keeps_deps [OF del ok]
  have "task_at (list_entries_of s' l) (trim k) = None" by (rule D(2) [OF assms(3)])
  moreover have "\<forall>t \<in> set (tasks_in (list_entries_of s' l)). trim k \<notin> set (t_blocks t) \<union> set (t_blocked_by t)"
  proof
    fix t assume "t \<in> set (tasks_in (list_entries_of s' l))"
    then have "task_at (list_entries_of s' l) (t_id t) = Some t" by (simp add: tasks_in_iff)
    with D(3) [OF assms(3), of "t_id t"] show "trim k \<notin> set (t_blocks t) \<union> set (t_blocked_by t)"
      by (simp add: edge_defs)
  qed
  ultimately show ?thesis by blast
qed

definition demo_delete :: task_update where
  "demo_delete = default_update\<lparr>u_delete := True, u_expected_revision := Some 99\<rparr>"

lemma Inr_pair: "fst p = Inr x \<Longrightarrow> p = (Inr x, snd p)"
  by (cases p) simp

theorem deleted_task_leaves_no_reference_witness:
  "let s' = snd (update_task demo_env (lit ''team'') (lit ''1'') demo_delete demo_linked)
   in task_at (list_entries_of s' (lit ''team'')) (trim (lit ''1'')) = None \<and>
      (\<forall>t \<in> set (tasks_in (list_entries_of s' (lit ''team''))).
         trim (lit ''1'') \<notin> set (t_blocks t) \<union> set (t_blocked_by t))"
proof -
  have r: "fst (update_task demo_env (lit ''team'') (lit ''1'') demo_delete demo_linked)
      = Inr (outcome_deleted (lit ''1''))"
    by code_simp
  have d: "u_delete demo_delete" "o_success (outcome_deleted (lit ''1''))"
    "deps_ok (list_entries_of demo_linked (lit ''team''))"
    by code_simp+
  show ?thesis
    unfolding Let_def
    using deleted_task_leaves_no_reference [OF Inr_pair [OF r] d] by blast
qed

text \<open>
  A created task gets a number above every number in use, as long as the highest is below the
  64-bit limit; its file did not exist, and nothing else in the list changes.
\<close>

theorem created_task_is_fresh:
  assumes "create_task env l input s = (Inr t, s')"
  shows "map_of (list_entries_of s l) (task_file_name (t_id t)) = None \<and>
     task_at (list_entries_of s' l) = (task_at (list_entries_of s l))(t_id t \<mapsto> t) \<and>
     (\<exists>m. parse_u64 (t_id t) = Some m \<and>
        (m = 0 \<or> (\<forall>name k n. task_id_from_path (list_entries_of s l) name = Some k \<longrightarrow>
                     parse_u64 k = Some n \<longrightarrow> n < m))) \<and>
     t_revision t = 1 \<and> t_status t = Pending \<and> t_owner t = None \<and> t_subject t = n_subject input"
proof -
  obtain h where t: "t = new_task env (dec (wrapping_add64 h 1)) input" "h \<le> u64_max"
    and up: "\<And>name k n. task_id_from_path (list_entries_of s l) name = Some k \<Longrightarrow> parse_u64 k = Some n \<Longrightarrow> n \<le> h"
    and fresh: "map_of (list_entries_of s l) (task_file_name (t_id t)) = None"
    and at: "task_at (list_entries_of s' l) = (task_at (list_entries_of s l))(t_id t \<mapsto> t)"
    using create_task_Inr [OF assms] by metis
  have p: "parse_u64 (t_id t) = Some (wrapping_add64 h 1)"
    using wrapping_le_max by (simp add: t(1) new_task_def parse_u64_dec)
  have w: "wrapping_add64 h 1 = 0 \<or> wrapping_add64 h 1 = h + 1"
  proof (cases "h = u64_max")
    case True
    then show ?thesis by (simp add: wrapping_add64_def u64_max_def)
  next
    case False
    then show ?thesis using t(2) by (simp add: wrapping_add64_small)
  qed
  have num: "\<exists>m. parse_u64 (t_id t) = Some m \<and>
      (m = 0 \<or> (\<forall>name k n. task_id_from_path (list_entries_of s l) name = Some k \<longrightarrow>
                   parse_u64 k = Some n \<longrightarrow> n < m))"
    using w up by (intro exI [of _ "wrapping_add64 h 1"] conjI p) fastforce
  have "t_revision t = 1 \<and> t_status t = Pending \<and> t_owner t = None \<and> t_subject t = n_subject input"
    by (simp add: t(1) new_task_def)
  with fresh at num show ?thesis by blast
qed

theorem created_task_is_fresh_witness:
  "map_of (list_entries_of demo_two (lit ''team'')) (task_file_name (lit ''3'')) = None \<and>
   t_revision (new_task demo_env (lit ''3'') (demo_input ''c'')) = 1"
proof -
  have "fst (create_task demo_env (lit ''team'') (demo_input ''c'') demo_two)
      = Inr (new_task demo_env (lit ''3'') (demo_input ''c''))"
    by code_simp
  note F = created_task_is_fresh [OF Inr_pair [OF this]]
  have "t_id (new_task demo_env (lit ''3'') (demo_input ''c'')) = lit ''3''" by (simp add: new_task_def)
  with F show ?thesis by simp
qed

text \<open>
  C16. A rejected update (unknown task, stale revision, ownership conflict) changes no task file:
  every entry of the list other than the lock file is what it was.
\<close>

theorem rejected_update_changes_nothing:
  assumes "update_task env l k upd s = (Inr out, s')" and "\<not> o_success out"
  shows "n \<noteq> lit ''.lock'' \<Longrightarrow> map_of (list_entries_of s' l) n = map_of (list_entries_of s l) n"
proof -
  assume n: "n \<noteq> lit ''.lock''"
  obtain d1 where d1: "update_task_locked env (trim k) upd d1 = (Inr out, list_entries_of s' l)"
    "map_of d1 n = map_of (list_entries_of s l) n"
    using update_task_Inr [OF assms(1)] n by metis
  have "list_entries_of s' l = d1"
  proof (cases "u_delete upd")
    case True
    then have "delete_task_locked env (trim k) d1 = (Inr out, list_entries_of s' l)"
      using d1(1) by (simp add: update_task_locked_def)
    from delete_task_locked_Inr [OF this] assms(2) show ?thesis by (auto simp: outcome_deleted_def)
  next
    case False
    then have "modify_task_locked env (trim k) upd d1 = (Inr out, list_entries_of s' l)"
      using d1(1) by (simp add: update_task_locked_def)
    from modify_task_locked_Inr [OF this] assms(2) show ?thesis by auto
  qed
  with d1(2) show ?thesis by simp
qed

definition demo_steal :: task_update where
  "demo_steal = default_update\<lparr>u_subject := Some (lit ''mine''), u_claim_owner := Some (lit ''other'')\<rparr>"

theorem rejected_update_changes_nothing_witness:
  "let s' = snd (update_task demo_env (lit ''team'') (lit ''1'') demo_steal demo_linked)
   in map_of (list_entries_of s' (lit ''team'')) (task_file_name (lit ''1''))
      = map_of (list_entries_of demo_linked (lit ''team'')) (task_file_name (lit ''1''))"
proof -
  have r: "fst (update_task demo_env (lit ''team'') (lit ''1'') demo_steal demo_linked)
      = Inr (outcome_conflict (lit ''1'') 2 7 (lit ''Task already owned by me''))"
    by code_simp
  have o: "\<not> o_success (outcome_conflict (lit ''1'') 2 7 (lit ''Task already owned by me''))"
    by (simp add: outcome_conflict_def)
  show ?thesis unfolding Let_def
    by (rule rejected_update_changes_nothing [OF Inr_pair [OF r] o task_file_name_not_lock])
qed

text \<open>What an update that reads the task does, by branch.\<close>

lemma modify_success_guard:
  assumes "modify_task_locked env k upd d = (Inr out, d')" "o_success out"
  shows "\<exists>t. task_at d k = Some t \<and>
     (u_expected_revision upd = None \<or> u_expected_revision upd = Some (t_revision t)) \<and>
     snd (snd (apply_field_updates t upd)) = None"
proof -
  obtain found d1 where f: "get_task_from_dir env k d = (Inr found, d1)"
    using assms(1) unfolding modify_task_locked_def bindE_Inr by blast
  then have f': "d1 = d" "found = task_at d k" using get_task_from_dir_Inr by blast+
  have "found \<noteq> None"
    using assms f by (cases "found = None") (auto simp: modify_task_locked_def bindE_apply outcome_not_found_def)
  then obtain t where t: "found = Some t" by blast
  then have "task_at d k = Some t" using f' by simp
  then show ?thesis using assms f f' t
    by (auto simp: modify_task_locked_def bindE_apply outcome_stale_def outcome_conflict_def
        split: if_splits prod.splits option.splits sum.splits)
qed

text \<open>
  Optimistic concurrency: an update that gives an expected revision succeeds only on exactly
  that revision, and when it changes a field it stores the next one (the counter saturates) and
  reports it, so the expected revision is not current any more.
\<close>

theorem accepted_update_advances_revision:
  assumes "update_task env l k upd s = (Inr out, s')" and "o_success out" and "\<not> u_delete upd"
    and "u_expected_revision upd = Some r"
  shows "\<exists>t. task_at (list_entries_of s l) (trim k) = Some t \<and> t_revision t = r \<and>
     (o_updated_fields out \<noteq> [] \<longrightarrow>
        o_revision out = Some (saturating_add64 r 1) \<and>
        map_option t_revision (task_at (list_entries_of s' l) (trim k)) = Some (saturating_add64 r 1))"
proof -
  obtain d1 where d1: "update_task_locked env (trim k) upd d1 = (Inr out, list_entries_of s' l)"
    "task_at d1 = task_at (list_entries_of s l)"
    using update_task_Inr [OF assms(1)] by metis
  then have m: "modify_task_locked env (trim k) upd d1 = (Inr out, list_entries_of s' l)"
    using assms(3) by (simp add: update_task_locked_def)
  obtain t where t: "task_at d1 (trim k) = Some t" "t_revision t = r"
    using modify_success_guard [OF m assms(2)] assms(4) by auto
  have "o_revision out = Some (saturating_add64 r 1) \<and>
      map_option t_revision (task_at (list_entries_of s' l) (trim k)) = Some (saturating_add64 r 1)"
    if "o_updated_fields out \<noteq> []"
    using modify_task_locked_Inr [OF m]
  proof (elim disjE exE conjE)
    fix u t'
    assume "task_at d1 (trim k) = Some u" "t_revision t' = t_revision u"
      "o_revision out = Some (t_revision (bump_task_revision env t'))"
      "task_at (list_entries_of s' l) = (\<lambda>j. map_option
          (link_spec env (trim k) (u_add_blocks upd) (u_add_blocked_by upd)) (task_at d1 j))
         (trim k \<mapsto> bump_task_revision env t')"
    then show ?thesis using t by (simp add: bump_task_revision_def)
  qed (use assms(2) that in simp_all)
  with t d1(2) show ?thesis by auto
qed

definition demo_finish :: task_update where
  "demo_finish = default_update\<lparr>u_expected_revision := Some 2, u_status := Some Completed\<rparr>"

theorem accepted_update_advances_revision_witness:
  "\<exists>t. task_at (list_entries_of demo_linked (lit ''team'')) (trim (lit ''1'')) = Some t \<and> t_revision t = 2 \<and>
     map_option t_revision (task_at (list_entries_of
        (snd (update_task demo_env (lit ''team'') (lit ''1'') demo_finish demo_linked)) (lit ''team''))
        (trim (lit ''1''))) = Some (saturating_add64 2 1)"
proof -
  obtain out where r: "fst (update_task demo_env (lit ''team'') (lit ''1'') demo_finish demo_linked) = Inr out"
    and o: "o_success out" "o_updated_fields out \<noteq> []"
  proof -
    have "(case fst (update_task demo_env (lit ''team'') (lit ''1'') demo_finish demo_linked) of
        Inl _ \<Rightarrow> False | Inr out \<Rightarrow> o_success out \<and> o_updated_fields out \<noteq> [])"
      by code_simp
    then show thesis using that by (auto split: sum.splits)
  qed
  have u: "\<not> u_delete demo_finish" "u_expected_revision demo_finish = Some 2"
    by (simp_all add: demo_finish_def default_update_def)
  show ?thesis using accepted_update_advances_revision [OF Inr_pair [OF r] o(1) u] o(2) by blast
qed

text \<open>
  A delete does not look at the expected revision: with a stale one it still removes the task
  and reports success, where a change of any field is refused.
\<close>

theorem delete_ignores_expected_revision:
  "u_expected_revision demo_delete = Some 99 \<and>
   map_option t_revision (task_at (list_entries_of demo_linked (lit ''team'')) (lit ''1'')) = Some 2 \<and>
   fst (update_task demo_env (lit ''team'') (lit ''1'') demo_delete demo_linked)
     = Inr (outcome_deleted (lit ''1'')) \<and>
   fst (update_task demo_env (lit ''team'') (lit ''1'')
          (demo_delete\<lparr>u_delete := False, u_subject := Some (lit ''x'')\<rparr>) demo_linked)
     = Inr (outcome_stale (lit ''1'') 2 7)"
  by (intro conjI; code_simp)

text \<open>The owner after a claim without a release.\<close>

lemma claim_result:
  assumes "apply_field_updates t upd = (t', changed, None)" "u_claim_owner upd = Some a"
    "u_release_owner upd = None" "u_owner upd = None"
  shows "t_owner t' = Some a \<and> (t_owner t = None \<or> t_owner t = Some a)"
  using assms
  by (auto simp: apply_field_updates_def apply_owner_claim_update_def apply_release_def
      apply_optional_text_update_def Let_def split: prod.splits if_splits option.splits)

lemma modify_owner:
  assumes m: "modify_task_locked env k upd d = (Inr out, d')" and "o_success out"
    and c: "u_claim_owner upd = Some a" "u_release_owner upd = None" "u_owner upd = None"
  shows "\<exists>t t'. task_at d k = Some t \<and> task_at d' k = Some t' \<and> t_owner t' = Some a \<and>
     (t_owner t = None \<or> t_owner t = Some a)"
proof -
  obtain t where t: "task_at d k = Some t"
    "u_expected_revision upd = None \<or> u_expected_revision upd = Some (t_revision t)"
    "snd (snd (apply_field_updates t upd)) = None"
    using modify_success_guard [OF m assms(2)] by auto
  obtain t1 changed where a: "apply_field_updates t upd = (t1, changed, None)"
    using t(3) by (metis prod.collapse)
  note own = claim_result [OF a c]
  obtain d1 where f: "get_task_from_dir env k d = (Inr (Some t), d1)"
    using m t(1) get_task_from_dir_Inr unfolding modify_task_locked_def bindE_Inr by metis
  then have d1: "d1 = d" using get_task_from_dir_Inr by blast
  obtain t2 fs d2 where st: "apply_dependency_updates env k t1 (u_add_blocks upd) (u_add_blocked_by upd) changed d = (Inr (t2, fs), d2)"
      "store_updated env k (t_status t) t2 fs d2 = (Inr out, d')"
    using m f d1 t(2) a
    by (auto simp: modify_task_locked_def bindE_apply split: prod.splits sum.splits if_splits)
  note D = apply_dependency_updates_Inr [OF st(1)]
  have o2: "t_owner t2 = Some a" "t_id t2 = k"
    using D(3) own apply_field_updates_frame(1) [OF a] task_at_Some [OF t(1)] by auto
  show ?thesis
  proof (cases "fs = []")
    case True
    then have e: "u_add_blocks upd = []" "u_add_blocked_by upd = []" "changed = []"
      using D(4) by (auto split: if_splits)
    have "t_owner t = Some a"
      using a c own e(3)
      by (auto simp: apply_field_updates_def apply_owner_claim_update_def apply_release_def
          apply_optional_text_update_def Let_def split: prod.splits if_splits option.splits)
    moreover have "d' = d"
      using st e True by (auto simp: apply_dependency_updates_def bindE_apply thenE_apply liftE_def store_updated_def)
    ultimately show ?thesis using t(1) by auto
  next
    case False
    then have w: "write_task_file env (bump_task_revision env t2) d2 = (Inr (), d')"
      using st(2) by (auto simp: store_updated_def thenE_Inr)
    have v: "is_valid_task_id (t_id t2)" using task_at_Some [OF t(1)] o2 by simp
    have "task_at d' k = Some (bump_task_revision env t2)"
      using write_task_file_at [OF w valid_bump [OF v]] o2(2) by (simp add: task_simps)
    then show ?thesis using t(1) own o2(1) by (auto simp: bump_task_revision_def)
  qed
qed

text \<open>
  C15. Ownership is exclusive: a claim succeeds only on a task that is free or already the
  claimant's, and afterwards the claimant owns it.
\<close>

theorem claim_is_exclusive:
  assumes "update_task env l k upd s = (Inr out, s')" and "o_success out" and "\<not> u_delete upd"
    and "u_claim_owner upd = Some a" and "u_release_owner upd = None" and "u_owner upd = None"
  shows "\<exists>t t'. task_at (list_entries_of s l) (trim k) = Some t \<and>
     task_at (list_entries_of s' l) (trim k) = Some t' \<and> t_owner t' = Some a \<and>
     (t_owner t = None \<or> t_owner t = Some a)"
proof -
  obtain d1 where d1: "update_task_locked env (trim k) upd d1 = (Inr out, list_entries_of s' l)"
    "task_at d1 = task_at (list_entries_of s l)"
    using update_task_Inr [OF assms(1)] by metis
  then have m: "modify_task_locked env (trim k) upd d1 = (Inr out, list_entries_of s' l)"
    using assms(3) by (simp add: update_task_locked_def)
  from modify_owner [OF m assms(2,4-6)] d1(2) show ?thesis by simp
qed

definition demo_claim :: task_update where
  "demo_claim = default_update\<lparr>u_claim_owner := Some (lit ''me'')\<rparr>"

theorem claim_is_exclusive_witness:
  "\<exists>t t'. task_at (list_entries_of demo_two (lit ''team'')) (trim (lit ''2'')) = Some t \<and>
     task_at (list_entries_of (snd (update_task demo_env (lit ''team'') (lit ''2'') demo_claim demo_two))
        (lit ''team'')) (trim (lit ''2'')) = Some t' \<and> t_owner t' = Some (lit ''me'') \<and>
     (t_owner t = None \<or> t_owner t = Some (lit ''me''))"
proof -
  obtain out where r: "fst (update_task demo_env (lit ''team'') (lit ''2'') demo_claim demo_two) = Inr out"
    and o: "o_success out"
  proof -
    have "(case fst (update_task demo_env (lit ''team'') (lit ''2'') demo_claim demo_two) of
        Inl _ \<Rightarrow> False | Inr out \<Rightarrow> o_success out)"
      by code_simp
    then show thesis using that by (auto split: sum.splits)
  qed
  have u: "\<not> u_delete demo_claim" "u_claim_owner demo_claim = Some (lit ''me'')"
    "u_release_owner demo_claim = None" "u_owner demo_claim = None"
    by (simp_all add: demo_claim_def default_update_def)
  show ?thesis by (rule claim_is_exclusive [OF Inr_pair [OF r] o u])
qed

lemma split_last_dot_None: "split_last_dot s = None \<longleftrightarrow> chr ''.'' \<notin> set s"
  by (induction s) (auto split: option.splits)

lemma split_last_dot_append:
  "chr ''.'' \<notin> set b \<Longrightarrow> split_last_dot (a @ chr ''.'' # b) = Some (a, b)"
proof (induction a)
  case Nil
  then show ?case using split_last_dot_None [of b] by simp
qed simp

lemma task_id_from_task_file:
  assumes "is_real_file d (task_file_name k)" "is_valid_task_id k" "\<not> starts_with k (lit ''.'')"
  shows "task_id_from_path d (task_file_name k) = Some k"
proof -
  have ne: "k \<noteq> []" using assms(2) by (auto simp: is_valid_task_id_def Let_def)
  have n: "task_file_name k = k @ chr ''.'' # lit ''json''" by (simp add: task_file_name_def lit_simps)
  have "split_last_dot (task_file_name k) = Some (k, lit ''json'')"
    unfolding n by (rule split_last_dot_append) (simp add: lit_simps)
  then have "stem_extension (task_file_name k) = (k, Some (lit ''json''))"
    using ne by (simp add: stem_extension_def)
  moreover have "\<not> starts_with (task_file_name k) (lit ''.'')"
    using assms(3) ne by (cases k) (auto simp: task_file_name_def lit_simps)
  moreover have "map to_ascii_lowercase (lit ''json'') = lit ''json''" by code_simp
  ultimately show ?thesis using assms by (simp add: task_id_from_path_def)
qed

lemma list_entries_set:
  assumes "list_entries env d names = Inr ts"
  shows "set ts = {t. \<exists>name \<in> set names. \<exists>k. task_id_from_path d name = Some k \<and> read_task_file env d name k = Inr t}"
  using assms
proof (induction names arbitrary: ts)
  case Nil
  then show ?case by simp
next
  case (Cons name names)
  then obtain us where us: "list_entries env d names = Inr us"
    by (auto split: if_splits sum.splits)
  show ?case
  proof (cases "task_id_from_path d name")
    case None
    then show ?thesis using Cons us by (auto split: if_splits)
  next
    case (Some k)
    then show ?thesis using Cons us by (cases "read_task_file env d name k") (auto split: if_splits)
  qed
qed

lemma read_task_file_valid:
  assumes "read_task_file env d name k = Inr t"
  shows "valid_record t"
proof (cases "map_of d name")
  case (Some e)
  then obtain u where u: "e = RealFile (Some u)"
    using assms by (auto simp: read_task_file_def split: if_splits option.splits dir_entry.splits)
  then show ?thesis using assms Some by (auto simp: read_task_file_def valid_record_def split: if_splits)
qed (use assms in \<open>auto simp: read_task_file_def split: if_splits\<close>)

text \<open>
  A listing is ordered (numbers first, ascending), contains only well-formed records with a
  revision of at least one, and misses no readable task whose identifier does not start with a dot.
\<close>

theorem listing_is_sorted_and_complete:
  assumes "list_tasks env s l = Inr ts" and "task_list_dir s l = RealDirectory d"
  shows "sorted (map task_key ts) \<and> list_all valid_record ts \<and>
     (\<forall>k t. task_at d k = Some t \<and> \<not> starts_with k (lit ''.'') \<and>
        \<not> io_fails env (ReadFile (task_file_name k)) \<longrightarrow> t \<in> set ts)"
proof -
  obtain us where us: "list_entries env d (map fst d) = Inr us" "ts = sort_tasks_by_id us"
    using assms by (auto simp: list_tasks_def split: if_splits sum.splits)
  note S = list_entries_set [OF us(1)]
  have "list_all valid_record ts"
    using S read_task_file_valid by (auto simp: us(2) sort_tasks_by_id_def list_all_iff)
  moreover have "t \<in> set ts"
    if t: "task_at d k = Some t" "\<not> starts_with k (lit ''.'')" "\<not> io_fails env (ReadFile (task_file_name k))" for k t
  proof -
    have id: "task_id_from_path d (task_file_name k) = Some k"
      using task_id_from_task_file [OF task_at_real [OF t(1)]] task_at_Some [OF t(1)] t(2) by blast
    have "read_task_file env d (task_file_name k) k = Inr t"
      using t(1,3) by (auto simp: task_at_def read_task_file_def split: option.splits dir_entry.splits if_splits)
    moreover have "task_file_name k \<in> set (map fst d)"
      using task_at_real [OF t(1)] by (auto simp: is_real_file_def split: option.splits)
        (metis domI dom_map_of_conv_image_fst)
    ultimately have "t \<in> set us" unfolding S using id by blast
    then show ?thesis by (simp add: us(2) sort_tasks_by_id_def)
  qed
  moreover have "sorted (map task_key ts)" by (simp add: us(2) sort_tasks_by_id_def)
  ultimately show ?thesis by blast
qed

definition demo_listing :: task_store where
  "demo_listing = demo_store\<lparr>ts_root := RealDirectory (), ts_lists := (\<lambda>_. RealDirectory
     [(lit ''10.json'', RealFile (Some (new_task demo_env (lit ''10'') (demo_input ''x'')))),
      (lit ''a.JSON'', RealFile (Some (new_task demo_env (lit ''a'') (demo_input ''y'')))),
      (lit ''9.json'', RealFile (Some (new_task demo_env (lit ''9'') (demo_input ''z''))))])\<rparr>"

lemma demo_listing_result:
  "list_tasks demo_env demo_listing (lit ''team'') =
     Inr [new_task demo_env (lit ''9'') (demo_input ''z''), new_task demo_env (lit ''10'') (demo_input ''x''),
          new_task demo_env (lit ''a'') (demo_input ''y'')]"
  by code_simp

theorem listing_is_sorted_and_complete_witness:
  "sorted (map task_key [new_task demo_env (lit ''9'') (demo_input ''z''),
     new_task demo_env (lit ''10'') (demo_input ''x''), new_task demo_env (lit ''a'') (demo_input ''y'')])"
proof -
  have "task_list_dir demo_listing (lit ''team'') = RealDirectory
     [(lit ''10.json'', RealFile (Some (new_task demo_env (lit ''10'') (demo_input ''x'')))),
      (lit ''a.JSON'', RealFile (Some (new_task demo_env (lit ''a'') (demo_input ''y'')))),
      (lit ''9.json'', RealFile (Some (new_task demo_env (lit ''9'') (demo_input ''z''))))]"
    by (simp add: demo_listing_def task_list_dir_def)
  from listing_is_sorted_and_complete [OF demo_listing_result this] show ?thesis by simp
qed

text \<open>A task file whose extension is written in capitals is listed, and cannot be fetched by the
  identifier it is listed under.\<close>

lemma listed_task_not_gettable:
  "new_task demo_env (lit ''a'') (demo_input ''y'') \<in> set (projr (list_tasks demo_env demo_listing (lit ''team''))) \<and>
   get_task demo_env demo_listing (lit ''team'') (lit ''a'') = Inr None"
proof
  show "new_task demo_env (lit ''a'') (demo_input ''y'') \<in> set (projr (list_tasks demo_env demo_listing (lit ''team'')))"
    unfolding demo_listing_result by simp
  show "get_task demo_env demo_listing (lit ''team'') (lit ''a'') = Inr None" by code_simp
qed

text \<open>The view for the model hides blockers that are completed, and only those.\<close>

lemma entries_hide_completed_blockers:
  "map e_blocked_by (task_list_entries ts) =
     map (\<lambda>t. filter (\<lambda>k. \<not> (\<exists>u \<in> set ts. t_id u = k \<and> t_status u = Completed)) (t_blocked_by t)) ts"
  by (auto simp: task_list_entries_def task_list_entry_from_task_def Let_def intro!: filter_cong)

text \<open>Every name of a task list is brought to a safe path component, and names that differ only
  in that are the same list.\<close>

lemma trim_matches_idem: "trim_matches c (trim_matches c s) = trim_matches c s"
proof -
  let ?a = "dropWhile (\<lambda>x. x = c) s"
  have *: "dropWhile (\<lambda>x. x = c) (trim_matches c s) = trim_matches c s"
  proof (cases "trim_matches c s = []")
    case False
    obtain t where t: "?a = trim_matches c s @ t"
      unfolding trim_matches_def by (metis rev_append rev_rev_ident takeWhile_dropWhile_id)
    then have "hd (trim_matches c s) = hd ?a" using False by (metis hd_append2)
    moreover have "hd ?a \<noteq> c" using t False hd_dropWhile [of "\<lambda>x. x = c" s] by simp
    ultimately show ?thesis unfolding dropWhile_eq_self_iff by simp
  qed simp
  have "dropWhile (\<lambda>x. x = c) (rev (trim_matches c s)) = rev (trim_matches c s)"
    unfolding trim_matches_def by (simp add: dropWhile_dropWhile1)
  then show ?thesis unfolding trim_matches_def [of c "trim_matches c s"] * by simp
qed

definition safe_char :: "uchar \<Rightarrow> bool" where
  "safe_char c \<longleftrightarrow> is_ascii_alphanumeric c \<or> c = chr ''-'' \<or> c = chr ''_''"

lemma canonical_char_safe: "safe_char (canonical_char c)" "safe_char c \<Longrightarrow> canonical_char c = c"
  by (auto simp: canonical_char_def safe_char_def)

lemma safe_not_whitespace: "safe_char c \<Longrightarrow> \<not> is_whitespace c"
  by (auto simp: safe_char_def is_ascii_alphanumeric_def is_ascii_alphabetic_def is_ascii_digit_def is_whitespace_def)

lemma set_trim_matches: "set (trim_matches c s) \<subseteq> set s"
  by (auto simp: trim_matches_def dest!: set_dropWhileD)

lemma canonical_fixpoint:
  assumes "s \<noteq> []" "\<forall>c \<in> set s. safe_char c" "trim_matches (chr ''-'') s = s"
  shows "canonical_task_list_id s = s"
proof -
  have "trim s = s" using assms safe_not_whitespace by (intro trim_not_ws) auto
  moreover have "map canonical_char s = s" using assms(2) canonical_char_safe(2) by (simp add: map_idI)
  ultimately show ?thesis using assms by (simp add: canonical_task_list_id_def)
qed

text \<open>
  Whatever the caller names a list, its directory name is non-empty and consists of letters,
  digits, dashes and underscores, so it stays inside the root; a canonical name is its own
  canonical name.
\<close>

theorem canonical_list_id_is_safe:
  "canonical_task_list_id s \<noteq> [] \<and> list_all safe_char (canonical_task_list_id s) \<and>
   canonical_task_list_id (canonical_task_list_id s) = canonical_task_list_id s"
proof -
  let ?n = "trim_matches (chr ''-'') (map canonical_char (trim s))"
  have safe: "\<forall>c \<in> set ?n. safe_char c"
    using set_trim_matches canonical_char_safe(1) by fastforce
  show ?thesis
  proof (cases "?n = []")
    case True
    then have "canonical_task_list_id s = lit ''default''" by (simp add: canonical_task_list_id_def)
    moreover have "canonical_task_list_id (lit ''default'') = lit ''default''" "list_all safe_char (lit ''default'')"
      by code_simp+
    ultimately show ?thesis by simp
  next
    case False
    then have c: "canonical_task_list_id s = ?n" by (simp add: canonical_task_list_id_def)
    have "canonical_task_list_id ?n = ?n"
      by (rule canonical_fixpoint [OF False safe trim_matches_idem])
    with c False safe show ?thesis by (simp add: list_all_iff)
  qed
qed

end
