(* ===== verification/BashReadonly.thy ===== *)
theory BashReadonly
  imports Prelude
begin

section \<open>Read-only shell commands and approval prefixes\<close>

text \<open>
  The classifier of \<open>src/src/tools/bash_readonly.rs\<close>: it decides which shell commands run without
  asking (every segment a listed read-only program), and which are covered by a prefix the user
  has approved. A command is cut into segments at unquoted operators, each segment into tokens.
  The two scanners are recursions over the characters with the quote that is open.
\<close>

subsection \<open>Scanning\<close>

definition is_quote :: "uchar \<Rightarrow> bool" where
  "is_quote c \<longleftrightarrow> c = 39 \<or> c = 34"

definition push_shell_segment :: "ustr list \<Rightarrow> ustr \<Rightarrow> ustr list" where
  "push_shell_segment segments current =
     (let segment = trim current in if segment \<noteq> [] then segments @ [segment] else segments)"

fun split_segments_from :: "uchar option \<Rightarrow> ustr \<Rightarrow> ustr list \<Rightarrow> ustr \<Rightarrow> ustr list option" where
  "split_segments_from q current segments [] =
     (if q \<noteq> None then None else Some (push_shell_segment segments current))"
| "split_segments_from (Some active) current segments (c # cs) =
     split_segments_from (if c = active then None else Some active) (current @ [c]) segments cs"
| "split_segments_from None current segments (c # cs) =
     (if is_quote c then split_segments_from (Some c) (current @ [c]) segments cs
      else if c = chr '';'' \<or> c = chr ''|'' then
        split_segments_from None [] (push_shell_segment segments current) cs
      else if c = chr ''&'' then
        (case cs of
           d # ds \<Rightarrow> if d = chr ''&'' then split_segments_from None [] (push_shell_segment segments current) ds
                     else None
         | [] \<Rightarrow> None)
      else split_segments_from None (current @ [c]) segments cs)"

definition split_shell_segments :: "ustr \<Rightarrow> ustr list option" where
  "split_shell_segments command = split_segments_from None [] [] command"

fun tokenize_from :: "uchar option \<Rightarrow> ustr \<Rightarrow> ustr list \<Rightarrow> ustr \<Rightarrow> ustr list option" where
  "tokenize_from q current tokens [] =
     (if q \<noteq> None then None
      else Some (if current \<noteq> [] then tokens @ [current] else tokens))"
| "tokenize_from (Some active) current tokens (c # cs) =
     (if c = active then tokenize_from None current tokens cs
      else if c = 92 \<and> active = 34 then
        (case cs of
           d # ds \<Rightarrow> tokenize_from (Some active) (current @ [d]) tokens ds
         | [] \<Rightarrow> tokenize_from (Some active) current tokens [])
      else tokenize_from (Some active) (current @ [c]) tokens cs)"
| "tokenize_from None current tokens (c # cs) =
     (if is_quote c then tokenize_from (Some c) current tokens cs
      else if c = 92 then
        (case cs of
           d # ds \<Rightarrow> tokenize_from None (current @ [d]) tokens ds
         | [] \<Rightarrow> tokenize_from None current tokens [])
      else if c = chr ''<'' then None
      else if is_whitespace c then
        (if current \<noteq> [] then tokenize_from None [] (tokens @ [current]) cs
         else tokenize_from None current tokens cs)
      else tokenize_from None (current @ [c]) tokens cs)"

definition tokenize_shell_segment :: "ustr \<Rightarrow> ustr list option" where
  "tokenize_shell_segment segment = tokenize_from None [] [] segment"

subsection \<open>Programs and options\<close>

definition command_basename :: "ustr \<Rightarrow> ustr" where
  "command_basename command = (case path_file_name command of Some n \<Rightarrow> n | None \<Rightarrow> command)"

definition mem_lit :: "ustr \<Rightarrow> string list \<Rightarrow> bool" where
  "mem_lit a ls \<longleftrightarrow> list_ex (\<lambda>l. a = lit l) ls"

text \<open>The loop of the option skipper, from position \<open>i\<close> with the arguments from there on.\<close>

function skip_options_from :: "string list \<Rightarrow> string list \<Rightarrow> nat \<Rightarrow> ustr list \<Rightarrow> nat option" where
  "skip_options_from valueless vals i [] = None"
| "skip_options_from valueless vals i (arg # args) =
     (if mem_lit arg valueless then skip_options_from valueless vals (i + 1) args
      else if mem_lit arg vals then skip_options_from valueless vals (i + 2) (drop 1 args)
      else if list_ex (\<lambda>opt. starts_with arg (lit opt @ lit ''='')) vals
        then skip_options_from valueless vals (i + 1) args
      else if starts_with arg (lit ''-'') then skip_options_from valueless vals (i + 1) args
      else Some i)"
  by pat_completeness auto
termination by (relation "measure (\<lambda>(_, _, _, args). length args)") auto

definition skip_known_global_options :: "ustr list \<Rightarrow> string list \<Rightarrow> string list \<Rightarrow> nat option" where
  "skip_known_global_options args valueless_options value_options =
     skip_options_from valueless_options value_options 0 args"

definition approval_subcommand_index :: "ustr \<Rightarrow> ustr list \<Rightarrow> nat option" where
  "approval_subcommand_index program args =
     (if program = lit ''git'' then
        skip_known_global_options args [''--no-pager'', ''--no-optional-locks'']
          [''-C'', ''-c'', ''--git-dir'', ''--work-tree'']
      else if program = lit ''docker'' then
        skip_known_global_options args [''--debug'', ''--tls'', ''--tlsverify'']
          [''--config'', ''--context'', ''--host'', ''-H'', ''--log-level'']
      else if args = [] then None else Some 0)"

definition approval_subcommand_token :: "ustr \<Rightarrow> ustr list \<Rightarrow> ustr option" where
  "approval_subcommand_token program args =
     (case approval_subcommand_index program args of
        None \<Rightarrow> None
      | Some i \<Rightarrow> if i < length args then Some (args ! i) else None)"

definition prefix_from_tokens :: "ustr list \<Rightarrow> ustr option" where
  "prefix_from_tokens tokens =
     (case tokens of
        [] \<Rightarrow> None
      | t # ts \<Rightarrow>
          let program = command_basename t
          in (case approval_subcommand_token program ts of
              Some subcommand \<Rightarrow> Some (program @ lit '' '' @ subcommand)
            | None \<Rightarrow> Some program))"

definition normalized_tokens_summary :: "ustr list \<Rightarrow> ustr" where
  "normalized_tokens_summary tokens =
     (case tokens of
        [] \<Rightarrow> []
      | t # rest \<Rightarrow>
          let program = command_basename t;
              args = (case approval_subcommand_index program rest of
                  Some i \<Rightarrow> drop i rest
                | None \<Rightarrow> rest)
          in join (program # args) (lit '' ''))"

subsection \<open>The read-only classifier\<close>

text \<open>The leading options that \<open>git\<close> may have: the position of the first other argument, or nothing
  when an option is refused.\<close>

fun git_skip_globals :: "ustr list \<Rightarrow> ustr list option" where
  "git_skip_globals [] = Some []"
| "git_skip_globals (arg # args) =
     (if mem_lit arg [''--no-pager'', ''--no-optional-locks''] then git_skip_globals args
      else if mem_lit arg [''-C'', ''-c'', ''--git-dir'', ''--work-tree''] then None
      else if starts_with arg (lit ''-'') then None
      else Some (arg # args))"

definition git_args_are_read_only :: "ustr list \<Rightarrow> bool" where
  "git_args_are_read_only args =
     (case git_skip_globals args of
        None \<Rightarrow> False
      | Some [] \<Rightarrow> False
      | Some (subcommand # rest) \<Rightarrow>
          if mem_lit subcommand [''diff'', ''log'', ''show'', ''shortlog'', ''status'', ''blame'', ''ls-files'',
              ''merge-base'', ''rev-parse'', ''rev-list'', ''describe'', ''cat-file'', ''for-each-ref'', ''grep'']
          then True
          else if subcommand = lit ''stash'' then rest \<noteq> [] \<and> hd rest = lit ''list''
          else if subcommand = lit ''remote'' then
            rest = [] \<or> rest = [lit ''-v''] \<or> rest = [lit ''--verbose'']
          else if subcommand = lit ''config'' then rest \<noteq> [] \<and> hd rest = lit ''--get''
          else if subcommand = lit ''reflog'' then
            \<not> list_ex (\<lambda>v. mem_lit v [''expire'', ''delete'', ''exists'']) rest
          else if subcommand = lit ''branch'' then
            rest = [] \<or> list_all (\<lambda>v. mem_lit v
              [''--list'', ''-l'', ''-a'', ''--all'', ''-r'', ''--remotes'', ''-v'', ''-vv'']) rest
          else False)"

definition docker_args_are_read_only :: "ustr list \<Rightarrow> bool" where
  "docker_args_are_read_only args =
     (args \<noteq> [] \<and> mem_lit (hd args) [''ps'', ''images'', ''logs'', ''inspect''])"

definition argv_is_read_only :: "ustr \<Rightarrow> ustr list \<Rightarrow> bool" where
  "argv_is_read_only program args =
     (let program = command_basename program
      in if mem_lit program [''pwd'', ''ls'', ''tree'', ''cat'', ''head'', ''tail'', ''wc'', ''stat'', ''file'',
              ''du'', ''df'', ''which'', ''type'', ''whereis'', ''uname''] then True
         else if mem_lit program [''rg'', ''grep''] then
           \<not> list_ex (\<lambda>a. mem_lit a [''--files-with-matches='']) args
         else if program = lit ''sed'' then
           \<not> list_ex (\<lambda>a. a = lit ''-i'' \<or> starts_with a (lit ''-i.'') \<or> a = lit ''--in-place'' \<or>
                starts_with a (lit ''--in-place='')) args
         else if program = lit ''find'' then
           \<not> list_ex (\<lambda>a. mem_lit a [''-delete'', ''-exec'', ''-execdir'', ''-ok'', ''-okdir'']) args
         else if mem_lit program [''fd'', ''fdfind''] then
           \<not> list_ex (\<lambda>a. mem_lit a [''-x'', ''--exec'', ''-X'', ''--exec-batch'', ''--list-details'']) args
         else if program = lit ''git'' then git_args_are_read_only args
         else if program = lit ''docker'' then docker_args_are_read_only args
         else if program = lit ''pyright'' then \<not> list_ex (\<lambda>a. mem_lit a [''--watch'', ''-w'']) args
         else False)"

definition shell_command_is_read_only :: "ustr \<Rightarrow> bool" where
  "shell_command_is_read_only command =
     (if newline \<in> set command \<or> chr ''`'' \<in> set command \<or> contains_str command (lit ''$('') \<or>
         chr ''>'' \<in> set command
      then False
      else (case split_shell_segments command of
          None \<Rightarrow> False
        | Some segments \<Rightarrow>
            segments \<noteq> [] \<and>
            list_all (\<lambda>segment.
              case tokenize_shell_segment segment of
                None \<Rightarrow> False
              | Some [] \<Rightarrow> False
              | Some (program # args) \<Rightarrow> argv_is_read_only program args) segments))"

subsection \<open>Approval prefixes\<close>

definition normalized_summary_matches_prefix :: "ustr \<Rightarrow> ustr \<Rightarrow> bool" where
  "normalized_summary_matches_prefix normalized prefix =
     (let prefix = trim prefix
      in prefix \<noteq> [] \<and>
         (normalized = prefix \<or>
          (case strip_prefix normalized prefix of
             None \<Rightarrow> False
           | Some suffix \<Rightarrow> suffix \<noteq> [] \<and> is_whitespace (hd suffix))))"

definition tokens_match_approval_prefix :: "ustr list \<Rightarrow> ustr \<Rightarrow> bool" where
  "tokens_match_approval_prefix tokens prefix =
     normalized_summary_matches_prefix (normalized_tokens_summary tokens) prefix"

definition summary_matches_exact_approval :: "ustr \<Rightarrow> ustr \<Rightarrow> bool" where
  "summary_matches_exact_approval summary prefix =
     (trim prefix \<noteq> [] \<and> trim summary = trim prefix)"

definition is_env_assignment :: "ustr \<Rightarrow> bool" where
  "is_env_assignment token =
     (case split_once_char (chr ''='') token of
        None \<Rightarrow> False
      | Some (name, _) \<Rightarrow>
          (case name of
             [] \<Rightarrow> False
           | first # chars \<Rightarrow>
               (first = chr ''_'' \<or> is_ascii_alphabetic first) \<and>
               list_all (\<lambda>ch. ch = chr ''_'' \<or> is_ascii_alphanumeric ch) chars))"

definition tokens_have_env_assignment_prefix :: "ustr list \<Rightarrow> bool" where
  "tokens_have_env_assignment_prefix tokens = (tokens \<noteq> [] \<and> is_env_assignment (hd tokens))"

definition command_has_prefix_rule_unsafe_syntax :: "ustr \<Rightarrow> bool" where
  "command_has_prefix_rule_unsafe_syntax command =
     (newline \<in> set command \<or> chr ''`'' \<in> set command \<or> chr ''$'' \<in> set command \<or>
      chr ''>'' \<in> set command \<or> chr ''<'' \<in> set command \<or> chr ''*'' \<in> set command \<or>
      chr ''?'' \<in> set command \<or> chr ''('' \<in> set command \<or> chr '')'' \<in> set command)"

text \<open>\<open>map(..).collect::<Option<Vec<_>>>()\<close>: nothing as soon as one element gives nothing.\<close>

fun prefix_segments_from :: "ustr list \<Rightarrow> ustr list list option" where
  "prefix_segments_from [] = Some []"
| "prefix_segments_from (segment # segments) =
     (case tokenize_shell_segment segment of
        None \<Rightarrow> None
      | Some tokens \<Rightarrow>
          if tokens_have_env_assignment_prefix tokens then None
          else map_option (\<lambda>rest. tokens # rest) (prefix_segments_from segments))"

definition shell_command_prefix_segments :: "ustr \<Rightarrow> ustr list list option" where
  "shell_command_prefix_segments command =
     (if command_has_prefix_rule_unsafe_syntax command then None
      else (case split_shell_segments command of
          None \<Rightarrow> None
        | Some segments \<Rightarrow> prefix_segments_from segments))"

definition shell_command_matches_single_approval_prefix :: "ustr \<Rightarrow> ustr \<Rightarrow> bool" where
  "shell_command_matches_single_approval_prefix command prefix =
     (case shell_command_prefix_segments command of
        None \<Rightarrow> False
      | Some segments \<Rightarrow> length segments = 1 \<and> tokens_match_approval_prefix (segments ! 0) prefix)"

definition shell_command_allowed_by_approval_prefixes :: "ustr \<Rightarrow> ustr list \<Rightarrow> bool \<Rightarrow> bool" where
  "shell_command_allowed_by_approval_prefixes command prefixes allow_read_only_segments =
     (case shell_command_prefix_segments command of
        None \<Rightarrow> False
      | Some segments \<Rightarrow>
          segments \<noteq> [] \<and>
          list_all (\<lambda>tokens.
            case tokens of
              [] \<Rightarrow> False
            | program # args \<Rightarrow>
                allow_read_only_segments \<and> argv_is_read_only program args \<or>
                list_ex (tokens_match_approval_prefix tokens) prefixes) segments)"

subsection \<open>Segments are atomic\<close>

text \<open>\<open>scan q s\<close> is the quote state after \<open>s\<close>, or nothing when \<open>s\<close> has an unquoted operator.\<close>

definition is_operator :: "uchar \<Rightarrow> bool" where
  "is_operator c \<longleftrightarrow> c = chr '';'' \<or> c = chr ''|'' \<or> c = chr ''&''"

fun scan :: "uchar option \<Rightarrow> ustr \<Rightarrow> uchar option option" where
  "scan q [] = Some q"
| "scan (Some k) (c # s) = scan (if c = k then None else Some k) s"
| "scan None (c # s) =
     (if is_quote c then scan (Some c) s else if is_operator c then None else scan None s)"

lemma scan_append: "scan q (s @ t) = (case scan q s of None \<Rightarrow> None | Some r \<Rightarrow> scan r t)"
  by (induction q s rule: scan.induct) auto

lemma not_quote_whitespace: "is_whitespace c \<Longrightarrow> \<not> is_quote c \<and> \<not> is_operator c"
  by (auto simp: is_whitespace_def is_quote_def is_operator_def)

lemma scan_None_quotes: "scan q s = Some (Some k) \<Longrightarrow> q = Some k \<or> is_quote k"
  by (induction q s rule: scan.induct) (auto split: if_splits)

lemma scan_drop_start:
  "scan None s = Some None \<Longrightarrow> scan None (dropWhile is_whitespace s) = Some None"
  by (induction s) (auto dest: not_quote_whitespace)

lemma scan_drop_end:
  "scan None s = Some None \<Longrightarrow> scan None (trim_end s) = Some None"
proof (induction s rule: rev_induct)
  case Nil
  then show ?case by (simp add: trim_end_def)
next
  case (snoc c s)
  show ?case
  proof (cases "is_whitespace c")
    case True
    from snoc.prems obtain r where r: "scan None s = Some r" "scan r [c] = Some None"
      by (auto simp: scan_append split: option.splits)
    have "r = None"
    proof (cases r)
      case (Some k)
      with r scan_None_quotes have "is_quote k" "c = k" by (fastforce split: if_splits)+
      with not_quote_whitespace [OF True] show ?thesis by simp
    qed simp
    then show ?thesis using snoc.IH r True by (simp add: trim_end_def)
  next
    case False
    then show ?thesis using snoc.prems by (simp add: trim_end_def)
  qed
qed

lemma scan_trim: "scan None s = Some None \<Longrightarrow> scan None (trim s) = Some None"
  by (simp add: trim_def trim_start_def scan_drop_start scan_drop_end)

lemma split_scanned:
  "scan q s = Some None \<Longrightarrow>
     split_segments_from q current segments s = Some (push_shell_segment segments (current @ s))"
proof (induction q s arbitrary: current rule: scan.induct)
  case (2 k c s)
  then show ?case by (cases "c = k") auto
next
  case (3 c s)
  then show ?case by (auto simp: is_operator_def split: if_splits)
qed simp

definition atomic :: "ustr \<Rightarrow> bool" where
  "atomic s \<longleftrightarrow> s \<noteq> [] \<and> trim s = s \<and> scan None s = Some None"

lemma atomic_split: "atomic s \<Longrightarrow> split_shell_segments s = Some [s]"
  by (simp add: atomic_def split_shell_segments_def split_scanned push_shell_segment_def)

lemma push_atomic:
  "list_all atomic segments \<Longrightarrow> scan None current = Some None \<Longrightarrow>
     list_all atomic (push_shell_segment segments current)"
  by (auto simp: push_shell_segment_def atomic_def scan_trim Let_def)

lemma split_segments_atomic:
  assumes "split_segments_from q current segments s = Some out"
    and "scan None current = Some q" "list_all atomic segments"
  shows "list_all atomic out"
  using assms
proof (induction q current segments s rule: split_segments_from.induct)
  case (1 q current segments)
  then show ?case by (auto simp: push_atomic split: if_splits)
next
  case (2 active current segments c cs)
  then show ?case by (auto simp: scan_append split: if_splits)
next
  case (3 current segments c cs)
  then show ?case
    by (auto simp: scan_append push_atomic is_operator_def split: if_splits list.splits)
qed

text \<open>
  Each segment the splitter returns is one command: it is trimmed and not empty, and splitting
  it again gives back the segment alone, so it contains no operator outside quotes.
\<close>

theorem segments_are_single_commands:
  assumes "split_shell_segments command = Some segments" and "segment \<in> set segments"
  shows "segment \<noteq> [] \<and> trim segment = segment \<and> split_shell_segments segment = Some [segment]"
proof -
  have "list_all atomic segments"
    using split_segments_atomic assms(1) unfolding split_shell_segments_def by fastforce
  with assms(2) have "atomic segment" by (simp add: list_all_iff)
  then show ?thesis using atomic_split by (auto simp: atomic_def)
qed

theorem segments_are_single_commands_witness:
  "lit ''rg \"a;b\" x'' \<noteq> [] \<and> trim (lit ''rg \"a;b\" x'') = lit ''rg \"a;b\" x'' \<and>
   split_shell_segments (lit ''rg \"a;b\" x'') = Some [lit ''rg \"a;b\" x'']"
proof -
  have "split_shell_segments (lit ''ls | rg \"a;b\" x && pwd'') =
      Some [lit ''ls'', lit ''rg \"a;b\" x'', lit ''pwd'']"
    by code_simp
  from segments_are_single_commands [OF this, of "lit ''rg \"a;b\" x''"] show ?thesis by simp
qed

subsection \<open>The shell's own segments\<close>

text \<open>
  How a POSIX shell cuts a command line: as above, and in addition a backslash takes the special
  meaning from the next character outside quotes and inside double quotes. This is the reference
  the splitter is compared with; on commands without a backslash the two agree.
\<close>

fun posix_segments_from :: "uchar option \<Rightarrow> ustr \<Rightarrow> ustr list \<Rightarrow> ustr \<Rightarrow> ustr list option" where
  "posix_segments_from q current segments [] =
     (if q \<noteq> None then None else Some (push_shell_segment segments current))"
| "posix_segments_from (Some active) current segments (c # cs) =
     (if c = 92 \<and> active = 34 then
        (case cs of
           d # ds \<Rightarrow> posix_segments_from (Some active) (current @ [c, d]) segments ds
         | [] \<Rightarrow> posix_segments_from (Some active) (current @ [c]) segments [])
      else posix_segments_from (if c = active then None else Some active) (current @ [c]) segments cs)"
| "posix_segments_from None current segments (c # cs) =
     (if c = 92 then
        (case cs of
           d # ds \<Rightarrow> posix_segments_from None (current @ [c, d]) segments ds
         | [] \<Rightarrow> posix_segments_from None (current @ [c]) segments [])
      else if is_quote c then posix_segments_from (Some c) (current @ [c]) segments cs
      else if c = chr '';'' \<or> c = chr ''|'' then
        posix_segments_from None [] (push_shell_segment segments current) cs
      else if c = chr ''&'' then
        (case cs of
           d # ds \<Rightarrow> if d = chr ''&'' then posix_segments_from None [] (push_shell_segment segments current) ds
                     else None
         | [] \<Rightarrow> None)
      else posix_segments_from None (current @ [c]) segments cs)"

definition posix_segments :: "ustr \<Rightarrow> ustr list option" where
  "posix_segments command = posix_segments_from None [] [] command"

lemma posix_segments_from_no_backslash:
  "92 \<notin> set s \<Longrightarrow> posix_segments_from q current segments s = split_segments_from q current segments s"
  by (induction q current segments s rule: split_segments_from.induct) (auto split: list.splits)

text \<open>What a segment may run without asking: a listed program without a listed writing option.\<close>

definition listed_programs :: "string list" where
  "listed_programs =
     [''pwd'', ''ls'', ''tree'', ''cat'', ''head'', ''tail'', ''wc'', ''stat'', ''file'', ''du'', ''df'',
      ''which'', ''type'', ''whereis'', ''uname'', ''rg'', ''grep'', ''sed'', ''find'', ''fd'', ''fdfind'',
      ''git'', ''docker'', ''pyright'']"

definition writing_options :: "ustr \<Rightarrow> string list" where
  "writing_options program =
     (if program = lit ''sed'' then [''-i'', ''--in-place'']
      else if program = lit ''find'' then [''-delete'', ''-exec'', ''-execdir'', ''-ok'', ''-okdir'']
      else if program = lit ''fd'' \<or> program = lit ''fdfind'' then [''-x'', ''--exec'', ''-X'', ''--exec-batch'']
      else if program = lit ''git'' then []
      else [])"

definition git_subcommands :: "string list" where
  "git_subcommands =
     [''diff'', ''log'', ''show'', ''shortlog'', ''status'', ''blame'', ''ls-files'', ''merge-base'',
      ''rev-parse'', ''rev-list'', ''describe'', ''cat-file'', ''for-each-ref'', ''grep'', ''stash'', ''remote'',
      ''config'', ''reflog'', ''branch'']"

lemma mem_lit_simps [simp]:
  "mem_lit a [] = False" "mem_lit a (l # ls) = (a = lit l \<or> mem_lit a ls)"
  by (simp_all add: mem_lit_def)

lemma git_skip_globals_Some:
  "git_skip_globals args = Some rest \<Longrightarrow>
     \<exists>pre. args = pre @ rest \<and> (\<forall>a \<in> set pre. mem_lit a [''--no-pager'', ''--no-optional-locks''])"
proof (induction args)
  case (Cons a args)
  show ?case
  proof (cases "mem_lit a [''--no-pager'', ''--no-optional-locks'']")
    case True
    with Cons obtain pre where "args = pre @ rest" "\<forall>b \<in> set pre. mem_lit b [''--no-pager'', ''--no-optional-locks'']"
      by auto
    with True show ?thesis by (intro exI [of _ "a # pre"]) simp
  next
    case False
    with Cons.prems have "rest = a # args" by (simp split: if_splits)
    then show ?thesis by (intro exI [of _ "[]"]) simp
  qed
qed simp

lemma argv_read_only_listed: "argv_is_read_only p args \<Longrightarrow> mem_lit (command_basename p) listed_programs"
  by (auto simp: argv_is_read_only_def listed_programs_def Let_def split: if_splits)

lemma argv_read_only_options:
  "argv_is_read_only p args \<Longrightarrow> a \<in> set args \<Longrightarrow> \<not> mem_lit a (writing_options (command_basename p))"
  by (auto simp: argv_is_read_only_def writing_options_def Let_def list_ex_iff split: if_splits)

lemma argv_read_only_git:
  assumes "argv_is_read_only p args" "command_basename p = lit ''git''"
  shows "\<exists>pre sub rest. args = pre @ sub # rest \<and>
     (\<forall>a \<in> set pre. mem_lit a [''--no-pager'', ''--no-optional-locks'']) \<and> mem_lit sub git_subcommands"
proof -
  have g: "git_args_are_read_only args" using assms by (simp add: argv_is_read_only_def)
  then obtain sub rest where sr: "git_skip_globals args = Some (sub # rest)"
    by (auto simp: git_args_are_read_only_def split: option.splits list.splits)
  then have "mem_lit sub git_subcommands"
    using g by (auto simp: git_args_are_read_only_def git_subcommands_def split: if_splits)
  with git_skip_globals_Some [OF sr] show ?thesis by blast
qed

definition git_query :: "ustr list \<Rightarrow> bool" where
  "git_query args \<longleftrightarrow>
     (case dropWhile (\<lambda>a. mem_lit a [''--no-pager'', ''--no-optional-locks'']) args of
        [] \<Rightarrow> False
      | sub # _ \<Rightarrow> mem_lit sub git_subcommands)"

definition query_tokens :: "ustr list \<Rightarrow> bool" where
  "query_tokens tokens \<longleftrightarrow>
     (case tokens of
        [] \<Rightarrow> False
      | program # args \<Rightarrow>
          mem_lit (command_basename program) listed_programs \<and>
          list_all (\<lambda>a. \<not> mem_lit a (writing_options (command_basename program))) args \<and>
          (command_basename program = lit ''git'' \<longrightarrow> git_query args))"

lemma argv_read_only_query:
  assumes "argv_is_read_only program args"
  shows "query_tokens (program # args)"
proof -
  have "git_query args" if g: "command_basename program = lit ''git''"
  proof -
    obtain pre sub rest where a: "args = pre @ sub # rest"
      "\<forall>a \<in> set pre. mem_lit a [''--no-pager'', ''--no-optional-locks'']" "mem_lit sub git_subcommands"
      using argv_read_only_git [OF assms g] by blast
    have "\<not> mem_lit sub [''--no-pager'', ''--no-optional-locks'']"
      using a(3) by (auto simp: git_subcommands_def)
    then have "dropWhile (\<lambda>a. mem_lit a [''--no-pager'', ''--no-optional-locks'']) args = sub # rest"
      using a(1,2) by (simp add: dropWhile_append)
    with a(3) show ?thesis by (simp add: git_query_def)
  qed
  then show ?thesis
    using argv_read_only_listed [OF assms] argv_read_only_options [OF assms]
    by (simp add: query_tokens_def list_all_iff)
qed



text \<open>
  With a backslash the splitter and the shell part ways: the splitter takes an escaped quote
  for the start of a quotation and sees one segment of \<open>ls\<close>, which it accepts, where the shell
  runs \<open>rm\<close> as a segment of its own that the classifier would refuse.
\<close>

definition escaped_quote_command :: ustr where
  "escaped_quote_command = lit ''ls '' @ [92, 34] @ lit ''; rm -rf src; ls '' @ [92, 34]"

theorem escaped_quote_hides_commands:
  "shell_command_is_read_only escaped_quote_command \<and>
   (\<exists>a b. posix_segments escaped_quote_command = Some [a, lit ''rm -rf src'', b]) \<and>
   \<not> shell_command_is_read_only (lit ''rm -rf src'')"
proof (intro conjI exI)
  show "shell_command_is_read_only escaped_quote_command" by code_simp
  show "posix_segments escaped_quote_command =
      Some [lit ''ls '' @ [92, 34], lit ''rm -rf src'', lit ''ls '' @ [92, 34]]" by code_simp
  show "\<not> shell_command_is_read_only (lit ''rm -rf src'')" by code_simp
qed

text \<open>Options that write or execute and are not on the refused lists.\<close>

lemma read_only_accepts_writers:
  "shell_command_is_read_only (lit ''sed -ibak s/a/b/ file'')"
  "shell_command_is_read_only (lit ''find . -fprint out'')"
  "shell_command_is_read_only (lit ''fd --exec=rm x'')"
  "shell_command_is_read_only (lit ''git diff --output=out'')"
  "shell_command_is_read_only (lit ''rg --pre=./run x'')"
  by code_simp+

subsection \<open>Quoting\<close>

text \<open>\<open>quote_token\<close> writes a token in single quotes, the form a caller uses to pass it literally.\<close>

definition quote_token :: "ustr \<Rightarrow> ustr" where
  "quote_token t = [39] @ t @ [39]"

lemma tokenize_quoted:
  "39 \<notin> set t \<Longrightarrow>
     tokenize_from (Some 39) current tokens (t @ 39 # rest) = tokenize_from None (current @ t) tokens rest"
  by (induction t arbitrary: current) auto

lemma tokenize_join_quoted:
  "\<forall>t \<in> set ts. t \<noteq> [] \<and> 39 \<notin> set t \<Longrightarrow>
     tokenize_from None [] tokens (join (map quote_token ts) (lit '' '')) = Some (tokens @ ts)"
proof (induction ts arbitrary: tokens)
  case Nil
  then show ?case by simp
next
  case (Cons t ts)
  show ?case
  proof (cases "ts = []")
    case True
    then show ?thesis using Cons.prems tokenize_quoted [of t "[]" tokens "[]"]
      by (simp add: quote_token_def is_quote_def)
  next
    case False
    have j: "join (map quote_token (t # ts)) (lit '' '')
        = 39 # t @ 39 # 32 # join (map quote_token ts) (lit '' '')"
      using False by (simp add: join_Cons quote_token_def lit_simps)
    show ?thesis
      unfolding j using Cons.prems Cons.IH [of "tokens @ [t]"]
      by (simp add: tokenize_quoted is_quote_def is_whitespace_def)
  qed
qed

text \<open>
  Quoting and tokenizing are inverse: a list of non-empty tokens without single quotes, each
  written in single quotes and separated by blanks, is read back token for token, whatever
  operators, blanks or backslashes the tokens contain.
\<close>

theorem tokenizer_inverts_quoting:
  assumes "\<forall>t \<in> set tokens. t \<noteq> [] \<and> 39 \<notin> set t"
  shows "tokenize_shell_segment (join (map quote_token tokens) (lit '' '')) = Some tokens"
  using tokenize_join_quoted [OF assms, of "[]"] by (simp add: tokenize_shell_segment_def)

theorem tokenizer_inverts_quoting_witness:
  "tokenize_shell_segment (join (map quote_token [lit ''rg'', lit ''a; b'', [92, 34]]) (lit '' ''))
     = Some [lit ''rg'', lit ''a; b'', [92, 34]]"
  by (rule tokenizer_inverts_quoting) (simp add: lit_simps)

subsection \<open>Approvals\<close>

definition plain_argument :: "string list \<Rightarrow> string list \<Rightarrow> ustr \<Rightarrow> bool" where
  "plain_argument valueless vals a \<longleftrightarrow>
     \<not> starts_with a (lit ''-'') \<and> \<not> mem_lit a valueless \<and> \<not> mem_lit a vals"

lemma skip_options_Some:
  "skip_options_from valueless vals i args = Some j \<Longrightarrow>
     \<exists>k. j = i + k \<and> k < length args \<and> plain_argument valueless vals (args ! k)"
proof (induction valueless vals i args rule: skip_options_from.induct)
  case (2 valueless vals i arg args)
  have one: "\<exists>k. j = i + k \<and> k < length (arg # args) \<and> plain_argument valueless vals ((arg # args) ! k)"
    if "\<exists>k. j = i + 1 + k \<and> k < length args \<and> plain_argument valueless vals (args ! k)"
  proof -
    from that obtain k where "j = i + 1 + k" "k < length args" "plain_argument valueless vals (args ! k)" by blast
    then show ?thesis by (intro exI [of _ "Suc k"]) simp
  qed
  have two: "\<exists>k. j = i + k \<and> k < length (arg # args) \<and> plain_argument valueless vals ((arg # args) ! k)"
    if "\<exists>k. j = i + 2 + k \<and> k < length (drop 1 args) \<and> plain_argument valueless vals (drop 1 args ! k)"
  proof -
    from that obtain k where "j = i + 2 + k" "k < length args - 1" "plain_argument valueless vals (drop 1 args ! k)" by auto
    then show ?thesis by (intro exI [of _ "Suc (Suc k)"]) (simp add: nth_tl drop_Suc)
  qed
  note prem = "2.prems" [unfolded skip_options_from.simps(2)]
  show ?case
  proof (cases "mem_lit arg valueless")
    case True
    then show ?thesis using "2.IH"(1) prem one by simp
  next
    case F1: False
    show ?thesis
    proof (cases "mem_lit arg vals")
      case True
      then show ?thesis using "2.IH"(2) prem two F1 by simp
    next
      case F2: False
      show ?thesis
      proof (cases "list_ex (\<lambda>opt. starts_with arg (lit opt @ lit ''='')) vals")
        case True
        then show ?thesis using "2.IH"(3) prem one F1 F2 by simp
      next
        case F3: False
        show ?thesis
        proof (cases "starts_with arg (lit ''-'')")
          case True
          then show ?thesis using "2.IH"(4) prem one F1 F2 F3 by simp
        next
          case False
          then show ?thesis using prem F1 F2 F3
            by (intro exI [of _ 0]) (simp add: plain_argument_def)
        qed
      qed
    qed
  qed
qed simp

text \<open>
  The option skipper returns the position of an argument that exists and is neither an option
  nor one of the listed ones.
\<close>

theorem skipped_options_end_at_argument:
  assumes "skip_known_global_options args valueless vals = Some i"
  shows "i < length args \<and> \<not> starts_with (args ! i) (lit ''-'') \<and>
     \<not> mem_lit (args ! i) valueless \<and> \<not> mem_lit (args ! i) vals"
  using skip_options_Some [of valueless vals 0 args i] assms
  by (auto simp: skip_known_global_options_def plain_argument_def)

theorem skipped_options_end_at_argument_witness:
  "(2 :: nat) < length [lit ''-C'', lit ''dir'', lit ''push''] \<and>
   \<not> starts_with ([lit ''-C'', lit ''dir'', lit ''push''] ! 2) (lit ''-'')"
proof -
  have "skip_known_global_options [lit ''-C'', lit ''dir'', lit ''push''] [''--no-pager''] [''-C''] = Some 2"
    by code_simp
  from skipped_options_end_at_argument [OF this] show ?thesis by blast
qed

lemma prefix_segments_from_Some:
  "prefix_segments_from segments = Some out \<Longrightarrow>
     list_all2 (\<lambda>s tokens. tokenize_shell_segment s = Some tokens \<and> \<not> tokens_have_env_assignment_prefix tokens)
       segments out"
  by (induction segments arbitrary: out) (auto split: option.splits if_splits)

lemma summary_extends_prefix:
  "normalized_summary_matches_prefix n p \<longleftrightarrow>
     trim p \<noteq> [] \<and> (\<exists>rest. n = trim p @ rest \<and> (rest = [] \<or> is_whitespace (hd rest)))"
  by (auto simp: normalized_summary_matches_prefix_def Let_def strip_prefix_Some
      split: option.splits dest: strip_prefix_None [THEN iffD1] simp: starts_with_iff)

text \<open>
  A command that the approved prefixes cover, without the read-only allowance, consists of
  segments that each extend an approved prefix at a word boundary; none starts with an assignment
  of an environment variable.
\<close>

theorem covered_commands_extend_prefixes:
  assumes "shell_command_allowed_by_approval_prefixes command prefixes False"
  shows "\<exists>segments. split_shell_segments command = Some segments \<and> segments \<noteq> [] \<and>
     list_all (\<lambda>segment. \<exists>tokens p rest.
        tokenize_shell_segment segment = Some tokens \<and> \<not> tokens_have_env_assignment_prefix tokens \<and>
        p \<in> set prefixes \<and> trim p \<noteq> [] \<and> normalized_tokens_summary tokens = trim p @ rest \<and>
        (rest = [] \<or> is_whitespace (hd rest))) segments"
proof -
  obtain out where o: "shell_command_prefix_segments command = Some out" "out \<noteq> []"
    and cs: "list_all (\<lambda>tokens. case tokens of [] \<Rightarrow> False
      | program # args \<Rightarrow> False \<and> argv_is_read_only program args \<or>
          list_ex (tokens_match_approval_prefix tokens) prefixes) out"
    using assms unfolding shell_command_allowed_by_approval_prefixes_def
    by (cases "shell_command_prefix_segments command") simp_all
  have all: "list_all (\<lambda>tokens. tokens \<noteq> [] \<and> list_ex (tokens_match_approval_prefix tokens) prefixes) out"
    using cs by (rule list.pred_mono_strong) (simp split: list.splits)
  obtain segments where s: "split_shell_segments command = Some segments"
    "prefix_segments_from segments = Some out"
    using o(1) by (auto simp: shell_command_prefix_segments_def split: if_splits option.splits)
  note P = prefix_segments_from_Some [OF s(2)]
  have "segments \<noteq> []" using P o(2) by auto
  moreover have "list_all (\<lambda>segment. \<exists>tokens p rest.
        tokenize_shell_segment segment = Some tokens \<and> \<not> tokens_have_env_assignment_prefix tokens \<and>
        p \<in> set prefixes \<and> trim p \<noteq> [] \<and> normalized_tokens_summary tokens = trim p @ rest \<and>
        (rest = [] \<or> is_whitespace (hd rest))) segments"
    using P all
  proof (induction segments out rule: list_all2_induct)
    case (Cons seg segs tokens out)
    then obtain p where "p \<in> set prefixes" "normalized_summary_matches_prefix (normalized_tokens_summary tokens) p"
      by (auto simp: list_ex_iff tokens_match_approval_prefix_def)
    with Cons show ?case unfolding summary_extends_prefix by auto
  qed simp
  ultimately show ?thesis using s(1) by blast
qed

theorem covered_commands_extend_prefixes_witness:
  "\<exists>segments. split_shell_segments (lit ''cargo test -q && git -C x status'') = Some segments \<and> segments \<noteq> []"
proof -
  have "shell_command_allowed_by_approval_prefixes (lit ''cargo test -q && git -C x status'')
      [lit ''cargo test'', lit ''git status''] False"
    by code_simp
  from covered_commands_extend_prefixes [OF this] show ?thesis by blast
qed

end
