(* ===== verification/ApplyPatch.thy ===== *)
theory ApplyPatch
  imports Prelude
begin

section \<open>The structured patch format\<close>

text \<open>
  The engine of the \<open>rara-apply-patch\<close> crate (\<open>src/crates/rara-apply-patch/src/lib.rs\<close>,
  \<open>preview.rs\<close>): parsing a patch, checking its hunks, locating each hunk in the text of a file and
  rewriting the file, the statistics of an action, the delta of what was applied, and the preview.
  The index loops of the parser are recursions over the lines that are left; \<open>usize\<close> counters are
  naturals, as none can exceed the number of lines in memory. \<open>char::is_alphabetic\<close> is the
  parameter \<open>alphabetic\<close>.
\<close>

subsection \<open>Data\<close>

datatype patch_error = InvalidInput ustr | ExecutionFailed ustr

datatype diff_line_kind = ContextLine | AdditionLine | RemovalLine

record diff_line =
  dl_kind :: diff_line_kind
  dl_text :: ustr

record chunk =
  ch_lines :: "diff_line list"

datatype patch_op =
    AddOp ustr "ustr list"
  | DeleteOp ustr
  | UpdateOp ustr "ustr option" "chunk list"

fun patch_op_path :: "patch_op \<Rightarrow> ustr" where
  "patch_op_path (AddOp path _) = path"
| "patch_op_path (DeleteOp path) = path"
| "patch_op_path (UpdateOp path _ _) = path"

record patch_stats =
  ps_hunks_applied :: nat
  ps_added_lines :: nat
  ps_removed_lines :: nat

definition zero_stats :: patch_stats where
  "zero_stats = \<lparr>ps_hunks_applied = 0, ps_added_lines = 0, ps_removed_lines = 0\<rparr>"

datatype patch_change =
    AddChange ustr ustr nat
  | DeleteChange ustr ustr nat
  | UpdateChange ustr "ustr option" ustr ustr patch_stats

record patch_action_stats =
  as_files_changed :: nat
  as_hunks_applied :: nat
  as_added_lines :: nat
  as_removed_lines :: nat
  as_created_files :: "ustr list"
  as_deleted_files :: "ustr list"
  as_moved_files :: "(ustr \<times> ustr) list"
  as_updated_files :: "ustr list"

definition zero_action_stats :: patch_action_stats where
  "zero_action_stats =
     \<lparr>as_files_changed = 0, as_hunks_applied = 0, as_added_lines = 0, as_removed_lines = 0,
      as_created_files = [], as_deleted_files = [], as_moved_files = [], as_updated_files = []\<rparr>"

record patch_action =
  pa_patch :: ustr
  pa_changes :: "patch_change list"
  pa_stats :: patch_action_stats
  pa_preview :: "ustr \<times> bool"

definition change_summary :: "patch_change \<Rightarrow> ustr" where
  "change_summary change =
     (case change of
        AddChange path _ _ \<Rightarrow> lit ''Add file '' @ path
      | DeleteChange path _ _ \<Rightarrow> lit ''Delete file '' @ path
      | UpdateChange path move_to _ _ _ \<Rightarrow>
          lit ''Update file '' @ path @
          (case move_to of Some target \<Rightarrow> lit '' -> '' @ target | None \<Rightarrow> []))"

definition patch_action_summary :: "patch_action \<Rightarrow> ustr list" where
  "patch_action_summary action = map change_summary (pa_changes action)"

subsection \<open>The applied delta\<close>

datatype applied_file_change =
    AppliedAdd ustr "ustr option"
  | AppliedDelete ustr
  | AppliedUpdate "ustr option" ustr "ustr option" ustr

record applied_change =
  ac_path :: ustr
  ac_change :: applied_file_change

record applied_delta =
  ad_changes :: "applied_change list"
  ad_exact :: bool

definition empty_delta :: applied_delta where
  "empty_delta = \<lparr>ad_changes = [], ad_exact = True\<rparr>"

definition delta_is_empty :: "applied_delta \<Rightarrow> bool" where
  "delta_is_empty d = (ad_changes d = [])"

definition mark_inexact :: "applied_delta \<Rightarrow> applied_delta" where
  "mark_inexact d = d\<lparr>ad_exact := False\<rparr>"

definition push_change :: "applied_delta \<Rightarrow> applied_change \<Rightarrow> applied_delta \<times> nat" where
  "push_change d c = (d\<lparr>ad_changes := ad_changes d @ [c]\<rparr>, length (ad_changes d))"

text \<open>An index out of range panics.\<close>

definition replace_change :: "applied_delta \<Rightarrow> nat \<Rightarrow> applied_change \<Rightarrow> applied_delta option" where
  "replace_change d i c =
     (if i < length (ad_changes d) then Some (d\<lparr>ad_changes := (ad_changes d)[i := c]\<rparr>) else None)"

subsection \<open>Parsing\<close>

definition from_marker :: "uchar \<Rightarrow> diff_line_kind option" where
  "from_marker marker =
     (if marker = 32 then Some ContextLine
      else if marker = 43 then Some AdditionLine
      else if marker = 45 then Some RemovalLine
      else None)"

text \<open>The lines of an added file, up to the next directive; the first list is what is gathered.\<close>

fun parse_add_lines :: "ustr list \<Rightarrow> ustr list \<Rightarrow> patch_error + ustr list \<times> ustr list" where
  "parse_add_lines acc [] = Inr (acc, [])"
| "parse_add_lines acc (l # ls) =
     (if starts_with l (lit ''*** '') then Inr (acc, l # ls)
      else (case strip_prefix l (lit ''+'') of
          None \<Rightarrow> Inl (InvalidInput (lit ''Add file entries must start with '' @ [39, 43, 39] @ lit '': '' @ l))
        | Some text \<Rightarrow> parse_add_lines (acc @ [text]) ls))"

definition take_chunk :: "chunk list \<Rightarrow> chunk option \<Rightarrow> chunk list" where
  "take_chunk chunks current = (case current of None \<Rightarrow> chunks | Some c \<Rightarrow> chunks @ [c])"

definition push_line :: "chunk option \<Rightarrow> diff_line \<Rightarrow> chunk" where
  "push_line current line =
     (case current of
        None \<Rightarrow> \<lparr>ch_lines = [line]\<rparr>
      | Some c \<Rightarrow> c\<lparr>ch_lines := ch_lines c @ [line]\<rparr>)"

fun parse_chunks :: "chunk list \<Rightarrow> chunk option \<Rightarrow> ustr list \<Rightarrow> patch_error + chunk list \<times> ustr list" where
  "parse_chunks chunks current [] = Inr (take_chunk chunks current, [])"
| "parse_chunks chunks current (l # ls) =
     (if starts_with l (lit ''*** '') then Inr (take_chunk chunks current, l # ls)
      else if starts_with l (lit ''@@'') then
        parse_chunks (take_chunk chunks current) (Some \<lparr>ch_lines = []\<rparr>) ls
      else if l = lit ''*** End of File'' then parse_chunks chunks current ls
      else (case l of
          [] \<Rightarrow> Inl (InvalidInput (lit ''Unexpected empty patch line''))
        | marker # text \<Rightarrow>
            (case from_marker marker of
               None \<Rightarrow> Inl (InvalidInput (lit ''Unexpected patch line: '' @ l))
             | Some kind \<Rightarrow>
                 parse_chunks chunks (Some (push_line current \<lparr>dl_kind = kind, dl_text = text\<rparr>)) ls)))"

definition parse_move :: "ustr list \<Rightarrow> ustr option \<times> ustr list" where
  "parse_move ls =
     (case ls of
        [] \<Rightarrow> (None, [])
      | l # rest \<Rightarrow>
          (case strip_prefix l (lit ''*** Move to: '') of
             Some target \<Rightarrow> (Some target, rest)
           | None \<Rightarrow> (None, ls)))"

lemma parse_add_lines_length: "parse_add_lines acc ls = Inr (out, rest) \<Longrightarrow> length rest \<le> length ls"
  by (induction acc ls rule: parse_add_lines.induct) (auto split: if_splits option.splits)

lemma parse_chunks_length: "parse_chunks chunks current ls = Inr (out, rest) \<Longrightarrow> length rest \<le> length ls"
proof (induction chunks current ls rule: parse_chunks.induct)
  case (2 chunks current l ls)
  show ?case
  proof (cases "starts_with l (lit ''*** '')")
    case True
    then show ?thesis using "2.prems" by auto
  next
    case F1: False
    show ?thesis
    proof (cases "starts_with l (lit ''@@'')")
      case True
      then show ?thesis using "2.IH"(1) "2.prems" F1 by simp
    next
      case F2: False
      show ?thesis
      proof (cases "l = lit ''*** End of File''")
        case True
        then show ?thesis using "2.IH"(2) "2.prems" F1 F2 by simp
      next
        case F3: False
        with "2.prems" F1 F2 obtain m t k where l: "l = m # t" "from_marker m = Some k"
          "parse_chunks chunks (Some (push_line current \<lparr>dl_kind = k, dl_text = t\<rparr>)) ls = Inr (out, rest)"
          by (auto split: list.splits option.splits)
        show ?thesis using "2.IH"(3) [OF F1 F2 F3 l(1,2) l(3)] by simp
      qed
    qed
  qed
qed simp

lemma parse_move_length: "(move_to, rest) = parse_move ls \<Longrightarrow> length rest \<le> length ls"
  by (auto simp: parse_move_def split: list.splits option.splits)

text \<open>The main loop, on the lines from the current index: it stops before the last line.\<close>

function parse_ops :: "patch_op list \<Rightarrow> ustr list \<Rightarrow> patch_error + patch_op list" where
  "parse_ops ops [] = Inr ops"
| "parse_ops ops [l] = Inr ops"
| "parse_ops ops (l # l2 # ls) =
     (case strip_prefix l (lit ''*** Add File: '') of
        Some path \<Rightarrow>
          (case parse_add_lines [] (l2 # ls) of
             Inl e \<Rightarrow> Inl e
           | Inr (add_lines, rest) \<Rightarrow> parse_ops (ops @ [AddOp path add_lines]) rest)
      | None \<Rightarrow>
          (case strip_prefix l (lit ''*** Delete File: '') of
             Some path \<Rightarrow> parse_ops (ops @ [DeleteOp path]) (l2 # ls)
           | None \<Rightarrow>
               (case strip_prefix l (lit ''*** Update File: '') of
                  Some path \<Rightarrow>
                    (case parse_move (l2 # ls) of
                       (move_to, rest) \<Rightarrow>
                         (case parse_chunks [] None rest of
                            Inl e \<Rightarrow> Inl e
                          | Inr (chunks, rest') \<Rightarrow> parse_ops (ops @ [UpdateOp path move_to chunks]) rest'))
                | None \<Rightarrow> Inl (InvalidInput (lit ''Unexpected patch directive: '' @ l)))))"
  by pat_completeness auto
termination
  by (relation "measure (\<lambda>(_, ls). length ls)")
    (fastforce dest: parse_add_lines_length parse_chunks_length parse_move_length)+

definition parse_patch :: "ustr \<Rightarrow> patch_error + patch_op list" where
  "parse_patch patch =
     (let ls = lines patch
      in if ls = [] \<or> hd ls \<noteq> lit ''*** Begin Patch''
         then Inl (InvalidInput (lit ''Patch must start with *** Begin Patch''))
         else if last ls \<noteq> lit ''*** End Patch''
         then Inl (InvalidInput (lit ''Patch must end with *** End Patch''))
         else parse_ops [] (tl ls))"

subsection \<open>Validation\<close>

fun validate_chunks :: "ustr \<Rightarrow> chunk list \<Rightarrow> patch_error + unit" where
  "validate_chunks path [] = Inr ()"
| "validate_chunks path (c # cs) =
     (if list_all (\<lambda>l. dl_kind l = AdditionLine) (ch_lines c)
      then Inl (ExecutionFailed (lit ''Patch hunk for '' @ path @
             lit '' must include at least one context or removed line''))
      else validate_chunks path cs)"

fun validate_patch_update_context :: "patch_op list \<Rightarrow> patch_error + unit" where
  "validate_patch_update_context [] = Inr ()"
| "validate_patch_update_context (op # ops) =
     (case op of
        UpdateOp path _ chunks \<Rightarrow>
          if chunks = []
          then Inl (ExecutionFailed (lit ''Update patch for '' @ path @ lit '' must include at least one hunk''))
          else (case validate_chunks path chunks of
              Inl e \<Rightarrow> Inl e
            | Inr _ \<Rightarrow> validate_patch_update_context ops)
      | _ \<Rightarrow> validate_patch_update_context ops)"

subsection \<open>Locating a hunk\<close>

definition split_lines :: "ustr \<Rightarrow> ustr list" where
  "split_lines text = lines text"

definition join_lines :: "ustr list \<Rightarrow> ustr" where
  "join_lines ls = (if ls = [] then [] else join ls [newline] @ [newline])"

definition normalise_char :: "uchar \<Rightarrow> uchar" where
  "normalise_char c =
     (if 0x2010 \<le> c \<and> c \<le> 0x2015 \<or> c = 0x2212 then 45
      else if 0x2018 \<le> c \<and> c \<le> 0x201B then 39
      else if 0x201C \<le> c \<and> c \<le> 0x201F then 34
      else if c = 0xA0 \<or> 0x2002 \<le> c \<and> c \<le> 0x200A \<or> c = 0x202F \<or> c = 0x205F \<or> c = 0x3000 then 32
      else c)"

definition normalise_unicode :: "ustr \<Rightarrow> ustr" where
  "normalise_unicode s = map normalise_char (trim s)"

text \<open>The slices of the file that a pattern is compared with, and one pass of the search.\<close>

definition slice_matches :: "(ustr \<Rightarrow> ustr) \<Rightarrow> ustr list \<Rightarrow> ustr list \<Rightarrow> nat \<Rightarrow> bool" where
  "slice_matches norm ls pattern i \<longleftrightarrow> map norm (take (length pattern) (drop i ls)) = map norm pattern"

definition search_pass :: "(ustr \<Rightarrow> ustr) \<Rightarrow> ustr list \<Rightarrow> ustr list \<Rightarrow> nat \<Rightarrow> nat option" where
  "search_pass norm ls pattern search_start =
     find (slice_matches norm ls pattern) [search_start ..< length ls - length pattern + 1]"

definition seek_sequence :: "ustr list \<Rightarrow> ustr list \<Rightarrow> nat \<Rightarrow> bool \<Rightarrow> nat option" where
  "seek_sequence ls pattern start eof =
     (if pattern = [] then Some start
      else if length ls < length pattern then None
      else let search_start = (if eof \<and> length pattern \<le> length ls then length ls - length pattern else start)
        in (case search_pass (\<lambda>s. s) ls pattern search_start of
            Some i \<Rightarrow> Some i
          | None \<Rightarrow>
              (case search_pass trim_end ls pattern search_start of
                 Some i \<Rightarrow> Some i
               | None \<Rightarrow>
                   (case search_pass trim ls pattern search_start of
                      Some i \<Rightarrow> Some i
                    | None \<Rightarrow> search_pass normalise_unicode ls pattern search_start))))"

subsection \<open>Quotes\<close>

definition is_opening_context :: "ustr \<Rightarrow> nat \<Rightarrow> bool" where
  "is_opening_context chars pos =
     (if pos = 0 then True
      else chars ! (pos - 1) \<in> {32, 9, 10, 40, 91, 123, 0x2014, 0x2013})"

definition quote_char :: "(uchar \<Rightarrow> bool) \<Rightarrow> bool \<Rightarrow> bool \<Rightarrow> ustr \<Rightarrow> nat \<Rightarrow> uchar \<Rightarrow> uchar" where
  "quote_char alphabetic has_curly_double has_curly_single chars i ch =
     (if has_curly_double \<and> ch = 34 then
        if is_opening_context chars i then 0x201C else 0x201D
      else if has_curly_single \<and> ch = 39 then
        let prev_is_letter = 0 < i \<and> alphabetic (chars ! (i - 1));
            next_is_letter = i + 1 < length chars \<and> alphabetic (chars ! (i + 1))
        in if prev_is_letter \<and> next_is_letter then 0x2019
           else if is_opening_context chars i then 0x2018 else 0x2019
      else ch)"

definition preserve_file_quote_style :: "(uchar \<Rightarrow> bool) \<Rightarrow> ustr list \<Rightarrow> ustr list \<Rightarrow> ustr list" where
  "preserve_file_quote_style alphabetic actual new_lines =
     (let has_curly_double = list_ex (\<lambda>l. 0x201C \<in> set l \<or> 0x201D \<in> set l) actual;
          has_curly_single = list_ex (\<lambda>l. 0x2018 \<in> set l \<or> 0x2019 \<in> set l) actual
      in if \<not> has_curly_double \<and> \<not> has_curly_single then new_lines
         else map (\<lambda>l. map (\<lambda>(i, ch). quote_char alphabetic has_curly_double has_curly_single l i ch)
                (enumerate 0 l)) new_lines)"

subsection \<open>Rewriting a file\<close>

text \<open>The two sides of a chunk and its counts, as the loop over its lines builds them.\<close>

fun chunk_sides :: "diff_line list \<Rightarrow> ustr list \<times> ustr list \<times> nat \<times> nat \<Rightarrow> ustr list \<times> ustr list \<times> nat \<times> nat" where
  "chunk_sides [] acc = acc"
| "chunk_sides (l # ls) (old_lines, new_lines, added, removed) =
     chunk_sides ls
       (case dl_kind l of
          ContextLine \<Rightarrow> (old_lines @ [dl_text l], new_lines @ [dl_text l], added, removed)
        | AdditionLine \<Rightarrow> (old_lines, new_lines @ [dl_text l], added + 1, removed)
        | RemovalLine \<Rightarrow> (old_lines @ [dl_text l], new_lines, added, removed + 1))"

type_synonym replacement = "nat \<times> nat \<times> ustr list"

fun locate_chunks ::
    "(uchar \<Rightarrow> bool) \<Rightarrow> ustr \<Rightarrow> ustr list \<Rightarrow> chunk list \<Rightarrow> nat \<Rightarrow> replacement list \<Rightarrow> patch_stats \<Rightarrow>
     patch_error + replacement list \<times> patch_stats" where
  "locate_chunks alphabetic path original_lines [] cursor replacements stats = Inr (replacements, stats)"
| "locate_chunks alphabetic path original_lines (c # cs) cursor replacements stats =
     (case chunk_sides (ch_lines c) ([], [], 0, 0) of
        (old_lines, new_lines, added, removed) \<Rightarrow>
          (case seek_sequence original_lines old_lines cursor False of
             None \<Rightarrow> Inl (ExecutionFailed (lit ''Patch hunk did not match file '' @ path))
           | Some pos \<Rightarrow>
               let actual = take (length old_lines) (drop pos original_lines);
                   new_lines = (if old_lines \<noteq> actual
                     then preserve_file_quote_style alphabetic actual new_lines else new_lines)
               in locate_chunks alphabetic path original_lines cs (pos + length old_lines)
                    (replacements @ [(pos, length old_lines, new_lines)])
                    \<lparr>ps_hunks_applied = ps_hunks_applied stats + 1,
                     ps_added_lines = ps_added_lines stats + added,
                     ps_removed_lines = ps_removed_lines stats + removed\<rparr>))"

text \<open>\<open>Vec::splice\<close>; the loop replaces from the last position to the first.\<close>

definition splice_lines :: "ustr list \<Rightarrow> nat \<Rightarrow> nat \<Rightarrow> ustr list \<Rightarrow> ustr list" where
  "splice_lines xs a b ys = take a xs @ ys @ drop b xs"

definition apply_replacements :: "ustr list \<Rightarrow> replacement list \<Rightarrow> ustr list" where
  "apply_replacements original_lines replacements =
     foldl (\<lambda>out (pos, old_len, new_lines). splice_lines out pos (pos + old_len) new_lines) original_lines
       (rev (sort_key fst replacements))"

definition apply_update_chunks ::
    "(uchar \<Rightarrow> bool) \<Rightarrow> ustr \<Rightarrow> ustr \<Rightarrow> chunk list \<Rightarrow> patch_stats \<Rightarrow> patch_error + ustr \<times> patch_stats" where
  "apply_update_chunks alphabetic path original chunks stats =
     (case locate_chunks alphabetic path (split_lines original) chunks 0 [] stats of
        Inl e \<Rightarrow> Inl e
      | Inr (replacements, stats) \<Rightarrow>
          Inr (join_lines (apply_replacements (split_lines original) replacements), stats))"

subsection \<open>Preview\<close>

definition PREVIEW_LINES_PER_FILE :: nat where "PREVIEW_LINES_PER_FILE = 120"

record counts =
  ct_added :: nat
  ct_removed :: nat

record file_preview =
  fp_header :: ustr
  fp_move_line :: "ustr option"
  fp_end_of_file :: bool
  fp_lines :: "ustr list"
  fp_total_lines :: nat
  fp_observed :: counts
  fp_validated :: "counts option"

definition finish_preview :: "file_preview \<Rightarrow> ustr list \<Rightarrow> bool \<times> ustr list" where
  "finish_preview f out =
     (let out = out @ [fp_header f];
          out = out @ (case fp_move_line f of Some l \<Rightarrow> [l] | None \<Rightarrow> []);
          known = (fp_validated f \<noteq> None \<or> \<not> starts_with (fp_header f) (lit ''*** Delete File: '') \<or>
                   0 < ct_removed (fp_observed f));
          counts = (case fp_validated f of Some c \<Rightarrow> c | None \<Rightarrow> fp_observed f);
          out = out @ (if known then [lit ''*** Preview Stats: +'' @ dec (ct_added counts) @ lit '' -'' @
                        dec (ct_removed counts)] else []);
          out = out @ fp_lines f;
          omitted = fp_total_lines f - length (fp_lines f);
          out = out @ (if 0 < omitted then [lit ''*** Preview Omitted: '' @ dec omitted] else []);
          out = out @ (if fp_end_of_file f then [lit ''*** End of File''] else [])
      in (0 < omitted, out))"

record preview_state =
  pv_output :: "ustr list"
  pv_current :: "file_preview option"
  pv_truncated :: bool
  pv_unstructured :: nat
  pv_counts :: "counts list"

definition close_file :: "preview_state \<Rightarrow> preview_state" where
  "close_file s =
     (case pv_current s of
        None \<Rightarrow> s
      | Some f \<Rightarrow>
          (case finish_preview f (pv_output s) of
             (t, out) \<Rightarrow> s\<lparr>pv_output := out, pv_current := None, pv_truncated := (pv_truncated s \<or> t)\<rparr>))"

definition is_file_directive :: "ustr \<Rightarrow> bool" where
  "is_file_directive raw \<longleftrightarrow>
     starts_with raw (lit ''*** Add File: '') \<or> starts_with raw (lit ''*** Delete File: '') \<or>
     starts_with raw (lit ''*** Update File: '')"

definition preview_line :: "preview_state \<Rightarrow> ustr \<Rightarrow> preview_state" where
  "preview_line s raw =
     (if is_file_directive raw then
        let s = close_file s
        in s\<lparr>pv_current := Some \<lparr>fp_header = raw, fp_move_line = None, fp_end_of_file = False,
               fp_lines = [], fp_total_lines = 0, fp_observed = \<lparr>ct_added = 0, ct_removed = 0\<rparr>,
               fp_validated = (case pv_counts s of [] \<Rightarrow> None | c # _ \<Rightarrow> Some c)\<rparr>,
             pv_counts := tl (pv_counts s)\<rparr>
      else if raw = lit ''*** Begin Patch'' \<or> raw = lit ''*** End Patch'' then
        let s = close_file s in s\<lparr>pv_output := pv_output s @ [raw]\<rparr>
      else (case pv_current s of
          Some f \<Rightarrow>
            let f =
              (if starts_with raw (lit ''*** Move to: '') then f\<lparr>fp_move_line := Some raw\<rparr>
               else if raw = lit ''*** End of File'' then f\<lparr>fp_end_of_file := True\<rparr>
               else f\<lparr>fp_observed :=
                        \<lparr>ct_added = ct_added (fp_observed f) + (if starts_with raw (lit ''+'') then 1 else 0),
                         ct_removed = ct_removed (fp_observed f) + (if starts_with raw (lit ''-'') then 1 else 0)\<rparr>,
                      fp_total_lines := fp_total_lines f + 1,
                      fp_lines := (if length (fp_lines f) < PREVIEW_LINES_PER_FILE
                                   then fp_lines f @ [raw] else fp_lines f)\<rparr>)
            in s\<lparr>pv_current := Some f\<rparr>
        | None \<Rightarrow>
            s\<lparr>pv_output := (if pv_unstructured s < PREVIEW_LINES_PER_FILE
                            then pv_output s @ [raw] else pv_output s),
              pv_unstructured := pv_unstructured s + 1\<rparr>))"

definition preview_with_counts :: "ustr \<Rightarrow> counts list \<Rightarrow> ustr \<times> bool" where
  "preview_with_counts patch cs =
     (let s = foldl preview_line
                \<lparr>pv_output = [], pv_current = None, pv_truncated = False, pv_unstructured = 0,
                 pv_counts = cs\<rparr> (lines patch);
          s = close_file s;
          more = pv_unstructured s - PREVIEW_LINES_PER_FILE;
          s = (if PREVIEW_LINES_PER_FILE < pv_unstructured s
               then s\<lparr>pv_truncated := True,
                      pv_output := pv_output s @ [lit ''... '' @ dec more @ lit '' more diff line(s)'']\<rparr>
               else s)
      in (join (pv_output s) [newline], pv_truncated s))"

definition patch_preview :: "ustr \<Rightarrow> ustr \<times> bool" where
  "patch_preview patch = preview_with_counts patch []"

definition change_counts :: "patch_change \<Rightarrow> counts" where
  "change_counts change =
     (case change of
        AddChange _ _ n \<Rightarrow> \<lparr>ct_added = n, ct_removed = 0\<rparr>
      | DeleteChange _ _ n \<Rightarrow> \<lparr>ct_added = 0, ct_removed = n\<rparr>
      | UpdateChange _ _ _ _ st \<Rightarrow> \<lparr>ct_added = ps_added_lines st, ct_removed = ps_removed_lines st\<rparr>)"

definition action_preview :: "ustr \<Rightarrow> patch_change list \<Rightarrow> ustr \<times> bool" where
  "action_preview patch changes = preview_with_counts patch (map change_counts changes)"

subsection \<open>Building an action\<close>

text \<open>\<open>read_file\<close> gives the text of a file, nothing when it is missing, or an error.\<close>

fun build_changes ::
    "(uchar \<Rightarrow> bool) \<Rightarrow> (ustr \<Rightarrow> patch_error + ustr option) \<Rightarrow> patch_op list \<Rightarrow> patch_change list \<Rightarrow>
     patch_action_stats \<Rightarrow> patch_error + patch_change list \<times> patch_action_stats" where
  "build_changes alphabetic read_file [] changes stats = Inr (changes, stats)"
| "build_changes alphabetic read_file (op # ops) changes stats =
     (case op of
        AddOp path ls \<Rightarrow>
          build_changes alphabetic read_file ops (changes @ [AddChange path (join_lines ls) (length ls)])
            (stats\<lparr>as_files_changed := as_files_changed stats + 1,
               as_hunks_applied := as_hunks_applied stats + 1,
               as_added_lines := as_added_lines stats + length ls,
               as_created_files := as_created_files stats @ [path]\<rparr>)
      | DeleteOp path \<Rightarrow>
          (case read_file path of
             Inl e \<Rightarrow> Inl e
           | Inr None \<Rightarrow> Inl (ExecutionFailed (lit ''Cannot delete missing file '' @ path))
           | Inr (Some content) \<Rightarrow>
               let lines_removed = length (split_lines content)
               in build_changes alphabetic read_file ops (changes @ [DeleteChange path content lines_removed])
                 (stats\<lparr>as_files_changed := as_files_changed stats + 1,
                    as_hunks_applied := as_hunks_applied stats + 1,
                    as_removed_lines := as_removed_lines stats + lines_removed,
                    as_deleted_files := as_deleted_files stats @ [path]\<rparr>))
      | UpdateOp path move_to chunks \<Rightarrow>
          (case read_file path of
             Inl e \<Rightarrow> Inl e
           | Inr None \<Rightarrow> Inl (ExecutionFailed (lit ''Cannot update missing file '' @ path))
           | Inr (Some original_content) \<Rightarrow>
               (case apply_update_chunks alphabetic path original_content chunks zero_stats of
                  Inl e \<Rightarrow> Inl e
                | Inr (new_content, us) \<Rightarrow>
                    build_changes alphabetic read_file ops
                      (changes @ [UpdateChange path move_to original_content new_content us])
                      (stats\<lparr>as_files_changed := as_files_changed stats + 1,
                         as_hunks_applied := as_hunks_applied stats + ps_hunks_applied us,
                         as_added_lines := as_added_lines stats + ps_added_lines us,
                         as_removed_lines := as_removed_lines stats + ps_removed_lines us,
                         as_updated_files := as_updated_files stats @ [path],
                         as_moved_files := as_moved_files stats @
                           (case move_to of Some target \<Rightarrow> [(path, target)] | None \<Rightarrow> [])\<rparr>))))"

definition build_patch_action_from_ops ::
    "(uchar \<Rightarrow> bool) \<Rightarrow> ustr \<Rightarrow> patch_op list \<Rightarrow> (ustr \<Rightarrow> patch_error + ustr option) \<Rightarrow>
     patch_error + patch_action" where
  "build_patch_action_from_ops alphabetic patch ops read_file =
     (case validate_patch_update_context ops of
        Inl e \<Rightarrow> Inl e
      | Inr _ \<Rightarrow>
          (case build_changes alphabetic read_file ops [] zero_action_stats of
             Inl e \<Rightarrow> Inl e
           | Inr (changes, stats) \<Rightarrow>
               Inr \<lparr>pa_patch = patch, pa_changes = changes, pa_stats = stats,
                    pa_preview = action_preview patch changes\<rparr>))"

definition build_patch_action ::
    "(uchar \<Rightarrow> bool) \<Rightarrow> ustr \<Rightarrow> (ustr \<Rightarrow> patch_error + ustr option) \<Rightarrow> patch_error + patch_action" where
  "build_patch_action alphabetic patch read_file =
     (case parse_patch patch of
        Inl e \<Rightarrow> Inl e
      | Inr ops \<Rightarrow> build_patch_action_from_ops alphabetic patch ops read_file)"

subsection \<open>Where a hunk is found\<close>

lemma slice_matches_norm:
  assumes "slice_matches f ls pattern i" "\<And>a b. f a = f b \<Longrightarrow> g a = g b"
  shows "slice_matches g ls pattern i"
proof -
  have m: "map f xs = map f ys \<Longrightarrow> map g xs = map g ys" for xs ys
  proof (induction xs arbitrary: ys)
    case (Cons x xs)
    then obtain y zs where y: "ys = y # zs" "f x = f y" "map f xs = map f zs" by (cases ys) auto
    then show ?case using Cons.IH [OF y(3)] assms(2) [OF y(2)] by simp
  qed simp
  show ?thesis unfolding slice_matches_def
    by (rule m [OF assms(1) [unfolded slice_matches_def]])
qed

lemma normalise_trim: "trim a = trim b \<Longrightarrow> normalise_unicode a = normalise_unicode b"
  by (simp add: normalise_unicode_def)

lemma normalise_trim_end: "trim_end a = trim_end b \<Longrightarrow> normalise_unicode a = normalise_unicode b"
proof -
  assume "trim_end a = trim_end b"
  then have "trim (trim_end a) = trim (trim_end b)" by simp
  then have "trim a = trim b" unfolding trim_of_trim_end .
  then show ?thesis by (rule normalise_trim)
qed

lemma slice_matches_exact: "slice_matches (\<lambda>s. s) ls pattern i \<Longrightarrow> slice_matches normalise_unicode ls pattern i"
  by (simp add: slice_matches_def)

lemma slice_matches_trim_end: "slice_matches trim_end ls pattern i \<Longrightarrow> slice_matches normalise_unicode ls pattern i"
  by (erule slice_matches_norm) (rule normalise_trim_end)

lemma slice_matches_trim: "slice_matches trim ls pattern i \<Longrightarrow> slice_matches normalise_unicode ls pattern i"
  by (erule slice_matches_norm) (rule normalise_trim)

lemmas slice_matches_normalised = slice_matches_exact slice_matches_trim_end slice_matches_trim

lemma find_upt_Some:
  "find P [a ..< b] = Some i \<longleftrightarrow> a \<le> i \<and> i < b \<and> P i \<and> (\<forall>j. a \<le> j \<and> j < i \<longrightarrow> \<not> P j)"
proof
  assume "find P [a ..< b] = Some i"
  then obtain k where k: "k < b - a" "P (a + k)" "i = a + k" "\<forall>j < k. \<not> P (a + j)"
    by (auto simp: find_Some_iff)
  have "\<not> P j" if "a \<le> j" "j < i" for j
    using k(3,4) that by (metis add_less_cancel_left le_iff_add)
  with k show "a \<le> i \<and> i < b \<and> P i \<and> (\<forall>j. a \<le> j \<and> j < i \<longrightarrow> \<not> P j)" by simp
next
  assume i: "a \<le> i \<and> i < b \<and> P i \<and> (\<forall>j. a \<le> j \<and> j < i \<longrightarrow> \<not> P j)"
  show "find P [a ..< b] = Some i"
    unfolding find_Some_iff
    by (rule exI [of _ "i - a"]) (use i in auto)
qed

lemma search_pass_Some:
  assumes "search_pass f ls pattern start = Some i" "length pattern \<le> length ls"
  shows "start \<le> i \<and> i + length pattern \<le> length ls \<and> slice_matches f ls pattern i \<and>
     (\<forall>j. start \<le> j \<and> j < i \<longrightarrow> \<not> slice_matches f ls pattern j)"
  using assms unfolding search_pass_def find_upt_Some by auto

lemma search_pass_None:
  assumes "search_pass f ls pattern start = None" "start \<le> j" "j + length pattern \<le> length ls"
  shows "\<not> slice_matches f ls pattern j"
  using assms by (auto simp: search_pass_def find_None_iff)

text \<open>
  A hunk is placed at or after the cursor and inside the file, on lines that equal its old
  lines up to blanks at the ends and typographic quotes, dashes and spaces; when some place matches
  exactly, the first such place is taken; and when no place is returned none matches.
\<close>

theorem seek_finds_first_match:
  assumes "pattern \<noteq> []"
  shows "case seek_sequence ls pattern start False of
      Some i \<Rightarrow> start \<le> i \<and> i + length pattern \<le> length ls \<and> slice_matches normalise_unicode ls pattern i \<and>
        (\<forall>j. start \<le> j \<and> j + length pattern \<le> length ls \<and> slice_matches (\<lambda>s. s) ls pattern j \<longrightarrow>
           slice_matches (\<lambda>s. s) ls pattern i \<and> i \<le> j)
    | None \<Rightarrow> (\<forall>j. start \<le> j \<and> j + length pattern \<le> length ls \<longrightarrow> \<not> slice_matches normalise_unicode ls pattern j)"
proof (cases "length ls < length pattern")
  case True
  then show ?thesis using assms by (simp add: seek_sequence_def)
next
  case False
  then have len: "length pattern \<le> length ls" by simp
  show ?thesis
  proof (cases "search_pass (\<lambda>s. s) ls pattern start")
    case (Some i)
    have "i \<le> j" if "start \<le> j" "slice_matches (\<lambda>s. s) ls pattern j" for j
      using search_pass_Some [OF Some len] that by (meson not_le)
    then show ?thesis
      using Some search_pass_Some [OF Some len] slice_matches_normalised(1) assms False
      by (simp add: seek_sequence_def)
  next
    case n1: None
    note no = search_pass_None [OF n1]
    consider (b) i where "search_pass trim_end ls pattern start = Some i"
      | (c) i where "search_pass trim_end ls pattern start = None" "search_pass trim ls pattern start = Some i"
      | (d) "search_pass trim_end ls pattern start = None" "search_pass trim ls pattern start = None"
      by fastforce
    then show ?thesis
    proof cases
      case b
      then show ?thesis
        using search_pass_Some [OF b len] slice_matches_normalised(2) no assms False n1
        by (auto simp: seek_sequence_def)
    next
      case c
      then show ?thesis
        using search_pass_Some [OF c(2) len] slice_matches_normalised(3) no assms False n1
        by (auto simp: seek_sequence_def)
    next
      case d
      show ?thesis
        using d search_pass_Some [of normalise_unicode ls pattern start] search_pass_None [of normalise_unicode ls pattern start]
          no assms False n1 len
        by (auto simp: seek_sequence_def split: option.splits)
    qed
  qed
qed

theorem seek_finds_first_match_witness:
  "case seek_sequence [lit ''a'', lit ''b '', lit ''b''] [lit ''b''] 0 False of
      Some i \<Rightarrow> (0 :: nat) \<le> i \<and> i = 2
    | None \<Rightarrow> False"
proof -
  have "seek_sequence [lit ''a'', lit ''b '', lit ''b''] [lit ''b''] 0 False = Some 2" by code_simp
  then show ?thesis
    using seek_finds_first_match [of "[lit ''b'']" 0 "[lit ''a'', lit ''b '', lit ''b'']"] by simp
qed

subsection \<open>The rewritten file\<close>

text \<open>
  The specification of the rewriting: the replacements of the chunks, in the order of the chunks
  and without overlap (\<open>placed\<close>), and one pass that copies the lines between them (\<open>rebuild\<close>).
\<close>

definition old_side :: "chunk \<Rightarrow> ustr list" where
  "old_side c = map dl_text (filter (\<lambda>l. dl_kind l \<noteq> AdditionLine) (ch_lines c))"

definition new_side :: "chunk \<Rightarrow> ustr list" where
  "new_side c = map dl_text (filter (\<lambda>l. dl_kind l \<noteq> RemovalLine) (ch_lines c))"

definition added_count :: "chunk \<Rightarrow> nat" where
  "added_count c = length (filter (\<lambda>l. dl_kind l = AdditionLine) (ch_lines c))"

definition removed_count :: "chunk \<Rightarrow> nat" where
  "removed_count c = length (filter (\<lambda>l. dl_kind l = RemovalLine) (ch_lines c))"

fun placed :: "(uchar \<Rightarrow> bool) \<Rightarrow> ustr list \<Rightarrow> nat \<Rightarrow> chunk list \<Rightarrow> replacement list \<Rightarrow> bool" where
  "placed alphabetic ls cursor [] [] = True"
| "placed alphabetic ls cursor (c # cs) ((pos, old_len, new_lines) # rs) =
     (let actual = take old_len (drop pos ls)
      in cursor \<le> pos \<and> pos + old_len \<le> length ls \<and> old_len = length (old_side c) \<and>
         map normalise_unicode actual = map normalise_unicode (old_side c) \<and>
         new_lines = (if actual = old_side c then new_side c
                      else preserve_file_quote_style alphabetic actual (new_side c)) \<and>
         placed alphabetic ls (pos + old_len) cs rs)"
| "placed alphabetic ls cursor _ _ = False"

fun rebuild :: "ustr list \<Rightarrow> nat \<Rightarrow> replacement list \<Rightarrow> ustr list" where
  "rebuild ls cursor [] = drop cursor ls"
| "rebuild ls cursor ((pos, old_len, new_lines) # rs) =
     take (pos - cursor) (drop cursor ls) @ new_lines @ rebuild ls (pos + old_len) rs"

lemma chunk_sides_acc:
  "chunk_sides ls (old_lines, new_lines, added, removed) =
     (old_lines @ map dl_text (filter (\<lambda>l. dl_kind l \<noteq> AdditionLine) ls),
      new_lines @ map dl_text (filter (\<lambda>l. dl_kind l \<noteq> RemovalLine) ls),
      added + length (filter (\<lambda>l. dl_kind l = AdditionLine) ls),
      removed + length (filter (\<lambda>l. dl_kind l = RemovalLine) ls))"
proof (induction ls arbitrary: old_lines new_lines added removed)
  case (Cons l ls)
  then show ?case by (cases "dl_kind l") simp_all
qed simp

lemma chunk_sides_eq:
  "chunk_sides (ch_lines c) ([], [], 0, 0) = (old_side c, new_side c, added_count c, removed_count c)"
  by (simp add: chunk_sides_acc old_side_def new_side_def added_count_def removed_count_def)

lemma locate_chunks_placed:
  assumes "locate_chunks alphabetic path ls cs cursor acc stats = Inr (out, stats')" "cursor \<le> length ls"
  shows "\<exists>rs. out = acc @ rs \<and> placed alphabetic ls cursor cs rs \<and>
     ps_hunks_applied stats' = ps_hunks_applied stats + length cs \<and>
     ps_added_lines stats' = ps_added_lines stats + sum_list (map added_count cs) \<and>
     ps_removed_lines stats' = ps_removed_lines stats + sum_list (map removed_count cs)"
  using assms
proof (induction cs arbitrary: cursor acc stats)
  case Nil
  then show ?case by simp
next
  case (Cons c cs)
  let ?old = "old_side c"
  from Cons.prems(1) obtain pos where pos: "seek_sequence ls ?old cursor False = Some pos"
    by (auto simp: chunk_sides_eq split: option.splits)
  let ?actual = "take (length ?old) (drop pos ls)"
  let ?new = "if ?old \<noteq> ?actual then preserve_file_quote_style alphabetic ?actual (new_side c) else new_side c"
  let ?stats = "\<lparr>ps_hunks_applied = ps_hunks_applied stats + 1,
      ps_added_lines = ps_added_lines stats + added_count c,
      ps_removed_lines = ps_removed_lines stats + removed_count c\<rparr>"
  have rec: "locate_chunks alphabetic path ls cs (pos + length ?old)
      (acc @ [(pos, length ?old, ?new)]) ?stats = Inr (out, stats')"
    using Cons.prems(1) pos by (simp add: chunk_sides_eq Let_def)
  have where_pos: "cursor \<le> pos \<and> pos + length ?old \<le> length ls \<and>
      map normalise_unicode ?actual = map normalise_unicode ?old"
  proof (cases "?old = []")
    case True
    then show ?thesis using pos Cons.prems(2) by (simp add: seek_sequence_def)
  next
    case False
    have seek: "case seek_sequence ls ?old cursor False of
        Some i \<Rightarrow> cursor \<le> i \<and> i + length ?old \<le> length ls \<and> slice_matches normalise_unicode ls ?old i
      | None \<Rightarrow> True"
      using False by (auto simp: seek_sequence_def Let_def slice_matches_normalised
          dest!: search_pass_Some split: option.splits)
    with pos show ?thesis by (simp add: slice_matches_def)
  qed
  from Cons.IH [OF rec] where_pos obtain rs where
    "out = (acc @ [(pos, length ?old, ?new)]) @ rs" "placed alphabetic ls (pos + length ?old) cs rs"
    "ps_hunks_applied stats' = ps_hunks_applied ?stats + length cs"
    "ps_added_lines stats' = ps_added_lines ?stats + sum_list (map added_count cs)"
    "ps_removed_lines stats' = ps_removed_lines ?stats + sum_list (map removed_count cs)"
    by blast
  with where_pos show ?case
    by (intro exI [of _ "(pos, length ?old, ?new) # rs"]) (auto simp: Let_def)
qed

lemma length_preserve_quote [simp]:
  "length (preserve_file_quote_style alphabetic actual new_lines) = length new_lines"
  by (simp add: preserve_file_quote_style_def Let_def)

lemma placed_ConsD:
  assumes "placed alphabetic ls cursor (c # cs) ((pos, old_len, new_lines) # rs)"
  shows "cursor \<le> pos" "pos + old_len \<le> length ls" "placed alphabetic ls (pos + old_len) cs rs"
    "old_len = length (old_side c)" "length new_lines = length (new_side c)"
  using assms unfolding placed.simps Let_def by auto

lemma placed_sorted: "placed alphabetic ls cursor cs rs \<Longrightarrow> sorted (map fst rs) \<and> (\<forall>r \<in> set rs. cursor \<le> fst r)"
  by (induction alphabetic ls cursor cs rs rule: placed.induct) (force simp: Let_def)+

lemma foldr_splice:
  assumes "placed alphabetic ls cursor cs rs" "cursor \<le> length ls"
  shows "foldr (\<lambda>(pos, old_len, new_lines) out. splice_lines out pos (pos + old_len) new_lines) rs ls
     = take cursor ls @ rebuild ls cursor rs"
  using assms
proof (induction rs arbitrary: cs cursor)
  case (Cons r rs)
  obtain pos old_len new_lines where r: "r = (pos, old_len, new_lines)" by (cases r)
  with Cons.prems(1) obtain c ds where cs: "cs = c # ds" by (cases cs) simp_all
  note p = placed_ConsD [OF Cons.prems(1) [unfolded r cs]]
  have "foldr (\<lambda>(pos, old_len, new_lines) out. splice_lines out pos (pos + old_len) new_lines) rs ls
      = take (pos + old_len) ls @ rebuild ls (pos + old_len) rs"
    using Cons.IH [OF p(3,2)] by simp
  moreover have "take pos ls = take cursor ls @ take (pos - cursor) (drop cursor ls)"
    using p(1) by (metis le_add_diff_inverse take_add)
  ultimately show ?case using p(2) r by (simp add: splice_lines_def)
next
  case Nil
  then show ?case by (cases cs) simp_all
qed

lemma apply_replacements_rebuild:
  assumes "placed alphabetic ls 0 cs rs"
  shows "apply_replacements ls rs = rebuild ls 0 rs"
proof -
  have "sort_key fst rs = rs" using placed_sorted [OF assms] by (simp add: sort_key_id_if_sorted)
  then show ?thesis
    using foldr_splice [OF assms] by (simp add: apply_replacements_def foldl_conv_foldr case_prod_beta')
qed

text \<open>
  C18. Applying chunks is the one-pass rewriting: the hunks are placed in order without overlap,
  each on lines that match its old side up to blanks and typography, the lines between them are
  kept, and splicing from the last hunk to the first gives what one pass from the start gives.
\<close>

theorem apply_chunks_rewrites_in_one_pass:
  assumes "apply_update_chunks alphabetic path original chunks stats = Inr (text, stats')"
  shows "\<exists>rs. placed alphabetic (split_lines original) 0 chunks rs \<and>
     text = join_lines (rebuild (split_lines original) 0 rs) \<and>
     ps_hunks_applied stats' = ps_hunks_applied stats + length chunks"
proof -
  obtain rs where "locate_chunks alphabetic path (split_lines original) chunks 0 [] stats = Inr (rs, stats')"
    "text = join_lines (apply_replacements (split_lines original) rs)"
    using assms by (auto simp: apply_update_chunks_def split: sum.splits)
  with locate_chunks_placed [OF this(1)] apply_replacements_rebuild show ?thesis by auto
qed

definition demo_line :: "diff_line_kind \<Rightarrow> string \<Rightarrow> diff_line" where
  "demo_line k t = \<lparr>dl_kind = k, dl_text = lit t\<rparr>"

definition demo_chunk :: chunk where
  "demo_chunk = \<lparr>ch_lines = [demo_line ContextLine ''a'', demo_line RemovalLine ''b'',
     demo_line AdditionLine ''x'', demo_line AdditionLine ''y'']\<rparr>"

definition demo_text :: ustr where
  "demo_text = join_lines [lit ''z'', lit ''a'', lit ''b '', lit ''c'']"

definition demo_stats :: patch_stats where
  "demo_stats = \<lparr>ps_hunks_applied = 1, ps_added_lines = 2, ps_removed_lines = 1\<rparr>"

lemma demo_apply:
  "apply_update_chunks is_ascii_alphabetic (lit ''f'') demo_text [demo_chunk] zero_stats =
     Inr (join_lines [lit ''z'', lit ''a'', lit ''x'', lit ''y'', lit ''c''], demo_stats)"
  by code_simp

theorem apply_chunks_rewrites_in_one_pass_witness:
  "\<exists>rs. placed is_ascii_alphabetic (split_lines demo_text) 0 [demo_chunk] rs \<and>
     join_lines [lit ''z'', lit ''a'', lit ''x'', lit ''y'', lit ''c''] = join_lines (rebuild (split_lines demo_text) 0 rs)"
  using apply_chunks_rewrites_in_one_pass [OF demo_apply] by blast

lemma sides_length: "length (new_side c) + removed_count c = length (old_side c) + added_count c"
proof -
  have "length (filter (\<lambda>l. dl_kind l \<noteq> RemovalLine) ls) + length (filter (\<lambda>l. dl_kind l = RemovalLine) ls)
      = length (filter (\<lambda>l. dl_kind l \<noteq> AdditionLine) ls) + length (filter (\<lambda>l. dl_kind l = AdditionLine) ls)" for ls :: "diff_line list"
    by (induction ls) auto
  then show ?thesis by (simp add: new_side_def old_side_def removed_count_def added_count_def)
qed

lemma length_rebuild:
  assumes "placed alphabetic ls cursor cs rs" "cursor \<le> length ls"
  shows "length (rebuild ls cursor rs) + cursor + sum_list (map removed_count cs)
     = length ls + sum_list (map added_count cs)"
  using assms
proof (induction rs arbitrary: cs cursor)
  case (Cons r rs)
  obtain pos old_len new_lines where r: "r = (pos, old_len, new_lines)" by (cases r)
  with Cons.prems(1) obtain c ds where cs: "cs = c # ds" by (cases cs) simp_all
  note p = placed_ConsD [OF Cons.prems(1) [unfolded r cs]]
  show ?case using Cons.IH [OF p(3,2)] p(1,2,4,5) sides_length [of c] r cs by simp
next
  case Nil
  then show ?case by (cases cs) simp_all
qed

text \<open>
  The statistics tell the truth: the new text has as many lines as the old one plus the added
  and minus the removed lines that are reported.
\<close>

theorem reported_lines_balance:
  assumes "apply_update_chunks alphabetic path original chunks zero_stats = Inr (text, st)"
  shows "\<exists>new_lines. text = join_lines new_lines \<and>
     length new_lines + ps_removed_lines st = length (split_lines original) + ps_added_lines st"
proof -
  obtain rs where l: "locate_chunks alphabetic path (split_lines original) chunks 0 [] zero_stats = Inr (rs, st)"
    "text = join_lines (apply_replacements (split_lines original) rs)"
    using assms by (auto simp: apply_update_chunks_def split: sum.splits)
  then have p: "placed alphabetic (split_lines original) 0 chunks rs"
    "ps_added_lines st = sum_list (map added_count chunks)"
    "ps_removed_lines st = sum_list (map removed_count chunks)"
    using locate_chunks_placed [OF l(1)] by (auto simp: zero_stats_def)
  show ?thesis
    using l(2) apply_replacements_rebuild [OF p(1)] length_rebuild [OF p(1)] p(2,3)
    by (intro exI [of _ "rebuild (split_lines original) 0 rs"]) simp
qed

theorem reported_lines_balance_witness:
  "\<exists>new_lines. join_lines [lit ''z'', lit ''a'', lit ''x'', lit ''y'', lit ''c''] = join_lines new_lines \<and>
     length new_lines + ps_removed_lines demo_stats = length (split_lines demo_text) + ps_added_lines demo_stats"
  by (rule reported_lines_balance [OF demo_apply])

subsection \<open>Printing and parsing\<close>

text \<open>The canonical text of a patch: one directive per file, a marker line before each chunk.\<close>

fun marker_of :: "diff_line_kind \<Rightarrow> uchar" where
  "marker_of ContextLine = 32"
| "marker_of AdditionLine = 43"
| "marker_of RemovalLine = 45"

definition print_line :: "diff_line \<Rightarrow> ustr" where
  "print_line l = marker_of (dl_kind l) # dl_text l"

definition print_chunk :: "chunk \<Rightarrow> ustr list" where
  "print_chunk c = lit ''@@'' # map print_line (ch_lines c)"

fun print_op :: "patch_op \<Rightarrow> ustr list" where
  "print_op (AddOp path ls) = (lit ''*** Add File: '' @ path) # map ((@) (lit ''+'')) ls"
| "print_op (DeleteOp path) = [lit ''*** Delete File: '' @ path]"
| "print_op (UpdateOp path move_to chunks) =
     (lit ''*** Update File: '' @ path) #
     (case move_to of Some target \<Rightarrow> [lit ''*** Move to: '' @ target] | None \<Rightarrow> []) @
     concat (map print_chunk chunks)"

definition print_patch :: "patch_op list \<Rightarrow> ustr" where
  "print_patch ops =
     join_lines (lit ''*** Begin Patch'' # concat (map print_op ops) @ [lit ''*** End Patch''])"

definition printable :: "patch_op list \<Rightarrow> bool" where
  "printable ops \<longleftrightarrow> list_all plain_line (concat (map print_op ops))"

definition at_directive :: "ustr list \<Rightarrow> bool" where
  "at_directive ls \<longleftrightarrow> ls \<noteq> [] \<and> starts_with (hd ls) (lit ''*** '') \<and>
     strip_prefix (hd ls) (lit ''*** Move to: '') = None"

lemma lines_join: "list_all plain_line ls \<Longrightarrow> lines (join_lines ls) = ls"
proof (induction ls)
  case Nil
  then show ?case by (simp add: join_lines_def)
next
  case (Cons l ls)
  have "join_lines (l # ls) = l @ newline # join_lines ls"
    by (cases ls) (simp_all add: join_lines_def)
  with Cons show ?case by (simp add: lines_newline)
qed

lemma parse_add_lines_print:
  "at_directive rest \<Longrightarrow> parse_add_lines acc (map ((@) (lit ''+'')) ls @ rest) = Inr (acc @ ls, rest)"
proof (induction ls arbitrary: acc)
  case Nil
  then show ?case by (cases rest) (simp_all add: at_directive_def)
next
  case (Cons l ls)
  have "\<not> starts_with (lit ''+'' @ l) (lit ''*** '')" by (simp add: lit_simps)
  then show ?case using Cons by simp
qed

lemma record_eta [simp]: "\<lparr>ch_lines = ch_lines c\<rparr> = c" "\<lparr>dl_kind = dl_kind l, dl_text = dl_text l\<rparr> = l"
  by (cases c, simp) (cases l, simp)

lemma parse_chunk_lines_print:
  "parse_chunks chunks (Some c) (map print_line ls @ rest) =
     parse_chunks chunks (Some (c\<lparr>ch_lines := ch_lines c @ ls\<rparr>)) rest"
proof (induction ls arbitrary: c)
  case Nil
  then show ?case by simp
next
  case (Cons l ls)
  have m: "from_marker (marker_of (dl_kind l)) = Some (dl_kind l)"
    by (cases "dl_kind l") (simp_all add: from_marker_def)
  have d: "\<not> starts_with (print_line l) (lit ''*** '')" "\<not> starts_with (print_line l) (lit ''@@'')"
    "print_line l \<noteq> lit ''*** End of File''"
    by (cases "dl_kind l"; simp add: print_line_def lit_simps)+
  have "parse_chunks chunks (Some c) (print_line l # xs) =
      parse_chunks chunks (Some (c\<lparr>ch_lines := ch_lines c @ [l]\<rparr>)) xs" for xs
    using m d by (simp add: push_line_def print_line_def)
  then show ?case using Cons.IH [of "c\<lparr>ch_lines := ch_lines c @ [l]\<rparr>"] by simp
qed

lemma parse_chunks_print_from:
  "at_directive rest \<Longrightarrow>
     parse_chunks chunks (Some c) (concat (map print_chunk cs) @ rest) = Inr (chunks @ c # cs, rest)"
proof (induction cs arbitrary: chunks c)
  case Nil
  then show ?case by (cases rest) (simp_all add: at_directive_def take_chunk_def)
next
  case (Cons d cs)
  have "\<not> starts_with (lit ''@@'') (lit ''*** '')" "starts_with (lit ''@@'') (lit ''@@'')"
    by (simp_all add: lit_simps)
  then show ?case
    using Cons.IH [OF Cons.prems, of "chunks @ [c]" d]
    by (simp add: print_chunk_def take_chunk_def parse_chunk_lines_print)
qed

lemma parse_chunks_print:
  assumes "at_directive rest"
  shows "parse_chunks [] None (concat (map print_chunk cs) @ rest) = Inr (cs, rest)"
proof (cases cs)
  case Nil
  then show ?thesis using assms by (cases rest) (simp_all add: at_directive_def take_chunk_def)
next
  case (Cons d ds)
  have "\<not> starts_with (lit ''@@'') (lit ''*** '')" "starts_with (lit ''@@'') (lit ''@@'')"
    by (simp_all add: lit_simps)
  then show ?thesis
    using parse_chunks_print_from [OF assms, of "[]" d ds] Cons
    by (simp add: print_chunk_def take_chunk_def parse_chunk_lines_print)
qed

lemma parse_move_print:
  assumes "at_directive rest"
  shows "parse_move ((case move_to of Some target \<Rightarrow> [lit ''*** Move to: '' @ target] | None \<Rightarrow> []) @
      concat (map print_chunk cs) @ rest) = (move_to, concat (map print_chunk cs) @ rest)"
proof (cases move_to)
  case (Some target)
  then show ?thesis by (simp add: parse_move_def)
next
  case None
  have "strip_prefix (lit ''@@'') (lit ''*** Move to: '') = None" by (simp add: lit_simps)
  then show ?thesis using None assms
    by (cases cs; cases rest) (auto simp: parse_move_def print_chunk_def at_directive_def)
qed

lemma at_directive_print: "at_directive (concat (map print_op ops) @ [lit ''*** End Patch''])"
proof (cases ops)
  case Nil
  then show ?thesis by (simp add: at_directive_def lit_simps)
next
  case (Cons op os)
  then show ?thesis by (cases op) (simp_all add: at_directive_def lit_simps)
qed

lemma parse_ops_print:
  "parse_ops acc (concat (map print_op ops) @ [lit ''*** End Patch'']) = Inr (acc @ ops)"
proof (induction ops arbitrary: acc)
  case Nil
  then show ?case by simp
next
  case (Cons op ops)
  let ?rest = "concat (map print_op ops) @ [lit ''*** End Patch'']"
  note d = at_directive_print [of ops]
  have no: "strip_prefix (lit ''*** Delete File: '' @ p) (lit ''*** Add File: '') = None"
    "strip_prefix (lit ''*** Update File: '' @ p) (lit ''*** Add File: '') = None"
    "strip_prefix (lit ''*** Update File: '' @ p) (lit ''*** Delete File: '') = None" for p
    by (simp_all add: lit_simps)
  obtain r rs where r: "?rest = r # rs" by (cases ?rest) simp_all
  show ?case
  proof (cases op)
    case (AddOp p ls)
    obtain x xs where x: "map ((@) (lit ''+'')) ls @ ?rest = x # xs" by (cases "map ((@) (lit ''+'')) ls @ ?rest") simp_all
    have "parse_ops acc ((lit ''*** Add File: '' @ p) # x # xs) = parse_ops (acc @ [op]) ?rest"
      using parse_add_lines_print [OF d, of "[]" ls] AddOp by (simp add: x)
    then show ?thesis using Cons.IH [of "acc @ [op]"] AddOp x by simp
  next
    case (DeleteOp p)
    have "parse_ops acc ((lit ''*** Delete File: '' @ p) # r # rs) = parse_ops (acc @ [op]) ?rest"
      using no(1) DeleteOp r by simp
    then show ?thesis using Cons.IH [of "acc @ [op]"] DeleteOp r by simp
  next
    case (UpdateOp p move_to cs)
    let ?body = "(case move_to of Some target \<Rightarrow> [lit ''*** Move to: '' @ target] | None \<Rightarrow> []) @
      concat (map print_chunk cs) @ ?rest"
    obtain x xs where x: "?body = x # xs" by (cases ?body) (auto split: option.splits)
    have "parse_ops acc ((lit ''*** Update File: '' @ p) # x # xs) = parse_ops (acc @ [op]) ?rest"
      using no(2,3) UpdateOp parse_move_print [OF d, of move_to cs] parse_chunks_print [OF d, of cs]
      by (simp add: x)
    then show ?thesis using Cons.IH [of "acc @ [op]"] UpdateOp x by simp
  qed
qed

text \<open>
  C17. Parsing inverts printing: every list of operations whose lines contain no line breaks is
  read back exactly, whatever its paths, texts and chunks are.
\<close>

theorem parse_inverts_print:
  assumes "printable ops"
  shows "parse_patch (print_patch ops) = Inr ops"
proof -
  have "plain_line (lit ''*** Begin Patch'')" "plain_line (lit ''*** End Patch'')"
    by (simp_all add: plain_line_def lit_simps newline_def)
  then have "lines (print_patch ops) = lit ''*** Begin Patch'' # concat (map print_op ops) @ [lit ''*** End Patch'']"
    unfolding print_patch_def using assms by (intro lines_join) (simp add: printable_def)
  then show ?thesis using parse_ops_print [of "[]" ops] by (simp add: parse_patch_def)
qed

definition demo_ops :: "patch_op list" where
  "demo_ops = [AddOp (lit ''n'') [lit ''one'', lit ''*** not a directive''], DeleteOp (lit ''d''),
     UpdateOp (lit ''u'') (Some (lit ''v'')) [demo_chunk, demo_chunk]]"

theorem parse_inverts_print_witness: "parse_patch (print_patch demo_ops) = Inr demo_ops"
  by (rule parse_inverts_print) code_simp

text \<open>
  The end-of-file marker is never accepted inside an update: the chunk loop has a branch for
  it, but the loop stops at any line that starts with three asterisks and a blank, so the marker
  reaches the main loop, which rejects it as an unexpected directive. The preview does know it.
\<close>

theorem end_of_file_marker_is_rejected:
  "parse_patch (join_lines (lit ''*** Begin Patch'' # print_op (UpdateOp (lit ''u'') None [demo_chunk]) @
     [lit ''*** End of File'', lit ''*** End Patch'']))
   = Inl (InvalidInput (lit ''Unexpected patch directive: *** End of File''))"
  by code_simp

text \<open>A file with carriage returns loses them all, and a missing final line end is added, wherever
  the hunk is.\<close>

lemma crlf_is_rewritten:
  "apply_update_chunks is_ascii_alphabetic (lit ''f'') (lit ''a'' @ [13, 10] @ lit ''b'' @ [13, 10] @ lit ''c'')
     [\<lparr>ch_lines = [demo_line RemovalLine ''a'', demo_line AdditionLine ''x'']\<rparr>] zero_stats
   = Inr (lit ''x'' @ [10] @ lit ''b'' @ [10] @ lit ''c'' @ [10],
       \<lparr>ps_hunks_applied = 1, ps_added_lines = 1, ps_removed_lines = 1\<rparr>)"
  by code_simp

end
