(* ===== verification/FileTools.thy ===== *)
theory FileTools
  imports Prelude
begin

section \<open>Files, the read state, and the editing tools\<close>

text \<open>
  The file tools of \<open>src/crates/rara-tools/src/file.rs\<close> that change files, and the record of what
  the conversation has read (\<open>FileReadState\<close>), which they consult before they overwrite anything.

  \<^item> The world has the nodes of the file system under their canonical paths, their modification
    times, and the read state. \<open>fe_canonical\<close> brings a spelling of a path to the canonical one (two
    spellings may name one file), \<open>fe_fails\<close> says which file operations fail, and \<open>fe_torn\<close> what a
    failed write leaves behind.
  \<^item> A file is given by how its bytes decode: valid UTF-8, UTF-16 behind a byte order mark, or other
    bytes with their lossy decoding. Every write stores UTF-8.
  \<^item> The mutex of the read state is held within one call at most, so each call is one step.
\<close>

subsection \<open>The world\<close>

datatype file_node = Utf8File ustr | Utf16File ustr | OtherBytes ustr | NotAFile

datatype io_kind = NotFound | OtherIo

datatype tool_error = ToolInvalidInput ustr | ToolExecutionFailed ustr | ToolIo io_kind

datatype file_op =
    ReadOp ustr | WriteOp ustr | RemoveOp ustr | MetadataOp ustr | CanonicalizeOp ustr | CreateParents ustr

record read_entry =
  re_modified :: nat
  re_content :: "ustr option"
  re_is_partial :: bool

record file_world =
  w_files :: "ustr \<Rightarrow> file_node option"
  w_mtime :: "ustr \<Rightarrow> nat"
  w_reads :: "ustr \<Rightarrow> read_entry option"

record file_env =
  fe_canonical :: "ustr \<Rightarrow> ustr"
  fe_fails :: "file_op \<Rightarrow> bool"
  fe_torn :: "ustr \<Rightarrow> file_node option"
  fe_now :: nat

definition file_at :: "file_env \<Rightarrow> file_world \<Rightarrow> ustr \<Rightarrow> file_node option" where
  "file_at env w path = w_files w (fe_canonical env path)"

fun crlf_to_lf :: "ustr \<Rightarrow> ustr" where
  "crlf_to_lf [] = []"
| "crlf_to_lf (c # s) =
     (case s of
        d # t \<Rightarrow> if c = 13 \<and> d = 10 then crlf_to_lf s else c # crlf_to_lf s
      | [] \<Rightarrow> [c])"

fun node_text :: "file_node \<Rightarrow> ustr option" where
  "node_text (Utf8File t) = Some (crlf_to_lf t)"
| "node_text (Utf16File t) = Some (crlf_to_lf t)"
| "node_text (OtherBytes t) = Some (crlf_to_lf t)"
| "node_text NotAFile = None"

definition read_key :: "file_env \<Rightarrow> file_world \<Rightarrow> ustr \<Rightarrow> tool_error + ustr" where
  "read_key env w key =
     (case w_files w key of
        None \<Rightarrow> Inl (ToolIo NotFound)
      | Some node \<Rightarrow>
          if fe_fails env (ReadOp key) then Inl (ToolIo OtherIo)
          else (case node_text node of None \<Rightarrow> Inl (ToolIo OtherIo) | Some t \<Rightarrow> Inr t))"

definition read_file_content :: "file_env \<Rightarrow> file_world \<Rightarrow> ustr \<Rightarrow> tool_error + ustr" where
  "read_file_content env w path = read_key env w (fe_canonical env path)"

text \<open>\<open>fs::write\<close> and \<open>fs::remove_file\<close>.\<close>

definition fs_write :: "file_env \<Rightarrow> ustr \<Rightarrow> ustr \<Rightarrow> (file_world, tool_error, unit) em" where
  "fs_write env path content =
     (\<lambda>w. let key = fe_canonical env path
          in if w_files w key = Some NotAFile then (Inl (ToolIo OtherIo), w)
             else if fe_fails env (WriteOp key)
             then (Inl (ToolIo OtherIo), w\<lparr>w_files := (w_files w)(key := fe_torn env key)\<rparr>)
             else (Inr (), w\<lparr>w_files := (w_files w)(key := Some (Utf8File content)),
                             w_mtime := (w_mtime w)(key := fe_now env)\<rparr>))"

definition fs_remove_file :: "file_env \<Rightarrow> ustr \<Rightarrow> (file_world, tool_error, unit) em" where
  "fs_remove_file env path =
     (\<lambda>w. let key = fe_canonical env path
          in if w_files w key = None then (Inl (ToolIo NotFound), w)
             else if w_files w key = Some NotAFile \<or> fe_fails env (RemoveOp key) then (Inl (ToolIo OtherIo), w)
             else (Inr (), w\<lparr>w_files := (w_files w)(key := None)\<rparr>))"

subsection \<open>The read state\<close>

definition canonical_existing_path :: "file_env \<Rightarrow> file_world \<Rightarrow> ustr \<Rightarrow> tool_error + ustr" where
  "canonical_existing_path env w path =
     (let key = fe_canonical env path
      in if w_files w key = None then Inl (ToolIo NotFound)
         else if fe_fails env (CanonicalizeOp key) then Inl (ToolIo OtherIo)
         else Inr key)"

definition not_read_error :: tool_error where
  "not_read_error =
     ToolExecutionFailed (lit ''File has not been read yet. Read it first before writing to it.'')"

definition record_read :: "file_env \<Rightarrow> ustr \<Rightarrow> bool \<Rightarrow> ustr option \<Rightarrow> (file_world, tool_error, unit) em" where
  "record_read env path is_partial content =
     (\<lambda>w. case canonical_existing_path env w path of
        Inl e \<Rightarrow> (Inl e, w)
      | Inr key \<Rightarrow>
          if fe_fails env (MetadataOp key) then (Inl (ToolIo OtherIo), w)
          else
            let modified = w_mtime w key;
                entry = \<lparr>re_modified = modified, re_content = content, re_is_partial = is_partial\<rparr>;
                stored = (Inr (), w\<lparr>w_reads := (w_reads w)(key := Some entry)\<rparr>)
            in (case w_reads w key of
                 None \<Rightarrow> stored
               | Some existing \<Rightarrow>
                   if is_partial \<and> \<not> re_is_partial existing \<and> re_modified existing = modified then (Inr (), w)
                   else if content = None \<and> re_content existing \<noteq> None \<and> re_modified existing = modified
                   then (Inr (), w)
                   else stored))"

definition validate_existing_edit :: "file_env \<Rightarrow> file_world \<Rightarrow> ustr \<Rightarrow> tool_error + unit" where
  "validate_existing_edit env w path =
     (case canonical_existing_path env w path of
        Inl e \<Rightarrow> Inl e
      | Inr key \<Rightarrow>
          (case w_reads w key of
             None \<Rightarrow> Inl not_read_error
           | Some entry \<Rightarrow>
               if re_is_partial entry
               then Inl (ToolExecutionFailed
                      (lit ''File was only partially read. Read the full file before writing to it.''))
               else (case re_content entry of
                   None \<Rightarrow> Inr ()
                 | Some content \<Rightarrow>
                     (case read_key env w key of
                        Inl e \<Rightarrow> Inl e
                      | Inr current \<Rightarrow>
                          if current \<noteq> content
                          then Inl (ToolExecutionFailed (lit ''File has changed since read. '' @
                                 lit ''Read it again before attempting to write it.''))
                          else Inr ()))))"

definition validate_full_content_edit :: "file_env \<Rightarrow> file_world \<Rightarrow> ustr \<Rightarrow> tool_error + unit" where
  "validate_full_content_edit env w path =
     (case canonical_existing_path env w path of
        Inl e \<Rightarrow> Inl e
      | Inr key \<Rightarrow>
          (case w_reads w key of
             None \<Rightarrow> Inl not_read_error
           | Some entry \<Rightarrow>
               if re_is_partial entry \<or> re_content entry = None
               then Inl (ToolExecutionFailed
                      (lit ''File was not fully read. Read the full file before using multi_edit.''))
               else validate_existing_edit env w path))"

definition validate_exact_replace_edit :: "file_env \<Rightarrow> file_world \<Rightarrow> ustr \<Rightarrow> tool_error + unit" where
  "validate_exact_replace_edit env w path =
     (case canonical_existing_path env w path of
        Inl e \<Rightarrow> Inl e
      | Inr key \<Rightarrow>
          (case w_reads w key of
             None \<Rightarrow> Inl not_read_error
           | Some entry \<Rightarrow> if re_is_partial entry then Inr () else validate_existing_edit env w path))"

definition record_write :: "file_env \<Rightarrow> ustr \<Rightarrow> ustr \<Rightarrow> (file_world, tool_error, unit) em" where
  "record_write env path content =
     (\<lambda>w. case canonical_existing_path env w path of
        Inl e \<Rightarrow> (Inl e, w)
      | Inr key \<Rightarrow>
          if fe_fails env (MetadataOp key) then (Inl (ToolIo OtherIo), w)
          else (Inr (), w\<lparr>w_reads := (w_reads w)(key :=
                  Some \<lparr>re_modified = w_mtime w key, re_content = Some content, re_is_partial = False\<rparr>)\<rparr>))"

definition forget :: "file_env \<Rightarrow> ustr \<Rightarrow> (file_world, tool_error, unit) em" where
  "forget env path =
     (\<lambda>w. case canonical_existing_path env w path of
        Inl e \<Rightarrow> (Inl e, w)
      | Inr key \<Rightarrow> (Inr (), w\<lparr>w_reads := (w_reads w)(key := None)\<rparr>))"

text \<open>An error of the recording is only logged.\<close>

definition record_write_best_effort :: "file_env \<Rightarrow> ustr \<Rightarrow> ustr \<Rightarrow> file_world \<Rightarrow> file_world" where
  "record_write_best_effort env path content w = snd (record_write env path content w)"

subsection \<open>The tools\<close>

text \<open>The flag \<open>tracked\<close> says whether the tool was built with a read state.\<close>

definition require_str :: "string \<Rightarrow> string \<Rightarrow> json \<Rightarrow> tool_error + ustr" where
  "require_str key name input =
     (case jstr key input of None \<Rightarrow> Inl (ToolInvalidInput (lit name)) | Some s \<Rightarrow> Inr s)"

definition require_u64 :: "string \<Rightarrow> json \<Rightarrow> tool_error + nat" where
  "require_u64 key input =
     (case Option.bind (jget key input) as_u64 of None \<Rightarrow> Inl (ToolInvalidInput (lit key)) | Some n \<Rightarrow> Inr n)"

definition MAX_PREVIEW :: nat where "MAX_PREVIEW = 80"

definition preview_snippet :: "ustr \<Rightarrow> ustr" where
  "preview_snippet v =
     (let preview = str_replace v [10] [92, 110]
      in if MAX_PREVIEW < length preview then take MAX_PREVIEW preview @ lit ''...'' else preview)"

text \<open>Bytes and lines of a file; reading lines fails on bytes that are not UTF-8.\<close>

definition existing_file_summary :: "file_env \<Rightarrow> file_world \<Rightarrow> ustr \<Rightarrow> tool_error + (int \<times> nat) option" where
  "existing_file_summary env w path =
     (let key = fe_canonical env path
      in case w_files w key of
          None \<Rightarrow> Inr None
        | Some node \<Rightarrow>
            if fe_fails env (MetadataOp key) \<or> fe_fails env (ReadOp key) then Inl (ToolIo OtherIo)
            else (case node of
                Utf8File t \<Rightarrow> Inr (Some (utf8_len t, length (lines t)))
              | _ \<Rightarrow> Inl (ToolIo OtherIo)))"

definition check_tracked :: "bool \<Rightarrow> tool_error + unit \<Rightarrow> tool_error + unit" where
  "check_tracked tracked r = (if tracked then r else Inr ())"

definition store_text :: "file_env \<Rightarrow> bool \<Rightarrow> ustr \<Rightarrow> ustr \<Rightarrow> json \<Rightarrow> (file_world, tool_error, json) em" where
  "store_text env tracked path content reply =
     (\<lambda>w. case fs_write env path content w of
        (Inl e, w) \<Rightarrow> (Inl e, w)
      | (Inr _, w) \<Rightarrow> (Inr reply, if tracked then record_write_best_effort env path content w else w))"

definition jnat :: "nat \<Rightarrow> json" where "jnat n = JNum (int n)"

definition write_file_call :: "file_env \<Rightarrow> bool \<Rightarrow> json \<Rightarrow> (file_world, tool_error, json) em" where
  "write_file_call env tracked i =
     (\<lambda>w. case require_str ''path'' ''path'' i of
        Inl e \<Rightarrow> (Inl e, w)
      | Inr p \<Rightarrow>
          (case require_str ''content'' ''content'' i of
             Inl e \<Rightarrow> (Inl e, w)
           | Inr c \<Rightarrow>
               (case existing_file_summary env w p of
                  Inl e \<Rightarrow> (Inl e, w)
                | Inr existing \<Rightarrow>
                    (case check_tracked (existing \<noteq> None \<and> tracked) (validate_existing_edit env w p) of
                       Inl e \<Rightarrow> (Inl e, w)
                     | Inr _ \<Rightarrow>
                         store_text env tracked p c
                           (JObj [(lit ''status'', JStr (lit ''ok'')), (lit ''path'', JStr p),
                              (lit ''operation'', JStr (if existing \<noteq> None then lit ''overwritten'' else lit ''created'')),
                              (lit ''bytes_written'', JNum (utf8_len c)),
                              (lit ''line_count'', jnat (length (lines c))),
                              (lit ''previous_bytes'', case existing of Some (b, _) \<Rightarrow> JNum b | None \<Rightarrow> JNull),
                              (lit ''previous_line_count'', case existing of Some (_, n) \<Rightarrow> jnat n | None \<Rightarrow> JNull)])
                           w))))"

definition line_delta :: "ustr \<Rightarrow> ustr \<Rightarrow> json" where
  "line_delta updated original = JNum (int (length (lines updated)) - int (length (lines original)))"

definition replace_call :: "file_env \<Rightarrow> bool \<Rightarrow> json \<Rightarrow> (file_world, tool_error, json) em" where
  "replace_call env tracked i =
     (\<lambda>w. case require_str ''path'' ''path'' i of
        Inl e \<Rightarrow> (Inl e, w)
      | Inr p \<Rightarrow>
          (case require_str ''old_string'' ''old'' i of
             Inl e \<Rightarrow> (Inl e, w)
           | Inr old \<Rightarrow>
               (case require_str ''new_string'' ''new'' i of
                  Inl e \<Rightarrow> (Inl e, w)
                | Inr new \<Rightarrow>
                    (case check_tracked tracked (validate_exact_replace_edit env w p) of
                       Inl e \<Rightarrow> (Inl e, w)
                     | Inr _ \<Rightarrow>
                         (case read_file_content env w p of
                            Inl e \<Rightarrow> (Inl e, w)
                          | Inr c \<Rightarrow>
                              if match_count c old \<noteq> 1 then (Inl (ToolExecutionFailed (lit ''String not unique'')), w)
                              else let updated = str_replace c old new
                                in store_text env tracked p updated
                                     (JObj [(lit ''status'', JStr (lit ''ok'')), (lit ''path'', JStr p),
                                        (lit ''replacements'', JNum 1),
                                        (lit ''old_preview'', JStr (preview_snippet old)),
                                        (lit ''new_preview'', JStr (preview_snippet new)),
                                        (lit ''old_bytes'', JNum (utf8_len old)),
                                        (lit ''new_bytes'', JNum (utf8_len new)),
                                        (lit ''line_delta'', line_delta updated c)]) w)))))"

text \<open>The lines of the file with the inclusive range replaced, and the text they make.\<close>

definition replaced_lines :: "ustr list \<Rightarrow> nat \<Rightarrow> nat \<Rightarrow> ustr list \<Rightarrow> ustr list" where
  "replaced_lines ls start_line end_line replacement =
     take (start_line - 1) ls @ replacement @ drop end_line ls"

definition replaced_text :: "ustr \<Rightarrow> nat \<Rightarrow> nat \<Rightarrow> ustr \<Rightarrow> ustr" where
  "replaced_text original start_line end_line new_string =
     (let updated = join (replaced_lines (lines original) start_line end_line (lines new_string)) [newline]
      in if original \<noteq> [] \<and> last original = newline \<and> updated \<noteq> [] then updated @ [newline] else updated)"

definition replace_lines_call :: "file_env \<Rightarrow> bool \<Rightarrow> json \<Rightarrow> (file_world, tool_error, json) em" where
  "replace_lines_call env tracked i =
     (\<lambda>w. case require_str ''path'' ''path'' i of
        Inl e \<Rightarrow> (Inl e, w)
      | Inr path \<Rightarrow>
     (case require_u64 ''start_line'' i of
        Inl e \<Rightarrow> (Inl e, w)
      | Inr start_line \<Rightarrow>
     (case require_u64 ''end_line'' i of
        Inl e \<Rightarrow> (Inl e, w)
      | Inr end_line \<Rightarrow>
     (case require_str ''new_string'' ''new_string'' i of
        Inl e \<Rightarrow> (Inl e, w)
      | Inr new_string \<Rightarrow>
          if start_line = 0 \<or> end_line = 0
          then (Inl (ToolInvalidInput (lit ''start_line/end_line must be >= 1'')), w)
          else if end_line < start_line
          then (Inl (ToolInvalidInput (lit ''start_line must be <= end_line'')), w)
          else
     (case check_tracked tracked (validate_existing_edit env w path) of
        Inl e \<Rightarrow> (Inl e, w)
      | Inr _ \<Rightarrow>
     (case read_file_content env w path of
        Inl e \<Rightarrow> (Inl e, w)
      | Inr original \<Rightarrow>
          let total_lines = length (lines original)
          in if total_lines = 0
             then (Inl (ToolExecutionFailed (lit ''Cannot replace lines in empty file '' @ path)), w)
             else if total_lines < end_line
             then (Inl (ToolExecutionFailed (lit ''Line range '' @ dec start_line @ lit ''-'' @ dec end_line @
                     lit '' exceeds file length '' @ dec total_lines)), w)
             else
               let removed = end_line - start_line + 1;
                   inserted = length (lines new_string);
                   removed_string = join (take removed (drop (start_line - 1) (lines original))) [newline]
               in store_text env tracked path (replaced_text original start_line end_line new_string)
                    (JObj [(lit ''status'', JStr (lit ''ok'')), (lit ''path'', JStr path),
                       (lit ''start_line'', jnat start_line), (lit ''end_line'', jnat end_line),
                       (lit ''removed_lines'', jnat removed), (lit ''removed_string'', JStr removed_string),
                       (lit ''inserted_lines'', jnat inserted),
                       (lit ''line_delta'', JNum (int inserted - int removed))]) w))))))"

text \<open>The edits of a multi-edit, in order, from position \<open>index\<close>; nothing is written on an error.\<close>

fun apply_edits ::
    "nat \<Rightarrow> json list \<Rightarrow> ustr \<Rightarrow> ustr list \<Rightarrow> json list \<Rightarrow> tool_error + ustr \<times> json list" where
  "apply_edits index [] updated previous_new_strings applied = Inr (updated, applied)"
| "apply_edits index (edit # edits) updated previous_new_strings applied =
     (case jstr ''old_string'' edit of
        None \<Rightarrow> Inl (ToolInvalidInput (lit ''edits['' @ dec index @ lit ''].old_string is required''))
      | Some old_string \<Rightarrow>
     (case jstr ''new_string'' edit of
        None \<Rightarrow> Inl (ToolInvalidInput (lit ''edits['' @ dec index @ lit ''].new_string is required''))
      | Some new_string \<Rightarrow>
          if old_string = []
          then Inl (ToolInvalidInput (lit ''edits['' @ dec index @
                 lit ''].old_string must not be empty; use write_file for file creation or full rewrites''))
          else if old_string = new_string
          then Inl (ToolInvalidInput (lit ''edits['' @ dec index @
                 lit ''] has identical old_string and new_string''))
          else if list_ex (\<lambda>previous. contains_str previous old_string) previous_new_strings
          then Inl (ToolExecutionFailed (lit ''edits['' @ dec index @
                 lit ''].old_string is contained in a previous new_string; split the edit or use apply_patch '' @
                 lit ''to avoid ambiguous sequential replacements''))
          else if match_count updated old_string \<noteq> 1
          then Inl (ToolExecutionFailed (lit ''Edit '' @ dec (index + 1) @
                 lit '' expected old_string to appear exactly once, found '' @ dec (match_count updated old_string)))
          else apply_edits (index + 1) edits (replace_first updated old_string new_string)
                 (previous_new_strings @ [new_string])
                 (applied @ [JObj [(lit ''index'', jnat (index + 1)),
                    (lit ''old_preview'', JStr (preview_snippet old_string)),
                    (lit ''new_preview'', JStr (preview_snippet new_string)),
                    (lit ''old_bytes'', JNum (utf8_len old_string)),
                    (lit ''new_bytes'', JNum (utf8_len new_string))]])))"

definition multi_edit_call :: "file_env \<Rightarrow> bool \<Rightarrow> json \<Rightarrow> (file_world, tool_error, json) em" where
  "multi_edit_call env tracked input =
     (\<lambda>w. case require_str ''path'' ''path'' input of
        Inl e \<Rightarrow> (Inl e, w)
      | Inr path \<Rightarrow>
     (case Option.bind (jget ''edits'' input) as_array of
        None \<Rightarrow> (Inl (ToolInvalidInput (lit ''edits'')), w)
      | Some edits \<Rightarrow>
          if edits = []
          then (Inl (ToolInvalidInput (lit ''edits must contain at least one replacement'')), w)
          else
     (case check_tracked tracked (validate_full_content_edit env w path) of
        Inl e \<Rightarrow> (Inl e, w)
      | Inr _ \<Rightarrow>
     (case read_file_content env w path of
        Inl e \<Rightarrow> (Inl e, w)
      | Inr original \<Rightarrow>
     (case apply_edits 0 edits original [] [] of
        Inl e \<Rightarrow> (Inl e, w)
      | Inr (updated, applied) \<Rightarrow>
          store_text env tracked path updated
            (JObj [(lit ''status'', JStr (lit ''ok'')), (lit ''path'', JStr path),
               (lit ''edits_applied'', jnat (length applied)), (lit ''edits'', JArr applied),
               (lit ''line_delta'', line_delta updated original)]) w)))))"

subsection \<open>Freshness\<close>

text \<open>What a validated path guarantees: an entry that is not partial, and current content when the
  entry has content.\<close>

definition fresh :: "file_env \<Rightarrow> file_world \<Rightarrow> ustr \<Rightarrow> bool" where
  "fresh env w path \<longleftrightarrow>
     (case w_reads w (fe_canonical env path) of
        None \<Rightarrow> False
      | Some e \<Rightarrow> \<not> re_is_partial e \<and>
          (case re_content e of
             None \<Rightarrow> True
           | Some c \<Rightarrow> read_key env w (fe_canonical env path) = Inr c))"

definition fully_read :: "file_env \<Rightarrow> file_world \<Rightarrow> ustr \<Rightarrow> bool" where
  "fully_read env w path \<longleftrightarrow>
     fresh env w path \<and> map_option re_content (w_reads w (fe_canonical env path)) \<noteq> Some None"

lemma canonical_existing_path_Inr:
  "canonical_existing_path env w path = Inr key \<longleftrightarrow>
     key = fe_canonical env path \<and> file_at env w path \<noteq> None \<and> \<not> fe_fails env (CanonicalizeOp key)"
  by (auto simp: canonical_existing_path_def file_at_def Let_def)

lemma validate_existing_edit_fresh: "validate_existing_edit env w path = Inr u \<Longrightarrow> fresh env w path"
  by (auto simp: validate_existing_edit_def fresh_def canonical_existing_path_Inr
      split: sum.splits option.splits if_splits)

lemma validate_full_content_edit_read: "validate_full_content_edit env w path = Inr u \<Longrightarrow> fully_read env w path"
  using validate_existing_edit_fresh
  by (auto simp: validate_full_content_edit_def fully_read_def canonical_existing_path_Inr
      split: sum.splits option.splits if_splits)

lemma require_str_Inr [simp]: "require_str key name i = Inr s \<longleftrightarrow> jstr key i = Some s"
  by (auto simp: require_str_def split: option.splits)

lemma existing_file_summary_None: "existing_file_summary env w p = Inr None \<Longrightarrow> file_at env w p = None"
  by (auto simp: existing_file_summary_def file_at_def Let_def split: option.splits if_splits file_node.splits)

lemma case_sum_Inr:
  "(case r of Inl e \<Rightarrow> (Inl e, w) | Inr x \<Rightarrow> k x) = (Inr y, w') \<longleftrightarrow> (\<exists>x. r = Inr x \<and> k x = (Inr y, w'))"
  by (auto split: sum.splits)

lemma case_option_Inr:
  "(case r of None \<Rightarrow> (Inl e, w) | Some x \<Rightarrow> k x) = (Inr y, w') \<longleftrightarrow> (\<exists>x. r = Some x \<and> k x = (Inr y, w'))"
  by (auto split: option.splits)

lemma write_file_call_Inr:
  assumes "write_file_call env tracked i w = (Inr reply, w')"
  obtains p c existing reply' where "jstr ''path'' i = Some p" "jstr ''content'' i = Some c"
    "existing_file_summary env w p = Inr existing"
    "check_tracked (existing \<noteq> None \<and> tracked) (validate_existing_edit env w p) = Inr ()"
    "store_text env tracked p c reply' w = (Inr reply, w')"
  using assms unfolding write_file_call_def case_sum_Inr require_str_Inr by auto

lemma replace_lines_call_Inr:
  assumes "replace_lines_call env tracked i w = (Inr reply, w')"
  obtains p s e n original reply' where "jstr ''path'' i = Some p" "require_u64 ''start_line'' i = Inr s"
    "require_u64 ''end_line'' i = Inr e" "jstr ''new_string'' i = Some n"
    "0 < s" "s \<le> e" "e \<le> length (lines original)"
    "tracked \<Longrightarrow> validate_existing_edit env w p = Inr ()" "read_file_content env w p = Inr original"
    "store_text env tracked p (replaced_text original s e n) reply' w = (Inr reply, w')"
  using assms unfolding replace_lines_call_def case_sum_Inr require_str_Inr
  by (auto simp: check_tracked_def case_sum_Inr Let_def not_less split: if_splits)

lemma multi_edit_call_Inr:
  assumes "multi_edit_call env tracked i w = (Inr reply, w')"
  obtains p edits original updated applied reply' where "jstr ''path'' i = Some p"
    "Option.bind (jget ''edits'' i) as_array = Some edits" "edits \<noteq> []"
    "tracked \<Longrightarrow> validate_full_content_edit env w p = Inr ()" "read_file_content env w p = Inr original"
    "apply_edits 0 edits original [] [] = Inr (updated, applied)"
    "store_text env tracked p updated reply' w = (Inr reply, w')"
  using assms unfolding multi_edit_call_def case_sum_Inr case_option_Inr require_str_Inr
  by (auto simp: check_tracked_def case_sum_Inr split: if_splits prod.splits)

lemma store_text_Inr:
  assumes "store_text env tracked p c reply w = (Inr reply', w')"
  shows "file_at env w' p = Some (Utf8File c) \<and>
     (\<forall>q. fe_canonical env q \<noteq> fe_canonical env p \<longrightarrow> file_at env w' q = file_at env w q)"
  using assms
  by (auto simp: store_text_def fs_write_def file_at_def record_write_best_effort_def record_write_def Let_def
      split: prod.splits sum.splits if_splits)

text \<open>
  C19. With a read state, \<open>write_file\<close> over an existing file, \<open>replace_lines\<close> and \<open>multi_edit\<close> succeed
  only on a file that the conversation has read without cut lines and whose remembered content, if
  any, is still the content on disk; \<open>multi_edit\<close> asks for remembered content. Afterwards the file
  is the new text and every other file is untouched.
\<close>

theorem edits_need_fresh_read:
  assumes "jstr ''path'' i = Some p"
    and "write_file_call env True i w = (Inr reply, w') \<and> file_at env w p \<noteq> None \<or>
         replace_lines_call env True i w = (Inr reply, w') \<or>
         multi_edit_call env True i w = (Inr reply, w')"
  shows "fresh env w p \<and> (multi_edit_call env True i w = (Inr reply, w') \<longrightarrow> fully_read env w p) \<and>
     (\<exists>text. file_at env w' p = Some (Utf8File text)) \<and>
     (\<forall>q. fe_canonical env q \<noteq> fe_canonical env p \<longrightarrow> file_at env w' q = file_at env w q)"
proof -
  have multi: "fully_read env w p \<and> (\<exists>text reply0. store_text env True p text reply0 w = (Inr reply, w'))"
    if m: "multi_edit_call env True i w = (Inr reply, w')"
    using multi_edit_call_Inr [OF m] assms(1) validate_full_content_edit_read by (metis option.inject)
  have main: "fresh env w p \<and> (\<exists>text reply0. store_text env True p text reply0 w = (Inr reply, w'))"
    using assms(2)
  proof (elim disjE conjE)
    assume wf: "write_file_call env True i w = (Inr reply, w')" and ex: "file_at env w p \<noteq> None"
    obtain c existing reply0 where e: "existing_file_summary env w p = Inr existing"
      "check_tracked (existing \<noteq> None \<and> True) (validate_existing_edit env w p) = Inr ()"
      "store_text env True p c reply0 w = (Inr reply, w')"
      using write_file_call_Inr [OF wf] assms(1) by (metis option.inject)
    have "existing \<noteq> None" using ex e(1) existing_file_summary_None [of env w p] by metis
    with e(2) have "validate_existing_edit env w p = Inr ()" by (simp add: check_tracked_def)
    with e(3) validate_existing_edit_fresh show ?thesis by blast
  next
    assume r: "replace_lines_call env True i w = (Inr reply, w')"
    obtain c reply0 where "validate_existing_edit env w p = Inr ()"
      "store_text env True p c reply0 w = (Inr reply, w')"
      using replace_lines_call_Inr [OF r] assms(1) by (metis option.inject)
    with validate_existing_edit_fresh show ?thesis by blast
  next
    assume m: "multi_edit_call env True i w = (Inr reply, w')"
    with multi show ?thesis by (auto simp: fully_read_def)
  qed
  with multi store_text_Inr show ?thesis by blast
qed

definition calm_env :: file_env where
  "calm_env = \<lparr>fe_canonical = (\<lambda>p. p), fe_fails = (\<lambda>_. False), fe_torn = (\<lambda>_. None), fe_now = 9\<rparr>"

definition world_with :: "string \<Rightarrow> ustr \<Rightarrow> read_entry option \<Rightarrow> file_world" where
  "world_with p t e =
     \<lparr>w_files = (\<lambda>k. if k = lit p then Some (Utf8File t) else None), w_mtime = (\<lambda>_. 5),
      w_reads = (\<lambda>k. if k = lit p then e else None)\<rparr>"

definition full_entry :: "ustr \<Rightarrow> read_entry" where
  "full_entry t = \<lparr>re_modified = 5, re_content = Some t, re_is_partial = False\<rparr>"

definition demo_range :: json where
  "demo_range = JObj [(lit ''path'', JStr (lit ''f'')), (lit ''start_line'', JNum 1), (lit ''end_line'', JNum 2),
     (lit ''new_string'', JStr (lit ''x''))]"

theorem edits_need_fresh_read_witness:
  "fresh calm_env (world_with ''f'' (lit ''abc'' @ [10] @ lit ''d'' @ [10]) (Some (full_entry (lit ''abc'' @ [10] @ lit ''d'' @ [10])))) (lit ''f'')"
proof -
  let ?w = "world_with ''f'' (lit ''abc'' @ [10] @ lit ''d'' @ [10]) (Some (full_entry (lit ''abc'' @ [10] @ lit ''d'' @ [10])))"
  have "\<not> isl (fst (replace_lines_call calm_env True demo_range ?w))" by code_simp
  then obtain reply w' where "replace_lines_call calm_env True demo_range ?w = (Inr reply, w')"
    by (cases "replace_lines_call calm_env True demo_range ?w"; cases "fst (replace_lines_call calm_env True demo_range ?w)") auto
  moreover have "jstr ''path'' demo_range = Some (lit ''f'')" by code_simp
  ultimately show ?thesis using edits_need_fresh_read by blast
qed

text \<open>
  A file of which only a range was read has an entry without content, and nothing compares it
  with the disk: after another program has changed the file, \<open>write_file\<close> replaces all of it.
  With a remembered full read the same call is refused.
\<close>

definition demo_overwrite :: json where
  "demo_overwrite = JObj [(lit ''path'', JStr (lit ''f'')), (lit ''content'', JStr (lit ''mine''))]"

definition changed_elsewhere :: "file_world \<Rightarrow> file_world" where
  "changed_elsewhere w = w\<lparr>w_files := (w_files w)(lit ''f'' := Some (Utf8File (lit ''theirs''))), w_mtime := (\<lambda>_. 8)\<rparr>"

theorem range_read_allows_stale_overwrite:
  "(let w = snd (record_read calm_env (lit ''f'') False None (world_with ''f'' (lit ''old'') None));
        (r, w') = write_file_call calm_env True demo_overwrite (changed_elsewhere w)
    in \<not> isl r \<and> file_at calm_env w' (lit ''f'') = Some (Utf8File (lit ''mine''))) \<and>
   (let w = snd (record_read calm_env (lit ''f'') False (Some (lit ''old'')) (world_with ''f'' (lit ''old'') None))
    in isl (fst (write_file_call calm_env True demo_overwrite (changed_elsewhere w))))"
  by (rule conjI; code_simp)

subsection \<open>Sequences of edits\<close>

text \<open>
  \<open>edit_chain\<close> is what the edits promise: each one names a text that occurs once, replaces that
  occurrence and leaves the text around it, and no edit touches what an earlier one has put in.
\<close>

fun edit_chain :: "ustr list \<Rightarrow> ustr \<Rightarrow> (ustr \<times> ustr) list \<Rightarrow> ustr \<Rightarrow> bool" where
  "edit_chain previous t [] u = (t = u)"
| "edit_chain previous t ((old, new) # es) u =
     (old \<noteq> [] \<and> old \<noteq> new \<and> match_count t old = 1 \<and> \<not> list_ex (\<lambda>p. contains_str p old) previous \<and>
      (\<exists>a b. t = a @ old @ b \<and> edit_chain (previous @ [new]) (a @ new @ b) es u))"

definition edit_pairs :: "json list \<Rightarrow> (ustr \<times> ustr) list" where
  "edit_pairs edits = map (\<lambda>e. (the (jstr ''old_string'' e), the (jstr ''new_string'' e))) edits"

lemma apply_edits_chain:
  assumes "apply_edits index edits t previous applied = Inr (u, applied')"
  shows "edit_chain previous t (edit_pairs edits) u \<and> length applied' = length applied + length edits"
  using assms
proof (induction edits arbitrary: index t previous applied)
  case Nil
  then show ?case by (simp add: edit_pairs_def)
next
  case (Cons e edits)
  obtain old new where on: "jstr ''old_string'' e = Some old" "jstr ''new_string'' e = Some new"
    using Cons.prems by (auto split: option.splits)
  have g: "old \<noteq> []" "old \<noteq> new" "\<not> list_ex (\<lambda>p. contains_str p old) previous" "match_count t old = 1"
    using Cons.prems on by (auto split: if_splits)
  obtain out where rec: "apply_edits (index + 1) edits (replace_first t old new) (previous @ [new]) out = Inr (u, applied')"
    "length out = length applied + 1"
    using Cons.prems on g by (auto split: if_splits)
  have "contains_str t old"
    using g(1,4) match_count_from_pos [of old t] by (simp add: match_count_def)
  then obtain a b where "t = a @ old @ b" "replace_first t old new = a @ new @ b"
    using replace_first_split [OF _ g(1)] by blast
  then show ?case using Cons.IH [OF rec(1)] rec(2) on g by (auto simp: edit_pairs_def)
qed

text \<open>
  A successful \<open>multi_edit\<close> is the chain of its edits on the text that was read: every old
  string is found once where its turn comes, only that occurrence changes, no edit reaches into
  the replacement of another, and the file ends as the last text. If one edit fails, no edit is
  written.
\<close>

theorem multi_edit_is_a_chain:
  assumes "multi_edit_call env tracked i w = (r, w')" and "jstr ''path'' i = Some p"
    and "Option.bind (jget ''edits'' i) as_array = Some edits"
  shows "(case r of
      Inr _ \<Rightarrow> (\<exists>original updated. read_file_content env w p = Inr original \<and>
                 edit_chain [] original (edit_pairs edits) updated \<and>
                 file_at env w' p = Some (Utf8File updated))
    | Inl _ \<Rightarrow> w' = w \<or> fe_fails env (WriteOp (fe_canonical env p)))"
proof (cases r)
  case (Inr reply)
  then have m: "multi_edit_call env tracked i w = (Inr reply, w')" using assms(1) by simp
  obtain original updated applied reply0 where "read_file_content env w p = Inr original"
    "apply_edits 0 edits original [] [] = Inr (updated, applied)"
    "store_text env tracked p updated reply0 w = (Inr reply, w')"
    using multi_edit_call_Inr [OF m] assms(2,3) by (metis option.inject)
  with apply_edits_chain store_text_Inr Inr show ?thesis by fastforce
next
  case (Inl e)
  have st: "w' = w \<or> fe_fails env (WriteOp (fe_canonical env p))"
    if "store_text env tracked p c reply w = (Inl e, w')" for c reply
    using that by (auto simp: store_text_def fs_write_def Let_def split: if_splits)
  have "w' = w \<or> fe_fails env (WriteOp (fe_canonical env p))"
    using assms Inl st
    by (auto simp: multi_edit_call_def require_str_def split: sum.splits option.splits if_splits prod.splits)
  then show ?thesis using Inl by simp
qed

definition demo_edits :: json where
  "demo_edits = JObj [(lit ''path'', JStr (lit ''f'')), (lit ''edits'', JArr
     [JObj [(lit ''old_string'', JStr (lit ''b'')), (lit ''new_string'', JStr (lit ''xx''))],
      JObj [(lit ''old_string'', JStr (lit ''c'')), (lit ''new_string'', JStr (lit ''y''))]])]"

theorem multi_edit_is_a_chain_witness:
  "\<exists>original updated. read_file_content calm_env (world_with ''f'' (lit ''abc'') (Some (full_entry (lit ''abc'')))) (lit ''f'')
       = Inr original \<and>
     edit_chain [] original [(lit ''b'', lit ''xx''), (lit ''c'', lit ''y'')] updated"
proof -
  let ?w = "world_with ''f'' (lit ''abc'') (Some (full_entry (lit ''abc'')))"
  have "\<not> isl (fst (multi_edit_call calm_env True demo_edits ?w))" by code_simp
  then obtain reply w' where m: "multi_edit_call calm_env True demo_edits ?w = (Inr reply, w')"
    by (cases "multi_edit_call calm_env True demo_edits ?w"; cases "fst (multi_edit_call calm_env True demo_edits ?w)") auto
  let ?edits = "[JObj [(lit ''old_string'', JStr (lit ''b'')), (lit ''new_string'', JStr (lit ''xx''))],
      JObj [(lit ''old_string'', JStr (lit ''c'')), (lit ''new_string'', JStr (lit ''y''))]]"
  have "jstr ''path'' demo_edits = Some (lit ''f'')"
    "Option.bind (jget ''edits'' demo_edits) as_array = Some ?edits"
    by code_simp+
  note C = multi_edit_is_a_chain [OF m this]
  have pairs: "edit_pairs ?edits = [(lit ''b'', lit ''xx''), (lit ''c'', lit ''y'')]" by code_simp
  show ?thesis using C unfolding sum.case pairs by blast
qed

text \<open>Matches are counted without overlap, so a text that occurs twice can count as unique.\<close>

lemma overlapping_matches_count_once:
  "match_count (lit ''aaa'') (lit ''aa'') = 1 \<and>
   (\<exists>a b. lit ''aaa'' = a @ lit ''aa'' @ b \<and> a = []) \<and> (\<exists>a b. lit ''aaa'' = a @ lit ''aa'' @ b \<and> a \<noteq> [])"
proof (intro conjI)
  show "match_count (lit ''aaa'') (lit ''aa'') = 1" by code_simp
  show "\<exists>a b. lit ''aaa'' = a @ lit ''aa'' @ b \<and> a = []"
    by (intro exI [of _ "[]"] exI [of _ "lit ''a''"]) (simp add: lit_simps)
  show "\<exists>a b. lit ''aaa'' = a @ lit ''aa'' @ b \<and> a \<noteq> []"
    by (intro exI [of _ "lit ''a''"] exI [of _ "[]"]) (simp add: lit_simps)
qed

end
