(* ===== verification/PatchTool.thy ===== *)
theory PatchTool
  imports ApplyPatch FileTools
begin

section \<open>The patch tool\<close>

text \<open>
  \<open>ApplyPatchTool\<close> of \<open>src/crates/rara-tools/src/patch.rs\<close>: it parses the patch, checks that the
  files it changes have been read, computes all new contents from the files as they are, and then
  carries the changes out one by one, keeping a delta of what it has done. An error in the middle
  reports the delta so far; the delta says of itself whether it is exact.
  Only the contents of files are modelled; directories that are created on the way are not.
\<close>

subsection \<open>Replies\<close>

definition jstrs :: "ustr list \<Rightarrow> json" where
  "jstrs ss = JArr (map JStr ss)"

definition jopt :: "ustr option \<Rightarrow> json" where
  "jopt s = (case s of None \<Rightarrow> JNull | Some s \<Rightarrow> JStr s)"

definition applied_patch_change_json :: "applied_change \<Rightarrow> json" where
  "applied_patch_change_json c =
     (case ac_change c of
        AppliedAdd content overwritten \<Rightarrow>
          JObj [(lit ''path'', JStr (ac_path c)), (lit ''kind'', JStr (lit ''add'')),
                (lit ''content'', JStr content), (lit ''overwritten_content'', jopt overwritten)]
      | AppliedDelete content \<Rightarrow>
          JObj [(lit ''path'', JStr (ac_path c)), (lit ''kind'', JStr (lit ''delete'')),
                (lit ''content'', JStr content)]
      | AppliedUpdate move_to original overwritten new \<Rightarrow>
          JObj [(lit ''path'', JStr (ac_path c)), (lit ''kind'', JStr (lit ''update'')),
                (lit ''move_to'', jopt move_to), (lit ''original_content'', JStr original),
                (lit ''overwritten_move_content'', jopt overwritten), (lit ''new_content'', JStr new)])"

definition applied_delta_json :: "applied_delta \<Rightarrow> json" where
  "applied_delta_json d =
     JObj [(lit ''exact'', JBool (ad_exact d)), (lit ''changes'', JArr (map applied_patch_change_json (ad_changes d)))]"

text \<open>The failure of a change: its message and the delta that is appended to it as JSON text.\<close>

datatype patch_tool_error = PatchToolError tool_error | PatchApplyFailure ustr applied_delta

fun patch_tool_error_of :: "patch_error \<Rightarrow> patch_tool_error" where
  "patch_tool_error_of (InvalidInput message) = PatchToolError (ToolInvalidInput message)"
| "patch_tool_error_of (ExecutionFailed message) = PatchToolError (ToolExecutionFailed message)"

subsection \<open>Carrying out a change\<close>

text \<open>A step takes the delta so far and gives the delta after it.\<close>

type_synonym 'a patch_step = "(file_world, patch_tool_error, 'a) em"

definition write_text_file :: "file_env \<Rightarrow> ustr \<Rightarrow> ustr \<Rightarrow> applied_delta \<Rightarrow> unit patch_step" where
  "write_text_file env path content delta =
     (\<lambda>w. if fe_fails env (CreateParents path)
          then (Inl (PatchApplyFailure (lit ''Failed to create parent directory for '' @ path) delta), w)
          else (case fs_write env path content w of
              (Inl _, w) \<Rightarrow> (Inl (PatchApplyFailure (lit ''Failed to write file '' @ path) (mark_inexact delta)), w)
            | (Inr _, w) \<Rightarrow> (Inr (), w)))"

definition file_still_matches :: "file_env \<Rightarrow> file_world \<Rightarrow> ustr \<Rightarrow> ustr \<Rightarrow> bool" where
  "file_still_matches env w path expected_content = (read_file_content env w path = Inr expected_content)"

definition read_optional_existing_text ::
    "file_env \<Rightarrow> file_world \<Rightarrow> ustr \<Rightarrow> applied_delta \<Rightarrow> ustr option \<times> applied_delta" where
  "read_optional_existing_text env w path delta =
     (case read_file_content env w path of
        Inr content \<Rightarrow> (Some content, delta)
      | Inl (ToolIo NotFound) \<Rightarrow> (None, delta)
      | Inl _ \<Rightarrow> (None, mark_inexact delta))"

definition record_if :: "bool \<Rightarrow> file_env \<Rightarrow> ustr \<Rightarrow> ustr \<Rightarrow> file_world \<Rightarrow> file_world" where
  "record_if tracked env path content w =
     (if tracked then record_write_best_effort env path content w else w)"

definition forget_if :: "bool \<Rightarrow> file_env \<Rightarrow> ustr \<Rightarrow> unit patch_step" where
  "forget_if tracked env path =
     (\<lambda>w. if tracked
          then (case forget env path w of
              (Inl e, w) \<Rightarrow> (Inl (PatchToolError e), w)
            | (Inr _, w) \<Rightarrow> (Inr (), w))
          else (Inr (), w))"

text \<open>Removing a file that must still hold the given content when it cannot be removed.\<close>

definition remove_or_fail :: "file_env \<Rightarrow> ustr \<Rightarrow> ustr \<Rightarrow> ustr \<Rightarrow> applied_delta \<Rightarrow> unit patch_step" where
  "remove_or_fail env path expected message delta =
     (\<lambda>w. case fs_remove_file env path w of
        (Inr _, w) \<Rightarrow> (Inr (), w)
      | (Inl _, w) \<Rightarrow>
          (Inl (PatchApplyFailure (message @ path)
             (if file_still_matches env w path expected then delta else mark_inexact delta)), w))"

definition apply_add :: "file_env \<Rightarrow> bool \<Rightarrow> bool \<Rightarrow> ustr \<Rightarrow> ustr \<Rightarrow> applied_delta \<Rightarrow> applied_delta patch_step" where
  "apply_add env tracked dry_run path content delta =
     (\<lambda>w. if file_at env w path \<noteq> None
          then (Inl (PatchApplyFailure (lit ''Cannot add existing file '' @ path) delta), w)
          else if dry_run then (Inr delta, w)
          else (case write_text_file env path content delta w of
              (Inl e, w) \<Rightarrow> (Inl e, w)
            | (Inr _, w) \<Rightarrow>
                (Inr (fst (push_change delta \<lparr>ac_path = path, ac_change = AppliedAdd content None\<rparr>)),
                 record_if tracked env path content w)))"

definition apply_delete :: "file_env \<Rightarrow> bool \<Rightarrow> bool \<Rightarrow> ustr \<Rightarrow> ustr \<Rightarrow> applied_delta \<Rightarrow> applied_delta patch_step" where
  "apply_delete env tracked dry_run path content delta =
     (\<lambda>w. if file_at env w path = None
          then (Inl (PatchApplyFailure (lit ''Cannot delete missing file '' @ path) delta), w)
          else if dry_run then (Inr delta, w)
          else (case forget_if tracked env path w of
              (Inl e, w) \<Rightarrow> (Inl e, w)
            | (Inr _, w) \<Rightarrow>
                (case remove_or_fail env path content (lit ''Failed to delete file '') delta w of
                   (Inl e, w) \<Rightarrow> (Inl e, w)
                 | (Inr _, w) \<Rightarrow>
                     (Inr (fst (push_change delta \<lparr>ac_path = path, ac_change = AppliedDelete content\<rparr>)), w))))"

definition apply_move ::
    "file_env \<Rightarrow> bool \<Rightarrow> ustr \<Rightarrow> ustr \<Rightarrow> ustr \<Rightarrow> ustr \<Rightarrow> applied_delta \<Rightarrow> applied_delta patch_step" where
  "apply_move env tracked path target original_content new_content delta =
     (\<lambda>w. case read_optional_existing_text env w target delta of
        (overwritten, delta) \<Rightarrow>
          (case write_text_file env target new_content delta w of
             (Inl e, w) \<Rightarrow> (Inl e, w)
           | (Inr _, w) \<Rightarrow>
               (case push_change delta \<lparr>ac_path = target, ac_change = AppliedAdd new_content overwritten\<rparr> of
                  (delta, index) \<Rightarrow>
                    (case forget_if tracked env path w of
                       (Inl e, w) \<Rightarrow> (Inl e, w)
                     | (Inr _, w) \<Rightarrow>
                         (case remove_or_fail env path original_content
                                 (lit ''Failed to delete moved source file '') delta w of
                            (Inl e, w) \<Rightarrow> (Inl e, w)
                          | (Inr _, w) \<Rightarrow>
                              (Inr (the (replace_change delta index
                                 \<lparr>ac_path = path, ac_change =
                                    AppliedUpdate (Some target) original_content overwritten new_content\<rparr>)),
                               record_if tracked env target new_content w))))))"

definition apply_update ::
    "file_env \<Rightarrow> bool \<Rightarrow> bool \<Rightarrow> ustr \<Rightarrow> ustr option \<Rightarrow> ustr \<Rightarrow> ustr \<Rightarrow> applied_delta \<Rightarrow> applied_delta patch_step" where
  "apply_update env tracked dry_run path move_to original_content new_content delta =
     (\<lambda>w. if dry_run then (Inr delta, w)
          else if move_to \<noteq> None \<and> move_to \<noteq> Some path
          then apply_move env tracked path (the move_to) original_content new_content delta w
          else
            let write_path = (case move_to of Some target \<Rightarrow> target | None \<Rightarrow> path)
            in (case write_text_file env write_path new_content delta w of
                 (Inl e, w) \<Rightarrow> (Inl e, w)
               | (Inr _, w) \<Rightarrow>
                   (Inr (fst (push_change delta \<lparr>ac_path = path,
                          ac_change = AppliedUpdate None original_content None new_content\<rparr>)),
                    record_if tracked env write_path new_content w)))"

definition apply_change :: "file_env \<Rightarrow> bool \<Rightarrow> bool \<Rightarrow> patch_change \<Rightarrow> applied_delta \<Rightarrow> applied_delta patch_step" where
  "apply_change env tracked dry_run change delta =
     (case change of
        AddChange path content _ \<Rightarrow> apply_add env tracked dry_run path content delta
      | DeleteChange path content _ \<Rightarrow> apply_delete env tracked dry_run path content delta
      | UpdateChange path move_to original new _ \<Rightarrow>
          apply_update env tracked dry_run path move_to original new delta)"

fun apply_changes :: "file_env \<Rightarrow> bool \<Rightarrow> bool \<Rightarrow> patch_change list \<Rightarrow> applied_delta \<Rightarrow> applied_delta patch_step" where
  "apply_changes env tracked dry_run [] delta = retE delta"
| "apply_changes env tracked dry_run (c # cs) delta =
     bindE (apply_change env tracked dry_run c delta) (apply_changes env tracked dry_run cs)"

subsection \<open>The call\<close>

fun validate_targets :: "file_env \<Rightarrow> file_world \<Rightarrow> patch_op list \<Rightarrow> tool_error + unit" where
  "validate_targets env w [] = Inr ()"
| "validate_targets env w (op # ops) =
     (case op of
        AddOp _ _ \<Rightarrow> validate_targets env w ops
      | _ \<Rightarrow>
          (case validate_existing_edit env w (patch_op_path op) of
             Inl e \<Rightarrow> Inl e
           | Inr _ \<Rightarrow> validate_targets env w ops))"

definition read_for_action :: "file_env \<Rightarrow> file_world \<Rightarrow> ustr \<Rightarrow> patch_error + ustr option" where
  "read_for_action env w path =
     (case read_file_content env w path of
        Inr content \<Rightarrow> Inr (Some content)
      | Inl (ToolIo NotFound) \<Rightarrow> Inr None
      | Inl _ \<Rightarrow> Inl (ExecutionFailed (lit ''read error'')))"

definition patch_reply :: "bool \<Rightarrow> patch_action \<Rightarrow> applied_delta \<Rightarrow> json" where
  "patch_reply dry_run action delta =
     (let st = pa_stats action
      in JObj [(lit ''status'', JStr (if dry_run then lit ''validated'' else lit ''applied'')),
           (lit ''files_changed'', jnat (as_files_changed st)),
           (lit ''hunks_applied'', jnat (as_hunks_applied st)),
           (lit ''created_files'', jstrs (as_created_files st)),
           (lit ''deleted_files'', jstrs (as_deleted_files st)),
           (lit ''moved_files'', JArr (map (\<lambda>(a, b). JObj [(lit ''from'', JStr a), (lit ''to'', JStr b)])
              (as_moved_files st))),
           (lit ''updated_files'', jstrs (as_updated_files st)),
           (lit ''line_delta'', JObj [(lit ''added'', jnat (as_added_lines st)),
              (lit ''removed'', jnat (as_removed_lines st))]),
           (lit ''summary'', jstrs (patch_action_summary action)),
           (lit ''diff_preview'', JStr (fst (pa_preview action))),
           (lit ''diff_truncated'', JBool (snd (pa_preview action))),
           (lit ''applied_delta'', applied_delta_json delta)])"

text \<open>What the call prepares before it changes anything: the action, or the error.\<close>

definition prepare_patch ::
    "(uchar \<Rightarrow> bool) \<Rightarrow> file_env \<Rightarrow> bool \<Rightarrow> ustr \<Rightarrow> bool \<Rightarrow> file_world \<Rightarrow> patch_tool_error + patch_action" where
  "prepare_patch alphabetic env tracked patch dry_run w =
     (case parse_patch patch of
        Inl e \<Rightarrow> Inl (patch_tool_error_of e)
      | Inr ops \<Rightarrow>
          (case validate_patch_update_context ops of
             Inl e \<Rightarrow> Inl (patch_tool_error_of e)
           | Inr _ \<Rightarrow>
               (case check_tracked (\<not> dry_run \<and> tracked) (validate_targets env w ops) of
                  Inl e \<Rightarrow> Inl (PatchToolError e)
                | Inr _ \<Rightarrow>
                    (case build_patch_action_from_ops alphabetic patch ops (read_for_action env w) of
                       Inl e \<Rightarrow> Inl (patch_tool_error_of e)
                     | Inr action \<Rightarrow> Inr action))))"

definition apply_patch_call ::
    "(uchar \<Rightarrow> bool) \<Rightarrow> file_env \<Rightarrow> bool \<Rightarrow> json \<Rightarrow> (file_world, patch_tool_error, json) em" where
  "apply_patch_call alphabetic env tracked input =
     (\<lambda>w. case jstr ''patch'' input of
        None \<Rightarrow> (Inl (PatchToolError (ToolInvalidInput (lit ''patch''))), w)
      | Some patch \<Rightarrow>
          let dry_run = (case Option.bind (jget ''dry_run'' input) as_bool of Some b \<Rightarrow> b | None \<Rightarrow> False)
          in (case prepare_patch alphabetic env tracked patch dry_run w of
               Inl e \<Rightarrow> (Inl e, w)
             | Inr action \<Rightarrow>
                 (case apply_changes env tracked dry_run (pa_changes action) empty_delta w of
                    (Inl e, w) \<Rightarrow> (Inl e, w)
                  | (Inr delta, w) \<Rightarrow> (Inr (patch_reply dry_run action delta), w))))"

subsection \<open>Undoing a delta\<close>

text \<open>
  What a reader sees of the files: no file, a file with its text, or something without text.
  \<open>undo_delta\<close> takes the changes of a delta back, the last one first, from what the delta says.
\<close>

type_synonym file_view = "ustr \<Rightarrow> ustr option option"

definition view :: "file_world \<Rightarrow> file_view" where
  "view w = (\<lambda>key. map_option node_text (w_files w key))"

definition put_text :: "file_env \<Rightarrow> ustr \<Rightarrow> ustr option \<Rightarrow> file_view \<Rightarrow> file_view" where
  "put_text env path t v = v(fe_canonical env path := map_option Some t)"

definition undo_change :: "file_env \<Rightarrow> applied_change \<Rightarrow> file_view \<Rightarrow> file_view" where
  "undo_change env c v =
     (case ac_change c of
        AppliedAdd _ overwritten \<Rightarrow> put_text env (ac_path c) overwritten v
      | AppliedDelete content \<Rightarrow> put_text env (ac_path c) (Some content) v
      | AppliedUpdate None original _ _ \<Rightarrow> put_text env (ac_path c) (Some original) v
      | AppliedUpdate (Some target) original overwritten _ \<Rightarrow>
          put_text env target overwritten (put_text env (ac_path c) (Some original) v))"

definition undo_changes :: "file_env \<Rightarrow> applied_change list \<Rightarrow> file_view \<Rightarrow> file_view" where
  "undo_changes env cs v = foldr (undo_change env) cs v"

definition undo_delta :: "file_env \<Rightarrow> applied_delta \<Rightarrow> file_view \<Rightarrow> file_view" where
  "undo_delta env d v = undo_changes env (ad_changes d) v"

definition change_keys :: "file_env \<Rightarrow> applied_change \<Rightarrow> ustr set" where
  "change_keys env c =
     insert (fe_canonical env (ac_path c))
       (case ac_change c of AppliedUpdate (Some target) _ _ _ \<Rightarrow> {fe_canonical env target} | _ \<Rightarrow> {})"

definition touched :: "file_env \<Rightarrow> applied_change list \<Rightarrow> ustr set" where
  "touched env cs = (\<Union>c \<in> set cs. change_keys env c)"

lemma undo_change_other: "key \<notin> change_keys env c \<Longrightarrow> undo_change env c v key = v key"
  by (auto simp: undo_change_def change_keys_def put_text_def split: applied_file_change.splits option.splits)

lemma undo_change_own: "key \<in> change_keys env c \<Longrightarrow> undo_change env c v key = undo_change env c u key"
  by (auto simp: undo_change_def change_keys_def put_text_def split: applied_file_change.splits option.splits)

lemma undo_changes_other: "key \<notin> touched env cs \<Longrightarrow> undo_changes env cs v key = v key"
  by (induction cs) (auto simp: undo_changes_def touched_def undo_change_other)

lemma undo_changes_snoc: "undo_changes env (cs @ [c]) v = undo_changes env cs (undo_change env c v)"
  by (simp add: undo_changes_def)

text \<open>The invariant of the loop: every touched key is restored whatever it holds now, and every
  other key still holds what it held at the start.\<close>

definition restores :: "file_env \<Rightarrow> file_view \<Rightarrow> applied_change list \<Rightarrow> file_world \<Rightarrow> bool" where
  "restores env v0 cs w \<longleftrightarrow>
     (\<forall>key \<in> touched env cs. \<forall>v. undo_changes env cs v key = v0 key) \<and>
     (\<forall>key. key \<notin> touched env cs \<longrightarrow> view w key = v0 key)"

lemma restores_undo: "restores env v0 cs w \<Longrightarrow> undo_changes env cs (view w) = v0"
proof (rule ext)
  fix key assume r: "restores env v0 cs w"
  show "undo_changes env cs (view w) key = v0 key"
    using r undo_changes_other by (cases "key \<in> touched env cs") (auto simp: restores_def)
qed

lemma restores_snoc:
  assumes r: "restores env v0 cs w"
    and own: "\<And>key v. key \<in> change_keys env c \<Longrightarrow> key \<notin> touched env cs \<Longrightarrow> undo_change env c v key = v0 key"
    and frame: "\<And>key. key \<notin> change_keys env c \<Longrightarrow> view w' key = view w key"
  shows "restores env v0 (cs @ [c]) w'"
proof -
  have t: "touched env (cs @ [c]) = touched env cs \<union> change_keys env c" by (simp add: touched_def Un_commute)
  have "undo_changes env (cs @ [c]) v key = v0 key" if "key \<in> touched env (cs @ [c])" for key v
  proof (cases "key \<in> touched env cs")
    case True
    then show ?thesis using r by (simp add: undo_changes_snoc restores_def)
  next
    case False
    then show ?thesis using that own undo_changes_other [OF False] by (simp add: undo_changes_snoc t)
  qed
  moreover have "view w' key = v0 key" if "key \<notin> touched env (cs @ [c])" for key
    using that frame r by (simp add: t restores_def)
  ultimately show ?thesis by (simp add: restores_def)
qed

lemma restores_view_eq: "restores env v0 cs w \<Longrightarrow> view w' = view w \<Longrightarrow> restores env v0 cs w'"
  by (simp add: restores_def)

subsection \<open>What the steps do to the files\<close>

lemma fs_write_view:
  assumes "fs_write env path content w = (Inr u, w')"
  shows "w_files w' = (w_files w)(fe_canonical env path \<mapsto> Utf8File content)"
  using assms by (auto simp: fs_write_def Let_def split: if_splits)

lemma write_text_file_cases:
  assumes "write_text_file env path content delta w = (r, w')"
  shows "(r = Inr () \<and> w_files w' = (w_files w)(fe_canonical env path \<mapsto> Utf8File content))
    \<or> (\<exists>m. r = Inl (PatchApplyFailure m delta) \<and> w' = w)
    \<or> (\<exists>m. r = Inl (PatchApplyFailure m (mark_inexact delta)))"
  using assms
  by (auto simp: write_text_file_def dest: fs_write_view split: if_splits prod.splits sum.splits)

lemma record_if_files [simp]: "w_files (record_if tracked env path content w) = w_files w"
  by (auto simp: record_if_def record_write_best_effort_def record_write_def Let_def split: sum.splits)

lemma forget_if_files: "forget_if tracked env path w = (r, w') \<Longrightarrow> w_files w' = w_files w \<and> (r = Inr () \<or> (\<exists>e. r = Inl (PatchToolError e)))"
  by (auto simp: forget_if_def forget_def split: if_splits sum.splits prod.splits)

lemma remove_or_fail_cases:
  assumes "remove_or_fail env path expected message delta w = (r, w')"
  shows "(r = Inr () \<and> w_files w' = (w_files w)(fe_canonical env path := None))
    \<or> (\<exists>m. r = Inl (PatchApplyFailure m delta) \<and> w' = w)
    \<or> (\<exists>m. r = Inl (PatchApplyFailure m (mark_inexact delta)) \<and> w' = w)"
  using assms
  by (auto simp: remove_or_fail_def fs_remove_file_def Let_def split: if_splits prod.splits sum.splits)

lemma view_cong: "w_files w' = w_files w \<Longrightarrow> view w' = view w"
  by (simp add: view_def)

text \<open>The delta a step leaves behind: the new one, or the one in the reported failure.\<close>

definition delta_of :: "patch_tool_error + applied_delta \<Rightarrow> applied_delta option" where
  "delta_of r =
     (case r of Inr d \<Rightarrow> Some d | Inl (PatchApplyFailure _ d) \<Rightarrow> Some d | Inl (PatchToolError _) \<Rightarrow> None)"

lemma mark_inexact_not_exact [simp]: "\<not> ad_exact (mark_inexact d)"
  by (simp add: mark_inexact_def)

definition change_reads :: "file_env \<Rightarrow> file_view \<Rightarrow> patch_change \<Rightarrow> bool" where
  "change_reads env v0 change =
     (case change of
        AddChange _ _ _ \<Rightarrow> True
      | DeleteChange path content _ \<Rightarrow> v0 (fe_canonical env path) = Some (Some content)
      | UpdateChange path _ original _ _ \<Rightarrow> v0 (fe_canonical env path) = Some (Some original))"

lemma delta_of_simps [simp]:
  "delta_of (Inr d) = Some d" "delta_of (Inl (PatchApplyFailure m d)) = Some d"
  "delta_of (Inl (PatchToolError e)) = None"
  by (simp_all add: delta_of_def)

lemma push_change_simps [simp]:
  "ad_changes (fst (push_change d c)) = ad_changes d @ [c]" "ad_exact (fst (push_change d c)) = ad_exact d"
  "snd (push_change d c) = length (ad_changes d)"
  by (simp_all add: push_change_def)

lemma apply_add_restores:
  assumes "apply_add env tracked False path content delta w = (r, w')"
    and "restores env v0 (ad_changes delta) w" "delta_of r = Some d" "ad_exact d"
  shows "restores env v0 (ad_changes d) w'"
proof (cases "file_at env w path")
  case (Some x)
  then show ?thesis using assms by (auto simp: apply_add_def)
next
  case None
  obtain r1 w1 where wr: "write_text_file env path content delta w = (r1, w1)" by fastforce
  let ?c = "\<lparr>ac_path = path, ac_change = AppliedAdd content None\<rparr>"
  show ?thesis
    using write_text_file_cases [OF wr]
  proof (elim disjE exE conjE)
    assume ok: "r1 = Inr ()" "w_files w1 = (w_files w)(fe_canonical env path \<mapsto> Utf8File content)"
    then have d: "d = fst (push_change delta ?c)" "w_files w' = w_files w1"
      using assms(1,3) wr None by (auto simp: apply_add_def)
    have "restores env v0 (ad_changes delta @ [?c]) w'"
    proof (rule restores_snoc [OF assms(2)])
      fix key v assume "key \<in> change_keys env ?c" "key \<notin> touched env (ad_changes delta)"
      then have "key = fe_canonical env path" "view w key = v0 key"
        using assms(2) by (auto simp: change_keys_def restores_def)
      then show "undo_change env ?c v key = v0 key"
        using None by (simp add: undo_change_def put_text_def view_def file_at_def)
    next
      fix key assume "key \<notin> change_keys env ?c"
      then show "view w' key = view w key" using d(2) ok(2) by (simp add: view_def change_keys_def)
    qed
    then show ?thesis using d(1) by simp
  next
    fix m assume "r1 = Inl (PatchApplyFailure m delta)" "w1 = w"
    then show ?thesis using assms wr None by (auto simp: apply_add_def)
  next
    fix m assume "r1 = Inl (PatchApplyFailure m (mark_inexact delta))"
    then show ?thesis using assms wr None by (auto simp: apply_add_def)
  qed
qed

lemma apply_delete_restores:
  assumes "apply_delete env tracked False path content delta w = (r, w')"
    and "restores env v0 (ad_changes delta) w" "delta_of r = Some d" "ad_exact d"
    and v0: "v0 (fe_canonical env path) = Some (Some content)"
  shows "restores env v0 (ad_changes d) w'"
proof (cases "file_at env w path")
  case None
  then show ?thesis using assms by (auto simp: apply_delete_def)
next
  case (Some x)
  obtain rf wf where f: "forget_if tracked env path w = (rf, wf)" by fastforce
  then have wf: "w_files wf = w_files w" using forget_if_files by blast
  have rf: "rf = Inr ()" using assms(1,3) Some f forget_if_files [OF f] by (auto simp: apply_delete_def)
  obtain r1 w1 where rm: "remove_or_fail env path content (lit ''Failed to delete file '') delta wf = (r1, w1)" by fastforce
  let ?c = "\<lparr>ac_path = path, ac_change = AppliedDelete content\<rparr>"
  have same: "restores env v0 (ad_changes delta) wf" using restores_view_eq [OF assms(2) view_cong [OF wf]] .
  show ?thesis
    using remove_or_fail_cases [OF rm]
  proof (elim disjE exE conjE)
    assume ok: "r1 = Inr ()" "w_files w1 = (w_files wf)(fe_canonical env path := None)"
    then have d: "d = fst (push_change delta ?c)" "w' = w1"
      using assms(1,3) f rf rm Some by (auto simp: apply_delete_def)
    have "restores env v0 (ad_changes delta @ [?c]) w'"
    proof (rule restores_snoc [OF same])
      fix key v assume "key \<in> change_keys env ?c"
      then show "undo_change env ?c v key = v0 key"
        using v0 by (simp add: change_keys_def undo_change_def put_text_def)
    next
      fix key assume "key \<notin> change_keys env ?c"
      then show "view w' key = view wf key" using d(2) ok(2) by (simp add: view_def change_keys_def)
    qed
    then show ?thesis using d(1) by simp
  next
    fix m assume "r1 = Inl (PatchApplyFailure m delta)" "w1 = wf"
    then show ?thesis using assms(1,3) f rf rm Some same by (auto simp: apply_delete_def)
  next
    fix m assume "r1 = Inl (PatchApplyFailure m (mark_inexact delta))"
    then show ?thesis using assms(1,3,4) f rf rm Some by (auto simp: apply_delete_def)
  qed
qed

lemma read_optional_existing_text_exact:
  assumes "read_optional_existing_text env w path delta = (t, delta')" "ad_exact delta'"
  shows "delta' = delta \<and> view w (fe_canonical env path) = map_option Some t"
  using assms
  by (auto simp: read_optional_existing_text_def read_file_content_def read_key_def view_def
      split: sum.splits tool_error.splits io_kind.splits option.splits if_splits)

lemma read_optional_exact_or_inexact:
  "read_optional_existing_text env w path delta = (t, delta') \<Longrightarrow> delta' = delta \<or> delta' = mark_inexact delta"
  by (auto simp: read_optional_existing_text_def split: sum.splits tool_error.splits io_kind.splits)

lemma apply_move_restores:
  assumes "apply_move env tracked path target original new delta w = (r, w')"
    and "restores env v0 (ad_changes delta) w" "delta_of r = Some d" "ad_exact d"
    and v0: "v0 (fe_canonical env path) = Some (Some original)"
  shows "restores env v0 (ad_changes d) w'"
proof -
  obtain ow delta1 where ro: "read_optional_existing_text env w target delta = (ow, delta1)" by fastforce
  obtain r1 w1 where wr: "write_text_file env target new delta1 w = (r1, w1)" by fastforce
  let ?add = "\<lparr>ac_path = target, ac_change = AppliedAdd new ow\<rparr>"
  let ?upd = "\<lparr>ac_path = path, ac_change = AppliedUpdate (Some target) original ow new\<rparr>"
  obtain delta2 where pc: "push_change delta1 ?add = (delta2, length (ad_changes delta1))"
    and d2: "ad_changes delta2 = ad_changes delta1 @ [?add]" "ad_exact delta2 = ad_exact delta1"
    by (rule that [of "fst (push_change delta1 ?add)"]) (simp_all add: push_change_def)
  show ?thesis
    using write_text_file_cases [OF wr]
  proof (elim disjE exE conjE)
    assume ok: "r1 = Inr ()" "w_files w1 = (w_files w)(fe_canonical env target \<mapsto> Utf8File new)"
    obtain rf w2 where f: "forget_if tracked env path w1 = (rf, w2)" by fastforce
    then have w2: "w_files w2 = w_files w1" using forget_if_files by blast
    have rf: "rf = Inr ()"
      using assms(1,3) ro wr ok(1) f forget_if_files [OF f] pc by (auto simp: apply_move_def)
    obtain r3 w3 where rm: "remove_or_fail env path original (lit ''Failed to delete moved source file '') delta2 w2 = (r3, w3)"
      by fastforce
    have exact1: "ad_exact delta1"
      using remove_or_fail_cases [OF rm] assms(1,3,4) ro wr ok(1) f rf rm pc d2
      by (auto simp: apply_move_def replace_change_def)
    note ro' = read_optional_existing_text_exact [OF ro exact1]
    have frame: "key \<noteq> fe_canonical env target \<Longrightarrow> view w2 key = view w key" for key
      using w2 ok(2) by (simp add: view_def)
    have own: "view w key = v0 key" if "key \<notin> touched env (ad_changes delta)" for key
      using that assms(2) by (simp add: restores_def)
    have add: "restores env v0 (ad_changes delta @ [?add]) w2"
      by (rule restores_snoc [OF assms(2)])
        (use ro' own frame in \<open>auto simp: change_keys_def undo_change_def put_text_def\<close>)
    show ?thesis
      using remove_or_fail_cases [OF rm]
    proof (elim disjE exE conjE)
      assume gone: "r3 = Inr ()" "w_files w3 = (w_files w2)(fe_canonical env path := None)"
      have d0: "d = the (replace_change delta2 (length (ad_changes delta1)) ?upd) \<and> w_files w' = w_files w3"
        using assms(1,3) ro wr ok(1) f rf rm gone(1) pc by (auto simp: apply_move_def)
      have "ad_changes (the (replace_change delta2 (length (ad_changes delta1)) ?upd)) = ad_changes delta @ [?upd]"
        using ro' d2(1) by (simp add: replace_change_def)
      then have d: "ad_changes d = ad_changes delta @ [?upd]"
        unfolding conjunct1 [OF d0] .
      note files = conjunct2 [OF d0]
      have "restores env v0 (ad_changes delta @ [?upd]) w'"
      proof (rule restores_snoc [OF assms(2)])
        fix key v assume k: "key \<in> change_keys env ?upd" "key \<notin> touched env (ad_changes delta)"
        show "undo_change env ?upd v key = v0 key"
        proof (cases "key = fe_canonical env target")
          case True
          then have "undo_change env ?upd v key = view w key"
            using ro' by (simp add: undo_change_def put_text_def)
          then show ?thesis using own [OF k(2)] by simp
        next
          case False
          then have "key = fe_canonical env path" using k(1) by (simp add: change_keys_def)
          then show ?thesis using False v0 by (simp add: undo_change_def put_text_def)
        qed
      next
        fix key assume "key \<notin> change_keys env ?upd"
        then show "view w' key = view w key"
          using files gone(2) w2 ok(2) by (simp add: view_def change_keys_def)
      qed
      then show ?thesis unfolding d .
    next
      fix m assume "r3 = Inl (PatchApplyFailure m delta2)" "w3 = w2"
      then have "d = delta2" "w' = w2"
        using assms(1,3) ro wr ok(1) f rf rm pc by (auto simp: apply_move_def)
      then show ?thesis using add ro' d2 by simp
    next
      fix m assume "r3 = Inl (PatchApplyFailure m (mark_inexact delta2))"
      then show ?thesis using assms(1,3,4) ro wr ok(1) f rf rm pc by (auto simp: apply_move_def)
    qed
  next
    fix m assume "r1 = Inl (PatchApplyFailure m delta1)" "w1 = w"
    then have d: "d = delta1" "w' = w" using assms(1,3) ro wr by (auto simp: apply_move_def)
    then have "delta1 = delta" using read_optional_existing_text_exact [OF ro] assms(4) by blast
    then show ?thesis using d assms(2) by simp
  next
    fix m assume "r1 = Inl (PatchApplyFailure m (mark_inexact delta1))"
    then show ?thesis using assms(1,3,4) ro wr by (auto simp: apply_move_def)
  qed
qed

lemma apply_update_restores:
  assumes "apply_update env tracked False path move_to original new delta w = (r, w')"
    and "restores env v0 (ad_changes delta) w" "delta_of r = Some d" "ad_exact d"
    and v0: "v0 (fe_canonical env path) = Some (Some original)"
  shows "restores env v0 (ad_changes d) w'"
proof (cases "move_to \<noteq> None \<and> move_to \<noteq> Some path")
  case True
  then have "apply_move env tracked path (the move_to) original new delta w = (r, w')"
    using assms(1) by (simp add: apply_update_def)
  then show ?thesis by (rule apply_move_restores [OF _ assms(2-5)])
next
  case False
  then have wp: "(case move_to of Some target \<Rightarrow> target | None \<Rightarrow> path) = path"
    by (auto split: option.splits)
  obtain r1 w1 where wr: "write_text_file env path new delta w = (r1, w1)" by fastforce
  let ?c = "\<lparr>ac_path = path, ac_change = AppliedUpdate None original None new\<rparr>"
  have step: "(case write_text_file env path new delta w of
      (Inl e, w) \<Rightarrow> (Inl e, w)
    | (Inr _, w) \<Rightarrow> (Inr (fst (push_change delta ?c)), record_if tracked env path new w)) = (r, w')"
    using assms(1) False wp by (auto simp: apply_update_def Let_def)
  show ?thesis
    using write_text_file_cases [OF wr]
  proof (elim disjE exE conjE)
    assume ok: "r1 = Inr ()" "w_files w1 = (w_files w)(fe_canonical env path \<mapsto> Utf8File new)"
    then have d: "d = fst (push_change delta ?c)" "w_files w' = w_files w1"
      using step assms(3) wr by auto
    have "restores env v0 (ad_changes delta @ [?c]) w'"
    proof (rule restores_snoc [OF assms(2)])
      fix key v assume "key \<in> change_keys env ?c"
      then show "undo_change env ?c v key = v0 key"
        using v0 by (simp add: change_keys_def undo_change_def put_text_def)
    next
      fix key assume "key \<notin> change_keys env ?c"
      then show "view w' key = view w key" using d(2) ok(2) by (simp add: view_def change_keys_def)
    qed
    then show ?thesis using d(1) by simp
  next
    fix m assume "r1 = Inl (PatchApplyFailure m delta)" "w1 = w"
    then show ?thesis using step assms(2,3) wr by auto
  next
    fix m assume "r1 = Inl (PatchApplyFailure m (mark_inexact delta))"
    then show ?thesis using step assms(3,4) wr by auto
  qed
qed

lemma apply_change_restores:
  assumes "apply_change env tracked False change delta w = (r, w')"
    and "restores env v0 (ad_changes delta) w" "delta_of r = Some d" "ad_exact d"
    and "change_reads env v0 change"
  shows "restores env v0 (ad_changes d) w'"
proof (cases change)
  case (AddChange path content n)
  then have "apply_add env tracked False path content delta w = (r, w')"
    using assms(1) by (simp add: apply_change_def)
  then show ?thesis by (rule apply_add_restores [OF _ assms(2-4)])
next
  case (DeleteChange path content n)
  then have "apply_delete env tracked False path content delta w = (r, w')"
    "v0 (fe_canonical env path) = Some (Some content)"
    using assms(1,5) by (simp_all add: apply_change_def change_reads_def)
  then show ?thesis using apply_delete_restores [OF _ assms(2-4)] by blast
next
  case (UpdateChange path move_to original new st)
  then have "apply_update env tracked False path move_to original new delta w = (r, w')"
    "v0 (fe_canonical env path) = Some (Some original)"
    using assms(1,5) by (simp_all add: apply_change_def change_reads_def)
  then show ?thesis using apply_update_restores [OF _ assms(2-4)] by blast
qed

text \<open>A delta that is exact in the end was exact all along.\<close>

lemma apply_move_exact:
  assumes "apply_move env tracked path target original new delta w = (r, w')" "delta_of r = Some d" "ad_exact d"
  shows "ad_exact delta"
proof -
  obtain ow delta1 where ro: "read_optional_existing_text env w target delta = (ow, delta1)" by fastforce
  obtain r1 w1 where wr: "write_text_file env target new delta1 w = (r1, w1)" by fastforce
  obtain rf w2 where f: "forget_if tracked env path w1 = (rf, w2)" by fastforce
  let ?delta2 = "delta1\<lparr>ad_changes := ad_changes delta1 @ [\<lparr>ac_path = target, ac_change = AppliedAdd new ow\<rparr>]\<rparr>"
  obtain r3 w3 where rm: "remove_or_fail env path original (lit ''Failed to delete moved source file '') ?delta2 w2 = (r3, w3)"
    by fastforce
  have "ad_exact delta1"
    using assms ro wr f rm write_text_file_cases [OF wr] forget_if_files [OF f] remove_or_fail_cases [OF rm]
    by (auto simp: apply_move_def push_change_def replace_change_def)
  with read_optional_exact_or_inexact [OF ro] show ?thesis by auto
qed

lemma apply_change_exact:
  assumes "apply_change env tracked False c delta w = (r, w')" "delta_of r = Some d" "ad_exact d"
  shows "ad_exact delta"
proof (cases c)
  case (AddChange path content n)
  obtain r1 w1 where wr: "write_text_file env path content delta w = (r1, w1)" by fastforce
  show ?thesis using assms wr write_text_file_cases [OF wr] AddChange
    by (auto simp: apply_change_def apply_add_def split: if_splits)
next
  case (DeleteChange path content n)
  obtain rf w1 where f: "forget_if tracked env path w = (rf, w1)" by fastforce
  obtain r2 w2 where rm: "remove_or_fail env path content (lit ''Failed to delete file '') delta w1 = (r2, w2)" by fastforce
  show ?thesis using assms f rm forget_if_files [OF f] remove_or_fail_cases [OF rm] DeleteChange
    by (auto simp: apply_change_def apply_delete_def split: if_splits)
next
  case (UpdateChange path move_to original new st)
  show ?thesis
  proof (cases "move_to \<noteq> None \<and> move_to \<noteq> Some path")
    case True
    then have "apply_move env tracked path (the move_to) original new delta w = (r, w')"
      using assms(1) UpdateChange by (simp add: apply_change_def apply_update_def)
    then show ?thesis by (rule apply_move_exact [OF _ assms(2,3)])
  next
    case False
    let ?p = "case move_to of Some target \<Rightarrow> target | None \<Rightarrow> path"
    obtain r1 w1 where wr: "write_text_file env ?p new delta w = (r1, w1)" by fastforce
    show ?thesis using assms wr write_text_file_cases [OF wr] UpdateChange False
      by (auto simp: apply_change_def apply_update_def Let_def split: if_splits)
  qed
qed

lemma apply_changes_exact:
  assumes "apply_changes env tracked False cs delta w = (r, w')" "delta_of r = Some d" "ad_exact d"
  shows "ad_exact delta"
  using assms(1)
proof (induction cs arbitrary: delta w)
  case Nil
  then show ?case using assms(2,3) by auto
next
  case (Cons c cs)
  obtain r1 w1 where c: "apply_change env tracked False c delta w = (r1, w1)" by fastforce
  show ?case
  proof (cases r1)
    case (Inl e)
    then have "delta_of r1 = Some d"
      using Cons.prems c assms(2) by (cases e) (auto simp: bindE_apply delta_of_def)
    then show ?thesis using apply_change_exact [OF c _ assms(3)] by blast
  next
    case (Inr delta1)
    then have rest: "apply_changes env tracked False cs delta1 w1 = (r, w')"
      using Cons.prems c by (simp add: bindE_apply)
    have "ad_exact delta1" by (rule Cons.IH [OF rest])
    then show ?thesis using apply_change_exact [OF c, of delta1] Inr by simp
  qed
qed

lemma apply_changes_restores:
  assumes "apply_changes env tracked False cs delta w = (r, w')"
    and "restores env v0 (ad_changes delta) w" "delta_of r = Some d" "ad_exact d"
    and "\<forall>c \<in> set cs. change_reads env v0 c"
  shows "restores env v0 (ad_changes d) w'"
  using assms(1,2,5)
proof (induction cs arbitrary: delta w)
  case Nil
  then show ?case using assms(3) by auto
next
  case (Cons c cs)
  obtain r1 w1 where c: "apply_change env tracked False c delta w = (r1, w1)" by fastforce
  show ?case
  proof (cases r1)
    case (Inl e)
    then have "r = Inl e" "w' = w1" using Cons.prems(1) c by (auto simp: bindE_apply)
    then have "delta_of r1 = Some d" using Inl assms(3) by (cases e) (auto simp: delta_of_def)
    then show ?thesis
      using apply_change_restores [OF c Cons.prems(2) _ assms(4)] Cons.prems(3) \<open>w' = w1\<close> by simp
  next
    case (Inr delta1)
    then have rest: "apply_changes env tracked False cs delta1 w1 = (r, w')"
      using Cons.prems(1) c by (simp add: bindE_apply)
    have "restores env v0 (ad_changes delta1) w1"
      using apply_change_restores [OF c Cons.prems(2), of delta1] Inr apply_changes_exact [OF rest assms(3,4)] Cons.prems(3) by simp
    then show ?thesis using Cons.IH [OF rest] Cons.prems(3) by simp
  qed
qed

subsection \<open>What the action was computed from\<close>

lemma read_for_action_view:
  "read_for_action env w path = Inr (Some content) \<Longrightarrow> view w (fe_canonical env path) = Some (Some content)"
  by (auto simp: read_for_action_def read_file_content_def read_key_def view_def
      split: sum.splits tool_error.splits io_kind.splits option.splits if_splits)

lemma build_changes_reads:
  assumes "build_changes alphabetic (read_for_action env w) ops changes stats = Inr (out, stats')"
    and "\<forall>c \<in> set changes. change_reads env (view w) c"
  shows "\<forall>c \<in> set out. change_reads env (view w) c"
  using assms
proof (induction ops arbitrary: changes stats)
  case Nil
  then show ?case by simp
next
  case (Cons op ops)
  show ?case
  proof (cases op)
    case (AddOp path ls)
    then obtain n stats1 where f:
      "build_changes alphabetic (read_for_action env w) ops (changes @ [AddChange path (join_lines ls) n]) stats1 = Inr (out, stats')"
      using Cons.prems(1) by auto
    show ?thesis using Cons.IH [OF f] Cons.prems(2) by (simp add: change_reads_def)
  next
    case (DeleteOp path)
    then obtain content n stats1 where f:
      "read_for_action env w path = Inr (Some content)"
      "build_changes alphabetic (read_for_action env w) ops (changes @ [DeleteChange path content n]) stats1 = Inr (out, stats')"
      using Cons.prems(1) by (auto simp: Let_def split: sum.splits option.splits)
    show ?thesis using Cons.IH [OF f(2)] f(1) Cons.prems(2) read_for_action_view
      by (simp add: change_reads_def)
  next
    case (UpdateOp path move_to chunks)
    then obtain original new us stats1 where f:
      "read_for_action env w path = Inr (Some original)"
      "build_changes alphabetic (read_for_action env w) ops (changes @ [UpdateChange path move_to original new us]) stats1 = Inr (out, stats')"
      using Cons.prems(1) by (auto split: sum.splits option.splits)
    show ?thesis using Cons.IH [OF f(2)] f(1) Cons.prems(2) read_for_action_view
      by (simp add: change_reads_def)
  qed
qed

lemma prepare_patch_reads:
  assumes "prepare_patch alphabetic env tracked patch dry_run w = Inr action"
  shows "\<forall>c \<in> set (pa_changes action). change_reads env (view w) c"
  using assms build_changes_reads
  by (fastforce simp: prepare_patch_def build_patch_action_from_ops_def split: sum.splits)

subsection \<open>Properties\<close>

text \<open>
  C20. An exact delta is the whole truth: when the changes of a prepared patch end, with success or
  with a reported failure in the middle, and the delta calls itself exact, undoing it from its own
  contents brings back what every reader saw in every file before the call, aliases of paths and
  files that the patch names several times included.
\<close>

theorem exact_delta_undoes_the_patch:
  assumes "prepare_patch alphabetic env tracked patch False w = Inr action"
    and "apply_changes env tracked False (pa_changes action) empty_delta w = (r, w')"
    and "delta_of r = Some d" and "ad_exact d"
  shows "undo_delta env d (view w') = view w"
proof -
  have "restores env (view w) (ad_changes empty_delta) w"
    by (simp add: restores_def empty_delta_def touched_def)
  from apply_changes_restores [OF assms(2) this assms(3,4) prepare_patch_reads [OF assms(1)]]
  show ?thesis unfolding undo_delta_def by (rule restores_undo)
qed

definition patch_input :: "ustr list \<Rightarrow> json" where
  "patch_input ls = JObj [(lit ''patch'', JStr (join_lines ls))]"

definition demo_world :: file_world where
  "demo_world = \<lparr>w_files = (\<lambda>k. if k = lit ''a'' then Some (Utf8File (join_lines [lit ''1'', lit ''2'', lit ''3'']))
       else if k = lit ''b'' then Some (Utf8File (join_lines [lit ''x''])) else None),
     w_mtime = (\<lambda>_. 1), w_reads = (\<lambda>_. None)\<rparr>"

definition demo_move :: "ustr list" where
  "demo_move = [lit ''*** Begin Patch'', lit ''*** Update File: a'', lit ''*** Move to: b'', lit ''-2'', lit ''+two'',
     lit ''*** Add File: b'', lit ''+y'', lit ''*** End Patch'']"

text \<open>The witness is a patch that fails in its second change, after a move over an existing file.\<close>

theorem exact_delta_undoes_the_patch_witness:
  "\<exists>r w' d. delta_of r = Some d \<and> ad_exact d \<and> ad_changes d \<noteq> [] \<and> isl r \<and>
     undo_delta calm_env d (view w') = view demo_world"
proof -
  let ?p = "prepare_patch is_ascii_alphabetic calm_env False (join_lines demo_move) False demo_world"
  have "\<not> isl ?p" by code_simp
  then obtain action where a: "?p = Inr action" by (cases ?p) auto
  have act: "action = projr ?p" using a by simp
  let ?q = "apply_changes calm_env False False (pa_changes (projr ?p)) empty_delta demo_world"
  obtain r w' where q: "?q = (r, w')" by fastforce
  have "isl (fst ?q) \<and> (case delta_of (fst ?q) of None \<Rightarrow> False | Some d \<Rightarrow> ad_exact d \<and> ad_changes d \<noteq> [])"
    by code_simp
  with q obtain d where d: "isl r" "delta_of r = Some d" "ad_exact d" "ad_changes d \<noteq> []"
    by (auto split: option.splits)
  show ?thesis
    using exact_delta_undoes_the_patch [OF a _ d(2,3), of w'] q act d by blast
qed

text \<open>
  All new contents are computed from the files as they were before the call, so of two update
  sections for one file the second overwrites the first: the call reports success and two applied
  hunks, and the edit of the first section is lost.
\<close>

definition demo_twice :: "ustr list" where
  "demo_twice = [lit ''*** Begin Patch'', lit ''*** Update File: a'', lit ''@@'', lit ''-1'', lit ''+one'',
     lit ''*** Update File: a'', lit ''@@'', lit ''-3'', lit ''+three'', lit ''*** End Patch'']"

theorem second_update_of_a_file_loses_the_first:
  "let (r, w') = apply_patch_call is_ascii_alphabetic calm_env False (patch_input demo_twice) demo_world
   in \<not> isl r \<and> jget ''hunks_applied'' (projr r) = Some (JNum 2) \<and>
      file_at calm_env w' (lit ''a'') = Some (Utf8File (join_lines [lit ''1'', lit ''2'', lit ''three'']))"
  by code_simp

text \<open>
  An error of the read state comes without the delta: when a file is moved twice, the first
  move is done and the target of the second is written before the error, and the reply says
  neither. (With a read state; the entry of a source that is gone cannot be dropped.)
\<close>

definition demo_two_moves :: "ustr list" where
  "demo_two_moves = [lit ''*** Begin Patch'', lit ''*** Update File: a'', lit ''*** Move to: c'', lit ''-1'', lit ''+one'',
     lit ''*** Update File: a'', lit ''*** Move to: d'', lit ''-3'', lit ''+three'', lit ''*** End Patch'']"

definition demo_read_world :: file_world where
  "demo_read_world = demo_world\<lparr>w_reads := (\<lambda>k. if k = lit ''a'' then
     Some \<lparr>re_modified = 1, re_content = Some (join_lines [lit ''1'', lit ''2'', lit ''3'']), re_is_partial = False\<rparr>
     else None)\<rparr>"

lemma partial_application_without_delta:
  "let (r, w') = apply_patch_call is_ascii_alphabetic calm_env True (patch_input demo_two_moves) demo_read_world
   in r = Inl (PatchToolError (ToolIo NotFound)) \<and> file_at calm_env w' (lit ''a'') = None \<and>
      file_at calm_env w' (lit ''c'') = Some (Utf8File (join_lines [lit ''one'', lit ''2'', lit ''3''])) \<and>
      file_at calm_env w' (lit ''d'') = Some (Utf8File (join_lines [lit ''1'', lit ''2'', lit ''three'']))"
  by code_simp

subsection \<open>What a successful patch leaves behind\<close>

definition change_targets :: "file_env \<Rightarrow> patch_change \<Rightarrow> ustr set" where
  "change_targets env change =
     (case change of
        AddChange path _ _ \<Rightarrow> {fe_canonical env path}
      | DeleteChange path _ _ \<Rightarrow> {fe_canonical env path}
      | UpdateChange path move_to _ _ _ \<Rightarrow>
          insert (fe_canonical env path) (case move_to of Some t \<Rightarrow> {fe_canonical env t} | None \<Rightarrow> {}))"

fun separate :: "file_env \<Rightarrow> patch_change list \<Rightarrow> bool" where
  "separate env [] = True"
| "separate env (c # cs) =
     ((\<forall>d \<in> set cs. change_targets env c \<inter> change_targets env d = {}) \<and> separate env cs)"

definition carried_out :: "file_env \<Rightarrow> file_world \<Rightarrow> patch_change \<Rightarrow> bool" where
  "carried_out env w change \<longleftrightarrow>
     (case change of
        AddChange path content _ \<Rightarrow> file_at env w path = Some (Utf8File content)
      | DeleteChange path _ _ \<Rightarrow> file_at env w path = None
      | UpdateChange path None _ new _ \<Rightarrow> file_at env w path = Some (Utf8File new)
      | UpdateChange path (Some target) _ new _ \<Rightarrow>
          (target \<noteq> path \<longrightarrow> file_at env w path = None) \<and>
          (fe_canonical env target \<noteq> fe_canonical env path \<or> target = path \<longrightarrow>
             file_at env w target = Some (Utf8File new)))"

definition only_changes :: "ustr set \<Rightarrow> file_world \<Rightarrow> file_world \<Rightarrow> bool" where
  "only_changes keys w w' \<longleftrightarrow> (\<forall>key. key \<notin> keys \<longrightarrow> w_files w' key = w_files w key)"

lemma apply_move_done:
  assumes "apply_move env tracked path target original new delta w = (Inr d, w')"
  shows "w_files w' = (w_files w)(fe_canonical env target \<mapsto> Utf8File new, fe_canonical env path := None)"
proof -
  obtain ow delta1 where ro: "read_optional_existing_text env w target delta = (ow, delta1)" by fastforce
  obtain r1 w1 where wr: "write_text_file env target new delta1 w = (r1, w1)" by fastforce
  obtain rf w2 where f: "forget_if tracked env path w1 = (rf, w2)" by fastforce
  let ?delta2 = "delta1\<lparr>ad_changes := ad_changes delta1 @ [\<lparr>ac_path = target, ac_change = AppliedAdd new ow\<rparr>]\<rparr>"
  obtain r3 w3 where rm: "remove_or_fail env path original (lit ''Failed to delete moved source file '') ?delta2 w2 = (r3, w3)"
    by fastforce
  have r: "r1 = Inr ()" "rf = Inr ()" "r3 = Inr ()" "w_files w' = w_files w3"
    using assms ro wr f rm write_text_file_cases [OF wr] forget_if_files [OF f] remove_or_fail_cases [OF rm]
    by (auto simp: apply_move_def push_change_def)
  then show ?thesis
    using write_text_file_cases [OF wr] forget_if_files [OF f] remove_or_fail_cases [OF rm] by auto
qed

lemma apply_change_done:
  assumes "apply_change env tracked False c delta w = (Inr d, w')"
  shows "carried_out env w' c \<and> only_changes (change_targets env c) w w'"
proof (cases c)
  case (AddChange path content n)
  obtain r1 w1 where wr: "write_text_file env path content delta w = (r1, w1)" by fastforce
  show ?thesis using assms wr write_text_file_cases [OF wr] AddChange
    by (auto simp: apply_change_def apply_add_def carried_out_def only_changes_def change_targets_def file_at_def
        split: if_splits)
next
  case (DeleteChange path content n)
  obtain rf w1 where f: "forget_if tracked env path w = (rf, w1)" by fastforce
  obtain r2 w2 where rm: "remove_or_fail env path content (lit ''Failed to delete file '') delta w1 = (r2, w2)" by fastforce
  show ?thesis using assms f rm forget_if_files [OF f] remove_or_fail_cases [OF rm] DeleteChange
    by (auto simp: apply_change_def apply_delete_def carried_out_def only_changes_def change_targets_def file_at_def
        split: if_splits)
next
  case (UpdateChange path move_to original new st)
  show ?thesis
  proof (cases "move_to \<noteq> None \<and> move_to \<noteq> Some path")
    case True
    then obtain target where t: "move_to = Some target" "target \<noteq> path" by auto
    have "apply_move env tracked path target original new delta w = (Inr d, w')"
      using assms UpdateChange t by (simp add: apply_change_def apply_update_def)
    from apply_move_done [OF this] UpdateChange t show ?thesis
      by (simp add: carried_out_def only_changes_def change_targets_def file_at_def)
  next
    case False
    then have wp: "(case move_to of Some target \<Rightarrow> target | None \<Rightarrow> path) = path"
      by (auto split: option.splits)
    obtain r1 w1 where wr: "write_text_file env path new delta w = (r1, w1)" by fastforce
    have "w_files w' = (w_files w)(fe_canonical env path \<mapsto> Utf8File new)"
      using assms wr write_text_file_cases [OF wr] UpdateChange False wp
      by (auto simp: apply_change_def apply_update_def Let_def)
    then show ?thesis using UpdateChange False
      by (auto simp: carried_out_def only_changes_def change_targets_def file_at_def split: option.splits)
  qed
qed

lemma carried_out_frame:
  "carried_out env w c \<Longrightarrow> only_changes keys w w' \<Longrightarrow> change_targets env c \<inter> keys = {} \<Longrightarrow> carried_out env w' c"
  by (cases c) (auto simp: carried_out_def only_changes_def change_targets_def file_at_def split: option.splits)

text \<open>
  When the changes of a patch name different files and all are carried out, every file is what
  the patch says: added and updated files have exactly the new text, deleted files and the sources
  of moves are gone, and no other file is touched.
\<close>

theorem successful_patch_is_carried_out:
  assumes "apply_changes env tracked False cs delta w = (Inr d, w')" and "separate env cs"
  shows "list_all (carried_out env w') cs \<and> only_changes (\<Union>c \<in> set cs. change_targets env c) w w'"
  using assms
proof (induction cs arbitrary: delta w)
  case Nil
  then show ?case by (simp add: only_changes_def)
next
  case (Cons c cs)
  obtain delta1 w1 where c: "apply_change env tracked False c delta w = (Inr delta1, w1)"
    "apply_changes env tracked False cs delta1 w1 = (Inr d, w')"
    using Cons.prems(1) by (auto simp: bindE_apply split: prod.splits sum.splits)
  note one = apply_change_done [OF c(1)]
  have rest: "list_all (carried_out env w') cs" "only_changes (\<Union>c \<in> set cs. change_targets env c) w1 w'"
    using Cons.IH [OF c(2)] Cons.prems(2) by simp_all
  have "change_targets env c \<inter> (\<Union>c \<in> set cs. change_targets env c) = {}"
    using Cons.prems(2) by auto
  then have "carried_out env w' c" using carried_out_frame one rest(2) by blast
  moreover have "only_changes (\<Union>c \<in> set (c # cs). change_targets env c) w w'"
    using one rest(2) by (simp add: only_changes_def)
  ultimately show ?case using rest(1) by simp
qed

theorem successful_patch_is_carried_out_witness:
  "\<exists>d w'. apply_changes calm_env False False
       [DeleteChange (lit ''b'') (join_lines [lit ''x'']) 1, AddChange (lit ''n'') (lit ''t'') 1] empty_delta demo_world
       = (Inr d, w') \<and>
     file_at calm_env w' (lit ''b'') = None \<and> file_at calm_env w' (lit ''n'') = Some (Utf8File (lit ''t''))"
proof -
  let ?cs = "[DeleteChange (lit ''b'') (join_lines [lit ''x'']) 1, AddChange (lit ''n'') (lit ''t'') 1]"
  let ?q = "apply_changes calm_env False False ?cs empty_delta demo_world"
  have "\<not> isl (fst ?q)" by code_simp
  then obtain d w' where q: "?q = (Inr d, w')" by (cases ?q; cases "fst ?q") auto
  have "separate calm_env ?cs" by (simp add: change_targets_def calm_env_def)
  from successful_patch_is_carried_out [OF q this] q show ?thesis by (auto simp: carried_out_def)
qed

lemma dry_run_writes_nothing:
  "apply_changes env tracked True cs delta w = (r, w') \<Longrightarrow> w' = w"
proof (induction cs arbitrary: delta)
  case (Cons c cs)
  obtain r1 w1 where c: "apply_change env tracked True c delta w = (r1, w1)" by fastforce
  then have "w1 = w"
    by (auto simp: apply_change_def apply_add_def apply_delete_def apply_update_def
        split: patch_change.splits if_splits)
  then show ?case using Cons c by (cases r1) (auto simp: bindE_apply)
qed simp

text \<open>A move to another spelling of the same path writes the file and then deletes it.\<close>

definition dotted_env :: file_env where
  "dotted_env = calm_env\<lparr>fe_canonical :=
     (\<lambda>p. case strip_prefix p (lit ''./'') of Some q \<Rightarrow> q | None \<Rightarrow> p)\<rparr>"

lemma move_to_alias_deletes_the_file:
  "let (r, w') = apply_patch_call is_ascii_alphabetic dotted_env False
       (patch_input [lit ''*** Begin Patch'', lit ''*** Update File: a'', lit ''*** Move to: ./a'', lit ''-1'',
          lit ''+one'', lit ''*** End Patch'']) demo_world
   in \<not> isl r \<and> file_at dotted_env w' (lit ''a'') = None"
  by code_simp

end
