(* ===== verification/RuntimeTypes.thy ===== *)
theory RuntimeTypes
  imports ToolHistory
begin

section \<open>Runtime sessions: the shared vocabulary\<close>

text \<open>
  The types of \<open>rara-runtime\<close> that the event log, the event stream and the session actor share
  (\<open>ids.rs\<close>, \<open>turn.rs\<close>, \<open>error.rs\<close>, \<open>snapshot.rs\<close>, \<open>driver.rs\<close>, \<open>shutdown.rs\<close>). Identities are the
  strings they wrap. The usage report of a turn belongs to another crate and is only passed
  through: it is the type parameter \<open>'q\<close>.
\<close>

type_synonym runtime_turn_id = ustr
type_synonym runtime_session_id = ustr

datatype turn_stop_kind = Cancel | Interrupt

datatype input_discard_reason =
    Discard_Cancelled
  | Discard_Interrupted
  | Discard_Shutdown
  | Discard_Superseded

datatype pending_disposition =
    Disposition_None
  | Disposition_Answered
  | Disposition_Superseded

datatype turn_finish_reason = Finish_Completed | Finish_AwaitingInput

record 'q turn_outcome =
  outcome_turn :: runtime_turn_id
  query_report :: 'q
  outcome_transcript :: "message list"

datatype 'q session_error =
    Busy runtime_turn_id
  | NotRunning
  | AwaitingInputOf runtime_turn_id
  | NoPendingInput
  | StaleInput runtime_turn_id runtime_turn_id
  | InputKindMismatch
  | StaleTurn runtime_turn_id runtime_turn_id
  | StopInProgress runtime_turn_id
  | InvalidSource
  | UnsupportedSource
  | SourceCapacity
  | SourceUnavailable
  | AlreadyExists runtime_session_id
  | Overloaded
  | SessionClosed
  | ShutdownFailed
  | ActorStopped
  | TurnCancelled "'q turn_outcome"
  | TurnInterrupted "'q turn_outcome"
  | EventLagged nat
  | ResyncRequired nat nat nat
  | Execution ustr "'q turn_outcome"

definition turn_outcome_of :: "'q session_error \<Rightarrow> 'q turn_outcome option" where
  "turn_outcome_of e = (case e of
     TurnCancelled out \<Rightarrow> Some out
   | TurnInterrupted out \<Rightarrow> Some out
   | Execution _ out \<Rightarrow> Some out
   | _ \<Rightarrow> None)"

datatype session_phase =
    Idle
  | AwaitingInput runtime_turn_id
  | Running runtime_turn_id
  | Cancelling runtime_turn_id
  | Closing
  | Closed

record 'p session_snapshot =
  snap_session :: runtime_session_id
  snap_phase :: session_phase
  snap_generation :: nat
  snap_last_sequence :: nat
  snap_pending :: "'p option"

datatype 'p session_lifecycle =
    LTurnStarted runtime_turn_id
  | LInputAnswered runtime_turn_id runtime_turn_id
  | LInputDiscarded runtime_turn_id input_discard_reason
  | LInputRequested 'p
  | LTurnFinished runtime_turn_id turn_finish_reason
  | LTurnStopped runtime_turn_id turn_stop_kind
  | LTurnFailed runtime_turn_id ustr
  | LRuntimeState "'p session_snapshot"

datatype shutdown_outcome = Complete | Failed

definition shutdown_result :: "shutdown_outcome \<Rightarrow> 'q session_error + unit" where
  "shutdown_result out = (case out of Complete \<Rightarrow> Inr () | Failed \<Rightarrow> Inl ShutdownFailed)"

end
