(* ===== verification/EventLog.thy ===== *)
theory EventLog
  imports RuntimeTypes
begin

section \<open>The event log of a session\<close>

text \<open>
  \<open>rara-runtime/src/native/event_log.rs\<close>. One log numbers the events of a session, keeps the
  last \<open>capacity\<close> of them for replay and hands each to the broadcast channel. The channel is
  tokio's and is a parameter: \<open>send\<close> gives the channel after the send and the number of
  receivers, \<open>None\<close> when there are none. The publication lock makes every operation one step.
  A counter at \<open>u64::MAX\<close> is the result \<open>None\<close> of \<open>publish\<close>.
\<close>

record replay_gap =
  requested :: nat
  oldest_available :: nat
  latest :: nat

definition resync_error :: "replay_gap \<Rightarrow> 'q session_error" where
  "resync_error gap = ResyncRequired (requested gap) (oldest_available gap) (latest gap)"

record 'e publication =
  pub_sequence :: nat
  pub_replay :: "'e list"

record ('b, 'e) event_log =
  log_sender :: 'b
  log_publication :: "'e publication"
  log_capacity :: nat

definition with_sender :: "'b \<Rightarrow> nat \<Rightarrow> ('b, 'e) event_log" where
  "with_sender b cap = \<lparr>log_sender = b,
     log_publication = \<lparr>pub_sequence = 0, pub_replay = []\<rparr>, log_capacity = max cap 1\<rparr>"

definition new_log :: "(nat \<Rightarrow> 'b) \<Rightarrow> nat \<Rightarrow> ('b, 'e) event_log" where
  "new_log channel cap = with_sender (channel (max cap 1)) (max cap 1)"

fun trim_replay :: "nat \<Rightarrow> 'e list \<Rightarrow> 'e list" where
  "trim_replay cap [] = []"
| "trim_replay cap (e # es) = (if length (e # es) > cap then trim_replay cap es else e # es)"

definition publish ::
  "('b \<Rightarrow> 'e \<Rightarrow> nat option \<times> 'b) \<Rightarrow> (nat \<Rightarrow> 'e) \<Rightarrow> ('r \<Rightarrow> 'e \<Rightarrow> 'r) \<Rightarrow>
   ('b, 'e) event_log \<times> 'r \<Rightarrow> (nat \<times> ('b, 'e) event_log \<times> 'r) option" where
  "publish send build retain_receipt lr = (case lr of (lg, r) \<Rightarrow>
     (case checked_add64 (pub_sequence (log_publication lg)) 1 of
        None \<Rightarrow> None
      | Some n \<Rightarrow>
          let event = build n;
              kept = trim_replay (log_capacity lg) (pub_replay (log_publication lg) @ [event]);
              r' = retain_receipt r event;
              (receivers, b') = send (log_sender lg) event
          in Some (case receivers of None \<Rightarrow> 0 | Some k \<Rightarrow> k,
               lg\<lparr>log_sender := b',
                 log_publication := \<lparr>pub_sequence = n, pub_replay = kept\<rparr>\<rparr>, r')))"

definition current_sequence_of :: "('b, 'e) event_log \<Rightarrow> nat" where
  "current_sequence_of lg = pub_sequence (log_publication lg)"

definition replay_after ::
  "('e \<Rightarrow> nat) \<Rightarrow> ('b, 'e) event_log \<Rightarrow> nat \<Rightarrow> replay_gap + 'e list" where
  "replay_after seq_of lg n =
     (let pub = log_publication lg; last = pub_sequence pub in
      if n = last then Inr []
      else
        let oldest = (case pub_replay pub of
                        [] \<Rightarrow> saturating_add64 last 1
                      | e # _ \<Rightarrow> seq_of e)
        in if n > last \<or> saturating_add64 n 1 < oldest
           then Inl \<lparr>requested = n, oldest_available = oldest, latest = last\<rparr>
           else Inr (filter (\<lambda>e. seq_of e > n) (pub_replay pub)))"

subsection \<open>The replay window\<close>

text \<open>The window holds the last events, one for each number, up to the current one.\<close>

definition log_ok :: "('e \<Rightarrow> nat) \<Rightarrow> ('b, 'e) event_log \<Rightarrow> bool" where
  "log_ok seq_of lg \<longleftrightarrow>
     (let pub = log_publication lg; n = pub_sequence pub; k = length (pub_replay pub) in
      log_capacity lg \<ge> 1 \<and> n \<le> u64_max \<and> k = min (log_capacity lg) n \<and>
      map seq_of (pub_replay pub) = [Suc (n - k)..<Suc n])"

lemma trim_replay_eq: "trim_replay cap es = drop (length es - cap) es"
  by (induction es) (auto simp: Suc_diff_le)

lemma with_sender_ok: "log_ok seq_of (with_sender b cap)"
  by (simp add: log_ok_def with_sender_def)

lemma publish_cases:
  assumes "publish send build retain (lg, r) = Some (k, lg', r')"
  shows "pub_sequence (log_publication lg') = Suc (pub_sequence (log_publication lg))"
    and "Suc (pub_sequence (log_publication lg)) \<le> u64_max"
    and "pub_replay (log_publication lg') =
           drop (Suc (length (pub_replay (log_publication lg))) - log_capacity lg)
             (pub_replay (log_publication lg) @ [build (Suc (pub_sequence (log_publication lg)))])"
    and "log_capacity lg' = log_capacity lg"
    and "r' = retain r (build (Suc (pub_sequence (log_publication lg))))"
  using assms
  by (auto simp: publish_def checked_add64_def Let_def trim_replay_eq
      split: option.splits if_splits prod.splits)

lemma publish_ok:
  assumes ok: "log_ok seq_of lg" and build: "\<And>n. seq_of (build n) = n"
    and p: "publish send build retain (lg, r) = Some (k, lg', r')"
  shows "log_ok seq_of lg'"
proof -
  define n where "n = pub_sequence (log_publication lg)"
  define es where "es = pub_replay (log_publication lg)"
  have len: "length es = min (log_capacity lg) n" and cap: "log_capacity lg \<ge> 1"
    and seqs: "map seq_of es = [Suc (n - length es)..<Suc n]"
    using ok by (simp_all add: log_ok_def Let_def n_def es_def)
  have "map seq_of (es @ [build (Suc n)]) = [Suc (n - length es)..<Suc (Suc n)]"
    using seqs build len by simp
  then have "map seq_of (drop (Suc (length es) - log_capacity lg) (es @ [build (Suc n)]))
      = [Suc (n - length es) + (Suc (length es) - log_capacity lg)..<Suc (Suc n)]"
    by (metis drop_map drop_upt)
  with len cap publish_cases [OF p] show ?thesis
    by (auto simp: log_ok_def Let_def n_def es_def min_def split: if_splits)
qed

text \<open>
  On a well-formed log the answer depends on the window only: the missed events when all of them
  are still there, and otherwise the numbers a client needs to resynchronise.
\<close>

lemma Cons_eq_upt: "x # xs = [a..<b] \<longleftrightarrow> a < b \<and> x = a \<and> xs = [Suc a..<b]"
  using upt_eq_Cons_conv [of a b x xs] by (simp only: eq_commute [of "x # xs"] eq_commute [of xs])
    (simp add: eq_commute [of x] del: upt_Suc)

lemma filter_above_upt:
  "map f es = [a..<b] \<Longrightarrow> filter (\<lambda>e. f e > n) es = drop (Suc n - a) es"
proof (induction es arbitrary: a)
  case Nil
  then show ?case by simp
next
  case (Cons e es)
  then have a: "f e = a" "a < b" and es: "map f es = [Suc a..<b]"
    by (simp_all add: Cons_eq_upt del: upt_Suc)
  have "\<forall>x\<in>set es. a < f x"
    using arg_cong [OF es, of set]
    by (metis Suc_le_lessD atLeastLessThan_iff imageI list.set_map set_upt)
  with a Cons.IH [OF es] show ?case
    by (cases "n < a") (auto simp: Suc_diff_le filter_id_conv)
qed

lemma replay_after_eq:
  assumes "log_ok seq_of lg"
  defines "hi \<equiv> pub_sequence (log_publication lg)"
    and "es \<equiv> pub_replay (log_publication lg)"
  shows "replay_after seq_of lg n =
     (if hi - length es \<le> n \<and> n \<le> hi then Inr (drop (n - (hi - length es)) es)
      else Inl \<lparr>requested = n, oldest_available = Suc (hi - length es), latest = hi\<rparr>)"
proof -
  have ok: "log_capacity lg \<ge> 1" "hi \<le> u64_max" "length es = min (log_capacity lg) hi"
      "map seq_of es = [Suc (hi - length es)..<Suc hi]"
    using assms by (simp_all add: log_ok_def Let_def)
  note flt = filter_above_upt [OF ok(4), of n]
  show ?thesis
  proof (cases es)
    case Nil
    then have "hi = 0" using ok by (auto simp: min_def split: if_splits)
    with Nil show ?thesis
      using u64_max_pos
      by (simp add: replay_after_def Let_def saturating_add64_def
          flip: hi_def es_def)
  next
    case (Cons e fs)
    then have "seq_of e = Suc (hi - length es)" "length es \<le> hi"
      using ok(3,4) by (simp_all add: Cons_eq_upt del: upt_Suc)
    with Cons flt ok(2) show ?thesis
      by (auto simp: replay_after_def Let_def saturating_add64_def simp flip: hi_def es_def
          split: if_splits)
  qed
qed

lemma replay_after_ok:
  assumes ok: "log_ok seq_of lg" and r: "replay_after seq_of lg n = Inr es"
  shows "map seq_of es = [Suc n..<Suc (current_sequence_of lg)]"
    and "n \<le> current_sequence_of lg"
proof -
  define m where "m = pub_sequence (log_publication lg) - length (pub_replay (log_publication lg))"
  have n: "m \<le> n" "n \<le> current_sequence_of lg"
    and es: "es = drop (n - m) (pub_replay (log_publication lg))"
    using r unfolding replay_after_eq [OF ok] m_def current_sequence_of_def
    by (auto split: if_splits)
  have seqs: "map seq_of (pub_replay (log_publication lg)) = [Suc m..<Suc (current_sequence_of lg)]"
    using ok by (simp add: log_ok_def Let_def m_def current_sequence_of_def)
  have "map seq_of es = drop (n - m) (map seq_of (pub_replay (log_publication lg)))"
    by (simp add: es drop_map)
  also have "\<dots> = [Suc m + (n - m)..<Suc (current_sequence_of lg)]"
    unfolding seqs drop_upt ..
  finally show "map seq_of es = [Suc n..<Suc (current_sequence_of lg)]"
    using n by simp
  show "n \<le> current_sequence_of lg" by (rule n)
qed

subsection \<open>Publishing a history\<close>

fun publish_list ::
  "('b \<Rightarrow> 'e \<Rightarrow> nat option \<times> 'b) \<Rightarrow> ('p \<Rightarrow> nat \<Rightarrow> 'e) \<Rightarrow> 'p list \<Rightarrow> ('b, 'e) event_log \<Rightarrow>
   ('b, 'e) event_log option" where
  "publish_list send mk [] lg = Some lg"
| "publish_list send mk (p # ps) lg =
     (case publish send (mk p) (\<lambda>r _. r) (lg, ()) of
        None \<Rightarrow> None
      | Some (_, lg', _) \<Rightarrow> publish_list send mk ps lg')"

text \<open>The events of a history: its payloads numbered from 1.\<close>

definition numbered :: "('p \<Rightarrow> nat \<Rightarrow> 'e) \<Rightarrow> 'p list \<Rightarrow> 'e list" where
  "numbered mk ps = map2 mk ps [1..<Suc (length ps)]"

lemma length_numbered [simp]: "length (numbered mk ps) = length ps"
  by (simp add: numbered_def del: upt_Suc)

lemma numbered_Nil [simp]: "numbered mk [] = []"
  by (simp add: numbered_def)

lemma numbered_snoc: "numbered mk (ps @ [p]) = numbered mk ps @ [mk p (Suc (length ps))]"
proof -
  have "[1..<Suc (length (ps @ [p]))] = [1..<Suc (length ps)] @ [Suc (length ps)]" by simp
  then show ?thesis by (simp add: numbered_def del: upt_Suc)
qed

lemma publish_list_append:
  "publish_list send mk (ps @ qs) lg =
     (case publish_list send mk ps lg of None \<Rightarrow> None | Some l \<Rightarrow> publish_list send mk qs l)"
  by (induction send mk ps lg rule: publish_list.induct) (auto split: option.splits)

lemma published_window:
  "publish_list send mk ps (with_sender b cap) = Some lg \<Longrightarrow>
     log_capacity lg = max cap 1 \<and> pub_sequence (log_publication lg) = length ps \<and>
     length ps \<le> u64_max \<and>
     pub_replay (log_publication lg) = drop (length ps - max cap 1) (numbered mk ps)"
proof (induction ps arbitrary: lg rule: rev_induct)
  case Nil
  then show ?case by (auto simp: with_sender_def)
next
  case (snoc p ps)
  then obtain l k where l: "publish_list send mk ps (with_sender b cap) = Some l"
      and p: "publish send (mk p) (\<lambda>r _. r) (l, ()) = Some (k, lg, ())"
    by (auto simp: publish_list_append split: option.splits)
  note IH = snoc.IH [OF l] and pc = publish_cases [OF p]
  have "pub_replay (log_publication lg) =
      drop (Suc (length ps - (length ps - max cap 1)) - max cap 1)
        (drop (length ps - max cap 1) (numbered mk ps) @ [mk p (Suc (length ps))])"
    using IH pc(3) by simp
  also have "\<dots> = drop (length (ps @ [p]) - max cap 1) (numbered mk (ps @ [p]))"
  proof -
    have "length ps - max cap 1 + (Suc (length ps - (length ps - max cap 1)) - max cap 1)
        = Suc (length ps) - max cap 1" by arith
    then show ?thesis by (simp add: numbered_snoc add.commute) arith?
  qed
  finally show ?case using IH pc by simp
qed

lemma published_ok:
  assumes build: "\<And>p n. seq_of (mk p n) = n"
    and run: "publish_list send mk ps (with_sender b cap) = Some lg"
  shows "log_ok seq_of lg"
proof -
  note w = published_window [OF run]
  have seqs: "map seq_of (numbered mk qs) = [1..<Suc (length qs)]" for qs
    by (induction qs rule: rev_induct) (simp_all add: numbered_snoc build)
  show ?thesis
    using w by (auto simp: log_ok_def Let_def min_def drop_upt seqs simp flip: drop_map)
qed

lemma replay_after_published:
  assumes build: "\<And>p n. seq_of (mk p n) = n"
    and run: "publish_list send mk ps (with_sender b cap) = Some lg"
  shows "replay_after seq_of lg n =
     (if length ps - max cap 1 \<le> n \<and> n \<le> length ps
      then Inr (drop n (numbered mk ps))
      else Inl \<lparr>requested = n, oldest_available = Suc (length ps - max cap 1),
             latest = length ps\<rparr>)"
  using replay_after_eq [OF published_ok [OF build run], of n] published_window [OF run]
  by (auto simp: min_def)

subsection \<open>Properties\<close>

text \<open>
  C25. A client that has seen the first \<open>n\<close> events gets exactly the events published after them, in
  order and without a gap, as long as they are within the capacity of the log; otherwise it
  gets the gap: what it asked for, the oldest number that is still there, and the latest.
\<close>

theorem replay_is_exact:
  assumes "\<And>p n. seq_of (mk p n) = n"
    and "publish_list send mk ps (with_sender b cap) = Some lg"
  shows "replay_after seq_of lg n =
     (if length ps - max cap 1 \<le> n \<and> n \<le> length ps
      then Inr (drop n (numbered mk ps))
      else Inl \<lparr>requested = n, oldest_available = Suc (length ps - max cap 1),
             latest = length ps\<rparr>)"
  by (rule replay_after_published [OF assms])

theorem replay_is_exact_witness:
  "\<exists>lg. publish_list (\<lambda>b e. (None, b)) (\<lambda>p n. (n, p)) ''abcde'' (with_sender () 3) = Some lg \<and>
     replay_after fst lg 3 = Inr [(4, CHR ''d''), (5, CHR ''e'')] \<and>
     replay_after fst lg 1 = Inl \<lparr>requested = 1, oldest_available = 3, latest = 5\<rparr>"
proof -
  obtain lg where lg:
    "publish_list (\<lambda>b e. (None, b)) (\<lambda>p n. (n, p)) ''abcde'' (with_sender () 3) = Some lg"
    by (simp add: publish_def with_sender_def checked_add64_code)
  then show ?thesis
    using replay_is_exact [where seq_of = fst, OF _ lg, of 3]
      replay_is_exact [where seq_of = fst, OF _ lg, of 1]
    by (auto simp: numbered_def upt_rec)
qed

end
