(* ===== verification/EventStream.thy ===== *)
theory EventStream
  imports EventLog
begin

section \<open>The event stream of a subscriber\<close>

text \<open>
  \<open>rara-runtime/src/native/event_stream.rs\<close>. A stream delivers what it replays from the log and
  then follows the live channel; when the channel has dropped events for it, it recovers them
  from the log. The channel and the lifecycle watch are tokio's and run concurrently: they are
  functions of a world \<open>'w\<close>, which also holds the log that other tasks publish into.
\<close>

datatype 'e try_received = Try_event 'e | Try_empty | Try_lagged nat | Try_closed

datatype 'e received = Recv_event 'e | Recv_lagged nat | Recv_closed

text \<open>What \<open>select!\<close> wakes up with: the channel, a lifecycle change, or a dropped lifecycle.\<close>

datatype 'e woken = Woken_live "'e received" | Woken_lifecycle | Woken_dropped

record ('w, 'b, 'e) stream_env =
  try_recv :: "'w \<Rightarrow> 'e try_received \<times> 'w"
  event_bus :: "'w \<Rightarrow> ('b, 'e) event_log"
  lifecycle_phase :: "'w \<Rightarrow> session_phase"
  select_next :: "'w \<Rightarrow> 'e woken \<times> 'w"

record 'e event_stream =
  stream_replay :: "'e list"
  stream_cursor :: nat

definition new_stream :: "'e list \<Rightarrow> nat \<Rightarrow> 'e event_stream" where
  "new_stream es n = \<lparr>stream_replay = es, stream_cursor = n\<rparr>"

text \<open>
  A step of the loop either returns a result or continues (\<open>None\<close>). \<open>offer\<close> is the arm
  \<open>Ok(event) if event.sequence() > self.cursor\<close> with the arm that ignores the event.
\<close>

definition offer ::
  "('e \<Rightarrow> nat) \<Rightarrow> 'e event_stream \<Rightarrow> 'e \<Rightarrow> ('q session_error + 'e) option \<times> 'e event_stream" where
  "offer seq_of st e =
     (if seq_of e > stream_cursor st then (Some (Inr e), st\<lparr>stream_cursor := seq_of e\<rparr>)
      else (None, st))"

definition recover ::
  "('e \<Rightarrow> nat) \<Rightarrow> ('b, 'e) event_log \<Rightarrow> 'e event_stream \<Rightarrow>
   ('q session_error + 'e) option \<times> 'e event_stream" where
  "recover seq_of lg st =
     (case replay_after seq_of lg (stream_cursor st) of
        Inl gap \<Rightarrow> (Some (Inl (resync_error gap)), st)
      | Inr es \<Rightarrow> (None, st\<lparr>stream_replay := es\<rparr>))"

definition recv_wait ::
  "('e \<Rightarrow> nat) \<Rightarrow> ('w, 'b, 'e) stream_env \<Rightarrow> 'e event_stream \<Rightarrow> 'w \<Rightarrow>
   (('q session_error + 'e) option \<times> 'e event_stream) \<times> 'w" where
  "recv_wait seq_of env st w =
     (if lifecycle_phase env w = Closed then ((Some (Inl SessionClosed), st), w)
      else (case select_next env w of
          (Woken_lifecycle, w') \<Rightarrow> ((None, st), w')
        | (Woken_dropped, w') \<Rightarrow> ((Some (Inl ActorStopped), st), w')
        | (Woken_live (Recv_event e), w') \<Rightarrow> (offer seq_of st e, w')
        | (Woken_live (Recv_lagged k), w') \<Rightarrow> (recover seq_of (event_bus env w') st, w')
        | (Woken_live Recv_closed, w') \<Rightarrow> ((Some (Inl ActorStopped), st), w')))"

definition recv_body ::
  "('e \<Rightarrow> nat) \<Rightarrow> ('w, 'b, 'e) stream_env \<Rightarrow> 'e event_stream \<Rightarrow> 'w \<Rightarrow>
   (('q session_error + 'e) option \<times> 'e event_stream) \<times> 'w" where
  "recv_body seq_of env st w =
     (case stream_replay st of
        e # es \<Rightarrow> (offer seq_of (st\<lparr>stream_replay := es\<rparr>) e, w)
      | [] \<Rightarrow> (case try_recv env w of
            (Try_event e, w') \<Rightarrow> (offer seq_of st e, w')
          | (Try_empty, w') \<Rightarrow> recv_wait seq_of env st w'
          | (Try_lagged k, w') \<Rightarrow> (recover seq_of (event_bus env w') st, w')
          | (Try_closed, w') \<Rightarrow> ((Some (Inl ActorStopped), st), w')))"

text \<open>The loop need not end while nothing new is published: \<open>None\<close> is a receiver still waiting.\<close>

fun recv ::
  "nat \<Rightarrow> ('e \<Rightarrow> nat) \<Rightarrow> ('w, 'b, 'e) stream_env \<Rightarrow> 'e event_stream \<Rightarrow> 'w \<Rightarrow>
   (('q session_error + 'e) \<times> 'e event_stream \<times> 'w) option" where
  "recv 0 seq_of env st w = None"
| "recv (Suc n) seq_of env st w =
     (case recv_body seq_of env st w of
        ((Some r, st'), w') \<Rightarrow> Some (r, st', w')
      | ((None, st'), w') \<Rightarrow> recv n seq_of env st' w')"

text \<open>\<open>RuntimeSession::subscribe_after\<close>: the live receiver is taken before the replay is read.\<close>

definition open_stream ::
  "('e \<Rightarrow> nat) \<Rightarrow> ('b, 'e) event_log \<Rightarrow> nat \<Rightarrow> 'q session_error + 'e event_stream" where
  "open_stream seq_of lg n =
     (case replay_after seq_of lg n of
        Inl gap \<Rightarrow> Inl (resync_error gap)
      | Inr es \<Rightarrow> Inr (new_stream es n))"

text \<open>A subscriber that receives until it has \<open>k\<close> events, an error, or has to wait.\<close>

fun receive_up_to ::
  "nat \<Rightarrow> nat \<Rightarrow> ('e \<Rightarrow> nat) \<Rightarrow> ('w, 'b, 'e) stream_env \<Rightarrow> 'e event_stream \<Rightarrow> 'w \<Rightarrow> 'e list" where
  "receive_up_to 0 fuel seq_of env st w = []"
| "receive_up_to (Suc k) fuel seq_of env st w =
     (case (recv fuel seq_of env st w :: ((unit session_error + 'e) \<times> 'e event_stream \<times> 'w) option) of
        Some (Inr e, st', w') \<Rightarrow> e # receive_up_to k fuel seq_of env st' w'
      | _ \<Rightarrow> [])"

subsection \<open>What the stream relies on\<close>

text \<open>
  The documented behaviour of the broadcast channel: \<open>pos w\<close> is the number of the event the
  receiver reads next. An event that is read has this number; a lagging receiver skips to an
  event that was sent already, and nothing else moves it.
\<close>

locale event_feed =
  fixes seq_of :: "'e \<Rightarrow> nat"
    and env :: "('w, 'b, 'e) stream_env"
    and pos :: "'w \<Rightarrow> nat"
    and ok :: "'w \<Rightarrow> bool"
  assumes bus_ok: "ok w \<Longrightarrow> log_ok seq_of (event_bus env w)"
    and try_ok: "ok w \<Longrightarrow> try_recv env w = (x, w') \<Longrightarrow> ok w'"
    and select_ok: "ok w \<Longrightarrow> select_next env w = (y, w') \<Longrightarrow> ok w'"
    and try_event: "ok w \<Longrightarrow> try_recv env w = (Try_event e, w') \<Longrightarrow> seq_of e = pos w \<and> pos w' = Suc (pos w)"
    and try_empty: "ok w \<Longrightarrow> try_recv env w = (Try_empty, w') \<Longrightarrow> pos w' = pos w"
    and try_lagged: "ok w \<Longrightarrow> try_recv env w = (Try_lagged k, w') \<Longrightarrow>
          pos w' \<le> Suc (current_sequence_of (event_bus env w'))"
    and try_closed: "ok w \<Longrightarrow> try_recv env w = (Try_closed, w') \<Longrightarrow> pos w' = pos w"
    and live_event: "ok w \<Longrightarrow> select_next env w = (Woken_live (Recv_event e), w') \<Longrightarrow>
          seq_of e = pos w \<and> pos w' = Suc (pos w)"
    and live_lagged: "ok w \<Longrightarrow> select_next env w = (Woken_live (Recv_lagged k), w') \<Longrightarrow>
          pos w' \<le> Suc (current_sequence_of (event_bus env w'))"
    and live_other: "ok w \<Longrightarrow> select_next env w = (y, w') \<Longrightarrow>
          y \<in> {Woken_live Recv_closed, Woken_lifecycle, Woken_dropped} \<Longrightarrow> pos w' = pos w"
begin

text \<open>Replay and channel together continue the cursor without a gap.\<close>

definition gapless :: "'e event_stream \<Rightarrow> 'w \<Rightarrow> bool" where
  "gapless st w \<longleftrightarrow> ok w \<and> (\<exists>a b. map seq_of (stream_replay st) = [a..<b] \<and>
     a \<le> Suc (stream_cursor st) \<and> pos w \<le> max b (Suc (stream_cursor st)))"

definition advances :: "'e event_stream \<Rightarrow> ('q session_error + 'e) option \<Rightarrow> 'e event_stream \<Rightarrow> bool" where
  "advances st r st' \<longleftrightarrow> (case r of
     Some (Inr e) \<Rightarrow> seq_of e = Suc (stream_cursor st) \<and> stream_cursor st' = Suc (stream_cursor st)
   | _ \<Rightarrow> stream_cursor st' = stream_cursor st)"

lemma gaplessI:
  "ok w \<Longrightarrow> map seq_of (stream_replay st) = [a..<b] \<Longrightarrow> a \<le> Suc (stream_cursor st) \<Longrightarrow>
     pos w \<le> max b (Suc (stream_cursor st)) \<Longrightarrow> gapless st w"
  by (auto simp: gapless_def)

lemma gapless_live:
  assumes "stream_replay st = []"
  shows "gapless st w \<longleftrightarrow> ok w \<and> pos w \<le> Suc (stream_cursor st)"
proof
  assume g: "gapless st w"
  then obtain a b where "[] = [a..<b]" "a \<le> Suc (stream_cursor st)"
      "pos w \<le> max b (Suc (stream_cursor st))"
    using assms by (auto simp: gapless_def)
  then have "b = 0 \<or> b \<le> a" "a \<le> Suc (stream_cursor st)" "pos w \<le> max b (Suc (stream_cursor st))"
    by (metis upt_eq_Nil_conv)+
  then have "pos w \<le> Suc (stream_cursor st)" by (auto simp: max_def split: if_splits)
  with g show "ok w \<and> pos w \<le> Suc (stream_cursor st)" by (simp add: gapless_def)
next
  assume "ok w \<and> pos w \<le> Suc (stream_cursor st)"
  then show "gapless st w"
    by (intro gaplessI [where a = "Suc (stream_cursor st)" and b = "Suc (stream_cursor st)"]) (simp_all add: assms)
qed

lemma offer_replay:
  assumes "gapless st w" and "stream_replay st = e # es"
    and "offer seq_of (st\<lparr>stream_replay := es\<rparr>) e = (r, st')"
  shows "gapless st' w \<and> advances st r st'"
proof -
  obtain a b where ok: "ok w" and "map seq_of (e # es) = [a..<b]" and a: "a \<le> Suc (stream_cursor st)"
    and pos: "pos w \<le> max b (Suc (stream_cursor st))"
    using assms(1,2) by (auto simp: gapless_def)
  then have "a < b" "seq_of e = a" and es: "map seq_of es = [Suc a..<b]"
    by (simp_all add: Cons_eq_upt del: upt_Suc)
  with a pos ok assms(3) show ?thesis
    by (auto simp: es offer_def advances_def simp del: upt_Suc split: if_splits
        intro!: gaplessI [where a = "Suc a" and b = b])
qed

lemma offer_live:
  assumes "gapless st w" "stream_replay st = []" "offer seq_of st e = (r, st')"
    and "seq_of e = pos w \<and> pos w' = Suc (pos w)" "ok w'"
  shows "gapless st' w' \<and> advances st r st'"
  using assms by (auto simp: gapless_live offer_def advances_def split: if_splits)

lemma recover_gapless:
  assumes "recover seq_of (event_bus env w') st = (r, st')"
    and ok: "ok w'" and "pos w' \<le> Suc (current_sequence_of (event_bus env w'))"
  shows "advances st r st' \<and> ((\<forall>err. r \<noteq> Some (Inl err)) \<longrightarrow> gapless st' w')"
proof (cases "replay_after seq_of (event_bus env w') (stream_cursor st)")
  case (Inl gap)
  with assms show ?thesis by (auto simp: recover_def advances_def)
next
  case (Inr es)
  from replay_after_ok [OF bus_ok [OF ok] Inr] assms Inr show ?thesis
    by (auto simp: recover_def advances_def simp del: upt_Suc
        intro!: gaplessI [where a = "Suc (stream_cursor st)" and b = "Suc (current_sequence_of (event_bus env w'))"])
qed

lemma wait_gapless:
  assumes "gapless st w" "stream_replay st = []" "recv_wait seq_of env st w = ((r, st'), w')"
  shows "advances st r st' \<and> ((\<forall>err. r \<noteq> Some (Inl err)) \<longrightarrow> gapless st' w')"
proof (cases "lifecycle_phase env w = Closed")
  case True
  with assms show ?thesis by (auto simp: recv_wait_def advances_def)
next
  case False
  have ok: "ok w" using assms(1) by (simp add: gapless_def)
  obtain x v where x: "select_next env w = (x, v)" by fastforce
  have v': "ok v" by (rule select_ok [OF ok x])
  show ?thesis
  proof (cases "\<exists>e. x = Woken_live (Recv_event e)")
    case True
    then obtain e where e: "x = Woken_live (Recv_event e)" by blast
    have "offer seq_of st e = (r, st')" "v = w'"
      using assms(3) False x e by (simp_all add: recv_wait_def)
    with offer_live [OF assms(1,2)] live_event [of w e v] x e ok v' show ?thesis by blast
  next
    case no_event: False
    show ?thesis
    proof (cases "\<exists>k. x = Woken_live (Recv_lagged k)")
      case True
      then obtain k where k: "x = Woken_live (Recv_lagged k)" by blast
      have v: "v = w'" and rec: "recover seq_of (event_bus env w') st = (r, st')"
        using assms(3) False x k by (auto simp: recv_wait_def)
      have "pos w' \<le> Suc (current_sequence_of (event_bus env w'))"
        by (rule live_lagged [of w k]) (simp_all add: x k ok flip: v)
      from recover_gapless [OF rec _ this] v v' show ?thesis by blast
    next
      case no_lag: False
      then have "x \<in> {Woken_live Recv_closed, Woken_lifecycle, Woken_dropped}"
        using no_event by (cases x) (metis insertCI received.exhaust, simp_all)
      with live_other [OF ok x this] assms False x v' show ?thesis
        by (auto simp: recv_wait_def advances_def gapless_live)
    qed
  qed
qed

lemma body_gapless:
  assumes "gapless st w" "recv_body seq_of env st w = ((r, st'), w')"
  shows "advances st r st' \<and> ((\<forall>err. r \<noteq> Some (Inl err)) \<longrightarrow> gapless st' w')"
proof (cases "stream_replay st")
  case (Cons e es)
  with assms(2) have "w' = w" "offer seq_of (st\<lparr>stream_replay := es\<rparr>) e = (r, st')"
    by (simp_all add: recv_body_def)
  with offer_replay [OF assms(1) Cons, of r st'] show ?thesis by blast
next
  case Nil
  have ok: "ok w" using assms(1) by (simp add: gapless_def)
  obtain x v where x: "try_recv env w = (x, v)" by fastforce
  have v': "ok v" by (rule try_ok [OF ok x])
  show ?thesis
  proof (cases x)
    case (Try_event e)
    then have "offer seq_of st e = (r, st')" "v = w'"
      using assms(2) Nil x by (simp_all add: recv_body_def)
    with offer_live [OF assms(1) Nil] try_event [of w e v] x Try_event ok v' show ?thesis by blast
  next
    case Try_empty
    with x Nil assms try_empty [of w v] ok v' show ?thesis
      using wait_gapless [of st v] by (auto simp: recv_body_def gapless_live)
  next
    case (Try_lagged k)
    then have v: "v = w'" and rec: "recover seq_of (event_bus env w') st = (r, st')"
      using assms(2) Nil x by (auto simp: recv_body_def)
    have "pos w' \<le> Suc (current_sequence_of (event_bus env w'))"
      by (rule try_lagged [of w k]) (simp_all add: x Try_lagged ok flip: v)
    from recover_gapless [OF rec _ this] v v' show ?thesis by blast
  next
    case Try_closed
    with x Nil assms show ?thesis by (auto simp: recv_body_def advances_def)
  qed
qed

lemma recv_gapless:
  fixes r :: "'q session_error + 'e"
  shows "gapless st w \<Longrightarrow> recv n seq_of env st w = Some (r, st', w') \<Longrightarrow>
     advances st (Some r) st' \<and> ((\<forall>err. r \<noteq> Inl err) \<longrightarrow> gapless st' w')"
proof (induction n arbitrary: st w)
  case 0
  then show ?case by simp
next
  case (Suc n)
  obtain r1 :: "('q session_error + 'e) option" and st1 w1
    where b: "recv_body seq_of env st w = ((r1, st1), w1)"
    by (metis surj_pair)
  note body = body_gapless [OF Suc.prems(1) b]
  show ?case
  proof (cases r1)
    case None
    with body have st1: "stream_cursor st1 = stream_cursor st" "gapless st1 w1"
      by (simp_all add: advances_def)
    have "recv n seq_of env st1 w1 = Some (r, st', w')"
      using Suc.prems(2) b None by simp
    from Suc.IH [OF st1(2) this] st1(1) show ?thesis
      by (cases r) (simp_all add: advances_def)
  next
    case (Some x)
    with body b Suc.prems(2) show ?thesis by auto
  qed
qed

lemma received_in_order:
  "gapless st w \<Longrightarrow> es = receive_up_to k n seq_of env st w \<Longrightarrow>
     map seq_of es = [Suc (stream_cursor st)..<Suc (stream_cursor st + length es)]"
proof (induction k arbitrary: st w es)
  case 0
  then show ?case by simp
next
  case (Suc k)
  show ?case
  proof (cases "\<exists>e st' w'. (recv n seq_of env st w ::
      ((unit session_error + 'e) \<times> 'e event_stream \<times> 'w) option) = Some (Inr e, st', w')")
    case True
    then obtain e st' w' where r: "(recv n seq_of env st w ::
        ((unit session_error + 'e) \<times> 'e event_stream \<times> 'w) option) = Some (Inr e, st', w')"
      by blast
    define fs where "fs = receive_up_to k n seq_of env st' w'"
    have "seq_of e = Suc (stream_cursor st)" "stream_cursor st' = Suc (stream_cursor st)" "gapless st' w'"
      using recv_gapless [OF Suc.prems(1) r] by (simp_all add: advances_def)
    moreover have "es = e # fs" using Suc.prems(2) r by (simp add: fs_def)
    ultimately show ?thesis
      using Suc.IH [of st' w' fs] by (simp add: fs_def upt_conv_Cons del: upt_Suc)
  next
    case False
    then have "es = []"
      using Suc.prems(2) by (auto split: option.splits sum.splits)
    then show ?thesis by simp
  qed
qed

end

subsection \<open>The channel of a log\<close>

text \<open>
  \<open>EventLog::new\<close> gives the channel the capacity of the replay window and \<open>publish\<close> sends each
  event while it holds the publication lock, so a receiver is a position in the window: an event
  that has left the window was dropped by the channel too. No one publishes here in between.
\<close>

definition feed_try :: "('e \<Rightarrow> nat) \<Rightarrow> ('b, 'e) event_log \<times> nat \<Rightarrow>
    'e try_received \<times> ('b, 'e) event_log \<times> nat" where
  "feed_try seq_of w = (case w of (lg, p) \<Rightarrow>
     (let es = pub_replay (log_publication lg); n = current_sequence_of lg; low = Suc n - length es in
      if n < p then (Try_empty, w)
      else if p < low then (Try_lagged (low - p), (lg, low))
      else (Try_event (es ! (p - low)), (lg, Suc p))))"

definition feed_select :: "('e \<Rightarrow> nat) \<Rightarrow> ('b, 'e) event_log \<times> nat \<Rightarrow>
    'e woken \<times> ('b, 'e) event_log \<times> nat" where
  "feed_select seq_of w = (case feed_try seq_of w of
     (Try_event e, w') \<Rightarrow> (Woken_live (Recv_event e), w')
   | (Try_lagged k, w') \<Rightarrow> (Woken_live (Recv_lagged k), w')
   | (_, w') \<Rightarrow> (Woken_lifecycle, w'))"

definition log_env :: "('e \<Rightarrow> nat) \<Rightarrow> session_phase \<Rightarrow> (('b, 'e) event_log \<times> nat, 'b, 'e) stream_env" where
  "log_env seq_of phase = \<lparr>try_recv = feed_try seq_of, event_bus = fst,
     lifecycle_phase = (\<lambda>_. phase), select_next = feed_select seq_of\<rparr>"

lemma feed_try_simps:
  "feed_try seq_of (lg, p) = (Try_event e, w') \<longleftrightarrow>
     p \<le> current_sequence_of lg \<and>
     Suc (current_sequence_of lg) - length (pub_replay (log_publication lg)) \<le> p \<and>
     e = pub_replay (log_publication lg) !
           (p - (Suc (current_sequence_of lg) - length (pub_replay (log_publication lg)))) \<and>
     w' = (lg, Suc p)"
  "feed_try seq_of (lg, p) = (Try_empty, w') \<longleftrightarrow> current_sequence_of lg < p \<and> w' = (lg, p)"
  "feed_try seq_of (lg, p) = (Try_lagged k, w') \<longleftrightarrow>
     p \<le> current_sequence_of lg \<and>
     p < Suc (current_sequence_of lg) - length (pub_replay (log_publication lg)) \<and>
     k = Suc (current_sequence_of lg) - length (pub_replay (log_publication lg)) - p \<and>
     w' = (lg, Suc (current_sequence_of lg) - length (pub_replay (log_publication lg)))"
  "feed_try seq_of (lg, p) \<noteq> (Try_closed, w')"
  by (auto simp: feed_try_def Let_def)

lemma feed_try_log: "feed_try seq_of (lg, p) = (x, lg', p') \<Longrightarrow> lg' = lg"
  by (auto simp: feed_try_def Let_def split: if_splits)

lemma window_nth:
  assumes "log_ok seq_of lg" "p \<le> current_sequence_of lg"
    and "Suc (current_sequence_of lg) - length (pub_replay (log_publication lg)) \<le> p"
  shows "seq_of (pub_replay (log_publication lg) !
           (p - (Suc (current_sequence_of lg) - length (pub_replay (log_publication lg))))) = p"
proof -
  let ?es = "pub_replay (log_publication lg)" and ?n = "current_sequence_of lg"
  have k: "length ?es \<le> ?n" and seqs: "map seq_of ?es = [Suc (?n - length ?es)..<Suc ?n]"
    using assms(1) by (auto simp: log_ok_def Let_def current_sequence_of_def)
  let ?i = "p - (Suc ?n - length ?es)"
  have i: "?i < length ?es" using assms k by arith
  then have "seq_of (?es ! ?i) = map seq_of ?es ! ?i" by simp
  also have "\<dots> = Suc (?n - length ?es) + ?i" unfolding seqs using i k by (simp add: Suc_diff_le nth_upt del: upt_Suc)
  finally show ?thesis using assms k by (simp add: Suc_diff_le)
qed

interpretation log_feed: event_feed seq_of "log_env seq_of phase" snd "\<lambda>w. log_ok seq_of (fst w)"
  for seq_of :: "'e \<Rightarrow> nat" and phase
proof (unfold_locales, goal_cases)
  case (1 w)
  then show ?case by (simp add: log_env_def)
next
  case (2 w x w')
  then show ?case by (cases w; cases w') (auto simp: log_env_def dest: feed_try_log)
next
  case (3 w y w')
  then show ?case
    by (cases w; cases w')
      (auto simp: log_env_def feed_select_def dest: feed_try_log split: prod.splits try_received.splits)
next
  case (4 w e w')
  then show ?case
    by (cases w) (simp add: log_env_def feed_try_simps window_nth)
next
  case (5 w w')
  then show ?case by (cases w) (simp add: log_env_def feed_try_simps)
next
  case (6 w k w')
  then show ?case by (cases w) (simp add: log_env_def feed_try_simps)
next
  case (7 w w')
  then show ?case by (cases w) (simp add: log_env_def feed_try_simps)
next
  case (8 w e w')
  then show ?case
    by (cases w)
      (auto simp: log_env_def feed_select_def feed_try_simps window_nth split: prod.splits try_received.splits)
next
  case (9 w k w')
  then show ?case
    by (cases w) (auto simp: log_env_def feed_select_def feed_try_simps split: prod.splits try_received.splits)
next
  case (10 w x w')
  then show ?case
    by (cases w) (auto simp: log_env_def feed_select_def feed_try_simps split: prod.splits try_received.splits)
qed

subsection \<open>Progress\<close>

text \<open>
  A stream on a log that is not written to: what it replays comes from the window, and the
  window still holds what comes after the cursor.
\<close>

abbreviation window :: "('b, 'e) event_log \<Rightarrow> 'e list" where
  "window lg \<equiv> pub_replay (log_publication lg)"

definition tracking :: "('e \<Rightarrow> nat) \<Rightarrow> ('b, 'e) event_log \<Rightarrow> 'e event_stream \<Rightarrow> nat \<Rightarrow> bool" where
  "tracking seq_of lg st p \<longleftrightarrow>
     log_feed.gapless seq_of st (lg, p) \<and>
     set (stream_replay st) \<subseteq> set (window lg) \<and> length (stream_replay st) \<le> length (window lg) \<and>
     current_sequence_of lg - length (window lg) \<le> stream_cursor st"

lemma tracking_gapless: "tracking seq_of lg st p \<Longrightarrow> log_feed.gapless seq_of st (lg, p)"
  by (simp add: tracking_def)

lemma recover_in_window:
  assumes ok: "log_ok seq_of lg" and low: "current_sequence_of lg - length (window lg) \<le> stream_cursor st"
    and behind: "stream_cursor st < current_sequence_of lg"
  obtains e es where "recover seq_of lg st = (None, st\<lparr>stream_replay := e # es\<rparr>)"
    and "seq_of e = Suc (stream_cursor st)" "e \<in> set (window lg)" "set es \<subseteq> set (window lg)"
    and "length es \<le> length (window lg)"
proof -
  obtain fs where r: "replay_after seq_of lg (stream_cursor st) = Inr fs"
    and fs: "fs = drop (stream_cursor st - (current_sequence_of lg - length (window lg))) (window lg)"
    using low behind by (simp add: replay_after_eq [OF ok] current_sequence_of_def)
  have seqs: "map seq_of fs = [Suc (stream_cursor st)..<Suc (current_sequence_of lg)]"
    by (rule replay_after_ok(1) [OF ok r])
  with behind obtain e es where es: "fs = e # es"
    by (cases fs) auto
  have "seq_of e = Suc (stream_cursor st)"
    using seqs unfolding es by (simp add: Cons_eq_upt del: upt_Suc)
  moreover have "set (e # es) \<subseteq> set (window lg)" "length (e # es) \<le> length (window lg)"
    unfolding es [symmetric] fs by (simp_all add: set_drop_subset)
  ultimately show ?thesis
    using that [of e es] r es by (simp add: recover_def)
qed

lemma recv_progress:
  assumes ok: "log_ok seq_of lg"
  shows "tracking seq_of lg st p \<Longrightarrow> stream_cursor st < current_sequence_of lg \<Longrightarrow>
     length (stream_replay st) + (Suc (stream_cursor st) - p) + 2 \<le> n \<Longrightarrow>
     \<exists>e st' p'. (recv n seq_of (log_env seq_of ph) st (lg, p) ::
         (('q session_error + 'e) \<times> 'e event_stream \<times> ('b, 'e) event_log \<times> nat) option) =
       Some (Inr e, st', lg, p') \<and> e \<in> set (window lg) \<and> seq_of e = Suc (stream_cursor st) \<and>
       stream_cursor st' = Suc (stream_cursor st) \<and> tracking seq_of lg st' p'"
proof (induction n arbitrary: st p)
  case 0
  then show ?case by simp
next
  case (Suc n)
  let ?c = "stream_cursor st" and ?low = "Suc (current_sequence_of lg) - length (window lg)"
  have track: "log_feed.gapless seq_of st (lg, p)" "set (stream_replay st) \<subseteq> set (window lg)"
      "length (stream_replay st) \<le> length (window lg)"
      "current_sequence_of lg - length (window lg) \<le> ?c"
    using Suc.prems(1) by (simp_all add: tracking_def)
  show ?case
  proof (cases "stream_replay st")
    case (Cons e es)
    let ?st = "st\<lparr>stream_replay := es\<rparr>"
    obtain r st' where o: "(offer seq_of ?st e :: ('q session_error + 'e) option \<times> 'e event_stream) = (r, st')"
      by fastforce
    note step = log_feed.offer_replay [OF track(1) Cons o]
    show ?thesis
    proof (cases "seq_of e > ?c")
      case True
      with o step track Cons show ?thesis
        by (auto simp: recv_body_def offer_def tracking_def log_feed.advances_def)
    next
      case False
      with o have "r = None" "st' = ?st" by (simp_all add: offer_def)
      with step track Cons Suc.prems Suc.IH [of ?st p] False show ?thesis
        by (auto simp: recv_body_def offer_def tracking_def)
    qed
  next
    case Nil
    then have p: "p \<le> Suc ?c" using track(1) by (simp add: log_feed.gapless_live)
    show ?thesis
    proof (cases "p < ?low")
      case True
      obtain e es where rec: "(recover seq_of lg st ::
            ('q session_error + 'e) option \<times> 'e event_stream) = (None, st\<lparr>stream_replay := e # es\<rparr>)"
        and e: "seq_of e = Suc ?c" "e \<in> set (window lg)"
        and es: "set es \<subseteq> set (window lg)" "length es \<le> length (window lg)"
        by (rule recover_in_window [OF ok track(4) Suc.prems(2)])
      have lag: "try_recv (log_env seq_of ph) (lg, p) = (Try_lagged (?low - p), lg, ?low)"
        using True p Suc.prems(2) by (simp add: log_env_def feed_try_simps)
      have g: "log_feed.gapless seq_of (st\<lparr>stream_replay := e # es\<rparr>) (lg, ?low)"
        using log_feed.recover_gapless [where phase = ph and w' = "(lg, ?low)" and st = st
            and r = "None :: ('q session_error + 'e) option"] rec ok
        by (simp add: log_env_def)
      let ?st' = "st\<lparr>stream_replay := es, stream_cursor := Suc ?c\<rparr>"
      have o: "(offer seq_of (st\<lparr>stream_replay := es\<rparr>) e :: ('q session_error + 'e) option \<times> 'e event_stream)
          = (Some (Inr e), ?st')"
        using e by (simp add: offer_def)
      have g': "log_feed.gapless seq_of ?st' (lg, ?low)"
        using log_feed.offer_replay [OF g, of e es "Some (Inr e) :: ('q session_error + 'e) option" ?st'] o
        by simp
      obtain m where m: "n = Suc m" using Suc.prems(3) by (cases n) auto
      have "(recv (Suc n) seq_of (log_env seq_of ph) st (lg, p) ::
          (('q session_error + 'e) \<times> 'e event_stream \<times> ('b, 'e) event_log \<times> nat) option) =
          Some (Inr e, ?st', lg, ?low)"
        using Nil lag rec o by (simp add: recv_body_def log_env_def m)
      with e es g' track(4) show ?thesis by (auto simp: tracking_def)
    next
      case False
      have live: "try_recv (log_env seq_of ph) (lg, p) = (Try_event (window lg ! (p - ?low)), lg, Suc p)"
        using False p Suc.prems(2) by (simp add: log_env_def feed_try_simps)
      let ?e = "window lg ! (p - ?low)"
      have seq: "seq_of ?e = p" using window_nth [OF ok, of p] False p Suc.prems(2) by simp
      have e: "?e \<in> set (window lg)"
        using False p Suc.prems(2) ok
        by (intro nth_mem) (auto simp: log_ok_def Let_def current_sequence_of_def)
      show ?thesis
      proof (cases "p = Suc ?c")
        case True
        with Nil live seq e track Suc.prems ok show ?thesis
          by (auto simp: recv_body_def offer_def tracking_def log_feed.gapless_live)
      next
        case False
        with p have "p \<le> ?c" by simp
        with Nil live seq e track Suc.prems ok Suc.IH [of st "Suc p"] show ?thesis
          by (auto simp: recv_body_def offer_def tracking_def log_feed.gapless_live)
      qed
    qed
  qed
qed

subsection \<open>Properties\<close>

lemma window_inj:
  assumes "log_ok seq_of lg" "d \<in> set (window lg)" "e \<in> set (window lg)" "seq_of d = seq_of e"
  shows "d = e"
proof -
  have "distinct (map seq_of (window lg))"
    using assms(1) unfolding log_ok_def Let_def by (metis distinct_upt)
  then have "inj_on seq_of (set (window lg))" by (simp add: distinct_map)
  from inj_onD [OF this assms(4) assms(2,3)] show ?thesis .
qed

lemma receive_from_log:
  fixes seq_of :: "'e \<Rightarrow> nat" and lg :: "('b, 'e) event_log"
  assumes ok: "log_ok seq_of lg" and fuel: "2 * current_sequence_of lg + 3 \<le> fuel"
  shows "tracking seq_of lg st p \<Longrightarrow> k = current_sequence_of lg - stream_cursor st \<Longrightarrow>
     receive_up_to k fuel seq_of (log_env seq_of ph) st (lg, p) =
       drop (stream_cursor st - (current_sequence_of lg - length (window lg))) (window lg)"
proof (induction k arbitrary: st p)
  case 0
  then show ?case using ok by (simp add: log_ok_def Let_def current_sequence_of_def)
next
  case (Suc k)
  let ?low = "current_sequence_of lg - length (window lg)" and ?c = "stream_cursor st"
  have len: "length (window lg) \<le> current_sequence_of lg"
    using ok by (simp add: log_ok_def Let_def current_sequence_of_def)
  have c: "?low \<le> ?c" "?c < current_sequence_of lg" "length (stream_replay st) \<le> length (window lg)"
    using Suc.prems by (auto simp: tracking_def)
  have "length (stream_replay st) + (Suc ?c - p) + 2 \<le> fuel" using c len fuel by arith
  from recv_progress [OF ok Suc.prems(1) c(2) this, where ph = ph and 'q = unit]
  obtain e st' p' where r: "(recv fuel seq_of (log_env seq_of ph) st (lg, p) ::
         ((unit session_error + 'e) \<times> 'e event_stream \<times> ('b, 'e) event_log \<times> nat) option) =
       Some (Inr e, st', lg, p')"
    and e: "e \<in> set (window lg)" "seq_of e = Suc ?c"
    and st': "stream_cursor st' = Suc ?c" "tracking seq_of lg st' p'" by blast
  have i: "?c - ?low < length (window lg)" using c len by arith
  have "Suc ?c - (Suc (current_sequence_of lg) - length (window lg)) = ?c - ?low"
    using len by (simp add: Suc_diff_le)
  then have "seq_of (window lg ! (?c - ?low)) = Suc ?c"
    using window_nth [OF ok, of "Suc ?c"] c by simp
  then have "window lg ! (?c - ?low) = e"
    using window_inj [OF ok _ e(1)] e(2) i by simp
  then have "drop (?c - ?low) (window lg) = e # drop (Suc ?c - ?low) (window lg)"
    using Cons_nth_drop_Suc [OF i] c(1) by (simp add: Suc_diff_le)
  moreover have "k = current_sequence_of lg - stream_cursor st'" using Suc.prems(2) st'(1) by simp
  ultimately show ?case using r Suc.IH [OF st'(2)] st'(1) by simp
qed

text \<open>
  C13. A stream delivers the events after its cursor in order, each once and none missing, however
  the live channel and the replayed window interleave and whenever the channel drops events:
  when an event cannot be recovered the stream stops with an error instead.
\<close>

theorem delivery_has_no_gap:
  assumes feed: "event_feed seq_of env pos ok" and w: "ok w"
    and opened: "(open_stream seq_of (event_bus env w) n :: unit session_error + 'e event_stream) = Inr st"
    and pos: "pos w \<le> Suc (current_sequence_of (event_bus env w))"
    and received: "es = receive_up_to k fuel seq_of env st w"
  shows "map seq_of es = [Suc n..<Suc (n + length es)]"
proof -
  obtain fs where r: "replay_after seq_of (event_bus env w) n = Inr fs" and st: "st = new_stream fs n"
    using opened by (auto simp: open_stream_def split: sum.splits)
  note log = event_feed.bus_ok [OF feed w]
  have "event_feed.gapless seq_of pos ok st w"
    using replay_after_ok [OF log r] pos w
    by (intro event_feed.gaplessI [OF feed, where a = "Suc n"
          and b = "Suc (current_sequence_of (event_bus env w))"])
      (simp_all add: st new_stream_def del: upt_Suc)
  from event_feed.received_in_order [OF feed this received] show ?thesis
    by (simp add: st new_stream_def)
qed

text \<open>
  A subscriber to the first \<open>n\<close> events' successors receives the whole rest of the history,
  whatever the channel has dropped for it: every call returns, within the stated number of
  rounds of its loop, and together they return exactly the events published after the \<open>n\<close>-th.
\<close>

theorem subscriber_receives_history:
  assumes build: "\<And>p n. seq_of (mk p n) = n"
    and run: "publish_list send mk ps (with_sender b cap) = Some lg"
    and n: "length ps - max cap 1 \<le> n" "n \<le> length ps" and p: "p \<le> Suc (length ps)"
    and opened: "(open_stream seq_of lg n :: unit session_error + 'e event_stream) = Inr st"
    and fuel: "2 * length ps + 3 \<le> fuel"
  shows "receive_up_to (length ps - n) fuel seq_of (log_env seq_of ph) st (lg, p) =
     drop n (numbered mk ps)"
proof -
  note w = published_window [OF run] and ok = published_ok [OF build run]
  then have cur: "current_sequence_of lg = length ps" by (simp add: current_sequence_of_def)
  note replay = replay_after_published [OF build run, of n]
  then have st: "st = new_stream (drop n (numbered mk ps)) n"
    using opened n by (simp add: open_stream_def)
  have seqs: "map seq_of (drop n (numbered mk ps)) = [Suc n..<Suc (length ps)]"
    using replay_after_ok(1) [OF ok, of n] replay n cur by (simp del: upt_Suc)
  have "log_feed.gapless seq_of st (lg, p)"
    using seqs p ok n
    by (intro log_feed.gaplessI [where a = "Suc n" and b = "Suc (length ps)"])
      (simp_all add: st new_stream_def del: upt_Suc)
  moreover have "set (drop n (numbered mk ps)) \<subseteq> set (window lg)"
    using w n by (simp add: set_drop_subset_set_drop)
  ultimately have "tracking seq_of lg st p"
    using w n by (auto simp: tracking_def st new_stream_def cur)
  from receive_from_log [OF ok _ this, of fuel "length ps - n" ph] fuel w n cur show ?thesis
    by (auto simp: st new_stream_def)
qed

text \<open>Two events are still in the window, and the channel dropped the first of them.\<close>

theorem subscriber_receives_history_witness:
  "\<exists>lg st. publish_list (\<lambda>b e. (None, b)) (\<lambda>p n. (n, p)) ''abcd'' (with_sender () 2) = Some lg \<and>
     (open_stream fst lg 2 :: unit session_error + (nat \<times> char) event_stream) = Inr st \<and>
     receive_up_to 2 11 fst (log_env fst Idle) st (lg, 1) = [(3, CHR ''c''), (4, CHR ''d'')]"
proof -
  obtain lg where lg:
    "publish_list (\<lambda>b e. (None, b)) (\<lambda>p n. (n, p)) ''abcd'' (with_sender () 2) = Some lg"
    by (simp add: publish_def with_sender_def checked_add64_code)
  have "replay_after fst lg 2 = Inr (drop 2 (numbered (\<lambda>p n. (n, p)) ''abcd''))"
    using replay_after_published [where seq_of = fst, OF _ lg, of 2] by simp
  then obtain st where st: "(open_stream fst lg 2 :: unit session_error + (nat \<times> char) event_stream) = Inr st"
    by (simp add: open_stream_def)
  have "receive_up_to (length ''abcd'' - 2) 11 fst (log_env fst Idle) st (lg, 1) =
      drop 2 (numbered (\<lambda>p n. (n, p)) ''abcd'')"
    by (rule subscriber_receives_history [where seq_of = fst, OF _ lg _ _ _ st]) simp_all
  then have "receive_up_to 2 11 fst (log_env fst Idle) st (lg, 1) =
      drop 2 (numbered (\<lambda>p n. (n, p)) ''abcd'')"
    by (simp add: numeral_eq_Suc del: receive_up_to.simps)
  then show ?thesis using lg st by (simp add: numbered_def upt_rec)
qed

theorem delivery_has_no_gap_witness:
  "\<exists>lg st es. publish_list (\<lambda>b e. (None, b)) (\<lambda>p n. (n, p)) ''abcd'' (with_sender () 2) = Some lg \<and>
     (open_stream fst lg 3 :: unit session_error + (nat \<times> char) event_stream) = Inr st \<and>
     es = receive_up_to 5 4 fst (log_env fst Closed) st (lg, 5) \<and>
     map fst es = [4..<4 + length es]"
proof -
  obtain lg where lg:
    "publish_list (\<lambda>b e. (None, b)) (\<lambda>p n. (n, p)) ''abcd'' (with_sender () 2) = Some lg"
    by (simp add: publish_def with_sender_def checked_add64_code)
  note ok = published_ok [where seq_of = fst, OF _ lg] and w = published_window [OF lg]
  obtain st where st: "(open_stream fst lg 3 :: unit session_error + (nat \<times> char) event_stream) = Inr st"
    using replay_after_published [where seq_of = fst, OF _ lg, of 3] by (auto simp: open_stream_def)
  have "map fst (receive_up_to 5 4 fst (log_env fst Closed) st (lg, 5)) =
      [Suc 3..<Suc (3 + length (receive_up_to 5 4 fst (log_env fst Closed) st (lg, 5)))]"
    using ok w st
    by (intro delivery_has_no_gap [OF log_feed.event_feed_axioms, where n = 3 and w = "(lg, 5)"])
      (simp_all add: log_env_def current_sequence_of_def)
  then show ?thesis using lg st by auto
qed

end
