(* ===== verification/SessionActor.thy ===== *)
theory SessionActor
  imports EventStream
begin

section \<open>The actor that owns a runtime session\<close>

text \<open>
  \<open>rara-runtime/src/native/actor.rs\<close>, with \<open>command.rs\<close> and the traits of \<open>driver.rs\<close>. The driver is
  a record of functions on its own state \<open>'d\<close>; what a host plugs in there is a parameter. A
  one-shot response channel is a number, and what the actor has sent so far is part of its
  state: \<open>replies\<close> (one-shot responses) and \<open>emitted\<close> (lifecycle events handed to the driver).
  \<open>in_flight\<close> are the spawned turns whose completion has not been received. The cancellation flag
  is shared with the running turn and written by the actor only, so it is a field of the active
  turn. Log messages are left out.
\<close>

subsection \<open>The driver\<close>

record 'a turn_context =
  ctx_turn :: runtime_turn_id
  ctx_agent :: 'a
  ctx_pending :: pending_disposition

record ('p, 'q) completed_turn =
  ct_report :: 'q
  ct_transcript :: "message list"
  ct_pending :: "'p option"

record ('d, 'i, 'c, 'p, 't, 'a, 'q) session_driver =
  validate_input :: "'d \<Rightarrow> 'i \<Rightarrow> 'p option \<Rightarrow> 'q session_error + unit"
  is_answer :: "'i \<Rightarrow> bool"
  begin_turn :: "'d \<Rightarrow> 'i \<Rightarrow> 'a turn_context \<Rightarrow> ('q session_error + 't) \<times> 'd"
  complete_turn :: "'d \<Rightarrow> 't \<Rightarrow> input_discard_reason option \<Rightarrow> ('p, 'q) completed_turn \<times> 'd"
  after_turn :: "'d \<Rightarrow> 'd"
  get_transcript :: "'d \<Rightarrow> 'q session_error + message list"
  replace_transcript :: "'d \<Rightarrow> message list \<Rightarrow> ('q session_error + unit) \<times> 'd"
  control_driver :: "'d \<Rightarrow> 'c \<Rightarrow> ('q session_error + unit) \<times> 'd"
  discard_pending :: "'d \<Rightarrow> ('q session_error + unit) \<times> 'd"
  cancel_descendants :: "'d \<Rightarrow> (ustr + unit) \<times> 'd"
  close_admission :: "'d \<Rightarrow> (ustr + unit) \<times> 'd"
  shutdown_driver :: "'d \<Rightarrow> (ustr + unit) \<times> 'd"
  publish_event :: "'d \<Rightarrow> 'p session_lifecycle \<Rightarrow> 'd"
  sequence_of :: "'d \<Rightarrow> nat"
  pending_turn :: "'p \<Rightarrow> runtime_turn_id"

subsection \<open>Commands and state\<close>

datatype ('i, 'c, 'a) session_command =
    StartTurn (start_id: runtime_turn_id) (start_input: 'i) (start_agent: 'a) (accepted: nat) (completed: nat)
  | StopTurn "runtime_turn_id option" turn_stop_kind nat
  | Control 'c nat
  | GetTranscript nat
  | ReplaceTranscript "message list" nat
  | QueryState nat
  | Shutdown nat

datatype 'q session_reply =
    Reply_unit nat "'q session_error + unit"
  | Reply_turn nat "'q session_error + runtime_turn_id"
  | Reply_transcript nat "'q session_error + message list"
  | Reply_outcome nat "'q session_error + 'q turn_outcome"

record active_turn =
  active_id :: runtime_turn_id
  active_generation :: nat
  cancellation :: bool
  stop_kind :: "turn_stop_kind option"
  completion_channel :: nat

record 't turn_completion =
  completion_id :: runtime_turn_id
  completion_generation :: nat
  completion_turn :: 't
  completion_result :: "ustr + unit"

record ('d, 'p, 'q) session_actor =
  session_id :: runtime_session_id
  driver :: 'd
  snapshot :: "'p session_snapshot"
  generation :: nat
  active :: "active_turn option"
  closing :: bool
  pending_input :: "'p option"
  shutdown_waiters :: "nat list"
  shutdown_cell :: "shutdown_outcome option"
  replies :: "'q session_reply list"
  emitted :: "'p session_lifecycle list"
  in_flight :: "(runtime_turn_id \<times> nat) list"

definition start_session ::
  "('d, 'i, 'c, 'p, 't, 'a, 'q) session_driver \<Rightarrow> runtime_session_id \<Rightarrow> 'd \<Rightarrow> ('d, 'p, 'q) session_actor" where
  "start_session D sid d =
     \<lparr>session_id = sid, driver = d,
      snapshot = \<lparr>snap_session = sid, snap_phase = Idle, snap_generation = 0,
        snap_last_sequence = sequence_of D d, snap_pending = None\<rparr>,
      generation = 0, active = None, closing = False, pending_input = None,
      shutdown_waiters = [], shutdown_cell = None, replies = [], emitted = [], in_flight = []\<rparr>"

definition send_reply :: "'q session_reply \<Rightarrow> ('d, 'p, 'q) session_actor \<Rightarrow> ('d, 'p, 'q) session_actor" where
  "send_reply r st = st\<lparr>replies := replies st @ [r]\<rparr>"

definition emit ::
  "('d, 'i, 'c, 'p, 't, 'a, 'q) session_driver \<Rightarrow> 'p session_lifecycle \<Rightarrow>
   ('d, 'p, 'q) session_actor \<Rightarrow> ('d, 'p, 'q) session_actor" where
  "emit D ev st = st\<lparr>driver := publish_event D (driver st) ev, emitted := emitted st @ [ev]\<rparr>"

definition publish_snapshot ::
  "('d, 'i, 'c, 'p, 't, 'a, 'q) session_driver \<Rightarrow> session_phase \<Rightarrow>
   ('d, 'p, 'q) session_actor \<Rightarrow> ('d, 'p, 'q) session_actor" where
  "publish_snapshot D ph st = st\<lparr>snapshot :=
     \<lparr>snap_session = session_id st, snap_phase = ph, snap_generation = generation st,
      snap_last_sequence = sequence_of D (driver st), snap_pending = pending_input st\<rparr>\<rparr>"

subsection \<open>Stopping and shutting down\<close>

definition require_idle :: "('d, 'p, 'q) session_actor \<Rightarrow> 'q session_error + unit" where
  "require_idle st = (case active st of Some a \<Rightarrow> Inl (Busy (active_id a)) | None \<Rightarrow> Inr ())"

definition discard_reason :: "turn_stop_kind \<Rightarrow> input_discard_reason" where
  "discard_reason kind = (case kind of Cancel \<Rightarrow> Discard_Cancelled | Interrupt \<Rightarrow> Discard_Interrupted)"

definition cancel_active ::
  "('d, 'i, 'c, 'p, 't, 'a, 'q) session_driver \<Rightarrow> ('d, 'p, 'q) session_actor \<Rightarrow> ('d, 'p, 'q) session_actor" where
  "cancel_active D st =
     (let st = (case active st of
                  None \<Rightarrow> st
                | Some a \<Rightarrow> st\<lparr>active := Some (a\<lparr>cancellation := True,
                    stop_kind := (case stop_kind a of None \<Rightarrow> Some Cancel | Some k \<Rightarrow> Some k)\<rparr>)\<rparr>)
      in st\<lparr>driver := snd (cancel_descendants D (driver st))\<rparr>)"

definition discard_pending_input ::
  "('d, 'i, 'c, 'p, 't, 'a, 'q) session_driver \<Rightarrow> input_discard_reason \<Rightarrow>
   ('d, 'p, 'q) session_actor \<Rightarrow> ('q session_error + runtime_turn_id option) \<times> ('d, 'p, 'q) session_actor" where
  "discard_pending_input D reason st =
     (case pending_input st of
        None \<Rightarrow> (Inr None, st)
      | Some p \<Rightarrow>
          let turn = pending_turn D p; (r, d) = discard_pending D (driver st); st = st\<lparr>driver := d\<rparr> in
          (case r of
             Inl e \<Rightarrow> (Inl e, st)
           | Inr _ \<Rightarrow> (Inr (Some turn),
               emit D (LInputDiscarded turn reason) (st\<lparr>pending_input := None\<rparr>))))"

definition begin_shutdown ::
  "('d, 'i, 'c, 'p, 't, 'a, 'q) session_driver \<Rightarrow> ('d, 'p, 'q) session_actor \<Rightarrow> ('d, 'p, 'q) session_actor" where
  "begin_shutdown D st =
     (let st = st\<lparr>closing := True\<rparr>;
          (r, st) = discard_pending_input D Discard_Shutdown st;
          st = (case r of
                  Inl _ \<Rightarrow> st\<lparr>shutdown_cell := (case shutdown_cell st of None \<Rightarrow> Some Failed | Some x \<Rightarrow> Some x)\<rparr>
                | Inr _ \<Rightarrow> st);
          st = st\<lparr>driver := snd (close_admission D (driver st))\<rparr>;
          st = cancel_active D st
      in publish_snapshot D Closing st)"

definition finish_shutdown ::
  "('d, 'i, 'c, 'p, 't, 'a, 'q) session_driver \<Rightarrow> ('d, 'p, 'q) session_actor \<Rightarrow> ('d, 'p, 'q) session_actor" where
  "finish_shutdown D st =
     (let (r, d) = shutdown_driver D (driver st);
          out = (case shutdown_cell st of
                   None \<Rightarrow> (case r of Inr _ \<Rightarrow> Complete | Inl _ \<Rightarrow> Failed)
                 | Some x \<Rightarrow> x);
          st = publish_snapshot D Closed (st\<lparr>driver := d, shutdown_cell := Some out\<rparr>)
      in st\<lparr>replies := replies st @ map (\<lambda>c. Reply_unit c (shutdown_result out)) (shutdown_waiters st),
            shutdown_waiters := []\<rparr>)"

definition stop_active ::
  "('d, 'i, 'c, 'p, 't, 'a, 'q) session_driver \<Rightarrow> runtime_turn_id option \<Rightarrow> turn_stop_kind \<Rightarrow>
   ('d, 'p, 'q) session_actor \<Rightarrow> ('q session_error + runtime_turn_id) \<times> ('d, 'p, 'q) session_actor" where
  "stop_active D expected kind st =
     (case active st of
        None \<Rightarrow>
          (case pending_input st of
             None \<Rightarrow> (Inl NotRunning, st)
           | Some p \<Rightarrow>
               if (\<exists>t\<in>set_option expected. t \<noteq> pending_turn D p)
               then (Inl (StaleInput (the expected) (pending_turn D p)), st)
               else (case discard_pending_input D (discard_reason kind) st of
                   (Inl e, st) \<Rightarrow> (Inl e, st)
                 | (Inr None, st) \<Rightarrow> (Inl NotRunning, st)
                 | (Inr (Some turn), st) \<Rightarrow>
                     (Inr turn, publish_snapshot D Idle (cancel_active D st))))
      | Some a \<Rightarrow>
          if (\<exists>t\<in>set_option expected. t \<noteq> active_id a)
          then (Inl (StaleTurn (the expected) (active_id a)), st)
          else if (\<exists>k\<in>set_option (stop_kind a). k \<noteq> kind)
          then (Inl (StopInProgress (active_id a)), st)
          else
            let st = cancel_active D (st\<lparr>active := Some (a\<lparr>stop_kind := Some kind\<rparr>)\<rparr>)
            in (Inr (active_id a), publish_snapshot D (Cancelling (active_id a)) st))"

subsection \<open>Turns\<close>

definition disposition ::
  "('d, 'i, 'c, 'p, 't, 'a, 'q) session_driver \<Rightarrow> 'i \<Rightarrow> 'p option \<Rightarrow> pending_disposition" where
  "disposition D input pending = (case pending of
     Some _ \<Rightarrow> if is_answer D input then Disposition_Answered else Disposition_Superseded
   | None \<Rightarrow> Disposition_None)"

definition take_pending ::
  "('d, 'i, 'c, 'p, 't, 'a, 'q) session_driver \<Rightarrow> runtime_turn_id \<Rightarrow> pending_disposition \<Rightarrow>
   ('d, 'p, 'q) session_actor \<Rightarrow> ('d, 'p, 'q) session_actor" where
  "take_pending D turn pending st =
     (case pending_input st of
        None \<Rightarrow> st
      | Some p \<Rightarrow>
          let st = st\<lparr>pending_input := None\<rparr> in
          (case pending of
             Disposition_Answered \<Rightarrow> emit D (LInputAnswered (pending_turn D p) turn) st
           | Disposition_Superseded \<Rightarrow> emit D (LInputDiscarded (pending_turn D p) Discard_Superseded) st
           | Disposition_None \<Rightarrow> st))"

definition start_turn ::
  "('d, 'i, 'c, 'p, 't, 'a, 'q) session_driver \<Rightarrow> runtime_turn_id \<Rightarrow> 'i \<Rightarrow> 'a \<Rightarrow> nat \<Rightarrow> nat \<Rightarrow>
   ('d, 'p, 'q) session_actor \<Rightarrow> ('d, 'p, 'q) session_actor" where
  "start_turn D turn input agent acc outc st =
     (case (case require_idle st of
              Inl e \<Rightarrow> Inl e
            | Inr _ \<Rightarrow> validate_input D (driver st) input (pending_input st)) of
        Inl e \<Rightarrow> send_reply (Reply_unit acc (Inl e)) st
      | Inr _ \<Rightarrow>
          let pending = disposition D input (pending_input st);
              (r, d) = begin_turn D (driver st) input
                \<lparr>ctx_turn = turn, ctx_agent = agent, ctx_pending = pending\<rparr>;
              st = st\<lparr>driver := d\<rparr> in
          (case r of
             Inl e \<Rightarrow> send_reply (Reply_unit acc (Inl e)) st
           | Inr _ \<Rightarrow>
               let st = take_pending D turn pending st;
                   st = st\<lparr>active := Some \<lparr>active_id = turn, active_generation = generation st,
                     cancellation = False, stop_kind = None, completion_channel = outc\<rparr>\<rparr>;
                   st = emit D (LTurnStarted turn) st;
                   st = publish_snapshot D (Running turn) st;
                   st = st\<lparr>in_flight := in_flight st @ [(turn, generation st)]\<rparr>
               in send_reply (Reply_unit acc (Inr ())) st))"

definition turn_discard :: "bool \<Rightarrow> bool \<Rightarrow> turn_stop_kind \<Rightarrow> input_discard_reason option" where
  "turn_discard shutting cancelled kind =
     (if shutting then Some Discard_Shutdown
      else if cancelled then Some (discard_reason kind) else None)"

definition settle_pending ::
  "('d, 'i, 'c, 'p, 't, 'a, 'q) session_driver \<Rightarrow> input_discard_reason option \<Rightarrow> 'p option \<Rightarrow>
   ('d, 'p, 'q) session_actor \<Rightarrow> ('d, 'p, 'q) session_actor" where
  "settle_pending D discard pending st =
     (case discard of
        Some reason \<Rightarrow>
          (case pending of None \<Rightarrow> st | Some p \<Rightarrow> emit D (LInputDiscarded (pending_turn D p) reason) st)
      | None \<Rightarrow>
          let st = st\<lparr>pending_input := pending\<rparr> in
          (case pending of None \<Rightarrow> st | Some p \<Rightarrow> emit D (LInputRequested p) st))"

definition turn_result ::
  "('d, 'i, 'c, 'p, 't, 'a, 'q) session_driver \<Rightarrow> bool \<Rightarrow> turn_stop_kind \<Rightarrow> ustr + unit \<Rightarrow> 'q turn_outcome \<Rightarrow>
   ('d, 'p, 'q) session_actor \<Rightarrow> ('q session_error + 'q turn_outcome) \<times> ('d, 'p, 'q) session_actor" where
  "turn_result D cancelled kind result out st =
     (if cancelled then
        (Inl (case kind of Cancel \<Rightarrow> TurnCancelled out | Interrupt \<Rightarrow> TurnInterrupted out),
         emit D (LTurnStopped (outcome_turn out) kind) st)
      else (case result of
          Inr _ \<Rightarrow>
            (Inr out, emit D (LTurnFinished (outcome_turn out)
               (if pending_input st \<noteq> None then Finish_AwaitingInput else Finish_Completed)) st)
        | Inl message \<Rightarrow>
            (Inl (Execution message out), emit D (LTurnFailed (outcome_turn out) message) st)))"

definition phase_after_turn ::
  "('d, 'i, 'c, 'p, 't, 'a, 'q) session_driver \<Rightarrow> 'p option \<Rightarrow> session_phase" where
  "phase_after_turn D pending =
     (case pending of Some p \<Rightarrow> AwaitingInput (pending_turn D p) | None \<Rightarrow> Idle)"

definition finish_turn ::
  "('d, 'i, 'c, 'p, 't, 'a, 'q) session_driver \<Rightarrow> 't turn_completion \<Rightarrow>
   ('d, 'p, 'q) session_actor \<Rightarrow> ('d, 'p, 'q) session_actor" where
  "finish_turn D c st =
     (case active st of
        None \<Rightarrow> st
      | Some a \<Rightarrow>
          let st = st\<lparr>active := None\<rparr> in
          if completion_generation c \<noteq> active_generation a \<or> completion_id c \<noteq> active_id a \<or>
             completion_generation c \<noteq> generation st
          then send_reply (Reply_outcome (completion_channel a) (Inl ActorStopped)) st
          else
            let cancelled = cancellation a;
                kind = (case stop_kind a of None \<Rightarrow> Cancel | Some k \<Rightarrow> k);
                discard = turn_discard (closing st) cancelled kind;
                (done, d) = complete_turn D (driver st) (completion_turn c) discard;
                st = settle_pending D discard (ct_pending done) (st\<lparr>driver := d\<rparr>);
                st = st\<lparr>driver := after_turn D (driver st)\<rparr>;
                out = \<lparr>outcome_turn = completion_id c, query_report = ct_report done,
                  outcome_transcript = ct_transcript done\<rparr>;
                (result, st) = turn_result D cancelled kind (completion_result c) out st;
                st = (if closing st then st
                      else publish_snapshot D (phase_after_turn D (pending_input st)) st)
            in send_reply (Reply_outcome (completion_channel a) result) st)"

subsection \<open>Commands\<close>

definition reject_closed ::
  "('i, 'c, 'a) session_command \<Rightarrow> ('d, 'p, 'q) session_actor \<Rightarrow> ('d, 'p, 'q) session_actor" where
  "reject_closed cmd st = (case cmd of
     StartTurn _ _ _ acc _ \<Rightarrow> send_reply (Reply_unit acc (Inl SessionClosed)) st
   | StopTurn _ _ c \<Rightarrow> send_reply (Reply_turn c (Inl SessionClosed)) st
   | Control _ c \<Rightarrow> send_reply (Reply_unit c (Inl SessionClosed)) st
   | ReplaceTranscript _ c \<Rightarrow> send_reply (Reply_unit c (Inl SessionClosed)) st
   | QueryState c \<Rightarrow> send_reply (Reply_unit c (Inl SessionClosed)) st
   | Shutdown c \<Rightarrow> send_reply (Reply_unit c (Inl SessionClosed)) st
   | GetTranscript c \<Rightarrow> send_reply (Reply_transcript c (Inl SessionClosed)) st)"

text \<open>The commands still in the queue when it is closed.\<close>

fun reject_queued ::
  "('i, 'c, 'a) session_command list \<Rightarrow> ('d, 'p, 'q) session_actor \<Rightarrow> ('d, 'p, 'q) session_actor" where
  "reject_queued [] st = st"
| "reject_queued (cmd # cmds) st = reject_queued cmds (reject_closed cmd st)"

definition control_session ::
  "('d, 'i, 'c, 'p, 't, 'a, 'q) session_driver \<Rightarrow> 'c \<Rightarrow> nat \<Rightarrow>
   ('d, 'p, 'q) session_actor \<Rightarrow> ('d, 'p, 'q) session_actor" where
  "control_session D ctl c st =
     (let (r, d) = (case require_idle st of
                      Inr _ \<Rightarrow> control_driver D (driver st) ctl
                    | Inl e \<Rightarrow> (Inl e, driver st))
      in send_reply (Reply_unit c r) (st\<lparr>driver := d\<rparr>))"

definition read_transcript ::
  "('d, 'i, 'c, 'p, 't, 'a, 'q) session_driver \<Rightarrow> nat \<Rightarrow>
   ('d, 'p, 'q) session_actor \<Rightarrow> ('d, 'p, 'q) session_actor" where
  "read_transcript D c st =
     send_reply (Reply_transcript c
       (case require_idle st of Inl e \<Rightarrow> Inl e | Inr _ \<Rightarrow> get_transcript D (driver st))) st"

definition write_transcript ::
  "('d, 'i, 'c, 'p, 't, 'a, 'q) session_driver \<Rightarrow> message list \<Rightarrow> nat \<Rightarrow>
   ('d, 'p, 'q) session_actor \<Rightarrow> ('d, 'p, 'q) session_actor" where
  "write_transcript D msgs c st =
     (let (r, d) = (case pending_input st of
                      Some p \<Rightarrow> (Inl (AwaitingInputOf (pending_turn D p)), driver st)
                    | None \<Rightarrow> (case require_idle st of
                        Inl e \<Rightarrow> (Inl e, driver st)
                      | Inr _ \<Rightarrow> replace_transcript D (driver st) msgs))
      in send_reply (Reply_unit c r) (st\<lparr>driver := d\<rparr>))"

definition query_state ::
  "('d, 'i, 'c, 'p, 't, 'a, 'q) session_driver \<Rightarrow> nat \<Rightarrow>
   ('d, 'p, 'q) session_actor \<Rightarrow> ('d, 'p, 'q) session_actor" where
  "query_state D c st =
     send_reply (Reply_unit c (Inr ()))
       (emit D (LRuntimeState ((snapshot st)\<lparr>snap_last_sequence := sequence_of D (driver st)\<rparr>)) st)"

definition handle_shutdown ::
  "('d, 'i, 'c, 'p, 't, 'a, 'q) session_driver \<Rightarrow> ('i, 'c, 'a) session_command list \<Rightarrow> nat \<Rightarrow>
   ('d, 'p, 'q) session_actor \<Rightarrow> bool \<times> ('d, 'p, 'q) session_actor" where
  "handle_shutdown D queued c st =
     (let st = st\<lparr>shutdown_waiters := shutdown_waiters st @ [c]\<rparr>;
          st = reject_queued queued (begin_shutdown D st)
      in if active st = None then (True, finish_shutdown D st) else (False, st))"

definition handle_command ::
  "('d, 'i, 'c, 'p, 't, 'a, 'q) session_driver \<Rightarrow> ('i, 'c, 'a) session_command list \<Rightarrow>
   ('i, 'c, 'a) session_command \<Rightarrow> ('d, 'p, 'q) session_actor \<Rightarrow> bool \<times> ('d, 'p, 'q) session_actor" where
  "handle_command D queued cmd st =
     (if closing st \<and> (case cmd of Shutdown _ \<Rightarrow> False | _ \<Rightarrow> True) then (False, reject_closed cmd st)
      else (case cmd of
          StartTurn turn input agent acc outc \<Rightarrow> (False, start_turn D turn input agent acc outc st)
        | StopTurn expected kind c \<Rightarrow>
            (let (r, st) = stop_active D expected kind st in (False, send_reply (Reply_turn c r) st))
        | Control ctl c \<Rightarrow> (False, control_session D ctl c st)
        | GetTranscript c \<Rightarrow> (False, read_transcript D c st)
        | ReplaceTranscript msgs c \<Rightarrow> (False, write_transcript D msgs c st)
        | QueryState c \<Rightarrow> (False, query_state D c st)
        | Shutdown c \<Rightarrow> handle_shutdown D queued c st))"

subsection \<open>The loop of the actor\<close>

definition on_completion ::
  "('d, 'i, 'c, 'p, 't, 'a, 'q) session_driver \<Rightarrow> 't turn_completion \<Rightarrow>
   ('d, 'p, 'q) session_actor \<Rightarrow> bool \<times> ('d, 'p, 'q) session_actor" where
  "on_completion D c st =
     (let st = finish_turn D c
            (st\<lparr>in_flight := remove1 (completion_id c, completion_generation c) (in_flight st)\<rparr>)
      in if closing st \<and> active st = None then (True, finish_shutdown D st) else (False, st))"

definition on_disconnect ::
  "('d, 'i, 'c, 'p, 't, 'a, 'q) session_driver \<Rightarrow>
   ('d, 'p, 'q) session_actor \<Rightarrow> bool \<times> ('d, 'p, 'q) session_actor" where
  "on_disconnect D st =
     (let st = begin_shutdown D st
      in if active st = None then (True, finish_shutdown D st) else (False, st))"

datatype ('i, 'c, 'a, 't, 'd) session_event =
    Completion_received "'t turn_completion"
  | Command_received "('i, 'c, 'a) session_command" "('i, 'c, 'a) session_command list"
  | Commands_disconnected
  | Background 'd

text \<open>
  One round of \<open>select!\<close>, with the guards of its branches. A completion comes from a turn that was
  spawned. What the running turn and other tasks do to state they share with the driver (its event
  log) is the relation \<open>bg\<close>.
\<close>

inductive session_step ::
  "('d, 'i, 'c, 'p, 't, 'a, 'q) session_driver \<Rightarrow> ('d \<Rightarrow> 'd \<Rightarrow> bool) \<Rightarrow>
   bool \<times> ('d, 'p, 'q) session_actor \<Rightarrow> ('i, 'c, 'a, 't, 'd) session_event \<Rightarrow> bool \<times> ('d, 'p, 'q) session_actor \<Rightarrow> bool"
  for D bg where
  completion_branch: "active st \<noteq> None \<Longrightarrow>
     (completion_id c, completion_generation c) \<in> set (in_flight st) \<Longrightarrow>
     session_step D bg (False, st) (Completion_received c) (on_completion D c st)"
| command_branch: "\<not> closing st \<Longrightarrow>
     session_step D bg (False, st) (Command_received cmd queued) (handle_command D queued cmd st)"
| disconnect_branch: "\<not> closing st \<Longrightarrow>
     session_step D bg (False, st) Commands_disconnected (on_disconnect D st)"
| background: "bg (driver st) d \<Longrightarrow>
     session_step D bg (False, st) (Background d) (False, st\<lparr>driver := d\<rparr>)"

inductive session_run ::
  "('d, 'i, 'c, 'p, 't, 'a, 'q) session_driver \<Rightarrow> ('d \<Rightarrow> 'd \<Rightarrow> bool) \<Rightarrow>
   bool \<times> ('d, 'p, 'q) session_actor \<Rightarrow> ('i, 'c, 'a, 't, 'd) session_event list \<Rightarrow> bool \<times> ('d, 'p, 'q) session_actor \<Rightarrow> bool"
  for D bg where
  run_nil: "session_run D bg s [] s"
| run_snoc: "session_run D bg s es t \<Longrightarrow> session_step D bg t e u \<Longrightarrow> session_run D bg s (es @ [e]) u"

inductive_cases completion_cases: "session_step D bg s (Completion_received c) t"
inductive_cases command_cases: "session_step D bg s (Command_received cmd queued) t"
inductive_cases disconnect_cases: "session_step D bg s Commands_disconnected t"
inductive_cases stopped_cases: "session_step D bg (True, st) e t"
inductive_cases run_nil_cases: "session_run D bg s [] t"

end
