(* ===== verification/SessionInvariants.thy ===== *)
theory SessionInvariants
  imports SessionActor
begin

section \<open>What holds of every runtime session\<close>

text \<open>
  Invariants of the session actor over every run of its loop, for every driver: the snapshot that
  observers read tells the state of the actor, at most one turn is in flight and its completion is
  never stale, the loop never waits for nothing, and every request is answered once.
\<close>

named_theorems session_simps \<open>effects of the operations on the fields of the actor\<close>

subsection \<open>Frames\<close>

lemma send_reply_frame [simp]:
  "session_id (send_reply r st) = session_id st"
  "closing (send_reply r st) = closing st"
  "pending_input (send_reply r st) = pending_input st"
  "in_flight (send_reply r st) = in_flight st"
  "generation (send_reply r st) = generation st"
  "shutdown_waiters (send_reply r st) = shutdown_waiters st"
  "shutdown_cell (send_reply r st) = shutdown_cell st"
  "active (send_reply r st) = active st"
  "snapshot (send_reply r st) = snapshot st"
  "emitted (send_reply r st) = emitted st"
  "driver (send_reply r st) = driver st"
  by (simp_all add: send_reply_def)

lemma emit_frame [simp]:
  "session_id (emit D ev st) = session_id st"
  "closing (emit D ev st) = closing st"
  "pending_input (emit D ev st) = pending_input st"
  "in_flight (emit D ev st) = in_flight st"
  "generation (emit D ev st) = generation st"
  "shutdown_waiters (emit D ev st) = shutdown_waiters st"
  "shutdown_cell (emit D ev st) = shutdown_cell st"
  "active (emit D ev st) = active st"
  "snapshot (emit D ev st) = snapshot st"
  "replies (emit D ev st) = replies st"
  by (simp_all add: emit_def)

lemma publish_snapshot_frame [simp]:
  "session_id (publish_snapshot D ph st) = session_id st"
  "closing (publish_snapshot D ph st) = closing st"
  "pending_input (publish_snapshot D ph st) = pending_input st"
  "in_flight (publish_snapshot D ph st) = in_flight st"
  "generation (publish_snapshot D ph st) = generation st"
  "shutdown_waiters (publish_snapshot D ph st) = shutdown_waiters st"
  "shutdown_cell (publish_snapshot D ph st) = shutdown_cell st"
  "active (publish_snapshot D ph st) = active st"
  "replies (publish_snapshot D ph st) = replies st"
  "emitted (publish_snapshot D ph st) = emitted st"
  "driver (publish_snapshot D ph st) = driver st"
  by (simp_all add: publish_snapshot_def)

lemma cancel_active_frame [simp]:
  "session_id (cancel_active D st) = session_id st"
  "closing (cancel_active D st) = closing st"
  "pending_input (cancel_active D st) = pending_input st"
  "in_flight (cancel_active D st) = in_flight st"
  "generation (cancel_active D st) = generation st"
  "shutdown_waiters (cancel_active D st) = shutdown_waiters st"
  "shutdown_cell (cancel_active D st) = shutdown_cell st"
  "snapshot (cancel_active D st) = snapshot st"
  "replies (cancel_active D st) = replies st"
  "emitted (cancel_active D st) = emitted st"
  by (simp_all add: cancel_active_def Let_def split: option.split)

lemma reject_closed_frame [simp]:
  "session_id (reject_closed cmd st) = session_id st"
  "closing (reject_closed cmd st) = closing st"
  "pending_input (reject_closed cmd st) = pending_input st"
  "in_flight (reject_closed cmd st) = in_flight st"
  "generation (reject_closed cmd st) = generation st"
  "shutdown_waiters (reject_closed cmd st) = shutdown_waiters st"
  "shutdown_cell (reject_closed cmd st) = shutdown_cell st"
  "active (reject_closed cmd st) = active st"
  "snapshot (reject_closed cmd st) = snapshot st"
  "emitted (reject_closed cmd st) = emitted st"
  "driver (reject_closed cmd st) = driver st"
  by (simp_all add: reject_closed_def split: session_command.split)

lemma reject_queued_frame [simp]:
  "session_id (reject_queued cmds st) = session_id st"
  "closing (reject_queued cmds st) = closing st"
  "pending_input (reject_queued cmds st) = pending_input st"
  "in_flight (reject_queued cmds st) = in_flight st"
  "generation (reject_queued cmds st) = generation st"
  "shutdown_waiters (reject_queued cmds st) = shutdown_waiters st"
  "shutdown_cell (reject_queued cmds st) = shutdown_cell st"
  "active (reject_queued cmds st) = active st"
  "snapshot (reject_queued cmds st) = snapshot st"
  "emitted (reject_queued cmds st) = emitted st"
  "driver (reject_queued cmds st) = driver st"
  by (induction cmds st rule: reject_queued.induct) simp_all

lemma take_pending_frame [simp]:
  "session_id (take_pending D turn pd st) = session_id st"
  "closing (take_pending D turn pd st) = closing st"
  "in_flight (take_pending D turn pd st) = in_flight st"
  "generation (take_pending D turn pd st) = generation st"
  "shutdown_waiters (take_pending D turn pd st) = shutdown_waiters st"
  "shutdown_cell (take_pending D turn pd st) = shutdown_cell st"
  "active (take_pending D turn pd st) = active st"
  "snapshot (take_pending D turn pd st) = snapshot st"
  "replies (take_pending D turn pd st) = replies st"
  by (simp_all add: take_pending_def Let_def split: option.split pending_disposition.split)

lemma settle_pending_frame [simp]:
  "session_id (settle_pending D discard p st) = session_id st"
  "closing (settle_pending D discard p st) = closing st"
  "in_flight (settle_pending D discard p st) = in_flight st"
  "generation (settle_pending D discard p st) = generation st"
  "shutdown_waiters (settle_pending D discard p st) = shutdown_waiters st"
  "shutdown_cell (settle_pending D discard p st) = shutdown_cell st"
  "active (settle_pending D discard p st) = active st"
  "snapshot (settle_pending D discard p st) = snapshot st"
  "replies (settle_pending D discard p st) = replies st"
  by (simp_all add: settle_pending_def Let_def split: option.split)

lemma publish_snapshot_fields [simp]:
  "snap_phase (snapshot (publish_snapshot D ph st)) = ph"
  "snap_pending (snapshot (publish_snapshot D ph st)) = pending_input st"
  "snap_session (snapshot (publish_snapshot D ph st)) = session_id st"
  "snap_generation (snapshot (publish_snapshot D ph st)) = generation st"
  "snap_last_sequence (snapshot (publish_snapshot D ph st)) = sequence_of D (driver st)"
  by (simp_all add: publish_snapshot_def)

definition cancelled_turn :: "active_turn \<Rightarrow> active_turn" where
  "cancelled_turn a = a\<lparr>cancellation := True,
     stop_kind := (case stop_kind a of None \<Rightarrow> Some Cancel | Some k \<Rightarrow> Some k)\<rparr>"

lemma cancelled_turn_fields [simp]:
  "active_id (cancelled_turn a) = active_id a"
  "active_generation (cancelled_turn a) = active_generation a"
  "completion_channel (cancelled_turn a) = completion_channel a"
  "cancellation (cancelled_turn a)"
  "stop_kind (cancelled_turn a) \<noteq> None"
  "stop_kind a = Some k \<Longrightarrow> stop_kind (cancelled_turn a) = Some k"
  by (simp_all add: cancelled_turn_def split: option.split)

lemma cancel_active_active [simp]:
  "active (cancel_active D st) = map_option cancelled_turn (active st)"
  by (simp add: cancel_active_def Let_def cancelled_turn_def split: option.split)

lemma cancel_active_driver [simp]:
  "driver (cancel_active D st) = snd (cancel_descendants D (driver st))"
  by (simp add: cancel_active_def Let_def split: option.split)

lemma take_pending_pending [simp]: "pending_input (take_pending D turn pd st) = None"
  by (simp add: take_pending_def Let_def split: option.split pending_disposition.split)

lemma settle_pending_pending [simp]:
  "pending_input (settle_pending D discard p st) = (if discard = None then p else pending_input st)"
  by (simp add: settle_pending_def Let_def split: option.split)

lemma discard_pending_cases:
  obtains (absent) "pending_input st = None" "discard_pending_input D reason st = (Inr None, st)"
  | (failed) p e d where "pending_input st = Some p"
      "discard_pending_input D reason st = (Inl e, st\<lparr>driver := d\<rparr>)"
      "discard_pending D (driver st) = (Inl e, d)"
  | (discarded) p d where "pending_input st = Some p"
      "discard_pending_input D reason st = (Inr (Some (pending_turn D p)),
         emit D (LInputDiscarded (pending_turn D p) reason) (st\<lparr>driver := d, pending_input := None\<rparr>))"
      "discard_pending D (driver st) = (Inr (), d)"
proof (cases "pending_input st")
  case None
  show ?thesis by (rule absent) (simp_all add: None discard_pending_input_def)
next
  case (Some p)
  obtain r d where r: "discard_pending D (driver st) = (r, d)" by fastforce
  show ?thesis
  proof (cases r)
    case (Inl e)
    show ?thesis by (rule failed [of p e d]) (simp_all add: Some r Inl discard_pending_input_def)
  next
    case (Inr u)
    show ?thesis by (rule discarded [of p d]) (simp_all add: Some r Inr discard_pending_input_def Let_def)
  qed
qed

subsection \<open>The invariant\<close>

definition expected_phase ::
  "('d, 'i, 'c, 'p, 't, 'a, 'q) session_driver \<Rightarrow> bool \<times> ('d, 'p, 'q) session_actor \<Rightarrow> session_phase" where
  "expected_phase D s = (case s of (stopped, st) \<Rightarrow>
     if stopped then Closed
     else if closing st then Closing
     else (case active st of
         Some a \<Rightarrow> if cancellation a then Cancelling (active_id a) else Running (active_id a)
       | None \<Rightarrow> phase_after_turn D (pending_input st)))"

definition snapshot_ok ::
  "('d, 'i, 'c, 'p, 't, 'a, 'q) session_driver \<Rightarrow> bool \<times> ('d, 'p, 'q) session_actor \<Rightarrow> bool" where
  "snapshot_ok D s \<longleftrightarrow> (let st = snd s; sn = snapshot st in
     snap_phase sn = expected_phase D s \<and> snap_pending sn = pending_input st \<and>
     snap_session sn = session_id st \<and> snap_generation sn = generation st)"

definition turn_ok :: "('d, 'p, 'q) session_actor \<Rightarrow> bool" where
  "turn_ok st \<longleftrightarrow> (case active st of
     None \<Rightarrow> in_flight st = []
   | Some a \<Rightarrow> in_flight st = [(active_id a, generation st)] \<and> active_generation a = generation st \<and>
       pending_input st = None \<and> (cancellation a \<longleftrightarrow> stop_kind a \<noteq> None) \<and>
       (closing st \<longrightarrow> cancellation a))"

definition shutdown_ok :: "bool \<times> ('d, 'p, 'q) session_actor \<Rightarrow> bool" where
  "shutdown_ok s \<longleftrightarrow> (case s of (stopped, st) \<Rightarrow>
     (stopped \<longrightarrow> closing st \<and> active st = None \<and> shutdown_waiters st = [] \<and> shutdown_cell st \<noteq> None) \<and>
     (\<not> stopped \<and> closing st \<longrightarrow> active st \<noteq> None) \<and>
     (\<not> closing st \<longrightarrow> shutdown_waiters st = [] \<and> shutdown_cell st = None))"

definition session_ok ::
  "('d, 'i, 'c, 'p, 't, 'a, 'q) session_driver \<Rightarrow> bool \<times> ('d, 'p, 'q) session_actor \<Rightarrow> bool" where
  "session_ok D s \<longleftrightarrow> snapshot_ok D s \<and> turn_ok (snd s) \<and> shutdown_ok s"

lemmas session_ok_defs = session_ok_def snapshot_ok_def turn_ok_def shutdown_ok_def expected_phase_def

lemmas actor_defs = emit_def send_reply_def publish_snapshot_def cancel_active_def
  discard_pending_input_def take_pending_def settle_pending_def turn_result_def

lemma start_session_ok: "session_ok D (False, start_session D sid d)"
  by (simp add: session_ok_defs start_session_def phase_after_turn_def)

lemma reply_ok [simp]: "session_ok D (b, send_reply r st) = session_ok D (b, st)"
  by (simp add: session_ok_defs send_reply_def Let_def cong: option.case_cong)

lemma driver_ok [simp]: "session_ok D (b, st\<lparr>driver := d\<rparr>) = session_ok D (b, st)"
  by (simp add: session_ok_defs Let_def cong: option.case_cong)

lemma emit_ok [simp]: "session_ok D (b, emit D ev st) = session_ok D (b, st)"
  by (simp add: session_ok_defs emit_def Let_def cong: option.case_cong)

lemma reject_closed_ok [simp]: "session_ok D (b, reject_closed cmd st) = session_ok D (b, st)"
  by (cases cmd) (simp_all add: reject_closed_def)

lemma start_turn_cases:
  obtains (rejected) e d where
      "start_turn D turn input agent acc outc st = send_reply (Reply_unit acc (Inl e)) (st\<lparr>driver := d\<rparr>)"
      "active st = None \<Longrightarrow> validate_input D (driver st) input (pending_input st) = Inr () \<Longrightarrow>
         \<exists>x. begin_turn D (driver st) input x = (Inl e, d)"
      "\<not> (active st = None \<and> validate_input D (driver st) input (pending_input st) = Inr ()) \<Longrightarrow> d = driver st"
  | (admitted) t d where
      "active st = None" "validate_input D (driver st) input (pending_input st) = Inr ()"
      "begin_turn D (driver st) input \<lparr>ctx_turn = turn, ctx_agent = agent,
         ctx_pending = disposition D input (pending_input st)\<rparr> = (Inr t, d)"
      "start_turn D turn input agent acc outc st =
         send_reply (Reply_unit acc (Inr ()))
           (publish_snapshot D (Running turn) (emit D (LTurnStarted turn)
              (take_pending D turn (disposition D input (pending_input st)) (st\<lparr>driver := d\<rparr>)
                \<lparr>active := Some \<lparr>active_id = turn, active_generation = generation st,
                   cancellation = False, stop_kind = None, completion_channel = outc\<rparr>\<rparr>))
            \<lparr>in_flight := in_flight st @ [(turn, generation st)]\<rparr>)"
proof (cases "active st = None \<and> validate_input D (driver st) input (pending_input st) = Inr ()")
  case False
  then obtain e where "(case require_idle st of Inl e \<Rightarrow> Inl e
      | Inr _ \<Rightarrow> validate_input D (driver st) input (pending_input st)) = Inl e"
    by (cases "active st"; cases "validate_input D (driver st) input (pending_input st)")
      (auto simp: require_idle_def)
  then have st1: "start_turn D turn input agent acc outc st = send_reply (Reply_unit acc (Inl e)) st"
    by (simp only: start_turn_def sum.case)
  show ?thesis by (rule rejected [of e "driver st"]) (use False st1 in auto)
next
  case True
  obtain r d where r: "begin_turn D (driver st) input \<lparr>ctx_turn = turn, ctx_agent = agent,
      ctx_pending = disposition D input (pending_input st)\<rparr> = (r, d)" by fastforce
  show ?thesis
  proof (cases r)
    case (Inl e)
    show ?thesis
      by (rule rejected [of e d]) (use True r Inl in \<open>auto simp: start_turn_def require_idle_def\<close>)
  next
    case (Inr t)
    show ?thesis
      by (rule admitted [of t d])
        (use True r Inr in \<open>simp_all add: start_turn_def require_idle_def Let_def\<close>)
  qed
qed

lemma start_turn_ok:
  assumes "session_ok D (False, st)" "\<not> closing st"
  shows "session_ok D (False, start_turn D turn input agent acc outc st)"
proof (cases rule: start_turn_cases [of D turn input agent acc outc st])
  case (rejected e d)
  with assms show ?thesis by simp
next
  case (admitted t d)
  with assms show ?thesis by (simp add: session_ok_defs Let_def)
qed

lemma stop_active_cases:
  obtains (refused) e d where "stop_active D expected kind st = (Inl e, st\<lparr>driver := d\<rparr>)"
      "d = driver st \<or> d = snd (discard_pending D (driver st))"
  | (waiting) p d where "active st = None" "pending_input st = Some p"
      "\<forall>t\<in>set_option expected. t = pending_turn D p" "discard_pending D (driver st) = (Inr (), d)"
      "stop_active D expected kind st = (Inr (pending_turn D p), publish_snapshot D Idle (cancel_active D
         (emit D (LInputDiscarded (pending_turn D p) (discard_reason kind))
           (st\<lparr>driver := d, pending_input := None\<rparr>))))"
  | (stopping) a where "active st = Some a" "\<forall>t\<in>set_option expected. t = active_id a"
      "\<forall>k\<in>set_option (stop_kind a). k = kind"
      "stop_active D expected kind st = (Inr (active_id a), publish_snapshot D (Cancelling (active_id a))
         (cancel_active D (st\<lparr>active := Some (a\<lparr>stop_kind := Some kind\<rparr>)\<rparr>)))"
proof (cases "active st")
  case (Some a)
  consider (bad_target) t where "expected = Some t" "t \<noteq> active_id a"
    | (other_stop) k where "\<forall>t\<in>set_option expected. t = active_id a" "stop_kind a = Some k" "k \<noteq> kind"
    | (accepted) "\<forall>t\<in>set_option expected. t = active_id a" "\<forall>k\<in>set_option (stop_kind a). k = kind"
    by (cases expected; cases "stop_kind a") auto
  then show ?thesis
  proof cases
    case bad_target
    show ?thesis
      by (rule refused [of "StaleTurn t (active_id a)" "driver st"])
        (simp_all add: bad_target Some stop_active_def)
  next
    case other_stop
    show ?thesis
      by (rule refused [of "StopInProgress (active_id a)" "driver st"])
        (use other_stop in \<open>simp_all add: Some stop_active_def\<close>)
  next
    case accepted
    show ?thesis
      by (rule stopping [of a]) (use accepted in \<open>simp_all add: Some stop_active_def Let_def\<close>)
  qed
next
  case None
  show ?thesis
  proof (cases rule: discard_pending_cases [of st D "discard_reason kind"])
    case absent
    show ?thesis
      by (rule refused [of NotRunning "driver st"]) (simp_all add: absent None stop_active_def)
  next
    case (failed p e d)
    show ?thesis
    proof (cases "\<exists>t\<in>set_option expected. t \<noteq> pending_turn D p")
      case True
      show ?thesis
        by (rule refused [of "StaleInput (the expected) (pending_turn D p)" "driver st"])
          (simp_all add: True failed None stop_active_def)
    next
      case False
      show ?thesis
        by (rule refused [of e d]) (simp_all add: False failed None stop_active_def)
    qed
  next
    case (discarded p d)
    show ?thesis
    proof (cases "\<exists>t\<in>set_option expected. t \<noteq> pending_turn D p")
      case True
      show ?thesis
        by (rule refused [of "StaleInput (the expected) (pending_turn D p)" "driver st"])
          (simp_all add: True discarded None stop_active_def)
    next
      case False
      show ?thesis
        by (rule waiting [of p d]) (use False in \<open>simp_all add: discarded None stop_active_def\<close>)
    qed
  qed
qed

lemma stop_active_ok:
  assumes "session_ok D (False, st)" "\<not> closing st" "stop_active D expected kind st = (r, st')"
  shows "session_ok D (False, st')"
proof (cases rule: stop_active_cases [of D expected kind st])
  case (refused e d)
  with assms show ?thesis by auto
next
  case (waiting p d)
  with assms show ?thesis by (auto simp: session_ok_defs Let_def phase_after_turn_def)
next
  case (stopping a)
  with assms show ?thesis by (auto simp: session_ok_defs Let_def)
qed

subsection \<open>Shutting down\<close>

lemma begin_shutdown_frame [simp]:
  "session_id (begin_shutdown D st) = session_id st"
  "in_flight (begin_shutdown D st) = in_flight st"
  "generation (begin_shutdown D st) = generation st"
  "shutdown_waiters (begin_shutdown D st) = shutdown_waiters st"
  "replies (begin_shutdown D st) = replies st"
  "closing (begin_shutdown D st)"
  "active (begin_shutdown D st) = map_option cancelled_turn (active st)"
  "snap_phase (snapshot (begin_shutdown D st)) = Closing"
  "snap_pending (snapshot (begin_shutdown D st)) = pending_input (begin_shutdown D st)"
  "snap_session (snapshot (begin_shutdown D st)) = session_id st"
  "snap_generation (snapshot (begin_shutdown D st)) = generation st"
  by (cases rule: discard_pending_cases [of "st\<lparr>closing := True\<rparr>" D Discard_Shutdown];
      simp add: begin_shutdown_def)+

lemma begin_shutdown_pending:
  "pending_input st = None \<Longrightarrow> pending_input (begin_shutdown D st) = None"
  by (simp add: begin_shutdown_def discard_pending_input_def)

lemma finish_shutdown_frame [simp]:
  "session_id (finish_shutdown D st) = session_id st"
  "in_flight (finish_shutdown D st) = in_flight st"
  "generation (finish_shutdown D st) = generation st"
  "active (finish_shutdown D st) = active st"
  "closing (finish_shutdown D st) = closing st"
  "pending_input (finish_shutdown D st) = pending_input st"
  "emitted (finish_shutdown D st) = emitted st"
  "shutdown_waiters (finish_shutdown D st) = []"
  "shutdown_cell (finish_shutdown D st) \<noteq> None"
  "\<exists>x. shutdown_cell (finish_shutdown D st) = Some x"
  "snap_phase (snapshot (finish_shutdown D st)) = Closed"
  "snap_pending (snapshot (finish_shutdown D st)) = pending_input st"
  "snap_session (snapshot (finish_shutdown D st)) = session_id st"
  "snap_generation (snapshot (finish_shutdown D st)) = generation st"
  by (simp_all add: finish_shutdown_def publish_snapshot_def Let_def split: prod.split option.split)

text \<open>The end of a round that closes the session: at once when no turn is active.\<close>

definition close_when_idle ::
  "('d, 'i, 'c, 'p, 't, 'a, 'q) session_driver \<Rightarrow> ('d, 'p, 'q) session_actor \<Rightarrow> bool \<times> ('d, 'p, 'q) session_actor" where
  "close_when_idle D st = (if active st = None then (True, finish_shutdown D st) else (False, st))"

lemma close_when_idle_ok:
  assumes "closing st" "turn_ok st" "snap_phase (snapshot st) = Closing"
    and "snap_pending (snapshot st) = pending_input st" "snap_session (snapshot st) = session_id st"
    and "snap_generation (snapshot st) = generation st"
  shows "session_ok D (close_when_idle D st)"
  using assms by (auto simp: close_when_idle_def session_ok_defs Let_def)

lemma begin_shutdown_turn_ok: "turn_ok st \<Longrightarrow> turn_ok (begin_shutdown D st)"
  by (auto simp: turn_ok_def begin_shutdown_pending split: option.splits)

lemma on_disconnect_ok:
  "session_ok D (False, st) \<Longrightarrow> session_ok D (on_disconnect D st)"
  using close_when_idle_ok [of "begin_shutdown D st" D] begin_shutdown_turn_ok [of st D]
  by (simp add: on_disconnect_def close_when_idle_def [symmetric] Let_def session_ok_def)

lemma turn_ok_queued [simp]: "turn_ok (reject_queued cmds st) = turn_ok st"
  by (simp add: turn_ok_def cong: option.case_cong)

lemma handle_shutdown_ok:
  assumes "session_ok D (False, st)"
  shows "session_ok D (handle_shutdown D queued c st)"
proof -
  let ?st = "reject_queued queued (begin_shutdown D (st\<lparr>shutdown_waiters := shutdown_waiters st @ [c]\<rparr>))"
  have "turn_ok (st\<lparr>shutdown_waiters := shutdown_waiters st @ [c]\<rparr>)"
    using assms by (simp add: session_ok_def turn_ok_def cong: option.case_cong)
  from begin_shutdown_turn_ok [OF this] have "session_ok D (close_when_idle D ?st)"
    by (intro close_when_idle_ok) simp_all
  then show ?thesis by (simp add: handle_shutdown_def close_when_idle_def Let_def)
qed

subsection \<open>Completing a turn\<close>

definition completes :: "'t turn_completion \<Rightarrow> active_turn \<Rightarrow> nat \<Rightarrow> bool" where
  "completes c a gen \<longleftrightarrow>
     completion_id c = active_id a \<and> completion_generation c = active_generation a \<and>
     completion_generation c = gen"

definition turn_kind :: "active_turn \<Rightarrow> turn_stop_kind" where
  "turn_kind a = (case stop_kind a of None \<Rightarrow> Cancel | Some k \<Rightarrow> k)"

lemma turn_result_frame:
  assumes "turn_result D cancelled kind result out st = (r, st')"
  shows "session_id st' = session_id st" "closing st' = closing st" "pending_input st' = pending_input st"
    "in_flight st' = in_flight st" "generation st' = generation st"
    "shutdown_waiters st' = shutdown_waiters st" "shutdown_cell st' = shutdown_cell st"
    "active st' = active st" "snapshot st' = snapshot st" "replies st' = replies st"
  using assms by (auto simp: turn_result_def split: if_splits sum.splits)

lemma finish_turn_current:
  assumes "active st = Some a" "completes c a (generation st)"
  obtains p out d d' r st' where
    "complete_turn D (driver st) (completion_turn c)
       (turn_discard (closing st) (cancellation a) (turn_kind a)) =
       (\<lparr>ct_report = query_report out, ct_transcript = outcome_transcript out, ct_pending = p\<rparr>, d)"
    "outcome_turn out = active_id a"
    "turn_result D (cancellation a) (turn_kind a) (completion_result c) out
       (settle_pending D (turn_discard (closing st) (cancellation a) (turn_kind a)) p
          (st\<lparr>active := None, driver := d\<rparr>)\<lparr>driver := d'\<rparr>) = (r, st')"
    "finish_turn D c st = send_reply (Reply_outcome (completion_channel a) r)
       (if closing st then st' else publish_snapshot D (phase_after_turn D (pending_input st')) st')"
    "d' = after_turn D (driver (settle_pending D (turn_discard (closing st) (cancellation a) (turn_kind a)) p
       (st\<lparr>active := None, driver := d\<rparr>)))"
proof -
  let ?discard = "turn_discard (closing st) (cancellation a) (turn_kind a)"
  obtain ct d where ct: "complete_turn D (driver st) (completion_turn c) ?discard = (ct, d)"
    by fastforce
  let ?out = "\<lparr>outcome_turn = completion_id c, query_report = ct_report ct,
    outcome_transcript = ct_transcript ct\<rparr>"
  let ?st = "settle_pending D ?discard (ct_pending ct) (st\<lparr>active := None, driver := d\<rparr>)"
  obtain r st' where r: "turn_result D (cancellation a) (turn_kind a) (completion_result c) ?out
      (?st\<lparr>driver := after_turn D (driver ?st)\<rparr>) = (r, st')" by fastforce
  have "closing st' = closing st" using turn_result_frame(2) [OF r] by simp
  moreover have "finish_turn D c st = send_reply (Reply_outcome (completion_channel a) r)
       (if closing st' then st' else publish_snapshot D (phase_after_turn D (pending_input st')) st')"
    using assms ct r
    by (simp add: finish_turn_def completes_def turn_kind_def Let_def)
  ultimately show ?thesis
    using that [where p = "ct_pending ct" and out = ?out and d = d
        and d' = "after_turn D (driver ?st)" and r = r and st' = st'] ct r assms(2)
    by (simp add: completes_def)
qed

lemma on_completion_ok:
  assumes ok: "session_ok D (False, st)" and "active st \<noteq> None"
    and c: "(completion_id c, completion_generation c) \<in> set (in_flight st)"
  shows "session_ok D (on_completion D c st)"
proof -
  obtain a where a: "active st = Some a" using assms(2) by blast
  have fl: "in_flight st = [(active_id a, generation st)]" "active_generation a = generation st"
      "pending_input st = None" "cancellation a \<longleftrightarrow> stop_kind a \<noteq> None"
    using ok a by (simp_all add: session_ok_def turn_ok_def)
  let ?st = "st\<lparr>in_flight := remove1 (completion_id c, completion_generation c) (in_flight st)\<rparr>"
  have m: "active ?st = Some a" "completes c a (generation ?st)"
    using a c fl by (auto simp: completes_def)
  show ?thesis
  proof (cases rule: finish_turn_current [OF m, of D])
    case (1 p out d d' r st')
    note fr = turn_result_frame [OF 1(3)]
    show ?thesis
      using ok a c fl fr 1(4)
      by (cases "closing st")
        (auto simp: on_completion_def session_ok_defs Let_def)
  qed
qed

lemma handle_command_ok:
  assumes "session_ok D (False, st)" "\<not> closing st"
  shows "session_ok D (handle_command D queued cmd st)"
proof (cases cmd)
  case (StopTurn expected kind c)
  obtain r st' where "stop_active D expected kind st = (r, st')" by fastforce
  with stop_active_ok [OF assms this] StopTurn assms(2) show ?thesis
    by (simp add: handle_command_def)
qed (use assms in \<open>simp_all add: handle_command_def start_turn_ok handle_shutdown_ok control_session_def
      read_transcript_def write_transcript_def query_state_def Let_def split: prod.split\<close>)

lemma step_ok: "session_step D bg s e t \<Longrightarrow> session_ok D s \<Longrightarrow> session_ok D t"
  by (induction rule: session_step.induct)
    (simp_all add: on_completion_ok handle_command_ok on_disconnect_ok)

lemma run_ok: "session_run D bg s es t \<Longrightarrow> session_ok D s \<Longrightarrow> session_ok D t"
  by (induction rule: session_run.induct) (auto intro: step_ok)

end
