(* ===== verification/SessionProtocol.thy ===== *)
theory SessionProtocol
  imports SessionInvariants
begin

section \<open>The protocol of a runtime session\<close>

text \<open>
  What clients and observers of a session rely on: the phases of its snapshots follow a small
  automaton, the lifecycle events are well bracketed, every request is answered once and every
  turn that was started reports its own outcome.
\<close>

subsection \<open>The abstract session\<close>

text \<open>
  The phases of a session with the events that move it: what a client sees without the queues,
  the driver and the cancellation flag.
\<close>

definition may_start :: "session_phase \<Rightarrow> bool" where
  "may_start p \<longleftrightarrow> p = Idle \<or> (\<exists>w. p = AwaitingInput w)"

definition closes :: "session_phase \<Rightarrow> session_phase \<Rightarrow> bool" where
  "closes p q \<longleftrightarrow> (if may_start p then q = Closed else p \<noteq> Closing \<and> p \<noteq> Closed \<and> q = Closing)"

definition phase_step ::
  "session_phase \<Rightarrow> ('i, 'c, 'a, 't, 'd) session_event \<Rightarrow> session_phase \<Rightarrow> bool" where
  "phase_step p e q \<longleftrightarrow> (case e of
     Completion_received c \<Rightarrow>
       (case p of
          Running t \<Rightarrow> completion_id c = t \<and> may_start q
        | Cancelling t \<Rightarrow> completion_id c = t \<and> q = Idle
        | Closing \<Rightarrow> q = Closed
        | _ \<Rightarrow> False)
   | Command_received (StartTurn t _ _ _ _) _ \<Rightarrow> q = p \<or> may_start p \<and> q = Running t
   | Command_received (StopTurn expected _ _) _ \<Rightarrow> q = p \<or>
       (\<exists>t. p = Running t \<and> (expected = None \<or> expected = Some t) \<and> q = Cancelling t) \<or>
       (\<exists>w. p = AwaitingInput w \<and> (expected = None \<or> expected = Some w) \<and> q = Idle)
   | Command_received (Shutdown _) _ \<Rightarrow> closes p q
   | Commands_disconnected \<Rightarrow> closes p q
   | _ \<Rightarrow> q = p)"

abbreviation phase_now :: "bool \<times> ('d, 'p, 'q) session_actor \<Rightarrow> session_phase" where
  "phase_now s \<equiv> snap_phase (snapshot (snd s))"

lemma phase_is_expected: "session_ok D s \<Longrightarrow> phase_now s = expected_phase D s"
  by (simp add: session_ok_def snapshot_ok_def Let_def)

lemma may_start_after [simp]: "may_start (phase_after_turn D p)"
  by (simp add: may_start_def phase_after_turn_def split: option.split)

lemma may_start_simps [simp]:
  "may_start Idle" "may_start (AwaitingInput w)" "\<not> may_start (Running t)"
  "\<not> may_start (Cancelling t)" "\<not> may_start Closing" "\<not> may_start Closed"
  by (simp_all add: may_start_def)

lemma phase_open:
  assumes "session_ok D (False, st)" "\<not> closing st"
  shows "snap_phase (snapshot st) = (case active st of
      Some a \<Rightarrow> if cancellation a then Cancelling (active_id a) else Running (active_id a)
    | None \<Rightarrow> phase_after_turn D (pending_input st))"
  using phase_is_expected [OF assms(1)] assms(2) by (simp add: expected_phase_def)

lemma closes_phase:
  assumes "session_ok D (False, st)" "\<not> closing st" "active st' = map_option f (active st)"
    and "snap_phase (snapshot st') = Closing"
  shows "closes (snap_phase (snapshot st)) (phase_now (close_when_idle D st'))"
  using phase_open [OF assms(1,2)] assms(3,4)
  by (auto simp: closes_def close_when_idle_def split: option.splits)

lemma completion_phase:
  assumes ok: "session_ok D (False, st)" and "active st \<noteq> None"
    and c: "(completion_id c, completion_generation c) \<in> set (in_flight st)"
  shows "phase_step (snap_phase (snapshot st)) (Completion_received c) (phase_now (on_completion D c st))"
proof -
  obtain a where a: "active st = Some a" using assms(2) by blast
  have fl: "in_flight st = [(active_id a, generation st)]" "active_generation a = generation st"
      "pending_input st = None" "cancellation a \<longleftrightarrow> stop_kind a \<noteq> None"
    using ok a by (simp_all add: session_ok_def turn_ok_def)
  have id: "completion_id c = active_id a" using c fl by simp
  have ok': "session_ok D (on_completion D c st)" by (rule on_completion_ok [OF assms])
  let ?st = "st\<lparr>in_flight := remove1 (completion_id c, completion_generation c) (in_flight st)\<rparr>"
  have m: "active ?st = Some a" "completes c a (generation ?st)"
    using a c fl by (auto simp: completes_def)
  show ?thesis
  proof (cases rule: finish_turn_current [OF m, of D])
    case (1 p out d d' r st')
    note fr = turn_result_frame [OF 1(3)]
    show ?thesis
    proof (cases "closing st")
      case True
      with ok a 1(4) fr show ?thesis
        using phase_is_expected [OF ok]
        by (simp add: on_completion_def phase_step_def expected_phase_def)
    next
      case False
      with phase_open [OF ok False] a id fl fr 1(4) show ?thesis
        by (cases "cancellation a")
          (simp_all add: on_completion_def phase_step_def turn_discard_def phase_after_turn_def may_start_def
            split: option.split)
    qed
  qed
qed

lemma command_phase:
  assumes ok: "session_ok D (False, st)" and open_: "\<not> closing st"
  shows "phase_step (snap_phase (snapshot st)) (Command_received cmd queued)
     (phase_now (handle_command D queued cmd st))"
proof (cases cmd)
  case (StartTurn turn input agent acc outc)
  show ?thesis
  proof (cases rule: start_turn_cases [of D turn input agent acc outc st])
    case (rejected e d)
    with StartTurn open_ show ?thesis by (simp add: handle_command_def phase_step_def)
  next
    case (admitted t d)
    with StartTurn open_ phase_open [OF ok open_] show ?thesis
      by (simp add: handle_command_def phase_step_def)
  qed
next
  case (StopTurn expected kind c)
  show ?thesis
  proof (cases rule: stop_active_cases [of D expected kind st])
    case (refused e d)
    with StopTurn open_ show ?thesis by (simp add: handle_command_def phase_step_def)
  next
    case (waiting p d)
    with StopTurn open_ phase_open [OF ok open_] show ?thesis
      by (cases expected) (simp_all add: handle_command_def phase_step_def phase_after_turn_def)
  next
    case (stopping a)
    with StopTurn open_ phase_open [OF ok open_] show ?thesis
      by (cases expected) (auto simp: handle_command_def phase_step_def)
  qed
next
  case (Shutdown c)
  let ?st = "reject_queued queued (begin_shutdown D (st\<lparr>shutdown_waiters := shutdown_waiters st @ [c]\<rparr>))"
  have "handle_command D queued cmd st = close_when_idle D ?st"
    using Shutdown by (simp add: handle_command_def handle_shutdown_def close_when_idle_def Let_def)
  with closes_phase [OF ok open_, of ?st cancelled_turn] Shutdown show ?thesis
    by (simp add: phase_step_def)
qed (use open_ in \<open>simp_all add: handle_command_def phase_step_def control_session_def
      read_transcript_def write_transcript_def query_state_def Let_def split: prod.split\<close>)

lemma step_phase:
  assumes "session_step D bg s e t" "session_ok D s"
  shows "phase_step (phase_now s) e (phase_now t)"
  using assms
proof (cases rule: session_step.cases)
  case (disconnect_branch st)
  have "on_disconnect D st = close_when_idle D (begin_shutdown D st)"
    by (simp add: on_disconnect_def close_when_idle_def Let_def)
  with disconnect_branch assms(2) closes_phase [of D st "begin_shutdown D st" cancelled_turn] show ?thesis
    by (simp add: phase_step_def)
next
  case (completion_branch st c)
  with completion_phase [of D st c] assms(2) show ?thesis by simp
next
  case (command_branch st cmd queued)
  with command_phase [of D st cmd queued] assms(2) show ?thesis by simp
next
  case (background st d)
  then show ?thesis by (simp add: phase_step_def)
qed

text \<open>
  C5. Refinement: every round of the actor's loop, seen through the snapshot it publishes, is a step
  of the abstract session. So a turn starts only from an idle or waiting session, only the
  completion of the active turn ends it, a cancelled turn never leaves the session waiting for
  input, and closing is never undone.
\<close>

theorem session_refines_phases:
  assumes "session_run D bg (False, start_session D sid d) es s" "session_step D bg s e t"
  shows "phase_step (phase_now s) e (phase_now t)"
  using step_phase [OF assms(2)] run_ok [OF assms(1) start_session_ok] by blast

subsection \<open>Lifecycle events\<close>

text \<open>
  An observer of the events keeps the turn that runs and the turn whose input is awaited. It
  gets stuck (\<open>None\<close>) on an event that is out of place.
\<close>

type_synonym observed = "runtime_turn_id option \<times> runtime_turn_id option"

definition observe ::
  "('d, 'i, 'c, 'p, 't, 'a, 'q) session_driver \<Rightarrow> 'p session_lifecycle \<Rightarrow> observed \<Rightarrow> observed option" where
  "observe D ev s = (case s of (run, wait) \<Rightarrow> (case ev of
     LTurnStarted t \<Rightarrow> if run = None \<and> wait = None then Some (Some t, None) else None
   | LInputAnswered w t \<Rightarrow> if run = None \<and> wait = Some w then Some (None, None) else None
   | LInputDiscarded w r \<Rightarrow>
       if run = None then (if wait = Some w then Some (None, None) else None)
       else if wait = None \<and> r \<noteq> Discard_Superseded then Some (run, None) else None
   | LInputRequested p \<Rightarrow> if run \<noteq> None \<and> wait = None then Some (run, Some (pending_turn D p)) else None
   | LTurnFinished t r \<Rightarrow>
       if run = Some t \<and> (r = Finish_AwaitingInput \<longleftrightarrow> wait \<noteq> None) then Some (None, wait) else None
   | LTurnStopped t k \<Rightarrow> if run = Some t \<and> wait = None then Some (None, None) else None
   | LTurnFailed t msg \<Rightarrow> if run = Some t then Some (None, wait) else None
   | LRuntimeState sn \<Rightarrow> Some s))"

fun observe_all ::
  "('d, 'i, 'c, 'p, 't, 'a, 'q) session_driver \<Rightarrow> 'p session_lifecycle list \<Rightarrow> observed \<Rightarrow> observed option" where
  "observe_all D [] s = Some s"
| "observe_all D (ev # evs) s = Option.bind (observe D ev s) (observe_all D evs)"

lemma observe_all_append [simp]:
  "observe_all D (xs @ ys) s = Option.bind (observe_all D xs s) (observe_all D ys)"
  by (induction D xs s rule: observe_all.induct) (simp_all add: bind_split)

definition observed_state ::
  "('d, 'i, 'c, 'p, 't, 'a, 'q) session_driver \<Rightarrow> ('d, 'p, 'q) session_actor \<Rightarrow> observed" where
  "observed_state D st = (map_option active_id (active st), map_option (pending_turn D) (pending_input st))"

definition events_ok ::
  "('d, 'i, 'c, 'p, 't, 'a, 'q) session_driver \<Rightarrow> ('d, 'p, 'q) session_actor \<Rightarrow> bool" where
  "events_ok D st \<longleftrightarrow> observe_all D (emitted st) (None, None) = Some (observed_state D st)"

lemma emitted_emit [simp]: "emitted (emit D ev st) = emitted st @ [ev]"
  by (simp add: emit_def)

lemma events_ok_cong:
  "emitted st' = emitted st \<Longrightarrow> observed_state D st' = observed_state D st \<Longrightarrow> events_ok D st' = events_ok D st"
  by (simp add: events_ok_def)

lemma events_ok_reply [simp]: "events_ok D (send_reply r st) = events_ok D st"
  by (rule events_ok_cong) (simp_all add: observed_state_def)

lemma events_ok_snapshot [simp]: "events_ok D (publish_snapshot D ph st) = events_ok D st"
  by (rule events_ok_cong) (simp_all add: observed_state_def)

lemma events_ok_driver [simp]: "events_ok D (st\<lparr>driver := d\<rparr>) = events_ok D st"
  by (rule events_ok_cong) (simp_all add: observed_state_def)

lemma events_ok_cancel [simp]: "events_ok D (cancel_active D st) = events_ok D st"
  by (rule events_ok_cong) (simp_all add: observed_state_def option.map_comp comp_def)

lemma events_ok_queued [simp]: "events_ok D (reject_queued cmds st) = events_ok D st"
  by (rule events_ok_cong) (simp_all add: observed_state_def)

lemma events_ok_shutdown [simp]: "events_ok D (finish_shutdown D st) = events_ok D st"
  by (rule events_ok_cong) (simp_all add: observed_state_def)

lemma start_turn_events:
  assumes "session_ok D (False, st)" "\<not> closing st" "events_ok D st"
  shows "events_ok D (start_turn D turn input agent acc outc st)"
proof (cases rule: start_turn_cases [of D turn input agent acc outc st])
  case (rejected e d)
  with assms show ?thesis by simp
next
  case (admitted t d)
  with assms(3) show ?thesis
    by (cases "pending_input st")
      (auto simp: events_ok_def observed_state_def take_pending_def disposition_def observe_def Let_def)
qed

lemma stop_active_events:
  assumes "events_ok D st" "stop_active D expected kind st = (r, st')"
  shows "events_ok D st'"
proof (cases rule: stop_active_cases [of D expected kind st])
  case (refused e d)
  with assms show ?thesis by auto
next
  case (waiting p d)
  with assms show ?thesis by (auto simp: events_ok_def observed_state_def observe_def)
next
  case (stopping a)
  then have "events_ok D (st\<lparr>active := Some (a\<lparr>stop_kind := Some kind\<rparr>)\<rparr>) = events_ok D st"
    by (intro events_ok_cong) (simp_all add: observed_state_def)
  with stopping assms show ?thesis by auto
qed

lemma begin_shutdown_events:
  assumes "turn_ok st" "events_ok D st"
  shows "events_ok D (begin_shutdown D st)"
  using assms
  by (cases rule: discard_pending_cases [of "st\<lparr>closing := True\<rparr>" D Discard_Shutdown])
    (auto simp: begin_shutdown_def turn_ok_def events_ok_def observed_state_def observe_def
      option.map_comp comp_def split: option.splits)

lemma settle_events:
  assumes "observe_all D (emitted st) (None, None) = Some (Some t, None)"
    and "discard \<noteq> Some Discard_Superseded" "pending_input st = None"
  shows "observe_all D (emitted (settle_pending D discard p st)) (None, None) =
     Some (Some t, map_option (pending_turn D) (pending_input (settle_pending D discard p st)))"
  using assms
  by (cases p; cases discard) (auto simp: settle_pending_def observe_def)

lemma turn_result_events:
  assumes r: "turn_result D cancelled kind result out st = (r, st')"
    and st: "observe_all D (emitted st) (None, None) = Some (Some t, map_option (pending_turn D) (pending_input st))"
    and t: "outcome_turn out = t" and pending: "cancelled \<Longrightarrow> pending_input st = None"
  shows "observe_all D (emitted st') (None, None) = Some (None, map_option (pending_turn D) (pending_input st'))"
proof (cases cancelled)
  case True
  with r have st': "st' = emit D (LTurnStopped (outcome_turn out) kind) st"
    by (simp add: turn_result_def)
  show ?thesis unfolding st' using st t pending [OF True] by (simp add: observe_def)
next
  case False
  show ?thesis
  proof (cases result)
    case (Inl m)
    with False r have st': "st' = emit D (LTurnFailed (outcome_turn out) m) st"
      by (simp add: turn_result_def)
    show ?thesis unfolding st' using st t by (simp add: observe_def)
  next
    case (Inr u)
    with False r have st': "st' = emit D (LTurnFinished (outcome_turn out)
        (if pending_input st \<noteq> None then Finish_AwaitingInput else Finish_Completed)) st"
      by (simp add: turn_result_def)
    show ?thesis unfolding st' using st t by (cases "pending_input st") (simp_all add: observe_def)
  qed
qed

lemma completion_events:
  assumes ok: "session_ok D (False, st)" and act: "active st \<noteq> None" and ev: "events_ok D st"
    and c: "(completion_id c, completion_generation c) \<in> set (in_flight st)"
  shows "events_ok D (snd (on_completion D c st))"
proof -
  obtain a where a: "active st = Some a" using act by blast
  have fl: "in_flight st = [(active_id a, generation st)]" "active_generation a = generation st"
      "pending_input st = None"
    using ok a by (simp_all add: session_ok_def turn_ok_def)
  let ?st = "st\<lparr>in_flight := remove1 (completion_id c, completion_generation c) (in_flight st)\<rparr>"
  have m: "active ?st = Some a" "completes c a (generation ?st)"
    using a c fl by (auto simp: completes_def)
  have run: "observe_all D (emitted st) (None, None) = Some (Some (active_id a), None)"
    using ev a fl by (simp add: events_ok_def observed_state_def)
  show ?thesis
  proof (cases rule: finish_turn_current [OF m, of D])
    case (1 p out d d' r st')
    let ?discard = "turn_discard (closing ?st) (cancellation a) (turn_kind a)"
    let ?mid = "settle_pending D ?discard p (?st\<lparr>active := None, driver := d\<rparr>)\<lparr>driver := d'\<rparr>"
    have nosup: "?discard \<noteq> Some Discard_Superseded"
      by (simp add: turn_discard_def discard_reason_def split: turn_stop_kind.split)
    have mid: "observe_all D (emitted ?mid) (None, None) =
        Some (Some (active_id a), map_option (pending_turn D) (pending_input ?mid))"
      using settle_events [of D "?st\<lparr>active := None, driver := d\<rparr>", OF _ nosup] run fl by simp
    have "cancellation a \<Longrightarrow> pending_input ?mid = None"
      using fl by (simp add: turn_discard_def)
    from turn_result_events [OF 1(3) mid 1(2) this]
    have "observe_all D (emitted st') (None, None) =
        Some (None, map_option (pending_turn D) (pending_input st'))" .
    moreover have "active st' = None" using turn_result_frame(8) [OF 1(3)] by simp
    ultimately have "events_ok D st'" by (simp add: events_ok_def observed_state_def)
    with 1(4) show ?thesis by (simp add: on_completion_def Let_def)
  qed
qed

lemma command_events:
  assumes "session_ok D (False, st)" "\<not> closing st" "events_ok D st"
  shows "events_ok D (snd (handle_command D queued cmd st))"
proof (cases cmd)
  case (StopTurn expected kind c)
  obtain r st' where "stop_active D expected kind st = (r, st')" by fastforce
  with stop_active_events [OF assms(3) this] StopTurn assms(2) show ?thesis
    by (simp add: handle_command_def)
next
  case (Shutdown c)
  let ?st = "st\<lparr>shutdown_waiters := shutdown_waiters st @ [c]\<rparr>"
  have "turn_ok ?st" using assms(1) by (simp add: session_ok_def turn_ok_def cong: option.case_cong)
  moreover have "events_ok D ?st" using assms(3) events_ok_cong [of ?st st D] by (simp add: observed_state_def)
  ultimately have "events_ok D (begin_shutdown D ?st)" by (rule begin_shutdown_events)
  with Shutdown show ?thesis by (simp add: handle_command_def handle_shutdown_def Let_def)
next
  case (QueryState c)
  with assms show ?thesis
    by (simp add: handle_command_def query_state_def events_ok_def observed_state_def observe_def)
qed (use assms in \<open>simp_all add: handle_command_def start_turn_events control_session_def
      read_transcript_def write_transcript_def Let_def split: prod.split\<close>)

lemma step_events: "session_step D bg s e t \<Longrightarrow> session_ok D s \<Longrightarrow> events_ok D (snd s) \<Longrightarrow> events_ok D (snd t)"
proof (induction rule: session_step.induct)
  case (disconnect_branch st)
  then have "events_ok D (begin_shutdown D st)"
    by (intro begin_shutdown_events) (simp_all add: session_ok_def)
  then show ?case by (simp add: on_disconnect_def Let_def)
qed (simp_all add: completion_events command_events)

lemma run_events:
  "session_run D bg s es t \<Longrightarrow> session_ok D s \<Longrightarrow> events_ok D (snd s) \<Longrightarrow> events_ok D (snd t)"
proof (induction rule: session_run.induct)
  case (run_snoc s es t e u)
  then show ?case using step_events run_ok by blast
qed

lemma start_events: "events_ok D (start_session D sid d)"
  by (simp add: events_ok_def observed_state_def start_session_def)

text \<open>
  C24. The lifecycle events of a session are well bracketed, for every driver: a turn starts only
  when none runs and no input is awaited, ends exactly once, with the end that fits, and an input
  request is answered or discarded exactly once before the next turn starts. What an observer
  reconstructs from the events alone is the actor's own state.
\<close>

theorem lifecycle_events_follow_protocol:
  assumes "session_run D bg (False, start_session D sid d) es (stopped, st)"
  shows "observe_all D (emitted st) (None, None) =
     Some (map_option active_id (active st), map_option (pending_turn D) (pending_input st))"
  using run_events [OF assms start_session_ok] start_events [of D sid d]
  by (simp add: events_ok_def observed_state_def)

end
