(* ===== verification/SessionAnswers.thy ===== *)
theory SessionAnswers
  imports SessionProtocol "HOL-Library.Multiset"
begin

section \<open>Answers, outcomes and the event cursor of a runtime session\<close>

text \<open>
  Every request is answered exactly once, every started turn reports exactly one outcome, a closing
  session ends as soon as its turn returns, and the cursor in a snapshot is one from which the
  event log can be followed.
\<close>

subsection \<open>Requests and answers\<close>

fun response_of :: "('i, 'c, 'a) session_command \<Rightarrow> nat" where
  "response_of (StartTurn _ _ _ acc _) = acc"
| "response_of (StopTurn _ _ c) = c"
| "response_of (Control _ c) = c"
| "response_of (GetTranscript c) = c"
| "response_of (ReplaceTranscript _ c) = c"
| "response_of (QueryState c) = c"
| "response_of (Shutdown c) = c"

fun answer_channel :: "'q session_reply \<Rightarrow> nat option" where
  "answer_channel (Reply_unit c _) = Some c"
| "answer_channel (Reply_turn c _) = Some c"
| "answer_channel (Reply_transcript c _) = Some c"
| "answer_channel (Reply_outcome c _) = None"

definition answered :: "('d, 'p, 'q) session_actor \<Rightarrow> nat multiset" where
  "answered st = mset (List.map_filter answer_channel (replies st))"

text \<open>What an event asks for: the command that is read, and those a shutdown takes from the queue.\<close>

fun requests :: "('i, 'c, 'a, 't, 'd) session_event \<Rightarrow> nat multiset" where
  "requests (Command_received (Shutdown c) queued) = add_mset c (mset (map response_of queued))"
| "requests (Command_received cmd queued) = {#response_of cmd#}"
| "requests _ = {#}"

definition owed :: "('d, 'p, 'q) session_actor \<Rightarrow> nat multiset" where
  "owed st = answered st + mset (shutdown_waiters st)"

lemma map_filter_eqs [simp]:
  "List.map_filter f [] = []"
  "List.map_filter f (x # xs) =
     (case f x of None \<Rightarrow> List.map_filter f xs | Some y \<Rightarrow> y # List.map_filter f xs)"
  "List.map_filter f (xs @ ys) = List.map_filter f xs @ List.map_filter f ys"
  by (simp_all add: map_filter_def split: option.split)

lemma answered_send_reply [simp]:
  "answered (send_reply r st) = answered st + mset (List.map_filter answer_channel [r])"
  by (simp add: answered_def send_reply_def)

lemma answered_cong: "replies st' = replies st \<Longrightarrow> answered st' = answered st"
  by (simp add: answered_def)

lemma owed_simps [simp]:
  "owed (emit D ev st) = owed st"
  "owed (publish_snapshot D ph st) = owed st"
  "owed (cancel_active D st) = owed st"
  "owed (take_pending D turn pd st) = owed st"
  "owed (settle_pending D discard p st) = owed st"
  "owed (begin_shutdown D st) = owed st"
  "owed (st\<lparr>driver := d\<rparr>) = owed st"
  "owed (st\<lparr>active := a\<rparr>) = owed st"
  "owed (st\<lparr>pending_input := p\<rparr>) = owed st"
  "owed (st\<lparr>in_flight := fl\<rparr>) = owed st"
  by (simp_all add: owed_def answered_def)

lemma owed_send_reply [simp]:
  "owed (send_reply r st) = owed st + mset (List.map_filter answer_channel [r])"
  by (simp add: owed_def)

lemma map_filter_units [simp]:
  "List.map_filter answer_channel (map (\<lambda>c. Reply_unit c x) cs) = cs"
  by (induction cs) simp_all

lemma owed_finish_shutdown [simp]: "owed (finish_shutdown D st) = owed st"
  by (simp add: owed_def answered_def finish_shutdown_def publish_snapshot_def Let_def split: prod.split)

lemma owed_reject_closed [simp]: "owed (reject_closed cmd st) = add_mset (response_of cmd) (owed st)"
  by (cases cmd) (simp_all add: reject_closed_def)

lemma owed_reject_queued [simp]:
  "owed (reject_queued cmds st) = owed st + mset (map response_of cmds)"
  by (induction cmds st rule: reject_queued.induct) simp_all

lemma owed_start_turn:
  "owed (start_turn D turn input agent acc outc st) = add_mset acc (owed st)"
  by (cases rule: start_turn_cases [of D turn input agent acc outc st]) simp_all

lemma owed_stop_active: "stop_active D expected kind st = (r, st') \<Longrightarrow> owed st' = owed st"
  by (cases rule: stop_active_cases [of D expected kind st]) auto

lemma owed_handle_command:
  assumes "\<not> closing st"
  shows "owed (snd (handle_command D queued cmd st)) = owed st + requests (Command_received cmd queued)"
proof (cases cmd)
  case (StopTurn expected kind c)
  obtain r st' where "stop_active D expected kind st = (r, st')" by fastforce
  with owed_stop_active [OF this] StopTurn assms show ?thesis
    by (simp add: handle_command_def)
next
  case (Shutdown c)
  have "owed (st\<lparr>shutdown_waiters := shutdown_waiters st @ [c]\<rparr>) = add_mset c (owed st)"
    by (simp add: owed_def answered_def)
  with Shutdown assms show ?thesis
    by (simp add: handle_command_def handle_shutdown_def Let_def)
qed (use assms in \<open>simp_all add: handle_command_def owed_start_turn control_session_def
      read_transcript_def write_transcript_def query_state_def Let_def split: prod.split\<close>)

lemma owed_on_completion:
  assumes ok: "session_ok D (False, st)" and act: "active st = Some a"
    and c: "(completion_id c, completion_generation c) \<in> set (in_flight st)"
  shows "owed (snd (on_completion D c st)) = owed st"
proof -
  let ?st = "st\<lparr>in_flight := remove1 (completion_id c, completion_generation c) (in_flight st)\<rparr>"
  have m: "active ?st = Some a" "completes c a (generation ?st)"
    using ok act c by (auto simp: completes_def session_ok_def turn_ok_def)
  show ?thesis
  proof (cases rule: finish_turn_current [OF m, of D])
    case (1 p out d d' r st')
    note fr = turn_result_frame [OF 1(3)]
    have "owed st' = owed st" using fr by (simp add: owed_def answered_def)
    with 1(4) show ?thesis by (simp add: on_completion_def Let_def)
  qed
qed

lemma step_owed:
  assumes "session_step D bg s e t" "session_ok D s"
  shows "owed (snd t) = owed (snd s) + requests e"
  using assms
proof (cases rule: session_step.cases)
  case (completion_branch st c)
  with owed_on_completion [of D st _ c] assms(2) show ?thesis by auto
next
  case (command_branch st cmd queued)
  with owed_handle_command [of st D queued cmd] show ?thesis by simp
qed (simp_all add: on_disconnect_def Let_def)

lemma run_owed:
  "session_run D bg s es t \<Longrightarrow> session_ok D s \<Longrightarrow>
     owed (snd t) = owed (snd s) + sum_list (map requests es)"
proof (induction rule: session_run.induct)
  case (run_snoc s es t e u)
  then show ?case using step_owed [OF run_snoc.hyps(2) run_ok [OF run_snoc.hyps(1)]] by simp
qed simp

text \<open>
  C6. When the actor stops, every request it has read from its queue has been answered exactly once,
  those a shutdown found in the queue included, and nothing else has been answered. While it runs,
  only the callers of \<open>shutdown\<close> wait.
\<close>

theorem every_request_is_answered_once:
  assumes "session_run D bg (False, start_session D sid d) es (stopped, st)"
  shows "sum_list (map requests es) = answered st + (if stopped then {#} else mset (shutdown_waiters st))"
proof -
  have "owed (start_session D sid d) = {#}"
    by (simp add: owed_def answered_def start_session_def)
  then show ?thesis
    using run_owed [OF assms start_session_ok] run_ok [OF assms start_session_ok]
    by (auto simp: owed_def session_ok_def shutdown_ok_def)
qed

subsection \<open>Outcomes\<close>

fun outcome_of :: "'q session_error + 'q turn_outcome \<Rightarrow> 'q turn_outcome option" where
  "outcome_of (Inr out) = Some out"
| "outcome_of (Inl e) = turn_outcome_of e"

fun reported_turn :: "'q session_reply \<Rightarrow> runtime_turn_id option option" where
  "reported_turn (Reply_outcome c r) = Some (map_option outcome_turn (outcome_of r))"
| "reported_turn _ = None"

fun started_turn :: "'p session_lifecycle \<Rightarrow> runtime_turn_id option option" where
  "started_turn (LTurnStarted t) = Some (Some t)"
| "started_turn _ = None"

definition reported :: "('d, 'p, 'q) session_actor \<Rightarrow> runtime_turn_id option list" where
  "reported st = List.map_filter reported_turn (replies st)"

definition started :: "('d, 'p, 'q) session_actor \<Rightarrow> runtime_turn_id option list" where
  "started st = List.map_filter started_turn (emitted st)"

definition running :: "('d, 'p, 'q) session_actor \<Rightarrow> runtime_turn_id option list" where
  "running st = (case active st of None \<Rightarrow> [] | Some a \<Rightarrow> [Some (active_id a)])"

definition outcomes_ok :: "('d, 'p, 'q) session_actor \<Rightarrow> bool" where
  "outcomes_ok st \<longleftrightarrow> reported st @ running st = started st"

lemma units_report_nothing [simp]:
  "List.map_filter reported_turn (map (\<lambda>c. Reply_unit c x) cs) = []"
  by (induction cs) simp_all

lemma outcomes_simps [simp]:
  "reported (send_reply r st) = reported st @ List.map_filter reported_turn [r]"
  "reported (emit D ev st) = reported st"
  "started (emit D ev st) = started st @ List.map_filter started_turn [ev]"
  "running (send_reply r st) = running st"
  "running (emit D ev st) = running st"
  "started (send_reply r st) = started st"
  by (simp_all add: reported_def started_def running_def send_reply_def)

lemma outcomes_ok_cong:
  assumes "List.map_filter reported_turn (replies st') = List.map_filter reported_turn (replies st)"
    and "List.map_filter started_turn (emitted st') = List.map_filter started_turn (emitted st)"
    and "map_option active_id (active st') = map_option active_id (active st)"
  shows "outcomes_ok st' = outcomes_ok st"
  using assms
  by (cases "active st"; cases "active st'") (simp_all add: outcomes_ok_def reported_def started_def running_def)

lemma outcomes_ok_simps [simp]:
  "outcomes_ok (publish_snapshot D ph st) = outcomes_ok st"
  "outcomes_ok (cancel_active D st) = outcomes_ok st"
  "outcomes_ok (st\<lparr>driver := d\<rparr>) = outcomes_ok st"
  "outcomes_ok (st\<lparr>shutdown_waiters := ws\<rparr>) = outcomes_ok st"
  "reported_turn r = None \<Longrightarrow> outcomes_ok (send_reply r st) = outcomes_ok st"
  "started_turn ev = None \<Longrightarrow> outcomes_ok (emit D ev st) = outcomes_ok st"
  "outcomes_ok (reject_closed cmd st) = outcomes_ok st"
  by ((rule outcomes_ok_cong; simp add: option.map_comp comp_def send_reply_def reject_closed_def
        split: session_command.split)+)

lemma outcomes_ok_queued [simp]: "outcomes_ok (reject_queued cmds st) = outcomes_ok st"
  by (induction cmds st rule: reject_queued.induct) simp_all

lemma outcomes_ok_finish [simp]: "outcomes_ok (finish_shutdown D st) = outcomes_ok st"
  by (rule outcomes_ok_cong)
    (simp_all add: finish_shutdown_def publish_snapshot_def Let_def split: prod.split)

lemma outcomes_ok_begin_shutdown [simp]: "outcomes_ok (begin_shutdown D st) = outcomes_ok st"
  by (cases rule: discard_pending_cases [of "st\<lparr>closing := True\<rparr>" D Discard_Shutdown];
      rule outcomes_ok_cong)
    (simp_all add: begin_shutdown_def option.map_comp comp_def)

lemma take_pending_outcomes:
  "replies (take_pending D turn pd st) = replies st"
  "List.map_filter started_turn (emitted (take_pending D turn pd st)) =
     List.map_filter started_turn (emitted st)"
  by (auto simp: take_pending_def Let_def split: option.split pending_disposition.split)

lemma outcomes_start_turn:
  assumes "outcomes_ok st"
  shows "outcomes_ok (start_turn D turn input agent acc outc st)"
proof (cases rule: start_turn_cases [of D turn input agent acc outc st])
  case (rejected e d)
  with assms show ?thesis by simp
next
  case (admitted t d)
  with assms show ?thesis
    by (simp add: outcomes_ok_def reported_def started_def running_def take_pending_outcomes send_reply_def)
qed

lemma outcomes_stop_active:
  assumes "outcomes_ok st" "stop_active D expected kind st = (r, st')"
  shows "outcomes_ok st'"
proof (cases rule: stop_active_cases [of D expected kind st])
  case (refused e d)
  with assms show ?thesis by auto
next
  case (waiting p d)
  have "outcomes_ok (st\<lparr>driver := d, pending_input := None\<rparr>) = outcomes_ok st"
    by (rule outcomes_ok_cong) simp_all
  with waiting assms show ?thesis by auto
next
  case (stopping a)
  have "outcomes_ok (st\<lparr>active := Some (a\<lparr>stop_kind := Some kind\<rparr>)\<rparr>) = outcomes_ok st"
    using stopping(1) by (intro outcomes_ok_cong) simp_all
  with stopping assms show ?thesis by auto
qed

text \<open>What the completion of a turn sends: its outcome, under the turn's own name.\<close>

lemma turn_result_reply:
  assumes "turn_result D cancelled kind result out st = (r, st')"
  shows "r = (if cancelled then Inl (case kind of Cancel \<Rightarrow> TurnCancelled out | Interrupt \<Rightarrow> TurnInterrupted out)
              else case result of Inr _ \<Rightarrow> Inr out | Inl m \<Rightarrow> Inl (Execution m out))"
    and "outcome_of r = Some out"
    and "List.map_filter started_turn (emitted st') = List.map_filter started_turn (emitted st)"
  using assms
  by (auto simp: turn_result_def turn_outcome_of_def split: if_splits sum.splits turn_stop_kind.splits)

lemma settle_pending_started:
  "List.map_filter started_turn (emitted (settle_pending D discard p st)) =
     List.map_filter started_turn (emitted st)"
  by (simp add: settle_pending_def Let_def split: option.split)

lemma completion_replies:
  assumes ok: "session_ok D (False, st)" and act: "active st = Some a"
    and c: "(completion_id c, completion_generation c) \<in> set (in_flight st)"
  obtains out cell where "outcome_turn out = active_id a"
    "replies (snd (on_completion D c st)) = replies st @ Reply_outcome (completion_channel a)
       (if cancellation a then Inl (case turn_kind a of Cancel \<Rightarrow> TurnCancelled out | Interrupt \<Rightarrow> TurnInterrupted out)
        else case completion_result c of Inr _ \<Rightarrow> Inr out | Inl m \<Rightarrow> Inl (Execution m out))
      # (if closing st then map (\<lambda>w. Reply_unit w (shutdown_result cell)) (shutdown_waiters st) else [])"
    "List.map_filter started_turn (emitted (snd (on_completion D c st))) = List.map_filter started_turn (emitted st)"
    "active (snd (on_completion D c st)) = None"
    "closing st \<Longrightarrow> shutdown_cell (snd (on_completion D c st)) = Some cell"
proof -
  let ?st = "st\<lparr>in_flight := remove1 (completion_id c, completion_generation c) (in_flight st)\<rparr>"
  have m: "active ?st = Some a" "completes c a (generation ?st)"
    using ok act c by (auto simp: completes_def session_ok_def turn_ok_def)
  show ?thesis
  proof (cases rule: finish_turn_current [OF m, of D])
    case (1 p out d d' r st')
    note fr = turn_result_frame [OF 1(3)] and rep = turn_result_reply [OF 1(3)]
    obtain r2 d2 where sd: "shutdown_driver D (driver st') = (r2, d2)" by fastforce
    let ?cell = "case shutdown_cell st of None \<Rightarrow> (case r2 of Inr _ \<Rightarrow> Complete | Inl _ \<Rightarrow> Failed) | Some x \<Rightarrow> x"
    show ?thesis
    proof (rule that [of out ?cell])
      show "replies (snd (on_completion D c st)) = replies st @ Reply_outcome (completion_channel a)
         (if cancellation a then Inl (case turn_kind a of Cancel \<Rightarrow> TurnCancelled out | Interrupt \<Rightarrow> TurnInterrupted out)
          else case completion_result c of Inr _ \<Rightarrow> Inr out | Inl m \<Rightarrow> Inl (Execution m out))
        # (if closing st then map (\<lambda>w. Reply_unit w (shutdown_result ?cell)) (shutdown_waiters st) else [])"
        using 1(4) fr rep(1) sd
        by (simp add: on_completion_def send_reply_def finish_shutdown_def publish_snapshot_def Let_def)
    qed (use 1 fr rep sd in \<open>simp_all add: on_completion_def Let_def settle_pending_started
          finish_shutdown_def publish_snapshot_def send_reply_def\<close>)
  qed
qed

lemma outcomes_completion:
  assumes "session_ok D (False, st)" "active st = Some a" "outcomes_ok st"
    and "(completion_id c, completion_generation c) \<in> set (in_flight st)"
  shows "outcomes_ok (snd (on_completion D c st))"
proof (cases rule: completion_replies [OF assms(1,2,4)])
  case (1 out cell)
  with assms(2,3) show ?thesis
    by (cases "closing st"; cases "cancellation a"; cases "turn_kind a"; cases "completion_result c")
      (simp_all add: outcomes_ok_def reported_def started_def running_def turn_outcome_of_def)
qed

lemma outcomes_command:
  assumes "\<not> closing st" "outcomes_ok st"
  shows "outcomes_ok (snd (handle_command D queued cmd st))"
proof (cases cmd)
  case (StopTurn expected kind c)
  obtain r st' where "stop_active D expected kind st = (r, st')" by fastforce
  with outcomes_stop_active [OF assms(2) this] StopTurn assms(1) show ?thesis
    by (simp add: handle_command_def)
qed (use assms in \<open>simp_all add: handle_command_def outcomes_start_turn handle_shutdown_def control_session_def
      read_transcript_def write_transcript_def query_state_def Let_def split: prod.split\<close>)

lemma step_outcomes:
  assumes "session_step D bg s e t" "session_ok D s" "outcomes_ok (snd s)"
  shows "outcomes_ok (snd t)"
  using assms
proof (cases rule: session_step.cases)
  case (completion_branch st c)
  then show ?thesis using outcomes_completion [of D st _ c] assms by auto
next
  case (command_branch st cmd queued)
  then show ?thesis using outcomes_command [of st D queued cmd] assms by simp
qed (simp_all add: on_disconnect_def Let_def)

lemma run_outcomes:
  "session_run D bg s es t \<Longrightarrow> session_ok D s \<Longrightarrow> outcomes_ok (snd s) \<Longrightarrow> outcomes_ok (snd t)"
proof (induction rule: session_run.induct)
  case (run_snoc s es t e u)
  then show ?case using step_outcomes run_ok by blast
qed

text \<open>
  C21. Every turn that was announced as started reports exactly one outcome, in order, under its own
  name; only the turn that is still active owes one. So no completion is ever refused as stale
  and no caller of a started turn is left with \<open>ActorStopped\<close>.
\<close>

theorem started_turns_report_once:
  assumes "session_run D bg (False, start_session D sid d) es (stopped, st)"
  shows "started st = reported st @ (case active st of None \<Rightarrow> [] | Some a \<Rightarrow> [Some (active_id a)])"
proof -
  have "outcomes_ok (start_session D sid d)"
    by (simp add: outcomes_ok_def reported_def started_def running_def start_session_def)
  with run_outcomes [OF assms start_session_ok] show ?thesis
    by (simp add: outcomes_ok_def running_def)
qed

text \<open>
  What a turn's caller is told: the kind of the stop request that was accepted, when there was
  one, and otherwise what the turn itself returned, always with the outcome of that turn.
\<close>

theorem completion_tells_how_the_turn_ended:
  assumes "session_run D bg (False, start_session D sid d) es (False, st)"
    and "session_step D bg (False, st) (Completion_received c) t" and "active st = Some a"
  shows "\<exists>out rest. outcome_turn out = active_id a \<and>
     replies (snd t) = replies st @ Reply_outcome (completion_channel a)
       (case stop_kind a of
          Some Cancel \<Rightarrow> Inl (TurnCancelled out)
        | Some Interrupt \<Rightarrow> Inl (TurnInterrupted out)
        | None \<Rightarrow> (case completion_result c of Inr _ \<Rightarrow> Inr out | Inl m \<Rightarrow> Inl (Execution m out)))
     # rest"
proof -
  have step: "t = on_completion D c st" "(completion_id c, completion_generation c) \<in> set (in_flight st)"
    using assms(2) by (auto elim: completion_cases)
  note ok = run_ok [OF assms(1) start_session_ok]
  have k: "cancellation a \<longleftrightarrow> stop_kind a \<noteq> None"
    using ok assms(3) by (simp add: session_ok_def turn_ok_def)
  obtain out rest where "outcome_turn out = active_id a"
      "replies (snd t) = replies st @ Reply_outcome (completion_channel a)
         (if cancellation a then Inl (case turn_kind a of Cancel \<Rightarrow> TurnCancelled out | Interrupt \<Rightarrow> TurnInterrupted out)
          else case completion_result c of Inr _ \<Rightarrow> Inr out | Inl m \<Rightarrow> Inl (Execution m out)) # rest"
    using completion_replies [OF ok assms(3) step(2)] step(1) by metis
  then show ?thesis
    using k by (cases "stop_kind a") (auto simp: turn_kind_def split: turn_stop_kind.split)
qed

text \<open>
  C22. The snapshot that observers read is never out of date: its phase, its pending input and its
  generation are the actor's, at every point of every run.
\<close>

theorem snapshot_is_truthful:
  assumes "session_run D bg (False, start_session D sid d) es (stopped, st)"
  shows "snap_phase (snapshot st) =
     (if stopped then Closed else if closing st then Closing
      else case active st of
        Some a \<Rightarrow> if cancellation a then Cancelling (active_id a) else Running (active_id a)
      | None \<Rightarrow> (case pending_input st of Some p \<Rightarrow> AwaitingInput (pending_turn D p) | None \<Rightarrow> Idle)) \<and>
     snap_pending (snapshot st) = pending_input st \<and> snap_generation (snapshot st) = generation st"
  using run_ok [OF assms start_session_ok]
  by (cases "active st") (auto simp: session_ok_def snapshot_ok_def Let_def expected_phase_def phase_after_turn_def)

lemma on_completion_stops:
  assumes ok: "session_ok D (False, st)" and act: "active st = Some a"
    and c: "(completion_id c, completion_generation c) \<in> set (in_flight st)"
  shows "fst (on_completion D c st) = closing st"
proof -
  let ?st = "st\<lparr>in_flight := remove1 (completion_id c, completion_generation c) (in_flight st)\<rparr>"
  have m: "active ?st = Some a" "completes c a (generation ?st)"
    using ok act c by (auto simp: completes_def session_ok_def turn_ok_def)
  show ?thesis
  proof (cases rule: finish_turn_current [OF m, of D])
    case (1 p out d d' r st')
    with turn_result_frame [OF 1(3)] show ?thesis by (simp add: on_completion_def Let_def)
  qed
qed

text \<open>
  C23. A closing session comes to its end: the loop never waits with both branches of \<open>select!\<close>
  disabled, exactly one spawned turn is outstanding, and whenever that turn returns, the actor
  shuts the driver down and stops.
\<close>

theorem closing_session_stops:
  assumes "session_run D bg (False, start_session D sid d) es (False, st)" "closing st"
  shows "\<exists>a. active st = Some a \<and> in_flight st = [(active_id a, generation st)] \<and>
     (\<forall>t r. \<exists>st'. session_step D bg (False, st)
        (Completion_received \<lparr>completion_id = active_id a, completion_generation = generation st,
           completion_turn = t, completion_result = r\<rparr>) (True, st'))"
proof -
  note ok = run_ok [OF assms(1) start_session_ok]
  then obtain a where a: "active st = Some a"
    using assms(2) by (auto simp: session_ok_def shutdown_ok_def)
  have fl: "in_flight st = [(active_id a, generation st)]"
    using ok a by (simp add: session_ok_def turn_ok_def)
  have "\<exists>st'. session_step D bg (False, st) (Completion_received c) (True, st')"
    if c: "(completion_id c, completion_generation c) = (active_id a, generation st)" for c
  proof -
    have m: "(completion_id c, completion_generation c) \<in> set (in_flight st)" using c fl by simp
    have "fst (on_completion D c st)" using on_completion_stops [OF ok a m] assms(2) by simp
    then obtain st' where "on_completion D c st = (True, st')" by (cases "on_completion D c st") simp
    moreover have "session_step D bg (False, st) (Completion_received c) (on_completion D c st)"
      using a m by (intro session_step.completion_branch) simp_all
    ultimately show ?thesis by metis
  qed
  then show ?thesis using a fl by simp
qed

end
