(* ===== verification/SessionCursor.thy ===== *)
theory SessionCursor
  imports SessionAnswers
begin

section \<open>The event cursor of a snapshot\<close>

text \<open>
  A snapshot carries the number of the last event, and a subscriber follows the log from there. The
  contract on which this rests is a relation \<open>R\<close> between a driver's earlier and later states that
  everything the driver and its concurrent tasks do keeps, and that never takes the event log
  back. The host driver fulfils it (theory \<open>HostDriver\<close>).
\<close>

locale driver_relation =
  fixes D :: "('d, 'i, 'c, 'p, 't, 'a, 'q) session_driver"
    and bg :: "'d \<Rightarrow> 'd \<Rightarrow> bool"
    and R :: "'d \<Rightarrow> 'd \<Rightarrow> bool"
  assumes R_refl: "R d d"
    and R_trans: "R d d' \<Longrightarrow> R d' d'' \<Longrightarrow> R d d''"
    and R_sequence: "R d d' \<Longrightarrow> sequence_of D d \<le> sequence_of D d'"
    and publish_grows: "R d (publish_event D d ev)"
    and begin_grows: "begin_turn D d i x = (r, d') \<Longrightarrow> R d d'"
    and complete_grows: "complete_turn D d t reason = (done, d') \<Longrightarrow> R d d'"
    and after_grows: "R d (after_turn D d)"
    and replace_grows: "replace_transcript D d msgs = (u, d') \<Longrightarrow> R d d'"
    and control_grows: "control_driver D d ctl = (u, d') \<Longrightarrow> R d d'"
    and discard_grows: "discard_pending D d = (u, d') \<Longrightarrow> R d d'"
    and cancel_grows: "R d (snd (cancel_descendants D d))"
    and admission_grows: "R d (snd (close_admission D d))"
    and shutdown_grows: "shutdown_driver D d = (w, d') \<Longrightarrow> R d d'"
    and background_grows: "bg d d' \<Longrightarrow> R d d'"
begin

definition cursor_ok :: "('d, 'p, 'q) session_actor \<Rightarrow> bool" where
  "cursor_ok st \<longleftrightarrow> snap_last_sequence (snapshot st) \<le> sequence_of D (driver st)"

text \<open>What every operation does to the log and the cursor.\<close>

definition grew :: "('d, 'p, 'q) session_actor \<Rightarrow> ('d, 'p, 'q) session_actor \<Rightarrow> bool" where
  "grew st st' \<longleftrightarrow> R (driver st) (driver st') \<and>
     (cursor_ok st \<longrightarrow> cursor_ok st' \<and>
        snap_last_sequence (snapshot st) \<le> snap_last_sequence (snapshot st'))"

lemma grew_trans [trans]: "grew s t \<Longrightarrow> grew t u \<Longrightarrow> grew s u"
  by (auto simp: grew_def intro: R_trans)

lemma grew_same:
  "R (driver st) (driver st') \<Longrightarrow> snapshot st' = snapshot st \<Longrightarrow> grew st st'"
  using R_sequence [of "driver st" "driver st'"] by (auto simp: grew_def cursor_ok_def)

lemma grew_driver: "R (driver st) d \<Longrightarrow> grew st (st\<lparr>driver := d\<rparr>)"
  by (rule grew_same) (simp_all add: R_refl)

lemma grew_reply: "grew st (send_reply r st)"
  by (rule grew_same) (simp_all add: R_refl)

lemma grew_emit: "grew st (emit D ev st)"
  by (rule grew_same) (simp_all add: emit_def publish_grows)

lemma grew_snapshot: "grew st (publish_snapshot D ph st)"
  by (simp add: grew_def cursor_ok_def R_refl)

lemma grew_cancel: "grew st (cancel_active D st)"
  by (rule grew_same) (simp_all add: cancel_grows)

lemma grew_queued: "grew st (reject_queued cmds st)"
  by (rule grew_same) (simp_all add: R_refl)

lemma grew_take_pending: "grew st (take_pending D turn pd st)"
  by (rule grew_same)
    (auto simp: take_pending_def emit_def publish_grows R_refl Let_def split: option.split pending_disposition.split)

lemma grew_settle: "grew st (settle_pending D discard p st)"
  by (rule grew_same) (auto simp: settle_pending_def emit_def publish_grows R_refl Let_def split: option.split)

lemma grew_result: "turn_result D cancelled kind result out st = (r, st') \<Longrightarrow> grew st st'"
  by (auto simp: turn_result_def grew_emit split: if_splits sum.splits)

lemma grew_discard: "discard_pending_input D reason st = (r, st') \<Longrightarrow> grew st st'"
proof (cases rule: discard_pending_cases [of st D reason])
  case (discarded p d)
  assume "discard_pending_input D reason st = (r, st')"
  moreover have "grew st (st\<lparr>driver := d, pending_input := None\<rparr>)"
    using discard_grows [OF discarded(3)] by (intro grew_same) simp_all
  ultimately show ?thesis using grew_trans [OF _ grew_emit] discarded(2) by auto
next
  case (failed p e d)
  assume "discard_pending_input D reason st = (r, st')"
  with failed discard_grows [OF failed(3)] show ?thesis by (auto intro: grew_driver)
qed (auto intro: grew_same R_refl)

lemma grew_start_turn: "grew st (start_turn D turn input agent acc outc st)"
proof (cases rule: start_turn_cases [of D turn input agent acc outc st])
  case (rejected e d)
  have "R (driver st) d"
    using rejected(2,3) begin_grows R_refl by (cases "active st = None \<and> validate_input D (driver st) input (pending_input st) = Inr ()") auto
  from grew_trans [OF grew_driver [OF this] grew_reply] show ?thesis unfolding rejected(1) .
next
  case (admitted t d)
  let ?p = "take_pending D turn (disposition D input (pending_input st)) (st\<lparr>driver := d\<rparr>)"
  let ?a = "?p\<lparr>active := Some \<lparr>active_id = turn, active_generation = generation st,
                   cancellation = False, stop_kind = None, completion_channel = outc\<rparr>\<rparr>"
  let ?s = "publish_snapshot D (Running turn) (emit D (LTurnStarted turn) ?a)"
  have "grew st (st\<lparr>driver := d\<rparr>)" by (rule grew_driver [OF begin_grows [OF admitted(3)]])
  also have "grew (st\<lparr>driver := d\<rparr>) ?p" by (rule grew_take_pending)
  also have "grew ?p ?a" by (rule grew_same) (simp_all add: R_refl)
  also have "grew ?a (emit D (LTurnStarted turn) ?a)" by (rule grew_emit)
  also have "grew (emit D (LTurnStarted turn) ?a) ?s" by (rule grew_snapshot)
  also have "grew ?s (?s\<lparr>in_flight := in_flight st @ [(turn, generation st)]\<rparr>)"
    by (rule grew_same) (simp_all add: R_refl)
  finally show ?thesis unfolding admitted(4) by (rule grew_trans [OF _ grew_reply])
qed

lemma grew_stop_active: "stop_active D expected kind st = (r, st') \<Longrightarrow> grew st st'"
proof (cases rule: stop_active_cases [of D expected kind st])
  case (refused e d)
  assume "stop_active D expected kind st = (r, st')"
  moreover have "R (driver st) d"
    using refused(2) discard_grows R_refl by (metis surjective_pairing)
  ultimately show ?thesis using grew_driver refused(1) by auto
next
  case (waiting p d)
  assume s: "stop_active D expected kind st = (r, st')"
  let ?st = "st\<lparr>driver := d, pending_input := None\<rparr>"
  have "grew st ?st" using discard_grows [OF waiting(4)] by (intro grew_same) simp_all
  note grew_trans [OF this grew_emit] 
  note grew_trans [OF this grew_cancel]
  note grew_trans [OF this grew_snapshot]
  with s waiting(5) show ?thesis by auto
next
  case (stopping a)
  assume s: "stop_active D expected kind st = (r, st')"
  have "grew st (st\<lparr>active := Some (a\<lparr>stop_kind := Some kind\<rparr>)\<rparr>)" by (rule grew_same) (simp_all add: R_refl)
  note grew_trans [OF this grew_cancel]
  note grew_trans [OF this grew_snapshot]
  with s stopping(4) show ?thesis by auto
qed

lemma grew_begin_shutdown: "grew st (begin_shutdown D st)"
proof -
  obtain r s where d: "discard_pending_input D Discard_Shutdown (st\<lparr>closing := True\<rparr>) = (r, s)" by fastforce
  let ?s = "case r of Inl _ \<Rightarrow> s\<lparr>shutdown_cell := (case shutdown_cell s of None \<Rightarrow> Some Failed | Some x \<Rightarrow> Some x)\<rparr>
              | Inr _ \<Rightarrow> s"
  have "grew st (st\<lparr>closing := True\<rparr>)" by (rule grew_same) (simp_all add: R_refl)
  also have "grew (st\<lparr>closing := True\<rparr>) s" by (rule grew_discard [OF d])
  also have "grew s ?s" by (rule grew_same) (simp_all add: R_refl split: sum.split)
  also have "grew ?s (?s\<lparr>driver := snd (close_admission D (driver ?s))\<rparr>)"
    by (rule grew_driver [OF admission_grows])
  finally have "grew st (?s\<lparr>driver := snd (close_admission D (driver ?s))\<rparr>)" .
  note grew_trans [OF this grew_cancel]
  note grew_trans [OF this grew_snapshot]
  then show ?thesis by (simp add: begin_shutdown_def d Let_def cong: sum.case_cong)
qed

lemma grew_finish_shutdown: "grew st (finish_shutdown D st)"
proof -
  obtain r d where d: "shutdown_driver D (driver st) = (r, d)" by fastforce
  let ?out = "case shutdown_cell st of None \<Rightarrow> (case r of Inr _ \<Rightarrow> Complete | Inl _ \<Rightarrow> Failed) | Some x \<Rightarrow> x"
  let ?s = "publish_snapshot D Closed (st\<lparr>driver := d, shutdown_cell := Some ?out\<rparr>)"
  have "grew st (st\<lparr>driver := d, shutdown_cell := Some ?out\<rparr>)"
    using shutdown_grows [OF d] by (intro grew_same) simp_all
  also have "grew (st\<lparr>driver := d, shutdown_cell := Some ?out\<rparr>) ?s" by (rule grew_snapshot)
  also have "grew ?s (finish_shutdown D st)"
    by (rule grew_same) (simp_all add: R_refl finish_shutdown_def d Let_def)
  finally show ?thesis .
qed

lemma grew_close: "grew st (snd (close_when_idle D st))"
  by (auto simp: close_when_idle_def grew_finish_shutdown intro: grew_same R_refl)

lemma grew_finish_turn: "grew st (finish_turn D c st)"
proof (cases "\<exists>a. active st = Some a \<and> completes c a (generation st)")
  case True
  then obtain a where m: "active st = Some a" "completes c a (generation st)" by blast
  show ?thesis
  proof (cases rule: finish_turn_current [OF m, of D])
    case (1 p out d d' r st')
    let ?discard = "turn_discard (closing st) (cancellation a) (turn_kind a)"
    let ?mid = "settle_pending D ?discard p (st\<lparr>active := None, driver := d\<rparr>)"
    have "grew st (st\<lparr>active := None, driver := d\<rparr>)"
      using complete_grows [OF 1(1)] by (intro grew_same) simp_all
    also have "grew (st\<lparr>active := None, driver := d\<rparr>) ?mid" by (rule grew_settle)
    also have "grew ?mid (?mid\<lparr>driver := d'\<rparr>)" unfolding 1(5) by (rule grew_driver [OF after_grows])
    also have "grew (?mid\<lparr>driver := d'\<rparr>) st'" by (rule grew_result [OF 1(3)])
    also have "grew st' (finish_turn D c st)"
      unfolding 1(4) using grew_reply grew_trans [OF grew_snapshot grew_reply] by simp
    finally show ?thesis .
  qed
next
  case False
  then show ?thesis
    by (cases "active st")
      (auto simp: finish_turn_def completes_def Let_def intro!: grew_same R_refl)
qed

lemma grew_on_completion: "grew st (snd (on_completion D c st))"
proof -
  let ?st = "st\<lparr>in_flight := remove1 (completion_id c, completion_generation c) (in_flight st)\<rparr>"
  have "grew st ?st" by (rule grew_same) (simp_all add: R_refl)
  note fin = grew_trans [OF this grew_finish_turn]
  show ?thesis
    using fin grew_trans [OF fin grew_finish_shutdown]
    by (simp add: on_completion_def Let_def)
qed

lemma grew_handle_command: "grew st (snd (handle_command D queued cmd st))"
proof (cases cmd)
  case (StopTurn expected kind c)
  obtain r st' where r: "stop_active D expected kind st = (r, st')" by fastforce
  from grew_trans [OF grew_stop_active [OF r] grew_reply] show ?thesis
    using StopTurn r by (simp add: handle_command_def reject_closed_def grew_reply)
next
  case (Shutdown c)
  let ?st = "st\<lparr>shutdown_waiters := shutdown_waiters st @ [c]\<rparr>"
  have "grew st ?st" by (rule grew_same) (simp_all add: R_refl)
  note s = grew_trans [OF grew_trans [OF this grew_begin_shutdown] grew_queued [where cmds = queued]]
  then show ?thesis
    using Shutdown grew_trans [OF s grew_finish_shutdown]
    by (simp add: handle_command_def handle_shutdown_def Let_def)
next
  case (Control ctl c)
  have "grew st (control_session D ctl c st)"
    using control_grows
    by (auto simp: control_session_def require_idle_def Let_def grew_reply
        intro!: grew_trans [OF grew_driver grew_reply] split: prod.split option.split)
  with Control show ?thesis by (simp add: handle_command_def reject_closed_def grew_reply)
next
  case (ReplaceTranscript msgs c)
  have "grew st (write_transcript D msgs c st)"
    using replace_grows
    by (auto simp: write_transcript_def require_idle_def Let_def grew_reply
        intro!: grew_trans [OF grew_driver grew_reply] split: prod.split option.split)
  with ReplaceTranscript show ?thesis by (simp add: handle_command_def reject_closed_def grew_reply)
qed (simp_all add: handle_command_def reject_closed_def grew_reply grew_start_turn read_transcript_def
      query_state_def grew_trans [OF grew_emit grew_reply])

lemma grew_step: "session_step D bg s e t \<Longrightarrow> grew (snd s) (snd t)"
proof (induction rule: session_step.induct)
  case (disconnect_branch st)
  show ?case
    using grew_begin_shutdown grew_trans [OF grew_begin_shutdown grew_finish_shutdown]
    by (simp add: on_disconnect_def Let_def)
next
  case (background st d)
  then show ?case by (simp add: grew_driver background_grows)
qed (simp_all add: grew_on_completion grew_handle_command)

lemma grew_run: "session_run D bg s es t \<Longrightarrow> grew (snd s) (snd t)"
  by (induction rule: session_run.induct) (auto intro: grew_same R_refl grew_trans grew_step)

lemma cursor_within_log:
  assumes "session_run D bg (False, start_session D sid d) es (stopped, st)"
  shows "snap_last_sequence (snapshot st) \<le> sequence_of D (driver st)" and "R d (driver st)"
  using grew_run [OF assms] by (simp_all add: grew_def cursor_ok_def start_session_def)

end

end
