(* ===== verification/AgentEffects.thy ===== *)
theory AgentEffects
  imports LoopExecutor ToolHistory
begin

section \<open>Model turns and tool batches of the agent loop\<close>

text \<open>
  \<open>rara-agent/src/model.rs\<close> and \<open>tools.rs\<close>: how one model response becomes an assistant message and
  its tool calls, and how a batch of calls is admitted, invoked and answered. The host's policies
  (the traits \<open>ModelTurnPolicy\<close> and \<open>ToolBatchEffects\<close>) and the provider are parameters on the
  host's state. Errors are their messages. Tools return text or an error.
\<close>

subsection \<open>Tool calls and replies (tools.rs)\<close>

record tool_call =
  call_id :: ustr
  call_name :: ustr
  call_input :: json

record tool_reply =
  reply_content :: ustr
  reply_is_error :: bool

definition reply_success :: "ustr \<Rightarrow> tool_reply" where
  "reply_success c = \<lparr>reply_content = c, reply_is_error = False\<rparr>"

definition reply_error :: "ustr \<Rightarrow> tool_reply" where
  "reply_error c = \<lparr>reply_content = c, reply_is_error = True\<rparr>"

definition into_message :: "tool_reply \<Rightarrow> ustr \<Rightarrow> message" where
  "into_message r i =
     \<lparr>role = lit ''user'', content = JArr [JObj (
        [(lit ''type'', JStr (lit ''tool_result'')), (lit ''tool_use_id'', JStr i),
         (lit ''content'', JStr (reply_content r))] @
        (if reply_is_error r then [(lit ''is_error'', JBool True)] else []))]\<rparr>"

datatype tool_admission = Invoke | Reply tool_reply | NeedsApproval | Omit

datatype tool_error = InvalidInput ustr | ExecutionFailed ustr | Io ustr

datatype tool_output_stream = Stdout | Stderr

datatype tool_progress_event = OutputChunk tool_output_stream ustr

definition show_tool_error :: "tool_error \<Rightarrow> ustr" where
  "show_tool_error e = (case e of
     InvalidInput m \<Rightarrow> lit ''Invalid input: '' @ m
   | ExecutionFailed m \<Rightarrow> lit ''Execution failed: '' @ m
   | Io m \<Rightarrow> lit ''IO error: '' @ m)"

record tool_batch_output =
  batch_messages :: "message list"
  batch_outcome :: tool_batch_outcome

record 'h tool_batch_effects =
  begin_batch :: "tool_call list \<Rightarrow> ('h, ustr, unit) em"
  prepare_call :: "tool_call \<Rightarrow> ('h, ustr, tool_admission) em"
  invoke_call :: "tool_call \<Rightarrow> 'h \<Rightarrow> (tool_error + json) \<times> 'h"
  complete_call :: "tool_call \<Rightarrow> tool_error + json \<Rightarrow> ('h, ustr, tool_reply) em"

definition invoke_and_complete :: "'h tool_batch_effects \<Rightarrow> tool_call \<Rightarrow> ('h, ustr, tool_reply) em" where
  "invoke_and_complete eff call h = (case invoke_call eff call h of (result, h') \<Rightarrow> complete_call eff call result h')"

fun batch_loop ::
  "'h tool_batch_effects \<Rightarrow> tool_call list \<Rightarrow> message list \<Rightarrow> ('h, ustr, tool_batch_output) em" where
  "batch_loop eff [] msgs = retE \<lparr>batch_messages = msgs, batch_outcome = ResultsAvailable\<rparr>"
| "batch_loop eff (call # calls) msgs =
     bindE (prepare_call eff call) (\<lambda>adm. case adm of
         Invoke \<Rightarrow> bindE (invoke_and_complete eff call)
           (\<lambda>reply. batch_loop eff calls (msgs @ [into_message reply (call_id call)]))
       | Reply reply \<Rightarrow> batch_loop eff calls (msgs @ [into_message reply (call_id call)])
       | NeedsApproval \<Rightarrow> retE \<lparr>batch_messages = msgs, batch_outcome = AwaitingApproval\<rparr>
       | Omit \<Rightarrow> batch_loop eff calls msgs)"

definition execute_tool_batch ::
  "'h tool_batch_effects \<Rightarrow> tool_call list \<Rightarrow> ('h, ustr, tool_batch_output) em" where
  "execute_tool_batch eff calls = thenE (begin_batch eff calls) (batch_loop eff calls [])"

subsection \<open>Model turns (model.rs)\<close>

datatype llm_stream_event = TextDelta ustr | ReasoningDelta ustr

datatype content_block =
    TextBlock ustr
  | ToolUseBlock ustr ustr json
  | MetadataBlock ustr ustr json

record token_usage =
  input_tokens :: nat
  output_tokens :: nat
  cache_hit_tokens :: nat
  cache_miss_tokens :: nat

record llm_response =
  response_content :: "content_block list"
  stop_reason :: "ustr option"
  usage :: "token_usage option"

record stream_evidence =
  text_delta :: bool
  reasoning_delta :: bool

datatype model_turn_event = Streamed llm_stream_event | AssistantText ustr | ToolUseEvent tool_call

record model_turn_output =
  assistant_message :: "message option"
  tool_calls :: "tool_call list"
  turn_evidence :: response_evidence
  turn_stream :: stream_evidence
  turn_stop_reason :: "ustr option"

text \<open>The serialised content block (\<open>#[serde(tag = "type")]\<close>).\<close>

definition block_json :: "content_block \<Rightarrow> json" where
  "block_json b = (case b of
     TextBlock t \<Rightarrow> JObj [(lit ''type'', JStr (lit ''text'')), (lit ''text'', JStr t)]
   | ToolUseBlock i n x \<Rightarrow>
       JObj [(lit ''type'', JStr (lit ''tool_use'')), (lit ''id'', JStr i), (lit ''name'', JStr n), (lit ''input'', x)]
   | MetadataBlock p k v \<Rightarrow>
       JObj [(lit ''type'', JStr (lit ''provider_metadata'')), (lit ''provider'', JStr p), (lit ''key'', JStr k),
             (lit ''value'', v)])"

record 'h model_turn_policy =
  on_event :: "model_turn_event \<Rightarrow> 'h \<Rightarrow> 'h"
  observe_response :: "ustr + llm_response \<Rightarrow> 'h \<Rightarrow> 'h"
  prepare_text :: "ustr \<Rightarrow> stream_evidence \<Rightarrow> ('h, ustr, ustr) em"
  prepare_tool_input :: "tool_call \<Rightarrow> ('h, ustr, json) em"
  finish_response :: "('h, ustr, unit) em"

text \<open>The trait's default policy for text and tool input.\<close>

definition default_prepare_text ::
  "(model_turn_event \<Rightarrow> 'h \<Rightarrow> 'h) \<Rightarrow> ustr \<Rightarrow> stream_evidence \<Rightarrow> ('h, ustr, ustr) em" where
  "default_prepare_text ev t stream h =
     (Inr t, if \<not> text_delta stream \<and> trim t \<noteq> [] then ev (AssistantText t) h else h)"

definition default_prepare_tool_input :: "tool_call \<Rightarrow> ('h, ustr, json) em" where
  "default_prepare_tool_input call = retE (call_input call)"

text \<open>
  The provider: the stream events it reports, in order, and its response. Each event is noted and
  handed to the policy.
\<close>

type_synonym 'h backend = "message list \<Rightarrow> json list \<Rightarrow> 'h \<Rightarrow> (llm_stream_event list \<times> (ustr + llm_response)) \<times> 'h"

definition note_stream :: "llm_stream_event \<Rightarrow> stream_evidence \<Rightarrow> stream_evidence" where
  "note_stream e s = (case e of
     TextDelta _ \<Rightarrow> s\<lparr>text_delta := True\<rparr> | ReasoningDelta _ \<Rightarrow> s\<lparr>reasoning_delta := True\<rparr>)"

record collected =
  col_evidence :: response_evidence
  col_calls :: "tool_call list"
  col_content :: "content_block list"

definition collect_block ::
  "'h model_turn_policy \<Rightarrow> stream_evidence \<Rightarrow> content_block \<Rightarrow> collected \<Rightarrow> ('h, ustr, collected) em" where
  "collect_block pol stream b c = (case b of
     TextBlock t \<Rightarrow> bindE (prepare_text pol t stream) (\<lambda>t.
         retE (if trim t \<noteq> [] then
                 c\<lparr>col_evidence := (col_evidence c)\<lparr>had_text_response := True\<rparr>,
                   col_content := col_content c @ [TextBlock t]\<rparr>
               else c))
   | ToolUseBlock i n x \<Rightarrow>
       let call = \<lparr>call_id = i, call_name = n, call_input = x\<rparr>;
           c = c\<lparr>col_content := col_content c @ [ToolUseBlock i n x]\<rparr> in
       bindE (prepare_tool_input pol call) (\<lambda>y.
         let call = call\<lparr>call_input := y\<rparr> in
         thenE (modifyE (on_event pol (ToolUseEvent call)))
           (retE (c\<lparr>col_calls := col_calls c @ [call]\<rparr>)))
   | MetadataBlock p k v \<Rightarrow>
       retE (c\<lparr>col_evidence := (if k = lit ''reasoning_content'' \<and> (\<exists>t\<in>set_option (as_str v). trim t \<noteq> [])
                  then (col_evidence c)\<lparr>had_reasoning_response := True\<rparr> else col_evidence c),
               col_content := col_content c @ [MetadataBlock p k v]\<rparr>))"

fun collect_blocks ::
  "'h model_turn_policy \<Rightarrow> stream_evidence \<Rightarrow> content_block list \<Rightarrow> collected \<Rightarrow> ('h, ustr, collected) em" where
  "collect_blocks pol stream [] c = retE c"
| "collect_blocks pol stream (b # bs) c = bindE (collect_block pol stream b c) (collect_blocks pol stream bs)"

definition ask_model ::
  "('h \<Rightarrow> bool) \<Rightarrow> 'h backend \<Rightarrow> 'h model_turn_policy \<Rightarrow> message list \<Rightarrow> json list \<Rightarrow> 'h \<Rightarrow>
   (stream_evidence \<times> (ustr + llm_response)) \<times> 'h" where
  "ask_model cancelled ask pol msgs tools h =
     (let none = \<lparr>text_delta = False, reasoning_delta = False\<rparr> in
      if cancelled h then ((none, Inl (lit ''LLM turn cancelled by user'')), h)
      else (case ask msgs tools h of ((events, r), h') \<Rightarrow>
        ((fold note_stream events none, r), fold (\<lambda>e. on_event pol (Streamed e)) events h')))"

definition execute_model_turn ::
  "('h \<Rightarrow> bool) \<Rightarrow> 'h backend \<Rightarrow> 'h model_turn_policy \<Rightarrow> message list \<Rightarrow> json list \<Rightarrow>
   ('h, ustr, model_turn_output) em" where
  "execute_model_turn cancelled ask pol msgs tools h =
     (case ask_model cancelled ask pol msgs tools h of ((stream, r), h') \<Rightarrow>
       (let h' = observe_response pol r h' in
        case r of
          Inl e \<Rightarrow> (Inl e, h')
        | Inr resp \<Rightarrow>
            bindE (collect_blocks pol stream (response_content resp)
                \<lparr>col_evidence = \<lparr>had_text_response = False, had_reasoning_response = reasoning_delta stream\<rparr>,
                 col_calls = [], col_content = []\<rparr>) (\<lambda>c.
              thenE (finish_response pol)
                (retE \<lparr>assistant_message =
                    (if had_text_response (col_evidence c) \<or> col_calls c \<noteq> []
                     then Some \<lparr>role = lit ''assistant'', content = JArr (map block_json (col_content c))\<rparr>
                     else None),
                  tool_calls = col_calls c, turn_evidence = col_evidence c, turn_stream = stream,
                  turn_stop_reason = stop_reason resp\<rparr>)) h'))"

subsection \<open>The calls of an assistant message\<close>

definition call_of_block :: "content_block \<Rightarrow> ustr option" where
  "call_of_block b = (case b of ToolUseBlock i n x \<Rightarrow> Some i | _ \<Rightarrow> None)"

lemma block_json_type [simp]:
  "is_block ''tool_use'' (block_json b) \<longleftrightarrow> call_of_block b \<noteq> None"
  "\<not> is_block ''tool_result'' (block_json b)"
  by (cases b; simp add: is_block_def block_json_def jstr_def as_str_def call_of_block_def lit_def)+

lemma block_json_id: "call_of_block b = Some i \<Longrightarrow> jstr ''id'' (block_json b) = Some i"
  by (cases b) (simp_all add: block_json_def jstr_def as_str_def call_of_block_def lit_def)

lemma ids_of_blocks: "tool_use_ids_in_blocks (map block_json bs) = filter_map call_of_block bs"
  by (induction bs) (auto simp: tool_use_ids_in_blocks_def block_json_id split: option.split)

lemma filter_map_append [simp]: "filter_map f (xs @ ys) = filter_map f xs @ filter_map f ys"
  by (induction xs) (simp_all split: option.split)

definition calls_agree :: "collected \<Rightarrow> bool" where
  "calls_agree c \<longleftrightarrow> map call_id (col_calls c) = filter_map call_of_block (col_content c)"

lemma collect_block_agrees:
  assumes "calls_agree c" "collect_block pol stream b c h = (Inr c', h')"
  shows "calls_agree c'"
  using assms
  by (cases b)
    (auto simp: collect_block_def calls_agree_def em_simps call_of_block_def Let_def
      split: prod.splits sum.splits if_splits)

lemma collect_blocks_agree:
  "calls_agree c \<Longrightarrow> collect_blocks pol stream bs c h = (Inr c', h') \<Longrightarrow> calls_agree c'"
proof (induction bs arbitrary: c h)
  case (Cons b bs)
  then obtain c1 h1 where b: "collect_block pol stream b c h = (Inr c1, h1)"
    and bs: "collect_blocks pol stream bs c1 h1 = (Inr c', h')"
    by (auto simp: em_simps split: prod.splits sum.splits)
  from Cons.IH [OF collect_block_agrees [OF Cons.prems(1) b] bs] show ?case .
qed simp

lemma model_turn_collected:
  assumes "execute_model_turn cancelled ask pol msgs tools h = (Inr out, h')"
  obtains c where "calls_agree c" "tool_calls out = col_calls c" "turn_evidence out = col_evidence c"
    "assistant_message out = (if had_text_response (col_evidence c) \<or> col_calls c \<noteq> []
       then Some \<lparr>role = lit ''assistant'', content = JArr (map block_json (col_content c))\<rparr> else None)"
proof -
  obtain stream r h1 where ask: "ask_model cancelled ask pol msgs tools h = ((stream, r), h1)"
    by (metis surj_pair)
  from assms ask obtain resp where r: "r = Inr resp" by (auto simp: execute_model_turn_def Let_def split: sum.splits)
  let ?c0 = "\<lparr>col_evidence = \<lparr>had_text_response = False, had_reasoning_response = reasoning_delta stream\<rparr>,
                 col_calls = [], col_content = []\<rparr>"
  obtain c h2 where c: "collect_blocks pol stream (response_content resp) ?c0 (observe_response pol r h1) = (Inr c, h2)"
    and out: "tool_calls out = col_calls c" "turn_evidence out = col_evidence c"
      "assistant_message out = (if had_text_response (col_evidence c) \<or> col_calls c \<noteq> []
         then Some \<lparr>role = lit ''assistant'', content = JArr (map block_json (col_content c))\<rparr> else None)"
    using assms ask r by (auto simp: execute_model_turn_def em_simps Let_def split: prod.splits sum.splits)
  have "calls_agree c" by (rule collect_blocks_agree [OF _ c]) (simp add: calls_agree_def)
  with out show ?thesis using that by blast
qed

text \<open>
  The assistant message recorded for a response names exactly the calls that will be executed, in
  order, whatever the policy does to text and tool inputs, and contains no tool result; without
  such a message there is no call.
\<close>

theorem assistant_message_names_the_calls:
  assumes "execute_model_turn cancelled ask pol msgs tools h = (Inr out, h')"
  shows "(case assistant_message out of
       None \<Rightarrow> tool_calls out = []
     | Some m \<Rightarrow> role m = lit ''assistant'' \<and> \<not> has_tool_result_block (message_blocks m) \<and>
         tool_use_ids_in_blocks (message_blocks m) = map call_id (tool_calls out))"
proof -
  obtain c where "calls_agree c" "tool_calls out = col_calls c"
    "assistant_message out = (if had_text_response (col_evidence c) \<or> col_calls c \<noteq> []
       then Some \<lparr>role = lit ''assistant'', content = JArr (map block_json (col_content c))\<rparr> else None)"
    by (rule model_turn_collected [OF assms])
  then show ?thesis
    by (auto simp: ids_of_blocks calls_agree_def has_tool_result_block_def)
qed

text \<open>Streamed text is not announced twice, and a blank text block is dropped.\<close>

definition demo_policy :: "model_turn_event list model_turn_policy" where
  "demo_policy = \<lparr>on_event = (\<lambda>e h. h @ [e]), observe_response = (\<lambda>_ h. h),
     prepare_text = default_prepare_text (\<lambda>e h. h @ [e]),
     prepare_tool_input = default_prepare_tool_input, finish_response = retE ()\<rparr>"

definition demo_response :: llm_response where
  "demo_response = \<lparr>response_content =
     [TextBlock (lit '' ''), ToolUseBlock (lit ''t1'') (lit ''read'') JNull, TextBlock (lit ''ok'')],
     stop_reason = None, usage = None\<rparr>"

theorem assistant_message_names_the_calls_witness:
  "\<exists>out h. execute_model_turn (\<lambda>_. False) (\<lambda>_ _ h. (([], Inr demo_response), h)) demo_policy [] [] [] = (Inr out, h) \<and>
     tool_calls out \<noteq> [] \<and>
     (case assistant_message out of
        None \<Rightarrow> False
      | Some m \<Rightarrow> tool_use_ids_in_blocks (message_blocks m) = [lit ''t1''])"
proof -
  obtain out h where o: "execute_model_turn (\<lambda>_. False) (\<lambda>_ _ h. (([], Inr demo_response), h)) demo_policy [] [] []
        = (Inr out, h)" "map call_id (tool_calls out) = [lit ''t1'']"
    by (simp add: execute_model_turn_def ask_model_def demo_response_def demo_policy_def collect_block_def
        default_prepare_text_def default_prepare_tool_input_def em_simps Let_def)
  with assistant_message_names_the_calls [OF o(1)] show ?thesis
    by (auto split: option.splits)
qed

subsection \<open>The log of a batch\<close>

datatype batch_step =
    Prepared tool_call "ustr + tool_admission"
  | Invoked tool_call "tool_error + json"
  | Answered tool_call "tool_error + json" "ustr + tool_reply"

definition note_step :: "('a \<Rightarrow> batch_step) \<Rightarrow> 'a \<times> 'h \<Rightarrow> batch_step list \<Rightarrow> 'a \<times> 'h \<times> batch_step list" where
  "note_step f r log = (case r of (a, h) \<Rightarrow> (a, h, log @ [f a]))"

text \<open>The same host, which also writes down every call it receives and its result.\<close>

definition logged :: "'h tool_batch_effects \<Rightarrow> ('h \<times> batch_step list) tool_batch_effects" where
  "logged eff = \<lparr>begin_batch = (\<lambda>calls (h, log). case begin_batch eff calls h of (r, h') \<Rightarrow> (r, h', log)),
     prepare_call = (\<lambda>c (h, log). note_step (Prepared c) (prepare_call eff c h) log),
     invoke_call = (\<lambda>c (h, log). note_step (Invoked c) (invoke_call eff c h) log),
     complete_call = (\<lambda>c res (h, log). note_step (Answered c res) (complete_call eff c res h) log)\<rparr>"

text \<open>The order the executor promises: call by call, invoked when and only when admitted.\<close>

fun batch_protocol :: "tool_call list \<Rightarrow> batch_step list \<Rightarrow> bool" where
  "batch_protocol calls [] = True"
| "batch_protocol (c # cs) (Prepared c' adm # log) = (c' = c \<and> (case adm of
      Inl _ \<Rightarrow> log = []
    | Inr Invoke \<Rightarrow> (case log of
          Invoked c1 res # Answered c2 res' rep # rest \<Rightarrow>
            c1 = c \<and> c2 = c \<and> res' = res \<and> (case rep of Inl _ \<Rightarrow> rest = [] | Inr _ \<Rightarrow> batch_protocol cs rest)
        | _ \<Rightarrow> False)
    | Inr (Reply _) \<Rightarrow> batch_protocol cs log
    | Inr NeedsApproval \<Rightarrow> log = []
    | Inr Omit \<Rightarrow> batch_protocol cs log))"
| "batch_protocol _ _ = False"

fun logged_replies :: "batch_step list \<Rightarrow> message list" where
  "logged_replies [] = []"
| "logged_replies (Prepared c (Inr (Reply r)) # log) = into_message r (call_id c) # logged_replies log"
| "logged_replies (Answered c _ (Inr r) # log) = into_message r (call_id c) # logged_replies log"
| "logged_replies (_ # log) = logged_replies log"

lemma batch_loop_logged:
  "\<exists>new. batch_loop (logged eff) calls msgs (h, log) =
       (case batch_loop eff calls msgs h of (r, h') \<Rightarrow> (r, h', log @ new)) \<and>
     batch_protocol calls new \<and>
     (\<forall>out. fst (batch_loop eff calls msgs h) = Inr out \<longrightarrow> batch_messages out = msgs @ logged_replies new)"
proof (induction calls arbitrary: msgs h log)
  case Nil
  show ?case by (intro exI [of _ "[]"]) simp
next
  case (Cons c cs)
  obtain adm h1 where prep: "prepare_call eff c h = (adm, h1)" by fastforce
  show ?case
  proof (cases adm)
    case (Inl e)
    with prep show ?thesis
      by (intro exI [of _ "[Prepared c adm]"]) (simp add: logged_def note_step_def em_simps)
  next
    case (Inr a)
    show ?thesis
    proof (cases a)
      case NeedsApproval
      with prep Inr show ?thesis
        by (intro exI [of _ "[Prepared c adm]"]) (simp add: logged_def note_step_def em_simps)
    next
      case Omit
      obtain new where "batch_loop (logged eff) cs msgs (h1, log @ [Prepared c adm]) =
          (case batch_loop eff cs msgs h1 of (r, h') \<Rightarrow> (r, h', (log @ [Prepared c adm]) @ new))"
        "batch_protocol cs new"
        "\<forall>out. fst (batch_loop eff cs msgs h1) = Inr out \<longrightarrow> batch_messages out = msgs @ logged_replies new"
        using Cons.IH [of msgs h1 "log @ [Prepared c adm]"] by blast
      with prep Inr Omit show ?thesis
        by (intro exI [of _ "Prepared c adm # new"])
          (simp add: logged_def note_step_def em_simps split: prod.splits)
    next
      case (Reply rep)
      let ?m = "msgs @ [into_message rep (call_id c)]"
      obtain new where "batch_loop (logged eff) cs ?m (h1, log @ [Prepared c adm]) =
          (case batch_loop eff cs ?m h1 of (r, h') \<Rightarrow> (r, h', (log @ [Prepared c adm]) @ new))"
        "batch_protocol cs new"
        "\<forall>out. fst (batch_loop eff cs ?m h1) = Inr out \<longrightarrow> batch_messages out = ?m @ logged_replies new"
        using Cons.IH [of ?m h1 "log @ [Prepared c adm]"] by blast
      with prep Inr Reply show ?thesis
        by (intro exI [of _ "Prepared c adm # new"])
          (simp add: logged_def note_step_def em_simps split: prod.splits)
    next
      case Invoke
      obtain res h2 where inv: "invoke_call eff c h1 = (res, h2)" by fastforce
      obtain rep h3 where com: "complete_call eff c res h2 = (rep, h3)" by fastforce
      let ?steps = "[Prepared c adm, Invoked c res, Answered c res rep]"
      show ?thesis
      proof (cases rep)
        case (Inl e)
        with prep Inr Invoke inv com show ?thesis
          by (intro exI [of _ ?steps])
            (simp add: logged_def note_step_def em_simps invoke_and_complete_def)
      next
        case rep: (Inr r)
        let ?m = "msgs @ [into_message r (call_id c)]"
        obtain new where "batch_loop (logged eff) cs ?m (h3, log @ ?steps) =
            (case batch_loop eff cs ?m h3 of (r, h') \<Rightarrow> (r, h', (log @ ?steps) @ new))"
          "batch_protocol cs new"
          "\<forall>out. fst (batch_loop eff cs ?m h3) = Inr out \<longrightarrow> batch_messages out = ?m @ logged_replies new"
          using Cons.IH [of ?m h3 "log @ ?steps"] by blast
        with prep Inr Invoke inv com rep show ?thesis
          by (intro exI [of _ "?steps @ new"])
            (simp add: logged_def note_step_def em_simps invoke_and_complete_def split: prod.splits)
      qed
    qed
  qed
qed


end
