(* ===== verification/HostDriver.thy ===== *)
theory HostDriver
  imports SessionCursor AgentEffects
begin

section \<open>The host driver of a runtime session\<close>

text \<open>
  \<open>rara-runtime/src/native/host_driver.rs\<close> and \<open>events.rs\<close>: the driver that runs a session for an
  embedding host. Its state is the host's backend \<open>'b\<close> and tools \<open>'u\<close> (parameters), transcript
  and limits, and the event log it shares with the running turn. The broadcast channel is the
  parameter \<open>send\<close>. At the last event number the code panics; here the log stays as it is.
\<close>

subsection \<open>Events (events.rs)\<close>

text \<open>\<open>NoPendingInput\<close> has no values in the code; a type of HOL has one, which is never produced.\<close>

datatype no_pending_input = NoValue

datatype session_notice =
    NTurnStarted
  | NTurnFinished
  | NTurnCancelled
  | NTurnInterrupted
  | NTurnFailed ustr
  | NRuntimeState "no_pending_input session_snapshot"

datatype assistant_notice = NText ustr | NDelta ustr | NThinkingDelta ustr

datatype tool_notice =
    NUse ustr ustr json
  | NProgress ustr ustr tool_progress_event
  | NResult ustr ustr ustr bool

datatype runtime_event =
    SessionEvent session_notice
  | AssistantEvent assistant_notice
  | ToolEvent tool_notice
  | StatusEvent ustr
  | ErrorEvent ustr

record control_event =
  event_id :: ustr
  event_session :: runtime_session_id
  event_turn :: "runtime_turn_id option"
  event_sequence :: nat
  event_body :: runtime_event

subsection \<open>Publishing\<close>

definition hex_digit :: "nat \<Rightarrow> uchar" where
  "hex_digit n = (if n < 10 then 48 + int n else 87 + int n)"

text \<open>\<open>{:016x}\<close> of a 64-bit number.\<close>

fun hex_pad :: "nat \<Rightarrow> nat \<Rightarrow> ustr" where
  "hex_pad 0 n = []"
| "hex_pad (Suc k) n = hex_pad k (n div 16) @ [hex_digit (n mod 16)]"

definition hex16 :: "nat \<Rightarrow> ustr" where
  "hex16 n = hex_pad 16 n"

record 'ch host_events =
  he_session :: runtime_session_id
  he_log :: "('ch, control_event) event_log"

definition control_event_of ::
  "runtime_session_id \<Rightarrow> runtime_turn_id option \<Rightarrow> runtime_event \<Rightarrow> nat \<Rightarrow> control_event" where
  "control_event_of sid turn ev n =
     \<lparr>event_id = lit ''evt-'' @ hex16 n, event_session = sid, event_turn = turn, event_sequence = n,
      event_body = ev\<rparr>"

type_synonym 'ch sender_of = "'ch \<Rightarrow> control_event \<Rightarrow> nat option \<times> 'ch"

definition host_publish ::
  "'ch sender_of \<Rightarrow> runtime_turn_id option \<Rightarrow> runtime_event \<Rightarrow> 'ch host_events \<Rightarrow> 'ch host_events" where
  "host_publish send turn ev he =
     (case publish send (control_event_of (he_session he) turn ev) (\<lambda>r _. r) (he_log he, ()) of
        None \<Rightarrow> he
      | Some (_, lg, _) \<Rightarrow> he\<lparr>he_log := lg\<rparr>)"

subsection \<open>The driver\<close>

record ('b, 'u) host_state =
  hs_backend :: 'b
  hs_tools :: 'u
  hs_transcript :: "message list"
  hs_workspace :: ustr
  hs_system_prompt :: "ustr option"
  hs_max_turns :: "nat option"

datatype 'b host_control = ReplaceBackend 'b | SetMaxTurns "nat option"

record ('b, 'u, 'ch) host_driver =
  hd_state :: "('b, 'u) host_state option"
  hd_events :: "'ch host_events"

record model_token_usage =
  mtu_input :: nat
  mtu_output :: nat
  mtu_cache :: "(nat \<times> nat) option"

record model_turn_report =
  mtr_model :: ustr
  mtr_duration :: nat
  mtr_finish_reason :: "ustr option"
  mtr_usage :: "model_token_usage option"
  mtr_fingerprint :: "ustr option"

type_synonym host_report = "model_turn_report list"

record ('b, 'u) host_turn =
  ht_state :: "('b, 'u) host_state"
  ht_report :: host_report
  ht_turn :: runtime_turn_id
  ht_prompt :: "ustr option"
  ht_assistant :: "message option"
  ht_calls :: "tool_call list"

definition new_host_turn :: "('b, 'u) host_state \<Rightarrow> ustr \<Rightarrow> 'a turn_context \<Rightarrow> ('b, 'u) host_turn" where
  "new_host_turn s prompt ctx =
     \<lparr>ht_state = s, ht_report = [], ht_turn = ctx_turn ctx, ht_prompt = Some prompt,
      ht_assistant = None, ht_calls = []\<rparr>"

type_synonym ('b, 'u, 'ch) driver_fun = "('b, 'u, 'ch) host_driver \<Rightarrow> ('b, 'u, 'ch) host_driver"

definition host_begin_turn ::
  "('b, 'u, 'ch) host_driver \<Rightarrow> ustr \<Rightarrow> 'a turn_context \<Rightarrow>
   (host_report session_error + ('b, 'u) host_turn) \<times> ('b, 'u, 'ch) host_driver" where
  "host_begin_turn d prompt ctx =
     (case hd_state d of
        None \<Rightarrow> (Inl ActorStopped, d)
      | Some s \<Rightarrow> (Inr (new_host_turn s prompt ctx), d\<lparr>hd_state := None\<rparr>))"

definition host_complete_turn ::
  "('b, 'u, 'ch) host_driver \<Rightarrow> ('b, 'u) host_turn \<Rightarrow> input_discard_reason option \<Rightarrow>
   (no_pending_input, host_report) completed_turn \<times> ('b, 'u, 'ch) host_driver" where
  "host_complete_turn d t discard =
     (\<lparr>ct_report = ht_report t, ct_transcript = hs_transcript (ht_state t), ct_pending = None\<rparr>,
      d\<lparr>hd_state := Some (ht_state t)\<rparr>)"

definition host_transcript :: "('b, 'u, 'ch) host_driver \<Rightarrow> host_report session_error + message list" where
  "host_transcript d = (case hd_state d of None \<Rightarrow> Inl ActorStopped | Some s \<Rightarrow> Inr (hs_transcript s))"

definition host_replace_transcript ::
  "('b, 'u, 'ch) host_driver \<Rightarrow> message list \<Rightarrow> (host_report session_error + unit) \<times> ('b, 'u, 'ch) host_driver" where
  "host_replace_transcript d msgs =
     (case hd_state d of
        None \<Rightarrow> (Inl ActorStopped, d)
      | Some s \<Rightarrow> (Inr (), d\<lparr>hd_state := Some (s\<lparr>hs_transcript := msgs\<rparr>)\<rparr>))"

definition host_control_driver ::
  "('b, 'u, 'ch) host_driver \<Rightarrow> 'b host_control \<Rightarrow> (host_report session_error + unit) \<times> ('b, 'u, 'ch) host_driver" where
  "host_control_driver d ctl =
     (case hd_state d of
        None \<Rightarrow> (Inl ActorStopped, d)
      | Some s \<Rightarrow> (Inr (), d\<lparr>hd_state := Some (case ctl of
            ReplaceBackend b \<Rightarrow> s\<lparr>hs_backend := b\<rparr>
          | SetMaxTurns limit \<Rightarrow> s\<lparr>hs_max_turns := limit\<rparr>)\<rparr>))"

definition host_publish_lifecycle ::
  "'ch sender_of \<Rightarrow> ('b, 'u, 'ch) host_driver \<Rightarrow> no_pending_input session_lifecycle \<Rightarrow> ('b, 'u, 'ch) host_driver" where
  "host_publish_lifecycle send d ev = d\<lparr>hd_events := (let pub = host_publish send; he = hd_events d in
     case ev of
       LTurnStarted t \<Rightarrow> pub (Some t) (SessionEvent NTurnStarted) he
     | LTurnFinished t _ \<Rightarrow> pub (Some t) (SessionEvent NTurnFinished) he
     | LTurnStopped t kind \<Rightarrow> pub (Some t) (SessionEvent
         (case kind of Cancel \<Rightarrow> NTurnCancelled | Interrupt \<Rightarrow> NTurnInterrupted)) he
     | LTurnFailed t msg \<Rightarrow> pub (Some t) (SessionEvent (NTurnFailed msg)) (pub (Some t) (ErrorEvent msg) he)
     | LRuntimeState sn \<Rightarrow> pub None (SessionEvent (NRuntimeState sn)) he
     | LInputRequested _ \<Rightarrow> he
     | LInputAnswered _ _ \<Rightarrow> he
     | LInputDiscarded _ _ \<Rightarrow> he)\<rparr>"

definition host_session_driver ::
  "'ch sender_of \<Rightarrow> (('b, 'u, 'ch) host_driver, ustr, 'b host_control, no_pending_input, ('b, 'u) host_turn, 'a,
     host_report) session_driver" where
  "host_session_driver send =
     \<lparr>validate_input = (\<lambda>_ _ _. Inr ()), is_answer = (\<lambda>_. False), begin_turn = host_begin_turn,
      complete_turn = host_complete_turn, after_turn = (\<lambda>d. d), get_transcript = host_transcript,
      replace_transcript = host_replace_transcript, control_driver = host_control_driver,
      discard_pending = (\<lambda>d. (Inr (), d)), cancel_descendants = (\<lambda>d. (Inr (), d)),
      close_admission = (\<lambda>d. (Inr (), d)), shutdown_driver = (\<lambda>d. (Inr (), d)),
      publish_event = host_publish_lifecycle send,
      sequence_of = (\<lambda>d. current_sequence_of (he_log (hd_events d))), pending_turn = (\<lambda>_. [])\<rparr>"

lemma host_driver_fields:
  "validate_input (host_session_driver send) d i p = Inr ()"
  "is_answer (host_session_driver send) i = False"
  "begin_turn (host_session_driver send) = host_begin_turn"
  "complete_turn (host_session_driver send) = host_complete_turn"
  "after_turn (host_session_driver send) d = d"
  "get_transcript (host_session_driver send) = host_transcript"
  "replace_transcript (host_session_driver send) = host_replace_transcript"
  "control_driver (host_session_driver send) = host_control_driver"
  "discard_pending (host_session_driver send) d = (Inr (), d)"
  "cancel_descendants (host_session_driver send) d = (Inr (), d)"
  "close_admission (host_session_driver send) d = (Inr (), d)"
  "shutdown_driver (host_session_driver send) d = (Inr (), d)"
  "publish_event (host_session_driver send) = host_publish_lifecycle send"
  "sequence_of (host_session_driver send) d = current_sequence_of (he_log (hd_events d))"
  by (simp_all only: host_session_driver_def session_driver.simps)

text \<open>The running turn and the session's own methods publish into the shared log.\<close>

inductive host_background ::
  "'ch sender_of \<Rightarrow> ('b, 'u, 'ch) host_driver \<Rightarrow> ('b, 'u, 'ch) host_driver \<Rightarrow> bool" for send where
  no_event: "host_background send d d"
| more_event: "host_background send d d' \<Longrightarrow>
     host_background send d (d'\<lparr>hd_events := host_publish send turn ev (hd_events d')\<rparr>)"

subsection \<open>The log only grows\<close>

abbreviation host_lg :: "('b, 'u, 'ch) host_driver \<Rightarrow> ('ch, control_event) event_log" where
  "host_lg d \<equiv> he_log (hd_events d)"

definition log_extends :: "('ch, control_event) event_log \<Rightarrow> ('ch, control_event) event_log \<Rightarrow> bool" where
  "log_extends lg lg' \<longleftrightarrow>
     current_sequence_of lg \<le> current_sequence_of lg' \<and> log_capacity lg' = log_capacity lg \<and>
     (log_ok event_sequence lg \<longrightarrow> log_ok event_sequence lg')"

lemma log_extends_refl [simp]: "log_extends lg lg"
  by (simp add: log_extends_def)

lemma log_extends_trans: "log_extends a b \<Longrightarrow> log_extends b c \<Longrightarrow> log_extends a c"
  by (auto simp: log_extends_def)

lemma host_publish_extends: "log_extends (he_log he) (he_log (host_publish send turn ev he))"
proof (cases "publish send (control_event_of (he_session he) turn ev) (\<lambda>r _. r) (he_log he, ())")
  case None
  then show ?thesis by (simp add: host_publish_def)
next
  case (Some x)
  then obtain k lg' where p: "publish send (control_event_of (he_session he) turn ev) (\<lambda>r _. r) (he_log he, ())
      = Some (k, lg', ())"
    by (cases x) auto
  have "log_ok event_sequence (he_log he) \<Longrightarrow> log_ok event_sequence lg'"
    by (rule publish_ok [OF _ _ p]) (simp_all add: control_event_of_def)
  with p publish_cases(1,4) [OF p] show ?thesis
    by (simp add: host_publish_def log_extends_def current_sequence_of_def)
qed

lemma host_lifecycle_extends: "log_extends (host_lg d) (host_lg (host_publish_lifecycle send d ev))"
  by (cases ev)
    (simp_all add: host_publish_lifecycle_def Let_def host_publish_extends
      log_extends_trans [OF host_publish_extends host_publish_extends])

lemma host_background_extends: "host_background send d d' \<Longrightarrow> log_extends (host_lg d) (host_lg d')"
proof (induction rule: host_background.induct)
  case (more_event d d' turn ev)
  then show ?case using log_extends_trans [OF _ host_publish_extends] by simp
qed simp

lemma host_begin_turn_events: "host_begin_turn d prompt ctx = (r, d') \<Longrightarrow> hd_events d' = hd_events d"
  by (auto simp: host_begin_turn_def split: option.splits)

lemma host_complete_turn_events: "host_complete_turn d t reason = (c, d') \<Longrightarrow> hd_events d' = hd_events d"
  by (auto simp: host_complete_turn_def)

lemma host_replace_events: "host_replace_transcript d msgs = (r, d') \<Longrightarrow> hd_events d' = hd_events d"
  by (auto simp: host_replace_transcript_def split: option.splits)

lemma host_control_events: "host_control_driver d ctl = (r, d') \<Longrightarrow> hd_events d' = hd_events d"
  by (auto simp: host_control_driver_def split: option.splits)

lemmas host_keeps_events = host_begin_turn_events host_complete_turn_events host_replace_events
  host_control_events

interpretation host_log: driver_relation "host_session_driver send" "host_background send"
  "\<lambda>d d'. log_extends (host_lg d) (host_lg d')"
  for send :: "'ch sender_of"
proof (unfold_locales, goal_cases)
  case (2 d d' d'')
  then show ?case by (rule log_extends_trans)
next
  case (3 d d')
  then show ?case by (simp add: host_driver_fields log_extends_def)
next
  case (4 d ev)
  then show ?case by (simp add: host_driver_fields host_lifecycle_extends)
next
  case (14 d d')
  then show ?case by (rule host_background_extends)
qed (simp_all add: host_driver_fields host_keeps_events)

subsection \<open>The state of the host\<close>

text \<open>The contract of \<open>SessionDriver\<close>: a turn takes the state, its completion brings it back.\<close>

definition host_holds :: "(('b, 'u, 'ch) host_driver, no_pending_input, host_report) session_actor \<Rightarrow> bool" where
  "host_holds st \<longleftrightarrow> (hd_state (driver st) \<noteq> None \<longleftrightarrow> active st = None) \<and> pending_input st = None"

lemma host_publish_lifecycle_state [simp]: "hd_state (host_publish_lifecycle send d ev) = hd_state d"
  by (simp add: host_publish_lifecycle_def)

lemma host_background_state: "host_background send d d' \<Longrightarrow> hd_state d' = hd_state d"
  by (induction rule: host_background.induct) simp_all

lemma emit_driver [simp]: "driver (emit D ev st) = publish_event D (driver st) ev"
  by (simp add: emit_def)

lemma host_begin_shutdown:
  "D = host_session_driver send \<Longrightarrow> host_holds st \<Longrightarrow> host_holds (begin_shutdown D st)"
  by (auto simp: host_holds_def begin_shutdown_def discard_pending_input_def host_driver_fields)

lemma host_finish_shutdown [simp]:
  "host_holds (finish_shutdown (host_session_driver send) st) = host_holds st"
  by (simp add: host_holds_def finish_shutdown_def publish_snapshot_def host_driver_fields Let_def)

lemma host_reject_queued [simp]: "host_holds (reject_queued cmds st) = host_holds st"
  by (simp add: host_holds_def)

lemma host_start_turn:
  assumes "host_holds st"
  shows "host_holds (start_turn (host_session_driver send) turn input agent acc outc st)"
  using assms
  by (cases rule: start_turn_cases [of "host_session_driver send" turn input agent acc outc st])
    (auto simp: host_holds_def host_driver_fields host_begin_turn_def take_pending_def split: option.splits)

lemma turn_result_driver:
  "turn_result D cancelled kind result out st = (r, st') \<Longrightarrow> \<exists>ev. driver st' = publish_event D (driver st) ev"
  by (auto simp: turn_result_def split: if_splits sum.splits)

lemma settle_nothing:
  "driver (settle_pending D discard None st) = driver st"
  "pending_input (settle_pending D discard None st) = (if discard = None then None else pending_input st)"
  by (simp_all add: settle_pending_def split: option.split)

lemma host_on_completion:
  assumes D: "D = host_session_driver send"
    and ok: "session_ok D (False, st)" and act: "active st = Some a" and holds: "host_holds st"
    and c: "(completion_id c, completion_generation c) \<in> set (in_flight st)"
  shows "host_holds (snd (on_completion D c st))"
proof -
  let ?st = "st\<lparr>in_flight := remove1 (completion_id c, completion_generation c) (in_flight st)\<rparr>"
  have m: "active ?st = Some a" "completes c a (generation ?st)"
    using ok act c by (auto simp: completes_def session_ok_def turn_ok_def)
  show ?thesis
  proof (cases rule: finish_turn_current [OF m, of D])
    case (1 p out d d' r st')
    note fr = turn_result_frame [OF 1(3)]
    have p: "p = None" and d: "hd_state d \<noteq> None"
      using 1(1) by (auto simp: D host_driver_fields host_complete_turn_def)
    from turn_result_driver [OF 1(3)] 1(5) p d have "hd_state (driver st') \<noteq> None"
      by (auto simp: D host_driver_fields settle_nothing)
    moreover have "active st' = None" "pending_input st' = None"
      using fr holds p by (simp_all add: settle_nothing host_holds_def)
    ultimately have "host_holds (finish_turn D c ?st)"
      using 1(4) by (simp add: host_holds_def)
    then show ?thesis by (simp add: on_completion_def Let_def D)
  qed
qed

lemma host_stop_active:
  assumes D: "D = host_session_driver send" and "host_holds st" "stop_active D expected kind st = (r, st')"
  shows "host_holds st'"
  using assms(2,3)
  by (cases rule: stop_active_cases [of D expected kind st]) (auto simp: D host_holds_def host_driver_fields)

lemma host_handle_command:
  assumes D: "D = host_session_driver send" and holds: "host_holds st" and op: "\<not> closing st"
  shows "host_holds (snd (handle_command D queued cmd st))"
proof (cases cmd)
  case (StopTurn expected kind c)
  obtain r st' where "stop_active D expected kind st = (r, st')" by fastforce
  with host_stop_active [OF D holds this] StopTurn op show ?thesis
    by (simp add: handle_command_def host_holds_def)
next
  case (StartTurn turn input agent acc outc)
  with op host_start_turn [OF holds] show ?thesis by (simp add: handle_command_def D)
next
  case (Control ctl c)
  with op holds show ?thesis
    by (auto simp: handle_command_def control_session_def D host_driver_fields host_control_driver_def
        host_holds_def require_idle_def Let_def split: option.splits prod.splits)
next
  case (ReplaceTranscript msgs c)
  with op holds show ?thesis
    by (auto simp: handle_command_def write_transcript_def D host_driver_fields host_replace_transcript_def
        host_holds_def require_idle_def Let_def split: option.splits prod.splits)
next
  case (Shutdown c)
  have "host_holds (st\<lparr>shutdown_waiters := shutdown_waiters st @ [c]\<rparr>)"
    using holds by (simp add: host_holds_def)
  from host_begin_shutdown [OF D this] Shutdown op show ?thesis
    by (simp add: handle_command_def handle_shutdown_def Let_def D)
qed (use op holds in \<open>simp_all add: handle_command_def read_transcript_def query_state_def host_holds_def
      D host_driver_fields\<close>)

lemma host_run:
  assumes D: "D = host_session_driver send"
  shows "session_run D (host_background send) s es t \<Longrightarrow> session_ok D s \<Longrightarrow> host_holds (snd s) \<Longrightarrow>
    host_holds (snd t)"
proof (induction rule: session_run.induct)
  case (run_snoc s es t e u)
  have ok: "session_ok D t" and holds: "host_holds (snd t)"
    using run_snoc run_ok by blast+
  from run_snoc.hyps(2) show ?case
  proof (cases rule: session_step.cases)
    case (completion_branch st c)
    with ok holds host_on_completion [OF D, of st _ c] show ?thesis by auto
  next
    case (command_branch st cmd queued)
    with holds host_handle_command [OF D, of st queued cmd] show ?thesis by simp
  next
    case (disconnect_branch st)
    with holds host_begin_shutdown [OF D, of st] show ?thesis by (simp add: on_disconnect_def Let_def D)
  next
    case (background st d)
    with holds host_background_state [of send "driver st" d] show ?thesis by (simp add: host_holds_def)
  qed
qed simp

subsection \<open>Executing a session\<close>

definition exec_step ::
  "('d, 'i, 'c, 'p, 't, 'a, 'q) session_driver \<Rightarrow> bool \<times> ('d, 'p, 'q) session_actor \<Rightarrow>
   ('i, 'c, 'a, 't, 'd) session_event \<Rightarrow> (bool \<times> ('d, 'p, 'q) session_actor) option" where
  "exec_step D s e = (case s of (stopped, st) \<Rightarrow>
     if stopped then None
     else (case e of
         Completion_received c \<Rightarrow>
           if active st \<noteq> None \<and> (completion_id c, completion_generation c) \<in> set (in_flight st)
           then Some (on_completion D c st) else None
       | Command_received cmd queued \<Rightarrow> if closing st then None else Some (handle_command D queued cmd st)
       | Commands_disconnected \<Rightarrow> if closing st then None else Some (on_disconnect D st)
       | Background d \<Rightarrow> None))"

lemma exec_step_sound: "exec_step D s e = Some t \<Longrightarrow> session_step D bg s e t"
  by (cases s; cases e) (auto simp: exec_step_def split: if_splits intro: session_step.intros)

lemma session_run_cons:
  "session_run D bg t es u \<Longrightarrow> session_step D bg s e t \<Longrightarrow> session_run D bg s (e # es) u"
proof (induction rule: session_run.induct)
  case (run_nil t)
  from run_snoc [OF session_run.run_nil run_nil] show ?case by simp
next
  case (run_snoc t es u e' v)
  from session_run.run_snoc [OF run_snoc.IH [OF run_snoc.prems] run_snoc.hyps(2)] show ?case by simp
qed

lemma exec_sound: "run_steps (exec_step D) s es = Some t \<Longrightarrow> session_run D bg s es t"
proof (induction es arbitrary: s)
  case Nil
  then show ?case by (simp add: run_nil)
next
  case (Cons e es)
  then obtain u where "exec_step D s e = Some u" "run_steps (exec_step D) u es = Some t"
    by (auto split: option.splits)
  with session_run_cons [OF Cons.IH exec_step_sound] show ?case by blast
qed

end
