(* ===== verification/HostSession.thy ===== *)
theory HostSession
  imports HostDriver
begin

section \<open>A session for an embedding host\<close>

text \<open>
  \<open>rara-runtime/src/native/session.rs\<close> and \<open>handle.rs\<close>: building a session and following its events,
  and what the actor, the host driver, the event log and the event stream promise together.
\<close>

subsection \<open>Building (session.rs)\<close>

record ('b, 'u) session_builder =
  sb_backend :: 'b
  sb_tools :: 'u
  sb_workspace :: ustr
  sb_session_id :: ustr
  sb_transcript :: "message list"
  sb_system_prompt :: "ustr option"
  sb_max_turns :: "nat option"
  sb_command_capacity :: nat
  sb_event_capacity :: nat

text \<open>The generated session identity is a parameter.\<close>

definition for_host :: "ustr \<Rightarrow> ustr \<Rightarrow> 'b \<Rightarrow> 'u \<Rightarrow> ('b, 'u) session_builder" where
  "for_host generated root b u =
     \<lparr>sb_backend = b, sb_tools = u, sb_workspace = root, sb_session_id = generated, sb_transcript = [],
      sb_system_prompt = None, sb_max_turns = None, sb_command_capacity = 32, sb_event_capacity = 256\<rparr>"

definition build_driver ::
  "(nat \<Rightarrow> 'ch) \<Rightarrow> ('b, 'u) session_builder \<Rightarrow> ('b, 'u, 'ch) host_driver" where
  "build_driver channel sb =
     \<lparr>hd_state = Some \<lparr>hs_backend = sb_backend sb, hs_tools = sb_tools sb, hs_transcript = sb_transcript sb,
        hs_workspace = sb_workspace sb, hs_system_prompt = sb_system_prompt sb, hs_max_turns = sb_max_turns sb\<rparr>,
      hd_events = \<lparr>he_session = sb_session_id sb, he_log = new_log channel (sb_event_capacity sb)\<rparr>\<rparr>"

text \<open>Absolute paths are a matter of the platform.\<close>

definition build_session ::
  "'ch sender_of \<Rightarrow> (nat \<Rightarrow> 'ch) \<Rightarrow> (ustr \<Rightarrow> bool) \<Rightarrow> ('b, 'u) session_builder \<Rightarrow>
   ustr + (('b, 'u, 'ch) host_driver, no_pending_input, host_report) session_actor" where
  "build_session send channel is_absolute sb =
     (if trim (sb_session_id sb) = [] then Inl (lit ''host session identity must not be empty'')
      else if \<not> is_absolute (sb_workspace sb) then Inl (lit ''host workspace root must be absolute'')
      else Inr (start_session
          (host_session_driver send :: (_, _, _, _, _, unit, _) session_driver)
          (sb_session_id sb) (build_driver channel sb)))"

lemma build_session_started:
  "build_session send channel is_absolute sb = Inr st \<Longrightarrow>
     st = start_session (host_session_driver send) (sb_session_id sb) (build_driver channel sb)"
  by (auto simp: build_session_def start_session_def host_driver_fields split: if_splits)

text \<open>\<open>RuntimeSession::subscribe_from_snapshot\<close> and \<open>subscribe_after\<close>, on the log at that moment.\<close>

definition subscribe_after ::
  "('ch, control_event) event_log \<Rightarrow> nat \<Rightarrow> host_report session_error + control_event event_stream" where
  "subscribe_after lg n = open_stream event_sequence lg n"

definition subscribe_from_snapshot ::
  "('ch, control_event) event_log \<Rightarrow> no_pending_input session_snapshot \<Rightarrow>
   host_report session_error + control_event event_stream" where
  "subscribe_from_snapshot lg sn = subscribe_after lg (snap_last_sequence sn)"

subsection \<open>Submitting and closing (handle.rs)\<close>

datatype send_result = Sent | Queue_full | Queue_closed

definition try_send_error :: "send_result \<Rightarrow> ('q session_error + unit)" where
  "try_send_error r = (case r of Sent \<Rightarrow> Inr () | Queue_full \<Rightarrow> Inl Overloaded | Queue_closed \<Rightarrow> Inl SessionClosed)"

definition stored_result :: "shutdown_outcome option \<Rightarrow> 'q session_error + unit" where
  "stored_result cell = (case cell of None \<Rightarrow> Inl ActorStopped | Some out \<Rightarrow> shutdown_result out)"

subsection \<open>The built session\<close>

lemma build_log_ok: "log_ok event_sequence (host_lg (build_driver channel sb))"
  by (simp add: build_driver_def new_log_def with_sender_ok)

lemma build_holds: "host_holds (start_session D sid (build_driver channel sb))"
  by (simp add: host_holds_def start_session_def build_driver_def)

lemma built_run:
  assumes "build_session send channel is_absolute sb = Inr st0"
    and "session_run D bg (False, st0) es s" "D = host_session_driver send"
  shows "session_run D bg (False, start_session D (sb_session_id sb) (build_driver channel sb)) es s"
  using assms(2) build_session_started [OF assms(1)] unfolding assms(3) by (rule subst [rotated])

text \<open>
  Composition of actor, driver and log: a subscriber can always start from the snapshot it has
  read. The snapshot's number is never ahead of the log, and as long as no more events than the
  log's capacity have followed it, the subscription opens and replays exactly the events since.
\<close>

theorem snapshot_can_be_followed:
  assumes built: "build_session send channel is_absolute sb = Inr st0"
    and run: "session_run (host_session_driver send) (host_background send) (False, st0) es (stopped, st)"
    and recent: "current_sequence_of (host_lg (driver st)) \<le>
       snap_last_sequence (snapshot st) + max (sb_event_capacity sb) 1"
  shows "\<exists>s. subscribe_from_snapshot (host_lg (driver st)) (snapshot st) = Inr s \<and>
     stream_cursor s = snap_last_sequence (snapshot st) \<and>
     map event_sequence (stream_replay s) =
       [Suc (snap_last_sequence (snapshot st))..<Suc (current_sequence_of (host_lg (driver st)))]"
proof -
  let ?n = "snap_last_sequence (snapshot st)" and ?lg = "host_lg (driver st)"
  note cursor = host_log.cursor_within_log [OF built_run [OF built run refl]]
  have n: "?n \<le> current_sequence_of ?lg" using cursor(1) by (simp add: host_driver_fields)
  have ok: "log_ok event_sequence ?lg" and cap: "log_capacity ?lg = max (sb_event_capacity sb) 1"
    using cursor(2) build_log_ok [of channel sb]
    by (auto simp: log_extends_def build_driver_def new_log_def with_sender_def)
  have "current_sequence_of ?lg - length (window ?lg) \<le> ?n"
    using ok cap recent n by (auto simp: log_ok_def Let_def current_sequence_of_def)
  then obtain fs where r: "replay_after event_sequence ?lg ?n = Inr fs"
    using n by (simp add: replay_after_eq [OF ok] current_sequence_of_def)
  from replay_after_ok(1) [OF ok r] r show ?thesis
    by (simp add: subscribe_from_snapshot_def subscribe_after_def open_stream_def new_stream_def del: upt_Suc)
qed

text \<open>
  A host session never loses its backend: in every reachable state the driver holds the host's
  state exactly when no turn is active. So an idle session accepts every prompt, and answers
  \<open>ActorStopped\<close> to none.
\<close>

theorem idle_host_session_accepts:
  fixes agent :: 'a
  assumes built: "build_session send channel is_absolute sb = Inr st0"
    and run: "session_run (host_session_driver send) (host_background send) (False, st0) es (False, st)"
    and idle: "snap_phase (snapshot st) = Idle"
  shows "\<exists>st'. handle_command (host_session_driver send) queued (StartTurn turn prompt agent acc outc) st =
       (False, st') \<and> snap_phase (snapshot st') = Running turn \<and>
       replies st' = replies st @ [Reply_unit acc (Inr ())]"
proof -
  let ?D = "host_session_driver send"
  note run' = built_run [OF built run refl]
  note ok = run_ok [OF run' start_session_ok]
  have holds: "host_holds st"
    using host_run [OF refl run'] by (simp add: start_session_ok build_holds)
  from phase_is_expected [OF ok] idle have "\<not> closing st" "active st = None"
    by (auto simp: expected_phase_def split: if_splits option.splits)
  with holds obtain s where s: "hd_state (driver st) = Some s" by (auto simp: host_holds_def)
  let ?ctx = "\<lparr>ctx_turn = turn, ctx_agent = agent, ctx_pending = disposition ?D prompt (pending_input st)\<rparr>"
  show ?thesis
  proof (cases rule: start_turn_cases [of ?D turn prompt agent acc outc st])
    case (rejected e d)
    then obtain x :: "'a turn_context" where "begin_turn ?D (driver st) prompt x = (Inl e, d)"
      using \<open>active st = None\<close> by (auto simp: host_driver_fields)
    with s show ?thesis by (simp add: host_driver_fields host_begin_turn_def)
  next
    case (admitted t d)
    with \<open>\<not> closing st\<close> show ?thesis
      by (simp add: handle_command_def send_reply_def)
  qed
qed

subsection \<open>A run\<close>

text \<open>
  A concrete session: a prompt is submitted, a second one is refused while the first is running,
  the turn is cancelled and completes, the session is shut down while a command is queued.
\<close>

definition demo_builder :: "(unit, unit) session_builder" where
  "demo_builder = (for_host (lit ''s'') (lit ''/w'') () ())\<lparr>sb_event_capacity := 2\<rparr>"

definition demo_driver :: "(unit, unit, unit) host_driver" where
  "demo_driver = build_driver (\<lambda>_. ()) demo_builder"

definition demo_D :: "((unit, unit, unit) host_driver, ustr, unit host_control, no_pending_input,
    (unit, unit) host_turn, unit, host_report) session_driver" where
  "demo_D = host_session_driver (\<lambda>b e. (None, b))"

definition demo_turn :: "(unit, unit) host_turn" where
  "demo_turn = new_host_turn (the (hd_state demo_driver)) (lit ''hi'')
     \<lparr>ctx_turn = lit ''t'', ctx_agent = (), ctx_pending = Disposition_None\<rparr>"

definition demo_completion :: "(unit, unit) host_turn turn_completion" where
  "demo_completion = \<lparr>completion_id = lit ''t'', completion_generation = 0,
     completion_turn = demo_turn, completion_result = Inr ()\<rparr>"

definition demo_events :: "(ustr, unit host_control, unit, (unit, unit) host_turn,
    (unit, unit, unit) host_driver) session_event list" where
  "demo_events =
     [Command_received (StartTurn (lit ''t'') (lit ''hi'') () 1 2) [],
      Command_received (StartTurn (lit ''u'') (lit ''no'') () 3 4) [],
      Command_received (StopTurn None Interrupt 5) [],
      Completion_received demo_completion,
      Command_received (Shutdown 6) [QueryState 7]]"

abbreviation demo_finish :: "(ustr, unit host_control, unit, (unit, unit) host_turn,
    (unit, unit, unit) host_driver) session_event" where
  "demo_finish \<equiv> Completion_received demo_completion"

abbreviation demo_start :: "bool \<times> ((unit, unit, unit) host_driver, no_pending_input, host_report) session_actor" where
  "demo_start \<equiv> (False, start_session demo_D (lit ''s'') demo_driver)"

definition demo_run where
  "demo_run es = run_steps (exec_step demo_D) demo_start es"

lemma demo_session_run: "demo_run es = Some s \<Longrightarrow> session_run demo_D bg demo_start es s"
  unfolding demo_run_def by (rule exec_sound)

lemma demo_step:
  assumes "demo_run es = Some s" "demo_run (es @ [e]) = Some t"
  shows "session_step demo_D bg s e t"
  using assms by (auto simp: demo_run_def run_steps_append intro: exec_step_sound split: option.splits)

theorem session_refines_phases_witness:
  "\<exists>s t. demo_run (take 3 demo_events) = Some s \<and> demo_run (take 3 demo_events @ [demo_finish]) = Some t \<and>
     phase_now s = Cancelling (lit ''t'') \<and> phase_now t = Idle \<and>
     phase_step (phase_now s) demo_finish (phase_now t)"
proof -
  have "map_option phase_now (demo_run (take 3 demo_events)) = Some (Cancelling (lit ''t''))"
    by code_simp
  then obtain s where s: "demo_run (take 3 demo_events) = Some s" "phase_now s = Cancelling (lit ''t'')"
    by auto
  have "map_option phase_now (demo_run (take 3 demo_events @ [demo_finish])) = Some Idle"
    by code_simp
  then obtain t where t: "demo_run (take 3 demo_events @ [demo_finish]) = Some t"
      "phase_now t = Idle" by auto
  note session_refines_phases [OF demo_session_run [OF s(1)] demo_step [OF s(1) t(1)]]
  with s t show ?thesis by (intro exI [of _ s] exI [of _ t]) simp
qed

theorem lifecycle_events_follow_protocol_witness:
  "\<exists>st. demo_run (take 4 demo_events) = Some (False, st) \<and>
     emitted st = [LTurnStarted (lit ''t''), LTurnStopped (lit ''t'') Interrupt] \<and>
     observe_all demo_D (emitted st) (None, None) = Some (None, None)"
proof -
  have "map_option (\<lambda>(b, st). (b, emitted st, map_option active_id (active st), pending_input st = None))
      (demo_run (take 4 demo_events)) =
      Some (False, [LTurnStarted (lit ''t''), LTurnStopped (lit ''t'') Interrupt], None, True)"
    by code_simp
  then obtain st where st: "demo_run (take 4 demo_events) = Some (False, st)"
      "emitted st = [LTurnStarted (lit ''t''), LTurnStopped (lit ''t'') Interrupt]"
      "map_option active_id (active st) = None" "pending_input st = None" by auto
  from lifecycle_events_follow_protocol [OF demo_session_run [OF st(1)]] st show ?thesis by simp
qed

theorem every_request_is_answered_once_witness:
  "\<exists>st. demo_run demo_events = Some (True, st) \<and> answered st = {#6, 7, 5, 3, 1#}"
proof -
  have "map_option fst (demo_run demo_events) = Some True" by code_simp
  then obtain st where st: "demo_run demo_events = Some (True, st)" by auto
  from every_request_is_answered_once [OF demo_session_run [OF st]] st show ?thesis
    by (simp add: demo_events_def)
qed

theorem started_turns_report_once_witness:
  "\<exists>st. demo_run (take 4 demo_events) = Some (False, st) \<and> started st = [Some (lit ''t'')] \<and>
     reported st = [Some (lit ''t'')]"
proof -
  have "map_option (\<lambda>(b, st). (b, started st, active st = None)) (demo_run (take 4 demo_events)) =
      Some (False, [Some (lit ''t'')], True)"
    by code_simp
  then obtain st where st: "demo_run (take 4 demo_events) = Some (False, st)"
      "started st = [Some (lit ''t'')]" "active st = None" by auto
  from started_turns_report_once [OF demo_session_run [OF st(1)]] st show ?thesis by simp
qed

theorem completion_tells_how_the_turn_ended_witness:
  "\<exists>st t out rest. demo_run (take 3 demo_events) = Some (False, st) \<and>
     session_step demo_D (\<lambda>_ _. False) (False, st) demo_finish t \<and>
     replies (snd t) = replies st @ Reply_outcome 2 (Inl (TurnInterrupted out)) # rest"
proof -
  have "map_option (\<lambda>(b, st). (b, map_option stop_kind (active st), map_option completion_channel (active st)))
      (demo_run (take 3 demo_events)) = Some (False, Some (Some Interrupt), Some 2)"
    by code_simp
  then obtain st a where st: "demo_run (take 3 demo_events) = Some (False, st)" "active st = Some a"
      "stop_kind a = Some Interrupt" "completion_channel a = 2" by auto
  have "map_option phase_now (demo_run (take 3 demo_events @ [demo_finish])) = Some Idle"
    by code_simp
  then obtain t where t: "demo_run (take 3 demo_events @ [demo_finish]) = Some t"
    by auto
  note step = demo_step [OF st(1) t, where bg = "\<lambda>_ _. False"]
  from completion_tells_how_the_turn_ended [OF demo_session_run [OF st(1)] step st(2)] st(3,4)
  obtain out rest where "replies (snd t) = replies st @ Reply_outcome 2 (Inl (TurnInterrupted out)) # rest"
    by auto
  with st(1) step show ?thesis by blast
qed

theorem snapshot_is_truthful_witness:
  "\<exists>st. demo_run (take 2 demo_events) = Some (False, st) \<and> snap_phase (snapshot st) = Running (lit ''t'')"
proof -
  have "map_option (\<lambda>(b, st). (b, closing st, map_option (\<lambda>a. (active_id a, cancellation a)) (active st)))
      (demo_run (take 2 demo_events)) = Some (False, False, Some (lit ''t'', False))"
    by code_simp
  then obtain st a where st: "demo_run (take 2 demo_events) = Some (False, st)" "\<not> closing st"
      "active st = Some a" "active_id a = lit ''t''" "\<not> cancellation a" by auto
  from snapshot_is_truthful [OF demo_session_run [OF st(1)]] st show ?thesis by simp
qed

theorem closing_session_stops_witness:
  "\<exists>st a st'. demo_run (take 2 demo_events @ [Commands_disconnected]) = Some (False, st) \<and> active st = Some a \<and>
     session_step demo_D (\<lambda>_ _. False) (False, st)
       (Completion_received \<lparr>completion_id = active_id a, completion_generation = generation st,
          completion_turn = demo_turn, completion_result = Inl []\<rparr>) (True, st')"
proof -
  have "map_option (\<lambda>(b, st). (b, closing st)) (demo_run (take 2 demo_events @ [Commands_disconnected])) =
      Some (False, True)"
    by code_simp
  then obtain st where st: "demo_run (take 2 demo_events @ [Commands_disconnected]) = Some (False, st)"
      "closing st" by auto
  from closing_session_stops [OF demo_session_run [OF st(1), where bg = "\<lambda>_ _. False"] st(2)] st(1)
  show ?thesis by blast
qed

lemma demo_built:
  "build_session (\<lambda>b e. (None, b)) (\<lambda>_. ()) (\<lambda>_. True) demo_builder = Inr (snd demo_start)"
proof -
  have "trim (sb_session_id demo_builder) \<noteq> []" "sb_session_id demo_builder = lit ''s''" by code_simp+
  then show ?thesis
    by (simp add: build_session_def demo_driver_def demo_D_def start_session_def host_driver_fields)
qed

theorem snapshot_can_be_followed_witness:
  "\<exists>st s. demo_run (take 4 demo_events) = Some (False, st) \<and>
     subscribe_from_snapshot (host_lg (driver st)) (snapshot st) = Inr s \<and> stream_cursor s = 2 \<and>
     stream_replay s = []"
proof -
  have "map_option (\<lambda>(b, st). (b, snap_last_sequence (snapshot st), current_sequence_of (host_lg (driver st))))
      (demo_run (take 4 demo_events)) = Some (False, 2, 2)"
    by code_simp
  then obtain st where st: "demo_run (take 4 demo_events) = Some (False, st)"
      "snap_last_sequence (snapshot st) = 2" "current_sequence_of (host_lg (driver st)) = 2" by auto
  from snapshot_can_be_followed [OF demo_built, of _ False st] demo_session_run [OF st(1)] st
  show ?thesis by (force simp: demo_D_def)
qed

theorem idle_host_session_accepts_witness:
  "\<exists>st st'. demo_run (take 4 demo_events) = Some (False, st) \<and>
     handle_command demo_D [] (StartTurn (lit ''v'') (lit ''go'') () 8 9) st = (False, st') \<and>
     replies st' = replies st @ [Reply_unit 8 (Inr ())]"
proof -
  have "map_option (\<lambda>(b, st). (b, snap_phase (snapshot st))) (demo_run (take 4 demo_events)) = Some (False, Idle)"
    by code_simp
  then obtain st where st: "demo_run (take 4 demo_events) = Some (False, st)" "snap_phase (snapshot st) = Idle"
    by auto
  from idle_host_session_accepts [OF demo_built, of "take 4 demo_events" st] demo_session_run [OF st(1)] st
  show ?thesis by (fastforce simp: demo_D_def)
qed

end
