(* ===== verification/HostTurn.thy ===== *)
theory HostTurn
  imports HostSession
begin

section \<open>The turn of a host session\<close>

text \<open>
  \<open>rara-runtime/src/native/host_turn.rs\<close>: the host of the agent loop in an embedded session. It repairs
  the transcript, appends the prompt and lets \<open>execute_loop\<close> drive it; every reply of a tool is
  committed to the transcript as soon as it is there. The provider, the tools, the clock and the
  cancellation flag are parameters on a world \<open>'x\<close>; text the code prints with \<open>{:?}\<close> is a parameter
  too. Accounting records of \<open>rara-observability\<close> are left out.
\<close>

record ('b, 'u, 'ch, 'x) host_env =
  env_ask :: "'b \<Rightarrow> message list \<Rightarrow> json list \<Rightarrow> 'x \<Rightarrow> (llm_stream_event list \<times> (ustr + llm_response)) \<times> 'x"
  env_label :: "'b \<Rightarrow> ustr option"
  env_fingerprint :: "'b \<Rightarrow> message list \<Rightarrow> json list \<Rightarrow> ustr option"
  env_schemas :: "'u \<Rightarrow> json list"
  env_has_tool :: "'u \<Rightarrow> ustr \<Rightarrow> bool"
  env_call_tool :: "'u \<Rightarrow> tool_call \<Rightarrow> 'x \<Rightarrow> (tool_progress_event list \<times> (tool_error + json)) \<times> 'x"
  env_cancelled :: "'x \<Rightarrow> bool"
  env_elapsed_ms :: "'x \<Rightarrow> nat"
  env_show_json :: "json \<Rightarrow> ustr"
  env_show_continuation :: "continuation \<Rightarrow> ustr"
  env_show_end :: "loop_end \<Rightarrow> ustr"
  env_send :: "'ch sender_of"

record ('b, 'u, 'ch, 'x) host_world =
  hw_turn :: "('b, 'u) host_turn"
  hw_events :: "'ch host_events"
  hw_x :: 'x

definition hw_transcript :: "('b, 'u, 'ch, 'x) host_world \<Rightarrow> message list" where
  "hw_transcript w = hs_transcript (ht_state (hw_turn w))"

definition push_message :: "message \<Rightarrow> ('b, 'u, 'ch, 'x) host_world \<Rightarrow> ('b, 'u, 'ch, 'x) host_world" where
  "push_message msg w = w\<lparr>hw_turn := (hw_turn w)\<lparr>ht_state := (ht_state (hw_turn w))
     \<lparr>hs_transcript := hw_transcript w @ [msg]\<rparr>\<rparr>\<rparr>"

definition publish_turn_event ::
  "('b, 'u, 'ch, 'x) host_env \<Rightarrow> runtime_event \<Rightarrow> ('b, 'u, 'ch, 'x) host_world \<Rightarrow> ('b, 'u, 'ch, 'x) host_world" where
  "publish_turn_event env ev w =
     w\<lparr>hw_events := host_publish (env_send env) (Some (ht_turn (hw_turn w))) ev (hw_events w)\<rparr>"

definition text_message :: "ustr \<Rightarrow> message" where
  "text_message t = \<lparr>role = lit ''user'',
     content = JArr [JObj [(lit ''type'', JStr (lit ''text'')), (lit ''text'', JStr t)]]\<rparr>"

subsection \<open>The model turn\<close>

definition from_provider_usage :: "token_usage \<Rightarrow> model_token_usage" where
  "from_provider_usage u = \<lparr>mtu_input = input_tokens u, mtu_output = output_tokens u,
     mtu_cache = (if cache_hit_tokens u \<noteq> 0 \<or> cache_miss_tokens u \<noteq> 0
                  then Some (cache_hit_tokens u, cache_miss_tokens u) else None)\<rparr>"

definition model_event_of :: "model_turn_event \<Rightarrow> runtime_event" where
  "model_event_of e = (case e of
     Streamed (TextDelta t) \<Rightarrow> AssistantEvent (NDelta t)
   | Streamed (ReasoningDelta t) \<Rightarrow> AssistantEvent (NThinkingDelta t)
   | AssistantText t \<Rightarrow> AssistantEvent (NText t)
   | ToolUseEvent call \<Rightarrow> ToolEvent (NUse (call_id call) (call_name call) (call_input call)))"

text \<open>\<open>as_millis().min(u64::MAX)\<close>\<close>

definition capped_ms :: "nat \<Rightarrow> nat" where
  "capped_ms n = min n u64_max"

lemma capped_ms_code [code]: "capped_ms n = nat (min (int n) 18446744073709551615)"
  by (simp add: capped_ms_def u64_max_def)

definition observe_host_response ::
  "('b, 'u, 'ch, 'x) host_env \<Rightarrow> ustr \<Rightarrow> ustr option \<Rightarrow> ustr + llm_response \<Rightarrow>
   ('b, 'u, 'ch, 'x) host_world \<Rightarrow> ('b, 'u, 'ch, 'x) host_world" where
  "observe_host_response env model fp r w = (case r of
     Inl _ \<Rightarrow> w
   | Inr resp \<Rightarrow> w\<lparr>hw_turn := (hw_turn w)\<lparr>ht_report := ht_report (hw_turn w) @
       [\<lparr>mtr_model = model, mtr_duration = capped_ms (env_elapsed_ms env (hw_x w)),
         mtr_finish_reason = stop_reason resp, mtr_usage = map_option from_provider_usage (usage resp),
         mtr_fingerprint = fp\<rparr>]\<rparr>\<rparr>)"

definition host_policy ::
  "('b, 'u, 'ch, 'x) host_env \<Rightarrow> ustr \<Rightarrow> ustr option \<Rightarrow> ('b, 'u, 'ch, 'x) host_world model_turn_policy" where
  "host_policy env model fp =
     (let ev = (\<lambda>e. publish_turn_event env (model_event_of e)) in
      \<lparr>on_event = ev, observe_response = observe_host_response env model fp,
       prepare_text = default_prepare_text ev, prepare_tool_input = default_prepare_tool_input,
       finish_response = retE ()\<rparr>)"

definition request_messages :: "('b, 'u, 'ch, 'x) host_world \<Rightarrow> message list" where
  "request_messages w =
     (case hs_system_prompt (ht_state (hw_turn w)) of
        None \<Rightarrow> []
      | Some p \<Rightarrow> [\<lparr>role = lit ''system'', content = JStr p\<rparr>]) @ hw_transcript w"

definition host_ask :: "('b, 'u, 'ch, 'x) host_env \<Rightarrow> 'b \<Rightarrow> ('b, 'u, 'ch, 'x) host_world backend" where
  "host_ask env b msgs tools w =
     (case env_ask env b msgs tools (hw_x w) of (r, x) \<Rightarrow> (r, w\<lparr>hw_x := x\<rparr>))"

definition host_request_model ::
  "('b, 'u, 'ch, 'x) host_env \<Rightarrow> loop_progress \<Rightarrow> (('b, 'u, 'ch, 'x) host_world, ustr, model_observation) em" where
  "host_request_model env p w =
     (let s = ht_state (hw_turn w); msgs = request_messages w; tools = env_schemas env (hs_tools s);
          pol = host_policy env (case env_label env (hs_backend s) of None \<Rightarrow> lit ''host'' | Some l \<Rightarrow> l)
                  (env_fingerprint env (hs_backend s) msgs tools) in
      bindE (execute_model_turn (\<lambda>w. env_cancelled env (hw_x w)) (host_ask env (hs_backend s)) pol msgs tools)
        (\<lambda>out. thenE (modifyE (\<lambda>w. w\<lparr>hw_turn := (hw_turn w)\<lparr>ht_assistant := assistant_message out,
              ht_calls := tool_calls out\<rparr>\<rparr>))
           (retE \<lparr>tool_call_count = length (tool_calls out), plan_exit_call_id = None, plan_updated = False,
              malformed_proposed_plan = False, continue_inspection = False,
              response = turn_evidence out\<rparr>)) w)"

definition default_context :: continuation_context where
  "default_context = \<lparr>mode = Execute, plan_steps = 0,
     inspection = \<lparr>has_any_evidence = False, has_minimum_review_evidence = False\<rparr>,
     pending = \<lparr>pending_user_input = False, pending_approval = False\<rparr>\<rparr>"

definition host_record_assistant ::
  "loop_progress \<Rightarrow> (('b, 'u, 'ch, 'x) host_world, ustr, continuation_context) em" where
  "host_record_assistant p w =
     (let a = ht_assistant (hw_turn w); w = w\<lparr>hw_turn := (hw_turn w)\<lparr>ht_assistant := None\<rparr>\<rparr> in
      (Inr default_context, case a of None \<Rightarrow> w | Some msg \<Rightarrow> push_message msg w))"

definition continue_text :: ustr where
  "continue_text = lit ''Continue the task. Return the result or call a tool to make progress.''"

definition host_continue_turn ::
  "('b, 'u, 'ch, 'x) host_env \<Rightarrow> continuation \<Rightarrow> loop_progress \<Rightarrow> (('b, 'u, 'ch, 'x) host_world, ustr, unit) em" where
  "host_continue_turn env c p w =
     (if c = Automatic ExecuteReasoningOnly \<or> c = Automatic ExecuteNeedsInspection
      then (Inr (), push_message (text_message continue_text) w)
      else (Inl (lit ''host execution received an unsupported continuation: '' @ env_show_continuation env c), w))"

definition host_run_stop_hooks ::
  "stop_hook_context \<Rightarrow> loop_progress \<Rightarrow> (('b, 'u, 'ch, 'x) host_world, ustr, stop_hook_outcome) em" where
  "host_run_stop_hooks ctx p = retE AllowCompletion"

subsection \<open>Tools\<close>

definition record_reply ::
  "('b, 'u, 'ch, 'x) host_env \<Rightarrow> tool_call \<Rightarrow> tool_reply \<Rightarrow> ('b, 'u, 'ch, 'x) host_world \<Rightarrow> ('b, 'u, 'ch, 'x) host_world" where
  "record_reply env call r w =
     publish_turn_event env
       (ToolEvent (NResult (call_id call) (call_name call) (reply_content r) (reply_is_error r)))
       (push_message (into_message r (call_id call)) w)"

definition host_prepare_call ::
  "('b, 'u, 'ch, 'x) host_env \<Rightarrow> tool_call \<Rightarrow> (('b, 'u, 'ch, 'x) host_world, ustr, tool_admission) em" where
  "host_prepare_call env call w =
     (if env_cancelled env (hw_x w) then (Inl (lit ''LLM turn cancelled by user''), w)
      else if \<not> env_has_tool env (hs_tools (ht_state (hw_turn w))) (call_name call) then
        (let r = reply_error (lit ''Error: unknown tool '' @ [39] @ call_name call @ [39])
         in (Inr (Reply r), record_reply env call r w))
      else (Inr Invoke, w))"

definition host_invoke_call ::
  "('b, 'u, 'ch, 'x) host_env \<Rightarrow> tool_call \<Rightarrow> ('b, 'u, 'ch, 'x) host_world \<Rightarrow>
   (tool_error + json) \<times> ('b, 'u, 'ch, 'x) host_world" where
  "host_invoke_call env call w =
     (if \<not> env_has_tool env (hs_tools (ht_state (hw_turn w))) (call_name call)
      then (Inl (ExecutionFailed (lit ''tool '' @ [39] @ call_name call @ [39] @ lit '' is unavailable'')), w)
      else (case env_call_tool env (hs_tools (ht_state (hw_turn w))) call (hw_x w) of ((chunks, r), x) \<Rightarrow>
        (r, fold (\<lambda>e. publish_turn_event env (ToolEvent (NProgress (call_id call) (call_name call) e)))
              chunks (w\<lparr>hw_x := x\<rparr>))))"

definition host_complete_call ::
  "('b, 'u, 'ch, 'x) host_env \<Rightarrow> tool_call \<Rightarrow> tool_error + json \<Rightarrow> (('b, 'u, 'ch, 'x) host_world, ustr, tool_reply) em" where
  "host_complete_call env call result w =
     (let r = (case result of
                 Inr v \<Rightarrow> reply_success (env_show_json env v)
               | Inl e \<Rightarrow> reply_error (lit ''Error: '' @ show_tool_error e))
      in (Inr r, record_reply env call r w))"

definition host_batch :: "('b, 'u, 'ch, 'x) host_env \<Rightarrow> ('b, 'u, 'ch, 'x) host_world tool_batch_effects" where
  "host_batch env = \<lparr>begin_batch = (\<lambda>_. retE ()), prepare_call = host_prepare_call env,
     invoke_call = host_invoke_call env, complete_call = host_complete_call env\<rparr>"

definition host_run_tools ::
  "('b, 'u, 'ch, 'x) host_env \<Rightarrow> loop_progress \<Rightarrow> (('b, 'u, 'ch, 'x) host_world, ustr, tool_batch_outcome) em" where
  "host_run_tools env p w =
     (let calls = ht_calls (hw_turn w); w = w\<lparr>hw_turn := (hw_turn w)\<lparr>ht_calls := []\<rparr>\<rparr> in
      bindE (execute_tool_batch (host_batch env) calls) (\<lambda>out. retE (batch_outcome out)) w)"

definition host_finalize ::
  "('b, 'u, 'ch, 'x) host_env \<Rightarrow> loop_end \<Rightarrow> loop_progress \<Rightarrow> (('b, 'u, 'ch, 'x) host_world, ustr, unit) em" where
  "host_finalize env e p w = (case e of
     ResponseComplete \<Rightarrow> (Inr (), w)
   | MaxTurnsReached limit \<Rightarrow> (Inr (), publish_turn_event env
       (StatusEvent (lit ''Agent reached max-turns limit ('' @ dec limit @ lit '')'')) w)
   | _ \<Rightarrow> (Inl (lit ''host execution received an unsupported finalization: '' @ env_show_end env e), w))"

definition host_effects :: "('b, 'u, 'ch, 'x) host_env \<Rightarrow> ('b, 'u, 'ch, 'x) host_world loop_effects" where
  "host_effects env =
     \<lparr>host_budget = (\<lambda>w. \<lparr>max_turns = hs_max_turns (ht_state (hw_turn w)), token_budget = None,
        total_model_tokens = 0\<rparr>),
      request_model = host_request_model env, record_assistant = host_record_assistant,
      continue_turn = host_continue_turn env, run_stop_hooks = host_run_stop_hooks,
      run_tools = host_run_tools env, commit_tool_results = (\<lambda>_. retE ()), finalize_host = host_finalize env\<rparr>"

subsection \<open>The whole turn\<close>

definition start_prompt :: "ustr \<Rightarrow> ('b, 'u, 'ch, 'x) host_world \<Rightarrow> ('b, 'u, 'ch, 'x) host_world" where
  "start_prompt prompt w =
     push_message (text_message prompt)
       (w\<lparr>hw_turn := (hw_turn w)\<lparr>ht_prompt := None,
            ht_state := (ht_state (hw_turn w))\<lparr>hs_transcript := repair_tool_result_history (hw_transcript w)\<rparr>\<rparr>\<rparr>)"

definition run_host_turn ::
  "('b, 'u, 'ch, 'x) host_env \<Rightarrow> nat \<Rightarrow> ('b, 'u, 'ch, 'x) host_world \<Rightarrow>
   ((loop_error + unit) \<times> ('b, 'u, 'ch, 'x) host_world) option" where
  "run_host_turn env fuel w =
     (case ht_prompt (hw_turn w) of
        None \<Rightarrow> Some (Inl (HostError (lit ''host session turn executed twice'')), w)
      | Some prompt \<Rightarrow>
          (case execute_loop (host_effects env) fuel (start_prompt prompt w) \<lparr>agentic_turns = 0\<rparr> of
             None \<Rightarrow> None
           | Some (Inl e, w', _) \<Rightarrow> Some (Inl e, w')
           | Some (Inr _, w', _) \<Rightarrow> Some (Inr (), w')))"

subsection \<open>Owing results\<close>

text \<open>The calls a transcript still owes results for; \<open>None\<close> when it breaks the protocol.\<close>

fun owing :: "message list \<Rightarrow> ustr list \<Rightarrow> ustr list option" where
  "owing [] due = Some due"
| "owing (m # ms) due =
     (if role m = lit ''assistant'' then
        (if due = [] then owing ms (tool_use_ids_in_blocks (message_blocks m)) else None)
      else if is_result_message m then
        (case consume (message_blocks m) due of None \<Rightarrow> None | Some p \<Rightarrow> owing ms p)
      else owing ms due)"

lemma owing_paired: "paired ms due \<longleftrightarrow> owing ms due = Some []"
  by (induction ms due rule: owing.induct) (auto split: option.split)

lemma owing_append: "owing (xs @ ys) p = Option.bind (owing xs p) (owing ys)"
  by (induction xs p rule: owing.induct) (auto split: option.split)

lemma text_message_simps [simp]:
  "role (text_message t) \<noteq> lit ''assistant''" "\<not> is_result_message (text_message t)"
  by (simp_all add: text_message_def is_result_message_def has_tool_result_block_def is_block_def jstr_def as_str_def
      lit_def)

lemma into_message_simps [simp]:
  "role (into_message r i) \<noteq> lit ''assistant''"
  "is_result_message (into_message r i)"
  "consume (message_blocks (into_message r i)) (i # p) = Some p"
  by (simp_all add: into_message_def is_result_message_def has_tool_result_block_def is_block_def jstr_def as_str_def
      lit_def)

lemma owing_text: "owing ts [] = Some p \<Longrightarrow> owing (ts @ [text_message t]) [] = Some p"
  by (simp add: owing_append)

lemma owing_reply: "owing ts [] = Some (i # p) \<Longrightarrow> owing (ts @ [into_message r i]) [] = Some p"
  by (simp add: owing_append)

lemma owing_assistant:
  assumes "owing ts [] = Some []" "role m = lit ''assistant''" "tool_use_ids_in_blocks (message_blocks m) = ids"
  shows "owing (ts @ [m]) [] = Some ids"
  using assms by (simp add: owing_append)

subsection \<open>What the model is shown\<close>

text \<open>The same environment, which also writes down the messages of every model request.\<close>

definition watched :: "('b, 'u, 'ch, 'x) host_env \<Rightarrow> ('b, 'u, 'ch, 'x \<times> message list list) host_env" where
  "watched env = \<lparr>
     env_ask = (\<lambda>b msgs tools (x, log). case env_ask env b msgs tools x of (r, x') \<Rightarrow> (r, x', log @ [msgs])),
     env_label = env_label env, env_fingerprint = env_fingerprint env, env_schemas = env_schemas env,
     env_has_tool = env_has_tool env,
     env_call_tool = (\<lambda>u c (x, log). case env_call_tool env u c x of (r, x') \<Rightarrow> (r, x', log)),
     env_cancelled = (\<lambda>(x, log). env_cancelled env x), env_elapsed_ms = (\<lambda>(x, log). env_elapsed_ms env x),
     env_show_json = env_show_json env, env_show_continuation = env_show_continuation env,
     env_show_end = env_show_end env, env_send = env_send env\<rparr>"

abbreviation requests_of :: "('b, 'u, 'ch, 'x \<times> message list list) host_world \<Rightarrow> message list list" where
  "requests_of w \<equiv> snd (hw_x w)"

text \<open>Steps that leave the transcript and the requests alone.\<close>

definition calm :: "('b, 'u, 'ch, 'x \<times> message list list) host_world \<Rightarrow>
    ('b, 'u, 'ch, 'x \<times> message list list) host_world \<Rightarrow> bool" where
  "calm w w' \<longleftrightarrow> hw_transcript w' = hw_transcript w \<and> requests_of w' = requests_of w"

lemma calm_refl [simp]: "calm w w"
  by (simp add: calm_def)

lemma calm_trans: "calm a b \<Longrightarrow> calm b c \<Longrightarrow> calm a c"
  by (simp add: calm_def)

lemma publish_calm [simp]: "calm w (publish_turn_event env ev w)"
  by (simp add: calm_def publish_turn_event_def hw_transcript_def)

lemma fold_publish_calm: "calm w (fold (\<lambda>e. publish_turn_event env (f e)) es w)"
  by (induction es arbitrary: w) (auto intro: calm_trans [OF publish_calm])

lemma observe_calm: "calm w (observe_host_response env model fp r w)"
  by (simp add: calm_def observe_host_response_def hw_transcript_def split: sum.split)

lemma collect_block_calm:
  "collect_block (host_policy env model fp) stream b c w = (r, w') \<Longrightarrow> calm w w'"
  by (cases b)
    (auto simp: collect_block_def host_policy_def default_prepare_text_def default_prepare_tool_input_def
      em_simps Let_def split: if_splits)

lemma collect_blocks_calm:
  "collect_blocks (host_policy env model fp) stream bs c w = (r, w') \<Longrightarrow> calm w w'"
proof (induction bs arbitrary: c w)
  case (Cons b bs)
  obtain r1 w1 where b: "collect_block (host_policy env model fp) stream b c w = (r1, w1)" by fastforce
  show ?case
  proof (cases r1)
    case (Inl e)
    with Cons.prems b collect_block_calm [OF b] show ?thesis by (simp add: em_simps)
  next
    case (Inr c1)
    with Cons.prems b have "collect_blocks (host_policy env model fp) stream bs c1 w1 = (r, w')"
      by (simp add: em_simps)
    from calm_trans [OF collect_block_calm [OF b] Cons.IH [OF this]] show ?thesis .
  qed
qed simp

text \<open>A step that asks the model at most once, with these messages.\<close>

definition asks :: "message list \<Rightarrow> ('b, 'u, 'ch, 'x \<times> message list list) host_world \<Rightarrow>
    ('b, 'u, 'ch, 'x \<times> message list list) host_world \<Rightarrow> bool" where
  "asks msgs w w' \<longleftrightarrow> hw_transcript w' = hw_transcript w \<and>
     (requests_of w' = requests_of w \<or> requests_of w' = requests_of w @ [msgs])"

lemma asks_calm: "asks msgs a b \<Longrightarrow> calm b c \<Longrightarrow> asks msgs a c"
  by (auto simp: asks_def calm_def)

lemma calm_asks: "calm a b \<Longrightarrow> asks msgs a b"
  by (auto simp: asks_def calm_def)

lemma host_ask_asks: "host_ask (watched env) b msgs tools w = (r, w') \<Longrightarrow> asks msgs w w'"
  by (cases "hw_x w")
    (auto simp: host_ask_def watched_def asks_def hw_transcript_def split: prod.splits)

lemma ask_model_asks:
  assumes "ask_model cancelled (host_ask (watched env) b) (host_policy (watched env) model fp) msgs tools w = (r, w')"
  shows "asks msgs w w'"
proof (cases "cancelled w")
  case True
  with assms show ?thesis by (auto simp: ask_model_def intro: calm_asks)
next
  case False
  obtain evs resp w1 where a: "host_ask (watched env) b msgs tools w = ((evs, resp), w1)"
    by (metis surj_pair)
  have "w' = fold (\<lambda>e. publish_turn_event (watched env) (model_event_of (Streamed e))) evs w1"
    using assms False a by (simp add: ask_model_def host_policy_def Let_def)
  with asks_calm [OF host_ask_asks [OF a] fold_publish_calm] show ?thesis by simp
qed

lemma model_turn_asks:
  assumes "execute_model_turn cancelled (host_ask (watched env) b) (host_policy (watched env) model fp) msgs tools w
    = (r, w')"
  shows "asks msgs w w'"
proof -
  obtain stream r1 w1 where a: "ask_model cancelled (host_ask (watched env) b) (host_policy (watched env) model fp)
      msgs tools w = ((stream, r1), w1)" by (metis surj_pair)
  let ?w2 = "observe_host_response (watched env) model fp r1 w1"
  have w2: "asks msgs w ?w2" by (rule asks_calm [OF ask_model_asks [OF a] observe_calm])
  have o: "observe_response (host_policy (watched env) model fp) = observe_host_response (watched env) model fp"
    "finish_response (host_policy (watched env) model fp) = retE ()"
    by (simp_all add: host_policy_def Let_def)
  show ?thesis
  proof (cases r1)
    case (Inl e)
    with assms a w2 show ?thesis by (simp add: execute_model_turn_def o)
  next
    case (Inr resp)
    let ?c0 = "\<lparr>col_evidence = \<lparr>had_text_response = False, had_reasoning_response = reasoning_delta stream\<rparr>,
                 col_calls = [], col_content = []\<rparr>"
    obtain r3 w3 where c: "collect_blocks (host_policy (watched env) model fp) stream (response_content resp) ?c0 ?w2
        = (r3, w3)" by fastforce
    have "w' = w3"
      using assms a Inr c by (cases r3) (simp_all add: execute_model_turn_def o em_simps)
    with asks_calm [OF w2 collect_blocks_calm [OF c]] show ?thesis by simp
  qed
qed

subsection \<open>Tools commit their replies\<close>

lemma record_reply_transcript [simp]:
  "hw_transcript (record_reply env call r w) = hw_transcript w @ [into_message r (call_id call)]"
  "hw_x (record_reply env call r w) = hw_x w"
  by (simp_all add: record_reply_def publish_turn_event_def push_message_def hw_transcript_def)

lemma invoke_calm:
  assumes "host_invoke_call (watched env) call w = (r, w')"
  shows "calm w w'"
proof (cases "env_has_tool (watched env) (hs_tools (ht_state (hw_turn w))) (call_name call)")
  case True
  obtain chunks res x where t: "env_call_tool (watched env) (hs_tools (ht_state (hw_turn w))) call (hw_x w)
      = ((chunks, res), x)" by (metis surj_pair)
  have "snd x = requests_of w" using t by (cases "hw_x w") (auto simp: watched_def split: prod.splits)
  then have "calm w (w\<lparr>hw_x := x\<rparr>)" by (simp add: calm_def hw_transcript_def)
  from calm_trans [OF this fold_publish_calm] show ?thesis
    using assms True t by (auto simp: host_invoke_call_def)
next
  case False
  with assms show ?thesis by (auto simp: host_invoke_call_def)
qed

lemma host_prepare_cases:
  "(\<exists>e. host_prepare_call env c w = (Inl e, w)) \<or>
   (\<exists>rep. host_prepare_call env c w = (Inr (Reply rep), record_reply env c rep w)) \<or>
   host_prepare_call env c w = (Inr Invoke, w)"
  by (simp add: host_prepare_call_def Let_def)

text \<open>While a batch runs, the transcript owes exactly the results of the calls that remain.\<close>

lemma host_batch_loop:
  assumes "batch_loop (host_batch (watched env)) calls msgs w = (r, w')"
    and "owing (hw_transcript w) [] = Some (map call_id calls)"
  shows "requests_of w' = requests_of w \<and>
     (\<forall>out. r = Inr out \<longrightarrow> owing (hw_transcript w') [] = Some [] \<and> batch_outcome out = ResultsAvailable)"
  using assms
proof (induction calls arbitrary: msgs w)
  case Nil
  then show ?case by auto
next
  case (Cons c cs)
  note owe = Cons.prems(2)
  have prep: "prepare_call (host_batch (watched env)) = host_prepare_call (watched env)"
    "invoke_call (host_batch (watched env)) = host_invoke_call (watched env)"
    "complete_call (host_batch (watched env)) = host_complete_call (watched env)"
    by (simp_all add: host_batch_def)
  consider (cancelled) e where "host_prepare_call (watched env) c w = (Inl e, w)"
    | (unknown) rep where "host_prepare_call (watched env) c w = (Inr (Reply rep), record_reply (watched env) c rep w)"
    | (known) "host_prepare_call (watched env) c w = (Inr Invoke, w)"
    using host_prepare_cases [of "watched env" c w] by blast
  then show ?case
  proof cases
    case cancelled
    with Cons.prems show ?thesis by (auto simp: em_simps prep)
  next
    case unknown
    have o: "owing (hw_transcript (record_reply (watched env) c rep w)) [] = Some (map call_id cs)"
      using owe by (simp add: owing_reply)
    have b: "batch_loop (host_batch (watched env)) cs (msgs @ [into_message rep (call_id c)])
        (record_reply (watched env) c rep w) = (r, w')"
      using Cons.prems(1) unknown by (simp add: em_simps prep)
    from Cons.IH [OF b o] show ?thesis by simp
  next
    case known
    obtain res w1 where inv: "host_invoke_call (watched env) c w = (res, w1)" by fastforce
    obtain rep where com: "host_complete_call (watched env) c res w1 = (Inr rep, record_reply (watched env) c rep w1)"
      by (simp add: host_complete_call_def Let_def)
    have calm: "calm w w1" by (rule invoke_calm [OF inv])
    then have o: "owing (hw_transcript (record_reply (watched env) c rep w1)) [] = Some (map call_id cs)"
      using owe by (simp add: owing_reply calm_def)
    have b: "batch_loop (host_batch (watched env)) cs (msgs @ [into_message rep (call_id c)])
        (record_reply (watched env) c rep w1) = (r, w')"
      using Cons.prems(1) known inv com by (simp add: em_simps prep invoke_and_complete_def)
    from Cons.IH [OF b o] calm show ?thesis by (simp add: calm_def)
  qed
qed

subsection \<open>The loop\<close>

definition shown_paired :: "('b, 'u, 'ch, 'x \<times> message list list) host_world \<Rightarrow> bool" where
  "shown_paired w \<longleftrightarrow> (\<forall>msgs \<in> set (requests_of w). paired msgs [])"

definition assistant_ready :: "loop_machine \<Rightarrow> ('b, 'u) host_turn \<Rightarrow> bool" where
  "assistant_ready m t \<longleftrightarrow>
     (\<exists>obs. state m = AssistantPending obs \<and> tool_call_count obs = length (ht_calls t)) \<and>
     (case ht_assistant t of
        None \<Rightarrow> ht_calls t = []
      | Some msg \<Rightarrow> role msg = lit ''assistant'' \<and>
          tool_use_ids_in_blocks (message_blocks msg) = map call_id (ht_calls t))"

text \<open>What the transcript owes when an effect is requested.\<close>

definition turn_inv ::
  "loop_request \<Rightarrow> loop_machine \<Rightarrow> ('b, 'u, 'ch, 'x \<times> message list list) host_world \<Rightarrow> bool" where
  "turn_inv req m w \<longleftrightarrow> shown_paired w \<and> (case effect req of
     RecordAssistant \<Rightarrow> owing (hw_transcript w) [] = Some [] \<and> assistant_ready m (hw_turn w)
   | RunTools \<Rightarrow> owing (hw_transcript w) [] = Some (map call_id (ht_calls (hw_turn w)))
   | _ \<Rightarrow> owing (hw_transcript w) [] = Some [])"

lemma request_paired:
  assumes "owing (hw_transcript w) [] = Some []"
  shows "paired (request_messages w) []"
  using assms
  by (simp add: request_messages_def owing_paired is_result_message_def lit_def split: option.split)

lemma shown_asks: "shown_paired w \<Longrightarrow> asks msgs w w' \<Longrightarrow> paired msgs [] \<Longrightarrow> shown_paired w'"
  by (auto simp: shown_paired_def asks_def)

lemma settled_request:
  "effect q \<notin> {RecordAssistant, RunTools} \<Longrightarrow>
     turn_inv q m w \<longleftrightarrow> shown_paired w \<and> owing (hw_transcript w) [] = Some []"
  by (cases "effect q") (simp_all add: turn_inv_def)

lemma next_iteration_effect:
  "next_iteration n b m = (Inr q, m') \<Longrightarrow> effect q \<notin> {RecordAssistant, RunTools}"
  by (auto simp: next_iteration_def finalize_def request_def set_state_def em_simps split: option.splits)

lemma checkpoint_effect:
  "checkpoint_completed i b m = (Inr q, m') \<Longrightarrow> effect q \<notin> {RecordAssistant, RunTools}"
  by (auto simp: checkpoint_completed_def wrong_phase_def em_simps dest: next_iteration_effect
      split: loop_state.splits prod.splits sum.splits)

lemma hooks_effect:
  "stop_hooks_completed i out m = (Inr q, m') \<Longrightarrow> effect q \<notin> {RecordAssistant, RunTools}"
  by (auto simp: stop_hooks_completed_def finalize_def continue_with_def request_def set_state_def em_simps
      split: stop_hook_outcome.splits prod.splits sum.splits if_splits)

lemma tools_effect:
  "tools_completed i out m = (Inr q, m') \<Longrightarrow> effect q \<notin> {RecordAssistant, RunTools}"
  by (auto simp: tools_completed_def finalize_def request_def set_state_def em_simps
      split: tool_batch_outcome.splits prod.splits sum.splits)

lemma model_effect:
  assumes "model_completed i obs m = (Inr q, m')" "plan_exit_call_id obs = None"
  shows "effect q = RecordAssistant" "state m' = AssistantPending obs"
  using assms
  by (auto simp: model_completed_def request_def set_state_def em_simps split: prod.splits sum.splits)

lemma assistant_effect:
  assumes "assistant_recorded i ctx m = (Inr q, m')" "state m = AssistantPending obs"
  shows "(tool_call_count obs > 0 \<longrightarrow> effect q = RunTools) \<and>
     (tool_call_count obs = 0 \<longrightarrow> effect q \<notin> {RecordAssistant, RunTools})"
  using assms
  by (auto simp: assistant_recorded_def require_effect_def next_effect_id_def increment_turn_def request_def
      set_state_def continue_with_def wrong_phase_def okOrE_def em_simps
      split: prod.splits sum.splits if_splits option.splits)

lemma push_message_simps [simp]:
  "hw_transcript (push_message msg w) = hw_transcript w @ [msg]"
  "hw_x (push_message msg w) = hw_x w"
  "ht_calls (hw_turn (push_message msg w)) = ht_calls (hw_turn w)"
  by (simp_all add: push_message_def hw_transcript_def)

lemma turn_field_simps [simp]:
  "hw_transcript (w\<lparr>hw_turn := (hw_turn w)\<lparr>ht_assistant := a\<rparr>\<rparr>) = hw_transcript w"
  "hw_transcript (w\<lparr>hw_turn := (hw_turn w)\<lparr>ht_calls := cs\<rparr>\<rparr>) = hw_transcript w"
  "hw_transcript (w\<lparr>hw_turn := (hw_turn w)\<lparr>ht_assistant := a, ht_calls := cs\<rparr>\<rparr>) = hw_transcript w"
  by (simp_all add: hw_transcript_def)

lemma host_effects_fields:
  "request_model (host_effects env) = host_request_model env"
  "record_assistant (host_effects env) = host_record_assistant"
  "continue_turn (host_effects env) = host_continue_turn env"
  "run_stop_hooks (host_effects env) = host_run_stop_hooks"
  "run_tools (host_effects env) = host_run_tools env"
  "commit_tool_results (host_effects env) p = retE ()"
  "finalize_host (host_effects env) = host_finalize env"
  by (simp_all only: host_effects_def loop_effects.simps)

lemma request_model_step:
  assumes inv: "shown_paired w" "owing (hw_transcript w) [] = Some []"
    and r: "host_request_model (watched env) p w = (r, w')"
  shows "shown_paired w'"
    and "\<And>obs. r = Inr obs \<Longrightarrow> plan_exit_call_id obs = None \<and> owing (hw_transcript w') [] = Some [] \<and>
           (state m = AssistantPending obs \<longrightarrow> assistant_ready m (hw_turn w'))"
proof -
  let ?s = "ht_state (hw_turn w)"
  let ?msgs = "request_messages w" and ?tools = "env_schemas (watched env) (hs_tools ?s)"
  let ?pol = "host_policy (watched env) (case env_label (watched env) (hs_backend ?s) of None \<Rightarrow> lit ''host'' | Some l \<Rightarrow> l)
                  (env_fingerprint (watched env) (hs_backend ?s) ?msgs ?tools)"
  obtain r1 w1 where t: "execute_model_turn (\<lambda>w. env_cancelled (watched env) (hw_x w))
      (host_ask (watched env) (hs_backend ?s)) ?pol ?msgs ?tools w = (r1, w1)" by fastforce
  note asked = model_turn_asks [OF t]
  have shown: "shown_paired w1" by (rule shown_asks [OF inv(1) asked request_paired [OF inv(2)]])
  have w': "w' = (case r1 of Inl e \<Rightarrow> w1 | Inr out \<Rightarrow>
      w1\<lparr>hw_turn := (hw_turn w1)\<lparr>ht_assistant := assistant_message out, ht_calls := tool_calls out\<rparr>\<rparr>)"
    and obs: "r = (case r1 of Inl e \<Rightarrow> Inl e | Inr out \<Rightarrow>
      Inr \<lparr>tool_call_count = length (tool_calls out), plan_exit_call_id = None, plan_updated = False,
              malformed_proposed_plan = False, continue_inspection = False, response = turn_evidence out\<rparr>)"
    using r t by (auto simp: host_request_model_def Let_def em_simps split: sum.splits)
  show "shown_paired w'" using shown by (auto simp: w' shown_paired_def split: sum.split)
  show "plan_exit_call_id obs = None \<and> owing (hw_transcript w') [] = Some [] \<and>
           (state m = AssistantPending obs \<longrightarrow> assistant_ready m (hw_turn w'))" if "r = Inr obs" for obs
  proof -
    from that obs obtain out where out: "r1 = Inr out" by (cases r1) auto
    obtain c where "calls_agree c" "tool_calls out = col_calls c"
      "assistant_message out = (if had_text_response (col_evidence c) \<or> col_calls c \<noteq> []
         then Some \<lparr>role = lit ''assistant'', content = JArr (map block_json (col_content c))\<rparr> else None)"
      by (rule model_turn_collected [OF t [unfolded out]])
    with that obs out w' inv(2) asked show ?thesis
      by (auto simp: assistant_ready_def ids_of_blocks calls_agree_def asks_def)
  qed
qed

lemma record_assistant_step:
  assumes "host_record_assistant p w = (r, w')" "assistant_ready m (hw_turn w)"
    and "owing (hw_transcript w) [] = Some []" "shown_paired w"
  shows "shown_paired w'" and "owing (hw_transcript w') [] = Some (map call_id (ht_calls (hw_turn w')))"
    and "ht_calls (hw_turn w') = ht_calls (hw_turn w)"
proof -
  note f = assms(1,3,4)
  show "shown_paired w'"
    using f by (auto simp: host_record_assistant_def shown_paired_def Let_def split: option.splits)
  show calls: "ht_calls (hw_turn w') = ht_calls (hw_turn w)"
    using f by (auto simp: host_record_assistant_def Let_def split: option.splits)
  show "owing (hw_transcript w') [] = Some (map call_id (ht_calls (hw_turn w')))"
    using f assms(2) unfolding calls
    by (auto simp: host_record_assistant_def assistant_ready_def Let_def owing_assistant split: option.splits)
qed

lemma run_tools_step:
  assumes "host_run_tools (watched env) p w = (r, w')"
    and "owing (hw_transcript w) [] = Some (map call_id (ht_calls (hw_turn w)))" "shown_paired w"
  shows "shown_paired w'" and "\<And>out. r = Inr out \<Longrightarrow> owing (hw_transcript w') [] = Some []"
proof -
  let ?w = "w\<lparr>hw_turn := (hw_turn w)\<lparr>ht_calls := []\<rparr>\<rparr>"
  obtain r1 w1 where b: "batch_loop (host_batch (watched env)) (ht_calls (hw_turn w)) [] ?w = (r1, w1)" by fastforce
  have eq: "w1 = w'" "r = (case r1 of Inl e \<Rightarrow> Inl e | Inr out \<Rightarrow> Inr (batch_outcome out))"
    using assms(1) b
    by (auto simp: host_run_tools_def execute_tool_batch_def host_batch_def em_simps Let_def split: sum.splits)
  note loop = host_batch_loop [OF b]
  show "shown_paired w'" using loop assms(2,3) eq by (simp add: shown_paired_def)
  show "owing (hw_transcript w') [] = Some []" if "r = Inr out" for out
    using loop assms(2) eq that by (auto split: sum.splits)
qed

text \<open>Steps after which nothing is owed lead to requests that start from there.\<close>

lemma settled_pass:
  assumes "from_host (r, w1) (\<lambda>a h. from_machine (k a h) h) m = (res, w', m')"
    and "shown_paired w1" "\<And>a. r = Inr a \<Longrightarrow> owing (hw_transcript w1) [] = Some []"
    and "\<And>a h q n. k a h = (Inr q, n) \<Longrightarrow> effect q \<notin> {RecordAssistant, RunTools}"
  shows "shown_paired w' \<and> (\<forall>q. res = NextRequest q \<longrightarrow> turn_inv q m' w')"
proof (cases r)
  case (Inl e)
  with assms show ?thesis by (auto simp: from_host_def)
next
  case (Inr a)
  show ?thesis
  proof (cases "k a w1")
    case (Pair x n)
    with Inr assms show ?thesis by (cases x) (auto simp: from_host_def from_machine_def settled_request)
  qed
qed

lemma continue_turn_step:
  "host_continue_turn env c p w = (r, w') \<Longrightarrow> shown_paired w \<Longrightarrow> owing (hw_transcript w) [] = Some [] \<Longrightarrow>
     shown_paired w' \<and> owing (hw_transcript w') [] = Some []"
  by (auto simp: host_continue_turn_def shown_paired_def owing_text split: if_splits)

lemma finalize_step:
  assumes "host_finalize env e p w = (r, w')" "shown_paired w"
  shows "shown_paired w'"
proof -
  have "calm w w'" using assms(1) by (cases e) (auto simp: host_finalize_def)
  with assms(2) show ?thesis by (simp add: calm_def shown_paired_def)
qed

lemma loop_body_inv:
  assumes step: "loop_body (host_effects (watched env)) req w m = (res, w', m')" and inv: "turn_inv req m w"
  shows "shown_paired w' \<and> (\<forall>q. res = NextRequest q \<longrightarrow> turn_inv q m' w')"
proof (cases "effect req")
  case RequestModel
  obtain r w1 where r: "host_request_model (watched env) (progress m) w = (r, w1)" by fastforce
  have w: "shown_paired w" "owing (hw_transcript w) [] = Some []" using inv RequestModel by (auto simp: turn_inv_def)
  note after = request_model_step [OF w r]
  show ?thesis
  proof (cases r)
    case (Inl e)
    with step RequestModel r after(1) show ?thesis
      by (auto simp: loop_body_def host_effects_fields from_host_def Let_def)
  next
    case (Inr obs)
    obtain x n where mc: "model_completed (request_id req) obs m = (x, n)" by fastforce
    have res: "w' = w1" "m' = n" "res = (case x of Inl e \<Rightarrow> Failed (Transition e) | Inr q \<Rightarrow> NextRequest q)"
      using step RequestModel r Inr mc
      by (auto simp: loop_body_def host_effects_fields from_host_def from_machine_def Let_def split: sum.splits)
    show ?thesis
    proof (cases x)
      case (Inr q)
      from model_effect [OF mc [unfolded Inr]] after(2) [OF \<open>r = Inr obs\<close>]
      show ?thesis using after(1) res Inr by (auto simp: turn_inv_def)
    qed (use res after(1) in auto)
  qed
next
  case RecordAssistant
  obtain r w1 where r: "host_record_assistant (progress m) w = (r, w1)" by fastforce
  have ready: "assistant_ready m (hw_turn w)" "owing (hw_transcript w) [] = Some []" "shown_paired w"
    using inv RecordAssistant by (auto simp: turn_inv_def)
  note after = record_assistant_step [OF r ready]
  obtain obs where obs: "state m = AssistantPending obs" "tool_call_count obs = length (ht_calls (hw_turn w))"
    using ready(1) by (auto simp: assistant_ready_def)
  obtain ctx where ctx: "r = Inr ctx" using r by (auto simp: host_record_assistant_def Let_def)
  obtain x n where ar: "assistant_recorded (request_id req) ctx m = (x, n)" by fastforce
  have res: "w' = w1" "m' = n" "res = (case x of Inl e \<Rightarrow> Failed (Transition e) | Inr q \<Rightarrow> NextRequest q)"
    using step RecordAssistant r ctx ar
    by (auto simp: loop_body_def host_effects_fields from_host_def from_machine_def Let_def split: sum.splits)
  show ?thesis
  proof (cases x)
    case (Inr q)
    have "turn_inv q n w1"
    proof (cases "tool_call_count obs = 0")
      case True
      with assistant_effect [OF ar [unfolded Inr] obs(1)] after obs(2) show ?thesis by (simp add: settled_request)
    next
      case False
      with assistant_effect [OF ar [unfolded Inr] obs(1)] after obs(2) show ?thesis by (simp add: turn_inv_def)
    qed
    with res Inr after(1) show ?thesis by simp
  qed (use res after(1) in auto)
next
  case (Continue c)
  obtain r w1 where r: "host_continue_turn (watched env) c (progress m) w = (r, w1)" by fastforce
  have "shown_paired w1 \<and> owing (hw_transcript w1) [] = Some []"
    using continue_turn_step [OF r] inv Continue by (simp add: turn_inv_def)
  note settled = this
  have "from_host (r, w1) (\<lambda>_ h. from_machine (checkpoint_completed (request_id req)
      (host_budget (host_effects (watched env)) h) m) h) m = (res, w', m')"
    using step Continue r by (simp add: loop_body_def host_effects_fields Let_def)
  from settled_pass [OF this] settled show ?thesis by (auto dest: checkpoint_effect)
next
  case (RunStopHooks a)
  then have "from_host (Inr AllowCompletion, w)
      (\<lambda>out h. from_machine (stop_hooks_completed (request_id req) out m) h) m = (res, w', m')"
    using step by (simp add: loop_body_def host_effects_fields host_run_stop_hooks_def retE_def Let_def)
  from settled_pass [OF this] inv RunStopHooks show ?thesis by (auto simp: turn_inv_def dest: hooks_effect)
next
  case RunTools
  obtain r w1 where r: "host_run_tools (watched env) (progress m) w = (r, w1)" by fastforce
  have "owing (hw_transcript w) [] = Some (map call_id (ht_calls (hw_turn w)))" "shown_paired w"
    using inv RunTools by (auto simp: turn_inv_def)
  note after = run_tools_step [OF r this]
  have "from_host (r, w1) (\<lambda>out h. from_machine (tools_completed (request_id req) out m) h) m = (res, w', m')"
    using step RunTools r by (simp add: loop_body_def host_effects_fields Let_def)
  from settled_pass [OF this] after show ?thesis by (auto dest: tools_effect)
next
  case CommitToolResults
  then have "from_host (Inr (), w) (\<lambda>_ h. from_machine (checkpoint_completed (request_id req)
      (host_budget (host_effects (watched env)) h) m) h) m = (res, w', m')"
    using step by (simp add: loop_body_def host_effects_fields retE_def Let_def)
  from settled_pass [OF this] inv CommitToolResults show ?thesis
    by (auto simp: turn_inv_def dest: checkpoint_effect)
next
  case (Finalize e)
  obtain r w1 where r: "host_finalize (watched env) e (progress m) w = (r, w1)" by fastforce
  have "shown_paired w1" using finalize_step [OF r] inv by (simp add: turn_inv_def)
  with step Finalize r show ?thesis
    by (auto simp: loop_body_def host_effects_fields from_host_def from_end_def Let_def
        split: sum.splits prod.splits)
qed

lemma run_loop_shown:
  assumes "run_loop (host_effects (watched env)) fuel req w m = Some (r, w', p)" "turn_inv req m w"
  shows "shown_paired w'"
  using assms
proof (induction fuel arbitrary: req w m)
  case (Suc fuel)
  obtain res w1 m1 where b: "loop_body (host_effects (watched env)) req w m = (res, w1, m1)"
    by (metis surj_pair)
  from loop_body_inv [OF b Suc.prems(2)] Suc.prems(1) Suc.IH b show ?case
    by (cases res) auto
qed simp

lemma start_prompt_settled:
  "owing (hw_transcript (start_prompt prompt w)) [] = Some []" "hw_x (start_prompt prompt w) = hw_x w"
proof -
  have "owing (repair_tool_result_history (hw_transcript w)) [] = Some []"
    using repair_paired [of "hw_transcript w" "[]"] by (simp add: owing_paired repair_tool_result_history_def)
  then show "owing (hw_transcript (start_prompt prompt w)) [] = Some []"
    by (simp add: start_prompt_def push_message_def hw_transcript_def owing_text)
qed (simp add: start_prompt_def)

subsection \<open>What the turn promises\<close>


text \<open>
  A run: the restored transcript ends in a call nobody answered; the model calls a tool the host does
  not have, sees the error reply and closes with a text.
\<close>

definition demo_env :: "(unit, unit, unit, nat) host_env" where
  "demo_env = \<lparr>
     env_ask = (\<lambda>_ _ _ n. (([], Inr (if n = 0 then demo_response else
        \<lparr>response_content = [TextBlock (lit ''done'')], stop_reason = None, usage = None\<rparr>)), n + 1)),
     env_label = (\<lambda>_. None), env_fingerprint = (\<lambda>_ _ _. None), env_schemas = (\<lambda>_. []),
     env_has_tool = (\<lambda>_ _. False), env_call_tool = (\<lambda>_ _ n. (([], Inr JNull), n)),
     env_cancelled = (\<lambda>_. False), env_elapsed_ms = (\<lambda>_. 5), env_show_json = (\<lambda>_. []),
     env_show_continuation = (\<lambda>_. []), env_show_end = (\<lambda>_. []), env_send = (\<lambda>b e. (None, b))\<rparr>"

definition demo_world :: "(unit, unit, unit, nat \<times> message list list) host_world" where
  "demo_world = \<lparr>hw_turn = demo_turn\<lparr>ht_state := (ht_state demo_turn)\<lparr>hs_transcript :=
       [\<lparr>role = lit ''assistant'', content = JArr [block_json (ToolUseBlock (lit ''x'') (lit ''ls'') JNull)]\<rparr>]\<rparr>\<rparr>,
     hw_events = hd_events demo_driver, hw_x = (0, [])\<rparr>"


end
