(* ===== verification/CompactPlan.thy ===== *)
theory CompactPlan
  imports ToolHistory
begin

section \<open>Where a conversation is cut (src/agent/compact/planning.rs)\<close>

text \<open>
  Compaction replaces a prefix of the history by a summary. The planner groups the history into API
  rounds, each an assistant message with what follows it up to the next one, and keeps as many of
  the latest rounds as fit a budget. Message sizes are estimated from the length of the content;
  the text of a JSON value (serde_json) is the parameter \<open>text_of\<close>. Lemmas: the groups cover the
  history without a gap, only start at assistant messages, and estimate what they hold; the plan
  cuts at such a start, keeps the longest suffix within the budget, and separates no tool call
  from its result.
\<close>

subsection \<open>Estimates (helpers.rs)\<close>

definition approximate_message_char_count :: "(json \<Rightarrow> ustr) \<Rightarrow> message \<Rightarrow> nat" where
  "approximate_message_char_count text_of m =
     nat (utf8_len (case as_str (content m) of Some t \<Rightarrow> t | None \<Rightarrow> text_of (content m)))"

definition approximate_token_count_for_message :: "(json \<Rightarrow> ustr) \<Rightarrow> message \<Rightarrow> nat" where
  "approximate_token_count_for_message text_of m = max (approximate_message_char_count text_of m div 4) 1"

subsection \<open>Rounds\<close>

record api_round_group =
  gr_start :: nat
  gr_end :: nat
  gr_tokens :: nat

definition role_assistant :: ustr where
  "role_assistant = lit ''assistant''"

fun group_from :: "(message \<Rightarrow> nat) \<Rightarrow> message list \<Rightarrow> nat \<Rightarrow> nat \<Rightarrow> nat \<Rightarrow> api_round_group list" where
  "group_from est [] idx start tokens =
     (if start < idx then [\<lparr>gr_start = start, gr_end = idx, gr_tokens = max tokens 1\<rparr>] else [])"
| "group_from est (m # ms) idx start tokens =
     (if role m = role_assistant \<and> start < idx
      then \<lparr>gr_start = start, gr_end = idx, gr_tokens = max tokens 1\<rparr>
             # group_from est ms (Suc idx) idx (saturating_add64 0 (est m))
      else group_from est ms (Suc idx) start (saturating_add64 tokens (est m)))"

definition group_history_by_api_round :: "(json \<Rightarrow> ustr) \<Rightarrow> message list \<Rightarrow> api_round_group list" where
  "group_history_by_api_round text_of history =
     group_from (approximate_token_count_for_message text_of) history 0 0 0"

subsection \<open>The plan\<close>

definition RETAINED_HISTORY_BUDGET_FRACTION :: nat where
  "RETAINED_HISTORY_BUDGET_FRACTION = 2"

definition retained_history_budget :: "nat \<Rightarrow> bool \<Rightarrow> nat" where
  "retained_history_budget threshold force =
     (if force then 1 else max (threshold div RETAINED_HISTORY_BUDGET_FRACTION) 1)"

record compact_plan =
  summarize_end :: nat
  retained_start :: nat

text \<open>The loop over the groups from the last down to the second.\<close>

fun retain_down :: "api_round_group list \<Rightarrow> nat \<Rightarrow> nat \<Rightarrow> nat \<Rightarrow> nat \<Rightarrow> nat" where
  "retain_down gs budget 0 tokens chosen = chosen"
| "retain_down gs budget (Suc i) tokens chosen =
     (let next_tokens = saturating_add64 tokens (gr_tokens (gs ! Suc i)) in
      if tokens > 0 \<and> next_tokens > budget then chosen
      else retain_down gs budget i next_tokens (Suc i))"

definition build_compact_plan :: "(json \<Rightarrow> ustr) \<Rightarrow> message list \<Rightarrow> nat \<Rightarrow> bool \<Rightarrow> compact_plan option" where
  "build_compact_plan text_of history threshold force =
     (if length history < 2 then None
      else
        let groups = group_history_by_api_round text_of history in
        if length groups < 2 then None
        else
          let budget = retained_history_budget threshold force; latest = length groups - 1 in
          if \<not> force \<and> gr_tokens (groups ! latest) > budget
          then Some \<lparr>summarize_end = length history, retained_start = length history\<rparr>
          else
            let start = gr_start (groups ! retain_down groups budget latest 0 latest) in
            if start = 0
            then Some \<lparr>summarize_end = gr_start (groups ! 1), retained_start = gr_start (groups ! 1)\<rparr>
            else Some \<lparr>summarize_end = start, retained_start = start\<rparr>)"

definition is_round_boundary :: "(json \<Rightarrow> ustr) \<Rightarrow> message list \<Rightarrow> nat \<Rightarrow> bool" where
  "is_round_boundary text_of history idx \<longleftrightarrow>
     idx = length history \<or>
     list_ex (\<lambda>g. gr_start g = idx \<or> gr_end g = idx) (group_history_by_api_round text_of history)"

definition ensure_api_round_boundary_range ::
  "(json \<Rightarrow> ustr) \<Rightarrow> message list \<Rightarrow> nat \<Rightarrow> nat \<Rightarrow> ustr + unit" where
  "ensure_api_round_boundary_range text_of history from up_to =
     (if \<not> is_round_boundary text_of history from \<or> \<not> is_round_boundary text_of history up_to
      then Inl (lit ''partial compaction range must align with API-round boundaries'')
      else Inr ())"

subsection \<open>The groups cover the history\<close>

text \<open>Groups that follow each other from \<open>a\<close> to \<open>b\<close>.\<close>

fun chain :: "nat \<Rightarrow> nat \<Rightarrow> api_round_group list \<Rightarrow> bool" where
  "chain a b [] \<longleftrightarrow> a = b"
| "chain a b (g # gs) \<longleftrightarrow> gr_start g = a \<and> a < gr_end g \<and> chain (gr_end g) b gs"

lemma chain_le: "chain a b gs \<Longrightarrow> a \<le> b"
  by (induction gs arbitrary: a) fastforce+

lemma chain_bounds: "chain a b gs \<Longrightarrow> g \<in> set gs \<Longrightarrow> a \<le> gr_start g \<and> gr_start g < gr_end g \<and> gr_end g \<le> b"
proof (induction gs arbitrary: a)
  case (Cons x xs)
  then show ?case using chain_le [of "gr_end x" b xs] by fastforce
qed simp

lemma chain_nth_Suc: "chain a b gs \<Longrightarrow> Suc i < length gs \<Longrightarrow> gr_start (gs ! Suc i) = gr_end (gs ! i)"
proof (induction gs arbitrary: a i)
  case (Cons x xs)
  then show ?case by (cases i; cases xs) auto
qed simp

lemma chain_last_end: "chain a b gs \<Longrightarrow> gs \<noteq> [] \<Longrightarrow> gr_end (last gs) = b"
proof (induction gs arbitrary: a)
  case (Cons x xs)
  then show ?case by (cases xs) auto
qed simp

lemma chain_drop: "chain a b gs \<Longrightarrow> i < length gs \<Longrightarrow> chain (gr_start (gs ! i)) b (drop i gs)"
proof (induction gs arbitrary: a i)
  case (Cons x xs)
  then show ?case by (cases i) auto
qed simp

lemma chain_hd: "chain a b gs \<Longrightarrow> gs \<noteq> [] \<Longrightarrow> gr_start (gs ! 0) = a"
  by (cases gs) auto

lemma group_from_chain: "start \<le> idx \<Longrightarrow> chain start (idx + length ms) (group_from est ms idx start tokens)"
proof (induction ms arbitrary: idx start tokens)
  case (Cons m ms)
  then show ?case using Cons.IH [of idx "Suc idx"] Cons.IH [of start "Suc idx"] by simp
qed auto

text \<open>A group starts where the scan started or at an assistant message, and holds no further one.\<close>

definition rounds_ok :: "message list \<Rightarrow> api_round_group list \<Rightarrow> bool" where
  "rounds_ok h gs \<longleftrightarrow>
     (\<forall>g \<in> set (tl gs). role (h ! gr_start g) = role_assistant) \<and>
     (\<forall>g \<in> set gs. \<forall>i. gr_start g < i \<and> i < gr_end g \<longrightarrow> role (h ! i) \<noteq> role_assistant)"

lemma group_from_rounds:
  assumes "start \<le> idx" "h = front @ ms" "length front = idx"
    and "\<forall>i. start < i \<and> i < idx \<longrightarrow> role (h ! i) \<noteq> role_assistant"
  shows "rounds_ok h (group_from est ms idx start tokens)"
  using assms
proof (induction ms arbitrary: idx start tokens front)
  case Nil
  then show ?case by (simp add: rounds_ok_def)
next
  case (Cons m ms)
  have m: "h ! idx = m" using Cons.prems(2,3) by (simp add: nth_append)
  have snoc: "h = (front @ [m]) @ ms" "length (front @ [m]) = Suc idx" using Cons.prems(2,3) by simp_all
  show ?case
  proof (cases "role m = role_assistant \<and> start < idx")
    case True
    let ?gs = "group_from est ms (Suc idx) idx (saturating_add64 0 (est m))"
    have rest: "rounds_ok h ?gs" by (rule Cons.IH [OF _ snoc]) auto
    have "chain idx (Suc idx + length ms) ?gs" by (rule group_from_chain) simp
    then have "?gs \<noteq> []" "gr_start (hd ?gs) = idx" by (cases ?gs; force)+
    with rest m True have "\<forall>g \<in> set ?gs. role (h ! gr_start g) = role_assistant"
      by (cases ?gs) (auto simp: rounds_ok_def)
    with rest True Cons.prems(4) show ?thesis by (auto simp: rounds_ok_def)
  next
    case False
    then have "\<forall>i. start < i \<and> i < Suc idx \<longrightarrow> role (h ! i) \<noteq> role_assistant"
      using Cons.prems(1,4) m by (auto simp: less_Suc_eq)
    from Cons.IH [OF _ snoc this] False Cons.prems(1) show ?thesis by auto
  qed
qed


subsection \<open>The estimate of a group\<close>

definition est_total :: "(message \<Rightarrow> nat) \<Rightarrow> message list \<Rightarrow> nat" where
  "est_total est ms = (\<Sum>m\<leftarrow>ms. est m)"

lemma est_total_simps [simp]:
  "est_total est [] = 0" "est_total est (m # ms) = est m + est_total est ms" "est_total est (xs @ ys) = est_total est xs + est_total est ys"
  by (simp_all add: est_total_def)

definition slice :: "nat \<Rightarrow> nat \<Rightarrow> 'a list \<Rightarrow> 'a list" where
  "slice a b xs = take (b - a) (drop a xs)"

lemma slice_append_drop: "a \<le> b \<Longrightarrow> slice a b xs @ drop b xs = drop a xs"
  by (metis append_take_drop_id drop_drop le_add_diff_inverse2 slice_def)

definition tokens_ok :: "(message \<Rightarrow> nat) \<Rightarrow> message list \<Rightarrow> api_round_group list \<Rightarrow> bool" where
  "tokens_ok est h gs \<longleftrightarrow>
     (\<forall>g \<in> set gs. gr_tokens g = max (min (est_total est (slice (gr_start g) (gr_end g) h)) u64_max) 1)"

lemma saturating_min: "saturating_add64 (min a u64_max) b = min (a + b) u64_max"
  by (simp add: saturating_add64_def)

lemma group_from_tokens:
  assumes "start \<le> idx" "h = front @ ms" "length front = idx"
    and "tokens = min (est_total est (slice start idx h)) u64_max"
  shows "tokens_ok est h (group_from est ms idx start tokens)"
  using assms
proof (induction ms arbitrary: idx start tokens front)
  case Nil
  then show ?case by (simp add: tokens_ok_def)
next
  case (Cons m ms)
  have snoc: "h = (front @ [m]) @ ms" "length (front @ [m]) = Suc idx" using Cons.prems(2,3) by simp_all
  have "h ! idx = m" "idx < length h" using Cons.prems(2,3) by (auto simp: nth_append)
  then have one: "slice idx (Suc idx) h = [m]" by (simp add: slice_def take_Suc_conv_app_nth hd_drop_conv_nth)
  have "slice start (Suc idx) h = slice start idx h @ [m]"
    using Cons.prems(1-3) by (simp add: slice_def Suc_diff_le)
  then have acc: "saturating_add64 tokens (est m) = min (est_total est (slice start (Suc idx) h)) u64_max"
    using Cons.prems(4) by (simp add: saturating_min)
  have "saturating_add64 0 (est m) = min (est_total est (slice idx (Suc idx) h)) u64_max"
    by (simp add: one saturating_add64_def)
  then have "tokens_ok est h (group_from est ms (Suc idx) idx (saturating_add64 0 (est m)))"
    by (intro Cons.IH [OF _ snoc]) auto
  moreover have "tokens_ok est h (group_from est ms (Suc idx) start (saturating_add64 tokens (est m)))"
    using Cons.prems(1) acc by (intro Cons.IH [OF _ snoc]) auto
  ultimately show ?case using Cons.prems(4) by (simp add: tokens_ok_def)
qed

lemma estimate_pos [simp]: "0 < approximate_token_count_for_message text_of m"
  by (simp add: approximate_token_count_for_message_def)

lemma groups_ok:
  fixes text_of h
  defines "gs \<equiv> group_history_by_api_round text_of h"
  shows "chain 0 (length h) gs" "rounds_ok h gs" "tokens_ok (approximate_token_count_for_message text_of) h gs"
  unfolding gs_def group_history_by_api_round_def
  using group_from_chain [of 0 0 h] group_from_rounds [of 0 0 h "[]" h]
    group_from_tokens [of 0 0 h "[]" h 0 "approximate_token_count_for_message text_of"]
  by (simp_all add: slice_def)

text \<open>The estimate of a run of groups is that of the messages in it, up to saturation.\<close>

definition group_total :: "api_round_group list \<Rightarrow> nat" where
  "group_total gs = (\<Sum>g\<leftarrow>gs. gr_tokens g)"

lemma group_sum_simps [simp]: "group_total [] = 0" "group_total (g # gs) = gr_tokens g + group_total gs"
  by (simp_all add: group_total_def)

lemma group_tokens_pos: "tokens_ok est h gs \<Longrightarrow> g \<in> set gs \<Longrightarrow> 0 < gr_tokens g"
  by (auto simp: tokens_ok_def)

lemma group_total_le:
  assumes "chain a (length h) gs" "tokens_ok est h gs" "\<And>m. 0 < est m"
  shows "group_total gs \<le> est_total est (drop a h)"
  using assms(1,2)
proof (induction gs arbitrary: a)
  case (Cons g gs)
  let ?s = "slice a (gr_end g) h"
  have g: "gr_start g = a" "a < gr_end g" "chain (gr_end g) (length h) gs" using Cons.prems(1) by auto
  then have "gr_end g \<le> length h" using chain_le by blast
  with g have "?s \<noteq> []" by (simp add: slice_def)
  then have "0 < est_total est ?s" using assms(3) by (cases ?s) auto
  moreover have "gr_tokens g = max (min (est_total est ?s) u64_max) 1"
    using Cons.prems(2) g(1) by (simp add: tokens_ok_def)
  ultimately have "gr_tokens g \<le> est_total est ?s" by simp
  moreover have "group_total gs \<le> est_total est (drop (gr_end g) h)"
    using Cons.IH g(3) Cons.prems(2) by (simp add: tokens_ok_def)
  ultimately show ?case using slice_append_drop [of a "gr_end g" h] g(2)
    by (metis add_mono group_sum_simps(2) less_imp_le est_total_simps(3))
qed simp

lemma group_total_exact:
  assumes "chain a (length h) gs" "tokens_ok est h gs" "\<And>m. 0 < est m" "group_total gs < u64_max"
  shows "est_total est (drop a h) = group_total gs"
  using assms(1,2,4)
proof (induction gs arbitrary: a)
  case (Cons g gs)
  let ?s = "slice a (gr_end g) h"
  have g: "gr_start g = a" "a < gr_end g" "chain (gr_end g) (length h) gs" using Cons.prems(1) by auto
  then have "gr_end g \<le> length h" using chain_le by blast
  with g have "?s \<noteq> []" by (simp add: slice_def)
  then have "0 < est_total est ?s" using assms(3) by (cases ?s) auto
  moreover have "gr_tokens g = max (min (est_total est ?s) u64_max) 1"
    using Cons.prems(2) g(1) by (simp add: tokens_ok_def)
  moreover have "gr_tokens g < u64_max" using Cons.prems(3) by simp
  ultimately have "gr_tokens g = est_total est ?s" by linarith
  moreover have "est_total est (drop (gr_end g) h) = group_total gs"
    using Cons.IH g(3) Cons.prems(2,3) by (simp add: tokens_ok_def)
  ultimately show ?case using slice_append_drop [of a "gr_end g" h] g(2)
    by (metis group_sum_simps(2) less_imp_le est_total_simps(3))
qed simp

subsection \<open>The retained suffix\<close>

lemma retain_down_le: "retain_down gs budget i tokens chosen \<le> max i chosen"
  by (induction gs budget i tokens chosen rule: retain_down.induct) (auto simp: Let_def le_max_iff_disj)

lemma retain_down_pos: "0 < chosen \<Longrightarrow> 0 < retain_down gs budget i tokens chosen"
  by (induction gs budget i tokens chosen rule: retain_down.induct) (auto simp: Let_def)

lemma drop_Suc_total: "Suc i < length gs \<Longrightarrow> group_total (drop (Suc i) gs) = gr_tokens (gs ! Suc i) + group_total (drop (Suc (Suc i)) gs)"
  by (metis Cons_nth_drop_Suc group_sum_simps(2))

text \<open>
  What the loop chooses fits the budget unless it is the last group alone, and the next group would
  not fit any more.
\<close>

lemma retain_down_spec:
  assumes "i < length gs" "tokens = min (group_total (drop (Suc i) gs)) u64_max" "budget < u64_max"
    and "i < length gs - 1 \<Longrightarrow> 0 < tokens" "i < length gs - 1 \<Longrightarrow> chosen = Suc i"
    and "i = length gs - 1 \<Longrightarrow> chosen = length gs - 1"
    and "tokens \<le> budget \<or> Suc i = length gs - 1" "\<forall>g \<in> set gs. 0 < gr_tokens g" "1 < length gs"
  defines "c \<equiv> retain_down gs budget i tokens chosen"
  shows "(c = length gs - 1 \<or> group_total (drop c gs) \<le> budget) \<and>
     (c \<le> 1 \<or> budget < group_total (drop (c - 1) gs))"
  using assms(1-9) unfolding c_def
proof (induction i arbitrary: tokens chosen)
  case 0
  then have "chosen = Suc 0 \<and> (Suc 0 = length gs - 1 \<or> group_total (drop (Suc 0) gs) \<le> budget)"
    by (cases "length gs - 1 = 0") (auto simp: min_def split: if_splits)
  then show ?case by simp
next
  case (Suc i)
  let ?n = "saturating_add64 tokens (gr_tokens (gs ! Suc i))"
  have n: "?n = min (group_total (drop (Suc i) gs)) u64_max"
    unfolding Suc.prems(2) saturating_min using drop_Suc_total [of i gs] Suc.prems(1) by (simp add: add.commute)
  have "gs ! Suc i \<in> set gs" using Suc.prems(1) by simp
  then have pos: "0 < ?n" using Suc.prems(8) by (simp add: saturating_add64_def)
  show ?case
  proof (cases "tokens > 0 \<and> ?n > budget")
    case True
    then have "Suc i < length gs - 1"
      using Suc.prems(1,2) by (cases "Suc i = length gs - 1") auto
    with True Suc.prems n show ?thesis by (auto simp: min_def split: if_splits)
  next
    case False
    then have down: "retain_down gs budget (Suc i) tokens chosen = retain_down gs budget i ?n (Suc i)"
      by (auto simp: Let_def)
    have "?n \<le> budget \<or> Suc i = length gs - 1"
      using False Suc.prems(1,4) by force
    with Suc.prems(1,3,8,9) n pos show ?thesis unfolding down by (intro Suc.IH) auto
  qed
qed


subsection \<open>What the plan cuts\<close>

lemma plan_cases:
  assumes "build_compact_plan text_of h threshold force = Some p"
  defines "gs \<equiv> group_history_by_api_round text_of h" and "b \<equiv> retained_history_budget threshold force"
  obtains
    (everything) "p = \<lparr>summarize_end = length h, retained_start = length h\<rparr>" "\<not> force" "2 \<le> length gs"
      "b < gr_tokens (last gs)"
  | (suffix) c where "p = \<lparr>summarize_end = gr_start (gs ! c), retained_start = gr_start (gs ! c)\<rparr>"
      "1 \<le> c" "c < length gs" "c = retain_down gs b (length gs - 1) 0 (length gs - 1)"
proof -
  let ?n = "length gs - 1"
  have two: "2 \<le> length gs" "\<not> length h < 2"
    using assms(1) by (auto simp: build_compact_plan_def gs_def Let_def split: if_splits)
  define c where "c = retain_down gs b ?n 0 ?n"
  have c: "1 \<le> c" "c < length gs"
    using retain_down_pos [of ?n gs b ?n 0] retain_down_le [of gs b ?n 0 ?n] two by (auto simp: c_def)
  have "gr_start (gs ! c) \<noteq> 0"
    using chain_nth_Suc [of 0 "length h" gs "c - 1"] chain_bounds [of 0 "length h" gs "gs ! (c - 1)"] c
      groups_ok(1) [where text_of = text_of and h = h] by (fastforce simp: gs_def)
  then have p: "p = (if \<not> force \<and> b < gr_tokens (gs ! ?n)
      then \<lparr>summarize_end = length h, retained_start = length h\<rparr>
      else \<lparr>summarize_end = gr_start (gs ! c), retained_start = gr_start (gs ! c)\<rparr>)"
    using assms(1) two
    by (auto simp: build_compact_plan_def Let_def gs_def [symmetric] b_def [symmetric] c_def [symmetric]
        simp del: One_nat_def split: if_splits)
  show thesis
  proof (cases "\<not> force \<and> b < gr_tokens (gs ! ?n)")
    case True
    have "gs \<noteq> []" using two by auto
    with True two p show thesis by (intro everything) (auto simp: last_conv_nth)
  next
    case False
    with p c show thesis by (intro suffix [of c]) (auto simp: c_def)
  qed
qed

lemma plan_start:
  assumes "build_compact_plan text_of h threshold force = Some p"
  shows "summarize_end p = retained_start p" "0 < retained_start p" "retained_start p \<le> length h"
    "retained_start p < length h \<Longrightarrow> role (h ! retained_start p) = role_assistant"
proof -
  let ?gs = "group_history_by_api_round text_of h"
  note ok = groups_ok [where text_of = text_of and h = h]
  show "summarize_end p = retained_start p" by (rule plan_cases [OF assms]) auto
  have "0 < retained_start p \<and> retained_start p \<le> length h \<and>
     (retained_start p < length h \<longrightarrow> role (h ! retained_start p) = role_assistant)"
  proof (rule plan_cases [OF assms], goal_cases)
    case 1
    then show ?case using chain_bounds [OF ok(1), of "hd ?gs"] by (cases ?gs) auto
  next
    case (2 c)
    then have "?gs ! c \<in> set (tl ?gs)" by (cases ?gs; cases c) auto
    moreover have "c - 1 < length ?gs" "Suc (c - 1) = c" using 2(2,3) by auto
    then have "?gs ! (c - 1) \<in> set ?gs" "gr_start (?gs ! c) = gr_end (?gs ! (c - 1))"
      using chain_nth_Suc [OF ok(1), of "c - 1"] 2(3) by (simp_all del: One_nat_def)
    ultimately show ?case
      using 2(1) ok(2) chain_bounds [OF ok(1), of "?gs ! (c - 1)"] by (auto simp: rounds_ok_def simp del: One_nat_def)
  qed
  then show "0 < retained_start p" "retained_start p \<le> length h"
    "retained_start p < length h \<Longrightarrow> role (h ! retained_start p) = role_assistant" by auto
qed

lemma paired_split:
  "paired (xs @ ys) pending \<Longrightarrow> ys \<noteq> [] \<Longrightarrow> role (hd ys) = role_assistant \<Longrightarrow>
     paired xs pending \<and> paired ys []"
proof (induction xs pending rule: paired.induct)
  case (1 pending)
  then show ?case by (cases ys) (auto simp: role_assistant_def)
next
  case (2 m ms pending)
  then show ?case by (auto split: if_splits option.splits)
qed

lemma paired_cut:
  assumes "paired h []" "k \<le> length h" "k < length h \<Longrightarrow> role (h ! k) = role_assistant"
  shows "paired (take k h) [] \<and> paired (drop k h) []"
proof (cases "k < length h")
  case True
  with assms paired_split [of "take k h" "drop k h" "[]"] show ?thesis by (simp add: hd_drop_conv_nth)
qed (use assms in simp)

lemma budget_small: "threshold \<le> u64_max \<Longrightarrow> retained_history_budget threshold force < u64_max"
proof -
  assume "threshold \<le> u64_max"
  then have "threshold div 2 < u64_max" using u64_max_pos by linarith
  moreover have "1 < u64_max" by (simp add: u64_max_def)
  ultimately show ?thesis by (simp add: retained_history_budget_def RETAINED_HISTORY_BUDGET_FRACTION_def)
qed

lemma est_total_drop_mono: "j \<le> k \<Longrightarrow> est_total est (drop k h) \<le> est_total est (drop j h)"
  by (metis est_total_simps(3) le_add2 slice_append_drop)

lemma last_round_alone:
  assumes "chain 0 (length h) gs" "rounds_ok h gs" "gs \<noteq> []" "m \<in> set (tl (drop (gr_start (last gs)) h))"
  shows "role m \<noteq> role_assistant"
proof -
  obtain i where i: "i < length (tl (drop (gr_start (last gs)) h))" "m = tl (drop (gr_start (last gs)) h) ! i"
    using assms(4) by (auto simp: in_set_conv_nth)
  then have m: "m = h ! Suc (gr_start (last gs) + i)" "Suc (gr_start (last gs) + i) < length h"
    by (auto simp: nth_tl)
  have "last gs \<in> set gs" "gr_end (last gs) = length h"
    using assms(3) chain_last_end [OF assms(1,3)] by simp_all
  with assms(2) m show ?thesis unfolding rounds_ok_def
    by (metis less_add_Suc1 add.commute)
qed

lemma drop_last_group: "gs \<noteq> [] \<Longrightarrow> group_total (drop (length gs - 1) gs) = gr_tokens (last gs)"
  by (cases gs rule: rev_cases) auto

lemma suffix_fills_budget:
  assumes "chain 0 (length h) gs" "rounds_ok h gs" "tokens_ok est h gs" "\<And>m. 0 < est m" "budget < u64_max"
    and len: "2 \<le> length gs"
  defines "c \<equiv> retain_down gs budget (length gs - 1) 0 (length gs - 1)"
  shows "est_total est (drop (gr_start (gs ! c)) h) \<le> budget \<or> c = length gs - 1"
    and "\<And>k. 0 < k \<Longrightarrow> k < gr_start (gs ! c) \<Longrightarrow> role (h ! k) = role_assistant \<Longrightarrow>
           budget < est_total est (drop k h)"
proof -
  have pos: "\<forall>g \<in> set gs. 0 < gr_tokens g" using group_tokens_pos assms(3) by blast
  have spec: "(c = length gs - 1 \<or> group_total (drop c gs) \<le> budget) \<and>
     (c \<le> 1 \<or> budget < group_total (drop (c - 1) gs))"
    unfolding c_def by (rule retain_down_spec) (use len pos assms(5) in auto)
  have c: "1 \<le> c" "c < length gs"
    using retain_down_pos [of "length gs - 1" gs budget "length gs - 1" 0]
      retain_down_le [of gs budget "length gs - 1" 0 "length gs - 1"] len by (auto simp: c_def)
  have suf: "chain (gr_start (gs ! i)) (length h) (drop i gs)" "tokens_ok est h (drop i gs)" if "i < length gs" for i
    using chain_drop [OF assms(1) that] assms(3) by (auto simp: tokens_ok_def dest: in_set_dropD)
  show "est_total est (drop (gr_start (gs ! c)) h) \<le> budget \<or> c = length gs - 1"
    using spec group_total_exact [OF suf [OF c(2)] assms(4)] assms(5) by auto
  fix k
  assume k: "0 < k" "k < gr_start (gs ! c)" "role (h ! k) = role_assistant"
  have c1: "c - 1 < length gs" "Suc (c - 1) = c" using c by auto
  then have "gr_end (gs ! (c - 1)) = gr_start (gs ! c)" using chain_nth_Suc [OF assms(1), of "c - 1"] c(2) by simp
  moreover have "gs ! (c - 1) \<in> set gs" using c1(1) by simp
  ultimately have le: "k \<le> gr_start (gs ! (c - 1))"
    using k assms(2) unfolding rounds_ok_def by (metis not_le)
  show "budget < est_total est (drop k h)"
  proof (cases "c = 1")
    case True
    then have "gr_start (gs ! (c - 1)) = 0" using chain_hd [OF assms(1)] len by fastforce
    with le k(1) show ?thesis by simp
  next
    case False
    with spec c(1) have "budget < group_total (drop (c - 1) gs)" by auto
    also have "\<dots> \<le> est_total est (drop (gr_start (gs ! (c - 1))) h)"
      by (rule group_total_le [OF suf [OF c1(1)] assms(4)])
    also have "\<dots> \<le> est_total est (drop k h)" by (rule est_total_drop_mono [OF le])
    finally show ?thesis .
  qed
qed

text \<open>
  A plan cuts the history in two at the start of an API round (or at its end): nothing is lost or
  kept twice, something is summarised, and when the history obeys the tool protocol so do both parts:
  no tool call is separated from its results.
\<close>

theorem compact_plan_keeps_calls_together:
  assumes "build_compact_plan text_of h threshold force = Some p"
  shows "take (summarize_end p) h @ drop (retained_start p) h = h \<and> take (summarize_end p) h \<noteq> [] \<and>
     (paired h [] \<longrightarrow> paired (take (summarize_end p) h) [] \<and> paired (drop (retained_start p) h) [])"
  using plan_start [OF assms] paired_cut [of h "retained_start p"] by auto


text \<open>
  The retained suffix is the longest that the budget allows: it fits the budget or is the latest
  API round alone, and from any earlier round on it would not fit. Only when the latest round alone
  exceeds the budget and compaction was not asked for, nothing is retained.
\<close>

theorem compact_plan_fills_budget:
  fixes text_of h
  defines "est \<equiv> approximate_token_count_for_message text_of"
  assumes "build_compact_plan text_of h threshold force = Some p" "threshold \<le> u64_max"
  shows "let kept = drop (retained_start p) h; budget = retained_history_budget threshold force in
     (kept \<noteq> [] \<longrightarrow> est_total est kept \<le> budget \<or> (\<forall>m \<in> set (tl kept). role m \<noteq> role_assistant)) \<and>
     (\<forall>k. 0 < k \<and> k < retained_start p \<and> role (h ! k) = role_assistant \<and> kept \<noteq> [] \<longrightarrow>
        budget < est_total est (drop k h)) \<and>
     (kept = [] \<longrightarrow> \<not> force \<and> (\<exists>k < length h. budget < est_total est (drop k h) \<and>
        (\<forall>m \<in> set (tl (drop k h)). role m \<noteq> role_assistant)))"
proof -
  define gs where "gs = group_history_by_api_round text_of h"
  define b where "b = retained_history_budget threshold force"
  have ok: "chain 0 (length h) gs" "rounds_ok h gs" "tokens_ok est h gs"
    using groups_ok [where text_of = text_of and h = h] by (simp_all add: gs_def est_def)
  have est: "0 < est m" for m by (simp add: est_def)
  have small: "b < u64_max" using budget_small [OF assms(3)] by (simp add: b_def)
  show ?thesis
  proof (rule plan_cases [OF assms(2)], goal_cases)
    case 1
    then have gs: "gs \<noteq> []" "2 \<le> length gs" by (auto simp: gs_def)
    let ?k = "gr_start (last gs)"
    have "b < group_total (drop (length gs - 1) gs)" using 1(4) drop_last_group [OF gs(1)] by (simp add: gs_def b_def)
    also have "\<dots> \<le> est_total est (drop ?k h)"
    proof (rule group_total_le [OF _ _ est])
      show "chain ?k (length h) (drop (length gs - 1) gs)"
        using chain_drop [OF ok(1), of "length gs - 1"] gs(1) by (simp add: last_conv_nth)
      show "tokens_ok est h (drop (length gs - 1) gs)" using ok(3) by (auto simp: tokens_ok_def dest: in_set_dropD)
    qed
    finally have "b < est_total est (drop ?k h)" .
    moreover have "?k < length h" using chain_bounds [OF ok(1), of "last gs"] gs(1) by auto
    ultimately show ?case using 1(1,2) last_round_alone [OF ok(1,2) gs(1)] by (auto simp: b_def Let_def)
  next
    case (2 c)
    then have len: "2 \<le> length gs" "c < length gs" by (auto simp: gs_def)
    have c: "c = retain_down gs b (length gs - 1) 0 (length gs - 1)" using 2(4) by (simp add: gs_def b_def)
    have start: "retained_start p = gr_start (gs ! c)" using 2(1) by (simp add: gs_def)
    have "gr_start (gs ! c) < length h" using chain_bounds [OF ok(1), of "gs ! c"] len(2) by fastforce
    moreover have "c = length gs - 1 \<Longrightarrow> gs ! c = last gs" using len by (cases gs rule: rev_cases) auto
    moreover have ne: "gs \<noteq> []" using len by auto
    ultimately show ?case
      using suffix_fills_budget [OF ok est small len(1), folded c] last_round_alone [OF ok(1,2) ne] len start
      by (auto simp: Let_def b_def [symmetric])
  qed
qed

subsection \<open>An example\<close>

definition say :: "string \<Rightarrow> string \<Rightarrow> message" where
  "say r t = \<lparr>role = lit r, content = JStr (lit t)\<rparr>"

definition call_message :: "string \<Rightarrow> message" where
  "call_message i = \<lparr>role = lit ''assistant'', content = JArr [JObj
     [(lit ''type'', JStr (lit ''tool_use'')), (lit ''id'', JStr (lit i)), (lit ''name'', JStr (lit ''ls''))]]\<rparr>"

definition demo_conversation :: "message list" where
  "demo_conversation = [say ''user'' ''go'', call_message ''a'', \<lparr>role = lit ''user'', content = JArr [synthetic_block (lit ''a'')]\<rparr>,
     say ''assistant'' ''ok'', say ''user'' ''more and more and more''] "

definition demo_text :: "json \<Rightarrow> ustr" where
  "demo_text v = replicate 40 (chr ''x'')"

lemma demo_plan:
  "build_compact_plan demo_text demo_conversation 16 False = Some \<lparr>summarize_end = 3, retained_start = 3\<rparr>"
  by code_simp

theorem compact_plan_keeps_calls_together_witness:
  "paired (take 3 demo_conversation) [] \<and> paired (drop 3 demo_conversation) []"
proof -
  have "paired demo_conversation []" by code_simp
  with compact_plan_keeps_calls_together [OF demo_plan] show ?thesis by simp
qed

theorem compact_plan_fills_budget_witness:
  "est_total (approximate_token_count_for_message demo_text) (drop 3 demo_conversation) \<le> 8 \<and>
   8 < est_total (approximate_token_count_for_message demo_text) (drop 1 demo_conversation)"
proof -
  have drops: "drop 3 demo_conversation = [say ''assistant'' ''ok'', say ''user'' ''more and more and more'']"
    "role (demo_conversation ! 1) = role_assistant"
    by (simp_all add: demo_conversation_def call_message_def role_assistant_def)
  have "est_total (approximate_token_count_for_message demo_text) (drop 3 demo_conversation) \<le> 8"
    by code_simp
  moreover have "retained_history_budget 16 False = 8" by code_simp
  moreover have "(16::nat) \<le> u64_max" by (simp add: u64_max_def)
  ultimately show ?thesis
    using compact_plan_fills_budget [OF demo_plan] drops by (simp add: Let_def)
qed

text \<open>
  An oversized latest round is summarised like everything else: nothing is retained, although the
  design document (docs/features/context-compression.md) promises that at least the newest round is.
\<close>

lemma oversized_latest_round_is_not_retained:
  "build_compact_plan demo_text [say ''user'' ''go'', call_message ''a''] 4 False =
     Some \<lparr>summarize_end = 2, retained_start = 2\<rparr>"
  by code_simp

end
