(* ===== verification/CompactCarry.thy ===== *)
theory CompactCarry
  imports CompactPlan
begin

section \<open>What compaction carries over (src/agent/compact/helpers.rs, main.rs, planning.rs)\<close>

text \<open>
  The new history starts with a boundary record and the summary, then names recent files with
  excerpts, retrieved memory, invoked skills and context that hooks and MCP servers asked to retain,
  and ends with the retained suffix. The collectors scan the compacted messages; tool calls are
  matched with their results through maps of pending calls. Parsing of JSON text (serde_json) is the
  parameter \<open>parse\<close>. Lemmas: every list is bounded and free of repetitions by its key; the recent
  files are the latest distinct ones; the boundary is read back; the new history obeys the tool
  protocol.
\<close>

subsection \<open>Types and limits (types.rs)\<close>

definition RECENT_FILE_CARRY_OVER_LIMIT :: nat where "RECENT_FILE_CARRY_OVER_LIMIT = 5"
definition RECENT_FILE_EXCERPT_LIMIT :: nat where "RECENT_FILE_EXCERPT_LIMIT = 3"
definition RECENT_FILE_EXCERPT_CHAR_LIMIT :: nat where "RECENT_FILE_EXCERPT_CHAR_LIMIT = 600"
definition MEMORY_CARRY_OVER_LIMIT :: nat where "MEMORY_CARRY_OVER_LIMIT = 3"
definition SKILL_CARRY_OVER_LIMIT :: nat where "SKILL_CARRY_OVER_LIMIT = 3"
definition SKILL_INSTRUCTION_PREVIEW_CHAR_LIMIT :: nat where "SKILL_INSTRUCTION_PREVIEW_CHAR_LIMIT = 600"
definition HOOK_CARRY_OVER_LIMIT :: nat where "HOOK_CARRY_OVER_LIMIT = 3"
definition MCP_CARRY_OVER_LIMIT :: nat where "MCP_CARRY_OVER_LIMIT = 3"
definition COMPACT_BOUNDARY_VERSION :: nat where "COMPACT_BOUNDARY_VERSION = 1"

record compact_boundary_metadata =
  bm_version :: nat
  bm_before_tokens :: nat
  bm_recent_file_count :: nat

record recent_file_excerpt =
  ex_path :: ustr
  ex_line_range :: "(nat \<times> nat) option"
  ex_snippet :: ustr

record retrieved_memory_candidate =
  rm_kind :: ustr
  rm_label :: ustr
  rm_detail :: ustr
  rm_selection_reason :: ustr
  rm_rank :: nat

record invoked_skill_carry_over =
  sk_name :: ustr
  sk_title :: "ustr option"
  sk_scope :: "ustr option"
  sk_display_path :: "ustr option"
  sk_args :: "ustr option"
  sk_instruction_preview :: "ustr option"

record retained_context_carry_over =
  rc_label :: ustr
  rc_source_descriptor :: ustr
  rc_detail :: ustr
  rc_inclusion_reason :: "ustr option"

record compact_carry_over =
  co_summary :: ustr
  co_recent_files :: "ustr list"
  co_recent_file_excerpts :: "recent_file_excerpt list"
  co_retrieved_memory :: "retrieved_memory_candidate list"
  co_invoked_skills :: "invoked_skill_carry_over list"
  co_retained_hooks :: "retained_context_carry_over list"
  co_retained_mcp :: "retained_context_carry_over list"

subsection \<open>Shared steps\<close>

definition items_of :: "message \<Rightarrow> json list" where
  "items_of m = (case as_array (content m) of None \<Rightarrow> [] | Some items \<Rightarrow> items)"

definition as_object :: "json \<Rightarrow> json option" where
  "as_object v = (case v of JObj _ \<Rightarrow> Some v | _ \<Rightarrow> None)"

text \<open>\<open>value.get(key).and_then(as_str).map(trim).filter(non-empty)\<close>\<close>

definition nonempty :: "ustr \<Rightarrow> ustr option" where
  "nonempty s = (if s = [] then None else Some s)"

definition trimmed_field :: "string \<Rightarrow> json \<Rightarrow> ustr option" where
  "trimmed_field key v = Option.bind (map_option trim (jstr key v)) nonempty"

definition slashed :: "ustr \<Rightarrow> ustr" where
  "slashed path = map (\<lambda>c. if c = 92 then 47 else c) path"

text \<open>\<open>retain(|existing| key != k); push(x)\<close> and keeping the last \<open>n\<close>, latest first.\<close>

definition push_latest :: "('a \<Rightarrow> 'k) \<Rightarrow> 'k \<Rightarrow> 'a \<Rightarrow> 'a list \<Rightarrow> 'a list" where
  "push_latest key k x xs = filter (\<lambda>y. key y \<noteq> k) xs @ [x]"

definition latest_first :: "nat \<Rightarrow> 'a list \<Rightarrow> 'a list" where
  "latest_first limit xs = rev (if length xs > limit then drop (length xs - limit) xs else xs)"

definition truncate_excerpt :: "ustr \<Rightarrow> nat \<Rightarrow> ustr" where
  "truncate_excerpt text max_chars =
     (if length text \<le> max_chars then text
      else take max_chars text @ newline # lit ''... truncated.'')"

subsection \<open>Recent files\<close>

definition recent_file_path :: "json \<Rightarrow> ustr option" where
  "recent_file_path item =
     (if jstr ''type'' item \<noteq> Some (lit ''tool_use'') then None
      else (case jstr ''name'' item of
        None \<Rightarrow> None
      | Some name \<Rightarrow>
          (case Option.bind (jget ''input'' item) as_object of
             None \<Rightarrow> None
           | Some input \<Rightarrow>
               (case jstr ''path'' input of
                  None \<Rightarrow> None
                | Some path \<Rightarrow>
                    if name \<in> {lit ''read_file'', lit ''list_files'', lit ''write_file'', lit ''replace'', lit ''apply_patch''}
                    then Some (slashed path) else None))))"

text \<open>The paths in the order of the scan: messages and items from the latest on.\<close>

definition scanned_paths :: "message list \<Rightarrow> ustr list" where
  "scanned_paths history =
     filter_map recent_file_path
       (concat (map (\<lambda>m. if role m \<noteq> lit ''assistant'' then [] else rev (items_of m)) (rev history)))"

fun collect_paths :: "nat \<Rightarrow> ustr list \<Rightarrow> ustr list \<Rightarrow> ustr list" where
  "collect_paths limit [] collected = collected"
| "collect_paths limit (p # ps) collected =
     (let collected = (if p \<in> set collected then collected else collected @ [p]) in
      if length collected \<ge> limit then collected else collect_paths limit ps collected)"

definition collect_recent_files :: "message list \<Rightarrow> nat \<Rightarrow> ustr list" where
  "collect_recent_files history limit = collect_paths limit (scanned_paths history) []"

subsection \<open>Excerpts of files that were read\<close>

definition read_file_line_range :: "json \<Rightarrow> (nat \<times> nat) option" where
  "read_file_line_range input =
     (let num = (\<lambda>k. Option.bind (jget k input) as_u64);
          lines = (case (num ''start_line'', num ''end_line'') of
                     (Some s, Some e) \<Rightarrow> Some (s, e)
                   | (Some s, None) \<Rightarrow> Some (s, s)
                   | _ \<Rightarrow> None) in
      (case (num ''offset'', num ''limit'') of
         (Some off, Some lim) \<Rightarrow>
           if lim > 0 then (case checked_add64 off lim of None \<Rightarrow> None | Some e \<Rightarrow> Some (off, e - 1)) else lines
       | (Some off, None) \<Rightarrow> Some (off, off)
       | _ \<Rightarrow> lines))"

type_synonym pending_reads = "ustr \<rightharpoonup> ustr \<times> (nat \<times> nat) option"

definition note_read :: "json \<Rightarrow> pending_reads \<Rightarrow> pending_reads" where
  "note_read item pending =
     (if jstr ''type'' item \<noteq> Some (lit ''tool_use'') \<or> jstr ''name'' item \<noteq> Some (lit ''read_file'') then pending
      else (case (jstr ''id'' item, Option.bind (jget ''input'' item) as_object) of
        (Some i, Some input) \<Rightarrow>
          (case jstr ''path'' input of
             None \<Rightarrow> pending
           | Some path \<Rightarrow> pending(i \<mapsto> (slashed path, read_file_line_range input)))
      | _ \<Rightarrow> pending))"

definition take_excerpt ::
  "nat \<Rightarrow> json \<Rightarrow> pending_reads \<times> recent_file_excerpt list \<Rightarrow> pending_reads \<times> recent_file_excerpt list" where
  "take_excerpt char_limit item st = (case st of (pending, excerpts) \<Rightarrow>
     (if jstr ''type'' item \<noteq> Some (lit ''tool_result'') then st
      else (case jstr ''tool_use_id'' item of
        None \<Rightarrow> st
      | Some i \<Rightarrow>
          (case pending i of
             None \<Rightarrow> st
           | Some (path, rng) \<Rightarrow>
               let pending = pending(i := None) in
               (case Option.bind (map_option (\<lambda>c. trim (truncate_excerpt c char_limit)) (jstr ''content'' item)) nonempty of
                  None \<Rightarrow> (pending, excerpts)
                | Some snippet \<Rightarrow>
                    (pending, push_latest ex_path path
                       \<lparr>ex_path = path, ex_line_range = rng, ex_snippet = snippet\<rparr> excerpts))))))"

definition scan_excerpts ::
  "nat \<Rightarrow> message \<Rightarrow> pending_reads \<times> recent_file_excerpt list \<Rightarrow> pending_reads \<times> recent_file_excerpt list" where
  "scan_excerpts char_limit m st =
     (if role m = lit ''assistant'' then (fold note_read (items_of m) (fst st), snd st)
      else if role m = lit ''user'' then fold (take_excerpt char_limit) (items_of m) st
      else st)"

definition collect_recent_file_excerpts :: "message list \<Rightarrow> nat \<Rightarrow> nat \<Rightarrow> recent_file_excerpt list" where
  "collect_recent_file_excerpts history limit char_limit =
     latest_first limit (snd (fold (scan_excerpts char_limit) history (Map.empty, [])))"

subsection \<open>Retrieved memory\<close>

definition collect_retrieved_memory_carry_over ::
  "retrieved_memory_candidate list \<Rightarrow> nat \<Rightarrow> retrieved_memory_candidate list" where
  "collect_retrieved_memory_carry_over candidates limit =
     take limit (sort_key rm_rank (filter (\<lambda>c. trim (rm_detail c) \<noteq> []) candidates))"

definition render_retrieved_memory_carry_over :: "retrieved_memory_candidate list \<Rightarrow> ustr" where
  "render_retrieved_memory_carry_over candidates =
     join (map (\<lambda>c. lit ''- ['' @ rm_kind c @ lit ''] '' @ trim (rm_label c) @ lit '': '' @ trim (rm_detail c)) candidates)
       [newline]"

subsection \<open>Invoked skills\<close>

record skill_invocation_input =
  si_name :: ustr
  si_args :: "ustr option"

type_synonym pending_skills = "ustr \<rightharpoonup> skill_invocation_input"

definition note_invocation :: "json \<Rightarrow> pending_skills \<Rightarrow> pending_skills" where
  "note_invocation item pending =
     (if jstr ''type'' item \<noteq> Some (lit ''tool_use'') \<or> jstr ''name'' item \<noteq> Some (lit ''skill'') then pending
      else (case (jstr ''id'' item, Option.bind (jget ''input'' item) as_object) of
        (Some i, Some input) \<Rightarrow>
          (if jstr ''action'' input \<noteq> Some (lit ''invoke'') then pending
           else (case jstr ''skill_name'' input of
             None \<Rightarrow> pending
           | Some name \<Rightarrow> pending(i \<mapsto> \<lparr>si_name = trim name, si_args = trimmed_field ''args'' input\<rparr>)))
      | _ \<Rightarrow> pending))"

definition skill_carry_over_from_result ::
  "skill_invocation_input \<Rightarrow> json option \<Rightarrow> nat \<Rightarrow> invoked_skill_carry_over" where
  "skill_carry_over_from_result invocation result preview_limit =
     (let field = (\<lambda>name. Option.bind result (trimmed_field name)) in
      \<lparr>sk_name = (case field ''name'' of Some n \<Rightarrow> n | None \<Rightarrow> si_name invocation),
       sk_title = field ''title'', sk_scope = field ''scope'', sk_display_path = field ''display_path'',
       sk_args = (case field ''args'' of Some a \<Rightarrow> Some a | None \<Rightarrow> si_args invocation),
       sk_instruction_preview =
         map_option (\<lambda>s. trim (truncate_excerpt s preview_limit)) (field ''instructions'')\<rparr>)"

definition take_skill ::
  "(ustr \<Rightarrow> json option) \<Rightarrow> nat \<Rightarrow> json \<Rightarrow> pending_skills \<times> invoked_skill_carry_over list \<Rightarrow>
   pending_skills \<times> invoked_skill_carry_over list" where
  "take_skill parse preview_limit item st = (case st of (pending, invoked) \<Rightarrow>
     (if jstr ''type'' item \<noteq> Some (lit ''tool_result'') then st
      else if Option.bind (jget ''is_error'' item) as_bool = Some True then st
      else (case jstr ''tool_use_id'' item of
        None \<Rightarrow> st
      | Some i \<Rightarrow>
          (case pending i of
             None \<Rightarrow> st
           | Some invocation \<Rightarrow>
               (pending(i := None), push_latest sk_name (si_name invocation)
                  (skill_carry_over_from_result invocation (Option.bind (jstr ''content'' item) parse) preview_limit)
                  invoked)))))"

definition scan_skills ::
  "(ustr \<Rightarrow> json option) \<Rightarrow> nat \<Rightarrow> message \<Rightarrow> pending_skills \<times> invoked_skill_carry_over list \<Rightarrow>
   pending_skills \<times> invoked_skill_carry_over list" where
  "scan_skills parse preview_limit m st =
     (if role m = lit ''assistant'' then (fold note_invocation (items_of m) (fst st), snd st)
      else if role m = lit ''user'' then fold (take_skill parse preview_limit) (items_of m) st
      else st)"

definition collect_invoked_skill_carry_over ::
  "(ustr \<Rightarrow> json option) \<Rightarrow> message list \<Rightarrow> nat \<Rightarrow> nat \<Rightarrow> invoked_skill_carry_over list" where
  "collect_invoked_skill_carry_over parse history limit preview_limit =
     latest_first limit (snd (fold (scan_skills parse preview_limit) history (Map.empty, [])))"

definition optional_line :: "string \<Rightarrow> ustr option \<Rightarrow> ustr list" where
  "optional_line prefix v = (case v of Some s \<Rightarrow> if s = [] then [] else [lit prefix @ trim s] | None \<Rightarrow> [])"

definition render_invoked_skill_carry_over :: "invoked_skill_carry_over list \<Rightarrow> ustr" where
  "render_invoked_skill_carry_over skills =
     join (map (\<lambda>s. join ((lit ''- '' @ trim (sk_name s)) # optional_line ''  title: '' (sk_title s) @
         optional_line ''  scope: '' (sk_scope s) @ optional_line ''  path: '' (sk_display_path s) @
         optional_line ''  args: '' (sk_args s) @ optional_line ''  instructions: '' (sk_instruction_preview s))
       [newline]) skills) [newline]"

subsection \<open>Context that asked to be retained\<close>

datatype retained_context_class = Hooks | Mcp

definition message_content_items :: "json \<Rightarrow> json list" where
  "message_content_items c = (case c of JArr items \<Rightarrow> items | JObj _ \<Rightarrow> [c] | _ \<Rightarrow> [])"

definition retained_context_descriptor_matches :: "ustr \<Rightarrow> retained_context_class \<Rightarrow> bool" where
  "retained_context_descriptor_matches d cls =
     (case cls of Hooks \<Rightarrow> starts_with d (lit ''hook.'') | Mcp \<Rightarrow> starts_with d (lit ''mcp.''))"

definition or_else :: "'a option \<Rightarrow> 'a option \<Rightarrow> 'a option" where
  "or_else a b = (case a of None \<Rightarrow> b | Some x \<Rightarrow> Some x)"

definition retained_context_carry_over_from_item ::
  "json \<Rightarrow> retained_context_class \<Rightarrow> retained_context_carry_over option" where
  "retained_context_carry_over_from_item item cls =
     (if jstr ''type'' item \<noteq> Some (lit ''compaction_retain_hint'') then None
      else (case trimmed_field ''source_descriptor'' item of
        None \<Rightarrow> None
      | Some d \<Rightarrow>
          if \<not> retained_context_descriptor_matches d cls then None
          else (case Option.bind (map_option trim (Option.bind
                   (or_else (jget ''detail'' item) (or_else (jget ''text'' item) (jget ''content'' item))) as_str)) nonempty of
             None \<Rightarrow> None
           | Some detail \<Rightarrow> Some
               \<lparr>rc_label = (case trimmed_field ''label'' item of Some l \<Rightarrow> l | None \<Rightarrow> d),
                rc_source_descriptor = d, rc_detail = detail,
                rc_inclusion_reason = trimmed_field ''inclusion_reason'' item\<rparr>)))"

definition retain_item ::
  "retained_context_class \<Rightarrow> json \<Rightarrow> retained_context_carry_over list \<Rightarrow> retained_context_carry_over list" where
  "retain_item cls item retained =
     (case retained_context_carry_over_from_item item cls of
        None \<Rightarrow> retained
      | Some e \<Rightarrow> push_latest rc_source_descriptor (rc_source_descriptor e) e retained)"

definition collect_retained_context_carry_over ::
  "message list \<Rightarrow> retained_context_class \<Rightarrow> nat \<Rightarrow> retained_context_carry_over list" where
  "collect_retained_context_carry_over history cls limit =
     latest_first limit
       (fold (\<lambda>m. fold (retain_item cls) (message_content_items (content m))) history [])"

definition render_retained_context_carry_over :: "retained_context_carry_over list \<Rightarrow> ustr" where
  "render_retained_context_carry_over entries =
     join (map (\<lambda>e. join ([lit ''- '' @ trim (rc_label e), lit ''  source: '' @ trim (rc_source_descriptor e),
         lit ''  detail: '' @ trim (rc_detail e)] @ optional_line ''  reason: '' (rc_inclusion_reason e))
       [newline]) entries) [newline]"

subsection \<open>The new history\<close>

definition compact_source_content :: "ustr \<Rightarrow> json \<Rightarrow> json" where
  "compact_source_content text item =
     JArr [JObj [(lit ''type'', JStr (lit ''text'')), (lit ''text'', JStr text)], item]"

definition system_message :: "ustr \<Rightarrow> json \<Rightarrow> message" where
  "system_message text item = \<lparr>role = lit ''system'', content = compact_source_content text item\<rparr>"

definition build_compact_boundary_message :: "nat \<Rightarrow> nat \<Rightarrow> message" where
  "build_compact_boundary_message before_tokens recent_file_count =
     system_message
       (lit ''COMPACTION BOUNDARY: version='' @ dec COMPACT_BOUNDARY_VERSION @ lit '' before_tokens='' @
        dec before_tokens @ lit '' recent_file_count='' @ dec recent_file_count)
       (JObj [(lit ''type'', JStr (lit ''compact_boundary'')), (lit ''version'', JNum (int COMPACT_BOUNDARY_VERSION)),
         (lit ''before_tokens'', JNum (int before_tokens)), (lit ''recent_file_count'', JNum (int recent_file_count))])"

definition render_recent_file_excerpt :: "recent_file_excerpt \<Rightarrow> ustr" where
  "render_recent_file_excerpt ex =
     (case ex_line_range ex of
        Some (s, e) \<Rightarrow>
          if s \<noteq> e then lit ''### '' @ ex_path ex @ lit '' (lines '' @ dec s @ lit ''-'' @ dec e @ lit '')''
          else lit ''### '' @ ex_path ex @ lit '' (line '' @ dec s @ lit '')''
      | None \<Rightarrow> lit ''### '' @ ex_path ex) @
     newline # lit ''```text'' @ newline # ex_snippet ex @ newline # lit ''```''"

definition recent_file_excerpt_source_item :: "recent_file_excerpt \<Rightarrow> json" where
  "recent_file_excerpt_source_item ex =
     JObj ([(lit ''path'', JStr (ex_path ex)), (lit ''snippet'', JStr (ex_snippet ex))] @
       (case ex_line_range ex of
          None \<Rightarrow> []
        | Some (s, e) \<Rightarrow> [(lit ''line_start'', JNum (int s)), (lit ''line_end'', JNum (int e))]))"

definition carry_over_item :: "string \<Rightarrow> string \<Rightarrow> string \<Rightarrow> ustr \<Rightarrow> string \<Rightarrow> json" where
  "carry_over_item kind label descriptor detail reason =
     JObj [(lit ''type'', JStr (lit ''compaction_carry_over'')), (lit ''kind'', JStr (lit kind)),
       (lit ''label'', JStr (lit label)), (lit ''source_descriptor'', JStr (lit descriptor)),
       (lit ''detail'', JStr detail), (lit ''inclusion_reason'', JStr (lit reason))]"

definition append_post_compact_carry_over :: "compact_carry_over \<Rightarrow> message list" where
  "append_post_compact_carry_over co =
     (if co_recent_files co = [] then [] else
        [system_message
          (lit ''RECENT FILES FROM COMPACTED HISTORY:'' @ newline #
             join (map (\<lambda>p. lit ''- '' @ p) (co_recent_files co)) [newline])
          (JObj [(lit ''type'', JStr (lit ''recent_files'')), (lit ''files'', JArr (map JStr (co_recent_files co)))])]) @
     (if co_recent_file_excerpts co = [] then [] else
        [system_message
          (lit ''RECENT FILE EXCERPTS FROM COMPACTED HISTORY:'' @ newline #
             join (map render_recent_file_excerpt (co_recent_file_excerpts co)) [newline, newline])
          (JObj [(lit ''type'', JStr (lit ''recent_file_excerpts'')),
             (lit ''files'', JArr (map recent_file_excerpt_source_item (co_recent_file_excerpts co)))])]) @
     (let block = render_retrieved_memory_carry_over (co_retrieved_memory co) in
      if co_retrieved_memory co = [] then [] else
        [system_message (lit ''MEMORY CARRY-OVER FROM COMPACTED HISTORY:'' @ newline # block)
          (carry_over_item ''compacted_memory'' ''Memory Carry-over'' ''history.compaction.memory'' block
             ''carried forward because retrieved memory was available before compaction and should remain available after history replacement'')]) @
     (let block = render_invoked_skill_carry_over (co_invoked_skills co) in
      if co_invoked_skills co = [] then [] else
        [system_message (lit ''SKILL CARRY-OVER FROM COMPACTED HISTORY:'' @ newline # block)
          (carry_over_item ''compacted_skills'' ''Skill Carry-over'' ''history.compaction.skills'' block
             ''carried forward because these skills were invoked before compaction and may still define the current workflow'')]) @
     (let block = render_retained_context_carry_over (co_retained_hooks co) in
      if co_retained_hooks co = [] then [] else
        [system_message (lit ''HOOK CARRY-OVER FROM COMPACTED HISTORY:'' @ newline # block)
          (carry_over_item ''compacted_hooks'' ''Hook Carry-over'' ''history.compaction.hooks'' block
             ''carried forward because hook-provided context requested retention before compaction'')]) @
     (let block = render_retained_context_carry_over (co_retained_mcp co) in
      if co_retained_mcp co = [] then [] else
        [system_message (lit ''MCP CARRY-OVER FROM COMPACTED HISTORY:'' @ newline # block)
          (carry_over_item ''compacted_mcp'' ''MCP Carry-over'' ''history.compaction.mcp'' block
             ''carried forward because MCP-provided context requested retention before compaction'')])"

definition build_compact_carry_over ::
  "(ustr \<Rightarrow> json option) \<Rightarrow> ustr \<Rightarrow> message list \<Rightarrow> retrieved_memory_candidate list \<Rightarrow> compact_carry_over" where
  "build_compact_carry_over parse summary compacted candidates =
     \<lparr>co_summary = summary,
      co_recent_files = collect_recent_files compacted RECENT_FILE_CARRY_OVER_LIMIT,
      co_recent_file_excerpts =
        collect_recent_file_excerpts compacted RECENT_FILE_EXCERPT_LIMIT RECENT_FILE_EXCERPT_CHAR_LIMIT,
      co_retrieved_memory = collect_retrieved_memory_carry_over candidates MEMORY_CARRY_OVER_LIMIT,
      co_invoked_skills =
        collect_invoked_skill_carry_over parse compacted SKILL_CARRY_OVER_LIMIT SKILL_INSTRUCTION_PREVIEW_CHAR_LIMIT,
      co_retained_hooks = collect_retained_context_carry_over compacted Hooks HOOK_CARRY_OVER_LIMIT,
      co_retained_mcp = collect_retained_context_carry_over compacted Mcp MCP_CARRY_OVER_LIMIT\<rparr>"

definition summary_message :: "ustr \<Rightarrow> message" where
  "summary_message summary =
     system_message (lit ''STRUCTURED SUMMARY OF PREVIOUS CONVERSATION:'' @ newline # summary)
       (JObj [(lit ''type'', JStr (lit ''compacted_summary'')), (lit ''text'', JStr summary)])"

definition build_post_compact_history :: "nat \<Rightarrow> compact_carry_over \<Rightarrow> message list \<Rightarrow> message list" where
  "build_post_compact_history before_tokens co retained =
     [build_compact_boundary_message before_tokens (length (co_recent_files co)), summary_message (co_summary co)] @
     append_post_compact_carry_over co @ retained"

subsection \<open>Reading the boundary back\<close>

definition boundary_object :: "json \<Rightarrow> json option" where
  "boundary_object item =
     (case as_object item of
        None \<Rightarrow> None
      | Some ob \<Rightarrow> if jstr ''type'' ob = Some (lit ''compact_boundary'') then Some ob else None)"

fun find_map :: "('a \<Rightarrow> 'b option) \<Rightarrow> 'a list \<Rightarrow> 'b option" where
  "find_map f [] = None"
| "find_map f (x # xs) = (case f x of Some y \<Rightarrow> Some y | None \<Rightarrow> find_map f xs)"

definition compact_boundary_item :: "json \<Rightarrow> json option" where
  "compact_boundary_item c =
     (case c of
        JObj _ \<Rightarrow> if jstr ''type'' c \<noteq> Some (lit ''compact_boundary'') then None else Some c
      | JArr items \<Rightarrow> find_map boundary_object items
      | _ \<Rightarrow> None)"

definition metadata_of :: "json \<Rightarrow> compact_boundary_metadata" where
  "metadata_of b =
     (let num = (\<lambda>k d. case Option.bind (jget k b) as_u64 of Some n \<Rightarrow> n | None \<Rightarrow> d) in
      \<lparr>bm_version = num ''version'' COMPACT_BOUNDARY_VERSION mod 2 ^ 32,
       bm_before_tokens = num ''before_tokens'' 0, bm_recent_file_count = num ''recent_file_count'' 0\<rparr>)"

definition latest_compact_boundary_metadata :: "message list \<Rightarrow> compact_boundary_metadata option" where
  "latest_compact_boundary_metadata history =
     find_map (\<lambda>m. map_option metadata_of (compact_boundary_item (content m))) (rev history)"

subsection \<open>Lemmas\<close>

fun nub :: "'a list \<Rightarrow> 'a list" where
  "nub [] = []"
| "nub (x # xs) = x # filter (\<lambda>y. y \<noteq> x) (nub xs)"

lemma set_nub [simp]: "set (nub xs) = set xs"
  by (induction xs) auto

lemma distinct_nub [simp]: "distinct (nub xs)"
  by (induction xs) auto

lemma collect_paths_nub:
  "length acc < limit \<Longrightarrow> collect_paths limit ps acc = take limit (acc @ filter (\<lambda>p. p \<notin> set acc) (nub ps))"
proof (induction ps arbitrary: acc)
  case (Cons p ps)
  show ?case
  proof (cases "p \<in> set acc")
    case True
    then have "filter (\<lambda>q. q \<notin> set acc \<and> q \<noteq> p) (nub ps) = filter (\<lambda>q. q \<notin> set acc) (nub ps)"
      by (intro filter_cong) auto
    with True Cons show ?thesis by (simp add: conj_commute)
  next
    case False
    have f: "filter (\<lambda>q. q \<notin> set (acc @ [p])) (nub ps) = filter (\<lambda>q. q \<notin> set acc) (filter (\<lambda>q. q \<noteq> p) (nub ps))"
      unfolding filter_filter by (intro filter_cong) auto
    show ?thesis
    proof (cases "length (acc @ [p]) < limit")
      case True
      with False Cons.IH [of "acc @ [p]"] f show ?thesis by (simp del: set_append filter_filter)
    next
      case full: False
      with Cons.prems have "limit = Suc (length acc)" by simp
      with False show ?thesis by simp
    qed
  qed
qed simp

lemma push_latest_distinct: "distinct (map key xs) \<Longrightarrow> key x = k \<Longrightarrow> distinct (map key (push_latest key k x xs))"
  by (auto simp: push_latest_def distinct_map inj_on_def)

lemma latest_first_simps:
  "length (latest_first n xs) \<le> n" "set (latest_first n xs) \<subseteq> set xs"
  "distinct (map f xs) \<Longrightarrow> distinct (map f (latest_first n xs))"
  by (auto simp: latest_first_def rev_map [symmetric] drop_map [symmetric] dest: in_set_dropD)

lemma length_trim: "length (trim s) \<le> length s"
proof -
  have "length (trim_end t) \<le> length t" for t
    using trim_end_prefix [of t] by (metis le_add1 length_append)
  moreover have "length (trim_start s) \<le> length s" by (simp add: trim_start_def length_dropWhile_le)
  ultimately show ?thesis unfolding trim_def by (meson order_trans)
qed

lemma length_truncate: "length (truncate_excerpt s n) \<le> n + 15"
  by (simp add: truncate_excerpt_def)

definition excerpts_ok :: "nat \<Rightarrow> recent_file_excerpt list \<Rightarrow> bool" where
  "excerpts_ok n xs \<longleftrightarrow> distinct (map ex_path xs) \<and> (\<forall>x \<in> set xs. length (ex_snippet x) \<le> n + 15)"

lemma take_excerpt_ok: "excerpts_ok n (snd st) \<Longrightarrow> excerpts_ok n (snd (take_excerpt n item st))"
proof -
  assume ok: "excerpts_ok n (snd st)"
  have "length (trim (truncate_excerpt c n)) \<le> n + 15" for c
    using length_trim length_truncate order_trans by blast
  with ok show ?thesis
    by (auto simp: take_excerpt_def excerpts_ok_def push_latest_distinct nonempty_def Let_def
        bind_eq_Some_conv split: prod.splits option.splits if_splits)
      (auto simp: push_latest_def split: if_splits)
qed

lemma scan_excerpts_ok: "excerpts_ok n (snd st) \<Longrightarrow> excerpts_ok n (snd (fold (scan_excerpts n) ms st))"
proof (induction ms arbitrary: st)
  case (Cons m ms)
  have "excerpts_ok n (snd (fold (take_excerpt n) items st'))" if "excerpts_ok n (snd st')" for items st'
    using that by (induction items arbitrary: st') (simp_all add: take_excerpt_ok)
  with Cons show ?case by (simp add: scan_excerpts_def)
qed simp

lemma retain_item_distinct:
  "distinct (map rc_source_descriptor xs) \<Longrightarrow> distinct (map rc_source_descriptor (fold (retain_item cls) items xs))"
  by (induction items arbitrary: xs) (auto simp: retain_item_def push_latest_distinct split: option.split)

lemma retained_distinct:
  "distinct (map rc_source_descriptor xs) \<Longrightarrow>
     distinct (map rc_source_descriptor (fold (\<lambda>m. fold (retain_item cls) (f m)) ms xs))"
  by (induction ms arbitrary: xs) (auto intro: retain_item_distinct)

text \<open>The messages compaction adds are neither calls nor results.\<close>

lemma system_message_simps [simp]:
  "role (system_message t i) \<noteq> lit ''assistant''" "\<not> is_result_message (system_message t i)"
  by (simp_all add: system_message_def is_result_message_def)

lemma paired_system: "\<forall>m \<in> set xs. \<exists>t i. m = system_message t i \<Longrightarrow> paired (xs @ ys) p \<longleftrightarrow> paired ys p"
  by (induction xs) auto

definition added_messages :: "nat \<Rightarrow> compact_carry_over \<Rightarrow> message list" where
  "added_messages n co = [build_compact_boundary_message n (length (co_recent_files co)), summary_message (co_summary co)]
     @ append_post_compact_carry_over co"

lemma post_history: "build_post_compact_history n co kept = added_messages n co @ kept"
  by (simp add: build_post_compact_history_def added_messages_def)

lemma added_system: "\<forall>m \<in> set (added_messages n co). \<exists>t i. m = system_message t i"
  by (auto simp: added_messages_def append_post_compact_carry_over_def build_compact_boundary_message_def
      summary_message_def Let_def split: if_splits)

lemma find_map_append: "find_map f (xs @ ys) = (case find_map f xs of Some y \<Rightarrow> Some y | None \<Rightarrow> find_map f ys)"
  by (induction xs) (auto split: option.split)

lemma find_map_None: "find_map f xs = None \<longleftrightarrow> (\<forall>x \<in> set xs. f x = None)"
  by (induction xs) (auto split: option.split)

lemma boundary_of_system:
  "compact_boundary_item (content (system_message t (JObj kvs))) =
     (if map_of kvs (lit ''type'') = Some (JStr (lit ''compact_boundary'')) then Some (JObj kvs) else None)"
  by (auto simp: compact_boundary_item_def system_message_def compact_source_content_def boundary_object_def
      as_object_def jstr_def bind_eq_Some_conv split: option.splits)

lemma carry_no_boundary: "m \<in> set (append_post_compact_carry_over co) \<Longrightarrow> compact_boundary_item (content m) = None"
  by (auto simp: append_post_compact_carry_over_def Let_def boundary_of_system carry_over_item_def split: if_splits)

subsection \<open>Properties\<close>

text \<open>
  The carry-over is bounded and does not repeat itself: at most five recent files, three excerpts
  of different files, three memories in the order of their rank, three skills, and three entries of
  different sources for hooks and for MCP; an excerpt has at most 600 characters and a mark.
\<close>

theorem carry_over_is_bounded:
  fixes parse summary h candidates
  defines "co \<equiv> build_compact_carry_over parse summary h candidates"
  shows "distinct (co_recent_files co) \<and> length (co_recent_files co) \<le> 5 \<and>
     distinct (map ex_path (co_recent_file_excerpts co)) \<and> length (co_recent_file_excerpts co) \<le> 3 \<and>
     list_all (\<lambda>x. length (ex_snippet x) \<le> 615) (co_recent_file_excerpts co) \<and>
     sorted (map rm_rank (co_retrieved_memory co)) \<and> length (co_retrieved_memory co) \<le> 3 \<and>
     length (co_invoked_skills co) \<le> 3 \<and>
     distinct (map rc_source_descriptor (co_retained_hooks co)) \<and> length (co_retained_hooks co) \<le> 3 \<and>
     distinct (map rc_source_descriptor (co_retained_mcp co)) \<and> length (co_retained_mcp co) \<le> 3"
proof -
  have files: "co_recent_files co = take 5 (nub (scanned_paths h))"
    by (simp add: co_def build_compact_carry_over_def collect_recent_files_def RECENT_FILE_CARRY_OVER_LIMIT_def
        collect_paths_nub)
  have ex: "excerpts_ok 600 (snd (fold (scan_excerpts 600) h (Map.empty, [])))"
    by (rule scan_excerpts_ok) (simp add: excerpts_ok_def)
  have excerpts: "co_recent_file_excerpts co = latest_first 3 (snd (fold (scan_excerpts 600) h (Map.empty, [])))"
    by (simp add: co_def build_compact_carry_over_def collect_recent_file_excerpts_def RECENT_FILE_EXCERPT_LIMIT_def
        RECENT_FILE_EXCERPT_CHAR_LIMIT_def)
  have "distinct (map ex_path (co_recent_file_excerpts co))" "length (co_recent_file_excerpts co) \<le> 3"
    "\<forall>x \<in> set (co_recent_file_excerpts co). length (ex_snippet x) \<le> 615"
    using ex latest_first_simps unfolding excerpts excerpts_ok_def by fastforce+
  moreover have "sorted (map rm_rank (co_retrieved_memory co))" "length (co_retrieved_memory co) \<le> 3"
    "length (co_invoked_skills co) \<le> 3"
    by (simp_all add: co_def build_compact_carry_over_def collect_retrieved_memory_carry_over_def
        collect_invoked_skill_carry_over_def MEMORY_CARRY_OVER_LIMIT_def SKILL_CARRY_OVER_LIMIT_def
        latest_first_simps sorted_wrt_take flip: take_map)
  moreover have "distinct (map rc_source_descriptor (co_retained_hooks co))" "length (co_retained_hooks co) \<le> 3"
    "distinct (map rc_source_descriptor (co_retained_mcp co))" "length (co_retained_mcp co) \<le> 3"
    by (simp_all add: co_def build_compact_carry_over_def collect_retained_context_carry_over_def
        HOOK_CARRY_OVER_LIMIT_def MCP_CARRY_OVER_LIMIT_def latest_first_simps retained_distinct)
  ultimately show ?thesis by (simp add: files list_all_iff)
qed

text \<open>
  The recent files are the latest distinct ones: the scan with its early return equals the
  first \<open>limit\<close> different paths of file tool calls, from the latest call backwards.
\<close>

theorem recent_files_are_the_latest:
  "0 < limit \<Longrightarrow> collect_recent_files h limit = take limit (nub (scanned_paths h))"
  by (simp add: collect_recent_files_def collect_paths_nub)

text \<open>
  Round trip of the boundary record: from a history that compaction has built, the resume path
  reads back the token count and the number of recent files that were written, provided the retained
  messages hold no boundary of their own.
\<close>

theorem boundary_is_read_back:
  assumes "before_tokens \<le> u64_max" "\<forall>m \<in> set kept. compact_boundary_item (content m) = None"
  shows "latest_compact_boundary_metadata
       (build_post_compact_history before_tokens (build_compact_carry_over parse summary h candidates) kept) =
     Some \<lparr>bm_version = 1, bm_before_tokens = before_tokens,
       bm_recent_file_count = length (collect_recent_files h RECENT_FILE_CARRY_OVER_LIMIT)\<rparr>"
proof -
  define co where "co = build_compact_carry_over parse summary h candidates"
  let ?f = "\<lambda>m. map_option metadata_of (compact_boundary_item (content m))"
  have files: "co_recent_files co = collect_recent_files h RECENT_FILE_CARRY_OVER_LIMIT"
    by (simp add: co_def build_compact_carry_over_def)
  have "length (co_recent_files co) \<le> 5"
    by (simp add: files collect_recent_files_def RECENT_FILE_CARRY_OVER_LIMIT_def collect_paths_nub)
  then have len: "int (length (co_recent_files co)) \<le> 18446744073709551615" by simp
  have bt: "int before_tokens \<le> 18446744073709551615" using assms(1) by (simp flip: u64_max_int)
  have none: "find_map ?f (rev (append_post_compact_carry_over co @ kept)) = None"
    using assms(2) carry_no_boundary [of _ co] by (auto simp: find_map_None)
  have summary: "?f (summary_message s) = None" for s
    by (simp add: summary_message_def boundary_of_system)
  have boundary: "?f (build_compact_boundary_message before_tokens (length (co_recent_files co))) =
      Some \<lparr>bm_version = 1, bm_before_tokens = before_tokens, bm_recent_file_count = length (co_recent_files co)\<rparr>"
    using len bt
    by (simp add: build_compact_boundary_message_def boundary_of_system metadata_of_def as_u64_def
        COMPACT_BOUNDARY_VERSION_def)
  have "latest_compact_boundary_metadata (build_post_compact_history before_tokens co kept) =
      find_map ?f (rev (append_post_compact_carry_over co @ kept) @
        [summary_message (co_summary co), build_compact_boundary_message before_tokens (length (co_recent_files co))])"
    by (simp add: latest_compact_boundary_metadata_def build_post_compact_history_def)
  then show ?thesis
    unfolding co_def [symmetric] files [symmetric] find_map_append none using summary boundary by simp
qed

subsection \<open>Examples\<close>

definition tool_use :: "string \<Rightarrow> string \<Rightarrow> (string \<times> string) list \<Rightarrow> json" where
  "tool_use i name args = JObj [(lit ''type'', JStr (lit ''tool_use'')), (lit ''id'', JStr (lit i)), (lit ''name'', JStr (lit name)),
     (lit ''input'', JObj (map (\<lambda>(k, v). (lit k, JStr (lit v))) args))]"

definition tool_result :: "string \<Rightarrow> string \<Rightarrow> json" where
  "tool_result i t = JObj [(lit ''type'', JStr (lit ''tool_result'')), (lit ''tool_use_id'', JStr (lit i)),
     (lit ''content'', JStr (lit t))]"

definition round_of :: "json \<Rightarrow> json \<Rightarrow> message list" where
  "round_of call result = [\<lparr>role = lit ''assistant'', content = JArr [call]\<rparr>, \<lparr>role = lit ''user'', content = JArr [result]\<rparr>]"

definition reads :: "message list" where
  "reads = concat (map (\<lambda>(i, p). round_of (tool_use i ''read_file'' [(''path'', p)]) (tool_result i ''text''))
     [(''a'', ''x''), (''b'', ''y''), (''c'', ''x'')])"

theorem recent_files_are_the_latest_witness:
  "collect_recent_files reads 5 = [lit ''x'', lit ''y'']"
proof -
  have "take 5 (nub (scanned_paths reads)) = [lit ''x'', lit ''y'']" by code_simp
  then show ?thesis using recent_files_are_the_latest [of 5 reads] by simp
qed

theorem boundary_is_read_back_witness:
  "latest_compact_boundary_metadata
     (build_post_compact_history 700 (build_compact_carry_over (\<lambda>_. None) (lit ''s'') reads []) [say ''user'' ''go on'']) =
   Some \<lparr>bm_version = 1, bm_before_tokens = 700, bm_recent_file_count = 2\<rparr>"
proof -
  have "length (collect_recent_files reads RECENT_FILE_CARRY_OVER_LIMIT) = 2" by code_simp
  then show ?thesis
    using boundary_is_read_back [of 700 "[say ''user'' ''go on'']" "\<lambda>_. None" "lit ''s''" reads "[]"]
    by (simp add: u64_max_def say_def compact_boundary_item_def)
qed

end
