(* ===== verification/Compaction.thy ===== *)
theory Compaction
  imports CompactCarry AgentEffects
begin

section \<open>Compacting a conversation (src/agent/compact/main.rs)\<close>

text \<open>
  The agent replaces the summarised part of its history, on demand or when the estimate of its
  tokens passes a threshold. The tokenizer, the provider's context budget and summary requests, the
  session store and the prompt are parameters on a world \<open>'w\<close>; a request ends with a summary, an
  error, an error that the input exceeds the context window, or the timeout. Lemmas: every outcome
  keeps the tool protocol of the history; an automatic compaction reports only storage errors, and
  after a failed one no request is sent before the history has grown; a retry sends suffixes that
  start at API rounds, one per round at most. Counters of tokens and compactions are naturals.
\<close>

subsection \<open>State\<close>

record context_budget =
  context_window :: nat
  reserved_output :: nat
  compact_threshold :: nat

record compact_state =
  estimated_history_tokens :: nat
  context_window_tokens :: "nat option"
  compact_threshold_tokens :: nat
  reserved_output_tokens :: nat
  compaction_count :: nat
  last_before_tokens :: "nat option"
  last_after_tokens :: "nat option"
  last_recent_files :: "ustr list"
  last_boundary :: "compact_boundary_metadata option"
  consecutive_failures :: nat
  retry_after_tokens :: "nat option"

record compaction_event =
  ev_index :: nat
  ev_before :: nat
  ev_after :: nat
  ev_boundary_version :: nat
  ev_replaced_start :: "nat option"
  ev_replaced_end :: "nat option"
  ev_metadata_owner :: "ustr option"
  ev_recent_files :: "ustr list"
  ev_summary :: ustr

datatype compact_report =
    CompactStatus ustr
  | CompactDone nat nat nat ustr "ustr list"

datatype summary_result = Summary ustr | WindowExceeded ustr | SummaryError ustr | SummaryTimeout

datatype summary_failure = TimedOut | OtherFailure ustr

record 'w compact_env =
  ce_text_of :: "json \<Rightarrow> ustr"
  ce_parse :: "ustr \<Rightarrow> json option"
  ce_bpe :: "(ustr \<Rightarrow> nat) option"
  ce_budget :: "message list \<Rightarrow> 'w \<Rightarrow> context_budget option"
  ce_instruction :: "'w \<Rightarrow> ustr"
  ce_summarize :: "message list \<Rightarrow> ustr \<Rightarrow> 'w \<Rightarrow> summary_result \<times> 'w"
  ce_checkpoint :: "message list \<Rightarrow> 'w \<Rightarrow> (ustr + unit) \<times> 'w"
  ce_persist :: "compaction_event \<Rightarrow> 'w \<Rightarrow> (ustr + unit) \<times> 'w"

record 'w compact_agent =
  ca_history :: "message list"
  ca_state :: compact_state
  ca_candidates :: "retrieved_memory_candidate list"
  ca_reports :: "compact_report list"
  ca_world :: 'w

definition AUTO_COMPACTION_RETRY_HYSTERESIS_TOKENS :: nat where
  "AUTO_COMPACTION_RETRY_HYSTERESIS_TOKENS = 8192"

definition timeout_text :: ustr where
  "timeout_text = lit ''history compaction timed out after 300 seconds''"

definition report :: "compact_report \<Rightarrow> 'w compact_agent \<Rightarrow> 'w compact_agent" where
  "report e a = a\<lparr>ca_reports := ca_reports a @ [e]\<rparr>"

subsection \<open>Counting tokens\<close>

definition estimate_message_tokens :: "'w compact_env \<Rightarrow> message \<Rightarrow> nat option" where
  "estimate_message_tokens env m =
     (case ce_bpe env of
        None \<Rightarrow> None
      | Some bpe \<Rightarrow> Some (bpe (case as_str (content m) of Some t \<Rightarrow> t | None \<Rightarrow> ce_text_of env (content m))))"

definition estimate_history_tokens :: "'w compact_env \<Rightarrow> message list \<Rightarrow> nat option" where
  "estimate_history_tokens env h =
     (if ce_bpe env = None then None else Some (\<Sum>m\<leftarrow>h. the (estimate_message_tokens env m)))"

definition estimate_or_zero :: "'w compact_env \<Rightarrow> message list \<Rightarrow> nat" where
  "estimate_or_zero env h = (case estimate_history_tokens env h of Some n \<Rightarrow> n | None \<Rightarrow> 0)"

definition record_history_message_tokens :: "'w compact_env \<Rightarrow> message \<Rightarrow> 'w compact_agent \<Rightarrow> 'w compact_agent" where
  "record_history_message_tokens env m a =
     a\<lparr>ca_state := (ca_state a)\<lparr>estimated_history_tokens := estimated_history_tokens (ca_state a) +
        (case estimate_message_tokens env m of
           Some n \<Rightarrow> n | None \<Rightarrow> approximate_token_count_for_message (ce_text_of env) m)\<rparr>\<rparr>"

definition push_history_message :: "'w compact_env \<Rightarrow> message \<Rightarrow> 'w compact_agent \<Rightarrow> 'w compact_agent" where
  "push_history_message env m a =
     (let a = record_history_message_tokens env m a in a\<lparr>ca_history := ca_history a @ [m]\<rparr>)"

definition extend_history_messages :: "'w compact_env \<Rightarrow> message list \<Rightarrow> 'w compact_agent \<Rightarrow> 'w compact_agent" where
  "extend_history_messages env ms a =
     (let a = fold (record_history_message_tokens env) ms a in a\<lparr>ca_history := ca_history a @ ms\<rparr>)"

definition recompute_history_token_estimate :: "'w compact_env \<Rightarrow> 'w compact_agent \<Rightarrow> 'w compact_agent" where
  "recompute_history_token_estimate env a =
     a\<lparr>ca_state := (ca_state a)\<lparr>estimated_history_tokens := estimate_or_zero env (ca_history a)\<rparr>\<rparr>"

definition replace_history :: "'w compact_env \<Rightarrow> message list \<Rightarrow> 'w compact_agent \<Rightarrow> 'w compact_agent" where
  "replace_history env h a = recompute_history_token_estimate env (a\<lparr>ca_history := h\<rparr>)"

subsection \<open>Asking for the summary\<close>

definition retry_status :: compact_report where
  "retry_status = CompactStatus
     (lit ''Compaction summary prompt exceeded the context window; retrying without the oldest API round.'')"

lemma second_group:
  assumes "\<not> length (group_history_by_api_round text_of h) < 2"
  defines "k \<equiv> gr_start (group_history_by_api_round text_of h ! 1)"
  shows "0 < k" "k < length h" "role (h ! k) = role_assistant"
proof -
  let ?gs = "group_history_by_api_round text_of h"
  note ok = groups_ok [where text_of = text_of and h = h]
  obtain g g' gs where gs: "?gs = g # g' # gs" using assms(1) by (cases ?gs; cases "tl ?gs") auto
  with ok(1,2) chain_bounds [OF ok(1), of g] chain_bounds [OF ok(1), of g']
  show "0 < k" "k < length h" "role (h ! k) = role_assistant" by (auto simp: k_def rounds_ok_def)
qed

function summarize_with_retry ::
  "'w compact_env \<Rightarrow> message list \<Rightarrow> ustr \<Rightarrow> nat \<Rightarrow> 'w compact_agent \<Rightarrow>
   (summary_failure + ustr) \<times> 'w compact_agent" where
  "summarize_with_retry env messages instruction input_start a =
     (let input = drop input_start messages in
      case ce_summarize env input instruction (ca_world a) of
        (Summary s, w) \<Rightarrow> (Inr s, a\<lparr>ca_world := w\<rparr>)
      | (SummaryTimeout, w) \<Rightarrow> (Inl TimedOut, a\<lparr>ca_world := w\<rparr>)
      | (SummaryError e, w) \<Rightarrow> (Inl (OtherFailure e), a\<lparr>ca_world := w\<rparr>)
      | (WindowExceeded e, w) \<Rightarrow>
          (let groups = group_history_by_api_round (ce_text_of env) input in
           if length groups < 2 then (Inl (OtherFailure e), a\<lparr>ca_world := w\<rparr>)
           else summarize_with_retry env messages instruction (input_start + gr_start (groups ! 1))
                  (report retry_status (a\<lparr>ca_world := w\<rparr>))))"
  by pat_completeness auto

termination
  by (relation "measure (\<lambda>(env, messages, instruction, input_start, a). length messages - input_start)")
    (use second_group in fastforce)+

subsection \<open>Replacing the history\<close>

definition record_auto_compaction_failure :: "nat \<Rightarrow> 'w compact_agent \<Rightarrow> 'w compact_agent" where
  "record_auto_compaction_failure current a =
     a\<lparr>ca_state := (ca_state a)\<lparr>consecutive_failures := consecutive_failures (ca_state a) + 1,
        retry_after_tokens := Some (saturating_add64 current AUTO_COMPACTION_RETRY_HYSTERESIS_TOKENS)\<rparr>\<rparr>"

definition clear_last :: "compact_state \<Rightarrow> compact_state" where
  "clear_last s = s\<lparr>last_before_tokens := None, last_after_tokens := None, last_recent_files := [], last_boundary := None\<rparr>"

text \<open>From \<open>replace_history\<close> to the final report.\<close>

definition install_compaction ::
  "'w compact_env \<Rightarrow> nat \<Rightarrow> compact_carry_over \<Rightarrow> message list \<Rightarrow> nat \<Rightarrow> nat \<Rightarrow> 'w compact_agent \<Rightarrow>
   (ustr + unit) \<times> 'w compact_agent" where
  "install_compaction env current co new_history from up_to a =
     (let a = replace_history env new_history a in
      case ce_checkpoint env (ca_history a) (ca_world a) of
        (Inl e, w) \<Rightarrow> (Inl e, a\<lparr>ca_world := w\<rparr>)
      | (Inr _, w) \<Rightarrow>
          (let files = co_recent_files co; after = estimated_history_tokens (ca_state a);
               count = compaction_count (ca_state a) + 1;
               s = (ca_state a)\<lparr>compaction_count := count, last_before_tokens := Some current,
                 last_after_tokens := Some after, last_recent_files := files,
                 last_boundary := Some \<lparr>bm_version = COMPACT_BOUNDARY_VERSION, bm_before_tokens = current,
                   bm_recent_file_count = length files\<rparr>,
                 consecutive_failures := 0, retry_after_tokens := None\<rparr>;
               a = a\<lparr>ca_state := s, ca_world := w\<rparr> in
           (case ce_persist env
               \<lparr>ev_index = count, ev_before = current, ev_after = after, ev_boundary_version = COMPACT_BOUNDARY_VERSION,
                ev_replaced_start = Some from, ev_replaced_end = Some up_to,
                ev_metadata_owner = Some (lit ''runtime.compaction''), ev_recent_files = files,
                ev_summary = co_summary co\<rparr> w of
              (Inl e, w) \<Rightarrow> (Inl e, a\<lparr>ca_world := w\<rparr>)
            | (Inr _, w) \<Rightarrow> (Inr (), report (CompactDone count current after (co_summary co) files) (a\<lparr>ca_world := w\<rparr>)))))"

text \<open>The budget and the estimate are refreshed before anything is decided.\<close>

definition prepare_compaction :: "'w compact_env \<Rightarrow> 'w compact_agent \<Rightarrow> 'w compact_agent" where
  "prepare_compaction env a =
     (let s = ca_state a;
          current = (if estimated_history_tokens s = 0 then estimate_or_zero env (ca_history a)
                     else estimated_history_tokens s);
          budget = ce_budget env (ca_history a) (ca_world a) in
      a\<lparr>ca_state := clear_last (s\<lparr>estimated_history_tokens := current,
         context_window_tokens := map_option context_window budget,
         compact_threshold_tokens := (case budget of Some b \<Rightarrow> compact_threshold b | None \<Rightarrow> 10000),
         reserved_output_tokens := (case budget of Some b \<Rightarrow> reserved_output b | None \<Rightarrow> 0)\<rparr>)\<rparr>)"

definition suspended :: "compact_state \<Rightarrow> bool" where
  "suspended s \<longleftrightarrow> (case retry_after_tokens s of None \<Rightarrow> False | Some n \<Rightarrow> estimated_history_tokens s < n)"

definition summarize_failed ::
  "bool \<Rightarrow> nat \<Rightarrow> summary_failure \<Rightarrow> 'w compact_agent \<Rightarrow> (ustr + unit) \<times> 'w compact_agent" where
  "summarize_failed force current f a =
     (if \<not> force then
        (Inr (), report (CompactStatus (case f of
             TimedOut \<Rightarrow> lit ''Automatic history compaction timed out; continuing without compaction.''
           | OtherFailure e \<Rightarrow> lit ''Automatic history compaction failed; continuing without compaction. '' @ e))
           (record_auto_compaction_failure current a))
      else (Inl (case f of TimedOut \<Rightarrow> timeout_text | OtherFailure e \<Rightarrow> e), a))"

definition compact_history ::
  "'w compact_env \<Rightarrow> bool \<Rightarrow> 'w compact_agent \<Rightarrow> (ustr + unit) \<times> 'w compact_agent" where
  "compact_history env force a =
     (let a = prepare_compaction env a; s = ca_state a; current = estimated_history_tokens s;
          threshold = compact_threshold_tokens s; h = ca_history a in
      if \<not> force \<and> current \<le> threshold then (Inr (), a)
      else if length h < 2 then (Inr (), a)
      else if \<not> force \<and> suspended s
      then (Inr (), report (CompactStatus
             (lit ''Automatic history compaction is temporarily suspended after a previous failure.'')) a)
      else
        let a = report (CompactStatus (if force then lit ''Compacting conversation history on demand.''
                  else lit ''Compacting long conversation history.'')) a in
        (case build_compact_plan (ce_text_of env) h threshold force of
           None \<Rightarrow> (Inr (), a)
         | Some plan \<Rightarrow>
             let compacted = take (summarize_end plan) h in
             (case summarize_with_retry env compacted (ce_instruction env (ca_world a)) 0 a of
                (Inl f, a) \<Rightarrow> summarize_failed force current f a
              | (Inr summary, a) \<Rightarrow>
                  let co = build_compact_carry_over (ce_parse env) summary compacted (ca_candidates a) in
                  install_compaction env current co
                    (build_post_compact_history current co (drop (retained_start plan) h)) 0 (retained_start plan) a)))"

definition compact_if_needed :: "'w compact_env \<Rightarrow> 'w compact_agent \<Rightarrow> (ustr + unit) \<times> 'w compact_agent" where
  "compact_if_needed env a = compact_history env False a"

definition compact_now :: "'w compact_env \<Rightarrow> 'w compact_agent \<Rightarrow> (ustr + bool) \<times> 'w compact_agent" where
  "compact_now env a =
     (case compact_history env True a of
        (Inl e, a) \<Rightarrow> (Inl e, a)
      | (Inr _, a) \<Rightarrow> (Inr (last_before_tokens (ca_state a) \<noteq> None), a))"

definition compact_range_now ::
  "'w compact_env \<Rightarrow> nat \<Rightarrow> nat \<Rightarrow> 'w compact_agent \<Rightarrow> (ustr + bool) \<times> 'w compact_agent" where
  "compact_range_now env from up_to a =
     (if up_to \<le> from then (Inr False, a)
      else if length (ca_history a) < up_to then (Inl (lit ''partial compaction range exceeds history length''), a)
      else (case ensure_api_round_boundary_range (ce_text_of env) (ca_history a) from up_to of
        Inl e \<Rightarrow> (Inl e, a)
      | Inr _ \<Rightarrow>
          let s = ca_state a; h = ca_history a;
              current = (if estimated_history_tokens s > 0 then estimated_history_tokens s else estimate_or_zero env h);
              a = report (CompactStatus (lit ''Compacting selected conversation history range.''))
                    (a\<lparr>ca_state := clear_last (s\<lparr>estimated_history_tokens := current\<rparr>)\<rparr>);
              compacted = take (up_to - from) (drop from h) in
          (case summarize_with_retry env compacted (ce_instruction env (ca_world a)) 0 a of
             (Inl f, a) \<Rightarrow> (Inl (case f of TimedOut \<Rightarrow> timeout_text | OtherFailure e \<Rightarrow> e), a)
           | (Inr summary, a) \<Rightarrow>
               let co = build_compact_carry_over (ce_parse env) summary compacted (ca_candidates a) in
               (case install_compaction env current co
                   (take from h @ build_post_compact_history current co [] @ drop up_to h) from up_to a of
                  (Inl e, a) \<Rightarrow> (Inl e, a)
                | (Inr _, a) \<Rightarrow> (Inr True, a)))))"

definition total_prompt_tokens :: "token_usage \<Rightarrow> nat" where
  "total_prompt_tokens u =
     saturating_add64 (saturating_add64 (input_tokens u) (cache_hit_tokens u)) (cache_miss_tokens u)"

definition record_actual_prompt_tokens :: "token_usage \<Rightarrow> 'w compact_agent \<Rightarrow> 'w compact_agent" where
  "record_actual_prompt_tokens u a = a\<lparr>ca_state := (ca_state a)\<lparr>estimated_history_tokens := total_prompt_tokens u\<rparr>\<rparr>"

subsection \<open>What the steps leave alone\<close>

lemma report_simps [simp]:
  "ca_history (report e a) = ca_history a" "ca_state (report e a) = ca_state a"
  "ca_candidates (report e a) = ca_candidates a" "ca_world (report e a) = ca_world a"
  by (simp_all add: report_def)

declare summarize_with_retry.simps [simp del]

lemma summarize_keeps:
  "summarize_with_retry env ms ins k a = (r, a') \<Longrightarrow>
     ca_history a' = ca_history a \<and> ca_state a' = ca_state a \<and> ca_candidates a' = ca_candidates a"
proof (induction env ms ins k a arbitrary: r rule: summarize_with_retry.induct)
  case (1 env ms ins k a)
  show ?case
  proof (cases "ce_summarize env (drop k ms) ins (ca_world a)")
    case (Pair res w)
    show ?thesis
    proof (cases res)
      case (WindowExceeded e)
      let ?gs = "group_history_by_api_round (ce_text_of env) (drop k ms)"
      show ?thesis
      proof (cases "length ?gs < 2")
        case True
        with 1(2) Pair WindowExceeded show ?thesis by (auto simp: summarize_with_retry.simps Let_def)
      next
        case False
        then have "summarize_with_retry env ms ins (k + gr_start (?gs ! 1)) (report retry_status (a\<lparr>ca_world := w\<rparr>)) = (r, a')"
          using 1(2) Pair WindowExceeded by (subst (asm) summarize_with_retry.simps) (simp add: Let_def)
        from 1(1) [OF refl Pair [symmetric] WindowExceeded refl False this] show ?thesis by simp
      qed
    qed (use 1(2) Pair in \<open>auto simp: summarize_with_retry.simps Let_def\<close>)
  qed
qed

lemma prepare_simps [simp]:
  "ca_history (prepare_compaction env a) = ca_history a" "ca_world (prepare_compaction env a) = ca_world a"
  "ca_reports (prepare_compaction env a) = ca_reports a" "ca_candidates (prepare_compaction env a) = ca_candidates a"
  "retry_after_tokens (ca_state (prepare_compaction env a)) = retry_after_tokens (ca_state a)"
  "last_before_tokens (ca_state (prepare_compaction env a)) = None"
  "consecutive_failures (ca_state (prepare_compaction env a)) = consecutive_failures (ca_state a)"
  "compaction_count (ca_state (prepare_compaction env a)) = compaction_count (ca_state a)"
  by (simp_all add: prepare_compaction_def Let_def clear_last_def)

lemma install_history:
  "install_compaction env current co h from up_to a = (r, a') \<Longrightarrow> ca_history a' = h"
  by (auto simp: install_compaction_def replace_history_def recompute_history_token_estimate_def Let_def
      split: prod.splits sum.splits)

lemma summarize_failed_history [simp]: "ca_history (snd (summarize_failed force current f a)) = ca_history a"
  by (simp add: summarize_failed_def record_auto_compaction_failure_def)

text \<open>What a call of \<open>compact_history\<close> does: nothing, a failed request, or a new history.\<close>

lemma compact_history_cases:
  assumes "compact_history env force a = (r, a')"
  defines "b \<equiv> prepare_compaction env a"
  obtains
    (skipped) "r = Inr ()" "ca_history a' = ca_history a" "ca_world a' = ca_world a" "ca_state a' = ca_state b"
  | (failed) f a1 where "(r, a') = summarize_failed force (estimated_history_tokens (ca_state b)) f a1"
      "ca_history a1 = ca_history a" "ca_state a1 = ca_state b"
      "force \<or> \<not> suspended (ca_state b)"
      "force \<or> compact_threshold_tokens (ca_state b) < estimated_history_tokens (ca_state b)"
  | (installed) plan co a1 where
      "build_compact_plan (ce_text_of env) (ca_history a) (compact_threshold_tokens (ca_state b)) force = Some plan"
      "install_compaction env (estimated_history_tokens (ca_state b)) co
         (build_post_compact_history (estimated_history_tokens (ca_state b)) co (drop (retained_start plan) (ca_history a)))
         0 (retained_start plan) a1 = (r, a')"
      "ca_state a1 = ca_state b" "ca_candidates a1 = ca_candidates a"
      "\<exists>summary. co = build_compact_carry_over (ce_parse env) summary (take (summarize_end plan) (ca_history a)) (ca_candidates a)"
      "force \<or> \<not> suspended (ca_state b)"
proof -
  let ?s = "ca_state b" and ?h = "ca_history a"
  let ?c = "report (CompactStatus (if force then lit ''Compacting conversation history on demand.''
                  else lit ''Compacting long conversation history.'')) b"
  consider (early) "(\<not> force \<and> estimated_history_tokens ?s \<le> compact_threshold_tokens ?s) \<or> length ?h < 2"
    | (waiting) "\<not> force" "suspended ?s" "\<not> estimated_history_tokens ?s \<le> compact_threshold_tokens ?s" "\<not> length ?h < 2"
    | (going) "force \<or> \<not> suspended ?s" "force \<or> \<not> estimated_history_tokens ?s \<le> compact_threshold_tokens ?s" "\<not> length ?h < 2"
    by blast
  then show thesis
  proof cases
    case early
    with assms show thesis by (intro skipped) (auto simp: compact_history_def Let_def split: if_splits)
  next
    case waiting
    with assms show thesis by (intro skipped) (auto simp: compact_history_def Let_def)
  next
    case going
    show thesis
    proof (cases "build_compact_plan (ce_text_of env) ?h (compact_threshold_tokens ?s) force")
      case None
      with going assms show thesis by (intro skipped) (auto simp: compact_history_def Let_def split: if_splits)
    next
      case (Some plan)
      let ?m = "take (summarize_end plan) ?h"
      obtain res a1 where s: "summarize_with_retry env ?m (ce_instruction env (ca_world a)) 0 ?c = (res, a1)"
        by fastforce
      note kept = summarize_keeps [OF s]
      show thesis
      proof (cases res)
        case (Inl f)
        with going Some s assms kept show thesis
          by (intro failed [of f a1]) (auto simp: compact_history_def Let_def)
      next
        case (Inr summary)
        with going Some s assms kept show thesis
          by (intro installed [of plan "build_compact_carry_over (ce_parse env) summary ?m (ca_candidates a)" a1])
            (auto simp: compact_history_def Let_def)
      qed
    qed
  qed
qed

lemma install_ok:
  assumes "install_compaction env current co h from up_to a = (r, a')"
    and "\<And>h w. fst (ce_checkpoint env h w) = Inr ()" "\<And>e w. fst (ce_persist env e w) = Inr ()"
  shows "r = Inr () \<and> consecutive_failures (ca_state a') = 0 \<and> retry_after_tokens (ca_state a') = None"
proof -
  obtain w where "ce_checkpoint env h (ca_world (replace_history env h a)) = (Inr (), w)"
    using assms(2) by (metis prod.collapse)
  moreover have "\<exists>w'. ce_persist env e w = (Inr (), w')" for e using assms(3) by (metis prod.collapse)
  ultimately show ?thesis
    using assms(1)
    by (auto simp: install_compaction_def replace_history_def recompute_history_token_estimate_def Let_def
        split: prod.splits sum.splits) (metis prod.inject sum.distinct(1))+
qed

lemma install_state:
  assumes "install_compaction env current co h from up_to a = (Inr (), a')"
  shows "last_before_tokens (ca_state a') = Some current \<and> compaction_count (ca_state a') = Suc (compaction_count (ca_state a))"
  using assms
  by (auto simp: install_compaction_def replace_history_def recompute_history_token_estimate_def Let_def
      split: prod.splits sum.splits)

lemma post_history_paired: "paired (build_post_compact_history n co kept) [] \<longleftrightarrow> paired kept []"
  unfolding post_history by (rule paired_system [OF added_system])

lemma paired_join: "paired xs p \<Longrightarrow> paired (xs @ ys) p \<longleftrightarrow> paired ys []"
  by (induction xs p rule: paired.induct) (auto split: option.splits if_splits)

lemma boundary_role:
  assumes "is_round_boundary text_of h k" "k < length h" "0 < k"
  shows "role (h ! k) = role_assistant"
proof -
  let ?gs = "group_history_by_api_round text_of h"
  note ok = groups_ok [where text_of = text_of and h = h]
  obtain i where i: "i < length ?gs" "gr_start (?gs ! i) = k \<or> gr_end (?gs ! i) = k"
    using assms(1,2) by (auto simp: is_round_boundary_def list_ex_iff in_set_conv_nth)
  have tl: "?gs ! j \<in> set (tl ?gs)" if "0 < j" "j < length ?gs" for j
    using that by (cases ?gs; cases j) auto
  from i(2) show ?thesis
  proof
    assume s: "gr_start (?gs ! i) = k"
    then have "i \<noteq> 0" using assms(3) chain_hd [OF ok(1)] i(1) by (cases i) auto
    with s tl [of i] i(1) ok(2) show ?thesis by (auto simp: rounds_ok_def)
  next
    assume e: "gr_end (?gs ! i) = k"
    have "Suc i < length ?gs"
    proof (rule ccontr)
      assume "\<not> Suc i < length ?gs"
      with i(1) have "i = length ?gs - 1" "?gs \<noteq> []" by auto
      then have "?gs ! i = last ?gs" by (simp add: last_conv_nth)
      with chain_last_end [OF ok(1) \<open>?gs \<noteq> []\<close>] e assms(2) show False by simp
    qed
    with e tl [of "Suc i"] chain_nth_Suc [OF ok(1), of i] ok(2) show ?thesis by (auto simp: rounds_ok_def)
  qed
qed

lemma install_failures:
  assumes "install_compaction env current co h from up_to a = (r, a')"
  shows "consecutive_failures (ca_state a') \<le> consecutive_failures (ca_state a)"
  using assms
  by (auto simp: install_compaction_def replace_history_def recompute_history_token_estimate_def Let_def
      split: prod.splits sum.splits)

lemma record_tokens_keeps:
  "ca_history (fold (record_history_message_tokens env) ms a) = ca_history a \<and>
   ca_world (fold (record_history_message_tokens env) ms a) = ca_world a \<and>
   retry_after_tokens (ca_state (fold (record_history_message_tokens env) ms a)) = retry_after_tokens (ca_state a) \<and>
   estimated_history_tokens (ca_state a) \<le> estimated_history_tokens (ca_state (fold (record_history_message_tokens env) ms a))"
proof (induction ms arbitrary: a)
  case (Cons m ms)
  from Cons [of "record_history_message_tokens env m a"] show ?case
    by (auto simp: record_history_message_tokens_def)
qed simp

lemma extend_keeps:
  "ca_history (extend_history_messages env ms a) = ca_history a @ ms"
  "ca_world (extend_history_messages env ms a) = ca_world a"
  "retry_after_tokens (ca_state (extend_history_messages env ms a)) = retry_after_tokens (ca_state a)"
  "estimated_history_tokens (ca_state a) \<le> estimated_history_tokens (ca_state (extend_history_messages env ms a))"
  using record_tokens_keeps [of env ms a] by (simp_all add: extend_history_messages_def Let_def)

lemma prepare_estimate:
  "estimated_history_tokens (ca_state a) \<noteq> 0 \<Longrightarrow>
     estimated_history_tokens (ca_state (prepare_compaction env a)) = estimated_history_tokens (ca_state a)"
  by (simp add: prepare_compaction_def Let_def clear_last_def)

lemma compact_range_cases:
  assumes "compact_range_now env from up_to a = (r, a')"
  obtains (kept) "ca_history a' = ca_history a"
  | (replaced) n co where "from < up_to" "up_to \<le> length (ca_history a)"
      "is_round_boundary (ce_text_of env) (ca_history a) from" "is_round_boundary (ce_text_of env) (ca_history a) up_to"
      "ca_history a' = take from (ca_history a) @ added_messages n co @ drop up_to (ca_history a)"
proof (cases "up_to \<le> from \<or> length (ca_history a) < up_to \<or>
    ensure_api_round_boundary_range (ce_text_of env) (ca_history a) from up_to \<noteq> Inr ()")
  case True
  with assms show thesis by (intro kept) (auto simp: compact_range_now_def split: if_splits sum.splits)
next
  case False
  let ?h = "ca_history a" and ?s = "ca_state a"
  let ?n = "if estimated_history_tokens ?s > 0 then estimated_history_tokens ?s else estimate_or_zero env ?h"
  let ?c = "report (CompactStatus (lit ''Compacting selected conversation history range.''))
      (a\<lparr>ca_state := clear_last (?s\<lparr>estimated_history_tokens := ?n\<rparr>)\<rparr>)"
  let ?m = "take (up_to - from) (drop from ?h)"
  obtain res b where s: "summarize_with_retry env ?m (ce_instruction env (ca_world ?c)) 0 ?c = (res, b)" by fastforce
  note kept' = summarize_keeps [OF s]
  show thesis
  proof (cases res)
    case (Inl f)
    with False assms s kept' show thesis
      by (intro kept) (auto simp: compact_range_now_def Let_def ensure_api_round_boundary_range_def split: if_splits)
  next
    case (Inr summary)
    let ?co = "build_compact_carry_over (ce_parse env) summary ?m (ca_candidates b)"
    obtain r2 b2 where i: "install_compaction env ?n ?co (take from ?h @ build_post_compact_history ?n ?co [] @ drop up_to ?h)
        from up_to b = (r2, b2)" by fastforce
    with False assms s kept' Inr have "a' = b2"
      by (auto simp: compact_range_now_def Let_def ensure_api_round_boundary_range_def split: if_splits sum.splits)
    with False install_history [OF i] show thesis
      by (intro replaced) (auto simp: ensure_api_round_boundary_range_def post_history split: if_splits)
  qed
qed

lemma summarize_requests:
  "(\<And>ms ins w. snd (ce_summarize env ms ins w) = w @ [ms]) \<Longrightarrow> summarize_with_retry env ms ins i a = (r, a') \<Longrightarrow>
     \<exists>ks. ca_world a' = ca_world a @ map (\<lambda>k. drop k ms) (i # ks) \<and> sorted_wrt (<) (i # ks) \<and>
       (\<forall>k \<in> set ks. k < length ms \<and> role (ms ! k) = role_assistant)"
proof (induction env ms ins i a arbitrary: r rule: summarize_with_retry.induct)
  case (1 env ms ins i a)
  note step = 1(1) and logs = 1(2) and run = 1(3)
  obtain res where res: "ce_summarize env (drop i ms) ins (ca_world a) = (res, ca_world a @ [drop i ms])"
    using logs by (metis prod.collapse)
  let ?gs = "group_history_by_api_round (ce_text_of env) (drop i ms)"
  show ?case
  proof (cases "(\<exists>e. res = WindowExceeded e) \<and> \<not> length ?gs < 2")
    case False
    with run res have "ca_world a' = ca_world a @ [drop i ms]"
      by (subst (asm) summarize_with_retry.simps) (auto simp: Let_def split: summary_result.splits)
    then show ?thesis by (intro exI [of _ "[]"]) simp
  next
    case True
    then obtain e where e: "res = WindowExceeded e" by blast
    let ?j = "i + gr_start (?gs ! 1)" and ?b = "report retry_status (a\<lparr>ca_world := ca_world a @ [drop i ms]\<rparr>)"
    have "summarize_with_retry env ms ins ?j ?b = (r, a')"
      using run res e True by (subst (asm) summarize_with_retry.simps) (simp add: Let_def)
    from step [OF refl res [symmetric] e refl _ logs this] True obtain ks where
      ks: "ca_world a' = ca_world ?b @ map (\<lambda>k. drop k ms) (?j # ks)" "sorted_wrt (<) (?j # ks)"
        "\<forall>k \<in> set ks. k < length ms \<and> role (ms ! k) = role_assistant" by blast
    have "i < ?j" "?j < length ms" "role (ms ! ?j) = role_assistant"
      using second_group [of "ce_text_of env" "drop i ms"] True by auto
    with ks show ?thesis by (intro exI [of _ "?j # ks"]) auto
  qed
qed

subsection \<open>Properties\<close>

text \<open>
  C12. Whatever happens in a compaction, on demand or automatic, successful or not, the history that is
  left is the old one or some added records followed by a suffix of it, and if the old history answers
  every tool call the new one does.
\<close>

theorem compaction_keeps_protocol:
  assumes "compact_history env force a = (r, a')"
  shows "(ca_history a' = ca_history a \<or> (\<exists>n co k. 0 < k \<and> k \<le> length (ca_history a) \<and>
       ca_history a' = added_messages n co @ drop k (ca_history a))) \<and>
     (paired (ca_history a) [] \<longrightarrow> paired (ca_history a') [])"
proof (rule compact_history_cases [OF assms], goal_cases)
  case (2 f a1)
  then have "ca_history a' = ca_history a" by (metis summarize_failed_history snd_conv)
  then show ?case by simp
next
  case (3 plan co a1)
  note h = install_history [OF 3(2)] and start = plan_start [OF 3(1)]
  have "paired (ca_history a) [] \<Longrightarrow> paired (drop (retained_start plan) (ca_history a)) []"
    using paired_cut start(3,4) by blast
  moreover have "ca_history a' = added_messages (estimated_history_tokens (ca_state (prepare_compaction env a))) co @
      drop (retained_start plan) (ca_history a)"
    using h by (simp add: post_history)
  ultimately show ?case
    using start(2,3) by (auto simp: paired_system [OF added_system])
qed simp

text \<open>
  An automatic compaction never fails the turn as long as the session store works: whatever the
  provider answers it returns normally, and either the history is replaced and the back-off cleared,
  or the history stays as it was.
\<close>

theorem automatic_compaction_is_best_effort:
  assumes "compact_history env False a = (r, a')"
    and "\<And>h w. fst (ce_checkpoint env h w) = Inr ()" "\<And>e w. fst (ce_persist env e w) = Inr ()"
  shows "r = Inr () \<and> (ca_history a' = ca_history a \<or>
     (consecutive_failures (ca_state a') = 0 \<and> retry_after_tokens (ca_state a') = None))"
proof (rule compact_history_cases [OF assms(1)], goal_cases)
  case (2 f a1)
  then show ?case by (metis summarize_failed_history summarize_failed_def prod.sel fst_conv snd_conv)
next
  case (3 plan co a1)
  from install_ok [OF 3(2) assms(2,3)] show ?case by simp
qed simp

text \<open>
  After an automatic compaction whose summary request failed, the next automatic one sends no
  request and changes nothing in the history or in the world until the history has grown by 8192
  estimated tokens.
\<close>

theorem failed_compaction_backs_off:
  assumes "compact_history env False a = (r, b)"
    and "consecutive_failures (ca_state a) < consecutive_failures (ca_state b)"
    and "estimated_history_tokens (ca_state (extend_history_messages env ms b))
           < saturating_add64 (estimated_history_tokens (ca_state b)) 8192"
    and "compact_history env False (extend_history_messages env ms b) = (r', c)"
  shows "r' = Inr () \<and> ca_history c = ca_history b @ ms \<and> ca_world c = ca_world b"
proof -
  let ?e = "extend_history_messages env ms b"
  have "retry_after_tokens (ca_state b) = Some (saturating_add64 (estimated_history_tokens (ca_state b)) 8192)
      \<and> 0 < estimated_history_tokens (ca_state b)"
  proof (rule compact_history_cases [OF assms(1)], goal_cases)
    case 1
    with assms(2) show ?case by simp
  next
    case (2 f a1)
    then show ?case
      by (auto simp: summarize_failed_def record_auto_compaction_failure_def AUTO_COMPACTION_RETRY_HYSTERESIS_TOKENS_def)
  next
    case (3 plan co a1)
    from install_failures [OF 3(2)] 3(3) assms(2) show ?case by simp
  qed
  then have "suspended (ca_state (prepare_compaction env ?e))"
    using assms(3) extend_keeps(4) [of b env ms] by (auto simp: suspended_def prepare_estimate extend_keeps(3))
  with assms(4) show ?thesis
    by (auto simp: compact_history_def Let_def extend_keeps split: if_splits)
qed

text \<open>
  A compaction on demand answers yes exactly when it has installed a new history and counted it;
  when it answers no, the history is untouched.
\<close>

theorem compact_now_reports_installation:
  assumes "compact_now env a = (Inr installed, a')"
  shows "compaction_count (ca_state a') = compaction_count (ca_state a) + (if installed then 1 else 0) \<and>
     (\<not> installed \<longrightarrow> ca_history a' = ca_history a)"
proof -
  have run: "compact_history env True a = (Inr (), a')" "installed \<longleftrightarrow> last_before_tokens (ca_state a') \<noteq> None"
    using assms by (auto simp: compact_now_def split: prod.splits sum.splits)
  show ?thesis
  proof (rule compact_history_cases [OF run(1)], goal_cases)
    case (2 f a1)
    then show ?case by (simp add: summarize_failed_def)
  next
    case (3 plan co a1)
    from install_state [OF 3(2)] 3(3) run(2) show ?case by simp
  qed (simp add: run(2))
qed

text \<open>
  Compacting a selected range replaces exactly that range: on any outcome the history is the old
  one or its prefix, the added records and its suffix, and a history that answers every tool call
  still does, because the range must be aligned with API rounds.
\<close>

theorem range_compaction_keeps_protocol:
  assumes "compact_range_now env from up_to a = (r, a')"
  shows "(ca_history a' = ca_history a \<or> (\<exists>n co. from < up_to \<and> up_to \<le> length (ca_history a) \<and>
       ca_history a' = take from (ca_history a) @ added_messages n co @ drop up_to (ca_history a))) \<and>
     (paired (ca_history a) [] \<longrightarrow> paired (ca_history a') [])"
proof (rule compact_range_cases [OF assms], goal_cases)
  case (2 n co)
  let ?h = "ca_history a"
  have cut: "paired (take k ?h) [] \<and> paired (drop k ?h) []"
    if "paired ?h []" "is_round_boundary (ce_text_of env) ?h k" "k \<le> length ?h" for k
    using that paired_cut [of ?h k] boundary_role [of "ce_text_of env" ?h k] by (cases "k = 0") auto
  show ?case
    using 2 cut [of "from"] cut [of up_to]
    by (auto simp: paired_join paired_system [OF added_system])
qed simp

text \<open>
  A summary request that exceeds the context window is repeated without its oldest API rounds: the
  requests are ever shorter suffixes of the summarised records, the first is all of them, and each
  later one starts at an assistant record, so it never starts with the result of a dropped call.
\<close>

theorem summary_retries_drop_oldest_rounds:
  assumes "\<And>ms ins w. snd (ce_summarize env ms ins w) = w @ [ms]"
    and "summarize_with_retry env ms ins 0 a = (r, a')"
  shows "\<exists>ks. ca_world a' = ca_world a @ map (\<lambda>k. drop k ms) (0 # ks) \<and> sorted_wrt (<) (0 # ks) \<and>
     (\<forall>k \<in> set ks. k < length ms \<and> role (ms ! k) = role_assistant)"
  using summarize_requests [OF assms] by blast

subsection \<open>An example\<close>

text \<open>A provider that answers \<open>res\<close>, and logs the requests; a store that never fails.\<close>

definition demo_env :: "(message list \<Rightarrow> summary_result) \<Rightarrow> message list list compact_env" where
  "demo_env res = \<lparr>ce_text_of = demo_text, ce_parse = (\<lambda>_. None), ce_bpe = Some length,
     ce_budget = (\<lambda>h w. Some \<lparr>context_window = 32, reserved_output = 4, compact_threshold = 16\<rparr>),
     ce_instruction = (\<lambda>w. lit ''Summarise''), ce_summarize = (\<lambda>ms i w. (res ms, w @ [ms])),
     ce_checkpoint = (\<lambda>h w. (Inr (), w)), ce_persist = (\<lambda>e w. (Inr (), w))\<rparr>"

definition demo_agent :: "message list list compact_agent" where
  "demo_agent = \<lparr>ca_history = demo_conversation,
     ca_state = \<lparr>estimated_history_tokens = 20, context_window_tokens = None, compact_threshold_tokens = 0,
       reserved_output_tokens = 0, compaction_count = 0, last_before_tokens = None, last_after_tokens = None,
       last_recent_files = [], last_boundary = None, consecutive_failures = 0, retry_after_tokens = None\<rparr>,
     ca_candidates = [], ca_reports = [], ca_world = []\<rparr>"

definition too_big :: "message list \<Rightarrow> summary_result" where
  "too_big ms = (if length ms < 3 then Summary (lit ''done'') else WindowExceeded (lit ''too big''))"

lemma demo_paired: "paired demo_conversation []"
  by code_simp

theorem compaction_keeps_protocol_witness:
  "paired (ca_history (snd (compact_history (demo_env (\<lambda>_. Summary (lit ''short''))) False demo_agent))) []"
  using compaction_keeps_protocol [of "demo_env (\<lambda>_. Summary (lit ''short''))" False demo_agent] demo_paired
  by (metis demo_agent_def compact_agent.select_convs(1) prod.collapse)

theorem automatic_compaction_is_best_effort_witness:
  "fst (compact_history (demo_env (\<lambda>_. SummaryTimeout)) False demo_agent) = Inr ()"
  using automatic_compaction_is_best_effort [of "demo_env (\<lambda>_. SummaryTimeout)" demo_agent]
  by (simp add: demo_env_def) (metis prod.collapse)

lemma demo_timeout:
  "\<exists>b. compact_history (demo_env (\<lambda>_. SummaryTimeout)) False demo_agent = (Inr (), b) \<and>
     ca_history b = demo_conversation \<and> consecutive_failures (ca_state b) = 1 \<and>
     estimated_history_tokens (ca_state b) = 20 \<and> ca_world b = [take 3 demo_conversation]"
proof -
  have "length demo_conversation = 5" by (simp add: demo_conversation_def)
  then show ?thesis
    using demo_plan
    by (simp add: compact_history_def demo_env_def demo_agent_def prepare_compaction_def clear_last_def suspended_def
        summarize_with_retry.simps summarize_failed_def record_auto_compaction_failure_def report_def Let_def)
qed

theorem failed_compaction_backs_off_witness:
  "\<exists>b. compact_history (demo_env (\<lambda>_. SummaryTimeout)) False demo_agent = (Inr (), b) \<and>
     ca_world (snd (compact_history (demo_env (\<lambda>_. SummaryTimeout)) False
       (extend_history_messages (demo_env (\<lambda>_. SummaryTimeout)) [say ''user'' ''hi''] b))) = [take 3 demo_conversation]"
proof -
  let ?env = "demo_env (\<lambda>_. SummaryTimeout)" and ?m = "[say ''user'' ''hi'']"
  obtain b where b: "compact_history ?env False demo_agent = (Inr (), b)" "consecutive_failures (ca_state b) = 1"
    "estimated_history_tokens (ca_state b) = 20" "ca_world b = [take 3 demo_conversation]"
    using demo_timeout by blast
  have "consecutive_failures (ca_state demo_agent) < consecutive_failures (ca_state b)"
    using b(2) by (simp add: demo_agent_def)
  moreover have "estimated_history_tokens (ca_state (extend_history_messages ?env ?m b))
      < saturating_add64 (estimated_history_tokens (ca_state b)) 8192"
    using b(3) by (simp add: extend_history_messages_def record_history_message_tokens_def estimate_message_tokens_def
        demo_env_def say_def as_str_def saturating_add64_def u64_max_def Let_def)
  ultimately show ?thesis
    using failed_compaction_backs_off [OF b(1), of ?m] b(1,4) by (metis prod.collapse)
qed

lemma demo_forced_plan:
  "build_compact_plan demo_text demo_conversation 16 True = Some \<lparr>summarize_end = 3, retained_start = 3\<rparr>"
  by code_simp

lemma demo_installed:
  "\<exists>b. compact_history (demo_env (\<lambda>_. Summary (lit ''short''))) True demo_agent = (Inr (), b) \<and>
     last_before_tokens (ca_state b) = Some 20"
proof -
  have "length demo_conversation = 5" by (simp add: demo_conversation_def)
  then show ?thesis
    using demo_forced_plan
    by (simp add: compact_history_def demo_env_def demo_agent_def prepare_compaction_def clear_last_def
        summarize_with_retry.simps install_compaction_def replace_history_def
        recompute_history_token_estimate_def report_def Let_def)
qed

theorem compact_now_reports_installation_witness:
  "\<exists>b. compact_now (demo_env (\<lambda>_. Summary (lit ''short''))) demo_agent = (Inr True, b) \<and>
     compaction_count (ca_state b) = 1"
proof -
  let ?env = "demo_env (\<lambda>_. Summary (lit ''short''))"
  obtain b where "compact_history ?env True demo_agent = (Inr (), b)" "last_before_tokens (ca_state b) = Some 20"
    using demo_installed by blast
  then have "compact_now ?env demo_agent = (Inr True, b)" by (simp add: compact_now_def)
  with compact_now_reports_installation [OF this] show ?thesis by (simp add: demo_agent_def)
qed

theorem range_compaction_keeps_protocol_witness:
  "is_round_boundary demo_text demo_conversation 1 \<and> is_round_boundary demo_text demo_conversation 3 \<and>
   paired (ca_history (snd (compact_range_now (demo_env (\<lambda>_. Summary (lit ''short''))) 1 3 demo_agent))) []"
proof -
  have "is_round_boundary demo_text demo_conversation 1 \<and> is_round_boundary demo_text demo_conversation 3"
    by code_simp
  with range_compaction_keeps_protocol [OF surjective_pairing, of "demo_env (\<lambda>_. Summary (lit ''short''))" 1 3 demo_agent]
  show ?thesis using demo_paired by (simp add: demo_agent_def)
qed

theorem summary_retries_drop_oldest_rounds_witness:
  "\<exists>ks. ca_world (snd (summarize_with_retry (demo_env too_big) demo_conversation (lit ''i'') 0 demo_agent)) =
       map (\<lambda>k. drop k demo_conversation) (0 # ks) \<and> ks \<noteq> [] \<and>
     (\<forall>k \<in> set ks. role (demo_conversation ! k) = role_assistant)"
proof -
  let ?run = "summarize_with_retry (demo_env too_big) demo_conversation (lit ''i'') 0 demo_agent"
  have logs: "snd (ce_summarize (demo_env too_big) ms ins w) = w @ [ms]" for ms ins w by (simp add: demo_env_def)
  obtain ks where ks: "ca_world (snd ?run) = ca_world demo_agent @ map (\<lambda>k. drop k demo_conversation) (0 # ks)"
    "\<forall>k \<in> set ks. k < length demo_conversation \<and> role (demo_conversation ! k) = role_assistant"
    using summary_retries_drop_oldest_rounds [OF logs surjective_pairing, of demo_conversation "lit ''i''" demo_agent]
    by blast
  have "length (ca_world (snd ?run)) = 3" by code_simp
  then have "ks \<noteq> []" using ks(1) by (auto simp: demo_agent_def)
  with ks show ?thesis by (auto simp: demo_agent_def)
qed

end
