(* ===== verification/TextSearch.thy ===== *)
theory TextSearch
  imports Prelude
begin

section \<open>Searching for tags in text\<close>

text \<open>
  \<open>str::find\<close> and \<open>str::rfind\<close> as positions in the list of characters (the code's byte offsets are
  only used to cut at the match), and the facts about occurrences of a tag that the filters of
  streamed text share: a tag that begins with a character it does not repeat cannot overlap itself.
\<close>

fun str_find :: "ustr \<Rightarrow> ustr \<Rightarrow> nat option" where
  "str_find [] p = (if p = [] then Some 0 else None)"
| "str_find (c # s) p = (if starts_with (c # s) p then Some 0 else map_option Suc (str_find s p))"

fun str_rfind :: "ustr \<Rightarrow> ustr \<Rightarrow> nat option" where
  "str_rfind [] p = (if p = [] then Some 0 else None)"
| "str_rfind (c # s) p =
     (case str_rfind s p of Some i \<Rightarrow> Some (Suc i)
      | None \<Rightarrow> if starts_with (c # s) p then Some 0 else None)"

lemma starts_with_drop: "starts_with s p \<Longrightarrow> s = p @ drop (length p) s"
  by (auto simp: starts_with_iff)

lemma starts_with_append_left: "starts_with s p \<Longrightarrow> starts_with (s @ t) p"
  by (auto simp: starts_with_iff)

lemma contains_str_Nil [simp]: "contains_str s []"
  by (cases s) auto

lemma contains_append: "contains_str s p \<Longrightarrow> contains_str (a @ s @ b) p"
  unfolding contains_str_iff by (metis append.assoc)

lemma contains_appendI1: "contains_str s p \<Longrightarrow> contains_str (s @ b) p"
  using contains_append [of s p "[]" b] by simp

lemma contains_appendI2: "contains_str s p \<Longrightarrow> contains_str (a @ s) p"
  using contains_append [of s p a "[]"] by simp

lemma contains_set: "contains_str s p \<Longrightarrow> set p \<subseteq> set s"
  by (auto simp: contains_str_iff)

lemma str_find_None: "str_find s p = None \<longleftrightarrow> \<not> contains_str s p"
  by (induction s) auto

lemma str_find_Some:
  "str_find s p = Some i \<Longrightarrow> s = take i s @ p @ drop (i + length p) s \<and> i + length p \<le> length s"
proof (induction s arbitrary: i)
  case (Cons c s)
  show ?case
  proof (cases "starts_with (c # s) p")
    case True
    with Cons.prems starts_with_drop [OF True] starts_with_length [OF True] show ?thesis by auto
  next
    case False
    then obtain j where "str_find s p = Some j" "i = Suc j" using Cons.prems by auto
    with Cons.IH [of j] show ?thesis by simp
  qed
qed (auto split: if_splits)

lemma str_find_first:
  "str_find s p = Some i \<Longrightarrow> j < i \<Longrightarrow> \<not> starts_with (drop j s) p"
proof (induction s arbitrary: i j)
  case (Cons c s)
  then show ?case by (cases j) (auto split: if_splits)
qed (auto split: if_splits)

lemma str_find_pos: "starts_with (drop i s) p \<Longrightarrow> (\<And>j. j < i \<Longrightarrow> \<not> starts_with (drop j s) p) \<Longrightarrow>
    i \<le> length s \<Longrightarrow> str_find s p = Some i"
proof (induction s arbitrary: i)
  case (Cons c s)
  show ?case
  proof (cases i)
    case (Suc k)
    have "\<And>j. j < k \<Longrightarrow> \<not> starts_with (drop j s) p" using Cons.prems(2) Suc by (metis Suc_less_eq drop_Suc_Cons)
    with Cons Suc have "str_find s p = Some k" by simp
    moreover have "\<not> starts_with (c # s) p" using Cons.prems(2) [of 0] Suc by simp
    ultimately show ?thesis using Suc by simp
  qed (use Cons in simp)
qed (auto simp: starts_with_iff)

text \<open>A tag whose first character occurs only there.\<close>

definition tag_like :: "ustr \<Rightarrow> bool" where
  "tag_like p \<longleftrightarrow> p \<noteq> [] \<and> hd p \<notin> set (tl p)"

lemma tag_not_overlapping:
  assumes "tag_like p" "s @ p @ t = a @ p @ b" "length a < length s"
  shows "length a + length p \<le> length s"
proof (rule ccontr)
  assume n: "\<not> ?thesis"
  let ?k = "length s - length a"
  have k: "0 < ?k" "?k < length p" using n assms(3) by auto
  have "(s @ p @ t) ! length s = hd p"
    using assms(1) by (simp add: tag_like_def nth_append hd_conv_nth)
  moreover have "(a @ p @ b) ! length s = p ! ?k"
    using k assms(3) by (simp add: nth_append)
  ultimately have "hd p = p ! ?k" using assms(2) by simp
  moreover have "p ! ?k \<in> set (tl p)"
  proof -
    obtain m where m: "?k = Suc m" using k(1) by (cases ?k) auto
    with k(2) have "m < length (tl p)" by simp
    with m show ?thesis by (metis nth_mem nth_tl)
  qed
  ultimately show False using assms(1) by (simp add: tag_like_def)
qed

lemma find_fresh:
  assumes "tag_like p" "\<not> contains_str s p"
  shows "str_find (s @ p @ t) p = Some (length s)"
proof (rule str_find_pos)
  fix j
  assume j: "j < length s"
  show "\<not> starts_with (drop j (s @ p @ t)) p"
  proof
    assume "starts_with (drop j (s @ p @ t)) p"
    then obtain b where b: "drop j (s @ p @ t) = p @ b" by (auto simp: starts_with_iff)
    have "s @ p @ t = take j (s @ p @ t) @ drop j (s @ p @ t)" by (rule append_take_drop_id [symmetric])
    with b j have "s @ p @ t = take j s @ p @ b" by simp
    with tag_not_overlapping [OF assms(1), of s t "take j s" b] j have le: "j + length p \<le> length s" by simp
    have "take (length p) (drop j s @ p @ t) = p" using b j by simp
    with le have "take (length p) (drop j s) = p" by simp
    then have "s = take j s @ p @ drop (length p) (drop j s)" by (metis append_take_drop_id)
    then have "contains_str s p" by (auto simp: contains_str_iff)
    with assms(2) show False by simp
  qed
qed simp_all

text \<open>An occurrence in two pieces of text joined by a character that the tag does not have is in one of them.\<close>

lemma contains_sep:
  assumes "contains_str (s @ c # t) p" "c \<notin> set p"
  shows "contains_str s p \<or> contains_str t p"
proof -
  obtain a b where ab: "s @ c # t = a @ p @ b" using assms(1) by (auto simp: contains_str_iff)
  consider u where "s = a @ p @ u" | u v where "p = u @ c # v" "s = a @ u" | u where "a = s @ c # u"
    using ab by (auto simp: append_eq_append_conv2 Cons_eq_append_conv append_eq_Cons_conv)
  then show ?thesis
  proof cases
    case (3 u)
    with ab have "t = u @ p @ b" by simp
    then show ?thesis by (auto simp: contains_str_iff)
  qed (use assms(2) in \<open>auto simp: contains_str_iff\<close>)
qed

lemma str_rfind_append:
  "str_rfind (s @ t) [b] = (case str_rfind t [b] of Some i \<Rightarrow> Some (length s + i) | None \<Rightarrow> str_rfind s [b])"
  by (induction s) (auto split: option.splits)

lemma str_rfind_None: "str_rfind s [b] = None \<longleftrightarrow> b \<notin> set s"
  by (induction s) (auto split: option.splits)

lemma str_rfind_less: "str_rfind s [b] = Some i \<Longrightarrow> i < length s"
  by (induction s arbitrary: i) (auto split: option.splits if_splits)

end
