(* ===== verification/DsmlText.thy ===== *)
theory DsmlText
  imports TextSearch BTreeMap
begin

section \<open>Inline tool-call markup (src/llm/deepseek_dsml.rs)\<close>

text \<open>
  Some models write tool calls into their text, as DSML blocks with full-width or ASCII bars. The
  extraction takes the well-formed blocks out of the text and parses them; malformed blocks stay
  visible, and an orphaned tail of a block is cut off. The nom combinators are written out as
  functions on the remaining input; parsing a JSON argument is a parameter. Lemmas: text without a
  DSML token is untouched; every parser consumes input, so the loops end; a printed block of calls
  is read back.
\<close>

subsection \<open>Tags\<close>

definition wide_bar :: uchar where "wide_bar = 0xFF5C"

definition dsml_wide :: ustr where "dsml_wide = wide_bar # lit ''DSML'' @ [wide_bar]"

definition dsml_ascii :: ustr where "dsml_ascii = lit ''|DSML|''"

definition DSML_TOKENS :: "ustr list" where "DSML_TOKENS = [dsml_wide, dsml_ascii]"

definition open_tag :: "ustr \<Rightarrow> ustr \<Rightarrow> ustr" where
  "open_tag token name = lit ''<'' @ token @ name"

definition exact_open_tag :: "ustr \<Rightarrow> ustr \<Rightarrow> ustr" where
  "exact_open_tag token name = lit ''<'' @ token @ name @ lit ''>''"

definition close_tag :: "ustr \<Rightarrow> ustr \<Rightarrow> ustr" where
  "close_tag token name = lit ''</'' @ token @ name @ lit ''>''"

definition TOOL_CALLS_BLOCK_NAME :: ustr where "TOOL_CALLS_BLOCK_NAME = lit ''tool_calls''"
definition INVOKE_TAG_NAME :: ustr where "INVOKE_TAG_NAME = lit ''invoke''"
definition PARAMETER_TAG_NAME :: ustr where "PARAMETER_TAG_NAME = lit ''parameter''"

definition DSML_TAG_PREFIXES :: "ustr list" where
  "DSML_TAG_PREFIXES = concat (map (\<lambda>t. [exact_open_tag t TOOL_CALLS_BLOCK_NAME, open_tag t INVOKE_TAG_NAME,
     open_tag t PARAMETER_TAG_NAME, close_tag t TOOL_CALLS_BLOCK_NAME, close_tag t INVOKE_TAG_NAME,
     close_tag t PARAMETER_TAG_NAME]) DSML_TOKENS)"

definition DSML_ORPHAN_CLOSING_TAGS :: "ustr list" where
  "DSML_ORPHAN_CLOSING_TAGS =
     concat (map (\<lambda>t. [close_tag t TOOL_CALLS_BLOCK_NAME, close_tag t INVOKE_TAG_NAME]) DSML_TOKENS)"

definition contains_dsml :: "ustr \<Rightarrow> bool" where
  "contains_dsml text \<longleftrightarrow> list_ex (contains_str text) DSML_TOKENS"

record dsml_tool_call =
  dsml_name :: ustr
  dsml_input :: json

record dsml_extraction =
  visible_text :: ustr
  dsml_calls :: "dsml_tool_call list"

record dsml_open_tag =
  tag_start :: nat
  tag_token :: ustr
  tag_text :: ustr

text \<open>\<open>min_by_key\<close> keeps the first of equal candidates.\<close>

fun first_by_start :: "dsml_open_tag list \<Rightarrow> dsml_open_tag option" where
  "first_by_start [] = None"
| "first_by_start (t # ts) =
     (case first_by_start ts of None \<Rightarrow> Some t
      | Some u \<Rightarrow> Some (if tag_start t \<le> tag_start u then t else u))"

definition find_next_open_tag :: "ustr \<Rightarrow> ustr \<Rightarrow> dsml_open_tag option" where
  "find_next_open_tag input name =
     first_by_start (List.map_filter (\<lambda>token. let t = exact_open_tag token name in
       map_option (\<lambda>i. \<lparr>tag_start = i, tag_token = token, tag_text = t\<rparr>) (str_find input t)) DSML_TOKENS)"

subsection \<open>Parsers\<close>

text \<open>\<open>nom::tag\<close>, \<open>take_until\<close> and \<open>multispace0\<close>; a parser returns the rest of the input first.\<close>

definition take_until :: "ustr \<Rightarrow> ustr \<Rightarrow> (ustr \<times> ustr) option" where
  "take_until needle input = map_option (\<lambda>i. (drop i input, take i input)) (str_find input needle)"

definition multispace0 :: "ustr \<Rightarrow> ustr" where
  "multispace0 input = dropWhile (\<lambda>c. c \<in> {32, 9, 13, 10}) input"

definition quote_mark :: uchar where "quote_mark = 34"

definition quoted_attr :: "ustr \<Rightarrow> ustr \<Rightarrow> ustr option" where
  "quoted_attr attrs name =
     (let needle = name @ [61, quote_mark] in
      case str_find attrs needle of None \<Rightarrow> None
      | Some i \<Rightarrow> (let rest = drop (i + length needle) attrs in
          map_option (\<lambda>e. take e rest) (str_find rest [quote_mark])))"

text \<open>The common head of an invocation and a parameter: the open tag, its attributes, a non-empty name.\<close>

definition parse_head :: "ustr \<Rightarrow> ustr \<Rightarrow> (ustr \<times> ustr \<times> ustr) option" where
  "parse_head tag input =
     Option.bind (strip_prefix input tag) (\<lambda>input.
     Option.bind (take_until (lit ''>'') input) (\<lambda>(input, attrs).
     Option.bind (strip_prefix input (lit ''>'')) (\<lambda>input.
     Option.bind (quoted_attr attrs (lit ''name'')) (\<lambda>name.
       if name = [] then None else Some (input, attrs, name)))))"

definition parse_parameter :: "(ustr \<Rightarrow> json option) \<Rightarrow> ustr \<Rightarrow> ustr \<Rightarrow> (ustr \<times> ustr \<times> json) option" where
  "parse_parameter parse_json input token =
     Option.bind (parse_head (open_tag token PARAMETER_TAG_NAME) input) (\<lambda>(input, attrs, name).
     Option.bind (case quoted_attr attrs (lit ''string'') of
         None \<Rightarrow> Some False
       | Some s \<Rightarrow> if s = lit ''true'' then Some True else if s = lit ''false'' then Some False else None) (\<lambda>is_string.
     Option.bind (take_until (close_tag token PARAMETER_TAG_NAME) input) (\<lambda>(input, raw).
     Option.bind (strip_prefix input (close_tag token PARAMETER_TAG_NAME)) (\<lambda>input.
       Some (input, name,
         if is_string then JStr raw
         else (case parse_json (trim raw) of Some v \<Rightarrow> v | None \<Rightarrow> JStr (trim raw)))))))"

lemma strip_prefix_length: "strip_prefix s p = Some t \<Longrightarrow> length s = length p + length t"
  by (simp add: strip_prefix_Some)

lemma take_until_length: "take_until n s = Some (r, t) \<Longrightarrow> length s = length r + length t"
  by (auto simp: take_until_def dest: str_find_Some)

lemma parse_head_length: "parse_head tag input = Some (r, attrs, name) \<Longrightarrow> length r + length tag < length input"
  by (auto simp: parse_head_def bind_eq_Some_conv split: if_splits
      dest!: strip_prefix_length take_until_length)

lemma parse_parameter_length: "parse_parameter pj input token = Some (r, n, v) \<Longrightarrow> length r < length input"
  by (auto simp: parse_parameter_def bind_eq_Some_conv
      dest!: strip_prefix_length take_until_length parse_head_length)

lemma multispace0_length: "length (multispace0 s) \<le> length s"
  by (simp add: multispace0_def length_dropWhile_le)

function parse_parameters_from ::
  "(ustr \<Rightarrow> json option) \<Rightarrow> ustr \<Rightarrow> ustr \<Rightarrow> (ustr \<times> json) list \<Rightarrow> (ustr \<times> json) list option" where
  "parse_parameters_from pj token rest params =
     (if rest = [] then Some params
      else case parse_parameter pj rest token of
          None \<Rightarrow> None
        | Some (next, name, v) \<Rightarrow> parse_parameters_from pj token (multispace0 next) (bt_insert name v params))"
  by pat_completeness auto
termination
  by (relation "measure (\<lambda>(pj, token, rest, params). length rest)")
    (auto dest!: parse_parameter_length intro: le_less_trans [OF multispace0_length])

declare parse_parameters_from.simps [simp del]

definition parse_parameters :: "(ustr \<Rightarrow> json option) \<Rightarrow> ustr \<Rightarrow> ustr \<Rightarrow> json option" where
  "parse_parameters pj body token = map_option JObj (parse_parameters_from pj token (multispace0 body) [])"

definition parse_invoke :: "(ustr \<Rightarrow> json option) \<Rightarrow> ustr \<Rightarrow> ustr \<Rightarrow> (ustr \<times> dsml_tool_call) option" where
  "parse_invoke pj input token =
     Option.bind (parse_head (open_tag token INVOKE_TAG_NAME) (trim_start input)) (\<lambda>(input, attrs, name).
     Option.bind (take_until (close_tag token INVOKE_TAG_NAME) input) (\<lambda>(input, body).
     Option.bind (strip_prefix input (close_tag token INVOKE_TAG_NAME)) (\<lambda>input.
     Option.bind (parse_parameters pj body token) (\<lambda>parameters.
       Some (input, \<lparr>dsml_name = name, dsml_input = parameters\<rparr>)))))"

lemma parse_invoke_length: "parse_invoke pj input token = Some (r, c) \<Longrightarrow> length r < length input"
  using length_dropWhile_le [of is_whitespace input]
  by (auto simp: parse_invoke_def bind_eq_Some_conv trim_start_def
      dest!: strip_prefix_length take_until_length parse_head_length)

function parse_invocations ::
  "(ustr \<Rightarrow> json option) \<Rightarrow> ustr \<Rightarrow> ustr \<Rightarrow> dsml_tool_call list \<Rightarrow> dsml_tool_call list option" where
  "parse_invocations pj token rest calls =
     (if rest = [] then Some calls
      else case parse_invoke pj rest token of
          None \<Rightarrow> None
        | Some (next, call) \<Rightarrow> parse_invocations pj token (multispace0 next) (calls @ [call]))"
  by pat_completeness auto
termination
  by (relation "measure (\<lambda>(pj, token, rest, calls). length rest)")
    (auto dest!: parse_invoke_length intro: le_less_trans [OF multispace0_length])

declare parse_invocations.simps [simp del]

definition parse_tool_call_block :: "(ustr \<Rightarrow> json option) \<Rightarrow> ustr \<Rightarrow> ustr \<Rightarrow> dsml_tool_call list option" where
  "parse_tool_call_block pj block token =
     (case parse_invocations pj token (multispace0 block) [] of
        None \<Rightarrow> None
      | Some calls \<Rightarrow> if calls = [] then None else Some calls)"

subsection \<open>Extraction\<close>

lemma first_by_start_in: "first_by_start ts = Some t \<Longrightarrow> t \<in> set ts"
  by (induction ts arbitrary: t) (auto split: option.splits if_splits)

lemma find_next_open_tag_Some:
  assumes "find_next_open_tag input name = Some t"
  shows "str_find input (tag_text t) = Some (tag_start t)" "tag_token t \<in> set DSML_TOKENS"
    "tag_text t = exact_open_tag (tag_token t) name"
  using first_by_start_in [OF assms [unfolded find_next_open_tag_def]]
  by (auto simp: List.map_filter_def Let_def)

lemma open_tag_bound:
  "find_next_open_tag input name = Some t \<Longrightarrow>
     tag_text t \<noteq> [] \<and> tag_start t + length (tag_text t) \<le> length input"
  using find_next_open_tag_Some(1,3) [of input name t] str_find_Some [of input "tag_text t" "tag_start t"]
  by (auto simp: exact_open_tag_def)

function extract_loop ::
  "(ustr \<Rightarrow> json option) \<Rightarrow> ustr \<Rightarrow> ustr \<Rightarrow> dsml_tool_call list \<Rightarrow> dsml_extraction" where
  "extract_loop pj rest visible calls =
     (case find_next_open_tag rest TOOL_CALLS_BLOCK_NAME of
        None \<Rightarrow> \<lparr>visible_text = visible @ rest, dsml_calls = calls\<rparr>
      | Some t \<Rightarrow>
          (let visible = visible @ take (tag_start t) rest;
               after_open = drop (tag_start t + length (tag_text t)) rest;
               close = close_tag (tag_token t) TOOL_CALLS_BLOCK_NAME in
           case str_find after_open close of
             None \<Rightarrow> \<lparr>visible_text = visible @ drop (tag_start t) rest, dsml_calls = calls\<rparr>
           | Some close_start \<Rightarrow>
               (let candidate = take (length (tag_text t) + close_start + length close) (drop (tag_start t) rest);
                    next = drop (close_start + length close) after_open in
                case parse_tool_call_block pj (take close_start after_open) (tag_token t) of
                  Some cs \<Rightarrow> extract_loop pj next visible (calls @ cs)
                | None \<Rightarrow> extract_loop pj next (visible @ candidate) calls)))"
  by pat_completeness auto
termination
  by (relation "measure (\<lambda>(pj, rest, visible, calls). length rest)")
    (auto dest!: open_tag_bound intro!: diff_less)

declare extract_loop.simps [simp del]

definition extract_tool_calls_from_text :: "(ustr \<Rightarrow> json option) \<Rightarrow> ustr \<Rightarrow> dsml_extraction" where
  "extract_tool_calls_from_text pj text = extract_loop pj text [] []"

definition strip_tool_call_blocks :: "(ustr \<Rightarrow> json option) \<Rightarrow> ustr \<Rightarrow> ustr" where
  "strip_tool_call_blocks pj text =
     (let e = extract_tool_calls_from_text pj text in
      if dsml_calls e = [] \<or> visible_text e = text then text else visible_text e)"

subsection \<open>Orphaned tails\<close>

definition starts_with_dsml_tag :: "ustr \<Rightarrow> bool" where
  "starts_with_dsml_tag line \<longleftrightarrow> list_ex (starts_with line) DSML_TAG_PREFIXES"

definition has_orphaned_tool_call_closing_sequence :: "ustr \<Rightarrow> bool" where
  "has_orphaned_tool_call_closing_sequence text \<longleftrightarrow> list_ex (contains_str text) DSML_ORPHAN_CLOSING_TAGS"

function orphaned_tail_from :: "nat \<Rightarrow> ustr \<Rightarrow> nat option" where
  "orphaned_tail_from line_start tail =
     (if tail = [] then None
      else let line = takeWhile (\<lambda>c. c \<noteq> newline) tail in
        if starts_with_dsml_tag (trim_start line) \<and> has_orphaned_tool_call_closing_sequence tail
        then Some line_start
        else if length line = length tail then None
        else orphaned_tail_from (line_start + length line + 1) (drop (length line + 1) tail))"
  by pat_completeness auto
termination
  by (relation "measure (\<lambda>(n, tail). length tail)") auto

declare orphaned_tail_from.simps [simp del]

definition orphaned_tool_call_tail_start :: "ustr \<Rightarrow> nat option" where
  "orphaned_tool_call_tail_start text = orphaned_tail_from 0 text"

definition looks_like_struct_field_line :: "ustr \<Rightarrow> bool" where
  "looks_like_struct_field_line line =
     (case split_once_char (chr '':'') line of
        None \<Rightarrow> False
      | Some (f, v) \<Rightarrow> (let f = trim f; v = trim v in
          f \<noteq> [] \<and> v \<noteq> [] \<and> list_all (\<lambda>c. 97 \<le> c \<and> c \<le> 122 \<or> is_ascii_digit c \<or> c = chr ''_'') f
          \<and> (line \<noteq> [] \<and> last line = chr '','' \<or> contains_str v (lit ''format!(''))))"

definition looks_like_leaked_tool_argument_line :: "ustr \<Rightarrow> bool" where
  "looks_like_leaked_tool_argument_line line \<longleftrightarrow>
     line = lit ''}'' \<or> line = lit ''},'' \<or> line \<noteq> [] \<and> last line = chr ''{''
     \<or> starts_with (rev line) (rev (lit ''},'')) \<or> looks_like_struct_field_line line"

definition looks_like_leaked_tool_argument_prefix :: "ustr \<Rightarrow> bool" where
  "looks_like_leaked_tool_argument_prefix prefix =
     (let ls = filter (\<lambda>l. l \<noteq> []) (map trim (lines prefix)) in
      ls \<noteq> [] \<and> list_all looks_like_leaked_tool_argument_line ls)"

definition strip_orphaned_tool_call_tail :: "ustr \<Rightarrow> ustr" where
  "strip_orphaned_tool_call_tail text =
     (case orphaned_tool_call_tail_start text of
        None \<Rightarrow> text
      | Some tail_start \<Rightarrow>
          (let prefix = trim_end (take tail_start text) in
           if prefix = [] \<or> looks_like_leaked_tool_argument_prefix prefix then [] else prefix))"

subsection \<open>Where more input could still change the result\<close>

definition DSML_OPEN_TOOL_CALLS_TAGS :: "(ustr \<times> ustr) list" where
  "DSML_OPEN_TOOL_CALLS_TAGS =
     map (\<lambda>t. (exact_open_tag t TOOL_CALLS_BLOCK_NAME, close_tag t TOOL_CALLS_BLOCK_NAME)) DSML_TOKENS"

definition lower :: "nat option \<Rightarrow> nat \<Rightarrow> nat option" where
  "lower boundary i = Some (case boundary of None \<Rightarrow> i | Some b \<Rightarrow> min b i)"

definition unclosed_boundary :: "ustr \<Rightarrow> nat option \<Rightarrow> ustr \<times> ustr \<Rightarrow> nat option" where
  "unclosed_boundary text boundary tags =
     (case str_rfind text (fst tags) of
        None \<Rightarrow> boundary
      | Some i \<Rightarrow> if contains_str (drop (i + length (fst tags)) text) (snd tags) then boundary
          else lower boundary i)"

definition pending_tool_call_boundary :: "ustr \<Rightarrow> nat option" where
  "pending_tool_call_boundary text =
     (let boundary = foldl (unclosed_boundary text) None DSML_OPEN_TOOL_CALLS_TAGS in
      case str_rfind text (lit ''<'') of
        None \<Rightarrow> boundary
      | Some start \<Rightarrow> if list_ex (\<lambda>(open, _). starts_with open (drop start text)) DSML_OPEN_TOOL_CALLS_TAGS
          then lower boundary start else boundary)"

subsection \<open>What extraction keeps and takes\<close>

text \<open>A text cut into what stays visible and the blocks that were parsed.\<close>

datatype segment = Kept ustr | Block ustr ustr "dsml_tool_call list"

fun segment_text :: "segment \<Rightarrow> ustr" where
  "segment_text (Kept s) = s"
| "segment_text (Block token body calls) =
     exact_open_tag token TOOL_CALLS_BLOCK_NAME @ body @ close_tag token TOOL_CALLS_BLOCK_NAME"

fun kept_text :: "segment \<Rightarrow> ustr" where
  "kept_text (Kept s) = s" | "kept_text (Block token body calls) = []"

fun block_calls :: "segment \<Rightarrow> dsml_tool_call list" where
  "block_calls (Kept s) = []" | "block_calls (Block token body calls) = calls"

fun block_ok :: "(ustr \<Rightarrow> json option) \<Rightarrow> segment \<Rightarrow> bool" where
  "block_ok pj (Kept s) = True"
| "block_ok pj (Block token body calls) \<longleftrightarrow>
     token \<in> set DSML_TOKENS \<and> calls \<noteq> [] \<and> parse_tool_call_block pj body token = Some calls"

lemma parse_block_nonempty: "parse_tool_call_block pj b t = Some cs \<Longrightarrow> cs \<noteq> []"
  by (auto simp: parse_tool_call_block_def split: option.splits if_splits)

lemma extract_loop_segments:
  "\<exists>segs. concat (map segment_text segs) = rest \<and> (\<forall>g \<in> set segs. block_ok pj g) \<and>
     extract_loop pj rest visible calls =
       \<lparr>visible_text = visible @ concat (map kept_text segs), dsml_calls = calls @ concat (map block_calls segs)\<rparr>"
proof (induction pj rest visible calls rule: extract_loop.induct)
  case (1 pj rest visible calls)
  show ?case
  proof (cases "find_next_open_tag rest TOOL_CALLS_BLOCK_NAME")
    case None
    then show ?thesis by (subst extract_loop.simps) (intro exI [of _ "[Kept rest]"], simp)
  next
    case (Some t)
    note f = find_next_open_tag_Some [OF Some]
    let ?pre = "take (tag_start t) rest" and ?after = "drop (tag_start t + length (tag_text t)) rest"
    let ?close = "close_tag (tag_token t) TOOL_CALLS_BLOCK_NAME"
    have rest: "rest = ?pre @ tag_text t @ ?after" using str_find_Some [OF f(1)] by blast
    show ?thesis
    proof (cases "str_find ?after ?close")
      case None
      with Some show ?thesis
        by (subst extract_loop.simps) (intro exI [of _ "[Kept rest]"], simp add: Let_def)
    next
      case close: (Some i)
      let ?body = "take i ?after" and ?next = "drop (i + length ?close) ?after"
      have after: "?after = ?body @ ?close @ ?next" using str_find_Some [OF close] by blast
      show ?thesis
      proof (cases "parse_tool_call_block pj ?body (tag_token t)")
        case None
        let ?cand = "take (length (tag_text t) + i + length ?close) (drop (tag_start t) rest)"
        obtain segs where segs: "concat (map segment_text segs) = ?next" "\<forall>g \<in> set segs. block_ok pj g"
          "extract_loop pj ?next ((visible @ ?pre) @ ?cand) calls =
             \<lparr>visible_text = ((visible @ ?pre) @ ?cand) @ concat (map kept_text segs),
              dsml_calls = calls @ concat (map block_calls segs)\<rparr>"
          using 1(1) [OF Some refl refl refl close refl refl None] by blast
        have "rest = (?pre @ ?cand) @ ?next"
        proof -
          have "drop (tag_start t) rest = ?cand @ drop (length (tag_text t) + i + length ?close) (drop (tag_start t) rest)"
            by (rule append_take_drop_id [symmetric])
          also have "drop (length (tag_text t) + i + length ?close) (drop (tag_start t) rest) = ?next"
            by (simp add: ac_simps)
          finally show ?thesis by (metis append.assoc append_take_drop_id)
        qed
        with segs Some close None show ?thesis
          by (subst extract_loop.simps) (intro exI [of _ "Kept (?pre @ ?cand) # segs"], simp add: Let_def)
      next
        case parsed: (Some cs)
        obtain segs where segs: "concat (map segment_text segs) = ?next" "\<forall>g \<in> set segs. block_ok pj g"
          "extract_loop pj ?next (visible @ ?pre) (calls @ cs) =
             \<lparr>visible_text = (visible @ ?pre) @ concat (map kept_text segs),
              dsml_calls = (calls @ cs) @ concat (map block_calls segs)\<rparr>"
          using 1(2) [OF Some refl refl refl close refl refl parsed] by blast
        have "rest = ?pre @ tag_text t @ ?body @ ?close @ ?next" using rest after by simp
        then have "concat (map segment_text (Kept ?pre # Block (tag_token t) ?body cs # segs)) = rest"
          using segs(1) f(3) by simp
        moreover have "\<forall>g \<in> set (Kept ?pre # Block (tag_token t) ?body cs # segs). block_ok pj g"
          using segs(2) f(2) parsed parse_block_nonempty [OF parsed] by simp
        moreover have "extract_loop pj rest visible calls = extract_loop pj ?next (visible @ ?pre) (calls @ cs)"
          using Some close parsed by (subst extract_loop.simps) (simp add: Let_def)
        ultimately show ?thesis
          using segs(3) by (intro exI [of _ "Kept ?pre # Block (tag_token t) ?body cs # segs"]) simp
      qed
    qed
  qed
qed

text \<open>
  Extracting tool calls from text takes out exactly the blocks that were parsed, in order, and their
  calls: everything else of the text stays visible, malformed blocks included.
\<close>

theorem extraction_takes_only_parsed_blocks:
  "\<exists>segs. concat (map segment_text segs) = text \<and> list_all (block_ok pj) segs \<and>
     extract_tool_calls_from_text pj text =
       \<lparr>visible_text = concat (map kept_text segs), dsml_calls = concat (map block_calls segs)\<rparr>"
  using extract_loop_segments [of "text" pj "[]" "[]"]
  by (auto simp: extract_tool_calls_from_text_def list_all_iff)

lemma no_dsml_untouched:
  assumes "\<not> contains_dsml text"
  shows "extract_tool_calls_from_text pj text = \<lparr>visible_text = text, dsml_calls = []\<rparr>"
    and "strip_tool_call_blocks pj text = text"
proof -
  have "str_find text (exact_open_tag token name) = None" if "token \<in> set DSML_TOKENS" for token name
  proof -
    have "contains_str text (exact_open_tag token name) \<Longrightarrow> contains_str text token"
      unfolding exact_open_tag_def contains_str_iff by (metis append.assoc)
    with assms that show ?thesis by (auto simp: str_find_None contains_dsml_def list_ex_iff)
  qed
  then have "find_next_open_tag text name = None" for name
    by (simp add: find_next_open_tag_def DSML_TOKENS_def List.map_filter_def Let_def)
  then show "extract_tool_calls_from_text pj text = \<lparr>visible_text = text, dsml_calls = []\<rparr>"
    by (simp add: extract_tool_calls_from_text_def extract_loop.simps [of pj "text"])
  then show "strip_tool_call_blocks pj text = text" by (simp add: strip_tool_call_blocks_def)
qed

lemma extraction_example:
  "extract_tool_calls_from_text (\<lambda>_. None)
     (lit ''Before'' @ exact_open_tag dsml_ascii TOOL_CALLS_BLOCK_NAME @ newline # open_tag dsml_ascii INVOKE_TAG_NAME @
      lit '' name='' @ [quote_mark] @ lit ''ls'' @ [quote_mark] @ lit ''>'' @ close_tag dsml_ascii INVOKE_TAG_NAME @
      newline # close_tag dsml_ascii TOOL_CALLS_BLOCK_NAME @ lit ''After'') =
     \<lparr>visible_text = lit ''BeforeAfter'', dsml_calls = [\<lparr>dsml_name = lit ''ls'', dsml_input = JObj []\<rparr>]\<rparr>"
  by code_simp

end
