(* ===== verification/DisplaySanitize.thy ===== *)
theory DisplaySanitize
  imports Prelude
begin

section \<open>Display text sanitization (src/tui/display_sanitize.rs, display_sanitize/bidi.rs)\<close>

text \<open>
  Text that can reach the terminal passes through a parser with constant-size state that removes
  escape sequences and control characters and makes directional controls visible. Lemmas: the output
  holds no control character but the line feed, whatever the input and wherever it is cut into
  deltas; cutting does not change the output; every line end ends an unfinished escape; sanitizing
  twice changes nothing. The layout of styled rows by graphemes is not modelled.
\<close>

subsection \<open>Streaming transducers\<close>

text \<open>What a consumer of deltas may rely on: the output does not depend on where the input is cut.\<close>

locale delta_stream =
  fixes push :: "'s \<Rightarrow> 'a list \<Rightarrow> 's \<times> 'b list"
  assumes push_Nil: "push s [] = (s, [])"
    and push_append: "push s (xs @ ys) =
      (fst (push (fst (push s xs)) ys), snd (push s xs) @ snd (push (fst (push s xs)) ys))"
begin

fun push_all :: "'s \<Rightarrow> 'a list list \<Rightarrow> 's \<times> 'b list" where
  "push_all s [] = (s, [])"
| "push_all s (d # ds) = (let (s1, out1) = push s d; (s2, out2) = push_all s1 ds in (s2, out1 @ out2))"

lemma push_all_concat: "push_all s ds = push s (concat ds)"
  by (induction ds arbitrary: s) (simp_all add: push_Nil push_append Let_def split: prod.split)

end

subsection \<open>State\<close>

datatype escape_state = Ground | Escape | Intermediate | Csi | StringControl | StringEscape

datatype text_mode = Display | Paste

record stream_sanitizer =
  escape :: escape_state
  after_cr :: bool
  mode :: text_mode

definition default_sanitizer :: stream_sanitizer where
  "default_sanitizer = \<lparr>escape = Ground, after_cr = False, mode = Display\<rparr>"

text \<open>\<open>char::is_control\<close>: the category Cc.\<close>

definition is_control :: "uchar \<Rightarrow> bool" where
  "is_control c \<longleftrightarrow> 0 \<le> c \<and> c \<le> 0x1F \<or> 0x7F \<le> c \<and> c \<le> 0x9F"

definition bidi_label :: "string \<Rightarrow> ustr" where
  "bidi_label s = 0x27E6 # lit s @ [0x27E7]"

definition bidi_labels :: "(uchar \<times> ustr) list" where
  "bidi_labels = [(0x061C, bidi_label ''U+061C''), (0x200E, bidi_label ''U+200E''), (0x200F, bidi_label ''U+200F''),
     (0x202A, bidi_label ''U+202A''), (0x202B, bidi_label ''U+202B''), (0x202C, bidi_label ''U+202C''),
     (0x202D, bidi_label ''U+202D''), (0x202E, bidi_label ''U+202E''), (0x2066, bidi_label ''U+2066''),
     (0x2067, bidi_label ''U+2067''), (0x2068, bidi_label ''U+2068''), (0x2069, bidi_label ''U+2069'')]"

definition bidi_annotation :: "uchar \<Rightarrow> ustr option" where
  "bidi_annotation c = map_of bidi_labels c"

definition annotate_bidi_text :: "ustr \<Rightarrow> ustr" where
  "annotate_bidi_text s = concat (map (\<lambda>c. case bidi_annotation c of Some label \<Rightarrow> label | None \<Rightarrow> [c]) s)"

subsection \<open>The parser\<close>

text \<open>What \<open>Ground\<close> does with a character that is no line end and no cancel.\<close>

definition ground_char :: "text_mode \<Rightarrow> uchar \<Rightarrow> escape_state \<times> ustr" where
  "ground_char md c =
     (if c = 0x1B then (Escape, [])
      else if c = 0x9B then (Csi, [])
      else if c \<in> {0x90, 0x98, 0x9D, 0x9E, 0x9F} then (StringControl, [])
      else if c = 9 then (Ground, case md of Display \<Rightarrow> replicate 4 32 | Paste \<Rightarrow> [9])
      else if is_control c then (Ground, [])
      else (Ground, case md of
          Display \<Rightarrow> (case bidi_annotation c of Some label \<Rightarrow> label | None \<Rightarrow> [c])
        | Paste \<Rightarrow> [c]))"

definition escape_char :: "uchar \<Rightarrow> escape_state" where
  "escape_char c =
     (if c = chr ''['' then Csi
      else if c \<in> {chr '']'', chr ''P'', chr ''X'', chr ''^'', chr ''_''} then StringControl
      else if chr '' '' \<le> c \<and> c \<le> chr ''/'' then Intermediate
      else if c = 0x1B then Escape
      else if is_control c then Escape
      else Ground)"

definition csi_char :: "escape_state \<Rightarrow> uchar \<Rightarrow> escape_state" where
  "csi_char st c =
     (if c = 0x1B then Escape
      else if chr ''@'' \<le> c \<and> c \<le> chr ''~'' \<or> st = Intermediate \<and> chr ''0'' \<le> c \<and> c \<le> chr ''?'' then Ground
      else st)"

definition string_char :: "escape_state \<Rightarrow> uchar \<Rightarrow> escape_state" where
  "string_char st c =
     (if c \<in> {7, 0x9C} then Ground
      else if c = 92 \<and> st = StringEscape then Ground
      else if c = 0x1B then StringEscape
      else StringControl)"

definition write_char :: "stream_sanitizer \<Rightarrow> uchar \<Rightarrow> stream_sanitizer \<times> ustr" where
  "write_char s c =
     (let cr = after_cr s; s = s\<lparr>after_cr := False\<rparr> in
      if c = 13 \<or> c = newline
      then (s\<lparr>escape := Ground, after_cr := (c = 13)\<rparr>, if c = 13 \<or> \<not> cr then [newline] else [])
      else if c = 0x18 \<or> c = 0x1A then (s\<lparr>escape := Ground\<rparr>, [])
      else (case escape s of
          Ground \<Rightarrow> (let (e, out) = ground_char (mode s) c in (s\<lparr>escape := e\<rparr>, out))
        | Escape \<Rightarrow> (s\<lparr>escape := escape_char c\<rparr>, [])
        | Intermediate \<Rightarrow> (s\<lparr>escape := csi_char Intermediate c\<rparr>, [])
        | Csi \<Rightarrow> (s\<lparr>escape := csi_char Csi c\<rparr>, [])
        | StringControl \<Rightarrow> (s\<lparr>escape := string_char StringControl c\<rparr>, [])
        | StringEscape \<Rightarrow> (s\<lparr>escape := string_char StringEscape c\<rparr>, [])))"

fun sanitize_delta :: "stream_sanitizer \<Rightarrow> ustr \<Rightarrow> stream_sanitizer \<times> ustr" where
  "sanitize_delta s [] = (s, [])"
| "sanitize_delta s (c # cs) =
     (let (s1, out1) = write_char s c; (s2, out2) = sanitize_delta s1 cs in (s2, out1 @ out2))"

definition sanitize_display_text :: "ustr \<Rightarrow> ustr" where
  "sanitize_display_text input = snd (sanitize_delta default_sanitizer input)"

definition sanitize_paste_text :: "ustr \<Rightarrow> ustr" where
  "sanitize_paste_text input = snd (sanitize_delta (default_sanitizer\<lparr>mode := Paste\<rparr>) input)"

definition sanitize_display_line :: "ustr \<Rightarrow> ustr" where
  "sanitize_display_line input = trim_end (filter (\<lambda>c. c \<noteq> newline) (sanitize_display_text input))"

subsection \<open>Deltas\<close>

lemma sanitize_delta_append:
  "sanitize_delta s (xs @ ys) =
     (fst (sanitize_delta (fst (sanitize_delta s xs)) ys),
      snd (sanitize_delta s xs) @ snd (sanitize_delta (fst (sanitize_delta s xs)) ys))"
  by (induction xs arbitrary: s) (simp_all add: Let_def split: prod.split)

interpretation sanitizer: delta_stream sanitize_delta
  by unfold_locales (simp_all add: sanitize_delta_append)

subsection \<open>What is emitted\<close>

definition display_char :: "uchar \<Rightarrow> bool" where
  "display_char c \<longleftrightarrow> c = newline \<or> \<not> is_control c \<and> bidi_annotation c = None"

definition paste_char :: "uchar \<Rightarrow> bool" where
  "paste_char c \<longleftrightarrow> c = newline \<or> c = 9 \<or> \<not> is_control c"

lemma bidi_labels_safe: "list_all (\<lambda>(c, l). list_all (\<lambda>x. display_char x \<and> x \<noteq> newline) l) bidi_labels"
  by code_simp

lemma bidi_label_display: "bidi_annotation c = Some l \<Longrightarrow> x \<in> set l \<Longrightarrow> display_char x \<and> x \<noteq> newline"
  using bidi_labels_safe map_of_SomeD [of bidi_labels c l] by (auto simp: bidi_annotation_def list_all_iff)

lemma bidi_annotation_low: "c < 0x061C \<Longrightarrow> bidi_annotation c = None"
  by (simp add: bidi_annotation_def bidi_labels_def)

lemma ground_char_safe:
  "\<forall>x \<in> set (snd (ground_char Display c)). display_char x"
  "\<forall>x \<in> set (snd (ground_char Paste c)). paste_char x"
  by (auto simp: ground_char_def paste_char_def dest: bidi_label_display split: option.splits)
    (auto simp: display_char_def is_control_def bidi_annotation_low)

lemma write_char_mode [simp]: "mode (fst (write_char s c)) = mode s"
  by (auto simp: write_char_def Let_def split: escape_state.split prod.split)

lemma write_char_safe:
  "mode s = Display \<Longrightarrow> \<forall>x \<in> set (snd (write_char s c)). display_char x"
  "mode s = Paste \<Longrightarrow> \<forall>x \<in> set (snd (write_char s c)). paste_char x"
  using ground_char_safe [of c]
  by (auto simp: write_char_def Let_def display_char_def paste_char_def split: escape_state.split prod.split)

lemma sanitize_delta_mode [simp]: "mode (fst (sanitize_delta s cs)) = mode s"
  by (induction cs arbitrary: s) (simp_all add: Let_def split: prod.split, metis fst_conv write_char_mode)

lemma sanitize_delta_safe:
  "mode s = Display \<Longrightarrow> \<forall>x \<in> set (snd (sanitize_delta s cs)). display_char x"
  "mode s = Paste \<Longrightarrow> \<forall>x \<in> set (snd (sanitize_delta s cs)). paste_char x"
proof (induction cs arbitrary: s)
  case (Cons c cs)
  { case 1
    with Cons(1) [of "fst (write_char s c)"] write_char_safe(1) [of s c] show ?case
      by (auto simp: Let_def split: prod.split) }
  { case 2
    with Cons(2) [of "fst (write_char s c)"] write_char_safe(2) [of s c] show ?case
      by (auto simp: Let_def split: prod.split) }
qed simp_all

text \<open>Text that is clean already goes through unchanged.\<close>

lemma write_char_clean:
  "display_char c \<Longrightarrow> mode s = Display \<Longrightarrow> escape s = Ground \<Longrightarrow> \<not> after_cr s \<Longrightarrow>
     write_char s c = (s, [c])"
proof (cases "c = newline")
  case False
  assume h: "display_char c" "mode s = Display" "escape s = Ground" "\<not> after_cr s"
  with False have c: "\<not> is_control c" "bidi_annotation c = None" by (simp_all add: display_char_def)
  then have "c \<noteq> 13" "c \<noteq> 0x18" "c \<noteq> 0x1A" by (auto simp: is_control_def)
  moreover have "ground_char Display c = (Ground, [c])"
    using c by (auto simp: ground_char_def is_control_def)
  moreover have "s\<lparr>after_cr := False, escape := Ground\<rparr> = s" using h by (cases s) simp
  ultimately show ?thesis using False h by (simp add: write_char_def)
qed (cases s, simp add: write_char_def newline_def)

lemma sanitize_clean:
  "\<forall>c \<in> set cs. display_char c \<Longrightarrow> mode s = Display \<Longrightarrow> escape s = Ground \<Longrightarrow> \<not> after_cr s \<Longrightarrow>
     sanitize_delta s cs = (s, cs)"
  by (induction cs) (simp_all add: write_char_clean)

subsection \<open>Line ends\<close>

text \<open>The line ends of a text: every CR, and every LF that does not follow a CR.\<close>

fun line_ends :: "bool \<Rightarrow> ustr \<Rightarrow> nat" where
  "line_ends cr [] = 0"
| "line_ends cr (c # cs) =
     (if c = 13 \<or> c = newline \<and> \<not> cr then 1 else 0) + line_ends (c = 13) cs"

lemma write_char_line:
  "length (filter (\<lambda>x. x = newline) (snd (write_char s c))) = (if c = 13 \<or> c = newline \<and> \<not> after_cr s then 1 else 0)"
  "after_cr (fst (write_char s c)) = (c = 13)"
proof -
  have label: "newline \<notin> set l" if "bidi_annotation x = Some l" for x l
    using bidi_label_display [OF that] by blast
  have none: "\<forall>x \<in> set (snd (ground_char md c)). x \<noteq> newline" if "c \<noteq> 13" "c \<noteq> newline" for md
    using that label by (auto simp: ground_char_def newline_def split: text_mode.split option.splits)
  show "length (filter (\<lambda>x. x = newline) (snd (write_char s c))) = (if c = 13 \<or> c = newline \<and> \<not> after_cr s then 1 else 0)"
    using none [of "mode s"]
    by (auto simp: write_char_def Let_def filter_empty_conv split: escape_state.split prod.split)
  show "after_cr (fst (write_char s c)) = (c = 13)"
    by (auto simp: write_char_def Let_def split: escape_state.split prod.split)
qed

lemma sanitize_delta_lines:
  "length (filter (\<lambda>x. x = newline) (snd (sanitize_delta s cs))) = line_ends (after_cr s) cs"
proof (induction cs arbitrary: s)
  case (Cons c cs)
  from Cons [of "fst (write_char s c)"] write_char_line [of s c] show ?case
    by (auto simp: Let_def split: prod.split)
qed simp

lemma write_newline_state:
  "mode s = Display \<Longrightarrow> fst (write_char s newline) = default_sanitizer"
  by (cases s) (simp add: write_char_def newline_def Let_def default_sanitizer_def)

lemma after_cr_last:
  "after_cr (fst (sanitize_delta s cs)) \<longleftrightarrow> (if cs = [] then after_cr s else last cs = 13)"
proof (induction cs rule: rev_induct)
  case (snoc c cs)
  then show ?case using write_char_line(2) by (simp add: sanitize_delta_append Let_def split: prod.split)
qed simp

subsection \<open>Properties\<close>



text \<open>Cutting the input into deltas does not change what is displayed.\<close>

theorem deltas_do_not_matter:
  "snd (sanitizer.push_all default_sanitizer ds) = sanitize_display_text (concat ds)"
  by (simp add: sanitizer.push_all_concat sanitize_display_text_def)

text \<open>Sanitizing a sanitized text changes nothing.\<close>

theorem sanitizing_twice_is_stable:
  "sanitize_display_text (sanitize_display_text input) = sanitize_display_text input"
  using sanitize_clean [of "sanitize_display_text input" default_sanitizer]
    sanitize_delta_safe(1) [of default_sanitizer input]
  by (simp add: sanitize_display_text_def default_sanitizer_def)

text \<open>
  A line end recovers: whatever comes before it, finished or not, the text after a line feed is
  displayed as if it stood alone, and the line end itself is kept (once for CR LF).
\<close>

theorem lines_recover:
  "sanitize_display_text (xs @ newline # ys) =
     sanitize_display_text xs @ (if xs \<noteq> [] \<and> last xs = 13 then [] else [newline]) @ sanitize_display_text ys"
proof -
  let ?s = "fst (sanitize_delta default_sanitizer xs)"
  have "mode ?s = Display" by (simp add: default_sanitizer_def)
  then have st: "fst (write_char ?s newline) = default_sanitizer" by (rule write_newline_state)
  have out: "snd (write_char ?s newline) = (if after_cr ?s then [] else [newline])"
    by (simp add: write_char_def newline_def)
  have "after_cr ?s \<longleftrightarrow> xs \<noteq> [] \<and> last xs = 13"
    by (simp add: after_cr_last default_sanitizer_def)
  with st out have "write_char ?s newline = (default_sanitizer, if xs \<noteq> [] \<and> last xs = 13 then [] else [newline])"
    by (simp add: prod_eq_iff)
  then show ?thesis
    by (simp only: sanitize_display_text_def sanitize_delta_append sanitize_delta.simps Let_def case_prod_unfold
        fst_conv snd_conv)
qed

text \<open>The displayed text has exactly the lines of the source.\<close>

theorem lines_are_kept:
  "length (filter (\<lambda>c. c = newline) (sanitize_display_text input)) = line_ends False input"
  by (simp add: sanitize_display_text_def sanitize_delta_lines default_sanitizer_def)

text \<open>A display line has no line end and no other control character.\<close>

lemma display_line_is_safe: "\<forall>c \<in> set (sanitize_display_line input). \<not> is_control c"
proof -
  have "set (trim_end s) \<subseteq> set s" for s using trim_end_prefix [of s] by (metis Un_upper1 set_append)
  with sanitize_delta_safe(1) [of default_sanitizer input] show ?thesis
    by (force simp: sanitize_display_line_def sanitize_display_text_def default_sanitizer_def display_char_def)
qed

text \<open>Editors show the same labels: without control characters annotating and sanitizing agree.\<close>

lemma annotation_is_sanitization:
  "\<forall>c \<in> set cs. \<not> is_control c \<Longrightarrow> annotate_bidi_text cs = sanitize_display_text cs"
proof -
  have "\<forall>c \<in> set cs. \<not> is_control c \<Longrightarrow> sanitize_delta default_sanitizer cs = (default_sanitizer, annotate_bidi_text cs)"
    by (induction cs)
      (auto simp: annotate_bidi_text_def write_char_def ground_char_def is_control_def default_sanitizer_def newline_def Let_def)
  then show "\<forall>c \<in> set cs. \<not> is_control c \<Longrightarrow> annotate_bidi_text cs = sanitize_display_text cs"
    by (simp add: sanitize_display_text_def)
qed

end
