(* ===== verification/ControlTokens.thy ===== *)
theory ControlTokens
  imports DsmlText DisplaySanitize
begin

section \<open>Internal control tokens (src/control_tokens.rs, control_tokens/stream.rs)\<close>

text \<open>
  Text of the model may hold blocks of the runtime, control tokens of a provider and legacy markers;
  the scrubbing removes them from what is shown. A recognizer over the bytes of the stream tells when
  appending a delta can change the scrubbed text, so that a display need not scrub everything again,
  and the stream of an answer (\<open>AgentMarkdownStreamState\<close>) uses it. Lemmas: what is removed is gone
  and removing it builds no new tag; when the recognizer does not ask for a replay the scrubbed text
  grows by the delta, so the stream shows the scrubbed text of the whole source after every delta.
\<close>

subsection \<open>Scrubbing\<close>

definition INTERNAL_BLOCK_TAGS :: "(ustr \<times> ustr) list" where
  "INTERNAL_BLOCK_TAGS =
     [(lit ''<agent_runtime>'', lit ''</agent_runtime>''),
      (lit ''<agent_runtime_error>'', lit ''</agent_runtime_error>''),
      (lit ''<rara_internal_history_context>'', lit ''</rara_internal_history_context>'')]"

definition DEEPSEEK_EOS :: ustr where
  "DEEPSEEK_EOS = chr ''<'' # wide_bar # lit ''end'' @ 0x2581 # lit ''of'' @ 0x2581 # lit ''sentence'' @ [wide_bar, chr ''>'']"

definition ends_visible :: "ustr \<Rightarrow> bool" where
  "ends_visible s \<longleftrightarrow> s \<noteq> [] \<and> \<not> is_whitespace (last s)"

definition push_visible_boundary_separator :: "ustr \<Rightarrow> ustr \<Rightarrow> ustr" where
  "push_visible_boundary_separator cleaned next =
     (if ends_visible cleaned \<and> next \<noteq> [] \<and> \<not> is_whitespace (hd next) then cleaned @ [newline] else cleaned)"

text \<open>The tags are never empty; the first test only makes the loop total.\<close>

function strip_block_loop :: "ustr \<times> ustr \<Rightarrow> ustr \<Rightarrow> ustr \<Rightarrow> ustr" where
  "strip_block_loop tag remaining cleaned =
     (if fst tag = [] then cleaned @ remaining
      else case str_find remaining (fst tag) of
        None \<Rightarrow> cleaned @ remaining
      | Some start \<Rightarrow>
          (let cleaned = cleaned @ take start remaining;
               after_open = drop (start + length (fst tag)) remaining in
           case str_find after_open (snd tag) of
             None \<Rightarrow> cleaned
           | Some e \<Rightarrow>
               (let after_close = drop (e + length (snd tag)) after_open in
                strip_block_loop tag after_close (push_visible_boundary_separator cleaned after_close))))"
  by pat_completeness auto
termination
  by (relation "measure (\<lambda>(tag, remaining, cleaned). length remaining)")
    (auto dest!: str_find_Some intro!: diff_less)

declare strip_block_loop.simps [simp del]

definition strip_balanced_or_open_internal_block :: "ustr \<Rightarrow> ustr \<times> ustr \<Rightarrow> ustr" where
  "strip_balanced_or_open_internal_block message tag =
     (if contains_str message (fst tag) then strip_block_loop tag message [] else message)"

definition strip_internal_blocks :: "ustr \<Rightarrow> ustr" where
  "strip_internal_blocks message = foldl strip_balanced_or_open_internal_block message INTERNAL_BLOCK_TAGS"

definition marker_char :: "uchar \<Rightarrow> bool" where
  "marker_char c \<longleftrightarrow> is_ascii_alphanumeric c \<or> c = chr ''_'' \<or> c = chr ''-''"

text \<open>The length of the name of a marker whose opening bracket comes just before \<open>s\<close>.\<close>

fun legacy_control_marker_end :: "ustr \<Rightarrow> nat \<Rightarrow> nat option" where
  "legacy_control_marker_end [] n = None"
| "legacy_control_marker_end (c # s) n =
     (if c = chr ''|'' \<and> starts_with s (lit ''>'') then (if 0 < n then Some n else None)
      else if \<not> marker_char c then None
      else legacy_control_marker_end s (Suc n))"

function strip_legacy_loop :: "ustr \<Rightarrow> ustr \<Rightarrow> ustr \<Rightarrow> ustr" where
  "strip_legacy_loop cleaned segment [] = cleaned @ segment"
| "strip_legacy_loop cleaned segment (c # s) =
     (case if c = chr ''<'' then legacy_control_marker_end s 0 else None of
        None \<Rightarrow> strip_legacy_loop cleaned (segment @ [c]) s
      | Some n \<Rightarrow>
          (let cleaned = cleaned @ segment in
           strip_legacy_loop (if ends_visible cleaned then cleaned @ [newline] else cleaned) [] (drop (n + 2) s)))"
  by pat_completeness auto
termination
  by (relation "measure (\<lambda>(cleaned, segment, s). length s)") auto

definition strip_legacy_control_markers :: "ustr \<Rightarrow> ustr" where
  "strip_legacy_control_markers message = strip_legacy_loop [] [] message"

definition strip_deepseek_leading_think_block :: "ustr \<Rightarrow> ustr" where
  "strip_deepseek_leading_think_block message =
     (let trimmed = trim_start message in
      if \<not> starts_with trimmed (lit ''<think>'') then message
      else let block = drop (length (lit ''<think>'')) trimmed in
        (case str_find block (lit ''</think>'') of
           Some i \<Rightarrow> drop (i + length (lit ''</think>'')) block
         | None \<Rightarrow> []))"

definition strip_deepseek_v4_dsml_control_blocks :: "(ustr \<Rightarrow> json option) \<Rightarrow> ustr \<Rightarrow> ustr" where
  "strip_deepseek_v4_dsml_control_blocks pj message =
     (if \<not> contains_dsml message then message
      else strip_orphaned_tool_call_tail (strip_tool_call_blocks pj message))"

definition has_deepseek_control_evidence :: "ustr \<Rightarrow> bool" where
  "has_deepseek_control_evidence message \<longleftrightarrow> contains_dsml message \<or> contains_str message DEEPSEEK_EOS"

definition scrub_deepseek_visible_text :: "ustr \<Rightarrow> bool \<Rightarrow> ustr" where
  "scrub_deepseek_visible_text message has_control_evidence =
     str_replace (if has_control_evidence \<and> starts_with (trim_start message) (lit ''<think>'')
        then strip_deepseek_leading_think_block message else message) DEEPSEEK_EOS []"

definition scrub_internal_control_tokens :: "(ustr \<Rightarrow> json option) \<Rightarrow> ustr \<Rightarrow> ustr" where
  "scrub_internal_control_tokens pj message =
     (let had_dsml = contains_dsml message;
          had_eos = contains_str message DEEPSEEK_EOS;
          message = if had_dsml then strip_deepseek_v4_dsml_control_blocks pj message else message;
          message = if (had_dsml \<or> had_eos) \<and> starts_with (trim_start message) (lit ''<think>'')
                    then strip_deepseek_leading_think_block message else message;
          message = if had_eos then str_replace message DEEPSEEK_EOS [] else message;
          message = strip_internal_blocks message in
      if chr ''<'' \<notin> set message then message else strip_legacy_control_markers message)"

subsection \<open>The recognizer of the stream\<close>

text \<open>The bytes of a character and of a text in UTF-8.\<close>

definition utf8_char :: "uchar \<Rightarrow> int list" where
  "utf8_char c =
     (if c < 0x80 then [c]
      else if c < 0x800 then [0xC0 + c div 64, 0x80 + c mod 64]
      else if c < 0x10000 then [0xE0 + c div 4096, 0x80 + c div 64 mod 64, 0x80 + c mod 64]
      else [0xF0 + c div 262144, 0x80 + c div 4096 mod 64, 0x80 + c div 64 mod 64, 0x80 + c mod 64])"

definition utf8 :: "ustr \<Rightarrow> int list" where
  "utf8 s = concat (map utf8_char s)"

definition CONTEXT_TOKENS :: "ustr list" where
  "CONTEXT_TOKENS = map fst INTERNAL_BLOCK_TAGS @ [DEEPSEEK_EOS] @ DSML_TOKENS"

definition CONTEXT_WINDOW :: nat where
  "CONTEXT_WINDOW = foldl (\<lambda>longest t. if longest < length (utf8 t) then length (utf8 t) else longest) 0 CONTEXT_TOKENS"

datatype legacy_prefix = NoPrefix | OpenPrefix | NamePrefix | PipePrefix

text \<open>The used part of the byte window is a list.\<close>

record control_token_replay =
  context_tail :: "int list"
  legacy :: legacy_prefix
  canonical_replay :: bool

definition new_replay :: control_token_replay where
  "new_replay = \<lparr>context_tail = [], legacy = NoPrefix, canonical_replay = False\<rparr>"

definition ends_with :: "int list \<Rightarrow> int list \<Rightarrow> bool" where
  "ends_with s p \<longleftrightarrow> starts_with (rev s) (rev p)"

definition push_context :: "int list \<Rightarrow> int \<Rightarrow> int list" where
  "push_context tail b = (if length tail = CONTEXT_WINDOW then tl tail else tail) @ [b]"

text \<open>The next state, and whether a marker is completed.\<close>

definition legacy_step :: "legacy_prefix \<Rightarrow> int \<Rightarrow> legacy_prefix \<times> bool" where
  "legacy_step st b =
     (if b = chr ''<'' then (OpenPrefix, False)
      else if (st = OpenPrefix \<or> st = NamePrefix) \<and> marker_char b then (NamePrefix, False)
      else if st = NamePrefix \<and> b = chr ''|'' then (PipePrefix, False)
      else if st = PipePrefix \<and> b = chr ''>'' then (NoPrefix, True)
      else (NoPrefix, False))"

fun replay_bytes :: "control_token_replay \<Rightarrow> int list \<Rightarrow> bool \<Rightarrow> control_token_replay \<times> bool" where
  "replay_bytes st [] completed = (st, completed)"
| "replay_bytes st (b # bs) completed =
     (let st = st\<lparr>context_tail := push_context (context_tail st) b\<rparr> in
      if list_ex (\<lambda>t. ends_with (context_tail st) (utf8 t)) CONTEXT_TOKENS
      then (st\<lparr>canonical_replay := True\<rparr>, True)
      else let (l, c) = legacy_step (legacy st) b in replay_bytes (st\<lparr>legacy := l\<rparr>) bs (completed \<or> c))"

definition requires_replay :: "control_token_replay \<Rightarrow> ustr \<Rightarrow> control_token_replay \<times> bool" where
  "requires_replay st delta =
     (if delta = [] then (st, False)
      else if canonical_replay st then (st, True)
      else replay_bytes st (utf8 delta) False)"

subsection \<open>The stream of an answer (src/tui/state/types.rs)\<close>

text \<open>The markdown collector as the text it holds and where its last complete line ends, in bytes.\<close>

record markdown_collector =
  md_buffer :: ustr
  md_complete_len :: nat
  md_closing_brackets :: nat

definition new_collector :: markdown_collector where
  "new_collector = \<lparr>md_buffer = [], md_complete_len = 0, md_closing_brackets = 0\<rparr>"

definition collector_push :: "ustr \<Rightarrow> markdown_collector \<Rightarrow> markdown_collector" where
  "collector_push delta m =
     (let m = m\<lparr>md_closing_brackets := md_closing_brackets m + length (filter (\<lambda>b. b = chr '']'') (utf8 delta))\<rparr>;
          m = (case str_rfind (utf8 delta) [newline] of
                 Some i \<Rightarrow> m\<lparr>md_complete_len := length (utf8 (md_buffer m)) + i + 1\<rparr>
               | None \<Rightarrow> m) in
      m\<lparr>md_buffer := md_buffer m @ delta\<rparr>)"

definition collector_replace :: "ustr \<Rightarrow> markdown_collector \<Rightarrow> markdown_collector" where
  "collector_replace source m = collector_push source (m\<lparr>md_buffer := [], md_complete_len := 0, md_closing_brackets := 0\<rparr>)"

record agent_stream =
  raw_text :: ustr
  stream_text_sanitizer :: stream_sanitizer
  last_visible_text :: ustr
  control_replay :: control_token_replay
  collector :: markdown_collector

definition new_agent_stream :: agent_stream where
  "new_agent_stream = \<lparr>raw_text = [], stream_text_sanitizer = default_sanitizer, last_visible_text = [],
     control_replay = new_replay, collector = new_collector\<rparr>"

definition agent_stream_push :: "(ustr \<Rightarrow> json option) \<Rightarrow> agent_stream \<Rightarrow> ustr \<Rightarrow> agent_stream" where
  "agent_stream_push pj st delta =
     (let (san, delta) = sanitize_delta (stream_text_sanitizer st) delta;
          (rep, again) = requires_replay (control_replay st) delta;
          st = st\<lparr>stream_text_sanitizer := san, control_replay := rep, raw_text := raw_text st @ delta\<rparr> in
      if \<not> again
      then st\<lparr>last_visible_text := last_visible_text st @ delta,
              collector := (if delta \<noteq> [] then collector_push delta (collector st) else collector st)\<rparr>
      else let visible = scrub_internal_control_tokens pj (raw_text st) in
        st\<lparr>collector := (case strip_prefix visible (last_visible_text st) of
             Some new \<Rightarrow> if new \<noteq> [] then collector_push new (collector st) else collector st
           | None \<Rightarrow> collector_replace visible (collector st)),
           last_visible_text := visible\<rparr>)"

definition sanitized_raw_text :: "(ustr \<Rightarrow> json option) \<Rightarrow> agent_stream \<Rightarrow> ustr" where
  "sanitized_raw_text pj st = scrub_internal_control_tokens pj (raw_text st)"

subsection \<open>Removing builds no new tag\<close>

text \<open>A tag that can only be cut at white space, and texts that join without building one.\<close>

definition solid :: "ustr \<Rightarrow> bool" where
  "solid p \<longleftrightarrow> p \<noteq> [] \<and> (\<forall>c \<in> set p. \<not> is_whitespace c)"

definition safe_join :: "ustr \<Rightarrow> ustr \<Rightarrow> bool" where
  "safe_join s t \<longleftrightarrow> s = [] \<or> t = [] \<or> is_whitespace (last s) \<or> is_whitespace (hd t)"

lemma safe_contains:
  assumes "safe_join s t" "solid p" "contains_str (s @ t) p"
  shows "contains_str s p \<or> contains_str t p"
proof -
  have p: "\<forall>c. is_whitespace c \<longrightarrow> c \<notin> set p" "p \<noteq> []" using assms(2) by (auto simp: solid_def)
  consider "s = []" | "t = []" | "s \<noteq> []" "is_whitespace (last s)" | "t \<noteq> []" "is_whitespace (hd t)"
    using assms(1) by (auto simp: safe_join_def)
  then show ?thesis
  proof cases
    case 3
    moreover from 3(1) have "s @ t = butlast s @ last s # t" by (cases s rule: rev_cases) auto
    ultimately have "contains_str (butlast s @ last s # t) p" using assms(3) by metis
    from contains_sep [OF this] p 3 have "contains_str (butlast s) p \<or> contains_str t p" by blast
    then show ?thesis using contains_appendI1 [of "butlast s" p "[last s]"] 3 by auto
  next
    case 4
    then have "contains_str (s @ hd t # tl t) p" using assms(3) by simp
    from contains_sep [OF this] p 4 have "contains_str s p \<or> contains_str (tl t) p" by blast
    then show ?thesis using contains_appendI2 [of "tl t" p "[hd t]"] 4 by auto
  qed (use assms(3) in auto)
qed

lemma newline_ws [simp]: "is_whitespace newline"
  by (simp add: is_whitespace_def newline_def)

lemma safe_separator: "safe_join (push_visible_boundary_separator s t) t"
  by (auto simp: push_visible_boundary_separator_def safe_join_def ends_visible_def)

lemma separator_contains:
  "solid p \<Longrightarrow> contains_str (push_visible_boundary_separator s t) p \<longleftrightarrow> contains_str s p"
proof
  assume p: "solid p" "contains_str (push_visible_boundary_separator s t) p"
  have "safe_join s [newline]" by (simp add: safe_join_def)
  moreover have "\<not> contains_str [newline] p"
    using p(1) contains_set [of "[newline]" p] by (auto simp: solid_def neq_Nil_conv)
  ultimately show "contains_str s p"
    using p safe_contains [of s "[newline]" p] by (auto simp: push_visible_boundary_separator_def split: if_splits)
qed (auto simp: push_visible_boundary_separator_def contains_appendI1)

lemma safe_take: "safe_join s t \<Longrightarrow> safe_join s (take n t)"
  by (cases t; cases n) (auto simp: safe_join_def)

lemma contains_take: "contains_str (take n s) p \<Longrightarrow> contains_str s p"
  using contains_appendI1 [of "take n s" p "drop n s"] by simp

lemma contains_drop: "contains_str (drop n s) p \<Longrightarrow> contains_str s p"
  using contains_appendI2 [of "drop n s" p "take n s"] by simp

lemma before_first_match:
  assumes "str_find s p = Some i" "p \<noteq> []"
  shows "\<not> contains_str (take i s) p"
proof
  assume "contains_str (take i s) p"
  then obtain a b where ab: "take i s = a @ p @ b" by (auto simp: contains_str_iff)
  have le: "i \<le> length s" using str_find_Some [OF assms(1)] by simp
  have "length (take i s) = length a + length p + length b" using ab by simp
  then have j: "length a < i" using le assms(2) by (simp add: neq_Nil_conv) 
  have "s = a @ p @ b @ drop i s" using ab by (metis append.assoc append_take_drop_id)
  then have "starts_with (drop (length a) s) p" by (metis append_eq_conv_conj starts_with_append)
  with str_find_first [OF assms(1) j] show False by simp
qed

lemma strip_block_loop_hides:
  assumes "solid p" "fst tag \<noteq> []" "p = fst tag \<or> \<not> contains_str remaining p"
    "safe_join cleaned remaining" "\<not> contains_str cleaned p"
  shows "\<not> contains_str (strip_block_loop tag remaining cleaned) p"
  using assms(3-)
proof (induction tag remaining cleaned rule: strip_block_loop.induct)
  case (1 tag rem cleaned)
  show ?case
  proof (cases "str_find rem (fst tag)")
    case None
    then have "\<not> contains_str rem p" using "1.prems"(1) str_find_None by blast
    with "1.prems" have "\<not> contains_str (cleaned @ rem) p" using safe_contains [OF _ assms(1)] by blast
    with None show ?thesis by (subst strip_block_loop.simps) simp
  next
    case (Some start)
    show ?thesis
    proof (cases "fst tag = []")
      case True
      with "1.prems" have "\<not> contains_str (cleaned @ rem) p"
        using safe_contains [OF _ assms(1)] assms(1) by (auto simp: solid_def)
      with True show ?thesis by (subst strip_block_loop.simps) simp
    next
      case False
      let ?c = "cleaned @ take start rem" and ?after = "drop (start + length (fst tag)) rem"
      have "\<not> contains_str (take start rem) p"
        using "1.prems"(1) before_first_match [OF Some False] contains_take by blast
      with "1.prems" have c: "\<not> contains_str ?c p"
        using safe_contains [OF safe_take assms(1)] by blast
      show ?thesis
      proof (cases "str_find ?after (snd tag)")
        case None
        with Some False c show ?thesis by (subst strip_block_loop.simps) (simp add: Let_def)
      next
        case (Some e)
        let ?close = "drop (e + length (snd tag)) ?after"
        have "p = fst tag \<or> \<not> contains_str ?close p"
          using "1.prems"(1) contains_drop by (metis drop_drop)
        from "1.IH" [OF False \<open>str_find rem (fst tag) = Some start\<close> refl refl Some refl this safe_separator]
        have "\<not> contains_str (strip_block_loop tag ?close (push_visible_boundary_separator ?c ?close)) p"
          using c separator_contains [OF assms(1)] by blast
        with False \<open>str_find rem (fst tag) = Some start\<close> Some show ?thesis
          by (subst strip_block_loop.simps) (simp add: Let_def)
      qed
    qed
  qed
qed

lemma internal_tags_solid: "tag \<in> set INTERNAL_BLOCK_TAGS \<Longrightarrow> solid (fst tag)"
  by (auto simp: INTERNAL_BLOCK_TAGS_def solid_def is_whitespace_def lit_simps)

lemma strip_tag_hides:
  assumes "tag \<in> set INTERNAL_BLOCK_TAGS" "solid p" "p = fst tag \<or> \<not> contains_str m p"
  shows "\<not> contains_str (strip_balanced_or_open_internal_block m tag) p"
proof -
  have "fst tag \<noteq> []" "safe_join [] m" "\<not> contains_str [] p"
    using internal_tags_solid [OF assms(1)] assms(2) by (auto simp: solid_def safe_join_def)
  with strip_block_loop_hides [OF assms(2), of tag m "[]"] assms(3) show ?thesis
    by (auto simp: strip_balanced_or_open_internal_block_def)
qed

lemma strip_internal_blocks_hides:
  assumes "tag \<in> set INTERNAL_BLOCK_TAGS"
  shows "\<not> contains_str (strip_internal_blocks m) (fst tag)"
proof -
  let ?s = strip_balanced_or_open_internal_block
  obtain t1 t2 t3 where tags: "INTERNAL_BLOCK_TAGS = [t1, t2, t3]" by (simp add: INTERNAL_BLOCK_TAGS_def)
  have hide: "\<not> contains_str (?s m t) p" if "t \<in> {t1, t2, t3}" and tp: "p \<in> fst ` {t1, t2, t3}" and "p = fst t \<or> \<not> contains_str m p" for t p m
  proof (rule strip_tag_hides [OF _ _ that(3)])
    show "t \<in> set INTERNAL_BLOCK_TAGS" using that(1) unfolding tags by simp
    obtain u where "p = fst u" "u \<in> {t1, t2, t3}" using tp by blast
    then show "solid p" using internal_tags_solid [of u] unfolding tags by simp
  qed
  have "tag = t1 \<or> tag = t2 \<or> tag = t3" using assms unfolding tags by simp
  then show ?thesis
    using hide [of t1 "fst tag" m] hide [of t2 "fst tag" "?s m t1"] hide [of t3 "fst tag" "?s (?s m t1) t2"]
    unfolding strip_internal_blocks_def tags by (elim disjE) simp_all
qed

subsection \<open>Legacy markers\<close>

definition marker :: "ustr \<Rightarrow> bool" where
  "marker m \<longleftrightarrow> (\<exists>n. m = chr ''<'' # n @ lit ''|>'' \<and> n \<noteq> [] \<and> (\<forall>c \<in> set n. marker_char c))"

lemma marker_char_plain:
  "marker_char c \<Longrightarrow> \<not> is_whitespace c \<and> c \<noteq> chr ''|'' \<and> c \<noteq> chr ''<'' \<and> c < 128 \<and> 0 \<le> c"
  by (auto simp: marker_char_def is_ascii_alphanumeric_def is_ascii_alphabetic_def is_ascii_digit_def is_whitespace_def)

lemma marker_solid: "marker m \<Longrightarrow> solid m"
proof -
  assume "marker m"
  then obtain n where n: "m = chr ''<'' # n @ lit ''|>''" "\<forall>c \<in> set n. marker_char c" by (auto simp: marker_def)
  have "\<forall>c \<in> set (lit ''|>''). \<not> is_whitespace c" "\<not> is_whitespace (chr ''<'')"
    by (simp_all add: lit_simps is_whitespace_def)
  with n marker_char_plain show ?thesis by (auto simp: solid_def)
qed

lemma marker_end_Some:
  "legacy_control_marker_end s k = Some n \<longleftrightarrow>
     (\<exists>nm t. s = nm @ lit ''|>'' @ t \<and> (\<forall>c \<in> set nm. marker_char c) \<and> n = k + length nm \<and> 0 < n)"
proof (induction s k rule: legacy_control_marker_end.induct)
  case (2 c s k)
  show ?case
  proof (cases "c = chr ''|'' \<and> starts_with s (lit ''>'')")
    case True
    then obtain t where t: "c # s = lit ''|>'' @ t" by (auto simp: starts_with_iff lit_simps)
    have "nm = []" if "c # s = nm @ lit ''|>'' @ u" "\<forall>c \<in> set nm. marker_char c" for nm u
      using that True marker_char_plain [of c] by (cases nm) auto
    then have "(\<exists>nm t. c # s = nm @ lit ''|>'' @ t \<and> (\<forall>c \<in> set nm. marker_char c) \<and> n = k + length nm \<and> 0 < n)
        \<longleftrightarrow> n = k \<and> 0 < n"
      using t by (metis add_0_right append_Nil empty_iff list.set(1) list.size(3))
    moreover have "legacy_control_marker_end (c # s) k = (if 0 < k then Some k else None)" using True by simp
    ultimately show ?thesis by auto
  next
    case False
    have step: "(\<exists>nm t. c # s = nm @ lit ''|>'' @ t \<and> (\<forall>c \<in> set nm. marker_char c) \<and> n = k + length nm \<and> 0 < n) \<longleftrightarrow>
        marker_char c \<and> (\<exists>nm t. s = nm @ lit ''|>'' @ t \<and> (\<forall>c \<in> set nm. marker_char c) \<and> n = Suc k + length nm \<and> 0 < n)"
      (is "?l \<longleftrightarrow> ?r")
    proof
      assume ?l
      then obtain nm t where nm: "c # s = nm @ lit ''|>'' @ t" "\<forall>c \<in> set nm. marker_char c" "n = k + length nm" by blast
      with False obtain nm' where "nm = c # nm'" by (cases nm) (auto simp: lit_simps starts_with_iff)
      with nm show ?r by auto
    next
      assume ?r
      then obtain nm t where "s = nm @ lit ''|>'' @ t" "\<forall>c \<in> set nm. marker_char c" "n = Suc k + length nm" "marker_char c" by blast
      then show ?l by (intro exI [of _ "c # nm"] exI [of _ t]) simp
    qed
    show ?thesis
    proof (cases "marker_char c")
      case True
      with False 2 step show ?thesis by auto
    next
      case False': False
      with False step show ?thesis by auto
    qed
  qed
qed simp

lemma marker_end_0:
  "legacy_control_marker_end s 0 = Some n \<longleftrightarrow>
     (\<exists>m t. chr ''<'' # s = m @ t \<and> marker m \<and> length m = n + 3)"
proof
  assume "legacy_control_marker_end s 0 = Some n"
  then obtain nm t where "s = nm @ lit ''|>'' @ t" "\<forall>c \<in> set nm. marker_char c" "n = length nm" "0 < n"
    by (auto simp: marker_end_Some)
  then show "\<exists>m t. chr ''<'' # s = m @ t \<and> marker m \<and> length m = n + 3"
    by (intro exI [of _ "chr ''<'' # nm @ lit ''|>''"] exI [of _ t]) (auto simp: marker_def)
next
  assume "\<exists>m t. chr ''<'' # s = m @ t \<and> marker m \<and> length m = n + 3"
  then obtain nm t where "chr ''<'' # s = (chr ''<'' # nm @ lit ''|>'') @ t" "nm \<noteq> []" "\<forall>c \<in> set nm. marker_char c" "n = length nm"
    by (auto simp: marker_def)
  then show "legacy_control_marker_end s 0 = Some n"
    unfolding marker_end_Some by (intro exI [of _ nm] exI [of _ t]) simp
qed

lemma marker_end_None:
  "legacy_control_marker_end s 0 = None \<Longrightarrow> marker m \<Longrightarrow> \<not> starts_with (chr ''<'' # s) m"
proof
  assume h: "legacy_control_marker_end s 0 = None" "marker m" "starts_with (chr ''<'' # s) m"
  then obtain t where "chr ''<'' # s = m @ t" by (auto simp: starts_with_iff)
  moreover obtain n where "length m = n + 3" using h(2) by (auto simp: marker_def)
  ultimately have "legacy_control_marker_end s 0 = Some n" using h(2) by (auto simp: marker_end_0)
  with h(1) show False by simp
qed

text \<open>A tag that no step of the scan can build: it is absent from what is copied and does not start in the segment.\<close>

lemma strip_legacy_hides:
  assumes p: "solid p" "hd p = chr ''<''"
    and "safe_join cleaned (segment @ s)" "\<not> contains_str cleaned p"
    and "\<And>i. i < length segment \<Longrightarrow> \<not> starts_with (drop i (segment @ s)) p"
    and "\<not> contains_str s p \<or> marker p"
  shows "\<not> contains_str (strip_legacy_loop cleaned segment s) p"
  using assms(3-)
proof (induction cleaned segment s rule: strip_legacy_loop.induct)
  case (1 cleaned segment)
  have "\<not> contains_str segment p"
  proof
    assume "contains_str segment p"
    then obtain a b where ab: "segment = a @ p @ b" by (auto simp: contains_str_iff)
    with p(1) have "length a < length segment" by (auto simp: solid_def)
    with 1(3) [of "length a"] ab show False by simp
  qed
  with 1(1,2) safe_contains [OF _ p(1)] show ?case by fastforce
next
  case (2 cleaned segment c s)
  let ?e = "if c = chr ''<'' then legacy_control_marker_end s 0 else None"
  have seg: "\<not> starts_with (drop i ((segment @ [c]) @ s)) p" if "i < length (segment @ [c])" "?e = None" for i
  proof (cases "i = length segment")
    case True
    show ?thesis
    proof (cases "c = chr ''<''")
      case lt: True
      with that(2) marker_end_None [of s p] have "marker p \<Longrightarrow> \<not> starts_with (c # s) p" by simp
      moreover have "\<not> contains_str (c # s) p \<Longrightarrow> \<not> starts_with (c # s) p" by auto
      ultimately show ?thesis using 2(6) True by auto
    next
      case False
      with p have "\<not> starts_with (c # s) p" by (cases p) (auto simp: solid_def)
      with True show ?thesis by simp
    qed
  next
    case False
    with that(1) have "i < length segment" by simp
    with 2(5) [of i] show ?thesis by simp
  qed
  show ?case
  proof (cases ?e)
    case None
    with 2(1) [OF None] 2(3,4,6) seg [OF _ None] show ?thesis by auto
  next
    case (Some n)
    let ?c = "cleaned @ segment"
    have "\<not> contains_str segment p"
    proof
      assume "contains_str segment p"
      then obtain a b where ab: "segment = a @ p @ b" by (auto simp: contains_str_iff)
      with p(1) have "length a < length segment" by (auto simp: solid_def)
      with 2(5) [of "length a"] ab show False by simp
    qed
    moreover have "safe_join cleaned segment" using safe_take [OF 2(3), of "length segment"] by simp
    ultimately have c: "\<not> contains_str ?c p" using 2(4) safe_contains [OF _ p(1)] by blast
    let ?c' = "if ends_visible ?c then ?c @ [newline] else ?c"
    have nl: "\<not> contains_str (?c @ [newline]) p"
    proof
      assume "contains_str (?c @ [newline]) p"
      then have "contains_str ?c p \<or> contains_str [newline] p" 
        using safe_contains [of ?c "[newline]" p] p(1) by (auto simp: safe_join_def)
      with c have "contains_str [newline] p" by blast
      then show False using p(1) contains_set [of "[newline]" p] by (auto simp: solid_def neq_Nil_conv)
    qed
    have "safe_join ?c' ([] @ drop (n + 2) s)" by (auto simp: safe_join_def ends_visible_def)
    moreover have "\<not> contains_str (drop (n + 2) s) p \<or> marker p"
      using 2(6) contains_drop [of "n + 2" s p] by auto
    ultimately have "\<not> contains_str (strip_legacy_loop ?c' [] (drop (n + 2) s)) p"
      using 2(2) [OF Some refl] c nl by simp
    with Some show ?thesis by (simp add: Let_def)
  qed
qed

lemma strip_markers_hides:
  assumes "solid p" "hd p = chr ''<''" "\<not> contains_str m p \<or> marker p"
  shows "\<not> contains_str (strip_legacy_control_markers m) p"
  unfolding strip_legacy_control_markers_def
  by (rule strip_legacy_hides [OF assms(1,2)]) (use assms in \<open>auto simp: safe_join_def solid_def\<close>)

subsection \<open>Appending a delta\<close>

text \<open>Scrubbing leaves text without tags alone, and what is before a delta that completes no marker.\<close>

definition completes_marker :: "ustr \<Rightarrow> ustr \<Rightarrow> bool" where
  "completes_marker s d \<longleftrightarrow> (\<exists>x m y. s @ d = x @ m @ y \<and> marker m \<and> length s < length (x @ m))"

lemma completes_marker_Cons: "completes_marker s d \<Longrightarrow> completes_marker (c # s) d"
  unfolding completes_marker_def by (metis append_Cons length_Cons Suc_less_eq)

lemma completes_marker_drop: "completes_marker (drop n s) d \<Longrightarrow> completes_marker s d"
proof (induction n arbitrary: s)
  case (Suc n)
  then show ?case by (cases s) (auto intro: completes_marker_Cons)
qed simp

lemma marker_nonempty: "marker m \<Longrightarrow> m \<noteq> []"
  by (auto simp: marker_def)

lemma strip_legacy_plain:
  "\<not> completes_marker [] d \<Longrightarrow> strip_legacy_loop cleaned segment d = cleaned @ segment @ d"
proof (induction cleaned segment d rule: strip_legacy_loop.induct)
  case (2 cleaned segment c s)
  have "(if c = chr ''<'' then legacy_control_marker_end s 0 else None) = None"
  proof (rule ccontr)
    assume "\<not> ?thesis"
    then obtain n where "c = chr ''<''" "legacy_control_marker_end s 0 = Some n" by (auto split: if_splits)
    then obtain m t where "c # s = m @ t" "marker m" by (auto simp: marker_end_0)
    with marker_nonempty have "completes_marker [] (c # s)"
      unfolding completes_marker_def by (intro exI [of _ "[]"] exI [of _ m] exI [of _ t]) auto
    with 2 show False by simp
  qed
  moreover have "\<not> completes_marker [] s"
  proof
    assume "completes_marker [] s"
    then obtain x m y where "s = x @ m @ y" "marker m" by (auto simp: completes_marker_def)
    then have "completes_marker [] (c # s)"
      unfolding completes_marker_def by (intro exI [of _ "c # x"] exI [of _ m] exI [of _ y]) auto
    with 2 show False by simp
  qed
  ultimately show ?case using 2(1) by simp
qed simp

lemma marker_end_append:
  "legacy_control_marker_end s 0 = Some n \<Longrightarrow> legacy_control_marker_end (s @ d) 0 = Some n"
  unfolding marker_end_Some by fastforce

lemma strip_legacy_append:
  "\<not> completes_marker s d \<Longrightarrow> strip_legacy_loop cleaned segment (s @ d) = strip_legacy_loop cleaned segment s @ d"
proof (induction cleaned segment s rule: strip_legacy_loop.induct)
  case (1 cleaned segment)
  then show ?case using strip_legacy_plain by simp
next
  case (2 cleaned segment c s)
  let ?e = "\<lambda>s. if c = chr ''<'' then legacy_control_marker_end s 0 else None"
  have no: "\<not> completes_marker s d" using 2(3) completes_marker_Cons by blast
  show ?case
  proof (cases "?e (s @ d)")
    case None
    have "?e s = None"
    proof (rule ccontr)
      assume "\<not> ?thesis"
      then obtain n where "c = chr ''<''" "legacy_control_marker_end s 0 = Some n" by (auto split: if_splits)
      with None marker_end_append [of s n d] show False by simp
    qed
    with None 2(1) no show ?thesis by simp
  next
    case (Some n)
    then have c: "c = chr ''<''" and e: "legacy_control_marker_end (s @ d) 0 = Some n" by (auto split: if_splits)
    from e obtain m t where m: "c # s @ d = m @ t" "marker m" "length m = n + 3" using c by (auto simp: marker_end_0)
    have le: "length m \<le> length (c # s)"
    proof (rule ccontr)
      assume "\<not> ?thesis"
      then have "completes_marker (c # s) d"
        unfolding completes_marker_def using m(1,2) by (intro exI [of _ "[]"] exI [of _ m] exI [of _ t]) auto
      with 2(3) show False by simp
    qed
    have "(c # s) @ d = m @ t" using m(1) by simp
    then obtain us where us: "c # s = m @ us \<or> (c # s) @ us = m"
      unfolding append_eq_append_conv2 by blast
    with le have "c # s = m @ (if (c # s) @ us = m then [] else us)" by auto
    then obtain us where "c # s = m @ us" by blast
    with m(2,3) c have es: "legacy_control_marker_end s 0 = Some n" unfolding marker_end_0 by blast
    have "drop (n + 2) (s @ d) = drop (n + 2) s @ d" using le m(3) by simp
    moreover have "\<not> completes_marker (drop (n + 2) s) d" using no completes_marker_drop by blast
    ultimately show ?thesis using 2(2) [of n] c e es by (simp add: Let_def)
  qed
qed

lemma scrub_plain:
  assumes "\<And>t. t \<in> set CONTEXT_TOKENS \<Longrightarrow> \<not> contains_str m t"
  shows "scrub_internal_control_tokens pj m = strip_legacy_control_markers m"
proof -
  have dsml: "\<not> contains_dsml m" and eos: "\<not> contains_str m DEEPSEEK_EOS"
    using assms by (auto simp: contains_dsml_def CONTEXT_TOKENS_def list_ex_iff)
  have "\<not> contains_str m (fst t)" if "t \<in> set INTERNAL_BLOCK_TAGS" for t
    using assms that by (simp add: CONTEXT_TOKENS_def)
  then have "foldl strip_balanced_or_open_internal_block m ts = m" if "set ts \<subseteq> set INTERNAL_BLOCK_TAGS" for ts
    using that by (induction ts) (auto simp: strip_balanced_or_open_internal_block_def)
  then have ib: "strip_internal_blocks m = m" by (simp add: strip_internal_blocks_def)
  have "strip_legacy_control_markers m = m" if "chr ''<'' \<notin> set m"
  proof -
    have "\<not> completes_marker [] m" using that by (auto simp: completes_marker_def marker_def)
    then show ?thesis by (simp add: strip_legacy_control_markers_def strip_legacy_plain)
  qed
  with dsml eos ib show ?thesis by (simp add: scrub_internal_control_tokens_def Let_def)
qed

lemma scrub_append:
  assumes "\<And>t. t \<in> set CONTEXT_TOKENS \<Longrightarrow> \<not> contains_str (s @ d) t" "\<not> completes_marker s d"
  shows "scrub_internal_control_tokens pj (s @ d) = scrub_internal_control_tokens pj s @ d"
proof -
  have "\<And>t. t \<in> set CONTEXT_TOKENS \<Longrightarrow> \<not> contains_str s t"
    using assms(1) contains_appendI1 by blast
  then show ?thesis
    using assms by (simp add: scrub_plain strip_legacy_control_markers_def strip_legacy_append)
qed

subsection \<open>What the recognizer sees\<close>

lemma utf8_append [simp]: "utf8 (s @ t) = utf8 s @ utf8 t"
  by (simp add: utf8_def)

lemma utf8_ascii: "\<forall>c \<in> set s. c < 128 \<Longrightarrow> utf8 s = s"
  by (induction s) (simp_all add: utf8_def utf8_char_def)

lemma utf8_Nil [simp]: "utf8 [] = []" "utf8 s = [] \<longleftrightarrow> s = []"
  by (cases s; simp add: utf8_def utf8_char_def)+

lemma contains_utf8: "contains_str s t \<Longrightarrow> contains_str (utf8 s) (utf8 t)"
  unfolding contains_str_iff by (elim exE, hypsubst) (simp, blast)

lemma window_31: "CONTEXT_WINDOW = 31"
  by code_simp

lemma tokens_fit: "list_all (\<lambda>t. utf8 t \<noteq> [] \<and> length (utf8 t) \<le> 31) CONTEXT_TOKENS"
  by code_simp

definition last_bytes :: "int list \<Rightarrow> int list" where
  "last_bytes bs = drop (length bs - CONTEXT_WINDOW) bs"

lemma push_context_window: "push_context (last_bytes bs) b = last_bytes (bs @ [b])"
proof (cases "length bs < CONTEXT_WINDOW")
  case False
  then have "last_bytes bs = drop (length bs - CONTEXT_WINDOW) bs" "Suc (length bs) - CONTEXT_WINDOW = Suc (length bs - CONTEXT_WINDOW)"
    by (simp_all add: last_bytes_def)
  with False show ?thesis by (simp add: push_context_def last_bytes_def tl_drop drop_Suc window_31)
qed (simp add: push_context_def last_bytes_def)

lemma ends_with_iff: "ends_with s p \<longleftrightarrow> (\<exists>a. s = a @ p)"
proof
  assume "ends_with s p"
  then obtain t where "rev s = rev p @ t" by (auto simp: ends_with_def starts_with_iff)
  then have "s = rev t @ p" by (metis rev_append rev_rev_ident)
  then show "\<exists>a. s = a @ p" by blast
qed (auto simp: ends_with_def)

lemma ends_with_window:
  assumes "length p \<le> CONTEXT_WINDOW"
  shows "ends_with (last_bytes bs) p \<longleftrightarrow> ends_with bs p"
proof
  assume "ends_with (last_bytes bs) p"
  then obtain a where "last_bytes bs = a @ p" by (auto simp: ends_with_iff)
  then have "bs = take (length bs - CONTEXT_WINDOW) bs @ a @ p"
    unfolding last_bytes_def by (metis append_take_drop_id)
  then show "ends_with bs p" unfolding ends_with_iff by (metis append.assoc)
next
  assume "ends_with bs p"
  then obtain a where "bs = a @ p" by (auto simp: ends_with_iff)
  with assms have "last_bytes bs = drop (length bs - CONTEXT_WINDOW) a @ p" by (simp add: last_bytes_def)
  then show "ends_with (last_bytes bs) p" unfolding ends_with_iff by blast
qed

lemma contains_snoc: "contains_str (s @ [b]) p \<Longrightarrow> p \<noteq> [] \<Longrightarrow> contains_str s p \<or> ends_with (s @ [b]) p"
proof -
  assume "contains_str (s @ [b]) p" "p \<noteq> []"
  then obtain x y where "s @ [b] = x @ p @ y" by (auto simp: contains_str_iff)
  then show ?thesis
    by (cases y rule: rev_cases) (auto simp: contains_str_iff ends_with_iff)
qed

definition legacy_state :: "int list \<Rightarrow> legacy_prefix" where
  "legacy_state bs = foldl (\<lambda>l b. fst (legacy_step l b)) NoPrefix bs"

lemma legacy_state_snoc: "legacy_state (bs @ [b]) = fst (legacy_step (legacy_state bs) b)"
  by (simp add: legacy_state_def)

lemma legacy_state_name:
  "\<forall>c \<in> set n. marker_char c \<Longrightarrow>
     legacy_state (x @ chr ''<'' # n) = (if n = [] then OpenPrefix else NamePrefix)"
proof (induction n rule: rev_induct)
  case Nil
  then show ?case using legacy_state_snoc [of x "chr ''<''"] by (simp add: legacy_step_def)
next
  case (snoc c n)
  from snoc.prems have "marker_char c" by simp
  with marker_char_plain [OF this] snoc legacy_state_snoc [of "x @ chr ''<'' # n" c] show ?case
    by (auto simp: legacy_step_def)
qed

lemma marker_recognized:
  assumes "marker m"
  shows "snd (legacy_step (legacy_state (x @ butlast m)) (last m))"
proof -
  obtain n where n: "m = chr ''<'' # n @ lit ''|>''" "n \<noteq> []" "\<forall>c \<in> set n. marker_char c"
    using assms by (auto simp: marker_def)
  have "lit ''|>'' = [chr ''|'', chr ''>'']" by (simp add: lit_simps)
  then have m: "butlast m = (chr ''<'' # n) @ [chr ''|'']" "last m = chr ''>''"
    using n(1) by (simp_all add: butlast_append)
  have "legacy_state (x @ chr ''<'' # n) = NamePrefix" using legacy_state_name [OF n(3)] n(2) by simp
  then have "legacy_state (x @ butlast m) = PipePrefix"
    using legacy_state_snoc [of "x @ chr ''<'' # n" "chr ''|''"] m(1)
    by (simp add: legacy_step_def marker_char_def is_ascii_alphanumeric_def is_ascii_alphabetic_def is_ascii_digit_def)
  then show ?thesis by (simp add: m(2) legacy_step_def)
qed

definition replay_ok :: "control_token_replay \<Rightarrow> int list \<Rightarrow> bool" where
  "replay_ok st seen \<longleftrightarrow> canonical_replay st \<or>
     (context_tail st = last_bytes seen \<and> legacy st = legacy_state seen \<and>
      (\<forall>t \<in> set CONTEXT_TOKENS. \<not> contains_str seen (utf8 t)))"

lemma replay_bytes_correct:
  "replay_bytes st bs completed = (st', again) \<Longrightarrow> replay_ok st seen \<Longrightarrow> \<not> canonical_replay st \<Longrightarrow>
     replay_ok st' (seen @ bs) \<and>
     (\<not> again \<longrightarrow> \<not> completed \<and> \<not> canonical_replay st' \<and>
        (\<forall>p b q. bs = p @ b # q \<longrightarrow> \<not> snd (legacy_step (legacy_state (seen @ p)) b)))"
proof (induction st bs completed arbitrary: seen rule: replay_bytes.induct)
  case (2 st b bs completed)
  let ?st = "st\<lparr>context_tail := push_context (context_tail st) b\<rparr>"
  have inv: "context_tail st = last_bytes seen" "legacy st = legacy_state seen"
    "\<forall>t \<in> set CONTEXT_TOKENS. \<not> contains_str seen (utf8 t)"
    using 2(3,4) by (auto simp: replay_ok_def)
  have fit: "utf8 t \<noteq> []" "length (utf8 t) \<le> CONTEXT_WINDOW" if "t \<in> set CONTEXT_TOKENS" for t
    using tokens_fit that by (auto simp: window_31 list_all_iff)
  have tail: "context_tail ?st = last_bytes (seen @ [b])" using inv(1) push_context_window by simp
  show ?case
  proof (cases "list_ex (\<lambda>t. ends_with (context_tail ?st) (utf8 t)) CONTEXT_TOKENS")
    case True
    with 2(2) show ?thesis by (auto simp: replay_ok_def Let_def)
  next
    case False
    obtain l c where lc: "legacy_step (legacy ?st) b = (l, c)" by fastforce
    let ?st2 = "?st\<lparr>legacy := l\<rparr>"
    have run: "replay_bytes ?st2 bs (completed \<or> c) = (st', again)"
      using 2(2) False lc by (simp add: Let_def)
    have "\<not> contains_str (seen @ [b]) (utf8 t)" if "t \<in> set CONTEXT_TOKENS" for t
      using contains_snoc [OF _ fit(1) [OF that]] inv(3) that False tail ends_with_window [OF fit(2) [OF that]]
      by (metis (mono_tags, lifting) list_ex_iff)
    then have ok: "replay_ok ?st2 (seen @ [b])"
      using tail inv(2) lc legacy_state_snoc [of seen b] by (simp add: replay_ok_def)
    have "\<not> canonical_replay ?st2" using 2(4) by simp
    from 2(1) [OF refl False refl lc [symmetric] run ok this]
    have ih: "replay_ok st' ((seen @ [b]) @ bs)"
      "\<not> again \<Longrightarrow> \<not> completed \<and> \<not> c \<and> \<not> canonical_replay st' \<and>
        (\<forall>p b' q. bs = p @ b' # q \<longrightarrow> \<not> snd (legacy_step (legacy_state ((seen @ [b]) @ p)) b'))"
      by auto
    have "\<not> snd (legacy_step (legacy_state (seen @ p)) b')" if "\<not> again" "b # bs = p @ b' # q" for p b' q
    proof (cases p)
      case Nil
      then show ?thesis using that ih(2) lc inv(2) by simp
    next
      case (Cons x p')
      then show ?thesis using that ih(2) by auto
    qed
    with ih show ?thesis by auto
  qed
qed auto

lemma no_marker_completed:
  assumes "\<And>p b q. utf8 d = p @ b # q \<Longrightarrow> \<not> snd (legacy_step (legacy_state (utf8 s @ p)) b)"
  shows "\<not> completes_marker s d"
proof
  assume "completes_marker s d"
  then obtain x m y where m: "s @ d = x @ m @ y" "marker m" "length s < length (x @ m)"
    by (auto simp: completes_marker_def)
  have "s @ d = (x @ m) @ y" using m(1) by simp
  then obtain us where "s = (x @ m) @ us \<or> s @ us = x @ m \<and> d = us @ y"
    unfolding append_eq_append_conv2 by blast
  with m(3) obtain d1 where d: "x @ m = s @ d1" "d = d1 @ y" "d1 \<noteq> []" by force
  have ascii: "utf8 m = m"
  proof (rule utf8_ascii)
    obtain n where "m = chr ''<'' # n @ lit ''|>''" "\<forall>c \<in> set n. marker_char c" using m(2) by (auto simp: marker_def)
    then show "\<forall>c \<in> set m. c < 128" using marker_char_plain by (auto simp: lit_simps)
  qed
  have ne: "m \<noteq> []" by (rule marker_nonempty [OF m(2)])
  have bytes: "utf8 s @ utf8 d1 = utf8 x @ butlast m @ [last m]"
    using d(1) ascii ne by (metis append_butlast_last_id utf8_append)
  have "utf8 d1 \<noteq> []" using d(3) by simp
  then obtain e c where ec: "utf8 d1 = e @ [c]" by (cases "utf8 d1" rule: rev_cases) auto
  with bytes have "utf8 d1 = butlast (utf8 d1) @ [last m]" "utf8 s @ butlast (utf8 d1) = utf8 x @ butlast m"
    by simp_all
  then have "utf8 d = butlast (utf8 d1) @ last m # utf8 y"
    using d(2) by (metis append_Cons append_Nil append_assoc utf8_append)
  from assms [OF this] marker_recognized [OF m(2), of "utf8 x"] show False
    using \<open>utf8 s @ butlast (utf8 d1) = utf8 x @ butlast m\<close> by simp
qed

lemma requires_replay_correct:
  assumes "requires_replay st d = (st', again)" "replay_ok st (utf8 s)"
  shows "replay_ok st' (utf8 (s @ d))"
    and "\<not> again \<Longrightarrow> scrub_internal_control_tokens pj (s @ d) = scrub_internal_control_tokens pj s @ d"
proof -
  have "replay_ok st' (utf8 (s @ d)) \<and>
    (\<not> again \<longrightarrow> scrub_internal_control_tokens pj (s @ d) = scrub_internal_control_tokens pj s @ d)"
  proof (cases "d = [] \<or> canonical_replay st")
    case True
    with assms show ?thesis by (auto simp: requires_replay_def replay_ok_def split: if_splits)
  next
    case False
    then have run: "replay_bytes st (utf8 d) False = (st', again)" and c: "\<not> canonical_replay st"
      using assms(1) by (auto simp: requires_replay_def)
    note ok = replay_bytes_correct [OF run assms(2) c]
    have "scrub_internal_control_tokens pj (s @ d) = scrub_internal_control_tokens pj s @ d" if "\<not> again"
    proof (rule scrub_append)
      show "\<not> completes_marker s d" using ok that by (intro no_marker_completed) auto
      fix t
      assume t: "t \<in> set CONTEXT_TOKENS"
      have "\<not> contains_str (utf8 (s @ d)) (utf8 t)" using ok that t by (auto simp: replay_ok_def)
      then show "\<not> contains_str (s @ d) t" using contains_utf8 by blast
    qed
    with ok show ?thesis by simp
  qed
  then show "replay_ok st' (utf8 (s @ d))"
    and "\<not> again \<Longrightarrow> scrub_internal_control_tokens pj (s @ d) = scrub_internal_control_tokens pj s @ d" by blast+
qed

subsection \<open>The collector\<close>

lemma collector_buffer [simp]:
  "md_buffer (collector_push d m) = md_buffer m @ d" "md_buffer (collector_replace src m) = src"
  by (simp_all add: collector_push_def collector_replace_def Let_def split: option.split)

text \<open>The collector knows where its last complete line ends and how many closing brackets it holds.\<close>

definition collector_ok :: "markdown_collector \<Rightarrow> bool" where
  "collector_ok m \<longleftrightarrow>
     md_complete_len m = (case str_rfind (utf8 (md_buffer m)) [newline] of Some i \<Rightarrow> i + 1 | None \<Rightarrow> 0) \<and>
     md_closing_brackets m = length (filter (\<lambda>b. b = chr '']'') (utf8 (md_buffer m)))"

lemma collector_push_ok: "collector_ok m \<Longrightarrow> collector_ok (collector_push d m)"
  by (auto simp: collector_ok_def collector_push_def str_rfind_append Let_def split: option.splits)

lemma collector_replace_ok: "collector_ok (collector_replace src m)"
proof -
  have "collector_ok (m\<lparr>md_buffer := [], md_complete_len := 0, md_closing_brackets := 0\<rparr>)"
    by (simp add: collector_ok_def)
  then show ?thesis unfolding collector_replace_def by (rule collector_push_ok)
qed

subsection \<open>Properties\<close>

definition stream_ok :: "(ustr \<Rightarrow> json option) \<Rightarrow> ustr \<Rightarrow> agent_stream \<Rightarrow> bool" where
  "stream_ok pj src st \<longleftrightarrow>
     sanitize_delta default_sanitizer src = (stream_text_sanitizer st, raw_text st) \<and>
     replay_ok (control_replay st) (utf8 (raw_text st)) \<and>
     last_visible_text st = scrub_internal_control_tokens pj (raw_text st) \<and>
     md_buffer (collector st) = last_visible_text st \<and> collector_ok (collector st)"

lemma stream_push_ok:
  assumes "stream_ok pj src st"
  shows "stream_ok pj (src @ delta) (agent_stream_push pj st delta)"
proof -
  obtain san d where san: "sanitize_delta (stream_text_sanitizer st) delta = (san, d)" by fastforce
  obtain rep again where rep: "requires_replay (control_replay st) d = (rep, again)" by fastforce
  have ok: "sanitize_delta default_sanitizer src = (stream_text_sanitizer st, raw_text st)"
    "replay_ok (control_replay st) (utf8 (raw_text st))" "collector_ok (collector st)"
    "last_visible_text st = scrub_internal_control_tokens pj (raw_text st)"
    "md_buffer (collector st) = last_visible_text st" using assms by (simp_all add: stream_ok_def)
  have "sanitize_delta default_sanitizer (src @ delta) = (san, raw_text st @ d)"
    using ok(1) san by (simp add: sanitize_delta_append)
  moreover note requires_replay_correct [OF rep ok(2)]
  ultimately show ?thesis
    using ok(3-) collector_push_ok collector_replace_ok san rep
    by (cases again) (auto simp: agent_stream_push_def stream_ok_def Let_def strip_prefix_Some split: option.splits)
qed

lemma stream_ok_run: "stream_ok pj (concat ds) (foldl (agent_stream_push pj) new_agent_stream ds)"
proof (induction ds rule: rev_induct)
  case Nil
  have "scrub_internal_control_tokens pj [] = []"
    using scrub_plain [of "[]" pj] tokens_fit by (force simp: strip_legacy_control_markers_def list_all_iff)
  then show ?case
    by (simp add: stream_ok_def new_agent_stream_def replay_ok_def new_replay_def last_bytes_def legacy_state_def
        collector_ok_def new_collector_def) (use tokens_fit in \<open>auto simp: list_all_iff\<close>)
next
  case (snoc d ds)
  then show ?case using stream_push_ok by simp
qed

text \<open>
  C28. After every delta, however the provider cuts its answer, the markdown of the stream is the
  scrubbed text of the sanitized source so far: neither a split marker, nor late evidence, nor an
  escape sequence cut in two makes a difference.
\<close>

theorem stream_shows_scrubbed_source:
  "md_buffer (collector (foldl (agent_stream_push pj) new_agent_stream ds)) =
     scrub_internal_control_tokens pj (sanitize_display_text (concat ds))"
  using stream_ok_run [of pj ds] by (simp add: stream_ok_def sanitize_display_text_def)

text \<open>
  C29. Scrubbed text holds no opening tag of a block of the runtime and no legacy marker, also none that
  removing others could have joined together.
\<close>

theorem scrubbed_text_hides_control_tokens:
  "(\<forall>tag \<in> set INTERNAL_BLOCK_TAGS. \<not> contains_str (scrub_internal_control_tokens pj m) (fst tag)) \<and>
   (\<forall>t. marker t \<longrightarrow> \<not> contains_str (scrub_internal_control_tokens pj m) t)"
proof -
  obtain x where x: "scrub_internal_control_tokens pj m =
      (let y = strip_internal_blocks x in if chr ''<'' \<notin> set y then y else strip_legacy_control_markers y)"
    by (simp add: scrub_internal_control_tokens_def Let_def)
  have absent: "\<not> contains_str (scrub_internal_control_tokens pj m) p"
    if "solid p" "hd p = chr ''<''" "\<not> contains_str (strip_internal_blocks x) p \<or> marker p" for p
  proof -
    have "chr ''<'' \<in> set p" using that(1,2) by (cases p) (auto simp: solid_def)
    then have "chr ''<'' \<notin> set y \<Longrightarrow> \<not> contains_str y p" for y using contains_set [of y p] by blast
    with strip_markers_hides [OF that] x show ?thesis by (simp add: Let_def)
  qed
  have "\<not> contains_str (scrub_internal_control_tokens pj m) (fst tag)" if "tag \<in> set INTERNAL_BLOCK_TAGS" for tag
  proof (rule absent)
    show "hd (fst tag) = chr ''<''" using that by (auto simp: INTERNAL_BLOCK_TAGS_def lit_simps)
  qed (use that internal_tags_solid strip_internal_blocks_hides in auto)
  moreover have "\<not> contains_str (scrub_internal_control_tokens pj m) t" if "marker t" for t
    by (rule absent) (use that marker_solid in \<open>auto simp: marker_def\<close>)
  ultimately show ?thesis by blast
qed

theorem scrubbed_text_hides_control_tokens_witness:
  "contains_str (lit ''a<agent_runtime>x</agent_runtime><b|>c'') (lit ''<agent_runtime>'') \<and>
   \<not> contains_str (scrub_internal_control_tokens (\<lambda>_. None) (lit ''a<agent_runtime>x</agent_runtime><b|>c'')) (lit ''<agent_runtime>'') \<and>
   \<not> contains_str (scrub_internal_control_tokens (\<lambda>_. None) (lit ''a<agent_runtime>x</agent_runtime><b|>c'')) (lit ''<b|>'')"
proof -
  have "contains_str (lit ''a<agent_runtime>x</agent_runtime><b|>c'') (lit ''<agent_runtime>'')" by code_simp
  moreover have "(lit ''<agent_runtime>'', lit ''</agent_runtime>'') \<in> set INTERNAL_BLOCK_TAGS"
    by (simp add: INTERNAL_BLOCK_TAGS_def)
  moreover have "marker (lit ''<b|>'')"
    unfolding marker_def by (intro exI [of _ "lit ''b''"]) (simp add: lit_simps marker_char_def is_ascii_alphanumeric_def is_ascii_alphabetic_def)
  ultimately show ?thesis
    using scrubbed_text_hides_control_tokens [of "\<lambda>_. None" "lit ''a<agent_runtime>x</agent_runtime><b|>c''"]
    by (metis fst_conv)
qed

end
