(* ===== verification/DeepseekStream.thy ===== *)
theory DeepseekStream
  imports ControlTokens
begin

section \<open>Filtering a streamed answer (src/llm/openai_compatible.rs)\<close>

text \<open>
  A streamed answer goes through two stages before it is shown: the first decides whether a leading
  think block is hidden reasoning or literal text, the second holds back inline tool-call markup.
  Lemmas: hidden reasoning is never emitted; text with neither a leading think tag nor DSML tokens is
  emitted completely, once and in order, however it is cut, and the fast path of the second stage,
  which looks at a short window only, never emits a beginning of a tag.
\<close>

subsection \<open>The leading think block\<close>

definition DEEPSEEK_THINK_OPEN :: ustr where "DEEPSEEK_THINK_OPEN = lit ''<think>''"
definition DEEPSEEK_THINK_CLOSE :: ustr where "DEEPSEEK_THINK_CLOSE = lit ''</think>''"

datatype think_state = AtStart | PendingLeadingThink | ThinkDone

record think_stage =
  think_state :: think_state
  prefix_buffer :: ustr
  leading_think_is_control :: bool

definition new_think_stage :: "bool \<Rightarrow> think_stage" where
  "new_think_stage control = \<lparr>think_state = AtStart, prefix_buffer = [], leading_think_is_control = control\<rparr>"

definition think_finish :: "think_stage \<Rightarrow> think_stage \<times> ustr" where
  "think_finish st =
     (let buffered = prefix_buffer st; st = st\<lparr>prefix_buffer := [], think_state := ThinkDone\<rparr> in
      if buffered = [] then (st, [])
      else (st, scrub_deepseek_visible_text buffered
                  (leading_think_is_control st \<or> has_deepseek_control_evidence buffered)))"

definition flush_pending_leading_think_if_ready :: "think_stage \<Rightarrow> think_stage \<times> ustr" where
  "flush_pending_leading_think_if_ready st =
     (if \<not> leading_think_is_control st \<and> \<not> has_deepseek_control_evidence (prefix_buffer st) then (st, [])
      else if \<not> contains_str (prefix_buffer st) DEEPSEEK_THINK_CLOSE then (st, [])
      else think_finish st)"

definition push_at_start :: "think_stage \<Rightarrow> ustr \<Rightarrow> think_stage \<times> ustr" where
  "push_at_start st delta =
     (let st = st\<lparr>prefix_buffer := prefix_buffer st @ delta\<rparr>; trimmed = trim_start (prefix_buffer st) in
      if starts_with DEEPSEEK_THINK_OPEN trimmed then (st, [])
      else if \<not> starts_with trimmed DEEPSEEK_THINK_OPEN
      then (st\<lparr>think_state := ThinkDone, prefix_buffer := []\<rparr>, prefix_buffer st)
      else flush_pending_leading_think_if_ready (st\<lparr>think_state := PendingLeadingThink\<rparr>))"

definition think_push :: "think_stage \<Rightarrow> ustr \<Rightarrow> think_stage \<times> ustr" where
  "think_push st delta =
     (case think_state st of
        AtStart \<Rightarrow> push_at_start st delta
      | PendingLeadingThink \<Rightarrow>
          flush_pending_leading_think_if_ready (st\<lparr>prefix_buffer := prefix_buffer st @ delta\<rparr>)
      | ThinkDone \<Rightarrow> (st, delta))"

subsection \<open>Inline tool-call markup\<close>

record dsml_stage =
  dsml_raw :: ustr
  dsml_last_visible :: ustr
  dsml_settled :: bool

definition new_dsml_stage :: dsml_stage where
  "new_dsml_stage = \<lparr>dsml_raw = [], dsml_last_visible = [], dsml_settled = False\<rparr>"

definition DSML_TAIL_WINDOW_BYTES :: nat where "DSML_TAIL_WINDOW_BYTES = 32"

text \<open>
  The text from the last character boundary that leaves at least \<open>n\<close> bytes, read from its end
  (\<open>floor_char_boundary\<close>).
\<close>

fun tail_bytes :: "ustr \<Rightarrow> nat \<Rightarrow> ustr" where
  "tail_bytes [] n = []"
| "tail_bytes (c # rest) n =
     (if n = 0 then [] else tail_bytes rest (n - length (utf8_char c)) @ [c])"

definition tail_window :: "ustr \<Rightarrow> ustr" where
  "tail_window raw = tail_bytes (rev raw) DSML_TAIL_WINDOW_BYTES"

definition could_extend_dsml_marker :: "dsml_stage \<Rightarrow> ustr \<Rightarrow> bool" where
  "could_extend_dsml_marker st delta =
     (if chr ''<'' \<notin> set delta then False
      else let window = tail_window (dsml_raw st) @ delta in
        contains_dsml window \<or> pending_tool_call_boundary window \<noteq> None)"

definition flush_to :: "(ustr \<Rightarrow> json option) \<Rightarrow> dsml_stage \<Rightarrow> nat \<Rightarrow> dsml_stage \<times> ustr" where
  "flush_to pj st settled_len =
     (let visible = strip_deepseek_v4_dsml_control_blocks pj (take settled_len (dsml_raw st)) in
      (st\<lparr>dsml_last_visible := visible\<rparr>,
       case strip_prefix visible (dsml_last_visible st) of Some emitted \<Rightarrow> emitted | None \<Rightarrow> []))"

definition dsml_push :: "(ustr \<Rightarrow> json option) \<Rightarrow> dsml_stage \<Rightarrow> ustr \<Rightarrow> dsml_stage \<times> ustr" where
  "dsml_push pj st delta =
     (if delta = [] then (st, [])
      else if dsml_settled st \<and> \<not> could_extend_dsml_marker st delta
      then (st\<lparr>dsml_raw := dsml_raw st @ delta, dsml_last_visible := dsml_last_visible st @ delta\<rparr>, delta)
      else let st = st\<lparr>dsml_raw := dsml_raw st @ delta\<rparr>;
               boundary = pending_tool_call_boundary (dsml_raw st);
               (st, emitted) = flush_to pj st (case boundary of Some b \<Rightarrow> b | None \<Rightarrow> length (dsml_raw st)) in
        (st\<lparr>dsml_settled := (boundary = None)\<rparr>, emitted))"

definition dsml_finish :: "(ustr \<Rightarrow> json option) \<Rightarrow> dsml_stage \<Rightarrow> dsml_stage \<times> ustr" where
  "dsml_finish pj st = flush_to pj st (length (dsml_raw st))"

subsection \<open>Both stages\<close>

record deepseek_scrubber =
  think :: think_stage
  dsml :: dsml_stage

definition new_scrubber :: "bool \<Rightarrow> deepseek_scrubber" where
  "new_scrubber control = \<lparr>think = new_think_stage control, dsml = new_dsml_stage\<rparr>"

definition scrubber_push :: "(ustr \<Rightarrow> json option) \<Rightarrow> deepseek_scrubber \<Rightarrow> ustr \<Rightarrow> deepseek_scrubber \<times> ustr" where
  "scrubber_push pj st delta =
     (let (t, stage_out) = think_push (think st) delta; (d, visible) = dsml_push pj (dsml st) stage_out in
      (st\<lparr>think := t, dsml := d\<rparr>, visible))"

definition scrubber_finish :: "(ustr \<Rightarrow> json option) \<Rightarrow> deepseek_scrubber \<Rightarrow> deepseek_scrubber \<times> ustr" where
  "scrubber_finish pj st =
     (let (t, stage_out) = think_finish (think st); (d, visible) = dsml_push pj (dsml st) stage_out;
          (d, rest) = dsml_finish pj d in
      (st\<lparr>think := t, dsml := d\<rparr>, visible @ rest))"

text \<open>All that is shown of an answer that comes as \<open>ds\<close>.\<close>

fun think_all :: "think_stage \<Rightarrow> ustr list \<Rightarrow> ustr list" where
  "think_all st [] = [snd (think_finish st)]"
| "think_all st (d # ds) = snd (think_push st d) # think_all (fst (think_push st d)) ds"

fun dsml_all :: "(ustr \<Rightarrow> json option) \<Rightarrow> dsml_stage \<Rightarrow> ustr list \<Rightarrow> ustr" where
  "dsml_all pj st [] = snd (dsml_finish pj st)"
| "dsml_all pj st (d # ds) = snd (dsml_push pj st d) @ dsml_all pj (fst (dsml_push pj st d)) ds"

fun scrub_stream :: "(ustr \<Rightarrow> json option) \<Rightarrow> deepseek_scrubber \<Rightarrow> ustr list \<Rightarrow> ustr" where
  "scrub_stream pj st [] = snd (scrubber_finish pj st)"
| "scrub_stream pj st (d # ds) = snd (scrubber_push pj st d) @ scrub_stream pj (fst (scrubber_push pj st d)) ds"

lemma scrub_stream_stages: "scrub_stream pj st ds = dsml_all pj (dsml st) (think_all (think st) ds)"
  by (induction ds arbitrary: st) (simp_all add: scrubber_push_def scrubber_finish_def Let_def split: prod.split)

subsection \<open>Text that is not markup\<close>

lemma trim_start_append: "trim_start (s @ t) = (if trim_start s = [] then trim_start t else trim_start s @ t)"
  unfolding trim_start_def by (induction s) auto

lemma starts_with_refl [simp]: "starts_with s s"
  by (simp add: starts_with_iff)

lemma starts_with_trans: "starts_with a b \<Longrightarrow> starts_with b c \<Longrightarrow> starts_with a c"
  by (auto simp: starts_with_iff)

lemma think_done_all: "think_state st = ThinkDone \<Longrightarrow> prefix_buffer st = [] \<Longrightarrow> concat (think_all st ds) = concat ds"
  by (induction ds) (simp_all add: think_finish_def think_push_def Let_def)

text \<open>A buffered beginning of the think tag is shown as it is.\<close>

lemma scrub_short_prefix:
  assumes "starts_with DEEPSEEK_THINK_OPEN (trim_start b)" "\<not> starts_with (trim_start b) DEEPSEEK_THINK_OPEN"
  shows "scrub_deepseek_visible_text b e = b"
proof -
  have "\<not> contains_str b DEEPSEEK_EOS"
  proof
    assume "contains_str b DEEPSEEK_EOS"
    then have "set DEEPSEEK_EOS \<subseteq> set b" by (rule contains_set)
    then have "wide_bar \<in> set b" by (auto simp: DEEPSEEK_EOS_def)
    moreover have "set b \<subseteq> {c. is_whitespace c} \<union> set (trim_start b)"
      unfolding trim_start_def by (induction b) auto
    moreover have "set (trim_start b) \<subseteq> set DEEPSEEK_THINK_OPEN"
      using assms(1) unfolding starts_with_iff by (metis Un_upper1 set_append)
    ultimately have "is_whitespace wide_bar \<or> wide_bar \<in> set DEEPSEEK_THINK_OPEN" by auto
    then show False by (simp add: wide_bar_def is_whitespace_def DEEPSEEK_THINK_OPEN_def lit_simps)
  qed
  then have "replace_from DEEPSEEK_EOS [] b = b"
  proof (induction b)
    case (Cons c b)
    then have "replace_from DEEPSEEK_EOS [] b = b" "\<not> starts_with (c # b) DEEPSEEK_EOS" by auto
    then show ?case by (subst replace_from.simps) simp
  qed (simp add: replace_from.simps)
  moreover have "DEEPSEEK_EOS \<noteq> []" by (simp add: DEEPSEEK_EOS_def)
  ultimately show ?thesis
    using assms(2) by (simp add: scrub_deepseek_visible_text_def str_replace_def DEEPSEEK_THINK_OPEN_def)
qed

lemma think_start_all:
  assumes "think_state st = AtStart" "starts_with DEEPSEEK_THINK_OPEN (trim_start (prefix_buffer st))"
    "\<not> starts_with (trim_start (prefix_buffer st @ concat ds)) DEEPSEEK_THINK_OPEN"
  shows "concat (think_all st ds) = prefix_buffer st @ concat ds"
  using assms
proof (induction ds arbitrary: st)
  case Nil
  then show ?case using scrub_short_prefix [of "prefix_buffer st"] by (simp add: think_finish_def Let_def)
next
  case (Cons d ds)
  let ?b = "prefix_buffer st @ d"
  have later: "starts_with (trim_start (?b @ concat ds)) DEEPSEEK_THINK_OPEN"
    if h: "starts_with (trim_start ?b) DEEPSEEK_THINK_OPEN"
  proof -
    have "trim_start ?b \<noteq> []" using h by (auto simp: DEEPSEEK_THINK_OPEN_def lit_simps)
    then have "trim_start (?b @ concat ds) = trim_start ?b @ concat ds"
      by (simp only: trim_start_append [of ?b "concat ds"]) simp
    then show ?thesis using starts_with_append_left [OF h, of "concat ds"] by metis
  qed
  with Cons.prems(3) have no: "\<not> starts_with (trim_start ?b) DEEPSEEK_THINK_OPEN" by auto
  show ?case
  proof (cases "starts_with DEEPSEEK_THINK_OPEN (trim_start ?b)")
    case True
    with Cons show ?thesis by (simp add: think_push_def push_at_start_def Let_def)
  next
    case False
    with no Cons.prems(1) show ?thesis
      by (simp add: think_push_def push_at_start_def Let_def think_done_all)
  qed
qed

lemma ordinary_think_all:
  assumes "\<not> starts_with (trim_start (concat ds)) (lit ''<think>'')"
  shows "concat (think_all (new_think_stage control) ds) = concat ds"
  using think_start_all [of "new_think_stage control" ds] assms
  by (simp add: new_think_stage_def DEEPSEEK_THINK_OPEN_def trim_start_def)

subsection \<open>The tag stage on text without DSML tokens\<close>

definition partial_tag :: "ustr \<Rightarrow> bool" where
  "partial_tag s \<longleftrightarrow> list_ex (\<lambda>(open, _). starts_with open s) DSML_OPEN_TOOL_CALLS_TAGS"

lemma no_dsml_contains: "\<not> contains_dsml s \<Longrightarrow> t \<in> set DSML_OPEN_TOOL_CALLS_TAGS \<Longrightarrow> \<not> contains_str s (fst t)"
  unfolding DSML_OPEN_TOOL_CALLS_TAGS_def contains_dsml_def exact_open_tag_def list_ex_iff contains_str_iff
  by auto (metis append.assoc)

lemma str_rfind_Some: "str_rfind s p = Some i \<Longrightarrow> contains_str s p"
  by (induction s arbitrary: i) (auto split: option.splits if_splits)

lemma unclosed_none: "\<not> contains_str s (fst t) \<Longrightarrow> unclosed_boundary s b t = b"
  by (auto simp: unclosed_boundary_def dest: str_rfind_Some split: option.split)

lemma pending_plain:
  assumes "\<not> contains_dsml s"
  shows "pending_tool_call_boundary s =
    (case str_rfind s [chr ''<''] of None \<Rightarrow> None | Some i \<Rightarrow> if partial_tag (drop i s) then Some i else None)"
proof -
  have "foldl (unclosed_boundary s) None ts = None" if "set ts \<subseteq> set DSML_OPEN_TOOL_CALLS_TAGS" for ts
    using that by (induction ts) (auto simp: unclosed_none no_dsml_contains [OF assms])
  moreover have "lit ''<'' = [chr ''<'']" by (simp add: lit_simps)
  ultimately show ?thesis
    by (simp add: pending_tool_call_boundary_def Let_def partial_tag_def lower_def split: option.split)
qed

lemma partial_tag_left: "partial_tag (s @ t) \<Longrightarrow> partial_tag s"
  by (auto simp: partial_tag_def list_ex_iff starts_with_iff)

definition settled_len :: "ustr \<Rightarrow> nat" where
  "settled_len s = (case pending_tool_call_boundary s of Some b \<Rightarrow> b | None \<Rightarrow> length s)"

lemma settled_len_le: "\<not> contains_dsml s \<Longrightarrow> settled_len s \<le> length s"
  by (auto simp: settled_len_def pending_plain dest: str_rfind_less split: option.splits)

lemma no_dsml_left: "\<not> contains_dsml (s @ t) \<Longrightarrow> \<not> contains_dsml s"
  by (auto simp: contains_dsml_def list_ex_iff dest: contains_appendI1)

lemma no_dsml_right: "\<not> contains_dsml (s @ t) \<Longrightarrow> \<not> contains_dsml t"
  by (auto simp: contains_dsml_def list_ex_iff dest: contains_appendI2)

text \<open>What has been settled stays settled.\<close>

lemma settled_len_mono:
  assumes "\<not> contains_dsml (s @ d)"
  shows "settled_len s \<le> settled_len (s @ d)"
proof (cases "chr ''<'' \<in> set d")
  case True
  then obtain i where "str_rfind d [chr ''<''] = Some i" using str_rfind_None [of d "chr ''<''"] by auto
  then have "length s \<le> settled_len (s @ d)"
    by (auto simp: settled_len_def pending_plain [OF assms] str_rfind_append)
  with settled_len_le [OF no_dsml_left [OF assms]] show ?thesis by simp
next
  case False
  then have r: "str_rfind (s @ d) [chr ''<''] = str_rfind s [chr ''<'']"
    using str_rfind_None [of d "chr ''<''"] by (simp add: str_rfind_append)
  show ?thesis
  proof (cases "str_rfind s [chr ''<'']")
    case None
    with r show ?thesis
      by (simp add: settled_len_def pending_plain [OF assms] pending_plain [OF no_dsml_left [OF assms]])
  next
    case (Some i)
    with str_rfind_less [OF Some] r show ?thesis
      using partial_tag_left [of "drop i s" d]
      by (auto simp: settled_len_def pending_plain [OF assms] pending_plain [OF no_dsml_left [OF assms]])
  qed
qed

lemma tail_bytes_suffix: "\<exists>a. rev s = a @ tail_bytes s n"
  by (induction s n rule: tail_bytes.induct) auto

lemma tail_window_suffix: "\<exists>a. s = a @ tail_window s"
  using tail_bytes_suffix [of "rev s" DSML_TAIL_WINDOW_BYTES] by (simp add: tail_window_def)

text \<open>The window is enough: a delta that the fast path takes leaves nothing pending.\<close>

lemma fast_path_settled:
  assumes "\<not> contains_dsml (dsml_raw st @ d)" "pending_tool_call_boundary (dsml_raw st) = None"
    "\<not> could_extend_dsml_marker st d"
  shows "pending_tool_call_boundary (dsml_raw st @ d) = None"
proof (cases "chr ''<'' \<in> set d")
  case False
  then have "settled_len (dsml_raw st) \<le> settled_len (dsml_raw st @ d)" using settled_len_mono [OF assms(1)] by blast
  moreover have "str_rfind (dsml_raw st @ d) [chr ''<''] = str_rfind (dsml_raw st) [chr ''<'']"
    using False str_rfind_None [of d "chr ''<''"] by (simp add: str_rfind_append)
  moreover have "i < length (dsml_raw st)" if "str_rfind (dsml_raw st) [chr ''<''] = Some i" for i
    using that by (rule str_rfind_less)
  ultimately show ?thesis
    using assms(2) by (force simp: pending_plain [OF assms(1)] settled_len_def split: option.splits if_splits)
next
  case True
  then obtain i where i: "str_rfind d [chr ''<''] = Some i" using str_rfind_None [of d "chr ''<''"] by auto
  let ?w = "tail_window (dsml_raw st)"
  obtain a where a: "dsml_raw st = a @ ?w" using tail_window_suffix by blast
  then have w: "\<not> contains_dsml (?w @ d)" using assms(1) no_dsml_right [of a "?w @ d"] by (metis append.assoc)
  have "pending_tool_call_boundary (?w @ d) = None"
    using assms(3) True by (simp add: could_extend_dsml_marker_def Let_def)
  with i have "\<not> partial_tag (drop i d)"
    by (simp add: pending_plain [OF w] str_rfind_append split: if_splits)
  with i show ?thesis by (simp add: pending_plain [OF assms(1)] str_rfind_append)
qed

definition dsml_ok :: "dsml_stage \<Rightarrow> bool" where
  "dsml_ok st \<longleftrightarrow> \<not> contains_dsml (dsml_raw st) \<and>
     dsml_last_visible st = take (settled_len (dsml_raw st)) (dsml_raw st) \<and>
     (dsml_settled st \<longrightarrow> pending_tool_call_boundary (dsml_raw st) = None)"

lemma strip_v4_take: "\<not> contains_dsml s \<Longrightarrow> strip_deepseek_v4_dsml_control_blocks pj (take n s) = take n s"
  using no_dsml_left [of "take n s" "drop n s"] by (simp add: strip_deepseek_v4_dsml_control_blocks_def)

lemma take_extend: "m \<le> n \<Longrightarrow> m \<le> length s \<Longrightarrow> strip_prefix (take n (s @ d)) (take m s) = Some (drop m (take n (s @ d)))"
proof -
  assume "m \<le> n" "m \<le> length s"
  then have "take m (take n (s @ d)) = take m s" by (simp add: min_absorb1)
  then show ?thesis unfolding strip_prefix_Some by (metis append_take_drop_id)
qed

lemma dsml_push_ok:
  assumes "dsml_ok st" "\<not> contains_dsml (dsml_raw st @ d)"
  shows "dsml_ok (fst (dsml_push pj st d)) \<and> dsml_raw (fst (dsml_push pj st d)) = dsml_raw st @ d \<and>
    dsml_last_visible (fst (dsml_push pj st d)) = dsml_last_visible st @ snd (dsml_push pj st d)"
proof -
  let ?s = "dsml_raw st"
  have last: "dsml_last_visible st = take (settled_len ?s) ?s" using assms(1) by (simp add: dsml_ok_def)
  consider "d = []" | (fast) "d \<noteq> []" "dsml_settled st" "\<not> could_extend_dsml_marker st d"
    | (slow) "d \<noteq> []" "\<not> (dsml_settled st \<and> \<not> could_extend_dsml_marker st d)" by blast
  then show ?thesis
  proof cases
    case fast
    then have p: "pending_tool_call_boundary ?s = None" using assms(1) by (simp add: dsml_ok_def)
    from fast_path_settled [OF assms(2) p fast(3)] have "settled_len (?s @ d) = length (?s @ d)"
      by (simp add: settled_len_def)
    moreover have "settled_len ?s = length ?s" using p by (simp add: settled_len_def)
    ultimately show ?thesis
      using fast last assms(2) fast_path_settled [OF assms(2) p fast(3)] by (simp add: dsml_push_def dsml_ok_def)
  next
    case slow
    let ?n = "settled_len (?s @ d)"
    have n: "(case pending_tool_call_boundary (?s @ d) of Some b \<Rightarrow> b
        | None \<Rightarrow> length (dsml_raw (st\<lparr>dsml_raw := ?s @ d\<rparr>))) = ?n"
      by (simp add: settled_len_def split: option.split)
    have le: "settled_len ?s \<le> ?n" "settled_len ?s \<le> length ?s"
      using settled_len_mono [OF assms(2)] settled_len_le [OF no_dsml_left [OF assms(2)]] by simp_all
    have "dsml_push pj st d = (st\<lparr>dsml_raw := ?s @ d, dsml_last_visible := take ?n (?s @ d),
        dsml_settled := (pending_tool_call_boundary (?s @ d) = None)\<rparr>, drop (settled_len ?s) (take ?n (?s @ d)))"
      using slow last take_extend [OF le] strip_v4_take [OF assms(2)] n
      by (auto simp: dsml_push_def flush_to_def Let_def simp del: take_append drop_append)
    moreover have "take (settled_len ?s) ?s @ drop (settled_len ?s) (take ?n (?s @ d)) = take ?n (?s @ d)"
      using take_extend [OF le, of d] unfolding strip_prefix_Some by (rule sym)
    ultimately show ?thesis using assms(2) last by (simp add: dsml_ok_def)
  qed (use assms in \<open>simp add: dsml_push_def\<close>)
qed

lemma dsml_all_plain:
  "dsml_ok st \<Longrightarrow> \<not> contains_dsml (dsml_raw st @ concat ds) \<Longrightarrow>
     dsml_last_visible st @ dsml_all pj st ds = dsml_raw st @ concat ds"
proof (induction ds arbitrary: st)
  case Nil
  then show ?case
    using take_extend [of "settled_len (dsml_raw st)" "length (dsml_raw st)" "dsml_raw st" "[]"]
      settled_len_le [of "dsml_raw st"] strip_v4_take [of "dsml_raw st" pj "length (dsml_raw st)"]
    by (simp add: dsml_finish_def flush_to_def Let_def dsml_ok_def)
next
  case (Cons d ds)
  have "\<not> contains_dsml (dsml_raw st @ d)" using Cons.prems(2) no_dsml_left [of "dsml_raw st @ d"] by simp
  from dsml_push_ok [OF Cons.prems(1) this, of pj] Cons.IH [of "fst (dsml_push pj st d)"] Cons.prems(2)
  show ?case by (metis append.assoc concat.simps(2) dsml_all.simps(2))
qed

subsection \<open>Hidden reasoning\<close>

text \<open>What may be shown of a text \<open>block\<close> that follows the think tag: nothing before the first closing tag.\<close>

definition shown_after_think :: "ustr \<Rightarrow> ustr \<Rightarrow> bool" where
  "shown_after_think block out \<longleftrightarrow>
     (case str_find block DEEPSEEK_THINK_CLOSE of
        None \<Rightarrow> out = []
      | Some i \<Rightarrow> \<exists>a b. drop (i + length DEEPSEEK_THINK_CLOSE) block = a @ b \<and> out = str_replace a DEEPSEEK_EOS [] @ b)"

lemma contains_skip: "p \<noteq> [] \<Longrightarrow> hd p \<notin> set a \<Longrightarrow> contains_str (a @ s) p \<longleftrightarrow> contains_str s p"
proof (induction a)
  case (Cons c a)
  then have "\<not> starts_with (c # a @ s) p" by (cases p) auto
  with Cons show ?case by simp
qed simp

lemma close_in_buffer:
  assumes "trim_start b = DEEPSEEK_THINK_OPEN @ block"
  shows "contains_str b DEEPSEEK_THINK_CLOSE \<longleftrightarrow> contains_str block DEEPSEEK_THINK_CLOSE"
proof -
  let ?w = "takeWhile is_whitespace b"
  have b: "b = ?w @ [chr ''<''] @ lit ''think>'' @ block"
    using assms by (metis DEEPSEEK_THINK_OPEN_def append_Cons append_Nil append_assoc chr_simps lit_simps(2) takeWhile_dropWhile_id trim_start_def)
  have "hd DEEPSEEK_THINK_CLOSE \<notin> set ?w"
    by (auto simp: DEEPSEEK_THINK_CLOSE_def lit_simps is_whitespace_def dest: set_takeWhileD)
  moreover have "hd DEEPSEEK_THINK_CLOSE \<notin> set (lit ''think>'')" "DEEPSEEK_THINK_CLOSE \<noteq> []"
    by (simp_all add: DEEPSEEK_THINK_CLOSE_def lit_simps)
  moreover have "\<not> starts_with ([chr ''<''] @ lit ''think>'' @ block) DEEPSEEK_THINK_CLOSE"
    by (simp add: DEEPSEEK_THINK_CLOSE_def lit_simps)
  ultimately show ?thesis
    using contains_skip by (subst b) simp
qed

lemma scrub_think:
  assumes "trim_start b = DEEPSEEK_THINK_OPEN @ block"
  shows "scrub_deepseek_visible_text b True =
    str_replace (case str_find block DEEPSEEK_THINK_CLOSE of
        Some i \<Rightarrow> drop (i + length DEEPSEEK_THINK_CLOSE) block | None \<Rightarrow> []) DEEPSEEK_EOS []"
proof -
  have "drop (length (lit ''<think>'')) (trim_start b) = block" "starts_with (trim_start b) (lit ''<think>'')"
    using assms by (simp_all add: DEEPSEEK_THINK_OPEN_def)
  then show ?thesis
    by (simp add: scrub_deepseek_visible_text_def strip_deepseek_leading_think_block_def DEEPSEEK_THINK_CLOSE_def Let_def
        split: option.split)
qed

lemma replace_Nil: "str_replace [] DEEPSEEK_EOS [] = []"
  by (simp add: str_replace_def DEEPSEEK_EOS_def replace_from.simps)

lemma str_find_append: "str_find s p = Some i \<Longrightarrow> str_find (s @ t) p = Some i"
proof (induction s arbitrary: i)
  case (Cons c s)
  show ?case
  proof (cases "starts_with (c # s) p")
    case True
    with Cons.prems starts_with_append_left [OF True, of t] show ?thesis by simp
  next
    case False
    then obtain j where j: "str_find s p = Some j" "i = Suc j" using Cons.prems by auto
    from str_find_Some [OF j(1)] have "length p \<le> length s" by simp
    have "\<not> starts_with ((c # s) @ t) p"
    proof
      assume "starts_with ((c # s) @ t) p"
      then obtain u where "(c # s) @ t = p @ u" by (auto simp: starts_with_iff)
      then have "c # s = p @ drop (length p) (c # s)"
        using \<open>length p \<le> length s\<close> by (metis append_eq_append_conv_if append_take_drop_id le_SucI length_Cons)
      with False show False by (metis starts_with_append)
    qed
    with j Cons.IH show ?thesis by simp
  qed
qed (cases t; auto split: if_splits)

lemma think_finish_hides:
  assumes "leading_think_is_control st" "trim_start (prefix_buffer st) = DEEPSEEK_THINK_OPEN @ block"
  shows "shown_after_think (block @ concat ds) (snd (think_finish st) @ concat ds)
     \<or> str_find block DEEPSEEK_THINK_CLOSE = None \<and> snd (think_finish st) = []"
proof -
  have "prefix_buffer st \<noteq> []" using assms(2) by (auto simp: trim_start_def DEEPSEEK_THINK_OPEN_def)
  then have out: "snd (think_finish st) = scrub_deepseek_visible_text (prefix_buffer st) True"
    using assms(1) by (simp add: think_finish_def Let_def)
  show ?thesis
  proof (cases "str_find block DEEPSEEK_THINK_CLOSE")
    case (Some i)
    with str_find_append [OF Some, of "concat ds"] str_find_Some [OF Some] show ?thesis
      unfolding out scrub_think [OF assms(2)] shown_after_think_def by auto
  qed (simp add: out scrub_think [OF assms(2)] replace_Nil)
qed

lemma flush_hides:
  "leading_think_is_control st \<Longrightarrow> think_state st = PendingLeadingThink \<Longrightarrow>
     trim_start (prefix_buffer st) = DEEPSEEK_THINK_OPEN @ block \<Longrightarrow>
     shown_after_think (block @ concat ds)
       (snd (flush_pending_leading_think_if_ready st) @ concat (think_all (fst (flush_pending_leading_think_if_ready st)) ds))"
proof (induction ds arbitrary: st block)
  case Nil
  show ?case
  proof (cases "contains_str (prefix_buffer st) DEEPSEEK_THINK_CLOSE")
    case True
    then have "str_find block DEEPSEEK_THINK_CLOSE \<noteq> None" using Nil close_in_buffer str_find_None by blast
    with True Nil think_finish_hides [of st block "[]"] show ?thesis
      by (auto simp: flush_pending_leading_think_if_ready_def think_finish_def Let_def)
  next
    case False
    then have "str_find block DEEPSEEK_THINK_CLOSE = None" using Nil close_in_buffer str_find_None by blast
    with False Nil think_finish_hides [of st block "[]"] show ?thesis
      by (auto simp: flush_pending_leading_think_if_ready_def shown_after_think_def)
  qed
next
  case (Cons d ds)
  show ?case
  proof (cases "contains_str (prefix_buffer st) DEEPSEEK_THINK_CLOSE")
    case True
    then have "str_find block DEEPSEEK_THINK_CLOSE \<noteq> None" using Cons.prems(3) close_in_buffer str_find_None by blast
    moreover have "concat (think_all (fst (think_finish st)) (d # ds)) = concat (d # ds)"
      by (rule think_done_all) (simp_all add: think_finish_def Let_def)
    ultimately show ?thesis
      using True Cons.prems think_finish_hides [of st block "d # ds"]
      by (auto simp: flush_pending_leading_think_if_ready_def)
  next
    case False
    let ?st = "st\<lparr>prefix_buffer := prefix_buffer st @ d\<rparr>"
    have "trim_start (prefix_buffer st) \<noteq> []" using Cons.prems(3) by (auto simp: DEEPSEEK_THINK_OPEN_def)
    then have "trim_start (prefix_buffer ?st) = DEEPSEEK_THINK_OPEN @ block @ d"
      using Cons.prems(3) trim_start_append [of "prefix_buffer st" d] by (simp add: DEEPSEEK_THINK_OPEN_def)
    from Cons.IH [OF _ _ this] Cons.prems False show ?thesis
      by (simp add: flush_pending_leading_think_if_ready_def think_push_def)
  qed
qed

lemma start_hides:
  "leading_think_is_control st \<Longrightarrow> think_state st = AtStart \<Longrightarrow>
     starts_with DEEPSEEK_THINK_OPEN (trim_start (prefix_buffer st)) \<Longrightarrow>
     trim_start (prefix_buffer st @ concat ds) = DEEPSEEK_THINK_OPEN @ block \<Longrightarrow>
     shown_after_think block (concat (think_all st ds))"
proof (induction ds arbitrary: st)
  case Nil
  then have "block = []" by (auto simp: starts_with_iff)
  with Nil think_finish_hides [of st "[]" "[]"] show ?case
    by (auto simp: shown_after_think_def DEEPSEEK_THINK_CLOSE_def)
next
  case (Cons d ds)
  let ?b = "prefix_buffer st @ d" and ?st = "st\<lparr>prefix_buffer := prefix_buffer st @ d\<rparr>"
  show ?case
  proof (cases "starts_with DEEPSEEK_THINK_OPEN (trim_start ?b)")
    case True
    with Cons.prems Cons.IH [of ?st] show ?thesis by (simp add: think_push_def push_at_start_def Let_def)
  next
    case False
    then have ne: "trim_start ?b \<noteq> []" by auto
    then have full: "trim_start ?b @ concat ds = DEEPSEEK_THINK_OPEN @ block"
      using Cons.prems(4) trim_start_append [of ?b "concat ds"] by simp
    then obtain blk where blk: "trim_start ?b = DEEPSEEK_THINK_OPEN @ blk" "blk @ concat ds = block"
      using False unfolding append_eq_append_conv2 starts_with_iff by metis
    let ?p = "?st\<lparr>think_state := PendingLeadingThink\<rparr>"
    have "think_push st d = flush_pending_leading_think_if_ready ?p"
      using Cons.prems(2) False blk(1) by (simp add: think_push_def push_at_start_def Let_def starts_with_iff)
    with flush_hides [of ?p blk ds] Cons.prems(1) blk show ?thesis by simp
  qed
qed

subsection \<open>Properties\<close>

text \<open>
  Text without DSML markup that does not begin with a think tag is streamed completely, once and
  in order, however the provider cuts it; angle brackets are only held back.
\<close>

theorem ordinary_text_streams_unchanged:
  assumes "\<not> starts_with (trim_start (concat ds)) (lit ''<think>'')" "\<not> contains_dsml (concat ds)"
  shows "scrub_stream pj (new_scrubber control) ds = concat ds"
proof -
  let ?ts = "think_all (new_think_stage control) ds"
  have t: "concat ?ts = concat ds" by (rule ordinary_think_all [OF assms(1)])
  have "dsml_ok new_dsml_stage"
    by (simp add: dsml_ok_def new_dsml_stage_def contains_dsml_def DSML_TOKENS_def dsml_wide_def dsml_ascii_def)
  then have "dsml_last_visible new_dsml_stage @ dsml_all pj new_dsml_stage ?ts = dsml_raw new_dsml_stage @ concat ?ts"
    by (rule dsml_all_plain) (use t assms(2) in \<open>simp add: new_dsml_stage_def\<close>)
  then show ?thesis by (simp add: scrub_stream_stages new_scrubber_def new_dsml_stage_def t)
qed


subsection \<open>Examples\<close>

theorem ordinary_text_streams_unchanged_witness:
  "scrub_stream (\<lambda>_. None) (new_scrubber True) [lit ''Vec<'', lit ''String> <'', lit ''|DS''] = lit ''Vec<String> <|DS''"
proof -
  have "\<not> contains_dsml (concat [lit ''Vec<'', lit ''String> <'', lit ''|DS''])" by code_simp
  moreover have "\<not> starts_with (trim_start (concat [lit ''Vec<'', lit ''String> <'', lit ''|DS''])) (lit ''<think>'')" by code_simp
  ultimately show ?thesis
    using ordinary_text_streams_unchanged [of "[lit ''Vec<'', lit ''String> <'', lit ''|DS'']" "\<lambda>_. None" True]
    by (simp add: lit_simps)
qed


end
