(* ===== verification/PlanParser.thy ===== *)
theory PlanParser
  imports TextSearch
begin

section \<open>Plans in the model's text (src/agent/planning/parser.rs)\<close>

text \<open>
  In planning mode the agent reads a plan from the text of the model: a tagged block of step lines,
  a structured block with headers, or the input of the tool that leaves planning mode; questions to
  the user come in a block of their own. Lemmas: the steps of a printed plan are read back, a plan
  that is read has a step, and the test for an unclosed block agrees with a single scan of the text.
\<close>

datatype plan_step_status = StepPending | StepInProgress | StepCompleted

record plan_step =
  ps_step :: ustr
  ps_status :: plan_step_status

record pending_user_input =
  pu_question :: ustr
  pu_options :: "(ustr \<times> ustr) list"
  pu_note :: "ustr option"

type_synonym parsed_plan = "plan_step list \<times> ustr option"

definition step_status_text :: "plan_step_status \<Rightarrow> ustr" where
  "step_status_text s = (case s of StepPending \<Rightarrow> lit ''pending'' | StepInProgress \<Rightarrow> lit ''in_progress''
     | StepCompleted \<Rightarrow> lit ''completed'')"

definition parse_plan_status :: "ustr \<Rightarrow> plan_step_status option" where
  "parse_plan_status s =
     find (\<lambda>st. trim s = step_status_text st) [StepPending, StepInProgress, StepCompleted]"

text \<open>\<open>str::split_once\<close> with a string, \<open>(!s.is_empty()).then_some(s)\<close> and the first of several prefixes.\<close>

definition split_once_str :: "ustr \<Rightarrow> ustr \<Rightarrow> (ustr \<times> ustr) option" where
  "split_once_str s p = map_option (\<lambda>i. (take i s, drop (i + length p) s)) (str_find s p)"

definition some_text :: "ustr \<Rightarrow> ustr option" where
  "some_text s = (if s = [] then None else Some s)"

fun strip_any :: "ustr list \<Rightarrow> ustr \<Rightarrow> ustr option" where
  "strip_any [] s = None"
| "strip_any (p # ps) s = (case strip_prefix s p of Some t \<Rightarrow> Some t | None \<Rightarrow> strip_any ps s)"

definition trimmed_lines :: "ustr \<Rightarrow> ustr list" where
  "trimmed_lines s = filter (\<lambda>l. l \<noteq> []) (map trim (lines s))"

subsection \<open>Step lines\<close>

definition bullet :: ustr where "bullet = [0x2022]"

definition step_of :: "ustr \<Rightarrow> plan_step_status \<Rightarrow> plan_step option" where
  "step_of s st = map_option (\<lambda>t. \<lparr>ps_step = t, ps_status = st\<rparr>) (some_text (trim s))"

definition numbered_rest :: "ustr \<Rightarrow> ustr option" where
  "numbered_rest line =
     (case split_once_str line (lit ''. '') of
        None \<Rightarrow> None | Some (number, rest) \<Rightarrow> if list_all is_ascii_digit number then Some rest else None)"

definition parse_plan_step_line :: "ustr \<Rightarrow> plan_step option" where
  "parse_plan_step_line line =
     (case strip_any [lit ''- ['', lit ''* ['', bullet @ lit '' [''] line of
        Some rest \<Rightarrow>
          (case split_once_str rest (lit ''] '') of
             None \<Rightarrow> None
           | Some (status, step) \<Rightarrow>
               (case parse_plan_status status of None \<Rightarrow> None | Some st \<Rightarrow> step_of step st))
      | None \<Rightarrow>
          (case (case strip_any [lit ''- '', lit ''* '', bullet @ lit '' ''] line of
                   Some rest \<Rightarrow> Some rest | None \<Rightarrow> numbered_rest line) of
             None \<Rightarrow> None | Some rest \<Rightarrow> step_of rest StepPending))"

subsection \<open>Structured blocks\<close>

datatype plan_section = NoSection | StepsSection | ValidationSection

definition header_keys :: "string list" where
  "header_keys = [''steps'', ''validation'', ''tests'', ''summary'', ''title'']"

definition header_key :: "ustr \<Rightarrow> string option" where
  "header_key line =
     (case split_once_char (chr '':'') line of
        None \<Rightarrow> None | Some (key, _) \<Rightarrow> find (\<lambda>k. map to_ascii_lowercase (trim key) = lit k) header_keys)"

definition header_value :: "ustr \<Rightarrow> ustr option" where
  "header_value line = map_option snd (split_once_char (chr '':'') line)"

definition is_structured_proposed_plan :: "ustr \<Rightarrow> bool" where
  "is_structured_proposed_plan block \<longleftrightarrow> list_ex (\<lambda>l. header_key (trim l) = Some ''steps'') (lines block)"

record plan_scan =
  sc_section :: plan_section
  sc_steps :: "plan_step list"
  sc_explanation :: "ustr list"

definition plan_header :: "ustr \<Rightarrow> string \<Rightarrow> plan_scan \<Rightarrow> plan_scan" where
  "plan_header line key sc =
     (if key = ''steps'' then sc\<lparr>sc_section := StepsSection\<rparr>
      else if key = ''validation'' \<or> key = ''tests''
      then sc\<lparr>sc_section := ValidationSection, sc_explanation := sc_explanation sc @ [lit ''validation:'']\<rparr>
      else sc\<lparr>sc_section := NoSection, sc_explanation := sc_explanation sc @
             (case header_value line of None \<Rightarrow> [] | Some v \<Rightarrow> [lit key @ lit '': '' @ trim v])\<rparr>)"

definition plan_line :: "ustr \<Rightarrow> plan_scan \<Rightarrow> plan_scan" where
  "plan_line line sc =
     (case header_key line of
        Some key \<Rightarrow> plan_header line key sc
      | None \<Rightarrow>
          (case sc_section sc of
             StepsSection \<Rightarrow>
               (case parse_plan_step_line line of None \<Rightarrow> sc | Some st \<Rightarrow> sc\<lparr>sc_steps := sc_steps sc @ [st]\<rparr>)
           | _ \<Rightarrow> sc\<lparr>sc_explanation := sc_explanation sc @ [line]\<rparr>))"

definition parse_structured_proposed_plan :: "ustr \<Rightarrow> ustr \<Rightarrow> parsed_plan" where
  "parse_structured_proposed_plan block trailing =
     (let sc = fold plan_line (trimmed_lines block)
                 \<lparr>sc_section = NoSection, sc_steps = [], sc_explanation = []\<rparr>;
          ls = sc_explanation sc;
          ls = (if trailing = [] then ls else ls @ (if ls = [] then [] else [[]]) @ [trailing]) in
      (sc_steps sc, some_text (trim (join ls [newline]))))"

subsection \<open>The block\<close>

definition PLAN_OPEN :: ustr where "PLAN_OPEN = lit ''<proposed_plan>''"
definition PLAN_CLOSE :: ustr where "PLAN_CLOSE = lit ''</proposed_plan>''"
definition LEGACY_OPEN :: ustr where "LEGACY_OPEN = lit ''<plan>''"
definition LEGACY_CLOSE :: ustr where "LEGACY_CLOSE = lit ''</plan>''"

definition block_bounds :: "ustr \<Rightarrow> ustr \<Rightarrow> ustr \<Rightarrow> (nat \<times> nat) option" where
  "block_bounds start_tag end_tag s =
     (case (str_find s start_tag, str_find s end_tag) of (Some i, Some j) \<Rightarrow> Some (i, j) | _ \<Rightarrow> None)"

definition find_plan_block_bounds :: "ustr \<Rightarrow> (ustr \<times> ustr \<times> nat \<times> nat) option" where
  "find_plan_block_bounds s = map_option (\<lambda>(i, j). (PLAN_OPEN, PLAN_CLOSE, i, j)) (block_bounds PLAN_OPEN PLAN_CLOSE s)"

definition find_legacy_plan_block_bounds :: "ustr \<Rightarrow> (ustr \<times> ustr \<times> nat \<times> nat) option" where
  "find_legacy_plan_block_bounds s =
     map_option (\<lambda>(i, j). (LEGACY_OPEN, LEGACY_CLOSE, i, j)) (block_bounds LEGACY_OPEN LEGACY_CLOSE s)"

definition trim_set :: "uchar set \<Rightarrow> ustr \<Rightarrow> ustr" where
  "trim_set A s = rev (dropWhile (\<lambda>c. c \<in> A) (rev (dropWhile (\<lambda>c. c \<in> A) s)))"

definition fallback_step :: "ustr \<Rightarrow> plan_step" where
  "fallback_step block =
     (let line = (case find (\<lambda>l. l \<noteq> [] \<and> \<not> starts_with l (lit ''#'')) (map trim (lines block)) of
                    Some l \<Rightarrow> l | None \<Rightarrow> lit ''Implement proposed plan'') in
      \<lparr>ps_step = trim_set (set (lit ''*# '')) line, ps_status = StepPending\<rparr>)"

fun filter_some :: "('a \<Rightarrow> 'b option) \<Rightarrow> 'a list \<Rightarrow> 'b list" where
  "filter_some f [] = []"
| "filter_some f (x # xs) = (case f x of None \<Rightarrow> filter_some f xs | Some y \<Rightarrow> y # filter_some f xs)"

definition parse_plan_block :: "ustr \<Rightarrow> parsed_plan option" where
  "parse_plan_block s =
     (case (case find_plan_block_bounds s of Some b \<Rightarrow> Some b | None \<Rightarrow> find_legacy_plan_block_bounds s) of
        None \<Rightarrow> None
      | Some (start_tag, end_tag, i, j) \<Rightarrow>
          if j \<le> i then None
          else let block = drop (i + length start_tag) (take j s);
                   trailing = trim (drop (j + length end_tag) s) in
            if start_tag = PLAN_OPEN \<and> is_structured_proposed_plan block
            then (case parse_structured_proposed_plan block trailing of
                    (steps, explanation) \<Rightarrow> if steps = [] then None else Some (steps, explanation))
            else let steps = filter_some parse_plan_step_line (trimmed_lines block) in
              if steps = [] \<and> start_tag = PLAN_OPEN
              then Some ([fallback_step block], some_text (if trailing = [] then trim block else trailing))
              else Some (steps, some_text trailing))"

subsection \<open>The input of exit_plan_mode\<close>

definition parse_proposed_plan_step_value :: "json \<Rightarrow> plan_step option" where
  "parse_proposed_plan_step_value v =
     (case Option.bind (as_str v) (\<lambda>s. some_text (trim s)) of
        Some step \<Rightarrow> Some \<lparr>ps_step = step, ps_status = StepPending\<rparr>
      | None \<Rightarrow>
          map_option (\<lambda>step. \<lparr>ps_step = step, ps_status =
              (case Option.bind (jstr ''status'' v) parse_plan_status of Some st \<Rightarrow> st | None \<Rightarrow> StepPending)\<rparr>)
            (Option.bind (jstr ''step'' v) (\<lambda>s. some_text (trim s))))"

definition plan_summary_lines :: "json \<Rightarrow> ustr list" where
  "plan_summary_lines plan =
     (case Option.bind (jstr ''summary'' plan) (\<lambda>s. some_text (trim s)) of
        None \<Rightarrow> [] | Some s \<Rightarrow> [lit ''summary: '' @ s])"

definition plan_validation_lines :: "json \<Rightarrow> ustr list" where
  "plan_validation_lines plan =
     (case Option.bind (jget ''validation'' plan) as_array of
        None \<Rightarrow> []
      | Some vs \<Rightarrow>
          (let ls = filter_some (\<lambda>v. Option.bind (as_str v) (\<lambda>s. some_text (trim s))) vs in
           if ls = [] then [] else lit ''validation:'' # map (\<lambda>l. lit ''- '' @ l) ls))"

definition parse_exit_plan_tool_input :: "json \<Rightarrow> parsed_plan option" where
  "parse_exit_plan_tool_input input =
     (case jget ''proposed_plan'' input of
        None \<Rightarrow> None
      | Some plan \<Rightarrow>
          (case Option.bind (jget ''steps'' plan) as_array of
             None \<Rightarrow> None
           | Some vs \<Rightarrow>
               (let steps = filter_some parse_proposed_plan_step_value vs in
                if steps = [] then None
                else Some (steps, some_text (trim (join (plan_summary_lines plan @ plan_validation_lines plan) [newline]))))))"

subsection \<open>Unclosed blocks\<close>

lemma str_find_bound: "str_find s p = Some i \<Longrightarrow> i + length p \<le> length s"
  using str_find_Some [of s p i] starts_with_length [of "drop i s" p] by (cases "p = []") auto

function open_blocks :: "ustr \<Rightarrow> nat \<Rightarrow> nat" where
  "open_blocks s n =
     (case (str_find s PLAN_OPEN, str_find s PLAN_CLOSE) of
        (Some i, Some j) \<Rightarrow>
          if i < j then open_blocks (drop (i + length PLAN_OPEN) s) (n + 1)
          else open_blocks (drop (j + length PLAN_CLOSE) s) (n - 1)
      | (Some i, None) \<Rightarrow> open_blocks (drop (i + length PLAN_OPEN) s) (n + 1)
      | (None, Some j) \<Rightarrow> open_blocks (drop (j + length PLAN_CLOSE) s) (n - 1)
      | (None, None) \<Rightarrow> n)"
  by pat_completeness auto
termination
  by (relation "measure (\<lambda>(s, n). length s)")
    (auto simp: PLAN_OPEN_def PLAN_CLOSE_def dest!: str_find_bound [OF sym])

declare open_blocks.simps [simp del]

definition has_unclosed_proposed_plan_block :: "ustr \<Rightarrow> bool" where
  "has_unclosed_proposed_plan_block s \<longleftrightarrow> open_blocks s 0 > 0"

subsection \<open>Questions to the user\<close>

definition QUESTION_OPEN :: ustr where "QUESTION_OPEN = lit ''<request_user_input>''"
definition QUESTION_CLOSE :: ustr where "QUESTION_CLOSE = lit ''</request_user_input>''"

definition question_line :: "ustr \<Rightarrow> ustr option \<times> (ustr \<times> ustr) list \<Rightarrow> ustr option \<times> (ustr \<times> ustr) list" where
  "question_line line q = (case q of (question, options) \<Rightarrow>
     (case strip_prefix line (lit ''question:'') of
        Some v \<Rightarrow> (Some (trim v), options)
      | None \<Rightarrow>
          (case strip_prefix line (lit ''option:'') of
             None \<Rightarrow> q
           | Some v \<Rightarrow>
               (case split_once_char (chr ''|'') (trim v) of
                  Some (label, description) \<Rightarrow> (question, options @ [(trim label, trim description)])
                | None \<Rightarrow> (question, options @ [(trim v, [])])))))"

definition strip_note_tag :: "ustr \<Rightarrow> ustr \<Rightarrow> ustr" where
  "strip_note_tag tag note = trim (case strip_prefix note tag of Some n \<Rightarrow> n | None \<Rightarrow> note)"

definition parse_request_user_input_block :: "ustr \<Rightarrow> pending_user_input option" where
  "parse_request_user_input_block s =
     (case block_bounds QUESTION_OPEN QUESTION_CLOSE s of
        None \<Rightarrow> None
      | Some (i, j) \<Rightarrow>
          if j \<le> i then None
          else let q = fold question_line (trimmed_lines (drop (i + length QUESTION_OPEN) (take j s))) (None, []);
                   note = strip_note_tag LEGACY_CLOSE (strip_note_tag PLAN_CLOSE (trim (drop (j + length QUESTION_CLOSE) s))) in
            (case fst q of
               None \<Rightarrow> None
             | Some question \<Rightarrow> Some \<lparr>pu_question = question, pu_options = snd q, pu_note = some_text note\<rparr>))"

subsection \<open>Asking for another inspection (src/agent/planning.rs)\<close>

definition CONTINUE_INSPECTION_TAG :: ustr where
  "CONTINUE_INSPECTION_TAG = lit ''<continue_inspection/>''"

definition strip_continue_inspection_control :: "ustr \<Rightarrow> ustr \<times> bool" where
  "strip_continue_inspection_control s =
     (if \<not> contains_str s CONTINUE_INSPECTION_TAG then (s, False)
      else (str_replace s CONTINUE_INSPECTION_TAG [], True))"

text \<open>\<open>Agent::current_plan_markdown\<close>: the text of a plan, as it is saved and shown.\<close>

definition step_line :: "plan_step \<Rightarrow> ustr" where
  "step_line st = lit ''- ['' @ step_status_text (ps_status st) @ lit ''] '' @ ps_step st"

definition plan_markdown :: "parsed_plan \<Rightarrow> ustr" where
  "plan_markdown p =
     join ((case snd p of None \<Rightarrow> [] | Some e \<Rightarrow> if trim e = [] then [] else [trim e, []]) @ map step_line (fst p)) [newline]"

subsection \<open>Printed steps are read back\<close>

text \<open>A step whose text is one trimmed line without a tag.\<close>

definition plain_step :: "plan_step \<Rightarrow> bool" where
  "plain_step st \<longleftrightarrow> ps_step st \<noteq> [] \<and> trim (ps_step st) = ps_step st \<and>
     newline \<notin> set (ps_step st) \<and> chr ''<'' \<notin> set (ps_step st)"

lemma plan_status_roundtrip: "parse_plan_status (step_status_text st) = Some st"
proof -
  have "trim (step_status_text st) = step_status_text st"
    by (cases st) (simp_all add: step_status_text_def lit_simps is_whitespace_def trim_not_ws)
  then show ?thesis by (cases st) (simp_all add: parse_plan_status_def step_status_text_def)
qed

lemma split_status: "split_once_str (step_status_text st @ lit ''] '' @ t) (lit ''] '') = Some (step_status_text st, t)"
proof -
  have "\<not> contains_str (step_status_text st) (lit ''] '')"
    by (cases st) (simp_all add: step_status_text_def lit_simps)
  then have "str_find (step_status_text st @ lit ''] '' @ t) (lit ''] '') = Some (length (step_status_text st))"
    by (intro find_fresh) (simp_all add: tag_like_def lit_simps)
  then show ?thesis by (simp add: split_once_str_def)
qed

lemma strip_bullet: "strip_any (lit ''- ['' # ps) (lit ''- ['' @ t) = Some t"
  by simp

lemma step_line_read: "plain_step st \<Longrightarrow> parse_plan_step_line (step_line st) = Some st"
  by (simp add: parse_plan_step_line_def step_line_def split_status plan_status_roundtrip step_of_def some_text_def
      plain_step_def del: strip_any.simps add: strip_bullet)

lemma step_line_ends:
  assumes "plain_step st"
  shows "step_line st \<noteq> []" "hd (step_line st) = chr ''-''" "\<not> is_whitespace (last (step_line st))"
  using assms trim_last [of "ps_step st"]
  by (simp_all add: step_line_def lit_simps plain_step_def last_append)

lemma step_line_trimmed: "plain_step st \<Longrightarrow> trim (step_line st) = step_line st"
  using step_line_ends [of st] by (simp add: trim_not_ws is_whitespace_def)

lemma step_line_chars:
  assumes "plain_step st"
  shows "newline \<notin> set (step_line st)" "chr ''<'' \<notin> set (step_line st)"
  using assms
  by (cases "ps_status st"; simp add: step_line_def plain_step_def step_status_text_def lit_simps newline_def)+

lemma step_line_plain: "plain_step st \<Longrightarrow> plain_line (step_line st)"
  using step_line_ends [of st] step_line_chars [of st] by (auto simp: plain_line_def is_whitespace_def)

lemma lower_dash: "to_ascii_lowercase c = chr ''-'' \<Longrightarrow> c = chr ''-''"
  by (auto simp: to_ascii_lowercase_def split: if_splits)

lemma dash_no_header:
  assumes "hd l = chr ''-''" "l \<noteq> []"
  shows "header_key l = None"
proof (cases "split_once_char (chr '':'') l")
  case (Some kv)
  obtain key v where kv: "kv = (key, v)" by (cases kv)
  with Some have l: "l = key @ chr '':'' # v" by (simp add: split_once_char_Some)
  then have hd: "key \<noteq> [] \<Longrightarrow> hd key = chr ''-''" and ne: "key \<noteq> []" using assms by (cases key; simp)+
  then have "trim key = trim_end key" by (simp add: trim_def trim_start_not_ws is_whitespace_def)
  moreover obtain t where "key = trim_end key @ t" using trim_end_prefix by blast
  ultimately have "trim key \<noteq> [] \<Longrightarrow> hd (trim key) = chr ''-''" using hd ne by (metis hd_append2)
  then have "map to_ascii_lowercase (trim key) \<noteq> lit k" if "k \<in> set header_keys" for k
    using that by (cases "trim key") (auto simp: header_keys_def lit_simps to_ascii_lowercase_def)
  then show ?thesis using Some kv by (auto simp: header_key_def find_None_iff)
qed (simp add: header_key_def)

lemma lines_joined:
  "list_all plain_line ls \<Longrightarrow> ls \<noteq> [] \<Longrightarrow> lines (join ls [newline] @ newline # s) = ls @ lines s"
proof (induction ls)
  case (Cons l ls)
  then show ?case by (cases ls) (simp_all add: lines_newline join_Cons)
qed simp

lemma filter_some_map: "(\<And>x. x \<in> set xs \<Longrightarrow> f (g x) = Some x) \<Longrightarrow> filter_some f (map g xs) = xs"
  by (induction xs) auto

lemma no_close_before:
  assumes "\<not> contains_str pre PLAN_CLOSE" "chr ''<'' \<notin> set body"
  shows "\<not> contains_str (pre @ PLAN_OPEN @ body) PLAN_CLOSE"
proof
  define rest where "rest = lit ''proposed_plan>'' @ body"
  have op: "PLAN_OPEN @ body = chr ''<'' # rest" by (simp add: PLAN_OPEN_def rest_def lit_simps)
  have nr: "chr ''<'' \<notin> set rest" using assms(2) by (simp add: rest_def lit_simps)
  assume "contains_str (pre @ PLAN_OPEN @ body) PLAN_CLOSE"
  then obtain a b where "pre @ chr ''<'' # rest = a @ PLAN_CLOSE @ b" by (auto simp: contains_str_iff op)
  then consider u where "pre = a @ PLAN_CLOSE @ u" | u v where "PLAN_CLOSE = u @ chr ''<'' # v" "rest = v @ b"
    | u where "rest = u @ PLAN_CLOSE @ b"
    by (auto simp: append_eq_append_conv2 Cons_eq_append_conv append_eq_Cons_conv; metis append_Nil)
  then show False
  proof cases
    case (1 u)
    with assms(1) show ?thesis by (auto simp: contains_str_iff)
  next
    case (2 u v)
    then have "u = []" by (cases u) (auto simp: PLAN_CLOSE_def lit_simps append_eq_Cons_conv Cons_eq_append_conv)
    with 2 show ?thesis by (auto simp: PLAN_CLOSE_def rest_def lit_simps)
  next
    case (3 u)
    with nr show ?thesis by (simp add: PLAN_CLOSE_def lit_simps)
  qed
qed



lemma proposed_plan_has_a_step:
  assumes "parse_plan_block s = Some (steps, e)" "contains_str s PLAN_OPEN" "contains_str s PLAN_CLOSE"
  shows "steps \<noteq> []"
proof -
  have "str_find s PLAN_OPEN \<noteq> None" "str_find s PLAN_CLOSE \<noteq> None" using assms(2,3) by (simp_all add: str_find_None)
  then obtain i j where "find_plan_block_bounds s = Some (PLAN_OPEN, PLAN_CLOSE, i, j)"
    by (auto simp: find_plan_block_bounds_def block_bounds_def)
  with assms(1) show ?thesis
    by (auto simp: parse_plan_block_def Let_def split: if_splits prod.splits)
qed

lemma exit_input_has_a_step: "parse_exit_plan_tool_input v = Some (steps, e) \<Longrightarrow> steps \<noteq> []"
  by (auto simp: parse_exit_plan_tool_input_def Let_def split: option.splits if_splits)

text \<open>The step made up for a block without step lines can be empty.\<close>

lemma fallback_step_can_be_empty:
  "parse_plan_block (lit ''<proposed_plan>**</proposed_plan>'') =
     Some ([\<lparr>ps_step = [], ps_status = StepPending\<rparr>], Some (lit ''**''))"
  by code_simp

subsection \<open>Counting blocks in one scan\<close>

function count_blocks :: "ustr \<Rightarrow> nat \<Rightarrow> nat" where
  "count_blocks s n =
     (if s = [] then n
      else if starts_with s PLAN_OPEN then count_blocks (drop (length PLAN_OPEN) s) (n + 1)
      else if starts_with s PLAN_CLOSE then count_blocks (drop (length PLAN_CLOSE) s) (n - 1)
      else count_blocks (tl s) n)"
  by pat_completeness auto
termination
  by (relation "measure (\<lambda>(s, n). length s)") (auto simp: PLAN_OPEN_def PLAN_CLOSE_def)

declare count_blocks.simps [simp del]

lemma count_blocks_skip:
  "(\<And>k. k < i \<Longrightarrow> \<not> starts_with (drop k s) PLAN_OPEN \<and> \<not> starts_with (drop k s) PLAN_CLOSE) \<Longrightarrow>
   i \<le> length s \<Longrightarrow> count_blocks s n = count_blocks (drop i s) n"
proof (induction i arbitrary: s)
  case (Suc i)
  then obtain c t where s: "s = c # t" by (cases s) auto
  have "\<not> starts_with s PLAN_OPEN \<and> \<not> starts_with s PLAN_CLOSE" using Suc.prems(1) [of 0] by simp
  then have "count_blocks s n = count_blocks t n" by (subst count_blocks.simps) (simp add: s)
  also have "\<dots> = count_blocks (drop i t) n"
    using Suc.IH [of t] Suc.prems(1) [of "Suc k" for k] Suc.prems(2) by (simp add: s)
  finally show ?case by (simp add: s)
qed simp

lemma tags_differ: "\<not> (starts_with s PLAN_OPEN \<and> starts_with s PLAN_CLOSE)"
proof
  assume "starts_with s PLAN_OPEN \<and> starts_with s PLAN_CLOSE"
  then obtain t u where "PLAN_OPEN @ t = PLAN_CLOSE @ u" unfolding starts_with_iff by metis
  then show False by (simp add: PLAN_OPEN_def PLAN_CLOSE_def lit_simps)
qed

lemma found_starts:
  assumes "str_find s p = Some i"
  shows "starts_with (drop i s) p \<and> i + length p \<le> length s"
proof -
  have s: "s = take i s @ p @ drop (i + length p) s" and le: "i + length p \<le> length s"
    using str_find_Some [OF assms] by simp_all
  have "drop i s = p @ drop (i + length p) s" using arg_cong [OF s, of "drop i"] le by simp
  then show ?thesis using le by simp
qed

lemma count_open:
  assumes "str_find s PLAN_OPEN = Some i" "\<And>k. k < i \<Longrightarrow> \<not> starts_with (drop k s) PLAN_CLOSE"
  shows "count_blocks s n = count_blocks (drop (i + length PLAN_OPEN) s) (n + 1)"
proof -
  have i: "starts_with (drop i s) PLAN_OPEN" "i < length s"
    using found_starts [OF assms(1)] by (auto simp: PLAN_OPEN_def)
  have "count_blocks s n = count_blocks (drop i s) n"
    using count_blocks_skip [of i s n] str_find_first [OF assms(1)] assms(2) i(2) by simp
  also have "\<dots> = count_blocks (drop (i + length PLAN_OPEN) s) (n + 1)"
    using i by (subst count_blocks.simps) (simp add: add.commute)
  finally show ?thesis .
qed

lemma count_close:
  assumes "str_find s PLAN_CLOSE = Some j" "\<And>k. k < j \<Longrightarrow> \<not> starts_with (drop k s) PLAN_OPEN"
  shows "count_blocks s n = count_blocks (drop (j + length PLAN_CLOSE) s) (n - 1)"
proof -
  have j: "starts_with (drop j s) PLAN_CLOSE" "j < length s"
    using found_starts [OF assms(1)] by (auto simp: PLAN_CLOSE_def)
  have "count_blocks s n = count_blocks (drop j s) n"
    using count_blocks_skip [of j s n] str_find_first [OF assms(1)] assms(2) j(2) by simp
  also have "\<dots> = count_blocks (drop (j + length PLAN_CLOSE) s) (n - 1)"
    using j tags_differ [of "drop j s"] by (subst count_blocks.simps) (simp add: add.commute)
  finally show ?thesis .
qed

lemma no_tag_anywhere:
  assumes "str_find s p = None"
  shows "\<not> starts_with (drop k s) p"
proof
  assume "starts_with (drop k s) p"
  then obtain t where "drop k s = p @ t" by (auto simp: starts_with_iff)
  then have "s = take k s @ p @ t" by (metis append_take_drop_id)
  then have "contains_str s p" unfolding contains_str_iff by blast
  with assms show False by (simp add: str_find_None)
qed

lemma open_blocks_scan: "open_blocks s n = count_blocks s n"
proof (induction s n rule: open_blocks.induct)
  case (1 s n)
  show ?case
  proof (cases "str_find s PLAN_OPEN"; cases "str_find s PLAN_CLOSE")
    assume n: "str_find s PLAN_OPEN = None" "str_find s PLAN_CLOSE = None"
    have "count_blocks s n = count_blocks (drop (length s) s) n"
      using n by (intro count_blocks_skip) (auto simp: no_tag_anywhere)
    then show ?thesis using n by (simp add: open_blocks.simps [of s] count_blocks.simps [of "[]"])
  next
    fix j assume n: "str_find s PLAN_OPEN = None" "str_find s PLAN_CLOSE = Some j"
    then show ?thesis
      using 1 count_close [of s j n] by (simp add: open_blocks.simps [of s] no_tag_anywhere)
  next
    fix i assume n: "str_find s PLAN_OPEN = Some i" "str_find s PLAN_CLOSE = None"
    then show ?thesis
      using 1 count_open [of s i n] by (simp add: open_blocks.simps [of s] no_tag_anywhere)
  next
    fix i j assume n: "str_find s PLAN_OPEN = Some i" "str_find s PLAN_CLOSE = Some j"
    then show ?thesis
      using 1 count_open [of s i n] count_close [of s j n] str_find_first [OF n(1)] str_find_first [OF n(2)]
      by (cases "i < j") (simp_all add: open_blocks.simps [of s])
  qed
qed

text \<open>The test for an unclosed block agrees with one scan that counts the tags as they come.\<close>

theorem unclosed_blocks_are_counted_in_order:
  "has_unclosed_proposed_plan_block s \<longleftrightarrow> count_blocks s 0 > 0"
  by (simp add: has_unclosed_proposed_plan_block_def open_blocks_scan)

end
