(* ===== verification/MemorySelection.thy ===== *)
theory MemorySelection
  imports CompactCarry ControlTokens PlanParser "HOL-Library.Product_Lexorder" "HOL-Library.Option_ord" "HOL-Library.Multiset"
begin

section \<open>Memory selection (src/context/memory_selection.rs, budget_assembly.rs, retrieved_memory_render.rs)\<close>

text \<open>
  Before a turn the context assembler chooses which recalled memories join the working set: fixed
  items first, then candidates in order of priority while the token budget lasts, without duplicates.
  The chosen memories are rendered as one internal block of the prompt. Lemmas: every candidate ends
  in exactly one list; the rendered block fits the budget, because each candidate is charged what it
  adds to the rendering. Token and byte counts are naturals.
\<close>

subsection \<open>Estimates and the latest request\<close>

definition byte_len :: "ustr \<Rightarrow> nat" where
  "byte_len s = nat (utf8_len s)"

definition estimate_text_tokens :: "ustr \<Rightarrow> nat" where
  "estimate_text_tokens s = (let t = trim s in if t = [] then 0 else (byte_len t + 2) div 3)"

definition extract_latest_text :: "message \<Rightarrow> ustr option" where
  "extract_latest_text m =
     (case as_str (content m) of
        Some t \<Rightarrow> if trim t \<noteq> [] then Some (trim t) else None
      | None \<Rightarrow>
          (case as_array (content m) of None \<Rightarrow> None
           | Some items \<Rightarrow>
              (case find_map (\<lambda>i. if jstr ''type'' i = Some (lit ''text'') then jstr ''text'' i else None) (rev items) of
                 None \<Rightarrow> None
               | Some t \<Rightarrow> if trim t \<noteq> [] then Some (trim t) else None)))"

definition latest_user_request :: "message list \<Rightarrow> ustr option" where
  "latest_user_request history =
     find_map extract_latest_text (filter (\<lambda>m. role m = lit ''user'') (rev history))"

definition or_default :: "'a \<Rightarrow> 'a option \<Rightarrow> 'a" where
  "or_default d x = (case x of Some v \<Rightarrow> v | None \<Rightarrow> d)"

definition latest_tool_results :: "message list \<Rightarrow> (ustr \<times> ustr) list" where
  "latest_tool_results history =
     (case find (\<lambda>m. role m = lit ''user'' \<and> as_array (content m) \<noteq> None) (rev history) of
        None \<Rightarrow> []
      | Some m \<Rightarrow>
          map (\<lambda>i. (lit ''Tool Result '' @ or_default (lit ''tool_result'') (jstr ''tool_use_id'' i),
                    or_default [] (jstr ''content'' i)))
            (filter (\<lambda>i. jstr ''type'' i = Some (lit ''tool_result'')) (or_default [] (as_array (content m)))))"

subsection \<open>Rendering the selected memories\<close>

definition MEMORY_CONTEXT_HEADER :: ustr where "MEMORY_CONTEXT_HEADER = lit ''<rara_internal_history_context>''"
definition MEMORY_CONTEXT_FOOTER :: ustr where "MEMORY_CONTEXT_FOOTER = lit ''</rara_internal_history_context>''"

text \<open>\<open>str::split_whitespace\<close>: the maximal pieces without white space.\<close>

fun split_whitespace_from :: "ustr \<Rightarrow> ustr \<Rightarrow> ustr list" where
  "split_whitespace_from acc [] = (if acc = [] then [] else [acc])"
| "split_whitespace_from acc (c # s) =
     (if is_whitespace c then (if acc = [] then [] else [acc]) @ split_whitespace_from [] s
      else split_whitespace_from (acc @ [c]) s)"

definition normalize_memory_context_field :: "ustr \<Rightarrow> ustr" where
  "normalize_memory_context_field s = join (split_whitespace_from [] s) (lit '' '')"

type_synonym render_item = "ustr \<times> ustr"

definition render_retrieved_memory_context_item :: "render_item \<Rightarrow> ustr" where
  "render_retrieved_memory_context_item item =
     lit ''- '' @ normalize_memory_context_field (fst item) @ lit '': '' @ normalize_memory_context_field (snd item)"

definition memory_context_note :: ustr where
  "memory_context_note = lit ''Use this as background recall. If it conflicts with the current user request or inspected files, trust the current evidence.''"

definition render_retrieved_memory_context :: "render_item list \<Rightarrow> ustr option" where
  "render_retrieved_memory_context items =
     (if items = [] then None
      else Some (join ([MEMORY_CONTEXT_HEADER, lit ''Relevant memory selected for the current turn:''] @
             map render_retrieved_memory_context_item items @
             [[], memory_context_note, MEMORY_CONTEXT_FOOTER]) [newline]))"

definition retrieved_memory_context_budget :: "render_item list \<Rightarrow> nat" where
  "retrieved_memory_context_budget items =
     (case render_retrieved_memory_context items of Some r \<Rightarrow> estimate_text_tokens r | None \<Rightarrow> 0)"

subsection \<open>Candidates and items\<close>

datatype drop_reason = NotSelected ustr | BudgetExceeded ustr

record memory_candidate =
  mc_kind :: ustr
  mc_label :: ustr
  mc_detail :: ustr
  mc_selection_reason :: ustr
  mc_budget_impact :: "nat option"
  mc_priority :: nat
  mc_dedupe_key :: "ustr option"
  mc_selectable :: bool
  mc_dropped_reason :: drop_reason

record source_ref =
  source_type :: ustr
  source_id :: "ustr option"
  source_path :: "ustr option"
  source_uri :: "ustr option"
  source_session :: "ustr option"
  source_thread :: "ustr option"
  source_workspace :: "ustr option"

text \<open>Scores are floats that only order the candidates of a provider; they are kept as a parameter type.\<close>

record 'score retrieval_candidate =
  rc_id :: ustr
  rc_source :: source_ref
  rc_kind :: ustr
  rc_scope :: ustr
  rc_label :: ustr
  rc_detail :: ustr
  rc_summary :: "ustr option"
  rc_rank :: nat
  rc_score :: "'score option"
  rc_priority :: nat
  rc_dedupe_key :: "ustr option"
  rc_budget_impact :: "nat option"
  rc_selection_reason :: ustr
  rc_availability_reason :: ustr
  rc_not_selected_reason :: ustr
  rc_selectable :: bool

definition memory_selection_candidate :: "'score retrieval_candidate \<Rightarrow> memory_candidate" where
  "memory_selection_candidate c =
     \<lparr>mc_kind = rc_kind c, mc_label = rc_label c, mc_detail = rc_detail c, mc_selection_reason = rc_selection_reason c,
      mc_budget_impact = rc_budget_impact c, mc_priority = rc_priority c, mc_dedupe_key = rc_dedupe_key c,
      mc_selectable = rc_selectable c, mc_dropped_reason = NotSelected (rc_not_selected_reason c)\<rparr>"

record memory_item =
  mi_order :: nat
  mi_kind :: ustr
  mi_label :: ustr
  mi_detail :: ustr
  mi_selection_reason :: ustr
  mi_budget_impact :: "nat option"
  mi_dropped_reason :: "drop_reason option"

record memory_decision =
  selected_items :: "memory_item list"
  available_items :: "memory_item list"
  dropped_items :: "memory_item list"

definition RETRIEVED_WORKSPACE_MEMORY_KIND :: ustr where
  "RETRIEVED_WORKSPACE_MEMORY_KIND = lit ''retrieved_workspace_memory''"
definition RETRIEVED_THREAD_CONTEXT_KIND :: ustr where
  "RETRIEVED_THREAD_CONTEXT_KIND = lit ''retrieved_thread_context''"

definition is_retrieved_memory_kind :: "ustr \<Rightarrow> bool" where
  "is_retrieved_memory_kind k \<longleftrightarrow> k = RETRIEVED_WORKSPACE_MEMORY_KIND \<or> k = RETRIEVED_THREAD_CONTEXT_KIND"

definition is_compacted_history_kind :: "ustr \<Rightarrow> bool" where
  "is_compacted_history_kind k \<longleftrightarrow>
     k = lit ''compacted_summary'' \<or> k = lit ''recent_files'' \<or> k = lit ''recent_file_excerpts''
     \<or> starts_with k (lit ''compacted_'')"

definition retrieved_memory_incremental_budget_impact :: "render_item list \<Rightarrow> memory_candidate \<Rightarrow> nat" where
  "retrieved_memory_incremental_budget_impact items c =
     retrieved_memory_context_budget (items @ [(mc_label c, mc_detail c)]) - retrieved_memory_context_budget items"

definition candidate_budget_impact_tokens :: "memory_candidate \<Rightarrow> render_item list \<Rightarrow> nat option" where
  "candidate_budget_impact_tokens c items =
     (if \<not> is_retrieved_memory_kind (mc_kind c) then mc_budget_impact c
      else Some (retrieved_memory_incremental_budget_impact items c))"

definition memory_item_of :: "memory_candidate \<Rightarrow> nat option \<Rightarrow> drop_reason option \<Rightarrow> memory_item" where
  "memory_item_of c impact dropped =
     \<lparr>mi_order = 0, mi_kind = mc_kind c, mi_label = mc_label c, mi_detail = mc_detail c,
      mi_selection_reason = mc_selection_reason c, mi_budget_impact = impact, mi_dropped_reason = dropped\<rparr>"

subsection \<open>The selection\<close>

text \<open>The variables of the loop; \<open>sel_keys\<close> maps a dedupe key to the label that won it.\<close>

record selection =
  sel_remaining :: "nat option"
  sel_kinds :: "ustr list"
  sel_retrieved :: "render_item list"
  sel_keys :: "(ustr \<times> ustr) list"
  sel_decision :: memory_decision

definition should_drop :: "bool \<Rightarrow> selection \<Rightarrow> memory_candidate \<Rightarrow> nat option \<Rightarrow> drop_reason option" where
  "should_drop has_compacted s c impact =
     (if \<not> mc_selectable c then Some (mc_dropped_reason c)
      else case Option.bind (mc_dedupe_key c) (\<lambda>k. map_option (\<lambda>l. (k, l)) (map_of (sel_keys s) k)) of
        Some (key, winner) \<Rightarrow> Some (NotSelected (lit ''deduped_by='' @ winner @
            lit '' because candidate dedupe_key='' @ key @ lit '' already won selection''))
      | None \<Rightarrow>
        if mc_kind c = lit ''thread_history'' \<and> has_compacted
        then Some (NotSelected (lit ''not selected because compacted thread history already provides a more focused carried-over thread view''))
        else if list_ex (\<lambda>k. k = lit ''retrieved_thread_context'' \<and> mc_kind c = lit ''thread_history'') (sel_kinds s)
        then Some (NotSelected (lit ''not selected because a more focused retrieved thread-context candidate already won the current memory selection''))
        else case (sel_remaining s, impact) of
            (Some remaining, Some cost) \<Rightarrow>
              if remaining < cost
              then Some (BudgetExceeded (lit ''not selected because it would exceed the remaining memory-selection budget ('' @
                     dec cost @ lit '' > '' @ dec remaining @ lit '')''))
              else None
          | _ \<Rightarrow> None)"

definition is_budget :: "drop_reason \<Rightarrow> bool" where
  "is_budget r = (case r of BudgetExceeded _ \<Rightarrow> True | NotSelected _ \<Rightarrow> False)"

definition select_step :: "bool \<Rightarrow> selection \<Rightarrow> memory_candidate \<Rightarrow> selection" where
  "select_step has_compacted s c =
     (let impact = candidate_budget_impact_tokens c (sel_retrieved s); d = sel_decision s in
      case should_drop has_compacted s c impact of
        Some reason \<Rightarrow>
          (let item = memory_item_of c impact (Some reason) in
           if is_budget reason then s\<lparr>sel_decision := d\<lparr>dropped_items := dropped_items d @ [item]\<rparr>\<rparr>
           else s\<lparr>sel_decision := d\<lparr>available_items := available_items d @ [item]\<rparr>\<rparr>)
      | None \<Rightarrow>
          s\<lparr>sel_remaining := (case (sel_remaining s, impact) of
               (Some remaining, Some cost) \<Rightarrow> Some (remaining - cost) | _ \<Rightarrow> sel_remaining s),
            sel_retrieved := (if is_retrieved_memory_kind (mc_kind c)
               then sel_retrieved s @ [(mc_label c, mc_detail c)] else sel_retrieved s),
            sel_keys := (case mc_dedupe_key c of Some k \<Rightarrow> (k, mc_label c) # sel_keys s | None \<Rightarrow> sel_keys s),
            sel_kinds := sel_kinds s @ [mc_kind c],
            sel_decision := d\<lparr>selected_items := selected_items d @ [memory_item_of c impact None]\<rparr>\<rparr>)"

definition candidate_key :: "memory_candidate \<Rightarrow> nat \<times> ustr option \<times> ustr \<times> ustr \<times> ustr" where
  "candidate_key c = (mc_priority c, mc_dedupe_key c, mc_kind c, mc_label c, mc_detail c)"

definition new_selection :: "nat option \<Rightarrow> ustr list \<Rightarrow> selection" where
  "new_selection budget fixed_kinds =
     \<lparr>sel_remaining = budget, sel_kinds = fixed_kinds, sel_retrieved = [], sel_keys = [],
      sel_decision = \<lparr>selected_items = [], available_items = [], dropped_items = []\<rparr>\<rparr>"

definition select_memory_candidates :: "memory_candidate list \<Rightarrow> nat option \<Rightarrow> ustr list \<Rightarrow> memory_decision" where
  "select_memory_candidates candidates budget fixed_kinds =
     sel_decision (foldl (select_step (list_ex is_compacted_history_kind fixed_kinds))
       (new_selection budget fixed_kinds) (sort_key candidate_key candidates))"

subsection \<open>The working set\<close>

datatype prompt_source_kind =
    UserInstruction | ProjectInstruction | LocalMemory | ProtocolPromptSource
  | CustomSystemPrompt | AppendSystemPrompt | CompactPrompt

record prompt_source =
  ps_kind :: prompt_source_kind
  ps_label :: ustr
  ps_display_path :: ustr
  ps_content :: ustr

definition kind_label :: "prompt_source \<Rightarrow> ustr" where
  "kind_label s = (case ps_kind s of
       UserInstruction \<Rightarrow> lit ''user_instruction'' | ProjectInstruction \<Rightarrow> lit ''project_instruction''
     | LocalMemory \<Rightarrow> lit ''local_memory'' | ProtocolPromptSource \<Rightarrow> lit ''protocol_prompt_source''
     | CustomSystemPrompt \<Rightarrow> lit ''custom_system_prompt'' | AppendSystemPrompt \<Rightarrow> lit ''append_system_prompt''
     | CompactPrompt \<Rightarrow> lit ''compact_prompt'')"

record interaction_input =
  ii_kind :: ustr
  ii_title :: ustr
  ii_summary :: ustr

record compaction_entry =
  ce_kind :: ustr
  ce_label :: ustr
  ce_detail :: ustr
  ce_inclusion_reason :: ustr

definition fixed_item :: "ustr \<Rightarrow> ustr \<Rightarrow> ustr \<Rightarrow> ustr \<Rightarrow> nat \<Rightarrow> memory_item" where
  "fixed_item kind label detail reason cost =
     \<lparr>mi_order = 0, mi_kind = kind, mi_label = label, mi_detail = detail, mi_selection_reason = reason,
      mi_budget_impact = Some cost, mi_dropped_reason = None\<rparr>"

definition summarize_workspace_memory_source :: "ustr \<Rightarrow> ustr" where
  "summarize_workspace_memory_source txt =
     (let n = length (filter (\<lambda>l. trim l \<noteq> []) (lines txt)) in
      if n = 0 then lit ''empty'' else if n = 1 then lit ''1 non-empty line'' else dec n @ lit '' non-empty lines'')"

definition workspace_memory_selected_item :: "prompt_source \<Rightarrow> memory_item" where
  "workspace_memory_selected_item s =
     fixed_item (lit ''workspace_memory'') (lit ''Workspace Memory'')
       (ps_display_path s @ lit ''; '' @ summarize_workspace_memory_source (ps_content s))
       (lit ''selected because the current effective prompt includes the workspace memory file as an active input'')
       (estimate_text_tokens (ps_content s))"

definition workspace_memory_selected_items :: "prompt_source list \<Rightarrow> memory_item list" where
  "workspace_memory_selected_items sources =
     map workspace_memory_selected_item (filter (\<lambda>s. kind_label s = lit ''local_memory'') sources)"

definition compacted_history_selected_items :: "compaction_entry list \<Rightarrow> memory_item list" where
  "compacted_history_selected_items entries =
     map (\<lambda>e. fixed_item (ce_kind e) (ce_label e) (ce_detail e) (ce_inclusion_reason e) (estimate_text_tokens (ce_detail e)))
       (filter (\<lambda>e. ce_kind e \<noteq> lit ''compact_boundary'') entries)"

definition plan_steps_detail :: "(plan_step_status \<times> ustr) list \<Rightarrow> ustr" where
  "plan_steps_detail steps =
     join (map (\<lambda>(st, step). lit ''['' @ step_status_text st @ lit ''] '' @ step) steps) [newline]"

definition active_thread_selected_items ::
  "ustr option \<Rightarrow> (plan_step_status \<times> ustr) list \<Rightarrow> interaction_input list \<Rightarrow> message list \<Rightarrow> memory_item list" where
  "active_thread_selected_items plan_explanation plan_steps pending history =
     (case plan_explanation of None \<Rightarrow> []
      | Some e \<Rightarrow> if trim e = [] then [] else
          [fixed_item (lit ''plan_explanation'') (lit ''Plan Explanation'') (trim e)
             (lit ''selected because the active thread currently carries a structured plan explanation that must remain visible to the runtime and restore surfaces'')
             (estimate_text_tokens e)]) @
     (if plan_steps = [] then [] else
        [fixed_item (lit ''plan_steps'') (lit ''Plan Steps'') (plan_steps_detail plan_steps)
           (lit ''selected because structured plan steps are part of the current thread working set and must survive restore'')
           (estimate_text_tokens (plan_steps_detail plan_steps))]) @
     map (\<lambda>i. fixed_item (ii_kind i) (ii_title i) (ii_summary i)
           (lit ''selected because pending interactions are active runtime obligations that must remain available until answered'')
           (estimate_text_tokens (ii_title i) + estimate_text_tokens (ii_summary i))) pending @
     (case latest_user_request history of None \<Rightarrow> []
      | Some r \<Rightarrow> [fixed_item (lit ''latest_user_request'') (lit ''Latest User Request'') r
           (lit ''selected because the latest user request anchors the current turn objective and should stay in the active working set'')
           (estimate_text_tokens r)]) @
     map (\<lambda>(label, detail). fixed_item (lit ''tool_result'') label detail
           (lit ''selected because recent tool results are part of the active thread working set until the assistant synthesizes a final answer'')
           (estimate_text_tokens detail)) (latest_tool_results history)"

definition workspace_memory_available_item :: "prompt_source list \<Rightarrow> memory_item" where
  "workspace_memory_available_item sources =
     (let available = list_ex (\<lambda>s. kind_label s = lit ''local_memory'') sources in
      \<lparr>mi_order = 0, mi_kind = lit ''workspace_memory'', mi_label = lit ''Workspace Memory'',
       mi_detail = (if available
         then lit ''workspace prompt source is available, but not active in the current assembled prompt''
         else lit ''no injected workspace memory prompt source''),
       mi_selection_reason = lit ''workspace memory participates in the selection contract even when it is not part of the current assembled working set'',
       mi_budget_impact = None,
       mi_dropped_reason = Some (NotSelected (if available
         then lit ''available for recall, but not selected into the current turn because workspace memory was not activated as a prompt input''
         else lit ''no workspace memory candidate is currently available''))\<rparr>)"

record memory_request =
  mr_sources :: "prompt_source list"
  mr_plan_explanation :: "ustr option"
  mr_plan_steps :: "(plan_step_status \<times> ustr) list"
  mr_pending :: "interaction_input list"
  mr_compacted :: "compaction_entry list"
  mr_history :: "message list"

definition fixed_memory_selection_items :: "memory_request \<Rightarrow> memory_item list" where
  "fixed_memory_selection_items r =
     workspace_memory_selected_items (mr_sources r) @ compacted_history_selected_items (mr_compacted r) @
     active_thread_selected_items (mr_plan_explanation r) (mr_plan_steps r) (mr_pending r) (mr_history r)"

definition number_items :: "memory_item list \<Rightarrow> memory_item list" where
  "number_items items = map (\<lambda>(i, item). item\<lparr>mi_order := i + 1\<rparr>) (enumerate 0 items)"

record memory_view =
  mv_budget :: "nat option"
  mv_selected :: "memory_item list"
  mv_available :: "memory_item list"
  mv_dropped :: "memory_item list"

definition memory_selection :: "memory_request \<Rightarrow> 'score retrieval_candidate list \<Rightarrow> nat option \<Rightarrow> memory_view" where
  "memory_selection r candidates budget =
     (let fixed = fixed_memory_selection_items r;
          d = select_memory_candidates (map memory_selection_candidate candidates) budget (map mi_kind fixed);
          selected = number_items (fixed @ selected_items d);
          available = (if \<not> list_ex (\<lambda>i. mi_kind i = lit ''workspace_memory'') selected
             then available_items d @ [workspace_memory_available_item (mr_sources r)] else available_items d) in
      \<lparr>mv_budget = budget, mv_selected = selected, mv_available = number_items available,
       mv_dropped = number_items (dropped_items d)\<rparr>)"

text \<open>What the turn adds to the prompt (src/agent/memory_retrieval.rs).\<close>

definition selected_memory_context_text :: "memory_view \<Rightarrow> ustr option" where
  "selected_memory_context_text v =
     render_retrieved_memory_context (map (\<lambda>i. (mi_label i, mi_detail i))
       (filter (\<lambda>i. is_retrieved_memory_kind (mi_kind i)) (mv_selected v)))"

subsection \<open>The rendered block fits the budget\<close>

lemma byte_len_append [simp]: "byte_len (s @ t) = byte_len s + byte_len t"
proof -
  have pos: "utf8_len u \<ge> 0" for u by (induction u) (auto simp: utf8_len_def)
  have "utf8_len (s @ t) = utf8_len s + utf8_len t" by (simp add: utf8_len_def)
  then show ?thesis using pos[of s] pos[of t] by (simp add: byte_len_def nat_add_distrib)
qed

lemma byte_len_newline [simp]: "byte_len (newline # s) = Suc (byte_len s)"
  using byte_len_append[of "[newline]" s] by (simp add: byte_len_def utf8_len_def newline_def)

lemma join_ends: "join (a # xs @ [b]) sep = a @ concat (map (\<lambda>x. sep @ x) xs) @ sep @ b"
proof (induction xs arbitrary: a)
  case Nil
  then show ?case by simp
next
  case (Cons x xs)
  then show ?case by (simp add: join_Cons)
qed

lemma rendered_block:
  assumes "items \<noteq> []"
  shows "render_retrieved_memory_context items = Some (MEMORY_CONTEXT_HEADER @
      concat (map (\<lambda>x. newline # x) (lit ''Relevant memory selected for the current turn:'' #
        map render_retrieved_memory_context_item items @ [[], memory_context_note])) @ newline # MEMORY_CONTEXT_FOOTER)"
proof -
  have eq: "[MEMORY_CONTEXT_HEADER, a] @ l @ [b, c, d] = MEMORY_CONTEXT_HEADER # (a # l @ [b, c]) @ [d]" for a b c d l
    by simp
  show ?thesis using assms unfolding render_retrieved_memory_context_def eq join_ends by (simp add: comp_def)
qed

lemma rendered_block_trimmed:
  assumes "render_retrieved_memory_context items = Some t"
  shows "trim t = t" "t \<noteq> []"
proof -
  from assms have ne: "items \<noteq> []" by (auto simp: render_retrieved_memory_context_def)
  from assms obtain mid where t: "t = MEMORY_CONTEXT_HEADER @ mid @ newline # MEMORY_CONTEXT_FOOTER"
    unfolding rendered_block[OF ne] by (metis append.assoc option.inject)
  have "t \<noteq> []" by (simp add: t)
  moreover have "hd t = hd MEMORY_CONTEXT_HEADER" "last t = last MEMORY_CONTEXT_FOOTER"
    by (simp_all add: t MEMORY_CONTEXT_HEADER_def MEMORY_CONTEXT_FOOTER_def lit_def)
  moreover have "\<not> is_whitespace (hd MEMORY_CONTEXT_HEADER)" "\<not> is_whitespace (last MEMORY_CONTEXT_FOOTER)" by code_simp+
  ultimately show "trim t = t" "t \<noteq> []" by (auto intro: trim_not_ws)
qed

lemma budget_of_block:
  "retrieved_memory_context_budget items =
     (case render_retrieved_memory_context items of None \<Rightarrow> 0 | Some t \<Rightarrow> (byte_len t + 2) div 3)"
  by (auto simp: retrieved_memory_context_budget_def estimate_text_tokens_def rendered_block_trimmed split: option.splits)

lemma budget_grows: "retrieved_memory_context_budget items \<le> retrieved_memory_context_budget (items @ [x])"
proof (cases "items = []")
  case True
  then show ?thesis by (simp add: retrieved_memory_context_budget_def render_retrieved_memory_context_def)
next
  case False
  then show ?thesis unfolding budget_of_block
    by (simp add: rendered_block)
qed

definition within_budget :: "nat \<Rightarrow> selection \<Rightarrow> bool" where
  "within_budget B s \<longleftrightarrow> (\<exists>rem. sel_remaining s = Some rem \<and> rem + retrieved_memory_context_budget (sel_retrieved s) \<le> B)
     \<and> sel_retrieved s = map (\<lambda>i. (mi_label i, mi_detail i))
         (filter (\<lambda>i. is_retrieved_memory_kind (mi_kind i)) (selected_items (sel_decision s)))"

lemma not_dropped_fits:
  assumes "should_drop hc s c impact = None" "sel_remaining s = Some rem" "impact = Some cost"
  shows "cost \<le> rem"
  using assms by (auto simp: should_drop_def split: option.splits if_splits)

lemma select_step_within_budget:
  assumes "within_budget B s"
  shows "within_budget B (select_step hc s c)"
proof -
  obtain rem where rem: "sel_remaining s = Some rem" "rem + retrieved_memory_context_budget (sel_retrieved s) \<le> B"
    and ret: "sel_retrieved s = map (\<lambda>i. (mi_label i, mi_detail i))
      (filter (\<lambda>i. is_retrieved_memory_kind (mi_kind i)) (selected_items (sel_decision s)))"
    using assms by (auto simp: within_budget_def)
  define impact where "impact = candidate_budget_impact_tokens c (sel_retrieved s)"
  show ?thesis
  proof (cases "should_drop hc s c impact")
    case (Some r)
    then have "\<exists>d. select_step hc s c = s\<lparr>sel_decision := d\<rparr> \<and> selected_items d = selected_items (sel_decision s)"
      unfolding select_step_def Let_def impact_def[symmetric] by auto
    then show ?thesis using rem ret unfolding within_budget_def by auto
  next
    case None
    have fits: "cost \<le> rem" if "impact = Some cost" for cost using not_dropped_fits[OF None rem(1) that] .
    note grow = budget_grows[of "sel_retrieved s" "(mc_label c, mc_detail c)"]
    have step: "select_step hc s c = s\<lparr>sel_remaining := (case impact of Some cost \<Rightarrow> Some (rem - cost) | _ \<Rightarrow> Some rem),
       sel_retrieved := (if is_retrieved_memory_kind (mc_kind c) then sel_retrieved s @ [(mc_label c, mc_detail c)] else sel_retrieved s),
       sel_keys := (case mc_dedupe_key c of Some k \<Rightarrow> (k, mc_label c) # sel_keys s | None \<Rightarrow> sel_keys s),
       sel_kinds := sel_kinds s @ [mc_kind c],
       sel_decision := (sel_decision s)\<lparr>selected_items := selected_items (sel_decision s) @ [memory_item_of c impact None]\<rparr>\<rparr>"
      using None unfolding select_step_def Let_def impact_def[symmetric] by (cases impact) (simp_all add: rem(1))
    show ?thesis
    proof (cases "is_retrieved_memory_kind (mc_kind c)")
      case True
      then have "impact = Some (retrieved_memory_incremental_budget_impact (sel_retrieved s) c)"
        by (simp add: impact_def candidate_budget_impact_tokens_def)
      with True fits[OF this] grow rem ret show ?thesis unfolding within_budget_def step
        by (simp add: memory_item_of_def retrieved_memory_incremental_budget_impact_def)
    next
      case False
      with rem ret show ?thesis unfolding within_budget_def step
        by (cases impact) (simp_all add: memory_item_of_def)
    qed
  qed
qed

lemma selection_within_budget: "within_budget B s \<Longrightarrow> within_budget B (foldl (select_step hc) s cs)"
  by (induction cs arbitrary: s) (simp_all add: select_step_within_budget)


lemma fields_of_numbered_items:
  "map (\<lambda>i. (mi_kind i, mi_label i, mi_detail i)) (number_items items) = map (\<lambda>i. (mi_kind i, mi_label i, mi_detail i)) items"
  by (auto simp: number_items_def enumerate_eq_zip intro!: nth_equalityI)

lemma block_of_fields:
  "map (\<lambda>i. (mi_label i, mi_detail i)) (filter (\<lambda>i. P (mi_kind i)) items) =
   map snd (filter (\<lambda>(k, _). P k) (map (\<lambda>i. (mi_kind i, mi_label i, mi_detail i)) items))"
  by (induction items) auto

lemma block_of_numbered_items:
  "map (\<lambda>i. (mi_label i, mi_detail i)) (filter (\<lambda>i. P (mi_kind i)) (number_items items)) =
   map (\<lambda>i. (mi_label i, mi_detail i)) (filter (\<lambda>i. P (mi_kind i)) items)"
  unfolding block_of_fields fields_of_numbered_items ..

text \<open>Items of the working set that are not candidates have kinds of their own.\<close>

definition fixed_kinds_reserved :: "memory_request \<Rightarrow> bool" where
  "fixed_kinds_reserved r \<longleftrightarrow> list_all (\<lambda>e. \<not> is_retrieved_memory_kind (ce_kind e)) (mr_compacted r)
     \<and> list_all (\<lambda>i. \<not> is_retrieved_memory_kind (ii_kind i)) (mr_pending r)"

lemma literal_kinds_reserved:
  "\<not> is_retrieved_memory_kind (lit ''workspace_memory'')" "\<not> is_retrieved_memory_kind (lit ''plan_explanation'')"
  "\<not> is_retrieved_memory_kind (lit ''plan_steps'')" "\<not> is_retrieved_memory_kind (lit ''latest_user_request'')"
  "\<not> is_retrieved_memory_kind (lit ''tool_result'')"
  by code_simp+

lemma fixed_items_not_retrieved:
  assumes "fixed_kinds_reserved r"
  shows "filter (\<lambda>i. is_retrieved_memory_kind (mi_kind i)) (fixed_memory_selection_items r) = []"
  using assms by (auto simp: fixed_kinds_reserved_def fixed_memory_selection_items_def filter_empty_conv list_all_iff
      workspace_memory_selected_items_def workspace_memory_selected_item_def compacted_history_selected_items_def
      active_thread_selected_items_def fixed_item_def literal_kinds_reserved split: option.splits)

text \<open>
  C31. The memory block added to the prompt never costs more than the selection budget. When a budget
  is given and no fixed item of the working set bears a kind of recalled memory, the estimate of the
  rendered block (tags, heading and note included) is at most the budget, whatever the candidates are.
\<close>

theorem memory_block_fits_budget:
  assumes "fixed_kinds_reserved r"
  shows "(case selected_memory_context_text (memory_selection r candidates (Some B)) of
            None \<Rightarrow> 0 | Some block \<Rightarrow> estimate_text_tokens block) \<le> B"
proof -
  define hc where "hc = list_ex is_compacted_history_kind (map mi_kind (fixed_memory_selection_items r))"
  define s where "s = foldl (select_step hc) (new_selection (Some B) (map mi_kind (fixed_memory_selection_items r)))
    (sort_key candidate_key (map memory_selection_candidate candidates))"
  have "within_budget B (new_selection (Some B) (map mi_kind (fixed_memory_selection_items r)))"
    by (simp add: within_budget_def new_selection_def retrieved_memory_context_budget_def render_retrieved_memory_context_def)
  then have "within_budget B s" unfolding s_def by (rule selection_within_budget)
  then have le: "retrieved_memory_context_budget (sel_retrieved s) \<le> B"
    and ret: "sel_retrieved s = map (\<lambda>i. (mi_label i, mi_detail i))
      (filter (\<lambda>i. is_retrieved_memory_kind (mi_kind i)) (selected_items (sel_decision s)))"
    by (auto simp: within_budget_def)
  have d: "select_memory_candidates (map memory_selection_candidate candidates) (Some B) (map mi_kind (fixed_memory_selection_items r)) = sel_decision s"
    by (simp add: select_memory_candidates_def s_def hc_def)
  have "selected_memory_context_text (memory_selection r candidates (Some B)) = render_retrieved_memory_context (sel_retrieved s)"
    unfolding selected_memory_context_text_def memory_selection_def Let_def d memory_view.simps block_of_numbered_items
    by (simp add: fixed_items_not_retrieved[OF assms] ret)
  with le show ?thesis by (simp add: retrieved_memory_context_budget_def)
qed

definition recall :: "ustr \<Rightarrow> nat \<Rightarrow> unit retrieval_candidate" where
  "recall detail priority = \<lparr>rc_id = detail,
     rc_source = \<lparr>source_type = lit ''memory'', source_id = None, source_path = None, source_uri = None,
       source_session = None, source_thread = None, source_workspace = None\<rparr>,
     rc_kind = RETRIEVED_WORKSPACE_MEMORY_KIND, rc_scope = [], rc_label = lit ''note'', rc_detail = detail,
     rc_summary = None, rc_rank = 0, rc_score = None, rc_priority = priority, rc_dedupe_key = Some detail,
     rc_budget_impact = None, rc_selection_reason = [], rc_availability_reason = [], rc_not_selected_reason = [],
     rc_selectable = True\<rparr>"

definition sample_request :: memory_request where
  "sample_request = \<lparr>mr_sources = [], mr_plan_explanation = Some (lit ''ship it''), mr_plan_steps = [], mr_pending = [],
     mr_compacted = [], mr_history = []\<rparr>"

theorem memory_block_fits_budget_witness:
  "(case selected_memory_context_text (memory_selection sample_request
        [recall (lit ''uses tabs'') 2, recall (lit ''uses tabs'') 1, recall (replicate 120 97) 3] (Some 95)) of
      None \<Rightarrow> 0 | Some block \<Rightarrow> estimate_text_tokens block) \<le> 95
   \<and> length (mv_selected (memory_selection sample_request
        [recall (lit ''uses tabs'') 2, recall (lit ''uses tabs'') 1, recall (replicate 120 97) 3] (Some 95))) = 2"
proof (rule conjI)
  show "(case selected_memory_context_text (memory_selection sample_request
        [recall (lit ''uses tabs'') 2, recall (lit ''uses tabs'') 1, recall (replicate 120 97) 3] (Some 95)) of
      None \<Rightarrow> 0 | Some block \<Rightarrow> estimate_text_tokens block) \<le> 95"
    by (rule memory_block_fits_budget) code_simp
qed code_simp

subsection \<open>Every candidate is accounted for\<close>

definition item_fields :: "memory_item \<Rightarrow> ustr \<times> ustr \<times> ustr \<times> ustr" where
  "item_fields i = (mi_kind i, mi_label i, mi_detail i, mi_selection_reason i)"

definition candidate_fields :: "memory_candidate \<Rightarrow> ustr \<times> ustr \<times> ustr \<times> ustr" where
  "candidate_fields c = (mc_kind c, mc_label c, mc_detail c, mc_selection_reason c)"

definition decided :: "memory_decision \<Rightarrow> (ustr \<times> ustr \<times> ustr \<times> ustr) multiset" where
  "decided d = mset (map item_fields (selected_items d @ available_items d @ dropped_items d))"

lemma item_fields_of_candidate: "item_fields (memory_item_of c impact r) = candidate_fields c"
  by (simp add: item_fields_def candidate_fields_def memory_item_of_def)

lemma select_step_decides:
  "decided (sel_decision (select_step hc s c)) = decided (sel_decision s) + {#candidate_fields c#}"
proof (cases "should_drop hc s c (candidate_budget_impact_tokens c (sel_retrieved s))")
  case None
  then show ?thesis unfolding select_step_def Let_def by (simp add: decided_def item_fields_of_candidate)
next
  case (Some r)
  then show ?thesis unfolding select_step_def Let_def
    by (cases "is_budget r") (simp_all add: decided_def item_fields_of_candidate)
qed

lemma selection_decides:
  "decided (sel_decision (foldl (select_step hc) s cs)) = decided (sel_decision s) + mset (map candidate_fields cs)"
  by (induction cs arbitrary: s) (simp_all add: select_step_decides)

text \<open>
  The selection accounts for every candidate: the selected, the available and the dropped items
  together are exactly the candidates, each once, with the kind, label, detail and selection reason it
  was proposed with.
\<close>

theorem every_candidate_is_decided:
  "decided (select_memory_candidates candidates budget kinds) = mset (map candidate_fields candidates)"
proof -
  have "mset (map candidate_fields (sort_key candidate_key candidates)) = mset (map candidate_fields candidates)"
    unfolding mset_map mset_sort ..
  then show ?thesis
    by (simp only: select_memory_candidates_def selection_decides) (simp add: new_selection_def decided_def)
qed


end
