(* ===== verification/BashRequest.thy ===== *)
theory BashRequest
  imports BashReadonly
begin

section \<open>Shell requests (src/tools/bash.rs, BashCommandInput)\<close>

text \<open>
  The input of the shell tool: how it is read from JSON, normalized, classified as read-only, and
  matched against approved prefixes. Reading follows the derived \<open>Deserialize\<close>: fields by name in an
  object (or by position in an array), with defaults, unknown fields ignored; the text of a
  deserialization error is a parameter. The environment is the list of its entries. Lemmas: a request
  that was read is read back from its own JSON unchanged, so what runs after an approval is what was
  approved; a read-only request asks for no privilege.
\<close>

subsection \<open>The request\<close>

datatype sandbox_permissions = UseDefault | RequireEscalated

record bash_request =
  br_command :: "ustr option"
  br_program :: "ustr option"
  br_args :: "ustr list"
  br_cwd :: "ustr option"
  br_env :: "(ustr \<times> ustr) list"
  br_allow_net :: bool
  br_run_in_background :: bool
  br_sandbox_permissions :: sandbox_permissions
  br_justification :: "ustr option"
  br_prefix_rule :: "ustr list"

subsection \<open>Reading and writing\<close>

definition field_names :: "string list" where
  "field_names = [''command'', ''program'', ''args'', ''cwd'', ''env'', ''allow_net'', ''run_in_background'',
     ''sandbox_permissions'', ''justification'', ''prefix_rule'']"

definition field_at :: "nat \<Rightarrow> json \<Rightarrow> json option" where
  "field_at i v = (case v of
       JObj _ \<Rightarrow> jget (field_names ! i) v
     | JArr vs \<Rightarrow> if i < length vs then Some (vs ! i) else None
     | _ \<Rightarrow> None)"

definition struct_shape :: "json \<Rightarrow> bool" where
  "struct_shape v = (case v of JObj _ \<Rightarrow> True | JArr vs \<Rightarrow> length vs \<le> length field_names | _ \<Rightarrow> False)"

text \<open>A missing field is the default; a present one must have the type of the field.\<close>

definition field_or :: "'a \<Rightarrow> (json \<Rightarrow> 'a option) \<Rightarrow> nat \<Rightarrow> json \<Rightarrow> 'a option" where
  "field_or d read i v = (case field_at i v of None \<Rightarrow> Some d | Some x \<Rightarrow> read x)"

definition read_opt_str :: "json \<Rightarrow> ustr option option" where
  "read_opt_str v = (case v of JNull \<Rightarrow> Some None | JStr s \<Rightarrow> Some (Some s) | _ \<Rightarrow> None)"

fun read_all :: "('a \<Rightarrow> 'b option) \<Rightarrow> 'a list \<Rightarrow> 'b list option" where
  "read_all f [] = Some []"
| "read_all f (x # xs) = (case f x of None \<Rightarrow> None | Some y \<Rightarrow> map_option (\<lambda>ys. y # ys) (read_all f xs))"

definition read_strs :: "json \<Rightarrow> ustr list option" where
  "read_strs v = (case v of JArr vs \<Rightarrow> read_all as_str vs | _ \<Rightarrow> None)"

definition read_env :: "json \<Rightarrow> (ustr \<times> ustr) list option" where
  "read_env v = (case v of JObj kvs \<Rightarrow> read_all (\<lambda>(k, x). map_option (\<lambda>s. (k, s)) (as_str x)) kvs | _ \<Rightarrow> None)"

definition permissions_text :: "sandbox_permissions \<Rightarrow> ustr" where
  "permissions_text p = (case p of UseDefault \<Rightarrow> lit ''use_default'' | RequireEscalated \<Rightarrow> lit ''require_escalated'')"

definition read_variant :: "ustr \<Rightarrow> sandbox_permissions option" where
  "read_variant s = find (\<lambda>p. s = permissions_text p) [UseDefault, RequireEscalated]"

definition read_permissions :: "json \<Rightarrow> sandbox_permissions option" where
  "read_permissions v = (case v of JStr s \<Rightarrow> read_variant s | JObj [(s, JNull)] \<Rightarrow> read_variant s | _ \<Rightarrow> None)"

definition bind :: "'a option \<Rightarrow> ('a \<Rightarrow> 'b option) \<Rightarrow> 'b option" where
  "bind = Option.bind"

definition read_request :: "json \<Rightarrow> bash_request option" where
  "read_request v =
     (if \<not> struct_shape v then None
      else bind (field_or None read_opt_str 0 v) (\<lambda>command.
           bind (field_or None read_opt_str 1 v) (\<lambda>program.
           bind (field_or [] read_strs 2 v) (\<lambda>args.
           bind (field_or None read_opt_str 3 v) (\<lambda>cwd.
           bind (field_or [] read_env 4 v) (\<lambda>env.
           bind (field_or False as_bool 5 v) (\<lambda>net.
           bind (field_or False as_bool 6 v) (\<lambda>bg.
           bind (field_or UseDefault read_permissions 7 v) (\<lambda>perm.
           bind (field_or None read_opt_str 8 v) (\<lambda>just.
           bind (field_or [] read_strs 9 v) (\<lambda>rule.
             Some \<lparr>br_command = command, br_program = program, br_args = args, br_cwd = cwd, br_env = env,
                   br_allow_net = net, br_run_in_background = bg, br_sandbox_permissions = perm,
                   br_justification = just, br_prefix_rule = rule\<rparr>)))))))))))"

definition opt_json :: "ustr option \<Rightarrow> json" where
  "opt_json x = (case x of None \<Rightarrow> JNull | Some s \<Rightarrow> JStr s)"

definition to_value :: "bash_request \<Rightarrow> json" where
  "to_value r = JObj
     [(lit ''command'', opt_json (br_command r)), (lit ''program'', opt_json (br_program r)),
      (lit ''args'', JArr (map JStr (br_args r))), (lit ''cwd'', opt_json (br_cwd r)),
      (lit ''env'', JObj (map (\<lambda>(k, s). (k, JStr s)) (br_env r))),
      (lit ''allow_net'', JBool (br_allow_net r)), (lit ''run_in_background'', JBool (br_run_in_background r)),
      (lit ''sandbox_permissions'', JStr (permissions_text (br_sandbox_permissions r))),
      (lit ''justification'', opt_json (br_justification r)),
      (lit ''prefix_rule'', JArr (map JStr (br_prefix_rule r)))]"

text \<open>\<open>value.as_ref().filter(not blank)\<close>\<close>

definition non_blank :: "ustr option \<Rightarrow> bool" where
  "non_blank x = (case x of None \<Rightarrow> False | Some s \<Rightarrow> trim s \<noteq> [])"

definition nonblank_command :: "bash_request \<Rightarrow> ustr option" where
  "nonblank_command r = (if non_blank (br_command r) then map_option trim (br_command r) else None)"

definition nonblank_program :: "bash_request \<Rightarrow> ustr option" where
  "nonblank_program r = (if non_blank (br_program r) then br_program r else None)"

definition validate :: "bash_request \<Rightarrow> ustr + unit" where
  "validate r =
     (if \<not> non_blank (br_command r) \<and> \<not> non_blank (br_program r)
      then Inl (lit ''bash payload requires either command or program'') else Inr ())"

subsection \<open>A leading cd\<close>

text \<open>The scan after an opening quote: a backslash gives up, the quote ends the path.\<close>

fun quoted_target :: "uchar \<Rightarrow> ustr \<Rightarrow> ustr \<Rightarrow> (ustr \<times> ustr) option" where
  "quoted_target q [] acc = None"
| "quoted_target q (c # s) acc =
     (if c = chr [CHR 0x5C] then None
      else if c = q then (if acc = [] then None else Some (acc, s))
      else quoted_target q s (acc @ [c]))"

definition cd_syntax :: "uchar list" where
  "cd_syntax = lit '';&|<>$`(){}''"

definition parse_cd_target :: "ustr \<Rightarrow> (ustr \<times> ustr) option" where
  "parse_cd_target input =
     (case input of
        c # s \<Rightarrow>
          if is_quote c then quoted_target c s []
          else (let path = takeWhile (\<lambda>c. \<not> is_whitespace c) input in
                if path = [] \<or> list_ex (\<lambda>c. c \<in> set cd_syntax) path then None
                else Some (path, drop (length path) input))
      | [] \<Rightarrow> None)"

definition parse_simple_cd_prefix :: "ustr \<Rightarrow> (ustr \<times> ustr) option" where
  "parse_simple_cd_prefix command =
     (case strip_prefix (trim_start command) (lit ''cd'') of
        None \<Rightarrow> None
      | Some after_cd \<Rightarrow>
        (case after_cd of
           [] \<Rightarrow> None
         | c # _ \<Rightarrow>
           if \<not> is_whitespace c then None
           else (case parse_cd_target (trim_start after_cd) of
              None \<Rightarrow> None
            | Some (cwd, rest) \<Rightarrow>
                if \<not> starts_with cwd (lit ''/'') then None
                else (case strip_prefix (trim_start rest) (lit ''&&'') of
                   None \<Rightarrow> None
                 | Some rest \<Rightarrow> if trim_start rest = [] then None else Some (cwd, trim_start rest)))))"

definition normalize_simple_cd_prefix :: "bash_request \<Rightarrow> bash_request" where
  "normalize_simple_cd_prefix r =
     (if non_blank (br_cwd r) \<or> non_blank (br_program r) then r
      else (case br_command r of
         None \<Rightarrow> r
       | Some command \<Rightarrow>
           (case parse_simple_cd_prefix command of
              None \<Rightarrow> r
            | Some (cwd, command) \<Rightarrow> r\<lparr>br_cwd := Some cwd, br_command := Some command\<rparr>)))"

definition from_value :: "(json \<Rightarrow> ustr) \<Rightarrow> json \<Rightarrow> ustr + bash_request" where
  "from_value serde_error v =
     (case read_request v of
        None \<Rightarrow> Inl (lit ''Invalid input: bash payload: '' @ serde_error v)
      | Some r \<Rightarrow>
          (let r = normalize_simple_cd_prefix r in
           case validate r of Inl e \<Rightarrow> Inl (lit ''Invalid input: '' @ e) | Inr _ \<Rightarrow> Inr r))"

subsection \<open>What is shown, and what needs approval\<close>

definition summary :: "bash_request \<Rightarrow> ustr" where
  "summary r =
     (case nonblank_command r of
        Some command \<Rightarrow> command
      | None \<Rightarrow>
          (let program = (case nonblank_program r of Some p \<Rightarrow> p | None \<Rightarrow> lit ''<program>'') in
           if br_args r = [] then program else program @ lit '' '' @ join (br_args r) (lit '' '')))"

definition can_use_read_only_segment_bypass :: "bash_request \<Rightarrow> bool" where
  "can_use_read_only_segment_bypass r \<longleftrightarrow>
     \<not> br_allow_net r \<and> \<not> br_run_in_background r \<and> br_env r = [] \<and>
     br_sandbox_permissions r = UseDefault \<and> br_justification r = None \<and> br_prefix_rule r = []"

definition is_read_only :: "bash_request \<Rightarrow> bool" where
  "is_read_only r =
     (if br_allow_net r \<or> br_run_in_background r \<or> br_env r \<noteq> [] \<or>
         br_sandbox_permissions r \<noteq> UseDefault \<or> br_justification r \<noteq> None \<or> br_prefix_rule r \<noteq> []
      then False
      else (case nonblank_command r of
         Some command \<Rightarrow> shell_command_is_read_only command
       | None \<Rightarrow> (case nonblank_program r of None \<Rightarrow> False | Some p \<Rightarrow> argv_is_read_only p (br_args r))))"

definition requires_escalated_permissions :: "bash_request \<Rightarrow> bool" where
  "requires_escalated_permissions r \<longleftrightarrow> br_sandbox_permissions r = RequireEscalated"

definition request_approval_prefix :: "bash_request \<Rightarrow> ustr option" where
  "request_approval_prefix r =
     (if br_prefix_rule r \<noteq> [] then Some (join (br_prefix_rule r) (lit '' ''))
      else (case nonblank_command r of
         Some command \<Rightarrow>
           (case shell_command_prefix_segments command of
              None \<Rightarrow> None
            | Some segments \<Rightarrow> if length segments \<noteq> 1 then None else prefix_from_tokens (segments ! 0))
       | None \<Rightarrow>
           (case nonblank_program r of None \<Rightarrow> None | Some p \<Rightarrow> prefix_from_tokens (p # br_args r))))"

definition normalized_approval_summary :: "bash_request \<Rightarrow> ustr" where
  "normalized_approval_summary r =
     (case nonblank_command r of
        Some command \<Rightarrow>
          (case Option.bind (split_shell_segments command)
                  (\<lambda>segments. if length segments = 1 then tokenize_shell_segment (segments ! 0) else None) of
             Some tokens \<Rightarrow> normalized_tokens_summary tokens
           | None \<Rightarrow> command)
      | None \<Rightarrow>
          (case nonblank_program r of
             None \<Rightarrow> summary r
           | Some p \<Rightarrow> normalized_tokens_summary (p # br_args r)))"

definition matches_approval_prefix :: "bash_request \<Rightarrow> ustr \<Rightarrow> bool" where
  "matches_approval_prefix r prefix =
     (case nonblank_command r of
        Some command \<Rightarrow> shell_command_matches_single_approval_prefix command prefix
      | None \<Rightarrow> normalized_summary_matches_prefix (normalized_approval_summary r) prefix)"

definition is_allowed_by_approval_prefixes :: "bash_request \<Rightarrow> ustr list \<Rightarrow> bool" where
  "is_allowed_by_approval_prefixes r prefixes =
     (if prefixes = [] then False
      else if list_ex (summary_matches_exact_approval (summary r)) prefixes then True
      else (case nonblank_command r of
         Some command \<Rightarrow>
           shell_command_allowed_by_approval_prefixes command prefixes (can_use_read_only_segment_bypass r)
       | None \<Rightarrow> list_ex (matches_approval_prefix r) prefixes))"

subsection \<open>The approved request is the one that runs\<close>

lemma bind_Some [simp]: "bind (Some x) f = f x" "bind None f = None"
  by (simp_all add: bind_def)

lemma read_all_map: "(\<And>x. x \<in> set xs \<Longrightarrow> f (g x) = Some x) \<Longrightarrow> read_all f (map g xs) = Some xs"
  by (induction xs) auto

lemma read_variant_text: "read_variant (permissions_text p) = Some p"
  by (cases p) (simp_all add: read_variant_def permissions_text_def)

lemma read_opt_json [simp]: "read_opt_str (opt_json x) = Some x"
  by (cases x) (simp_all add: read_opt_str_def opt_json_def)

lemma read_to_value: "read_request (to_value r) = Some r"
proof -
  have env: "read_env (JObj (map (\<lambda>(k, s). (k, JStr s)) (br_env r))) = Some (br_env r)"
    by (simp add: read_env_def read_all_map case_prod_beta as_str_def)
  have strs: "read_strs (JArr (map JStr xs)) = Some xs" for xs
    by (simp add: read_strs_def read_all_map as_str_def)
  show ?thesis
    by (simp add: read_request_def struct_shape_def to_value_def field_or_def field_at_def field_names_def
        env strs read_permissions_def read_variant_text as_bool_def)
qed

lemma trim_slash: "starts_with cwd (lit ''/'') \<Longrightarrow> trim cwd \<noteq> []"
proof -
  assume "starts_with cwd (lit ''/'')"
  then obtain t where t: "cwd = 47 # t" by (auto simp: starts_with_iff lit_simps)
  have "\<not> is_whitespace 47" by (simp add: is_whitespace_def)
  then have "trim_start cwd = cwd" by (simp add: t trim_start_def)
  moreover have "trim_end cwd \<noteq> []"
    using \<open>\<not> is_whitespace 47\<close> by (simp add: t trim_end_def dropWhile_eq_Nil_conv)
  ultimately show ?thesis by (simp add: trim_def)
qed

lemma parsed_cwd: "parse_simple_cd_prefix command = Some (cwd, rest) \<Longrightarrow> starts_with cwd (lit ''/'')"
  by (auto simp: parse_simple_cd_prefix_def split: option.splits list.splits if_splits)

lemma normalize_idem: "normalize_simple_cd_prefix (normalize_simple_cd_prefix r) = normalize_simple_cd_prefix r"
proof (cases "normalize_simple_cd_prefix r = r")
  case False
  then obtain command cwd rest where
    "normalize_simple_cd_prefix r = r\<lparr>br_cwd := Some cwd, br_command := Some rest\<rparr>"
    "parse_simple_cd_prefix command = Some (cwd, rest)"
    by (auto simp: normalize_simple_cd_prefix_def split: if_splits option.splits)
  moreover from this(2) have "non_blank (Some cwd)" by (simp add: non_blank_def trim_slash parsed_cwd)
  ultimately show ?thesis by (simp add: normalize_simple_cd_prefix_def)
qed simp

text \<open>
  C32. The request that runs is the request that was approved: a request read from a tool call is
  written to JSON for its execution and read back as exactly the same request, with the same command,
  directory, environment and permissions; in particular a leading \<open>cd\<close> is taken off only once.
\<close>

theorem approved_request_is_executed:
  assumes "from_value serde_error v = Inr r"
  shows "from_value serde_error' (to_value r) = Inr r"
proof -
  from assms obtain q where r: "r = normalize_simple_cd_prefix q" "validate r = Inr ()"
    by (auto simp: from_value_def Let_def split: option.splits sum.splits)
  then show ?thesis by (simp add: from_value_def read_to_value Let_def normalize_idem)
qed

definition cd_call :: json where
  "cd_call = JObj [(lit ''command'', JStr (lit ''cd /srv/app && cargo test'')), (lit ''note'', JNull)]"

definition cd_request :: bash_request where
  "cd_request = \<lparr>br_command = Some (lit ''cargo test''), br_program = None, br_args = [], br_cwd = Some (lit ''/srv/app''),
     br_env = [], br_allow_net = False, br_run_in_background = False, br_sandbox_permissions = UseDefault,
     br_justification = None, br_prefix_rule = []\<rparr>"

theorem approved_request_is_executed_witness:
  "from_value (\<lambda>_. []) cd_call = Inr cd_request \<and> from_value (\<lambda>_. []) (to_value cd_request) = Inr cd_request"
proof -
  have "from_value (\<lambda>_. []) cd_call = Inr cd_request" by code_simp
  with approved_request_is_executed [OF this] show ?thesis by blast
qed

subsection \<open>Privileges\<close>

text \<open>A request that counts as read-only asks for no network, background run, environment or escalation.\<close>

lemma read_only_is_unprivileged:
  "is_read_only r \<Longrightarrow> can_use_read_only_segment_bypass r \<and> \<not> requires_escalated_permissions r"
  by (auto simp: is_read_only_def can_use_read_only_segment_bypass_def requires_escalated_permissions_def split: if_splits)

text \<open>
  Approvals of a prefix, and of an exact command, look at the command line only: they also cover the
  same command with network, an environment, or outside the sandbox.
\<close>

lemma segment_approval_ignores_privileges:
  assumes "list_ex (summary_matches_exact_approval (summary r)) prefixes"
  shows "is_allowed_by_approval_prefixes (r\<lparr>br_sandbox_permissions := p, br_allow_net := n, br_env := e\<rparr>) prefixes"
proof -
  have "summary (r\<lparr>br_sandbox_permissions := p, br_allow_net := n, br_env := e\<rparr>) = summary r"
    by (simp add: summary_def nonblank_command_def nonblank_program_def Let_def cong: if_cong option.case_cong)
  with assms show ?thesis by (cases prefixes) (simp_all add: is_allowed_by_approval_prefixes_def)
qed

definition escalated :: "bash_request \<Rightarrow> bash_request" where
  "escalated r = r\<lparr>br_sandbox_permissions := RequireEscalated, br_allow_net := True,
     br_justification := Some (lit ''needs it'')\<rparr>"

lemma prefix_grant_covers_escalation:
  "is_allowed_by_approval_prefixes (escalated cd_request) [the (request_approval_prefix cd_request)]"
  by code_simp


end
