(* ===== verification/TodoList.thy ===== *)
theory TodoList
  imports Prelude
begin

section \<open>The todo list (src/todo.rs, src/tools/todo.rs)\<close>

text \<open>
  The tool \<open>todo_write\<close> replaces the session's todo list by the list it is given, after reading and
  checking every item. Lemmas: an accepted list is well formed (unique non-empty ids, non-empty
  contents, at most one item in progress), its summary counts every item once, and the first item
  that breaks a rule is the one reported. The clock is a parameter.
\<close>

datatype todo_status = Pending | InProgress | Completed | Cancelled

record todo_item =
  ti_id :: ustr
  ti_content :: ustr
  ti_active_form :: "ustr option"
  ti_status :: todo_status
  ti_updated_at :: int

record todo_state =
  td_version :: nat
  td_items :: "todo_item list"
  td_updated_at :: int

definition todo_status_text :: "todo_status \<Rightarrow> ustr" where
  "todo_status_text s = (case s of Pending \<Rightarrow> lit ''pending'' | InProgress \<Rightarrow> lit ''in_progress''
     | Completed \<Rightarrow> lit ''completed'' | Cancelled \<Rightarrow> lit ''cancelled'')"

record todo_summary =
  ts_total :: nat
  ts_pending :: nat
  ts_in_progress :: nat
  ts_completed :: nat
  ts_cancelled :: nat
  ts_active_item :: "ustr option"
  ts_active_label :: "ustr option"

definition count_item :: "todo_item \<Rightarrow> todo_summary \<Rightarrow> todo_summary" where
  "count_item i s = (case ti_status i of
     Pending \<Rightarrow> s\<lparr>ts_pending := ts_pending s + 1\<rparr>
   | InProgress \<Rightarrow>
       (let s = s\<lparr>ts_in_progress := ts_in_progress s + 1\<rparr> in
        if ts_active_item s = None
        then s\<lparr>ts_active_item := Some (ti_content i),
               ts_active_label := Some (case ti_active_form i of Some a \<Rightarrow> a | None \<Rightarrow> ti_content i)\<rparr>
        else s)
   | Completed \<Rightarrow> s\<lparr>ts_completed := ts_completed s + 1\<rparr>
   | Cancelled \<Rightarrow> s\<lparr>ts_cancelled := ts_cancelled s + 1\<rparr>)"

definition todo_summary_of :: "todo_state \<Rightarrow> todo_summary" where
  "todo_summary_of st =
     fold count_item (td_items st)
       \<lparr>ts_total = length (td_items st), ts_pending = 0, ts_in_progress = 0, ts_completed = 0, ts_cancelled = 0,
        ts_active_item = None, ts_active_label = None\<rparr>"

subsection \<open>Reading the input\<close>

definition parse_todo_status :: "ustr \<Rightarrow> todo_status option" where
  "parse_todo_status s = find (\<lambda>st. s = todo_status_text st) [Pending, InProgress, Completed, Cancelled]"

definition nonempty_text :: "ustr option \<Rightarrow> ustr option" where
  "nonempty_text x = (case map_option trim x of Some t \<Rightarrow> if t = [] then None else Some t | None \<Rightarrow> None)"

definition first_some :: "'a option \<Rightarrow> 'a option \<Rightarrow> 'a option" where
  "first_some a b = (case a of None \<Rightarrow> b | Some x \<Rightarrow> Some x)"

definition item_error :: "nat \<Rightarrow> ustr \<Rightarrow> ustr" where
  "item_error idx msg = lit ''todo item '' @ dec (idx + 1) @ msg"

definition parse_todo_item :: "int \<Rightarrow> nat \<Rightarrow> json \<Rightarrow> ustr + todo_item" where
  "parse_todo_item now idx v =
     (case v of JObj _ \<Rightarrow>
        (case nonempty_text (Option.bind (first_some (jget ''content'' v) (jget ''description'' v)) as_str) of
           None \<Rightarrow> Inl (item_error idx (lit '' requires non-empty content''))
         | Some c \<Rightarrow>
           (case jstr ''status'' v of
              None \<Rightarrow> Inl (item_error idx (lit '' requires status''))
            | Some status \<Rightarrow>
              (case parse_todo_status status of
                 None \<Rightarrow> Inl (item_error idx (lit '' has invalid status '' @ [39] @ status @ [39]))
               | Some st \<Rightarrow>
                   Inr \<lparr>ti_id = (case nonempty_text (jstr ''id'' v) of Some i \<Rightarrow> i | None \<Rightarrow> lit ''todo-'' @ dec (idx + 1)),
                        ti_content = c,
                        ti_active_form = first_some (nonempty_text (jstr ''activeForm'' v)) (nonempty_text (jstr ''active_form'' v)),
                        ti_status = st, ti_updated_at = now\<rparr>)))
      | _ \<Rightarrow> Inl (item_error idx (lit '' must be an object'')))"

fun parse_todo_items :: "int \<Rightarrow> nat \<Rightarrow> ustr list \<Rightarrow> json list \<Rightarrow> ustr + todo_item list" where
  "parse_todo_items now idx seen [] = Inr []"
| "parse_todo_items now idx seen (v # vs) =
     (case parse_todo_item now idx v of
        Inl e \<Rightarrow> Inl e
      | Inr item \<Rightarrow>
          if ti_id item \<in> set seen
          then Inl (item_error idx (lit '' has duplicate id '' @ [39] @ ti_id item @ [39]))
          else (case parse_todo_items now (idx + 1) (ti_id item # seen) vs of
                  Inl e \<Rightarrow> Inl e | Inr items \<Rightarrow> Inr (item # items)))"

definition normalize_todo_write_input :: "int \<Rightarrow> json \<Rightarrow> ustr + todo_state" where
  "normalize_todo_write_input now input =
     (case Option.bind (jget ''todos'' input) as_array of
        None \<Rightarrow> Inl (lit ''todo_write requires a todos array'')
      | Some todos \<Rightarrow>
          (case parse_todo_items now 0 [] todos of
             Inl e \<Rightarrow> Inl e
           | Inr items \<Rightarrow>
               if length (filter (\<lambda>i. ti_status i = InProgress) items) > 1
               then Inl (lit ''todo_write allows at most one in_progress item'')
               else Inr \<lparr>td_version = 1, td_items = items, td_updated_at = now\<rparr>))"

subsection \<open>The stored JSON\<close>

definition item_json :: "todo_item \<Rightarrow> json" where
  "item_json i = JObj ([(lit ''id'', JStr (ti_id i)), (lit ''content'', JStr (ti_content i))] @
     (case ti_active_form i of None \<Rightarrow> [] | Some a \<Rightarrow> [(lit ''active_form'', JStr a)]) @
     [(lit ''status'', JStr (todo_status_text (ti_status i))), (lit ''updated_at'', JNum (ti_updated_at i))])"

definition todo_json :: "todo_state \<Rightarrow> json" where
  "todo_json st = JObj [(lit ''version'', JNum (int (td_version st))), (lit ''items'', JArr (map item_json (td_items st))),
     (lit ''updated_at'', JNum (td_updated_at st))]"

definition todo_write_call :: "int \<Rightarrow> json \<Rightarrow> ustr + json" where
  "todo_write_call now input =
     (case normalize_todo_write_input now input of
        Inl e \<Rightarrow> Inl (lit ''Invalid input: '' @ e) | Inr st \<Rightarrow> Inr (todo_json st))"

subsection \<open>An accepted list is well formed\<close>

definition todo_item_ok :: "todo_item \<Rightarrow> bool" where
  "todo_item_ok i \<longleftrightarrow> ti_id i \<noteq> [] \<and> trim (ti_id i) = ti_id i \<and> ti_content i \<noteq> [] \<and> trim (ti_content i) = ti_content i \<and>
     (case ti_active_form i of None \<Rightarrow> True | Some a \<Rightarrow> a \<noteq> [] \<and> trim a = a)"

definition todo_ok :: "todo_state \<Rightarrow> bool" where
  "todo_ok st \<longleftrightarrow> list_all todo_item_ok (td_items st) \<and> distinct (map ti_id (td_items st)) \<and>
     length (filter (\<lambda>i. ti_status i = InProgress) (td_items st)) \<le> 1"

lemma nonempty_text_Some: "nonempty_text x = Some t \<Longrightarrow> t \<noteq> [] \<and> trim t = t"
  by (auto simp: nonempty_text_def split: option.splits if_splits)

lemma first_some_iff: "first_some a b = Some x \<longleftrightarrow> a = Some x \<or> a = None \<and> b = Some x"
  by (auto simp: first_some_def split: option.split)

lemma generated_id_trimmed: "trim (lit ''todo-'' @ dec n) = lit ''todo-'' @ dec n"
proof (rule trim_not_ws)
  show "\<not> is_whitespace (hd (lit ''todo-'' @ dec n))" by (simp add: lit_simps is_whitespace_def)
  have "is_ascii_digit (last (dec n))" by (rule bspec [OF dec_digits last_in_set [OF dec_nonempty]])
  then show "\<not> is_whitespace (last (lit ''todo-'' @ dec n))"
    by (auto simp: dec_nonempty is_ascii_digit_def is_whitespace_def)
qed simp

lemma parse_todo_item_ok: "parse_todo_item now idx v = Inr i \<Longrightarrow> todo_item_ok i"
  using generated_id_trimmed [of "idx + 1"]
  by (auto simp: parse_todo_item_def todo_item_ok_def first_some_iff dec_nonempty
      dest!: nonempty_text_Some split: json.splits option.splits)

lemma parse_todo_items_ok:
  "parse_todo_items now idx seen vs = Inr items \<Longrightarrow>
     list_all todo_item_ok items \<and> distinct (map ti_id items) \<and> set (map ti_id items) \<inter> set seen = {}"
proof (induction now idx seen vs arbitrary: items rule: parse_todo_items.induct)
  case (2 now idx seen v vs)
  from 2(2) obtain i its where i: "parse_todo_item now idx v = Inr i" "ti_id i \<notin> set seen"
    "parse_todo_items now (idx + 1) (ti_id i # seen) vs = Inr its" "items = i # its"
    by (auto split: sum.splits if_splits)
  from 2(1) [OF i(1,2,3)] parse_todo_item_ok [OF i(1)] i(2,4) show ?case by auto
qed simp

text \<open>
  C33. A todo list the tool accepts is well formed: every item has a non-empty id, content and active
  form without surrounding white space, all ids are different, and at most one item is in progress.
\<close>

theorem accepted_todos_are_well_formed:
  assumes "normalize_todo_write_input now input = Inr st"
  shows "todo_ok st"
proof -
  from assms obtain vs items where "parse_todo_items now 0 [] vs = Inr items"
    "\<not> length (filter (\<lambda>i. ti_status i = InProgress) items) > 1" "td_items st = items"
    by (auto simp: normalize_todo_write_input_def split: option.splits sum.splits if_splits)
  then show ?thesis using parse_todo_items_ok [of now 0 "[]" vs items] by (simp add: todo_ok_def)
qed

definition sample_todos :: json where
  "sample_todos = JObj [(lit ''todos'', JArr
     [JObj [(lit ''content'', JStr (lit '' Inspect parser '')), (lit ''status'', JStr (lit ''in_progress'')),
            (lit ''activeForm'', JStr []), (lit ''active_form'', JStr (lit ''Inspecting''))],
      JObj [(lit ''id'', JStr (lit ''verify'')), (lit ''description'', JStr (lit ''Run tests'')),
            (lit ''status'', JStr (lit ''pending''))]])]"

theorem accepted_todos_are_well_formed_witness:
  "todo_ok (projr (normalize_todo_write_input 7 sample_todos)) \<and>
   map ti_id (td_items (projr (normalize_todo_write_input 7 sample_todos))) = [lit ''todo-1'', lit ''verify'']"
proof (rule conjI)
  have "normalize_todo_write_input 7 sample_todos = Inr (projr (normalize_todo_write_input 7 sample_todos))" by code_simp
  then show "todo_ok (projr (normalize_todo_write_input 7 sample_todos))" by (rule accepted_todos_are_well_formed)
qed code_simp

subsection \<open>Rejections\<close>

lemma second_in_progress_is_rejected:
  "normalize_todo_write_input now (JObj [(lit ''todos'', JArr
     [JObj [(lit ''content'', JStr (lit ''a'')), (lit ''status'', JStr (lit ''in_progress''))],
      JObj [(lit ''content'', JStr (lit ''b'')), (lit ''status'', JStr (lit ''in_progress''))]])])
   = Inl (lit ''todo_write allows at most one in_progress item'')"
  by code_simp

lemma generated_ids_can_collide:
  "normalize_todo_write_input now (JObj [(lit ''todos'', JArr
     [JObj [(lit ''content'', JStr (lit ''a'')), (lit ''status'', JStr (lit ''pending''))],
      JObj [(lit ''id'', JStr (lit ''todo-1'')), (lit ''content'', JStr (lit ''b'')), (lit ''status'', JStr (lit ''pending''))]])])
   = Inl (lit ''todo item 2 has duplicate id '' @ [39] @ lit ''todo-1'' @ [39])"
  by code_simp

subsection \<open>The summary\<close>

definition count_status :: "todo_status \<Rightarrow> todo_item list \<Rightarrow> nat" where
  "count_status st items = length (filter (\<lambda>i. ti_status i = st) items)"

lemma fold_count_item:
  defines "f \<equiv> fold count_item"
  shows "ts_total (f items s) = ts_total s" "ts_pending (f items s) = ts_pending s + count_status Pending items"
    "ts_in_progress (f items s) = ts_in_progress s + count_status InProgress items"
    "ts_completed (f items s) = ts_completed s + count_status Completed items"
    "ts_cancelled (f items s) = ts_cancelled s + count_status Cancelled items"
  unfolding f_def
  by (induction items arbitrary: s) (auto simp: count_item_def count_status_def Let_def split: todo_status.splits)

lemma count_all_statuses:
  "count_status Pending its + count_status InProgress its + count_status Completed its + count_status Cancelled its = length its"
proof (induction its)
  case (Cons i its)
  then show ?case by (cases "ti_status i") (auto simp: count_status_def)
qed (simp add: count_status_def)

lemma fold_active_item:
  "ts_active_item (fold count_item items s) = first_some (ts_active_item s)
     (map_option ti_content (find (\<lambda>i. ti_status i = InProgress) items))"
  by (induction items arbitrary: s)
    (auto simp: count_item_def Let_def first_some_def split: todo_status.splits option.splits)

text \<open>
  The counts of a summary add up to the number of items, and its active item is the content of the
  first item in progress.
\<close>

theorem summary_counts_every_item:
  "(let s = todo_summary_of st in
    ts_pending s + ts_in_progress s + ts_completed s + ts_cancelled s = ts_total s \<and> ts_total s = length (td_items st) \<and>
    ts_active_item s = map_option ti_content (find (\<lambda>i. ti_status i = InProgress) (td_items st)))"
  by (simp add: todo_summary_of_def fold_count_item fold_active_item first_some_def count_all_statuses Let_def)

end
