(* ===== verification/ToolResults.thy ===== *)
theory ToolResults
  imports ToolHistory "HOL-Library.Multiset"
begin

section \<open>Shortening tool results (src/tool_result: content.rs, batch.rs, projection.rs)\<close>

text \<open>
  Tool results are shortened twice: a batch of results is cut to a budget before it enters the
  history, and the history sent to a model is projected, old results first, while it exceeds a
  budget. Only the contents of results are rewritten, at their positions. Lemmas: both passes keep
  the tool protocol; a batch fits its budget; a projection makes every rewritten result shorter,
  leaves the most recent ones alone and reports what it did. Rendering an input as JSON text is a
  parameter. Counts of characters are naturals.
\<close>

subsection \<open>Positions of results (content.rs)\<close>

type_synonym result_position = "nat \<times> nat"

definition block_at :: "message list \<Rightarrow> result_position \<Rightarrow> json option" where
  "block_at ms p =
     (if fst p < length ms then
        (case as_array (content (ms ! fst p)) of
           None \<Rightarrow> None
         | Some bs \<Rightarrow> if snd p < length bs then Some (bs ! snd p) else None)
      else None)"

definition content_at :: "message list \<Rightarrow> result_position \<Rightarrow> ustr option" where
  "content_at ms p = Option.bind (block_at ms p) (jstr ''content'')"

definition put_content :: "ustr \<Rightarrow> json \<Rightarrow> json" where
  "put_content s b =
     (case b of
        JObj kvs \<Rightarrow> if jstr ''content'' b = None then b
                    else JObj (map (\<lambda>(k, v). if k = lit ''content'' then (k, JStr s) else (k, v)) kvs)
      | _ \<Rightarrow> b)"

text \<open>\<open>*content = replacement\<close> through \<open>tool_result_content_mut\<close>; nothing when there is no such text.\<close>

definition set_content_at :: "message list \<Rightarrow> result_position \<Rightarrow> ustr \<Rightarrow> message list" where
  "set_content_at ms p s =
     (case block_at ms p of
        None \<Rightarrow> ms
      | Some b \<Rightarrow> ms[fst p := (ms ! fst p)\<lparr>content :=
          JArr ((the (as_array (content (ms ! fst p))))[snd p := put_content s b])\<rparr>])"

definition block_candidate :: "nat \<Rightarrow> nat \<times> json \<Rightarrow> (result_position \<times> nat) option" where
  "block_candidate mi ib =
     (if is_block ''tool_result'' (snd ib)
      then map_option (\<lambda>c. ((mi, fst ib), length c)) (jstr ''content'' (snd ib)) else None)"

definition tool_result_content_candidates :: "message list \<Rightarrow> (result_position \<times> nat) list" where
  "tool_result_content_candidates ms =
     concat (map (\<lambda>(mi, m). case as_array (content m) of None \<Rightarrow> []
        | Some bs \<Rightarrow> filter_map (block_candidate mi) (enumerate 0 bs)) (enumerate 0 ms))"

subsection \<open>The batch budget (batch.rs)\<close>

definition TOOL_RESULT_BATCH_BUDGET :: nat where "TOOL_RESULT_BATCH_BUDGET = 24000"
definition BATCH_PREVIEW_HEAD :: nat where "BATCH_PREVIEW_HEAD = 1000"
definition BATCH_PREVIEW_TAIL :: nat where "BATCH_PREVIEW_TAIL = 1000"

definition truncate_text :: "ustr \<Rightarrow> nat \<Rightarrow> ustr" where
  "truncate_text s n = take n s"

definition last_chars :: "nat \<Rightarrow> ustr \<Rightarrow> ustr" where
  "last_chars n s = drop (length s - n) s"

definition head_tail_text :: "ustr \<Rightarrow> nat \<Rightarrow> nat \<Rightarrow> ustr" where
  "head_tail_text s head tail =
     (if length s \<le> saturating_add64 head tail then s
      else take head s @ [newline] @ lit ''... ['' @ dec (length s - tail - head) @ lit '' chars truncated from middle] ...''
           @ [newline] @ last_chars tail s)"

definition batch_marker :: "ustr \<Rightarrow> ustr" where
  "batch_marker s = [newline, newline] @ lit ''[tool_result shortened]'' @ [newline] @
     lit ''reason=tool result batch exceeded '' @ dec TOOL_RESULT_BATCH_BUDGET @ lit '' chars'' @ [newline] @
     lit ''original_chars='' @ dec (length s)"

definition shortened_batch_tool_result :: "ustr \<Rightarrow> nat \<Rightarrow> ustr" where
  "shortened_batch_tool_result s max_chars =
     (if max_chars = 0 then []
      else let marker = batch_marker s in
        if max_chars \<le> length marker then truncate_text marker max_chars
        else let budget = max_chars - length marker;
                 head = min BATCH_PREVIEW_HEAD (budget div 2);
                 tail = min BATCH_PREVIEW_TAIL (budget - head) in
          truncate_text (head_tail_text s head tail) budget @ marker)"

definition shorten_candidate :: "result_position \<times> nat \<Rightarrow> message list \<times> nat \<Rightarrow> message list \<times> nat" where
  "shorten_candidate c st =
     (case st of (ms, total_chars) \<Rightarrow>
        if total_chars \<le> TOOL_RESULT_BATCH_BUDGET then st
        else (case content_at ms (fst c) of
           None \<Rightarrow> st
         | Some s \<Rightarrow>
             (let available = TOOL_RESULT_BATCH_BUDGET - (total_chars - snd c);
                  replacement = shortened_batch_tool_result s available in
              (set_content_at ms (fst c) replacement, (total_chars - snd c) + length replacement))))"

definition enforce_tool_result_batch_budget :: "message list \<Rightarrow> message list" where
  "enforce_tool_result_batch_budget ms =
     (let candidates = tool_result_content_candidates ms; total_chars = sum_list (map snd candidates) in
      if total_chars \<le> TOOL_RESULT_BATCH_BUDGET then ms
      else fst (fold shorten_candidate (sort_key (\<lambda>c. - int (snd c)) candidates) (ms, total_chars)))"

subsection \<open>Contents are all that changes\<close>

lemma map_of_put:
  "map_of (map (\<lambda>(k, v). if k = c then (k, x) else (k, v)) kvs) k' =
     (if k' = c then map_option (\<lambda>_. x) (map_of kvs c) else map_of kvs k')"
  by (induction kvs) auto

lemma jget_put: "k \<noteq> ''content'' \<Longrightarrow> jget k (put_content s b) = jget k b"
  by (cases b) (simp_all add: put_content_def map_of_put)

lemma jstr_put [simp]: "k \<noteq> ''content'' \<Longrightarrow> jstr k (put_content s b) = jstr k b"
  by (simp add: jstr_def jget_put)

lemma content_put [simp]: "jstr ''content'' (put_content s b) = map_option (\<lambda>_. s) (jstr ''content'' b)"
proof (cases "jstr ''content'' b")
  case None
  then show ?thesis by (cases b) (simp_all add: put_content_def)
next
  case (Some c)
  then obtain kvs where "b = JObj kvs" "map_of kvs (lit ''content'') = Some (JStr c)"
    by (cases b) (auto simp: jstr_def jget_def split: option.splits bind_splits)
  with Some show ?thesis by (simp add: put_content_def map_of_put jstr_def as_str_def)
qed

lemma is_block_put [simp]: "is_block t (put_content s b) = is_block t b"
  by (simp add: is_block_def)

lemma put_put [simp]: "put_content s (put_content t b) = put_content s b"
proof (cases b)
  case (JObj kvs)
  have "jstr ''content'' b \<noteq> None \<Longrightarrow> jstr ''content'' (put_content t b) \<noteq> None" by simp
  with JObj show ?thesis by (auto simp: put_content_def)
qed (simp_all add: put_content_def)

definition blank_block :: "json \<Rightarrow> json" where
  "blank_block b = (if is_block ''tool_result'' b then put_content [] b else b)"

definition blank_message :: "message \<Rightarrow> message" where
  "blank_message m = (case as_array (content m) of None \<Rightarrow> m | Some bs \<Rightarrow> m\<lparr>content := JArr (map blank_block bs)\<rparr>)"

lemma blank_block_simps [simp]:
  "is_block t (blank_block b) = is_block t b" "k \<noteq> ''content'' \<Longrightarrow> jstr k (blank_block b) = jstr k b"
  by (simp_all add: blank_block_def)

lemma message_blocks_blank [simp]: "message_blocks (blank_message m) = map blank_block (message_blocks m)"
  by (cases "as_array (content m)") (simp_all add: message_blocks_def blank_message_def)

lemma role_blank [simp]: "role (blank_message m) = role m"
  by (simp add: blank_message_def split: option.split)

lemma has_result_blank [simp]: "has_tool_result_block (map blank_block bs) = has_tool_result_block bs"
  by (auto simp: has_tool_result_block_def)

lemma ids_blank [simp]: "tool_use_ids_in_blocks (map blank_block bs) = tool_use_ids_in_blocks bs"
proof -
  have "filter_map (jstr ''id'') (map blank_block cs) = filter_map (jstr ''id'') cs" for cs
    by (induction cs) (auto split: option.split)
  then show ?thesis by (simp add: tool_use_ids_in_blocks_def filter_map filter_map comp_def)
qed

lemma consume_blank [simp]: "consume (map blank_block bs) pending = consume bs pending"
  by (induction bs pending rule: consume.induct) (auto split: option.split)

lemma is_result_blank [simp]: "is_result_message (blank_message m) = is_result_message m"
  by (simp add: is_result_message_def)

lemma paired_blank: "paired (map blank_message ms) pending = paired ms pending"
  by (induction ms pending rule: paired.induct) (auto split: option.split)

lemma strictly_paired_blank: "strictly_paired (map blank_message ms) pending = strictly_paired ms pending"
  by (induction ms pending rule: strictly_paired.induct) (auto split: option.split)

text \<open>Two histories that differ in the contents of results only.\<close>

definition same_but_contents :: "message list \<Rightarrow> message list \<Rightarrow> bool" where
  "same_but_contents ms ms' \<longleftrightarrow> map blank_message ms' = map blank_message ms"

lemma same_but_contents_refl [simp]: "same_but_contents ms ms"
  by (simp add: same_but_contents_def)

lemma same_but_contents_trans: "same_but_contents a b \<Longrightarrow> same_but_contents b c \<Longrightarrow> same_but_contents a c"
  by (simp add: same_but_contents_def)

lemma same_but_contents_paired:
  "same_but_contents ms ms' \<Longrightarrow> paired ms' p = paired ms p"
  "same_but_contents ms ms' \<Longrightarrow> strictly_paired ms' p = strictly_paired ms p"
  unfolding same_but_contents_def by (metis paired_blank) (metis strictly_paired_blank)

lemma block_at_blank: "block_at (map blank_message ms) p = map_option blank_block (block_at ms p)"
  by (auto simp: block_at_def blank_message_def split: option.splits)

lemma same_but_contents_block:
  assumes "same_but_contents ms ms'" "block_at ms p = Some b"
  shows "\<exists>b'. block_at ms' p = Some b' \<and> is_block t b' = is_block t b"
proof -
  have "map_option blank_block (block_at ms' p) = Some (blank_block b)"
    using assms by (metis block_at_blank same_but_contents_def option.simps(9))
  then obtain b' where "block_at ms' p = Some b'" "blank_block b' = blank_block b" by auto
  then show ?thesis by (metis blank_block_simps(1))
qed

lemma blank_put: "is_block ''tool_result'' b \<Longrightarrow> blank_block (put_content s b) = blank_block b"
  by (simp add: blank_block_def)

lemma block_at_Some:
  "block_at ms p = Some b \<longleftrightarrow>
     (\<exists>bs. fst p < length ms \<and> content (ms ! fst p) = JArr bs \<and> snd p < length bs \<and> b = bs ! snd p)"
  by (auto simp: block_at_def split: option.splits)

lemma set_content_same:
  assumes "block_at ms p = Some b" "is_block ''tool_result'' b"
  shows "same_but_contents ms (set_content_at ms p s)"
proof -
  from assms(1) obtain bs where bs: "fst p < length ms" "content (ms ! fst p) = JArr bs" "snd p < length bs" "b = bs ! snd p"
    by (auto simp: block_at_Some)
  have "map blank_block (bs[snd p := put_content s b]) = map blank_block bs"
    using bs(3,4) assms(2) by (simp add: map_update blank_put) (metis list_update_id map_update)
  then have "blank_message ((ms ! fst p)\<lparr>content := JArr (bs[snd p := put_content s b])\<rparr>) = blank_message (ms ! fst p)"
    using bs(2) by (simp add: blank_message_def)
  then show ?thesis using assms(1) bs(1,2)
    by (simp add: same_but_contents_def set_content_at_def map_update) (metis list_update_id map_update)
qed

lemma content_at_set:
  "content_at (set_content_at ms p s) q = (if q = p \<and> content_at ms p \<noteq> None then Some s else content_at ms q)"
proof (cases "block_at ms p")
  case None
  then show ?thesis by (simp add: set_content_at_def content_at_def)
next
  case (Some b)
  then obtain bs where bs: "fst p < length ms" "content (ms ! fst p) = JArr bs" "snd p < length bs" "b = bs ! snd p"
    by (auto simp: block_at_Some)
  have eq: "set_content_at ms p s = ms[fst p := (ms ! fst p)\<lparr>content := JArr (bs[snd p := put_content s b])\<rparr>]"
    using Some bs(2) by (simp add: set_content_at_def)
  have blk: "block_at (set_content_at ms p s) q = (if q = p then Some (put_content s b) else block_at ms q)"
    using bs by (auto simp: eq block_at_def nth_list_update prod_eq_iff split: option.splits)
  have new: "content_at (set_content_at ms p s) q = (if q = p then map_option (\<lambda>_. s) (jstr ''content'' b) else content_at ms q)"
    unfolding content_at_def blk by simp
  have old: "content_at ms p = jstr ''content'' b" unfolding content_at_def Some by simp
  show ?thesis unfolding new old by (cases "jstr ''content'' b") (use old in auto)
qed

lemma set_content_length [simp]: "length (set_content_at ms p s) = length ms"
  by (simp add: set_content_at_def split: option.split)

subsection \<open>The candidates are the results of the history\<close>

definition message_candidates :: "nat \<Rightarrow> message \<Rightarrow> (result_position \<times> nat) list" where
  "message_candidates mi m = (case as_array (content m) of None \<Rightarrow> []
     | Some bs \<Rightarrow> filter_map (block_candidate mi) (enumerate 0 bs))"

lemma candidates_alt:
  "tool_result_content_candidates ms = concat (map (\<lambda>(mi, m). message_candidates mi m) (enumerate 0 ms))"
  by (simp add: tool_result_content_candidates_def message_candidates_def)

lemma filter_map_set: "y \<in> set (filter_map f xs) \<longleftrightarrow> (\<exists>x \<in> set xs. f x = Some y)"
  by (induction xs) (auto split: option.split)

text \<open>Scanning the blocks of all messages finds each position at most once.\<close>

definition scan_blocks :: "(nat \<Rightarrow> message \<Rightarrow> nat \<times> json \<Rightarrow> 'c option) \<Rightarrow> nat \<Rightarrow> message \<Rightarrow> 'c list" where
  "scan_blocks f mi m = (case as_array (content m) of None \<Rightarrow> [] | Some bs \<Rightarrow> filter_map (f mi m) (enumerate 0 bs))"

definition scan_messages :: "(nat \<Rightarrow> message \<Rightarrow> nat \<times> json \<Rightarrow> 'c option) \<Rightarrow> nat \<Rightarrow> message list \<Rightarrow> 'c list" where
  "scan_messages f n ms = concat (map (\<lambda>(mi, m). scan_blocks f mi m) (enumerate n ms))"

lemma scan_blocks_positions:
  assumes "\<And>k b c. f mi m (k, b) = Some c \<Longrightarrow> pos c = (mi, k)"
  shows "distinct (map pos (scan_blocks f mi m)) \<and> (\<forall>p \<in> set (map pos (scan_blocks f mi m)). fst p = mi)"
proof -
  have "distinct (map pos (filter_map (f mi m) (enumerate k bs))) \<and>
    (\<forall>p \<in> set (map pos (filter_map (f mi m) (enumerate k bs))). fst p = mi \<and> k \<le> snd p)" for k bs
  proof (induction bs arbitrary: k)
    case (Cons b bs)
    show ?case
    proof (cases "f mi m (k, b)")
      case None
      with Cons [of "Suc k"] show ?thesis by (simp add: Suc_le_eq) (meson less_imp_le)
    next
      case (Some c)
      let ?Y = "map pos (filter_map (f mi m) (enumerate (Suc k) bs))"
      have pos: "pos c = (mi, k)" by (rule assms [OF Some])
      have Y: "distinct ?Y" "\<forall>p \<in> set ?Y. fst p = mi \<and> Suc k \<le> snd p" using Cons [of "Suc k"] by blast+
      have "map pos (filter_map (f mi m) (enumerate k (b # bs))) = (mi, k) # ?Y" using Some pos by simp
      moreover have "(mi, k) \<notin> set ?Y" using Y(2) by fastforce
      moreover have "\<forall>p \<in> set ((mi, k) # ?Y). fst p = mi \<and> k \<le> snd p" using Y(2) Suc_leD by auto
      ultimately show ?thesis using Y(1) by (simp only: distinct.simps) blast
    qed
  qed simp
  then show ?thesis by (cases "as_array (content m)") (auto simp: scan_blocks_def)
qed

lemma scan_messages_positions:
  assumes "\<And>mi m k b c. f mi m (k, b) = Some c \<Longrightarrow> pos c = (mi, k)"
  shows "distinct (map pos (scan_messages f n ms)) \<and> (\<forall>p \<in> set (map pos (scan_messages f n ms)). n \<le> fst p)"
proof (induction ms arbitrary: n)
  case (Cons m ms)
  let ?X = "map pos (scan_blocks f n m)" and ?Y = "map pos (scan_messages f (Suc n) ms)"
  have X: "distinct ?X" "\<forall>p \<in> set ?X. fst p = n" 
  proof -
    have "distinct ?X \<and> (\<forall>p \<in> set ?X. fst p = n)" by (rule scan_blocks_positions) (rule assms)
    then show "distinct ?X" "\<forall>p \<in> set ?X. fst p = n" by blast+
  qed
  have Y: "distinct ?Y" "\<forall>p \<in> set ?Y. Suc n \<le> fst p" using Cons by blast+
  have "map pos (scan_messages f n (m # ms)) = ?X @ ?Y" by (simp add: scan_messages_def)
  moreover have "set ?X \<inter> set ?Y = {}" using X(2) Y(2) by (metis Suc_n_not_le_n disjoint_iff)
  moreover have "\<forall>p \<in> set (?X @ ?Y). n \<le> fst p" using X(2) Y(2) by (metis Suc_leD Un_iff order_refl set_append)
  ultimately show ?case using X(1) Y(1) by (simp only: distinct_append)
qed (simp add: scan_messages_def)

lemma scan_messages_set:
  "c \<in> set (scan_messages f 0 ms) \<longleftrightarrow>
     (\<exists>mi bi b. block_at ms (mi, bi) = Some b \<and> f mi (ms ! mi) (bi, b) = Some c)"
proof -
  have "c \<in> set (scan_messages f 0 ms) \<longleftrightarrow> (\<exists>mi < length ms. c \<in> set (scan_blocks f mi (ms ! mi)))"
    by (force simp: scan_messages_def in_set_enumerate_eq)
  moreover have "c \<in> set (scan_blocks f mi m) \<longleftrightarrow>
    (\<exists>bs bi. content m = JArr bs \<and> bi < length bs \<and> f mi m (bi, bs ! bi) = Some c)" for mi m
    by (cases "as_array (content m)") (auto simp: scan_blocks_def filter_map_set in_set_enumerate_eq)
  ultimately show ?thesis by (auto simp: block_at_Some)
qed

lemma candidates_scan: "tool_result_content_candidates ms = scan_messages (\<lambda>mi _. block_candidate mi) 0 ms"
  by (simp add: candidates_alt scan_messages_def scan_blocks_def message_candidates_def)

lemma candidates_distinct: "distinct (map fst (tool_result_content_candidates ms))"
proof -
  have "distinct (map fst (scan_messages (\<lambda>mi _. block_candidate mi) 0 ms))"
    by (rule conjunct1 [OF scan_messages_positions]) (auto simp: block_candidate_def split: if_splits)
  then show ?thesis by (simp add: candidates_scan)
qed

lemma candidate_valid:
  assumes "(p, n) \<in> set (tool_result_content_candidates ms)"
  shows "\<exists>b c. block_at ms p = Some b \<and> is_block ''tool_result'' b \<and> content_at ms p = Some c \<and> n = length c"
proof -
  from assms obtain mi bi b where b: "block_at ms (mi, bi) = Some b" "block_candidate mi (bi, b) = Some (p, n)"
    by (auto simp: candidates_scan scan_messages_set)
  then obtain c where "is_block ''tool_result'' b" "jstr ''content'' b = Some c" "p = (mi, bi)" "n = length c"
    by (auto simp: block_candidate_def split: if_splits)
  with b(1) show ?thesis by (simp add: content_at_def)
qed

lemma block_candidate_blank:
  "map_option fst (block_candidate mi (k, blank_block b)) = map_option fst (block_candidate mi (k, b))"
  by (simp add: block_candidate_def blank_block_def option.map_comp comp_def)

lemma block_candidates_blank:
  "map fst (filter_map (block_candidate mi) (enumerate k (map blank_block bs))) =
   map fst (filter_map (block_candidate mi) (enumerate k bs))"
proof (induction bs arbitrary: k)
  case (Cons b bs)
  show ?case using Cons [of "Suc k"] block_candidate_blank [of mi k b]
    by (cases "block_candidate mi (k, b)"; cases "block_candidate mi (k, blank_block b)") simp_all
qed simp

lemma candidate_positions_blank:
  "map fst (tool_result_content_candidates (map blank_message ms)) = map fst (tool_result_content_candidates ms)"
proof -
  have "map fst (message_candidates n (blank_message m)) = map fst (message_candidates n m)" for n m
    by (cases "as_array (content m)") (simp_all add: message_candidates_def blank_message_def block_candidates_blank)
  then have "map fst (concat (map (\<lambda>(mi, m). message_candidates mi m) (enumerate n (map blank_message ms)))) =
     map fst (concat (map (\<lambda>(mi, m). message_candidates mi m) (enumerate n ms)))" for n
    by (induction ms arbitrary: n) auto
  then show ?thesis by (simp add: candidates_alt)
qed

definition result_chars :: "message list \<Rightarrow> result_position \<Rightarrow> nat" where
  "result_chars ms p = (case content_at ms p of None \<Rightarrow> 0 | Some c \<Rightarrow> length c)"

definition total_chars :: "message list \<Rightarrow> nat" where
  "total_chars ms = sum_list (map snd (tool_result_content_candidates ms))"

lemma candidate_chars: "c \<in> set (tool_result_content_candidates ms) \<Longrightarrow> snd c = result_chars ms (fst c)"
proof -
  assume "c \<in> set (tool_result_content_candidates ms)"
  then obtain s where "content_at ms (fst c) = Some s" "snd c = length s"
    using candidate_valid [of "fst c" "snd c" ms] by auto
  then show ?thesis by (simp add: result_chars_def)
qed

lemma sum_list_point:
  fixes g :: "'p \<Rightarrow> nat"
  assumes "distinct (map pos cs)" "c \<in> set cs"
  shows "sum_list (map (\<lambda>d. (g(pos c := x)) (pos d)) cs) + g (pos c) = sum_list (map (\<lambda>d. g (pos d)) cs) + x"
proof -
  have eq: "sum_list (map (\<lambda>d. h (pos d)) cs) = (\<Sum>p \<in> set (map pos cs). h p)" for h :: "'p \<Rightarrow> nat"
    using assms(1) sum_list_distinct_conv_sum_set [of "map pos cs" h] by (simp add: comp_def)
  have mem: "pos c \<in> set (map pos cs)" using assms(2) by simp
  have rest: "(\<Sum>p \<in> set (map pos cs) - {pos c}. (g(pos c := x)) p) = (\<Sum>p \<in> set (map pos cs) - {pos c}. g p)"
    by (rule sum.cong) auto
  show ?thesis
    using sum.remove [OF finite_set mem, of g] sum.remove [OF finite_set mem, of "g(pos c := x)"] rest
    by (simp only: eq) simp
qed

lemma result_chars_set:
  "content_at ms p = Some c \<Longrightarrow> result_chars (set_content_at ms p s) = (result_chars ms)(p := length s)"
  by (auto simp: result_chars_def content_at_set)

lemma total_chars_positions:
  assumes "same_but_contents ms ms'"
  shows "total_chars ms' = sum_list (map (\<lambda>d. result_chars ms' (fst d)) (tool_result_content_candidates ms))"
proof -
  have pos: "map fst (tool_result_content_candidates ms') = map fst (tool_result_content_candidates ms)"
    using assms by (metis same_but_contents_def candidate_positions_blank)
  have "map snd (tool_result_content_candidates ms') = map (result_chars ms') (map fst (tool_result_content_candidates ms'))"
    by (simp add: candidate_chars)
  also have "\<dots> = map (\<lambda>d. result_chars ms' (fst d)) (tool_result_content_candidates ms)"
    unfolding pos by simp
  finally show ?thesis unfolding total_chars_def by (rule arg_cong)
qed

text \<open>Rewriting one result changes the total by the difference of its lengths.\<close>

lemma total_chars_set:
  assumes same: "same_but_contents ms ms'" and c: "c \<in> set (tool_result_content_candidates ms)"
    and s: "content_at ms' (fst c) = Some s"
  shows "same_but_contents ms (set_content_at ms' (fst c) r)"
    and "total_chars (set_content_at ms' (fst c) r) + length s = total_chars ms' + length r"
proof -
  obtain b0 where "block_at ms (fst c) = Some b0" "is_block ''tool_result'' b0"
    using candidate_valid [of "fst c" "snd c" ms] c by auto
  then obtain b where b: "block_at ms' (fst c) = Some b" "is_block ''tool_result'' b"
    using same_but_contents_block [OF same] by metis
  show same': "same_but_contents ms (set_content_at ms' (fst c) r)"
    by (rule same_but_contents_trans [OF same set_content_same [OF b]])
  have "result_chars ms' (fst c) = length s" by (simp add: result_chars_def s)
  with sum_list_point [OF candidates_distinct c, of "result_chars ms'" "length r"]
  show "total_chars (set_content_at ms' (fst c) r) + length s = total_chars ms' + length r"
    by (simp only: total_chars_positions [OF same] total_chars_positions [OF same'] result_chars_set [OF s])
qed

subsection \<open>A batch fits its budget\<close>

lemma shortened_length: "length (shortened_batch_tool_result s n) \<le> n"
proof -
  have "min x (n - k) + k \<le> n" if "\<not> n \<le> k" for x k :: nat using that by simp
  then show ?thesis by (simp add: shortened_batch_tool_result_def truncate_text_def Let_def)
qed

definition batch_inv :: "message list \<Rightarrow> (result_position \<times> nat) list \<Rightarrow> message list \<times> nat \<Rightarrow> bool" where
  "batch_inv ms rest st \<longleftrightarrow>
     same_but_contents ms (fst st) \<and> snd st = total_chars (fst st) \<and>
     distinct (map fst rest) \<and> (\<forall>c \<in> set rest. c \<in> set (tool_result_content_candidates ms) \<and>
        (\<exists>s. content_at (fst st) (fst c) = Some s \<and> snd c = length s)) \<and>
     (snd st \<le> TOOL_RESULT_BATCH_BUDGET \<or> snd st = sum_list (map snd rest))"

lemma shorten_candidate_inv:
  assumes inv: "batch_inv ms (c # rest) st"
  shows "batch_inv ms rest (shorten_candidate c st)"
proof (cases "snd st \<le> TOOL_RESULT_BATCH_BUDGET")
  case True
  then have "shorten_candidate c st = st" by (cases st) (simp add: shorten_candidate_def)
  with inv True show ?thesis by (simp add: batch_inv_def)
next
  case False
  obtain ms' t where st: "st = (ms', t)" by fastforce
  from inv st obtain s where same: "same_but_contents ms ms'" and t: "t = total_chars ms'"
    and c: "c \<in> set (tool_result_content_candidates ms)" and s: "content_at ms' (fst c) = Some s" "snd c = length s"
    and dist: "distinct (map fst (c # rest))" and tot: "t = snd c + sum_list (map snd rest)"
    and others: "\<forall>d \<in> set rest. d \<in> set (tool_result_content_candidates ms) \<and>
      (\<exists>s. content_at ms' (fst d) = Some s \<and> snd d = length s)"
    using False by (auto simp: batch_inv_def)
  define r where "r = shortened_batch_tool_result s (TOOL_RESULT_BATCH_BUDGET - (t - snd c))"
  have step: "shorten_candidate c st = (set_content_at ms' (fst c) r, (t - snd c) + length r)"
    using False s(1) by (simp add: st shorten_candidate_def r_def Let_def)
  note same' = total_chars_set(1) [OF same c s(1), of r]
  have tot': "total_chars (set_content_at ms' (fst c) r) = (t - snd c) + length r"
    using total_chars_set(2) [OF same c s(1), of r] s(2) t tot by linarith
  have rest: "content_at (set_content_at ms' (fst c) r) (fst d) = content_at ms' (fst d)" if "d \<in> set rest" for d
  proof -
    from dist that have "fst d \<noteq> fst c" by (metis distinct.simps(2) image_eqI list.set_map list.simps(9))
    then show ?thesis by (simp add: content_at_set)
  qed
  have "length r \<le> TOOL_RESULT_BATCH_BUDGET - (t - snd c)" unfolding r_def by (rule shortened_length)
  then have "(t - snd c) + length r \<le> TOOL_RESULT_BATCH_BUDGET \<or> (t - snd c) + length r = sum_list (map snd rest)"
    using tot by linarith
  with same' tot' dist others rest show ?thesis by (simp add: batch_inv_def step)
qed

lemma shorten_all_inv: "batch_inv ms cs st \<Longrightarrow> batch_inv ms [] (fold shorten_candidate cs st)"
proof (induction cs arbitrary: st)
  case (Cons c cs)
  from Cons.IH [OF shorten_candidate_inv [OF Cons.prems]] show ?case by simp
qed simp

lemma batch_start:
  "batch_inv ms (sort_key (\<lambda>c. - int (snd c)) (tool_result_content_candidates ms)) (ms, total_chars ms)"
proof -
  let ?cs = "tool_result_content_candidates ms"
  let ?sorted = "sort_key (\<lambda>c. - int (snd c)) ?cs"
  have m: "mset (map f ?sorted) = mset (map f ?cs)" for f :: "result_position \<times> nat \<Rightarrow> 'x"
    by (simp only: mset_map mset_sort)
  have "sum_list (map snd ?sorted) = total_chars ms"
    unfolding total_chars_def using arg_cong [OF m [of snd], of sum_mset] by (simp only: sum_mset_sum_list)
  moreover have "distinct (map fst ?sorted)"
    using candidates_distinct [of ms] mset_eq_imp_distinct_iff [OF m [of fst]] by simp
  moreover have "\<exists>s. content_at ms (fst c) = Some s \<and> snd c = length s"
    if "c \<in> set (tool_result_content_candidates ms)" for c
    using candidate_valid [of "fst c" "snd c" ms] that by auto
  ultimately show ?thesis by (auto simp: batch_inv_def)
qed

lemma enforced_inv: "batch_inv ms [] (enforce_tool_result_batch_budget ms, total_chars (enforce_tool_result_batch_budget ms))"
proof (cases "total_chars ms \<le> TOOL_RESULT_BATCH_BUDGET")
  case True
  then show ?thesis by (simp add: enforce_tool_result_batch_budget_def total_chars_def batch_inv_def Let_def)
next
  case False
  let ?st = "fold shorten_candidate (sort_key (\<lambda>c. - int (snd c)) (tool_result_content_candidates ms)) (ms, total_chars ms)"
  have "enforce_tool_result_batch_budget ms = fst ?st"
    using False by (simp add: enforce_tool_result_batch_budget_def total_chars_def Let_def)
  moreover from shorten_all_inv [OF batch_start] have inv: "batch_inv ms [] ?st" .
  moreover from inv have "?st = (fst ?st, total_chars (fst ?st))" by (simp add: batch_inv_def prod_eq_iff)
  ultimately show ?thesis by metis
qed


text \<open>Shortening a batch leaves everything but the texts of results as it was, the tool protocol included.\<close>

theorem batch_keeps_protocol:
  "same_but_contents ms (enforce_tool_result_batch_budget ms) \<and>
   paired (enforce_tool_result_batch_budget ms) p = paired ms p \<and>
   strictly_paired (enforce_tool_result_batch_budget ms) p = strictly_paired ms p"
  using enforced_inv [of ms] same_but_contents_paired by (auto simp: batch_inv_def)

subsection \<open>Projecting a history (projection.rs)\<close>

definition MICROCOMPACT_TOOL_RESULT_BUDGET :: nat where "MICROCOMPACT_TOOL_RESULT_BUDGET = 48000"
definition MICROCOMPACT_KEEP_RECENT_TOOL_RESULTS :: nat where "MICROCOMPACT_KEEP_RECENT_TOOL_RESULTS = 6"
definition ACTIVE_TURN_SUMMARY_CHARS :: nat where "ACTIVE_TURN_SUMMARY_CHARS = 1600"
definition PRIOR_TURN_REFERENCE_CHARS :: nat where "PRIOR_TURN_REFERENCE_CHARS = 520"
definition MINIMAL_REFERENCE_CHARS :: nat where "MINIMAL_REFERENCE_CHARS = 280"
definition MICROCOMPACT_CLEARED_MESSAGE :: ustr where
  "MICROCOMPACT_CLEARED_MESSAGE = lit ''[Old tool result content cleared]''"

record projection_policy =
  pp_enabled :: bool
  pp_budget_chars :: nat
  pp_keep_recent :: nat
  pp_cache_edit_eligible :: bool

definition default_projection_policy :: projection_policy where
  "default_projection_policy = \<lparr>pp_enabled = True, pp_budget_chars = MICROCOMPACT_TOOL_RESULT_BUDGET,
     pp_keep_recent = MICROCOMPACT_KEEP_RECENT_TOOL_RESULTS, pp_cache_edit_eligible = False\<rparr>"

definition for_provider_cache_edit :: "bool \<Rightarrow> projection_policy \<Rightarrow> projection_policy" where
  "for_provider_cache_edit supported p = p\<lparr>pp_cache_edit_eligible := supported\<rparr>"

record projection_report =
  pr_original_chars :: nat
  pr_projected_chars :: nat
  pr_cleared_results :: nat
  pr_summarized_results :: nat
  pr_reference_only_results :: nat
  pr_active_turn_kept_results :: nat
  pr_kept_results :: nat
  pr_cache_edit_eligible :: bool
  pr_cache_edit_applied :: bool

record tool_use_metadata =
  tu_name :: ustr
  tu_input :: json

record projection_candidate =
  pc_position :: result_position
  pc_tool_use_id :: ustr
  pc_tool_name :: ustr
  pc_tool_input :: json
  pc_content :: ustr
  pc_active_turn :: bool

definition pc_chars :: "projection_candidate \<Rightarrow> nat" where
  "pc_chars c = length (pc_content c)"

datatype projection_state = Original | SemanticSummary | ReferenceOnly

definition is_microcompactable_tool :: "ustr \<Rightarrow> bool" where
  "is_microcompactable_tool name \<longleftrightarrow> name \<in> set (map lit [''bash'', ''read_file'', ''grep'', ''glob'', ''web_search'',
     ''web_fetch'', ''apply_patch'', ''write_file'', ''replace'', ''replace_lines''])"

text \<open>The hash map of tool uses as an association list, latest entry first.\<close>

type_synonym tool_uses = "(ustr \<times> tool_use_metadata) list"

definition note_tool_use :: "json \<Rightarrow> tool_uses \<Rightarrow> tool_uses" where
  "note_tool_use b uses =
     (if \<not> is_block ''tool_use'' b then uses
      else (case (jstr ''id'' b, jstr ''name'' b) of
         (Some i, Some name) \<Rightarrow>
           if is_microcompactable_tool name
           then (i, \<lparr>tu_name = name, tu_input = (case jget ''input'' b of Some v \<Rightarrow> v | None \<Rightarrow> JNull)\<rparr>) # uses
           else uses
       | _ \<Rightarrow> uses))"

definition compactable_tool_uses :: "message list \<Rightarrow> tool_uses" where
  "compactable_tool_uses ms =
     fold (\<lambda>m uses. if role m = lit ''assistant'' then fold note_tool_use (message_blocks m) uses else uses) ms []"

definition message_contains_text_request :: "message \<Rightarrow> bool" where
  "message_contains_text_request m \<longleftrightarrow>
     (case as_str (content m) of Some t \<Rightarrow> trim t \<noteq> [] | None \<Rightarrow> False) \<or>
     list_ex (\<lambda>i. is_block ''text'' i \<and> (case jstr ''text'' i of Some t \<Rightarrow> trim t \<noteq> [] | None \<Rightarrow> False)) (message_blocks m)"

definition latest_user_text_message_index :: "message list \<Rightarrow> nat option" where
  "latest_user_text_message_index ms =
     map_option fst (find (\<lambda>(i, m). role m = lit ''user'' \<and> message_contains_text_request m) (rev (enumerate 0 ms)))"

definition projection_candidate_of ::
  "tool_uses \<Rightarrow> nat option \<Rightarrow> nat \<Rightarrow> message \<Rightarrow> nat \<times> json \<Rightarrow> projection_candidate option" where
  "projection_candidate_of uses active_start mi m ib =
     (if role m = lit ''user'' \<and> is_block ''tool_result'' (snd ib) then
        Option.bind (jstr ''tool_use_id'' (snd ib)) (\<lambda>i.
        Option.bind (map_of uses i) (\<lambda>md.
        map_option (\<lambda>c. \<lparr>pc_position = (mi, fst ib), pc_tool_use_id = i, pc_tool_name = tu_name md,
            pc_tool_input = tu_input md, pc_content = c,
            pc_active_turn = (case active_start of None \<Rightarrow> True | Some start \<Rightarrow> start < mi)\<rparr>)
          (jstr ''content'' (snd ib))))
      else None)"

definition projection_candidates ::
  "message list \<Rightarrow> tool_uses \<Rightarrow> nat option \<Rightarrow> projection_candidate list" where
  "projection_candidates ms uses active_start = scan_messages (projection_candidate_of uses active_start) 0 ms"

subsection \<open>The replacement texts\<close>

definition head_tail :: "ustr \<Rightarrow> nat \<Rightarrow> nat \<Rightarrow> ustr" where
  "head_tail s head tail =
     (if length s \<le> saturating_add64 head tail then s
      else take head s @ [newline] @ lit ''... ['' @ dec (length s - (head + tail)) @ lit '' chars omitted] ...'' @ [newline]
           @ last_chars tail s)"

definition truncate_chars :: "ustr \<Rightarrow> nat \<Rightarrow> ustr" where
  "truncate_chars s n = take n s"

definition first_evidence_line :: "ustr \<Rightarrow> ustr option" where
  "first_evidence_line s =
     find (\<lambda>l. l \<noteq> [] \<and> l \<noteq> MICROCOMPACT_CLEARED_MESSAGE \<and> \<not> starts_with l (lit ''reason='')) (map trim (lines s))"

definition full_result_line :: "ustr \<Rightarrow> ustr option" where
  "full_result_line s =
     find (\<lambda>l. starts_with l (lit ''full result:'') \<or> starts_with l (lit ''full_result_path='')) (lines s)"

definition opt_line :: "ustr option \<Rightarrow> ustr list" where
  "opt_line x = (case x of None \<Rightarrow> [] | Some l \<Rightarrow> [l])"

definition push_input_line :: "(json \<Rightarrow> ustr) \<Rightarrow> json \<Rightarrow> ustr list" where
  "push_input_line show_json v =
     (if is_null v then [] else [lit ''input='' @ truncate_chars (show_json v) 360])"

definition reference_head :: "(json \<Rightarrow> ustr) \<Rightarrow> string \<Rightarrow> projection_candidate \<Rightarrow> ustr list" where
  "reference_head show_json title c =
     [lit title, lit ''tool='' @ pc_tool_name c, lit ''tool_use_id='' @ pc_tool_use_id c] @
     push_input_line show_json (pc_tool_input c)"

definition active_turn_semantic_summary :: "(json \<Rightarrow> ustr) \<Rightarrow> projection_candidate \<Rightarrow> ustr" where
  "active_turn_semantic_summary show_json c =
     truncate_chars (join (reference_head show_json ''[Tool result summary: active turn]'' c @
       opt_line (full_result_line (pc_content c)) @ [lit ''evidence:'', head_tail (pc_content c) 650 650]) [newline])
     ACTIVE_TURN_SUMMARY_CHARS"

definition prior_turn_reference :: "(json \<Rightarrow> ustr) \<Rightarrow> projection_candidate \<Rightarrow> ustr" where
  "prior_turn_reference show_json c =
     truncate_chars (join (reference_head show_json ''[Tool result reference: prior turn]'' c @
       opt_line (map_option (\<lambda>l. lit ''summary='' @ truncate_chars l 180) (first_evidence_line (pc_content c))) @
       opt_line (full_result_line (pc_content c))) [newline])
     PRIOR_TURN_REFERENCE_CHARS"

definition minimal_reference :: "(json \<Rightarrow> ustr) \<Rightarrow> projection_candidate \<Rightarrow> ustr" where
  "minimal_reference show_json c =
     truncate_chars (join (reference_head show_json ''[Tool result reference]'' c @
       opt_line (full_result_line (pc_content c))) [newline]) MINIMAL_REFERENCE_CHARS"

subsection \<open>The passes\<close>

record projection_run =
  run_messages :: "message list"
  run_chars :: nat
  run_states :: "projection_state list"

definition replace_candidate ::
  "projection_candidate \<Rightarrow> nat \<Rightarrow> ustr \<Rightarrow> projection_state \<Rightarrow> projection_run \<Rightarrow> projection_run" where
  "replace_candidate c index replacement new_state r =
     (case content_at (run_messages r) (pc_position c) of
        None \<Rightarrow> r
      | Some current \<Rightarrow>
          if length current \<le> length replacement then r
          else r\<lparr>run_chars := (run_chars r - length current) + length replacement,
                 run_messages := set_content_at (run_messages r) (pc_position c) replacement,
                 run_states := (run_states r)[index := new_state]\<rparr>)"

text \<open>One of the three loops: \<open>eligible\<close> is its condition on a candidate.\<close>

definition projection_pass ::
  "nat \<Rightarrow> (nat \<Rightarrow> projection_candidate \<Rightarrow> bool) \<Rightarrow> (projection_candidate \<Rightarrow> ustr) \<Rightarrow> projection_state \<Rightarrow>
   projection_candidate list \<Rightarrow> projection_run \<Rightarrow> projection_run" where
  "projection_pass budget eligible rendering new_state cs r =
     fold (\<lambda>(i, c) r. if run_chars r \<le> budget then r
                     else if eligible i c then replace_candidate c i (rendering c) new_state r else r)
       (enumerate 0 cs) r"

definition projection_report_of ::
  "projection_candidate list \<Rightarrow> projection_state list \<Rightarrow> nat \<Rightarrow> nat \<Rightarrow> nat \<Rightarrow> projection_policy \<Rightarrow> projection_report" where
  "projection_report_of cs states original projected cleared policy =
     \<lparr>pr_original_chars = original, pr_projected_chars = projected, pr_cleared_results = cleared,
      pr_summarized_results = length (filter (\<lambda>st. st = SemanticSummary) states),
      pr_reference_only_results = length (filter (\<lambda>st. st = ReferenceOnly) states),
      pr_active_turn_kept_results = length (filter (\<lambda>(c, st). pc_active_turn c \<and> st = Original) (zip cs states)),
      pr_kept_results = length (filter (\<lambda>st. st = Original) states),
      pr_cache_edit_eligible = pp_cache_edit_eligible policy, pr_cache_edit_applied = False\<rparr>"

definition empty_projection_report :: "projection_policy \<Rightarrow> projection_report" where
  "empty_projection_report policy =
     \<lparr>pr_original_chars = 0, pr_projected_chars = 0, pr_cleared_results = 0, pr_summarized_results = 0,
      pr_reference_only_results = 0, pr_active_turn_kept_results = 0, pr_kept_results = 0,
      pr_cache_edit_eligible = pp_cache_edit_eligible policy, pr_cache_edit_applied = False\<rparr>"

text \<open>The indices that stay as they are: the last \<open>keep_recent\<close> of \<open>n\<close>, at least one.\<close>

definition kept_index :: "projection_policy \<Rightarrow> nat \<Rightarrow> nat \<Rightarrow> bool" where
  "kept_index policy n i \<longleftrightarrow> n - max 1 (pp_keep_recent policy) \<le> i"

definition run_projection ::
  "(json \<Rightarrow> ustr) \<Rightarrow> projection_policy \<Rightarrow> projection_candidate list \<Rightarrow> projection_run \<Rightarrow> projection_run" where
  "run_projection show_json policy cs r =
     (let kept = kept_index policy (length cs); budget = pp_budget_chars policy in
      projection_pass budget (\<lambda>i c. \<not> kept i) (minimal_reference show_json) ReferenceOnly cs
     (projection_pass budget (\<lambda>i c. pc_active_turn c \<and> \<not> kept i) (active_turn_semantic_summary show_json) SemanticSummary cs
     (projection_pass budget (\<lambda>i c. \<not> pc_active_turn c \<and> \<not> kept i) (prior_turn_reference show_json) ReferenceOnly cs r)))"

definition project_tool_results_for_context ::
  "(json \<Rightarrow> ustr) \<Rightarrow> message list \<Rightarrow> projection_policy \<Rightarrow> message list \<times> projection_report" where
  "project_tool_results_for_context show_json ms policy =
     (if \<not> pp_enabled policy \<or> pp_budget_chars policy = 0 then (ms, empty_projection_report policy)
      else let uses = compactable_tool_uses ms in
        if uses = [] then (ms, empty_projection_report policy)
        else let cs = projection_candidates ms uses (latest_user_text_message_index ms);
                 original = sum_list (map pc_chars cs);
                 cleared = length (filter (\<lambda>c. contains_str (pc_content c) MICROCOMPACT_CLEARED_MESSAGE) cs);
                 states = replicate (length cs) Original in
          if original \<le> pp_budget_chars policy
          then (ms, projection_report_of cs states original original cleared policy)
          else let r = run_projection show_json policy cs
                     \<lparr>run_messages = ms, run_chars = original, run_states = states\<rparr> in
            (run_messages r, projection_report_of cs (run_states r) original (run_chars r) cleared policy))"

subsection \<open>A projection only shortens old results\<close>

definition candidates_ok :: "message list \<Rightarrow> projection_candidate list \<Rightarrow> bool" where
  "candidates_ok ms cs \<longleftrightarrow> distinct (map pc_position cs) \<and>
     (\<forall>c \<in> set cs. (pc_position c, pc_chars c) \<in> set (tool_result_content_candidates ms))"

lemma projection_candidates_ok: "candidates_ok ms (projection_candidates ms uses start)"
proof -
  have at: "c \<in> set (projection_candidates ms uses start) \<Longrightarrow> (pc_position c, pc_chars c) \<in> set (tool_result_content_candidates ms)" for c
    by (fastforce simp: projection_candidates_def candidates_scan scan_messages_set projection_candidate_of_def
        block_candidate_def pc_chars_def bind_eq_Some_conv split: if_splits)
  have "distinct (map pc_position (scan_messages (projection_candidate_of uses start) 0 ms))"
    by (rule conjunct1 [OF scan_messages_positions])
      (auto simp: projection_candidate_of_def bind_eq_Some_conv split: if_splits)
  with at show ?thesis by (simp add: candidates_ok_def projection_candidates_def)
qed

definition candidate_total :: "projection_candidate list \<Rightarrow> message list \<Rightarrow> nat" where
  "candidate_total cs ms = sum_list (map (\<lambda>c. result_chars ms (pc_position c)) cs)"

definition shortened_at :: "(nat \<Rightarrow> bool) \<Rightarrow> projection_candidate list \<Rightarrow> message list \<Rightarrow> message list \<Rightarrow> result_position \<Rightarrow> bool" where
  "shortened_at kept cs ms ms' p \<longleftrightarrow>
     (\<exists>i < length cs. \<not> kept i \<and> pc_position (cs ! i) = p) \<and> result_chars ms' p < result_chars ms p"

definition projection_inv ::
  "message list \<Rightarrow> projection_candidate list \<Rightarrow> (nat \<Rightarrow> bool) \<Rightarrow> projection_run \<Rightarrow> bool" where
  "projection_inv ms cs kept r \<longleftrightarrow>
     same_but_contents ms (run_messages r) \<and> run_chars r = candidate_total cs (run_messages r) \<and>
     total_chars (run_messages r) + candidate_total cs ms = total_chars ms + run_chars r \<and>
     (\<forall>p. content_at (run_messages r) p = content_at ms p \<or> shortened_at kept cs ms (run_messages r) p)"

lemma replace_candidate_inv:
  assumes ok: "candidates_ok ms cs" and inv: "projection_inv ms cs kept r" and i: "i < length cs" "\<not> kept i"
  shows "projection_inv ms cs kept (replace_candidate (cs ! i) j t st r)"
proof (cases "content_at (run_messages r) (pc_position (cs ! i))")
  case None
  then show ?thesis using inv by (simp add: replace_candidate_def)
next
  case (Some s)
  let ?c = "cs ! i" and ?ms = "run_messages r"
  show ?thesis
  proof (cases "length s \<le> length t")
    case True
    then show ?thesis using inv Some by (simp add: replace_candidate_def)
  next
    case False
    define ms' where "ms' = set_content_at ?ms (pc_position ?c) t"
    have same: "same_but_contents ms ?ms" using inv by (simp add: projection_inv_def)
    have cand: "(pc_position ?c, pc_chars ?c) \<in> set (tool_result_content_candidates ms)"
      using ok i(1) by (simp add: candidates_ok_def)
    note tot = total_chars_set [OF same cand, of s t, unfolded fst_conv, OF Some, folded ms'_def]
    have cur: "result_chars ?ms (pc_position ?c) = length s" by (simp add: result_chars_def Some)
    have ct: "candidate_total cs ms' + length s = candidate_total cs ?ms + length t"
      using sum_list_point [of pc_position cs ?c "result_chars ?ms" "length t"] ok i(1) cur
      by (simp add: candidate_total_def candidates_ok_def ms'_def result_chars_set [OF Some])
    have step: "replace_candidate ?c j t st r = r\<lparr>run_chars := (run_chars r - length s) + length t, run_messages := ms',
        run_states := (run_states r)[j := st]\<rparr>"
      using Some False by (simp add: replace_candidate_def ms'_def)
    have le: "length s \<le> run_chars r"
    proof -
      have "result_chars ?ms (pc_position ?c) \<le> candidate_total cs ?ms"
        unfolding candidate_total_def using i(1) by (intro member_le_sum_list) auto
      then show ?thesis using inv cur by (simp add: projection_inv_def)
    qed
    have at: "content_at ms' p = content_at ms p \<or> shortened_at kept cs ms ms' p" for p
    proof (cases "p = pc_position ?c")
      case True
      have new: "content_at ms' p = Some t" by (simp add: True ms'_def content_at_set Some)
      have "content_at ?ms p = content_at ms p \<or> shortened_at kept cs ms ?ms p"
        using inv unfolding projection_inv_def by blast
      then have "length s \<le> result_chars ms p"
        using cur True by (auto simp: result_chars_def shortened_at_def)
      then show ?thesis using new False i True by (auto simp: shortened_at_def result_chars_def)
    next
      case other: False
      have eq: "content_at ms' p = content_at ?ms p" by (simp add: ms'_def content_at_set other)
      then have "shortened_at kept cs ms ms' p = shortened_at kept cs ms ?ms p"
        by (simp add: shortened_at_def result_chars_def)
      moreover have "content_at ?ms p = content_at ms p \<or> shortened_at kept cs ms ?ms p"
        using inv unfolding projection_inv_def by blast
      ultimately show ?thesis using eq by simp
    qed
    have "run_chars r = candidate_total cs ?ms" "total_chars ?ms + candidate_total cs ms = total_chars ms + run_chars r"
      using inv unfolding projection_inv_def by blast+
    then have "(run_chars r - length s) + length t = candidate_total cs ms'"
      "total_chars ms' + candidate_total cs ms = total_chars ms + ((run_chars r - length s) + length t)"
      using tot(2) ct le by linarith+
    with tot(1) at show ?thesis by (simp add: projection_inv_def step)
  qed
qed

lemma projection_pass_inv:
  assumes ok: "candidates_ok ms cs" and inv: "projection_inv ms cs kept r"
    and el: "\<And>i c. eligible i c \<Longrightarrow> \<not> kept i"
  shows "projection_inv ms cs kept (projection_pass budget eligible rendering st cs r)"
proof -
  let ?f = "\<lambda>(i, c) r. if run_chars r \<le> budget then r
       else if eligible i c then replace_candidate c i (rendering c) st r else r"
  have "\<forall>x \<in> set l. fst x < length cs \<and> snd x = cs ! fst x \<Longrightarrow> projection_inv ms cs kept r \<Longrightarrow>
    projection_inv ms cs kept (fold ?f l r)" for l r
  proof (induction l arbitrary: r)
    case (Cons x l)
    obtain i c where x: "x = (i, c)" by fastforce
    with Cons.prems(1) have ic: "i < length cs" "c = cs ! i" by auto
    have "projection_inv ms cs kept (?f x r)"
      using Cons.prems(2) replace_candidate_inv [OF ok Cons.prems(2) ic(1)] el by (simp add: x ic(2))
    with Cons show ?case by simp
  qed simp
  moreover have "\<forall>x \<in> set (enumerate 0 cs). fst x < length cs \<and> snd x = cs ! fst x"
    by (auto simp: in_set_enumerate_eq)
  ultimately show ?thesis using inv unfolding projection_pass_def by blast
qed

lemma run_projection_inv:
  assumes "candidates_ok ms cs" "projection_inv ms cs (kept_index policy (length cs)) r"
  shows "projection_inv ms cs (kept_index policy (length cs)) (run_projection show_json policy cs r)"
  unfolding run_projection_def Let_def by (intro projection_pass_inv assms) auto

lemma candidate_total_start:
  assumes "candidates_ok ms cs"
  shows "candidate_total cs ms = sum_list (map pc_chars cs)"
proof -
  have "result_chars ms (pc_position c) = pc_chars c" if "c \<in> set cs" for c
    using candidate_chars [of "(pc_position c, pc_chars c)" ms] assms that by (simp add: candidates_ok_def)
  then show ?thesis unfolding candidate_total_def by (metis (mono_tags, lifting) map_eq_conv)
qed

definition projected :: "(json \<Rightarrow> ustr) \<Rightarrow> message list \<Rightarrow> projection_policy \<Rightarrow> message list" where
  "projected show_json ms policy = fst (project_tool_results_for_context show_json ms policy)"

definition context_candidates :: "message list \<Rightarrow> projection_candidate list" where
  "context_candidates ms = projection_candidates ms (compactable_tool_uses ms) (latest_user_text_message_index ms)"

lemma projection_cases:
  obtains "project_tool_results_for_context show_json ms policy = (ms, empty_projection_report policy)"
  | cleared states where "project_tool_results_for_context show_json ms policy = (ms, projection_report_of (context_candidates ms)
        states (candidate_total (context_candidates ms) ms) (candidate_total (context_candidates ms) ms) cleared policy)"
  | cleared r where "project_tool_results_for_context show_json ms policy = (run_messages r, projection_report_of (context_candidates ms)
        (run_states r) (candidate_total (context_candidates ms) ms) (run_chars r) cleared policy)"
     "projection_inv ms (context_candidates ms) (kept_index policy (length (context_candidates ms))) r"
proof -
  let ?cs = "context_candidates ms"
  have ok: "candidates_ok ms ?cs" unfolding context_candidates_def by (rule projection_candidates_ok)
  note tot = candidate_total_start [OF ok]
  let ?r0 = "\<lparr>run_messages = ms, run_chars = sum_list (map pc_chars ?cs), run_states = replicate (length ?cs) Original\<rparr>"
  have "projection_inv ms ?cs (kept_index policy (length ?cs)) ?r0" by (simp add: projection_inv_def tot)
  note inv = run_projection_inv [OF ok this, of show_json]
  show thesis
  proof (cases "\<not> pp_enabled policy \<or> pp_budget_chars policy = 0 \<or> compactable_tool_uses ms = []")
    case True
    then show thesis by (intro that(1)) (auto simp: project_tool_results_for_context_def Let_def)
  next
    case False
    show thesis
    proof (cases "sum_list (map pc_chars ?cs) \<le> pp_budget_chars policy")
      case True
      with False show thesis
        by (intro that(2)) (simp add: project_tool_results_for_context_def tot context_candidates_def [symmetric] Let_def)
    next
      case over: False
      show thesis
        by (rule that(3) [OF _ inv])
          (use False over in \<open>simp add: project_tool_results_for_context_def tot context_candidates_def [symmetric] Let_def\<close>)
    qed
  qed
qed

lemma projected_same: "same_but_contents ms (projected show_json ms policy)"
  by (rule projection_cases [of show_json ms policy]) (auto simp: projected_def projection_inv_def)

theorem projection_keeps_protocol:
  "paired (projected show_json ms policy) p = paired ms p \<and> strictly_paired (projected show_json ms policy) p = strictly_paired ms p"
  using same_but_contents_paired [OF projected_same] by blast

text \<open>
  What is sent to the model differs from the history in old tool results only: messages, blocks,
  tool calls and their pairing are kept, the most recent results (as many as the policy says, at least
  one) are sent as they are, and every other result is sent as it is or strictly shorter.
\<close>

theorem projection_shortens_old_results:
  "same_but_contents ms (projected show_json ms policy) \<and>
   (\<forall>p. content_at (projected show_json ms policy) p = content_at ms p \<or>
      shortened_at (kept_index policy (length (context_candidates ms))) (context_candidates ms) ms
        (projected show_json ms policy) p)"
  by (rule projection_cases [of show_json ms policy]) (auto simp: projected_def projection_inv_def)

text \<open>
  The report is truthful: it claims exactly the characters that the projection took out.
\<close>

theorem projection_report_is_truthful:
  "total_chars (projected show_json ms policy) + pr_original_chars (snd (project_tool_results_for_context show_json ms policy)) =
   total_chars ms + pr_projected_chars (snd (project_tool_results_for_context show_json ms policy))"
  by (rule projection_cases [of show_json ms policy])
    (auto simp: projected_def projection_inv_def projection_report_of_def empty_projection_report_def)

definition old_read :: "message list" where
  "old_read =
     [\<lparr>role = lit ''user'', content = JStr (lit ''look'')\<rparr>,
      \<lparr>role = lit ''assistant'', content = JArr [JObj [(lit ''type'', JStr (lit ''tool_use'')), (lit ''id'', JStr (lit ''r1'')),
         (lit ''name'', JStr (lit ''grep''))], JObj [(lit ''type'', JStr (lit ''tool_use'')), (lit ''id'', JStr (lit ''r2'')),
         (lit ''name'', JStr (lit ''grep''))]]\<rparr>,
      \<lparr>role = lit ''user'', content = JArr [JObj [(lit ''type'', JStr (lit ''tool_result'')), (lit ''tool_use_id'', JStr (lit ''r1'')),
         (lit ''content'', JStr (replicate 90 97))], JObj [(lit ''type'', JStr (lit ''tool_result'')),
         (lit ''tool_use_id'', JStr (lit ''r2'')), (lit ''content'', JStr (replicate 90 98))]]\<rparr>,
      \<lparr>role = lit ''user'', content = JStr (lit ''and now'')\<rparr>]"

lemma projection_example:
  "let (ms, rep) = project_tool_results_for_context (\<lambda>_. []) old_read
     \<lparr>pp_enabled = True, pp_budget_chars = 100, pp_keep_recent = 1, pp_cache_edit_eligible = False\<rparr> in
   content_at ms (2, 0) = Some (join [lit ''[Tool result reference]'', lit ''tool=grep'', lit ''tool_use_id=r1''] [newline]) \<and>
   content_at ms (2, 1) = Some (replicate 90 98) \<and> pr_reference_only_results rep = 1 \<and> pr_projected_chars rep = 138"
  by code_simp

end
