(* ===== verification/PermissionClassifier.thy ===== *)
theory PermissionClassifier
  imports ToolHistory
begin

section \<open>The auto-permission classifier (src/classifier.rs)\<close>

text \<open>
  Before a dangerous tool runs, an auxiliary model is asked whether the call looks acceptable. It is
  shown the user's texts and the tool calls of the assistant, and its answer is read as JSON, with or
  without a code fence. The text of JSON values and the reading of a response from text are
  parameters. Lemma: neither the assistant's prose nor the results of tools reach the classifier.
\<close>

datatype auto_permission_decision = Allow | Deny | Ask

record auto_permission_response =
  ap_decision :: auto_permission_decision
  ap_reason :: ustr
  ap_matched_rule :: "ustr option"

definition decision_text :: "auto_permission_decision \<Rightarrow> ustr" where
  "decision_text d = (case d of Allow \<Rightarrow> lit ''allow'' | Deny \<Rightarrow> lit ''deny'' | Ask \<Rightarrow> lit ''ask'')"

definition text_of_block :: "json \<Rightarrow> ustr option" where
  "text_of_block b = (if is_block ''text'' b then jstr ''text'' b else None)"

definition extract_text_content :: "json \<Rightarrow> ustr option" where
  "extract_text_content v =
     (case as_str v of
        Some t \<Rightarrow> Some t
      | None \<Rightarrow>
          (case as_array v of
             None \<Rightarrow> None
           | Some items \<Rightarrow>
               (let texts = filter_map text_of_block items in
                if texts = [] then None else Some (join texts [newline]))))"

definition tool_call_line :: "(json \<Rightarrow> ustr) \<Rightarrow> json \<Rightarrow> ustr option" where
  "tool_call_line show_json b =
     (if is_block ''tool_use'' b
      then Some (lit ''tool_call '' @ (case jstr ''name'' b of Some n \<Rightarrow> n | None \<Rightarrow> lit ''?'') @ lit '': '' @
             (case jget ''input'' b of Some v \<Rightarrow> show_json v | None \<Rightarrow> []))
      else None)"

definition classifier_messages_of :: "(json \<Rightarrow> ustr) \<Rightarrow> message \<Rightarrow> message list" where
  "classifier_messages_of show_json m =
     (if role m = lit ''user'' then
        (case extract_text_content (content m) of
           None \<Rightarrow> []
         | Some t \<Rightarrow> if t = [] then [] else [\<lparr>role = lit ''user'', content = JStr t\<rparr>])
      else if role m = lit ''assistant'' then
        (case as_array (content m) of
           None \<Rightarrow> []
         | Some items \<Rightarrow>
             (let calls = filter_map (tool_call_line show_json) items in
              if calls = [] then [] else [\<lparr>role = lit ''assistant'', content = JStr (join calls [newline])\<rparr>]))
      else [])"

definition build_classifier_messages :: "(json \<Rightarrow> ustr) \<Rightarrow> message list \<Rightarrow> ustr \<Rightarrow> json \<Rightarrow> message list" where
  "build_classifier_messages show_json ms name input =
     concat (map (classifier_messages_of show_json) ms) @
     [\<lparr>role = lit ''user'', content = JStr (lit ''Evaluate this tool call: '' @ name @ lit '' '' @ show_json input)\<rparr>]"

subsection \<open>Reading the answer\<close>

text \<open>\<open>str::trim_start_matches\<close> and \<open>trim_end_matches\<close> with a string.\<close>

function trim_start_matches :: "ustr \<Rightarrow> ustr \<Rightarrow> ustr" where
  "trim_start_matches p s =
     (case strip_prefix s p of Some t \<Rightarrow> if p = [] then s else trim_start_matches p t | None \<Rightarrow> s)"
  by pat_completeness auto
termination
  by (relation "measure (\<lambda>(p, s). length s)") (auto simp: strip_prefix_Some)

declare trim_start_matches.simps [simp del]

definition trim_end_matches :: "ustr \<Rightarrow> ustr \<Rightarrow> ustr" where
  "trim_end_matches p s = rev (trim_start_matches (rev p) (rev s))"

definition FENCE :: ustr where "FENCE = [96, 96, 96]"

definition clean_json_response :: "ustr \<Rightarrow> ustr" where
  "clean_json_response raw =
     trim (trim_end_matches FENCE (trim_start_matches FENCE (trim_start_matches (FENCE @ lit ''json'') (trim raw))))"

definition parse_auto_permission_response ::
  "(ustr \<Rightarrow> ustr + auto_permission_response) \<Rightarrow> ustr \<Rightarrow> ustr + auto_permission_response" where
  "parse_auto_permission_response read_response raw =
     (case read_response raw of Inr r \<Rightarrow> Inr r | Inl _ \<Rightarrow> read_response (clean_json_response raw))"

subsection \<open>What the classifier sees\<close>

text \<open>A message without what the classifier is not to see: an assistant's texts and metadata, and
  everything but texts in a user message.\<close>

definition visible_block :: "message \<Rightarrow> json \<Rightarrow> bool" where
  "visible_block m b \<longleftrightarrow> is_block (if role m = lit ''assistant'' then ''tool_use'' else ''text'') b"

definition visible_part :: "message \<Rightarrow> message" where
  "visible_part m =
     (case as_array (content m) of None \<Rightarrow> m | Some bs \<Rightarrow> m\<lparr>content := JArr (filter (visible_block m) bs)\<rparr>)"

lemma filter_map_filter: "(\<And>x. f x \<noteq> None \<Longrightarrow> P x) \<Longrightarrow> filter_map f (filter P xs) = filter_map f xs"
proof (induction xs)
  case (Cons x xs)
  then show ?case by (cases "f x") auto
qed simp

lemma visible_assistant:
  assumes "role m = lit ''assistant''"
  shows "filter_map (tool_call_line f) (filter (visible_block m) bs) = filter_map (tool_call_line f) bs"
  using assms by (intro filter_map_filter) (simp add: tool_call_line_def visible_block_def split: if_splits)

lemma visible_user:
  assumes "role m \<noteq> lit ''assistant''"
  shows "filter_map text_of_block (filter (visible_block m) bs) = filter_map text_of_block bs"
  using assms by (intro filter_map_filter) (simp add: text_of_block_def visible_block_def split: if_splits)

lemma classifier_messages_visible:
  "classifier_messages_of f (visible_part m) = classifier_messages_of f m"
proof (cases "as_array (content m)")
  case (Some bs)
  then have "content m = JArr bs" by simp
  then show ?thesis
    by (simp add: classifier_messages_of_def visible_part_def extract_text_content_def visible_assistant visible_user
        as_str_def cong: if_cong option.case_cong)
qed (simp add: visible_part_def)

text \<open>The request to the classifier does not depend on the assistant's prose or on results of tools.\<close>

theorem classifier_sees_only_requests_and_calls:
  "build_classifier_messages f (map visible_part ms) name input = build_classifier_messages f ms name input"
  by (simp add: build_classifier_messages_def classifier_messages_visible o_def)

end
