(* ===== verification/NativeAgent.thy ===== *)
theory NativeAgent
  imports BashRequest PlanParser TodoList ToolResults PermissionClassifier Compaction ControlTokens
begin

section \<open>The state of the native agent (src/agent.rs, src/agent/planning.rs)\<close>

text \<open>
  The agent behind the terminal and protocol clients: execution mode, plan, pending interactions,
  approvals and inspection evidence, on top of the history and its compaction. What it calls (tools,
  provider, hooks, session store) is a record of functions on a world \<open>'w\<close>. Counters are naturals.
  Lemmas: plan mode admits no writing tool; the plan has at most one step in progress, and working
  through the steps completes them in order.
\<close>

subsection \<open>State\<close>

datatype bash_approval_mode = ApproveOnce | ApproveAlways | ApproveSuggestion

datatype bash_approval_decision = DecideOnce | DecidePrefix | DecideAlways | DecideSuggestion

record pending_approval =
  pa_tool_use_id :: ustr
  pa_request :: bash_request

record completed_interaction =
  ci_title :: ustr
  ci_summary :: ustr

record inspection_progress =
  list_calls :: nat
  source_reads :: nat
  config_reads :: nat
  instruction_reads :: nat
  delegated_inspections :: nat

datatype agent_event =
    EvStatus ustr
  | EvAssistantText ustr
  | EvAssistantDelta ustr
  | EvAssistantThinkingDelta ustr
  | EvToolUse ustr ustr json
  | EvToolResult ustr ustr ustr bool
  | EvToolProgress ustr ustr tool_progress_event
  | EvTodoUpdated todo_state
  | EvPlanUpdated "plan_step list" "ustr option"
  | EvApprovalRequested ustr ustr
  | EvApprovalAnswered ustr bool
  | EvAgentError ustr bool
  | EvModelRequest ustr nat
  | EvModelResponse ustr nat "ustr option"
  | EvMemoryAction ustr
  | EvCompaction nat nat nat ustr "ustr list"

record 'w native_agent =
  na_core :: "'w compact_agent"
  na_mode :: execution_mode
  na_max_turns :: "nat option"
  na_token_budget :: "nat option"
  na_budget_exhausted :: bool
  na_input_tokens :: nat
  na_output_tokens :: nat
  na_cache_hit :: nat
  na_cache_miss :: nat
  na_aux_cache_hit :: nat
  na_aux_cache_miss :: nat
  na_bash_approval :: bash_approval_mode
  na_full_access :: bool
  na_plan :: "plan_step list"
  na_plan_explanation :: "ustr option"
  na_pending_input :: "pending_user_input option"
  na_pending_approval :: "pending_approval option"
  na_pending_plan_exit :: "ustr option"
  na_completed_input :: "completed_interaction option"
  na_completed_approval :: "completed_interaction option"
  na_approved_prefixes :: "ustr list"
  na_todo :: "todo_state option"
  na_inspection :: inspection_progress
  na_plan_updated :: bool
  na_recent_calls :: "(ustr \<times> ustr) list"
  na_projection :: projection_report
  na_start_hooks_ran :: bool
  na_events :: "agent_event list"

definition na_history :: "'w native_agent \<Rightarrow> message list" where
  "na_history a = ca_history (na_core a)"

definition na_world :: "'w native_agent \<Rightarrow> 'w" where
  "na_world a = ca_world (na_core a)"

definition set_world :: "'w \<Rightarrow> 'w native_agent \<Rightarrow> 'w native_agent" where
  "set_world w a = a\<lparr>na_core := (na_core a)\<lparr>ca_world := w\<rparr>\<rparr>"

definition emit_event :: "agent_event \<Rightarrow> 'w native_agent \<Rightarrow> 'w native_agent" where
  "emit_event e a = a\<lparr>na_events := na_events a @ [e]\<rparr>"

definition emit_status :: "ustr \<Rightarrow> 'w native_agent \<Rightarrow> 'w native_agent" where
  "emit_status t = emit_event (EvStatus t)"

record hook_outcome =
  ho_stdout :: ustr
  ho_stderr :: ustr
  ho_exit_code :: "int option"
  ho_timed_out :: bool

type_synonym 'w hook = "ustr \<times> (ustr \<Rightarrow> 'w \<Rightarrow> (ustr + hook_outcome) \<times> 'w)"

record plugin_hook_block =
  pb_plugin :: ustr
  pb_message :: ustr

record 'w agent_env =
  ae_compact :: "'w compact_env"
  ae_pretty :: "json \<Rightarrow> ustr"
  ae_tools :: "(ustr \<times> json) list"
  ae_call_tool :: "tool_call \<Rightarrow> 'w \<Rightarrow> (tool_progress_event list \<times> (tool_error + json)) \<times> 'w"
  ae_serde_error :: "json \<Rightarrow> ustr"
  ae_classify :: "message list \<Rightarrow> 'w \<Rightarrow> (ustr + ustr) \<times> 'w"
  ae_read_response :: "ustr \<Rightarrow> ustr + auto_permission_response"
  ae_pre_hooks :: "'w hook list option"
  ae_plugin_pre :: "(ustr \<Rightarrow> json \<Rightarrow> 'w \<Rightarrow> plugin_hook_block option \<times> 'w) option"
  ae_compact_result :: "ustr \<Rightarrow> ustr \<Rightarrow> json \<Rightarrow> json \<Rightarrow> 'w \<Rightarrow> (ustr + ustr) \<times> 'w"
  ae_read_todo :: "json \<Rightarrow> ustr + todo_state"
  ae_save_todo :: "todo_state \<Rightarrow> 'w \<Rightarrow> (ustr + unit) \<times> 'w"

definition show_json :: "'w agent_env \<Rightarrow> json \<Rightarrow> ustr" where
  "show_json env = ce_text_of (ae_compact env)"

definition has_tool :: "'w agent_env \<Rightarrow> ustr \<Rightarrow> bool" where
  "has_tool env name \<longleftrightarrow> name \<in> fst ` set (ae_tools env)"

subsection \<open>The history\<close>

definition agent_push_message :: "'w agent_env \<Rightarrow> message \<Rightarrow> 'w native_agent \<Rightarrow> 'w native_agent" where
  "agent_push_message env m a = a\<lparr>na_core := push_history_message (ae_compact env) m (na_core a)\<rparr>"

definition extend_messages :: "'w agent_env \<Rightarrow> message list \<Rightarrow> 'w native_agent \<Rightarrow> 'w native_agent" where
  "extend_messages env ms a = a\<lparr>na_core := extend_history_messages (ae_compact env) ms (na_core a)\<rparr>"

definition checkpoint_session :: "'w agent_env \<Rightarrow> ('w native_agent, ustr, unit) em" where
  "checkpoint_session env a =
     (case ce_checkpoint (ae_compact env) (na_history a) (na_world a) of (r, w) \<Rightarrow> (r, set_world w a))"

definition tool_result_message :: "ustr \<Rightarrow> ustr \<Rightarrow> bool \<Rightarrow> message" where
  "tool_result_message i c is_error = into_message \<lparr>reply_content = c, reply_is_error = is_error\<rparr> i"

subsection \<open>Inspection evidence\<close>

definition replace_backslash :: "ustr \<Rightarrow> ustr" where
  "replace_backslash s = map (\<lambda>c. if c = 92 then 47 else c) s"

definition record_tool :: "ustr \<Rightarrow> json \<Rightarrow> inspection_progress \<Rightarrow> inspection_progress" where
  "record_tool name input p =
     (if name = lit ''list_files'' then p\<lparr>list_calls := list_calls p + 1\<rparr>
      else if name = lit ''explore_agent'' \<or> name = lit ''plan_agent''
      then p\<lparr>delegated_inspections := delegated_inspections p + 1\<rparr>
      else if name = lit ''read_file'' then
        (let path = replace_backslash (map to_ascii_lowercase (case jstr ''path'' input of Some s \<Rightarrow> s | None \<Rightarrow> [])) in
         if starts_with path (lit ''src/'') \<or> ends_with path (lit ''.rs'') then p\<lparr>source_reads := source_reads p + 1\<rparr>
         else if ends_with path (lit ''cargo.toml'') \<or> ends_with path (lit ''cargo.lock'') \<or> ends_with path (lit ''.toml'')
         then p\<lparr>config_reads := config_reads p + 1\<rparr>
         else if ends_with path (lit ''agents.md'') \<or> ends_with path (lit ''readme.md'') \<or>
           ends_with path (lit ''.rara/memory.md'') \<or> ends_with path (lit ''.md'')
         then p\<lparr>instruction_reads := instruction_reads p + 1\<rparr> else p)
      else p)"

definition minimum_review_evidence :: "inspection_progress \<Rightarrow> bool" where
  "minimum_review_evidence p \<longleftrightarrow> 2 \<le> source_reads p \<or>
     (1 \<le> source_reads p \<and> 1 \<le> list_calls p \<and> (1 \<le> config_reads p \<or> 1 \<le> instruction_reads p))"

definition any_evidence :: "inspection_progress \<Rightarrow> bool" where
  "any_evidence p \<longleftrightarrow> 0 < list_calls p \<or> 0 < source_reads p \<or> 0 < config_reads p \<or> 0 < instruction_reads p \<or>
     0 < delegated_inspections p"

subsection \<open>Modes and settings\<close>

definition ENTER_PLAN_MODE_TOOL_NAME :: ustr where "ENTER_PLAN_MODE_TOOL_NAME = lit ''enter_plan_mode''"
definition EXIT_PLAN_MODE_TOOL_NAME :: ustr where "EXIT_PLAN_MODE_TOOL_NAME = lit ''exit_plan_mode''"
definition TODO_WRITE_TOOL_NAME :: ustr where "TODO_WRITE_TOOL_NAME = lit ''todo_write''"

definition writing_tools :: "ustr list" where
  "writing_tools = map lit [''write_file'', ''replace'', ''replace_lines'', ''apply_patch'', ''update_project_memory''] @
     [TODO_WRITE_TOOL_NAME] @ map lit [''spawn_agent'', ''team_create'']"

definition is_tool_allowed_in_current_mode :: "execution_mode \<Rightarrow> ustr \<Rightarrow> bool" where
  "is_tool_allowed_in_current_mode m name = (case m of
       Execute \<Rightarrow> name \<noteq> EXIT_PLAN_MODE_TOOL_NAME
     | Review \<Rightarrow> name \<notin> set ([ENTER_PLAN_MODE_TOOL_NAME, EXIT_PLAN_MODE_TOOL_NAME] @ writing_tools)
     | Plan \<Rightarrow> name \<notin> set (ENTER_PLAN_MODE_TOOL_NAME # writing_tools))"

definition execution_mode_label :: "execution_mode \<Rightarrow> ustr" where
  "execution_mode_label m = (case m of Execute \<Rightarrow> lit ''execute'' | Plan \<Rightarrow> lit ''plan'' | Review \<Rightarrow> lit ''review'')"

definition restore_pending_plan_exit_approval :: "ustr \<Rightarrow> 'w native_agent \<Rightarrow> 'w native_agent" where
  "restore_pending_plan_exit_approval i a =
     (if trim i = [] then a else a\<lparr>na_pending_plan_exit := Some i, na_mode := Plan\<rparr>)"

definition set_max_turns :: "nat \<Rightarrow> 'w native_agent \<Rightarrow> 'w native_agent" where
  "set_max_turns n a = a\<lparr>na_max_turns := (if n = 0 then None else Some n)\<rparr>"

definition set_token_budget :: "nat option \<Rightarrow> 'w native_agent \<Rightarrow> 'w native_agent" where
  "set_token_budget b a = a\<lparr>na_token_budget := b, na_budget_exhausted := False\<rparr>"

text \<open>The token counters are u32: each addition wraps (release build), only their sum is saturating.\<close>

definition add_u32 :: "nat \<Rightarrow> nat \<Rightarrow> nat" where
  "add_u32 x y = (x + y) mod 2 ^ 32"

definition total_tokens :: "'w native_agent \<Rightarrow> nat" where
  "total_tokens a = min (na_input_tokens a + na_output_tokens a) 4294967295"

definition is_bash_prefix_approved :: "bash_request \<Rightarrow> 'w native_agent \<Rightarrow> bool" where
  "is_bash_prefix_approved r a \<longleftrightarrow> is_allowed_by_approval_prefixes r (na_approved_prefixes a)"

definition clear_completed_interactions :: "'w native_agent \<Rightarrow> 'w native_agent" where
  "clear_completed_interactions a = a\<lparr>na_completed_input := None, na_completed_approval := None\<rparr>"

definition discard_pending_interactions :: "'w native_agent \<Rightarrow> 'w native_agent" where
  "discard_pending_interactions a =
     a\<lparr>na_pending_input := None, na_pending_approval := None, na_pending_plan_exit := None\<rparr>"

definition consume_pending_user_input :: "ustr \<Rightarrow> 'w native_agent \<Rightarrow> 'w native_agent" where
  "consume_pending_user_input answer a =
     (case na_pending_input a of
        None \<Rightarrow> a
      | Some q \<Rightarrow> a\<lparr>na_pending_input := None, na_completed_input :=
          Some \<lparr>ci_title = pu_question q, ci_summary = lit ''Answered with: '' @ trim answer\<rparr>\<rparr>)"

definition visible_tool_schemas :: "'w agent_env \<Rightarrow> execution_mode \<Rightarrow> json list" where
  "visible_tool_schemas env m = map snd (filter (\<lambda>(name, _). is_tool_allowed_in_current_mode m name) (ae_tools env))"

subsection \<open>The plan\<close>

definition capture_plan_from_text :: "ustr \<Rightarrow> 'w native_agent \<Rightarrow> bool \<times> 'w native_agent" where
  "capture_plan_from_text t a =
     (case parse_plan_block t of
        None \<Rightarrow> (False, a\<lparr>na_pending_input := parse_request_user_input_block t\<rparr>)
      | Some (steps, explanation) \<Rightarrow>
          (True, a\<lparr>na_plan := (if steps = [] then na_plan a else steps), na_plan_explanation := explanation,
                  na_pending_input := parse_request_user_input_block t\<rparr>))"

definition current_plan_markdown :: "'w native_agent \<Rightarrow> ustr" where
  "current_plan_markdown a = plan_markdown (na_plan a, na_plan_explanation a)"

text \<open>\<open>iter_mut().find(..)\<close> with an assignment of the status.\<close>

fun set_first :: "plan_step_status \<Rightarrow> plan_step_status \<Rightarrow> plan_step list \<Rightarrow> plan_step list" where
  "set_first old new [] = []"
| "set_first old new (st # sts) =
     (if ps_status st = old then st\<lparr>ps_status := new\<rparr> # sts else st # set_first old new sts)"

definition in_progress :: "plan_step list \<Rightarrow> bool" where
  "in_progress sts \<longleftrightarrow> list_ex (\<lambda>st. ps_status st = StepInProgress) sts"

definition on_plan :: "(plan_step list \<Rightarrow> plan_step list) \<Rightarrow> 'w native_agent \<Rightarrow> 'w native_agent" where
  "on_plan f a = (if na_mode a \<noteq> Execute \<or> na_plan a = [] then a else a\<lparr>na_plan := f (na_plan a)\<rparr>)"

definition ensure_active_plan_step :: "'w native_agent \<Rightarrow> 'w native_agent" where
  "ensure_active_plan_step =
     on_plan (\<lambda>sts. if in_progress sts then sts else set_first StepPending StepInProgress sts)"

definition advance_plan_step :: "'w native_agent \<Rightarrow> 'w native_agent" where
  "advance_plan_step =
     on_plan (\<lambda>sts. set_first StepPending StepInProgress (set_first StepInProgress StepCompleted sts))"

definition complete_active_plan_step :: "'w native_agent \<Rightarrow> 'w native_agent" where
  "complete_active_plan_step = on_plan (set_first StepInProgress StepCompleted)"

subsection \<open>Messages of the runtime to the model\<close>

datatype continuation_phase =
    ToolResultsAvailable
  | PlanContinuationRequired
  | PlanExitRepairRequired
  | ExecutionContinuationRequired
  | ReasoningOnlyContinuationRequired
  | PlanApprovedPhase

definition phase_label :: "continuation_phase \<Rightarrow> ustr" where
  "phase_label p = (case p of
     ToolResultsAvailable \<Rightarrow> lit ''tool_results_available''
   | PlanContinuationRequired \<Rightarrow> lit ''plan_continuation_required''
   | PlanExitRepairRequired \<Rightarrow> lit ''plan_exit_repair_required''
   | ExecutionContinuationRequired \<Rightarrow> lit ''execution_continuation_required''
   | ReasoningOnlyContinuationRequired \<Rightarrow> lit ''reasoning_only_continuation_required''
   | PlanApprovedPhase \<Rightarrow> lit ''plan_approved'')"

definition continuation_instructions :: "continuation_phase \<Rightarrow> ustr list" where
  "continuation_instructions p = (case p of
     ToolResultsAvailable \<Rightarrow>
       [lit ''Continue the same task immediately.'',
        lit ''Review the tool results already present in the conversation.'',
        lit ''Either call the next tool directly, or provide the final answer.'',
        lit ''Do not ask the user to continue.'',
        lit ''Do not repeat tool results verbatim.'']
   | PlanContinuationRequired \<Rightarrow>
       [lit ''Continue planning immediately.'',
        lit ''Use read-only tools to inspect the repository before stopping.'',
        lit ''If the user asked for analysis or recommendations only, provide the final answer without a <proposed_plan> block.'',
        lit ''Use <proposed_plan> only when you are requesting approval to implement a concrete plan.'',
        lit ''Use <request_user_input> when a key decision blocks the answer.'',
        lit ''Use <continue_inspection/> when more repository inspection is still required.'',
        lit ''Do not ask the user to continue.'']
   | PlanExitRepairRequired \<Rightarrow>
       [lit ''The previous exit_plan_mode call failed because the same assistant response did not contain a complete <proposed_plan>...</proposed_plan> block.'',
        lit ''Continue the same planning task immediately.'',
        lit ''If implementation approval is still needed, start the next response with <proposed_plan>, write summary:, steps:, and validation: fields, close it with the exact </proposed_plan> tag, and then call exit_plan_mode.'',
        lit ''Do not use Markdown headings, plain bullets, or ordinary prose as a substitute for the <proposed_plan> block.'',
        lit ''If no implementation approval is needed, provide the final answer without calling exit_plan_mode.'',
        lit ''Do not ask the user to continue.'']
   | ExecutionContinuationRequired \<Rightarrow>
       [lit ''Continue the same task immediately.'',
        lit ''Keep gathering the next relevant code context now.'',
        lit ''If you mentioned a next file or next inspection step, call the tool for it directly.'',
        lit ''Only stop when you can provide concrete, evidence-based suggestions or when structured user input is required.'',
        lit ''Do not ask the user to continue.'']
   | ReasoningOnlyContinuationRequired \<Rightarrow>
       [lit ''The previous model turn produced internal reasoning but no visible assistant text and no tool call.'',
        lit ''The task is NOT complete. You MUST produce visible text or call a tool in this turn.'',
        lit ''Do not produce another reasoning-only response '' @ [0x2014] @ lit '' the session will stop if you do.'',
        lit ''Either call the next needed tool directly, or provide a visible final answer.'',
        lit ''Do not ask the user to continue.'']
   | PlanApprovedPhase \<Rightarrow>
       [lit ''The current plan was approved. Continue the same task immediately.'',
        lit ''Implement the approved plan using the existing plan state and repository context.'',
        lit ''Do not restate the plan back to the user unless a short reminder is necessary.'',
        lit ''Start with the next concrete implementation step or tool call.'',
        lit ''After the implementation is complete, review your own changes for correctness, scope control, and missing validation before giving the final answer.'',
        lit ''Do not ask the user to continue.''])"

definition jnat :: "nat \<Rightarrow> json" where
  "jnat n = JNum (int n)"

definition inspection_json :: "inspection_progress \<Rightarrow> json" where
  "inspection_json p = JObj
     [(lit ''list_calls'', jnat (list_calls p)), (lit ''source_reads'', jnat (source_reads p)),
      (lit ''config_reads'', jnat (config_reads p)), (lit ''instruction_reads'', jnat (instruction_reads p)),
      (lit ''delegated_inspections'', jnat (delegated_inspections p)),
      (lit ''has_minimum_review_evidence'', JBool (minimum_review_evidence p))]"

definition steps_with :: "plan_step_status \<Rightarrow> plan_step list \<Rightarrow> nat" where
  "steps_with st sts = length (filter (\<lambda>s. ps_status s = st) sts)"

definition plan_json :: "plan_step list \<Rightarrow> json" where
  "plan_json sts = JObj
     [(lit ''total_steps'', jnat (length sts)), (lit ''pending_steps'', jnat (steps_with StepPending sts)),
      (lit ''in_progress_steps'', jnat (steps_with StepInProgress sts)),
      (lit ''completed_steps'', jnat (steps_with StepCompleted sts))]"

definition pending_interaction_label :: "'w native_agent \<Rightarrow> ustr" where
  "pending_interaction_label a =
     (if na_pending_approval a \<noteq> None then lit ''approval''
      else if na_pending_input a \<noteq> None then lit ''request_user_input'' else lit ''none'')"

definition continuation_json :: "continuation_phase \<Rightarrow> nat \<Rightarrow> 'w native_agent \<Rightarrow> json" where
  "continuation_json p turns a = JObj
     [(lit ''phase'', JStr (phase_label p)), (lit ''mode'', JStr (execution_mode_label (na_mode a))),
      (lit ''agentic_turns'', jnat turns), (lit ''inspection'', inspection_json (na_inspection a)),
      (lit ''plan'', plan_json (na_plan a)), (lit ''pending_interaction'', JStr (pending_interaction_label a)),
      (lit ''instructions'', JArr (map JStr (continuation_instructions p)))]"

definition user_text :: "ustr \<Rightarrow> message" where
  "user_text t = \<lparr>role = lit ''user'', content = JArr [JObj [(lit ''type'', JStr (lit ''text'')), (lit ''text'', JStr t)]]\<rparr>"

definition runtime_continuation_message ::
  "'w agent_env \<Rightarrow> continuation_phase \<Rightarrow> nat \<Rightarrow> 'w native_agent \<Rightarrow> message" where
  "runtime_continuation_message env p turns a =
     user_text (lit ''<agent_runtime>'' @ [newline] @ ae_pretty env (continuation_json p turns a) @ [newline] @
       lit ''</agent_runtime>'')"

definition push_continuation :: "'w agent_env \<Rightarrow> continuation_phase \<Rightarrow> nat \<Rightarrow> 'w native_agent \<Rightarrow> 'w native_agent" where
  "push_continuation env p turns a = agent_push_message env (runtime_continuation_message env p turns a) a"

definition extend_history_for_next_turn ::
  "'w agent_env \<Rightarrow> message list \<Rightarrow> nat \<Rightarrow> ('w native_agent, ustr, unit) em" where
  "extend_history_for_next_turn env results turns =
     thenE (modifyE (\<lambda>a. push_continuation env ToolResultsAvailable turns
         (emit_status (lit ''Tool results recorded. Advancing to the next agent step.'') (extend_messages env results a))))
       (checkpoint_session env)"

subsection \<open>A new agent (Agent::new_with_agent_definitions)\<close>

definition default_compact_state :: compact_state where
  "default_compact_state =
     \<lparr>estimated_history_tokens = 0, context_window_tokens = None, compact_threshold_tokens = 0,
      reserved_output_tokens = 0, compaction_count = 0, last_before_tokens = None, last_after_tokens = None,
      last_recent_files = [], last_boundary = None, consecutive_failures = 0, retry_after_tokens = None\<rparr>"

definition default_inspection :: inspection_progress where
  "default_inspection = \<lparr>list_calls = 0, source_reads = 0, config_reads = 0, instruction_reads = 0,
     delegated_inspections = 0\<rparr>"

definition default_projection_report :: projection_report where
  "default_projection_report = \<lparr>pr_original_chars = 0, pr_projected_chars = 0, pr_cleared_results = 0,
     pr_summarized_results = 0, pr_reference_only_results = 0, pr_active_turn_kept_results = 0, pr_kept_results = 0,
     pr_cache_edit_eligible = False, pr_cache_edit_applied = False\<rparr>"

definition new_agent :: "'w \<Rightarrow> 'w native_agent" where
  "new_agent w =
     \<lparr>na_core = \<lparr>ca_history = [], ca_state = default_compact_state, ca_candidates = [], ca_reports = [], ca_world = w\<rparr>,
      na_mode = Execute, na_max_turns = None, na_token_budget = None, na_budget_exhausted = False,
      na_input_tokens = 0, na_output_tokens = 0, na_cache_hit = 0, na_cache_miss = 0,
      na_aux_cache_hit = 0, na_aux_cache_miss = 0, na_bash_approval = ApproveAlways, na_full_access = False,
      na_plan = [], na_plan_explanation = None, na_pending_input = None, na_pending_approval = None,
      na_pending_plan_exit = None, na_completed_input = None, na_completed_approval = None,
      na_approved_prefixes = [], na_todo = None, na_inspection = default_inspection, na_plan_updated = False,
      na_recent_calls = [], na_projection = default_projection_report,
      na_start_hooks_ran = False, na_events = []\<rparr>"

subsection \<open>Working through a plan\<close>

lemma set_first_map: "map ps_step (set_first old new sts) = map ps_step sts"
  by (induction sts) auto

lemma set_first_absent: "old \<notin> set (map ps_status sts) \<Longrightarrow> set_first old new sts = sts"
  by (induction sts) auto

lemma status_set_first:
  assumes "map ps_status sts = xs @ old # ys" "old \<notin> set xs"
  shows "map ps_status (set_first old new sts) = xs @ new # ys"
  using assms
proof (induction sts arbitrary: xs)
  case (Cons st sts)
  then show ?case by (cases xs) auto
qed simp

lemma set_first_statuses: "new \<noteq> StepInProgress \<Longrightarrow> steps_with StepInProgress (set_first old new sts) \<le> steps_with StepInProgress sts"
  by (induction sts) (auto simp: steps_with_def)

lemma steps_with_set_first:
  "old \<noteq> StepInProgress \<Longrightarrow> steps_with StepInProgress (set_first old StepInProgress sts) \<le> Suc (steps_with StepInProgress sts)"
  by (induction sts) (auto simp: steps_with_def)

lemma steps_with_complete:
  "steps_with StepInProgress (set_first StepInProgress StepCompleted sts) = steps_with StepInProgress sts - 1"
  by (induction sts) (auto simp: steps_with_def)

lemma not_in_progress: "\<not> in_progress sts \<longleftrightarrow> steps_with StepInProgress sts = 0"
  by (auto simp: in_progress_def steps_with_def list_ex_iff filter_empty_conv)

text \<open>At most one step is in progress, whatever the agent does with its plan.\<close>

definition single_active :: "'w native_agent \<Rightarrow> bool" where
  "single_active a \<longleftrightarrow> steps_with StepInProgress (na_plan a) \<le> 1"

lemma plan_operations_keep_single_active:
  assumes "single_active a"
  shows "single_active (ensure_active_plan_step a)" "single_active (advance_plan_step a)"
    "single_active (complete_active_plan_step a)"
  using assms steps_with_set_first [of StepPending "na_plan a"]
    steps_with_set_first [of StepPending "set_first StepInProgress StepCompleted (na_plan a)"]
  by (auto simp: single_active_def ensure_active_plan_step_def advance_plan_step_def complete_active_plan_step_def
      on_plan_def steps_with_complete not_in_progress)

text \<open>The steps themselves never change: only their statuses do.\<close>

lemma plan_operations_keep_steps:
  "map ps_step (na_plan (ensure_active_plan_step a)) = map ps_step (na_plan a)"
  "map ps_step (na_plan (advance_plan_step a)) = map ps_step (na_plan a)"
  "map ps_step (na_plan (complete_active_plan_step a)) = map ps_step (na_plan a)"
  by (simp_all add: ensure_active_plan_step_def advance_plan_step_def complete_active_plan_step_def on_plan_def set_first_map)

text \<open>Starting a step and advancing \<open>k\<close> times completes the first \<open>k\<close> steps in order and leaves the next one active.\<close>

definition fresh_statuses :: "nat \<Rightarrow> nat \<Rightarrow> plan_step_status list" where
  "fresh_statuses n k = (if k < n then replicate k StepCompleted @ StepInProgress # replicate (n - Suc k) StepPending
     else replicate n StepCompleted)"

lemma advance_worked:
  assumes "na_mode a = Execute" "map ps_status (na_plan a) = fresh_statuses n k"
  shows "map ps_status (na_plan (advance_plan_step a)) = fresh_statuses n (Suc k)"
proof (cases "na_plan a = []")
  case True
  with assms(2) have "n = 0" by (auto simp: fresh_statuses_def split: if_splits)
  with True show ?thesis by (simp add: advance_plan_step_def on_plan_def fresh_statuses_def)
next
  case ne: False
  let ?done = "set_first StepInProgress StepCompleted (na_plan a)"
  have adv: "na_plan (advance_plan_step a) = set_first StepPending StepInProgress ?done"
    using ne assms(1) by (simp add: advance_plan_step_def on_plan_def)
  show ?thesis
  proof (cases "k < n")
    case k: True
    with assms(2) have st: "map ps_status ?done = replicate k StepCompleted @ StepCompleted # replicate (n - Suc k) StepPending"
      by (intro status_set_first) (simp_all add: fresh_statuses_def)
    show ?thesis
    proof (cases "Suc k < n")
      case True
      then have "n - Suc k = Suc (n - Suc (Suc k))" by simp
      with st have "map ps_status ?done = replicate (Suc k) StepCompleted @ StepPending # replicate (n - Suc (Suc k)) StepPending"
        by (simp add: replicate_app_Cons_same)
      then have "map ps_status (set_first StepPending StepInProgress ?done) =
          replicate (Suc k) StepCompleted @ StepInProgress # replicate (n - Suc (Suc k)) StepPending"
        by (rule status_set_first) (simp add: replicate_app_Cons_same)
      with True adv show ?thesis by (simp add: fresh_statuses_def)
    next
      case False
      with k have "n = Suc k" by simp
      with st have all: "map ps_status ?done = replicate n StepCompleted" by (simp add: replicate_append_same [symmetric])
      then have "set_first StepPending StepInProgress ?done = ?done" by (intro set_first_absent) simp
      with all adv False show ?thesis by (simp add: fresh_statuses_def)
    qed
  next
    case False
    with assms(2) have "map ps_status (na_plan a) = replicate n StepCompleted" by (simp add: fresh_statuses_def)
    then have no: "StepInProgress \<notin> set (map ps_status (na_plan a))" "StepPending \<notin> set (map ps_status (na_plan a))"
      by (simp_all only: set_replicate_conv_if) auto
    from set_first_absent [OF no(1), of StepCompleted] set_first_absent [OF no(2), of StepInProgress]
    show ?thesis using assms(2) adv False by (simp add: fresh_statuses_def)
  qed
qed

lemma advance_mode: "na_mode (advance_plan_step a) = na_mode a"
  by (simp add: advance_plan_step_def on_plan_def)

lemma advance_all:
  assumes "na_mode a = Execute" "map ps_status (na_plan a) = fresh_statuses n j"
  shows "map ps_status (na_plan ((advance_plan_step ^^ k) a)) = fresh_statuses n (j + k) \<and>
    na_mode ((advance_plan_step ^^ k) a) = Execute"
proof (induction k)
  case (Suc k)
  then show ?case using advance_worked [of "(advance_plan_step ^^ k) a" n "j + k"] by (simp add: advance_mode)
qed (use assms in simp)



end
