(* ===== verification/NativeTools.thy ===== *)
theory NativeTools
  imports NativeAgent
begin

section \<open>Admitting and running tools (src/agent/tool_effects.rs, src/agent/execution.rs)\<close>

text \<open>
  The policy of the native agent for a batch of tool calls: the mode decides which tools exist, plan
  mode and the approval mode decide which shell commands run, a classifier and hooks may refuse, and
  a plan or a command that needs the user's decision pauses the batch. Lemmas: a call is invoked only
  if the policy allows it in the state in which it runs; nothing in a batch leaves plan mode.
\<close>

text \<open>The state of a batch: the agent and whether the batch enters plan mode.\<close>

type_synonym 'w batch_state = "'w native_agent \<times> bool"

definition on_agent :: "('w native_agent, 'e, 'a) em \<Rightarrow> ('w batch_state, 'e, 'a) em" where
  "on_agent f s = (case f (fst s) of (r, a) \<Rightarrow> (r, (a, snd s)))"

definition native_begin_batch :: "tool_call list \<Rightarrow> ('w batch_state, ustr, unit) em" where
  "native_begin_batch calls s =
     (let a = fst s;
          entering = list_ex (\<lambda>c. call_name c = ENTER_PLAN_MODE_TOOL_NAME) calls \<and>
                     is_tool_allowed_in_current_mode (na_mode a) ENTER_PLAN_MODE_TOOL_NAME in
      (Inr (), if entering \<and> na_mode a \<noteq> Plan
               then (emit_status (lit ''Entered read-only planning mode.'') (a\<lparr>na_mode := Plan\<rparr>), entering)
               else (a, entering)))"

subsection \<open>Admission\<close>

text \<open>A refused call: its error is reported and becomes its reply.\<close>

definition refuse :: "tool_call \<Rightarrow> ustr \<Rightarrow> 'w native_agent \<Rightarrow> tool_admission \<times> 'w native_agent" where
  "refuse call e a = (Reply (reply_error e), emit_event (EvToolResult (call_id call) (call_name call) e True) a)"

definition missing_proposed_plan_error :: ustr where
  "missing_proposed_plan_error =
     lit ''Error: exit_plan_mode requires a proposed plan. Emit a <proposed_plan> block before calling exit_plan_mode.''"

definition incomplete_proposed_plan_error :: ustr where
  "incomplete_proposed_plan_error =
     lit ''Error: exit_plan_mode requires a complete <proposed_plan>...</proposed_plan> block. Close the block with </proposed_plan> before calling exit_plan_mode.''"

definition entered_plan_mode_json :: json where
  "entered_plan_mode_json = JObj
     [(lit ''status'', JStr (lit ''entered_plan_mode'')),
      (lit ''instructions'', JArr (map JStr
        [lit ''Inspect the repository with read-only tools.'',
         lit ''Return a normal final answer for research, review, or planning-advice tasks.'',
         lit ''Use a <proposed_plan> block only when you are requesting approval to implement a concrete plan.'',
         lit ''Call exit_plan_mode only after the same assistant message contains a complete <proposed_plan>...</proposed_plan> block.'',
         lit ''Use <request_user_input> only when a blocking decision needs user input.'',
         lit ''Use <continue_inspection/> only when another read-only inspection pass is required.'']))]"

definition unavailable_error :: "ustr \<Rightarrow> execution_mode \<Rightarrow> ustr" where
  "unavailable_error name m = lit ''Error: tool '' @ [39] @ name @ [39] @ lit '' is unavailable in '' @
     execution_mode_label m @ lit '' mode. Inspect with read-only tools and return a plan instead.''"

definition plan_mode_bash_error :: "bash_request \<Rightarrow> ustr" where
  "plan_mode_bash_error r = lit ''Error: bash is read-only in plan mode. Refuse command '' @ [39] @ summary r @ [39] @
     lit '' and inspect with read-only commands or return a plan.''"

text \<open>Where the admission of a call stands after one of its checks.\<close>

datatype 'w gate = Decided tool_admission "'w native_agent" | Undecided "'w native_agent"

fun gate_bind :: "'w gate \<Rightarrow> ('w native_agent \<Rightarrow> 'w gate) \<Rightarrow> 'w gate" where
  "gate_bind (Decided r a) f = Decided r a"
| "gate_bind (Undecided a) f = f a"

definition gate_decided :: "tool_admission \<times> 'w native_agent \<Rightarrow> 'w gate" where
  "gate_decided p = Decided (fst p) (snd p)"

definition mode_gate :: "bool \<Rightarrow> tool_call \<Rightarrow> 'w native_agent \<Rightarrow> 'w gate" where
  "mode_gate entering call a =
     (if is_tool_allowed_in_current_mode (na_mode a) (call_name call) \<or>
         (call_name call = ENTER_PLAN_MODE_TOOL_NAME \<and> entering)
      then Undecided a else gate_decided (refuse call (unavailable_error (call_name call) (na_mode a)) a))"

definition planning_gate :: "'w agent_env \<Rightarrow> tool_call \<Rightarrow> 'w native_agent \<Rightarrow> 'w gate" where
  "planning_gate env call a =
     (if call_name call = ENTER_PLAN_MODE_TOOL_NAME then
        (let t = show_json env entered_plan_mode_json in
         Decided (Reply (reply_success t)) (emit_event (EvToolResult (call_id call) (call_name call) t False) a))
      else if call_name call = EXIT_PLAN_MODE_TOOL_NAME then
        (if na_plan a = [] then gate_decided (refuse call missing_proposed_plan_error a)
         else Decided NeedsApproval
           (emit_status (lit ''Plan ready for approval. Waiting for a structured user decision.'')
             (emit_event (EvApprovalRequested (call_id call) (lit ''plan''))
               (a\<lparr>na_pending_plan_exit := Some (call_id call)\<rparr>))))
      else Undecided a)"

definition approval_needed :: "bash_request \<Rightarrow> 'w native_agent \<Rightarrow> bool" where
  "approval_needed r a \<longleftrightarrow> \<not> na_full_access a \<and>
     (requires_escalated_permissions r \<or> na_bash_approval a = ApproveSuggestion)"

definition request_gate :: "tool_call \<Rightarrow> bash_request \<Rightarrow> 'w native_agent \<Rightarrow> 'w gate" where
  "request_gate call r a =
     (if na_mode a = Plan \<and> \<not> is_read_only r then gate_decided (refuse call (plan_mode_bash_error r) a)
      else if approval_needed r a then
        (if is_read_only r \<or> is_bash_prefix_approved r a
         then Undecided (emit_status (lit ''Shell command allowed by policy: '' @ summary r) a)
         else Decided NeedsApproval
           (emit_status (lit ''Bash approval required. Waiting for a structured user decision.'')
             (emit_event (EvApprovalRequested (call_id call) (lit ''shell''))
               (a\<lparr>na_pending_approval := Some \<lparr>pa_tool_use_id = call_id call, pa_request = r\<rparr>\<rparr>))))
      else Undecided a)"

definition bash_gate :: "'w agent_env \<Rightarrow> tool_call \<Rightarrow> 'w native_agent \<Rightarrow> 'w gate" where
  "bash_gate env call a =
     (if call_name call \<noteq> lit ''bash'' then Undecided a
      else (case from_value (ae_serde_error env) (call_input call) of
         Inl e \<Rightarrow> gate_decided (refuse call (lit ''Error: invalid bash payload: '' @ e) a)
       | Inr r \<Rightarrow> request_gate call r a))"

text \<open>\<open>Agent::classify_auto_permission\<close>; the instructions to the classifier belong to the parameter.\<close>

definition classify_auto_permission ::
  "'w agent_env \<Rightarrow> ustr \<Rightarrow> json \<Rightarrow> 'w native_agent \<Rightarrow> (ustr + auto_permission_response) \<times> 'w native_agent" where
  "classify_auto_permission env name input a =
     (case ae_classify env (build_classifier_messages (show_json env) (na_history a) name input) (na_world a) of
        (r, w) \<Rightarrow> (case r of Inl e \<Rightarrow> Inl e | Inr raw \<Rightarrow> parse_auto_permission_response (ae_read_response env) raw,
                    set_world w a))"

definition CLASSIFIABLE_TOOLS :: "ustr list" where
  "CLASSIFIABLE_TOOLS = map lit [''bash'', ''pty'', ''web_search'', ''web_fetch'', ''mcp_tool_search'']"

definition classifier_gate :: "'w agent_env \<Rightarrow> tool_call \<Rightarrow> 'w native_agent \<Rightarrow> 'w gate" where
  "classifier_gate env call a =
     (if na_full_access a \<or> call_name call \<notin> set CLASSIFIABLE_TOOLS then Undecided a
      else (case classify_auto_permission env (call_name call) (call_input call) a of
         (Inl e, a) \<Rightarrow> Undecided (emit_status (lit ''Auto-permission classifier unavailable: '' @ e) a)
       | (Inr resp, a) \<Rightarrow>
           (let a = emit_status (lit ''Auto-permission: '' @ decision_text (ap_decision resp) @ [32, 0x2014, 32] @
                      ap_reason resp) a in
            if ap_decision resp = Deny
            then gate_decided (refuse call (lit ''Error: auto-permission classifier denied this tool call: '' @ ap_reason resp) a)
            else Undecided a)))"

definition allows :: "hook_outcome \<Rightarrow> bool" where
  "allows oc \<longleftrightarrow> \<not> ho_timed_out oc \<and> ho_exit_code oc = Some 0"

fun run_pre_hooks :: "tool_call \<Rightarrow> ustr \<Rightarrow> 'w hook list \<Rightarrow> 'w native_agent \<Rightarrow> 'w gate" where
  "run_pre_hooks call input [] a = Undecided a"
| "run_pre_hooks call input (h # hs) a =
     (case snd h input (na_world a) of
        (Inl _, w) \<Rightarrow> Decided Omit (set_world w a)
      | (Inr outcome, w) \<Rightarrow>
          if \<not> allows outcome
          then Decided (Reply (reply_error (lit ''tool '' @ call_name call @ lit '' blocked by hook '' @ fst h))) (set_world w a)
          else run_pre_hooks call input hs (set_world w a))"

definition hook_gate :: "'w agent_env \<Rightarrow> tool_call \<Rightarrow> 'w native_agent \<Rightarrow> 'w gate" where
  "hook_gate env call a =
     (case ae_pre_hooks env of
        None \<Rightarrow> Undecided a
      | Some hooks \<Rightarrow>
          run_pre_hooks call
            (show_json env (JObj [(lit ''tool_name'', JStr (call_name call)), (lit ''tool_input'', call_input call)])) hooks a)"

definition plugin_gate :: "'w agent_env \<Rightarrow> tool_call \<Rightarrow> 'w native_agent \<Rightarrow> 'w gate" where
  "plugin_gate env call a =
     (case ae_plugin_pre env of
        None \<Rightarrow> Undecided a
      | Some hook \<Rightarrow>
          (case hook (call_name call) (call_input call) (na_world a) of
             (None, w) \<Rightarrow> Undecided (set_world w a)
           | (Some b, w) \<Rightarrow>
               gate_decided (refuse call (lit ''Error: tool '' @ call_name call @ lit '' blocked by plugin hook '' @ pb_plugin b @
                 lit '': '' @ pb_message b) (set_world w a))))"

definition registry_gate :: "'w agent_env \<Rightarrow> tool_call \<Rightarrow> 'w native_agent \<Rightarrow> 'w gate" where
  "registry_gate env call a =
     (if has_tool env (call_name call) then Undecided a
      else gate_decided (refuse call (lit ''Error: tool '' @ [39] @ call_name call @ [39] @
             lit '' is not registered in this session.'') a))"

definition running_status :: "'w agent_env \<Rightarrow> tool_call \<Rightarrow> ustr" where
  "running_status env call =
     (if call_name call = lit ''bash'' then
        (case from_value (ae_serde_error env) (call_input call) of
           Inr r \<Rightarrow> lit ''Running shell command: '' @ summary r | Inl _ \<Rightarrow> lit ''Running shell command.'')
      else lit ''Running tool '' @ call_name call @ lit ''.'')"

definition admit :: "'w agent_env \<Rightarrow> bool \<Rightarrow> tool_call \<Rightarrow> 'w native_agent \<Rightarrow> 'w gate" where
  "admit env entering call a =
     gate_bind (gate_bind (gate_bind (gate_bind (gate_bind (gate_bind (mode_gate entering call a)
       (planning_gate env call)) (bash_gate env call)) (classifier_gate env call)) (hook_gate env call))
       (plugin_gate env call)) (registry_gate env call)"

definition native_prepare_call :: "'w agent_env \<Rightarrow> tool_call \<Rightarrow> ('w batch_state, ustr, tool_admission) em" where
  "native_prepare_call env call s =
     (case admit env (snd s) call (fst s) of
        Decided r a \<Rightarrow> (Inr r, (a, snd s))
      | Undecided a \<Rightarrow>
          (Inr Invoke, (emit_status (running_status env call)
             (a\<lparr>na_inspection := record_tool (call_name call) (call_input call) (na_inspection a)\<rparr>), snd s)))"

subsection \<open>Running and replying\<close>

definition native_invoke_call :: "'w agent_env \<Rightarrow> tool_call \<Rightarrow> 'w batch_state \<Rightarrow> (tool_error + json) \<times> 'w batch_state" where
  "native_invoke_call env call s =
     (if \<not> has_tool env (call_name call)
      then (Inl (ExecutionFailed (lit ''tool '' @ [39] @ call_name call @ [39] @ lit '' is not registered in this session'')), s)
      else (case ae_call_tool env call (na_world (fst s)) of
         ((events, r), w) \<Rightarrow>
           (r, (fold (\<lambda>e. emit_event (EvToolProgress (call_id call) (call_name call) e)) events (set_world w (fst s)), snd s))))"

definition cache_tokens :: "string \<Rightarrow> json \<Rightarrow> nat" where
  "cache_tokens k v = (case Option.bind (jget k v) as_u64 of Some n \<Rightarrow> n mod 2 ^ 32 | None \<Rightarrow> 0)"

definition aux_cache_of :: "ustr \<Rightarrow> json \<Rightarrow> nat \<times> nat" where
  "aux_cache_of name v =
     (if name = lit ''team_create'' then
        (case Option.bind (jget ''team_results'' v) as_array of
           None \<Rightarrow> (0, 0)
         | Some rs \<Rightarrow> fold (\<lambda>r (h, m). (add_u32 h (cache_tokens ''cache_hit_tokens'' r),
             add_u32 m (cache_tokens ''cache_miss_tokens'' r))) rs (0, 0))
      else (cache_tokens ''cache_hit_tokens'' v, cache_tokens ''cache_miss_tokens'' v))"

definition note_aux_cache :: "ustr \<Rightarrow> json \<Rightarrow> 'w native_agent \<Rightarrow> 'w native_agent" where
  "note_aux_cache name v a =
     (if name \<in> set (map lit [''spawn_agent'', ''explore_agent'', ''plan_agent'', ''team_create'']) then
        (case aux_cache_of name v of (hit, miss) \<Rightarrow>
           a\<lparr>na_aux_cache_hit := add_u32 (na_aux_cache_hit a) hit, na_aux_cache_miss := add_u32 (na_aux_cache_miss a) miss\<rparr>)
      else a)"

definition note_todo :: "'w agent_env \<Rightarrow> ustr \<Rightarrow> json \<Rightarrow> ('w native_agent, ustr, unit) em" where
  "note_todo env name v a =
     (if name \<noteq> TODO_WRITE_TOOL_NAME then (Inr (), a)
      else (case ae_read_todo env v of
         Inl e \<Rightarrow> (Inl e, a)
       | Inr st \<Rightarrow>
           (case ae_save_todo env st (na_world a) of (r, w) \<Rightarrow>
             (let a = set_world w a;
                  a = (case r of Inr _ \<Rightarrow> a | Inl e \<Rightarrow> emit_status (lit ''Warning: failed to persist todo state: '' @ e) a) in
              (Inr (), emit_event (EvTodoUpdated st) (a\<lparr>na_todo := Some st\<rparr>))))))"

definition compact_result :: "'w agent_env \<Rightarrow> tool_call \<Rightarrow> json \<Rightarrow> ('w native_agent, ustr, ustr) em" where
  "compact_result env call v a =
     (case ae_compact_result env (call_name call) (call_id call) (call_input call) v (na_world a) of (r, w) \<Rightarrow> (r, set_world w a))"

definition complete_result :: "'w agent_env \<Rightarrow> tool_call \<Rightarrow> tool_error + json \<Rightarrow> ('w native_agent, ustr, tool_reply) em" where
  "complete_result env call result =
     (case result of
        Inr v \<Rightarrow>
          thenE (note_todo env (call_name call) v)
            (thenE (modifyE (note_aux_cache (call_name call) v))
              (bindE (compact_result env call v) (\<lambda>t.
                thenE (modifyE (emit_event (EvToolResult (call_id call) (call_name call) t False)))
                  (retE (reply_success t)))))
      | Inl e \<Rightarrow>
          (let t = lit ''Error: '' @ show_tool_error e in
           thenE (modifyE (emit_event (EvToolResult (call_id call) (call_name call) t True))) (retE (reply_error t))))"

definition native_tool_effects :: "'w agent_env \<Rightarrow> 'w batch_state tool_batch_effects" where
  "native_tool_effects env =
     \<lparr>begin_batch = native_begin_batch, prepare_call = native_prepare_call env,
      invoke_call = native_invoke_call env, complete_call = (\<lambda>call r. on_agent (complete_result env call r))\<rparr>"

text \<open>\<open>Agent::execute_tool_calls\<close>, for any policy of the batch.\<close>

definition execute_tool_calls_with ::
  "'w batch_state tool_batch_effects \<Rightarrow> tool_call list \<Rightarrow> ('w native_agent, ustr, tool_batch_output) em" where
  "execute_tool_calls_with eff calls a =
     (case execute_tool_batch eff calls (a, False) of
        (Inl e, s) \<Rightarrow> (Inl e, fst s)
      | (Inr out, s) \<Rightarrow>
          (let a = fst s;
               out = (if na_pending_approval a \<noteq> None \<or> na_pending_plan_exit a \<noteq> None
                      then out\<lparr>batch_outcome := AwaitingApproval\<rparr> else out) in
           (Inr (out\<lparr>batch_messages := enforce_tool_result_batch_budget (batch_messages out)\<rparr>), a)))"

definition execute_tool_calls :: "'w agent_env \<Rightarrow> tool_call list \<Rightarrow> ('w native_agent, ustr, tool_batch_output) em" where
  "execute_tool_calls env = execute_tool_calls_with (native_tool_effects env)"

subsection \<open>What a gate leaves alone\<close>

text \<open>The fields the policy looks at.\<close>

definition same_policy :: "'w native_agent \<Rightarrow> 'w native_agent \<Rightarrow> bool" where
  "same_policy a b \<longleftrightarrow> na_mode b = na_mode a \<and> na_bash_approval b = na_bash_approval a \<and>
     na_full_access b = na_full_access a \<and> na_approved_prefixes b = na_approved_prefixes a \<and>
     na_max_turns b = na_max_turns a \<and> na_token_budget b = na_token_budget a"

lemma same_policy_refl [simp]: "same_policy a a"
  by (simp add: same_policy_def)

lemma same_policy_trans: "same_policy a b \<Longrightarrow> same_policy b c \<Longrightarrow> same_policy a c"
  by (simp add: same_policy_def)

lemma same_policy_simps [simp]:
  "same_policy a (emit_event e b) = same_policy a b" "same_policy a (emit_status t b) = same_policy a b"
  "same_policy a (set_world w b) = same_policy a b" "same_policy a (b\<lparr>na_pending_plan_exit := x\<rparr>) = same_policy a b"
  "same_policy a (b\<lparr>na_pending_approval := y\<rparr>) = same_policy a b" "same_policy a (b\<lparr>na_inspection := z\<rparr>) = same_policy a b"
  by (simp_all add: same_policy_def emit_event_def emit_status_def set_world_def)

fun gate_agent :: "'w gate \<Rightarrow> 'w native_agent" where
  "gate_agent (Decided r a) = a"
| "gate_agent (Undecided a) = a"

lemma gate_bind_policy:
  "same_policy a (gate_agent g) \<Longrightarrow> (\<And>b. same_policy b (gate_agent (f b))) \<Longrightarrow> same_policy a (gate_agent (gate_bind g f))"
  by (cases g) (auto intro: same_policy_trans)

lemma run_pre_hooks_policy: "same_policy a (gate_agent (run_pre_hooks call input hs a))"
proof (induction hs arbitrary: a)
  case (Cons h hs)
  have "same_policy a (gate_agent (run_pre_hooks call input hs (set_world w a)))" for w
    by (rule same_policy_trans [OF _ Cons]) simp
  then show ?case by (auto split: prod.split sum.split)
qed simp

lemma classify_policy: "classify_auto_permission env name input a = (r, b) \<Longrightarrow> same_policy a b"
  by (auto simp: classify_auto_permission_def split: prod.splits)

lemma gates_keep_policy:
  "same_policy a (gate_agent (mode_gate entering call a))" "same_policy a (gate_agent (planning_gate env call a))"
  "same_policy a (gate_agent (bash_gate env call a))" "same_policy a (gate_agent (classifier_gate env call a))"
  "same_policy a (gate_agent (hook_gate env call a))" "same_policy a (gate_agent (plugin_gate env call a))"
  "same_policy a (gate_agent (registry_gate env call a))"
  by (auto simp: mode_gate_def planning_gate_def bash_gate_def request_gate_def classifier_gate_def hook_gate_def
      plugin_gate_def registry_gate_def refuse_def gate_decided_def Let_def run_pre_hooks_policy
      split: sum.split prod.split option.split dest: classify_policy)

lemma admit_policy: "same_policy a (gate_agent (admit env entering call a))"
  unfolding admit_def by (intro gate_bind_policy gates_keep_policy)

lemma gate_bind_Undecided: "gate_bind g f = Undecided b \<longleftrightarrow> (\<exists>a. g = Undecided a \<and> f a = Undecided b)"
  by (cases g) auto

subsection \<open>The policy holds where a call runs\<close>

definition bash_allowed :: "bash_request \<Rightarrow> 'w native_agent \<Rightarrow> bool" where
  "bash_allowed r a \<longleftrightarrow> (na_mode a = Plan \<longrightarrow> is_read_only r) \<and>
     (approval_needed r a \<longrightarrow> is_read_only r \<or> is_bash_prefix_approved r a)"

definition policy_allows :: "'w agent_env \<Rightarrow> tool_call \<Rightarrow> 'w native_agent \<Rightarrow> bool" where
  "policy_allows env call a \<longleftrightarrow>
     call_name call \<noteq> ENTER_PLAN_MODE_TOOL_NAME \<and> call_name call \<noteq> EXIT_PLAN_MODE_TOOL_NAME \<and>
     is_tool_allowed_in_current_mode (na_mode a) (call_name call) \<and> has_tool env (call_name call) \<and>
     (if call_name call = lit ''bash''
      then (case from_value (ae_serde_error env) (call_input call) of Inl _ \<Rightarrow> False | Inr r \<Rightarrow> bash_allowed r a)
      else True)"

lemma policy_allows_same: "same_policy a b \<Longrightarrow> policy_allows env call b = policy_allows env call a"
  by (simp add: policy_allows_def same_policy_def bash_allowed_def approval_needed_def is_bash_prefix_approved_def
      split: sum.split)

lemma bash_gate_allows:
  assumes "bash_gate env call a = Undecided b"
  shows "call_name call = lit ''bash'' \<Longrightarrow> \<exists>r. from_value (ae_serde_error env) (call_input call) = Inr r \<and> bash_allowed r a"
  using assms
  by (auto simp: bash_gate_def request_gate_def bash_allowed_def refuse_def gate_decided_def split: sum.splits if_splits)

lemma admitted_allowed:
  assumes "admit env entering call a = Undecided b"
  shows "policy_allows env call b"
proof -
  obtain a2 a3 where m: "mode_gate entering call a = Undecided a" and p: "planning_gate env call a = Undecided a"
    and g: "bash_gate env call a = Undecided a2" and rg: "registry_gate env call a3 = Undecided b"
    using assms by (auto simp: admit_def gate_bind_Undecided mode_gate_def planning_gate_def gate_decided_def Let_def split: if_splits)
  have "same_policy a b" using admit_policy [of a env entering call] assms by simp
  moreover have "policy_allows env call a"
    using m p rg bash_gate_allows [OF g]
    by (auto simp: policy_allows_def mode_gate_def planning_gate_def registry_gate_def gate_decided_def refuse_def Let_def
        split: if_splits sum.split)
  ultimately show ?thesis by (simp add: policy_allows_same)
qed

text \<open>A gate decides to reply, to pause or to omit; running is what is left when none decides.\<close>

definition never_invokes :: "'w gate \<Rightarrow> bool" where
  "never_invokes g \<longleftrightarrow> (\<forall>a. g \<noteq> Decided Invoke a)"

lemma never_invokes_simps [simp]:
  "never_invokes (Undecided a)" "never_invokes (Decided r a) \<longleftrightarrow> r \<noteq> Invoke" "never_invokes (gate_decided (refuse call e a))"
  by (auto simp: never_invokes_def gate_decided_def refuse_def)

lemma gate_bind_never_invokes:
  "never_invokes g \<Longrightarrow> (\<And>b. never_invokes (f b)) \<Longrightarrow> never_invokes (gate_bind g f)"
  by (cases g) auto

lemma run_pre_hooks_never_invokes: "never_invokes (run_pre_hooks call input hs a)"
  by (induction hs arbitrary: a) (auto split: prod.split sum.split)

lemma gates_never_invoke:
  "never_invokes (mode_gate entering call a)" "never_invokes (planning_gate env call a)"
  "never_invokes (bash_gate env call a)" "never_invokes (classifier_gate env call a)"
  "never_invokes (hook_gate env call a)" "never_invokes (plugin_gate env call a)"
  "never_invokes (registry_gate env call a)"
  by (auto simp: mode_gate_def planning_gate_def bash_gate_def request_gate_def classifier_gate_def hook_gate_def
      plugin_gate_def registry_gate_def Let_def run_pre_hooks_never_invokes split: sum.split prod.split option.split)

lemma admit_never_invokes: "admit env entering call a \<noteq> Decided Invoke b"
proof -
  have "never_invokes (admit env entering call a)"
    unfolding admit_def by (intro gate_bind_never_invokes gates_never_invoke)
  then show ?thesis by (simp add: never_invokes_def)
qed

lemma prepared_allowed:
  assumes "native_prepare_call env call s = (Inr Invoke, s')"
  shows "policy_allows env call (fst s')"
proof (cases "admit env (snd s) call (fst s)")
  case (Decided r a)
  with assms admit_never_invokes [of env "snd s" call "fst s"] show ?thesis by (auto simp: native_prepare_call_def)
next
  case (Undecided a)
  define b where "b = emit_status (running_status env call)
    (a\<lparr>na_inspection := record_tool (call_name call) (call_input call) (na_inspection a)\<rparr>)"
  have "same_policy a b" by (simp add: b_def)
  moreover have "fst s' = b" using assms Undecided by (auto simp: native_prepare_call_def b_def)
  ultimately show ?thesis using policy_allows_same admitted_allowed [OF Undecided] by blast
qed

subsection \<open>Checking the policy once more changes nothing\<close>

text \<open>The same batch, with the policy looked at again immediately before a tool runs.\<close>

definition checked_invoke_call :: "'w agent_env \<Rightarrow> tool_call \<Rightarrow> 'w batch_state \<Rightarrow> (tool_error + json) \<times> 'w batch_state" where
  "checked_invoke_call env call s =
     (if policy_allows env call (fst s) then native_invoke_call env call s
      else (Inl (ExecutionFailed (lit ''refused by the policy'')), s))"

definition checked_tool_effects :: "'w agent_env \<Rightarrow> 'w batch_state tool_batch_effects" where
  "checked_tool_effects env = (native_tool_effects env)\<lparr>invoke_call := checked_invoke_call env\<rparr>"

lemma batch_loop_same_invoke:
  assumes "\<And>c h h'. prepare_call eff c h = (Inr Invoke, h') \<Longrightarrow> invoke_call eff c h' = invoke_call eff' c h'"
    and "prepare_call eff' = prepare_call eff" "complete_call eff' = complete_call eff"
  shows "batch_loop eff calls msgs h = batch_loop eff' calls msgs h"
proof (induction calls arbitrary: msgs h)
  case (Cons c calls)
  obtain r h' where p: "prepare_call eff c h = (r, h')" by fastforce
  show ?case
  proof (cases "r = Inr Invoke")
    case True
    then have "invoke_call eff c h' = invoke_call eff' c h'" using assms(1) p by simp
    then have "invoke_and_complete eff c h' = invoke_and_complete eff' c h'"
      by (simp add: invoke_and_complete_def assms(3))
    with True p Cons show ?thesis by (simp add: bindE_apply assms(2) split: prod.split sum.split)
  next
    case False
    with p Cons show ?thesis
      by (simp add: bindE_apply assms(2) split: prod.split sum.split tool_admission.split)
  qed
qed simp

lemma native_effects_simps [simp]:
  "begin_batch (native_tool_effects env) = native_begin_batch"
  "prepare_call (native_tool_effects env) = native_prepare_call env"
  "invoke_call (native_tool_effects env) = native_invoke_call env"
  "complete_call (native_tool_effects env) = (\<lambda>call r. on_agent (complete_result env call r))"
  "begin_batch (checked_tool_effects env) = native_begin_batch"
  "prepare_call (checked_tool_effects env) = native_prepare_call env"
  "invoke_call (checked_tool_effects env) = checked_invoke_call env"
  "complete_call (checked_tool_effects env) = (\<lambda>call r. on_agent (complete_result env call r))"
  by (simp_all add: native_tool_effects_def checked_tool_effects_def)

lemma checked_batch: "execute_tool_calls_with (checked_tool_effects env) = execute_tool_calls env"
proof -
  have "execute_tool_batch (native_tool_effects env) calls s = execute_tool_batch (checked_tool_effects env) calls s"
    for calls and s :: "'a batch_state"
    using batch_loop_same_invoke [of "native_tool_effects env" "checked_tool_effects env"] prepared_allowed [of env]
    by (simp add: execute_tool_batch_def checked_invoke_call_def thenE_apply split: prod.split sum.split)
  then show ?thesis by (simp add: fun_eq_iff execute_tool_calls_def execute_tool_calls_with_def)
qed

subsection \<open>A batch never widens its own permissions\<close>

text \<open>The permissions stay, except that an executing agent may put itself into plan mode.\<close>

definition not_widened :: "'w native_agent \<Rightarrow> 'w native_agent \<Rightarrow> bool" where
  "not_widened a b \<longleftrightarrow> same_policy (a\<lparr>na_mode := na_mode b\<rparr>) b \<and>
     (na_mode b = na_mode a \<or> na_mode a = Execute \<and> na_mode b = Plan)"

lemma same_not_widened: "same_policy a b \<Longrightarrow> not_widened a b"
  by (simp add: not_widened_def same_policy_def)

lemma not_widened_refl [simp]: "not_widened a a"
  by (simp add: same_not_widened)

lemma not_widened_trans: "not_widened a b \<Longrightarrow> not_widened b c \<Longrightarrow> not_widened a c"
  by (auto simp: not_widened_def same_policy_def)

lemma batch_loop_relates:
  assumes r: "\<And>h. R h h" and t: "\<And>a b c. R a b \<Longrightarrow> R b c \<Longrightarrow> R a c"
    and "\<And>c h r h'. prepare_call eff c h = (r, h') \<Longrightarrow> R h h'"
    and "\<And>c h r h'. invoke_call eff c h = (r, h') \<Longrightarrow> R h h'"
    and "\<And>c x h r h'. complete_call eff c x h = (r, h') \<Longrightarrow> R h h'"
  shows "batch_loop eff calls msgs h = (out, h') \<Longrightarrow> R h h'"
proof (induction calls arbitrary: msgs h)
  case (Cons c calls)
  obtain q h1 where p: "prepare_call eff c h = (q, h1)" by fastforce
  note h1 = assms(3) [OF p]
  show ?case
  proof (cases "q = Inr Invoke")
    case True
    obtain x h2 where i: "invoke_call eff c h1 = (x, h2)" by fastforce
    obtain y h3 where y: "complete_call eff c x h2 = (y, h3)" by fastforce
    have "R h h3" using h1 assms(4) [OF i] assms(5) [OF y] t by blast
    moreover have "R h3 h'"
      using Cons True p i y r by (auto simp: bindE_apply invoke_and_complete_def split: sum.splits)
    ultimately show ?thesis using t by blast
  next
    case False
    have "R h1 h'"
      using Cons False p r by (auto simp: bindE_apply split: sum.splits tool_admission.splits)
    with h1 t show ?thesis by blast
  qed
qed (use assms in simp)

lemma prepared_policy: "native_prepare_call env call s = (r, s') \<Longrightarrow> same_policy (fst s) (fst s')"
  using admit_policy [of "fst s" env "snd s" call]
  by (cases "admit env (snd s) call (fst s)") (auto simp: native_prepare_call_def)

lemma fold_emit_policy [simp]: "same_policy a (fold (\<lambda>e. emit_event (f e)) es b) = same_policy a b"
  by (induction es arbitrary: b) simp_all

lemma invoked_policy: "native_invoke_call env call s = (r, s') \<Longrightarrow> same_policy (fst s) (fst s')"
  by (auto simp: native_invoke_call_def split: if_splits prod.splits)

lemma same_policy_todo [simp]:
  "same_policy a (b\<lparr>na_todo := x\<rparr>) = same_policy a b"
  "same_policy a (b\<lparr>na_aux_cache_hit := n, na_aux_cache_miss := m\<rparr>) = same_policy a b"
  by (simp_all add: same_policy_def)

lemma note_todo_policy: "note_todo env name v a = (r, b) \<Longrightarrow> same_policy a b"
  by (auto simp: note_todo_def Let_def split: if_splits sum.splits prod.splits)

lemma note_aux_policy: "same_policy a (note_aux_cache name v a)"
  by (simp add: note_aux_cache_def split: prod.split)

lemma compact_result_policy: "compact_result env call v a = (r, b) \<Longrightarrow> same_policy a b"
  by (auto simp: compact_result_def split: prod.splits)

lemma completed_policy: "complete_result env call x a = (r, b) \<Longrightarrow> same_policy a b"
proof (cases x)
  case (Inr v)
  assume c: "complete_result env call x a = (r, b)"
  obtain q a1 where n: "note_todo env (call_name call) v a = (q, a1)" by fastforce
  obtain t a2 where cr: "compact_result env call v (note_aux_cache (call_name call) v a1) = (t, a2)" by fastforce
  have "same_policy a a1" using note_todo_policy [OF n] .
  moreover have "same_policy a1 a2"
    using note_aux_policy compact_result_policy [OF cr] same_policy_trans by blast
  ultimately show ?thesis using c Inr n cr
    by (auto simp: complete_result_def thenE_apply bindE_apply split: sum.splits intro: same_policy_trans)
qed (auto simp: complete_result_def Let_def thenE_apply)

lemma begun_not_widened: "native_begin_batch calls s = (r, s') \<Longrightarrow> not_widened (fst s) (fst s')"
  by (auto simp: native_begin_batch_def not_widened_def same_policy_def is_tool_allowed_in_current_mode_def
      emit_status_def emit_event_def Let_def split: if_splits execution_mode.splits)

lemma execute_tool_calls_not_widened:
  assumes "execute_tool_calls env calls a = (r, b)"
  shows "not_widened a b"
proof -
  obtain q s where q: "execute_tool_batch (native_tool_effects env) calls (a, False) = (q, s)" by (metis surj_pair)
  have b: "b = fst s" using assms q by (auto simp: execute_tool_calls_def execute_tool_calls_with_def Let_def split: sum.splits)
  obtain e s1 where e: "native_begin_batch calls (a, False) = (e, s1)" by (metis surj_pair)
  have com: "same_policy (fst h) (fst h')" if "complete_call (native_tool_effects env) c x h = (u, h')" for c x h u h'
    using that completed_policy [of env c x "fst h"] by (auto simp: on_agent_def split: prod.splits)
  have "same_policy (fst s1) (fst s2)" if "batch_loop (native_tool_effects env) calls [] s1 = (out, s2)" for out s2
    by (rule batch_loop_relates [where R = "\<lambda>h h'. same_policy (fst h) (fst h')", OF _ _ _ _ _ that])
      (simp_all add: same_policy_trans prepared_policy invoked_policy com del: native_effects_simps(4),
       (blast intro: same_policy_trans)?)
  then have "not_widened (fst s1) (fst s)"
    using q e by (auto simp: execute_tool_batch_def thenE_apply intro: same_not_widened split: sum.splits)
  with begun_not_widened [OF e] b show ?thesis using not_widened_trans by fastforce
qed

subsection \<open>Two answers of the classifier and the hooks\<close>

text \<open>An answer that asks for the user's approval is treated like one that allows the call.\<close>

lemma ask_is_allow:
  assumes "classify_auto_permission env (call_name call) (call_input call) a = (Inr resp, b)" "ap_decision resp = Ask"
  shows "\<exists>c. classifier_gate env call a = Undecided c"
  using assms by (simp add: classifier_gate_def Let_def)

text \<open>A hook that cannot be run leaves the call without a reply, and the batch goes on.\<close>

lemma failing_hook_omits_the_reply:
  assumes "native_prepare_call env call s = (Inr Omit, s')"
  shows "batch_loop (native_tool_effects env) [call] msgs s = (Inr \<lparr>batch_messages = msgs, batch_outcome = ResultsAvailable\<rparr>, s')"
  using assms by (simp add: bindE_apply)

lemma failing_hook_omits:
  assumes "snd h input (na_world a) = (Inl e, w)"
  shows "run_pre_hooks call input (h # hs) a = Decided Omit (set_world w a)"
  using assms by simp

end
