(* ===== verification/ModelContext.thy ===== *)
theory ModelContext
  imports ToolResults "HOL-Library.Multiset"
begin

section \<open>Context blocks in the history (src/model_context.rs, src/agent/memory_retrieval.rs)\<close>

text \<open>
  What the model is told about its surroundings (environment, mode, prompt sources, skills, recalled
  memories) is kept as typed blocks in front of the latest request of the user, and written again
  only when it changed. Lemmas: writing keeps the request and every other message; writing the same
  fragments twice changes nothing. The text of a JSON value is a parameter.
\<close>

datatype model_context_kind =
  EnvironmentContext | ExecutionModeContext | ProtocolPromptSources | SkillListing | RetrievedMemory

record model_context_fragment =
  mf_kind :: model_context_kind
  mf_text :: ustr

definition MODEL_CONTEXT_BLOCK_TYPE :: string where
  "MODEL_CONTEXT_BLOCK_TYPE = ''rara_model_context''"

definition context_kind_text :: "model_context_kind \<Rightarrow> ustr" where
  "context_kind_text k = (case k of EnvironmentContext \<Rightarrow> lit ''environment'' | ExecutionModeContext \<Rightarrow> lit ''execution_mode''
     | ProtocolPromptSources \<Rightarrow> lit ''protocol_prompt_sources'' | SkillListing \<Rightarrow> lit ''skill_listing''
     | RetrievedMemory \<Rightarrow> lit ''retrieved_memory'')"

definition context_sort_key :: "model_context_kind \<Rightarrow> nat" where
  "context_sort_key k = (case k of EnvironmentContext \<Rightarrow> 0 | ExecutionModeContext \<Rightarrow> 1 | ProtocolPromptSources \<Rightarrow> 2
     | SkillListing \<Rightarrow> 3 | RetrievedMemory \<Rightarrow> 4)"

definition model_context_text :: "json \<Rightarrow> ustr option" where
  "model_context_text b = (if is_block MODEL_CONTEXT_BLOCK_TYPE b then jstr ''text'' b else None)"

definition model_context_kind :: "json \<Rightarrow> model_context_kind option" where
  "model_context_kind b =
     (if \<not> is_block MODEL_CONTEXT_BLOCK_TYPE b then None
      else Option.bind (jstr ''kind'' b) (\<lambda>t. find (\<lambda>k. t = context_kind_text k)
        [EnvironmentContext, ExecutionModeContext, ProtocolPromptSources, SkillListing, RetrievedMemory]))"

fun find_some :: "('a \<Rightarrow> 'b option) \<Rightarrow> 'a list \<Rightarrow> 'b option" where
  "find_some f [] = None"
| "find_some f (x # xs) = (case f x of None \<Rightarrow> find_some f xs | Some y \<Rightarrow> Some y)"

definition latest_model_context_text :: "message list \<Rightarrow> model_context_kind \<Rightarrow> ustr option" where
  "latest_model_context_text ms k =
     find_some (\<lambda>m. find_some (\<lambda>b. if model_context_kind b = Some k then model_context_text b else None)
       (rev (message_blocks m))) (rev ms)"

definition model_context_block :: "model_context_fragment \<Rightarrow> json" where
  "model_context_block f = JObj [(lit ''type'', JStr (lit MODEL_CONTEXT_BLOCK_TYPE)),
     (lit ''kind'', JStr (context_kind_text (mf_kind f))), (lit ''text'', JStr (mf_text f))]"

definition text_block_json :: "ustr \<Rightarrow> json" where
  "text_block_json t = JObj [(lit ''type'', JStr (lit ''text'')), (lit ''text'', JStr t)]"

definition content_blocks :: "(json \<Rightarrow> ustr) \<Rightarrow> json \<Rightarrow> json list" where
  "content_blocks show_json v =
     (case v of JArr items \<Rightarrow> items | JStr t \<Rightarrow> [text_block_json t] | _ \<Rightarrow> [text_block_json (show_json v)])"

definition replaced_by :: "model_context_fragment list \<Rightarrow> json \<Rightarrow> bool" where
  "replaced_by fs b = (case model_context_kind b of None \<Rightarrow> False | Some k \<Rightarrow> list_ex (\<lambda>f. mf_kind f = k) fs)"

definition block_sort_key :: "json \<Rightarrow> nat" where
  "block_sort_key b = (case model_context_kind b of None \<Rightarrow> 255 | Some k \<Rightarrow> context_sort_key k)"

definition with_context :: "model_context_fragment list \<Rightarrow> json list \<Rightarrow> json list" where
  "with_context fs blocks =
     sort_key block_sort_key (map model_context_block fs @ filter (\<lambda>b. \<not> replaced_by fs b) blocks)"

text \<open>\<open>iter_mut().rfind(..)\<close>: the last message that is a text request of the user.\<close>

definition request_index :: "message list \<Rightarrow> nat option" where
  "request_index ms = latest_user_text_message_index ms"

definition upsert_latest_user_model_context ::
  "(json \<Rightarrow> ustr) \<Rightarrow> message list \<Rightarrow> model_context_fragment list \<Rightarrow> bool \<times> message list" where
  "upsert_latest_user_model_context show_json ms fs =
     (if fs = [] then (False, ms)
      else (case request_index ms of
         None \<Rightarrow> (False, ms)
       | Some i \<Rightarrow>
           (let new = JArr (with_context fs (content_blocks show_json (content (ms ! i)))) in
            (new \<noteq> content (ms ! i), ms[i := (ms ! i)\<lparr>content := new\<rparr>]))))"

subsection \<open>What has changed (memory_retrieval.rs)\<close>

definition push_changed_context :: "message list \<Rightarrow> model_context_kind \<Rightarrow> ustr \<Rightarrow> model_context_fragment list" where
  "push_changed_context ms k t =
     (if latest_model_context_text ms k = Some t then [] else [\<lparr>mf_kind = k, mf_text = t\<rparr>])"

text \<open>A source that is gone is overwritten once by a text that says so.\<close>

definition changed_or_cleared ::
  "message list \<Rightarrow> model_context_kind \<Rightarrow> ustr \<Rightarrow> ustr option \<Rightarrow> model_context_fragment list" where
  "changed_or_cleared ms k cleared t =
     (case t of
        Some t \<Rightarrow> push_changed_context ms k t
      | None \<Rightarrow>
          (case latest_model_context_text ms k of
             None \<Rightarrow> [] | Some old \<Rightarrow> if old = cleared then [] else [\<lparr>mf_kind = k, mf_text = cleared\<rparr>]))"

subsection \<open>Writing keeps everything else\<close>

lemma block_of_fragment:
  "model_context_kind (model_context_block f) = Some (mf_kind f)" "replaced_by fs (model_context_block f) \<longleftrightarrow> mf_kind f \<in> mf_kind ` set fs"
proof -
  show k: "model_context_kind (model_context_block f) = Some (mf_kind f)"
    by (cases "mf_kind f") (simp_all add: model_context_kind_def model_context_block_def is_block_def jstr_def as_str_def
        MODEL_CONTEXT_BLOCK_TYPE_def context_kind_text_def)
  have "list_ex (\<lambda>g. mf_kind g = mf_kind f) fs \<longleftrightarrow> mf_kind f \<in> mf_kind ` set fs"
    unfolding list_ex_iff image_iff by metis
  then show "replaced_by fs (model_context_block f) \<longleftrightarrow> mf_kind f \<in> mf_kind ` set fs"
    by (simp add: replaced_by_def k)
qed

lemma sort_key_sorted: "sorted (map f xs) \<Longrightarrow> sort_key f xs = xs"
  by (rule properties_for_sort_key) simp_all

lemma sort_key_append_sort: "sort_key f (xs @ sort_key f ys) = sort_key f (xs @ ys)"
proof (rule properties_for_sort_key)
  fix k
  have swap: "(\<lambda>x. f k = f x) = (\<lambda>x. f x = f k)" by auto
  show "filter (\<lambda>x. f k = f x) (sort_key f (xs @ ys)) = filter (\<lambda>x. f k = f x) (xs @ sort_key f ys)"
    by (simp only: swap sort_key_stable filter_append)
qed simp_all

lemma with_context_keeps_others:
  "filter (\<lambda>b. model_context_kind b = None) (with_context fs bs) = filter (\<lambda>b. model_context_kind b = None) bs"
proof -
  let ?P = "\<lambda>b. model_context_kind b = None"
  have "filter ?P (with_context fs bs) = sort_key block_sort_key (filter ?P (filter (\<lambda>b. \<not> replaced_by fs b) bs))"
    by (simp add: with_context_def filter_sort block_of_fragment filter_map o_def)
  also have "filter ?P (filter (\<lambda>b. \<not> replaced_by fs b) bs) = filter ?P bs"
    by (auto simp: replaced_by_def intro: filter_cong)
  also have "sort_key block_sort_key (filter ?P bs) = filter ?P bs"
    by (rule sort_key_sorted, induction bs) (auto simp: block_sort_key_def split: option.split)
  finally show ?thesis .
qed

lemma with_context_idem: "with_context fs (with_context fs bs) = with_context fs bs"
proof -
  let ?R = "filter (\<lambda>b. \<not> replaced_by fs b) bs"
  have "filter (\<lambda>b. \<not> replaced_by fs b) (map model_context_block fs) = []"
    by (auto simp: filter_empty_conv block_of_fragment)
  then have "filter (\<lambda>b. \<not> replaced_by fs b) (with_context fs bs) = sort_key block_sort_key ?R"
    by (simp add: with_context_def filter_sort)
  then show ?thesis by (simp add: with_context_def [of fs "with_context fs bs"] sort_key_append_sort) (simp add: with_context_def)
qed

lemma request_index_iff:
  "request_index ms = Some i \<longleftrightarrow> i < length ms \<and> role (ms ! i) = lit ''user'' \<and> message_contains_text_request (ms ! i) \<and>
     (\<forall>j. i < j \<longrightarrow> j < length ms \<longrightarrow> \<not> (role (ms ! j) = lit ''user'' \<and> message_contains_text_request (ms ! j)))"
proof (induction ms rule: rev_induct)
  case (snoc m ms)
  have e: "enumerate 0 (ms @ [m]) = enumerate 0 ms @ [(length ms, m)]" by (simp add: enumerate_append_eq)
  show ?case
  proof (cases "role m = lit ''user'' \<and> message_contains_text_request m")
    case True
    then have "request_index (ms @ [m]) = Some (length ms)"
      by (simp add: request_index_def latest_user_text_message_index_def e)
    with True show ?thesis by (auto simp: nth_append less_Suc_eq)
  next
    case False
    then have "request_index (ms @ [m]) = request_index ms"
      by (auto simp: request_index_def latest_user_text_message_index_def e)
    with False snoc show ?thesis by (auto simp: nth_append less_Suc_eq)
  qed
qed (simp add: request_index_def latest_user_text_message_index_def)

lemma text_block_not_context: "is_block ''text'' b \<Longrightarrow> model_context_kind b = None"
  by (auto simp: model_context_kind_def is_block_def MODEL_CONTEXT_BLOCK_TYPE_def)

lemma contains_text_blocks:
  assumes "message_contains_text_request m"
  shows "list_ex (\<lambda>b. is_block ''text'' b \<and> (case jstr ''text'' b of Some t \<Rightarrow> trim t \<noteq> [] | None \<Rightarrow> False))
    (content_blocks show_json (content m))"
  using assms
  by (cases "content m") (auto simp: message_contains_text_request_def message_blocks_def content_blocks_def as_str_def
      as_array_def text_block_json_def is_block_def jstr_def)

lemma with_context_request:
  assumes "message_contains_text_request m"
  shows "message_contains_text_request (m\<lparr>content := JArr (with_context fs (content_blocks show_json (content m)))\<rparr>)"
proof -
  obtain b where b: "b \<in> set (content_blocks show_json (content m))" "is_block ''text'' b"
    "case jstr ''text'' b of Some t \<Rightarrow> trim t \<noteq> [] | None \<Rightarrow> False"
    using contains_text_blocks [OF assms, of show_json] by (auto simp: list_ex_iff)
  then have "b \<in> set (filter (\<lambda>b. model_context_kind b = None) (content_blocks show_json (content m)))"
    by (simp add: text_block_not_context)
  then have "b \<in> set (with_context fs (content_blocks show_json (content m)))"
    unfolding with_context_keeps_others [symmetric, of "content_blocks show_json (content m)" fs] by simp
  with b show ?thesis by (auto simp: message_contains_text_request_def message_blocks_def list_ex_iff)
qed

text \<open>Writing touches only context blocks of the latest request.\<close>

theorem upsert_keeps_the_conversation:
  assumes "upsert_latest_user_model_context show_json ms fs = (changed, ms')" "j < length ms"
  shows "length ms' = length ms \<and> role (ms' ! j) = role (ms ! j) \<and>
    (ms' ! j = ms ! j \<or> filter (\<lambda>b. model_context_kind b = None) (message_blocks (ms' ! j)) =
       filter (\<lambda>b. model_context_kind b = None) (content_blocks show_json (content (ms ! j))))"
proof (cases "fs = [] \<or> request_index ms = None")
  case True
  with assms show ?thesis by (auto simp: upsert_latest_user_model_context_def split: if_splits)
next
  case False
  then obtain i where "request_index ms = Some i" by auto
  with assms False show ?thesis
    by (cases "i = j") (auto simp: upsert_latest_user_model_context_def Let_def message_blocks_def with_context_keeps_others)
qed

text \<open>Writing the same fragments again changes nothing.\<close>

theorem upsert_is_idempotent:
  assumes "upsert_latest_user_model_context show_json ms fs = (changed, ms')"
  shows "upsert_latest_user_model_context show_json ms' fs = (False, ms')"
proof (cases "fs = [] \<or> request_index ms = None")
  case True
  with assms show ?thesis by (auto simp: upsert_latest_user_model_context_def split: if_splits)
next
  case False
  then obtain i where i: "request_index ms = Some i" by auto
  define m' where "m' = (ms ! i)\<lparr>content := JArr (with_context fs (content_blocks show_json (content (ms ! i))))\<rparr>"
  have ms': "ms' = ms[i := m']" using assms False i by (auto simp: upsert_latest_user_model_context_def Let_def m'_def)
  have r: "i < length ms" "role (ms ! i) = lit ''user''" "message_contains_text_request (ms ! i)"
    using i by (simp_all add: request_index_iff)
  have "request_index ms' = Some i"
    using i with_context_request [OF r(3)] by (auto simp: request_index_iff ms' m'_def nth_list_update)
  moreover have "content (ms' ! i) = JArr (with_context fs (content_blocks show_json (content (ms ! i))))"
    using r(1) by (simp add: ms' m'_def)
  moreover have "ms'[i := (ms' ! i)\<lparr>content := JArr (with_context fs (content_blocks show_json (content (ms ! i))))\<rparr>] = ms'"
    using r(1) by (simp add: ms' m'_def)
  ultimately show ?thesis
    using False by (simp add: upsert_latest_user_model_context_def Let_def content_blocks_def [of _ "JArr _"] with_context_idem)
qed

end
