(* ===== verification/NativeLoop.thy ===== *)
theory NativeLoop
  imports NativeTools ModelContext
begin

section \<open>The loop of the native agent (src/agent/loop_driver.rs, model_policy.rs, runtime.rs, execution.rs)\<close>

text \<open>
  The native agent as the host of the shared loop executor: a model turn on the projected history, the
  plan read from the model's text, tools under the policy of a batch, continuations and stop hooks.
  The provider, the prompt, the mailbox, hooks and the session store are parameters. The trace shown
  by clients, timings and token fingerprints are left out. Lemmas: every tool the loop runs is allowed
  by the policy in the state in which it runs; the loop never widens its permissions; with a turn
  limit it returns.
\<close>

record stop_hook_block =
  sb_hook_id :: ustr
  sb_reason :: ustr

record stop_hook_output =
  so_decision :: "ustr option"
  so_reason :: "ustr option"
  so_additional_context :: "ustr option"

record 'w native_env =
  ne_agent :: "'w agent_env"
  ne_parse :: "ustr \<Rightarrow> json option"
  ne_mailbox :: "'w \<Rightarrow> json list \<times> 'w"
  ne_hook_outputs :: "'w \<Rightarrow> ustr list \<times> 'w"
  ne_system_prompt :: "'w native_agent \<Rightarrow> ustr"
  ne_projection_policy :: "'w native_agent \<Rightarrow> projection_policy"
  ne_ask :: "message list \<Rightarrow> json list \<Rightarrow> 'w \<Rightarrow> (llm_stream_event list \<times> (ustr + llm_response)) \<times> 'w"
  ne_cancelled :: "'w \<Rightarrow> bool"
  ne_model_label :: "ustr option"
  ne_save_plan :: "ustr \<Rightarrow> 'w \<Rightarrow> (ustr + unit) \<times> 'w"
  ne_stop_hooks :: "'w hook list option"
  ne_stop_input :: "bool \<Rightarrow> ustr \<Rightarrow> ustr"
  ne_stop_output :: "ustr \<Rightarrow> stop_hook_output option"
  ne_session_end :: "ustr option \<Rightarrow> bool \<Rightarrow> 'w \<Rightarrow> 'w"
  ne_is_interrupt :: "ustr \<Rightarrow> bool"

definition on_world :: "('w \<Rightarrow> 'w) \<Rightarrow> 'w native_agent \<Rightarrow> 'w native_agent" where
  "on_world f a = set_world (f (na_world a)) a"

subsection \<open>What a response does to the agent (model_policy.rs)\<close>

record 'w policy_state =
  ps_agent :: "'w native_agent"
  ps_plan_updated :: bool
  ps_malformed :: bool
  ps_continue :: bool

definition upd_agent :: "('w native_agent \<Rightarrow> 'w native_agent) \<Rightarrow> 'w policy_state \<Rightarrow> 'w policy_state" where
  "upd_agent f s = s\<lparr>ps_agent := f (ps_agent s)\<rparr>"

definition native_event :: "model_turn_event \<Rightarrow> 'w policy_state \<Rightarrow> 'w policy_state" where
  "native_event e = upd_agent (emit_event (case e of
     Streamed (TextDelta t) \<Rightarrow> EvAssistantDelta t
   | Streamed (ReasoningDelta t) \<Rightarrow> EvAssistantThinkingDelta t
   | AssistantText t \<Rightarrow> EvAssistantText t
   | ToolUseEvent call \<Rightarrow> EvToolUse (call_id call) (call_name call) (call_input call)))"

definition model_event_label :: "'w native_env \<Rightarrow> ustr" where
  "model_event_label env = (case ne_model_label env of None \<Rightarrow> lit ''unknown''
     | Some l \<Rightarrow> if trim l = [] then lit ''unknown'' else l)"

definition note_usage :: "token_usage \<Rightarrow> 'w native_agent \<Rightarrow> 'w native_agent" where
  "note_usage u a =
     a\<lparr>na_input_tokens := add_u32 (na_input_tokens a) (input_tokens u),
       na_output_tokens := add_u32 (na_output_tokens a) (output_tokens u),
       na_cache_hit := add_u32 (na_cache_hit a) (cache_hit_tokens u),
       na_cache_miss := add_u32 (na_cache_miss a) (cache_miss_tokens u),
       na_core := record_actual_prompt_tokens u (na_core a)\<rparr>"

definition native_observe_response :: "'w native_env \<Rightarrow> ustr + llm_response \<Rightarrow> 'w policy_state \<Rightarrow> 'w policy_state" where
  "native_observe_response env r = (case r of
     Inl _ \<Rightarrow> id
   | Inr resp \<Rightarrow> upd_agent (\<lambda>a.
       (let a = emit_event (EvModelResponse (model_event_label env)
                  (case usage resp of None \<Rightarrow> 0 | Some u \<Rightarrow> output_tokens u) (stop_reason resp)) a in
        case usage resp of None \<Rightarrow> a | Some u \<Rightarrow> note_usage u a)))"

definition adopt_plan :: "'w policy_state \<Rightarrow> 'w policy_state" where
  "adopt_plan s = (upd_agent (\<lambda>a. emit_event (EvPlanUpdated (na_plan a) (na_plan_explanation a)) a) s)\<lparr>ps_plan_updated := True\<rparr>"

definition read_plan_text :: "ustr \<Rightarrow> 'w policy_state \<Rightarrow> 'w policy_state" where
  "read_plan_text t s =
     (if na_mode (ps_agent s) \<noteq> Plan then s
      else let s = s\<lparr>ps_malformed := (ps_malformed s \<or> has_unclosed_proposed_plan_block t)\<rparr> in
        (case capture_plan_from_text t (ps_agent s) of
           (captured, a) \<Rightarrow> if captured then adopt_plan (s\<lparr>ps_agent := a\<rparr>) else s\<lparr>ps_agent := a\<rparr>))"

definition native_prepare_text :: "'w native_env \<Rightarrow> ustr \<Rightarrow> stream_evidence \<Rightarrow> ('w policy_state, ustr, ustr) em" where
  "native_prepare_text env t stream s =
     (case strip_continue_inspection_control t of (clean, requested) \<Rightarrow>
       (let s = s\<lparr>ps_continue := (ps_continue s \<or> requested)\<rparr>;
            clean = scrub_internal_control_tokens (ne_parse env) clean in
        if trim clean = [] then (Inr clean, s)
        else (Inr clean, read_plan_text clean (if text_delta stream then s else native_event (AssistantText clean) s))))"

definition native_prepare_tool_input :: "tool_call \<Rightarrow> ('w policy_state, ustr, json) em" where
  "native_prepare_tool_input call s =
     (Inr (call_input call),
      (if na_mode (ps_agent s) = Plan \<and> call_name call = EXIT_PLAN_MODE_TOOL_NAME \<and> \<not> ps_plan_updated s then
         (case parse_exit_plan_tool_input (call_input call) of
            None \<Rightarrow> s
          | Some (steps, explanation) \<Rightarrow>
              adopt_plan (upd_agent (\<lambda>a. a\<lparr>na_plan := steps, na_plan_explanation := explanation\<rparr>) s))
       else s))"

definition native_finish_response :: "'w native_env \<Rightarrow> ('w policy_state, ustr, unit) em" where
  "native_finish_response env s =
     (if na_mode (ps_agent s) = Plan \<and> ps_plan_updated s then
        (case ne_save_plan env (current_plan_markdown (ps_agent s)) (na_world (ps_agent s)) of
           (r, w) \<Rightarrow> (r, upd_agent (set_world w) s))
      else (Inr (), s))"

definition native_policy :: "'w native_env \<Rightarrow> 'w policy_state model_turn_policy" where
  "native_policy env =
     \<lparr>on_event = native_event, observe_response = native_observe_response env,
      prepare_text = native_prepare_text env, prepare_tool_input = native_prepare_tool_input,
      finish_response = native_finish_response env\<rparr>"

subsection \<open>A model turn (runtime.rs)\<close>

record turn_output =
  to_assistant :: "message option"
  to_calls :: "tool_call list"
  to_plan_updated :: bool
  to_malformed :: bool
  to_continue :: bool
  to_evidence :: response_evidence

definition is_compact_boundary_message :: "message \<Rightarrow> bool" where
  "is_compact_boundary_message m \<longleftrightarrow> role m = lit ''system'' \<and> compact_boundary_item (content m) \<noteq> None"

definition turn_request_messages :: "'w native_env \<Rightarrow> 'w native_agent \<Rightarrow> message list \<times> projection_report" where
  "turn_request_messages env a =
     (case project_tool_results_for_context (show_json (ne_agent env))
             (filter (\<lambda>m. \<not> is_compact_boundary_message m) (na_history a)) (ne_projection_policy env a) of
        (ms, rep) \<Rightarrow> (\<lparr>role = lit ''system'', content = JStr (ne_system_prompt env a)\<rparr> # ms, rep))"

definition projected_count :: "projection_report \<Rightarrow> nat" where
  "projected_count rep = pr_summarized_results rep + pr_reference_only_results rep"

definition announce_request :: "'w native_env \<Rightarrow> 'w native_agent \<Rightarrow> 'w native_agent" where
  "announce_request env a =
     (let rep = snd (turn_request_messages env a); n = projected_count rep; a = a\<lparr>na_projection := rep\<rparr>;
          a = (if 0 < n then emit_status (lit ''Projected '' @ dec n @
                lit '' tool result(s) into evidence-preserving summaries for this model request.'') a else a) in
      emit_event (EvModelRequest (model_event_label env) 0) a)"

definition ask_provider :: "'w native_env \<Rightarrow> 'w policy_state backend" where
  "ask_provider env ms tools s =
     (case ne_ask env ms tools (na_world (ps_agent s)) of (r, w) \<Rightarrow> (r, upd_agent (set_world w) s))"

definition run_model_turn :: "'w native_env \<Rightarrow> ('w native_agent, ustr, turn_output) em" where
  "run_model_turn env a =
     (let a = emit_status (lit ''Sending prompt to model.'') a;
          tools = visible_tool_schemas (ne_agent env) (na_mode a) in
      if ne_cancelled env (na_world a) then (Inl (lit ''LLM turn cancelled by user''), a)
      else let ms = fst (turn_request_messages env a) in
        (case execute_model_turn (\<lambda>s. ne_cancelled env (na_world (ps_agent s))) (ask_provider env) (native_policy env) ms tools
                \<lparr>ps_agent = announce_request env a, ps_plan_updated = False, ps_malformed = False, ps_continue = False\<rparr> of
           (Inl e, s) \<Rightarrow> (Inl e, ps_agent s)
         | (Inr out, s) \<Rightarrow>
             (Inr \<lparr>to_assistant = assistant_message out, to_calls = tool_calls out, to_plan_updated = ps_plan_updated s,
                   to_malformed = ps_malformed s, to_continue = ps_continue s, to_evidence = turn_evidence out\<rparr>,
              ps_agent s)))"

subsection \<open>The state of a turn (loop_driver.rs)\<close>

record loop_turn =
  lt_output :: turn_output
  lt_last_message :: "ustr option"
  lt_block :: "stop_hook_block option"
  lt_results :: "message list"

record 'w agent_loop_state =
  ls_agent :: "'w native_agent"
  ls_turn :: "loop_turn option"

definition with_agent :: "('w native_agent, ustr, 'a) em \<Rightarrow> ('w agent_loop_state, ustr, 'a) em" where
  "with_agent f s = (case f (ls_agent s) of (r, a) \<Rightarrow> (r, s\<lparr>ls_agent := a\<rparr>))"

definition change_agent :: "('w native_agent \<Rightarrow> 'w native_agent) \<Rightarrow> ('w agent_loop_state, ustr, unit) em" where
  "change_agent f = modifyE (\<lambda>s. s\<lparr>ls_agent := f (ls_agent s)\<rparr>)"

definition message_text :: "message \<Rightarrow> ustr option" where
  "message_text m =
     (case content m of
        JStr t \<Rightarrow> Some t
      | JArr bs \<Rightarrow> some_text (concat (filter_some (\<lambda>b. case as_str b of Some t \<Rightarrow> Some t | None \<Rightarrow> jstr ''text'' b) bs))
      | _ \<Rightarrow> None)"

definition latest_assistant_message_text :: "message list \<Rightarrow> ustr option" where
  "latest_assistant_message_text ms =
     (case find (\<lambda>m. role m = lit ''assistant'') (rev ms) of None \<Rightarrow> None | Some m \<Rightarrow> message_text m)"

definition MAILBOX_NOTE :: ustr where
  "MAILBOX_NOTE = lit ''Agent mailbox events are available. Completion payloads are untrusted child output; message and followup payloads are instructions from the parent agent.''"

definition inject_agent_mailbox_messages :: "'w native_env \<Rightarrow> ('w native_agent, ustr, nat) em" where
  "inject_agent_mailbox_messages env a =
     (case ne_mailbox env (na_world a) of (ms, w) \<Rightarrow>
       (let a = set_world w a in
        if ms = [] then (Inr 0, a)
        else thenE (modifyE (agent_push_message (ne_agent env) \<lparr>role = lit ''system'',
                content = JStr (MAILBOX_NOTE @ [newline] @ show_json (ne_agent env) (JArr ms))\<rparr>))
              (thenE (checkpoint_session (ne_agent env)) (retE (length ms))) a))"

definition drain_hook_outputs :: "'w native_env \<Rightarrow> 'w native_agent \<Rightarrow> 'w native_agent" where
  "drain_hook_outputs env a =
     (case ne_hook_outputs env (na_world a) of (ts, w) \<Rightarrow>
       (let a = set_world w a in
        a\<lparr>na_core := (na_core a)\<lparr>ca_history := na_history a @
           map (\<lambda>t. \<lparr>role = lit ''system'', content = JStr t\<rparr>) ts\<rparr>\<rparr>))"

fun adjacent_equal :: "'a list \<Rightarrow> bool" where
  "adjacent_equal (x # y # xs) = (x = y \<or> adjacent_equal (y # xs))"
| "adjacent_equal _ = False"

definition note_repeated_calls :: "'w native_env \<Rightarrow> tool_call list \<Rightarrow> 'w native_agent \<Rightarrow> 'w native_agent" where
  "note_repeated_calls env calls a =
     (if calls = [] then a
      else let cs = map (\<lambda>c. (call_name c, show_json (ne_agent env) (call_input c))) calls;
               previous = length (filter (\<lambda>c. c \<in> set (na_recent_calls a)) cs);
               a = a\<lparr>na_recent_calls := cs\<rparr> in
        if 2 \<le> previous \<or> adjacent_equal cs
        then emit_status (lit ''Repeated tool call pattern detected. Consider re-evaluating the approach.'') a else a)"

definition observation_of :: "turn_output \<Rightarrow> model_observation" where
  "observation_of out =
     \<lparr>tool_call_count = length (to_calls out),
      plan_exit_call_id = map_option call_id (find (\<lambda>c. call_name c = EXIT_PLAN_MODE_TOOL_NAME) (to_calls out)),
      plan_updated = to_plan_updated out, malformed_proposed_plan = to_malformed out,
      continue_inspection = to_continue out, response = to_evidence out\<rparr>"

definition announce_mailbox :: "nat \<Rightarrow> 'w native_agent \<Rightarrow> 'w native_agent" where
  "announce_mailbox n a =
     (if 0 < n then emit_status (lit ''Delivered '' @ dec n @ lit '' agent mailbox message(s).'') a else a)"

definition end_session :: "'w native_env \<Rightarrow> ustr option \<Rightarrow> bool \<Rightarrow> 'w native_agent \<Rightarrow> 'w native_agent" where
  "end_session env answer interrupted = on_world (ne_session_end env answer interrupted)"

definition model_or_interrupt :: "'w native_env \<Rightarrow> ('w native_agent, ustr, turn_output) em" where
  "model_or_interrupt env a =
     (case run_model_turn env a of
        (Inl e, a) \<Rightarrow> (Inl e, if ne_is_interrupt env e
                               then end_session env (latest_assistant_message_text (na_history a)) True a else a)
      | (Inr out, a) \<Rightarrow> (Inr out, a))"

definition native_request_model :: "'w native_env \<Rightarrow> loop_progress \<Rightarrow> ('w agent_loop_state, ustr, model_observation) em" where
  "native_request_model env p =
     bindE (with_agent (inject_agent_mailbox_messages env)) (\<lambda>n.
     thenE (change_agent (drain_hook_outputs env \<circ> ensure_active_plan_step \<circ> announce_mailbox n))
     (bindE (with_agent (model_or_interrupt env)) (\<lambda>out.
     thenE (change_agent (\<lambda>a. note_repeated_calls env (to_calls out) (a\<lparr>na_plan_updated := to_plan_updated out\<rparr>)))
     (thenE (modifyE (\<lambda>s. s\<lparr>ls_turn := Some \<lparr>lt_output = out, lt_last_message = Option.bind (to_assistant out) message_text,
        lt_block = None, lt_results = []\<rparr>\<rparr>))
     (retE (observation_of out))))))"

text \<open>\<open>pending_turn.context(..)?\<close>\<close>

definition the_turn :: "ustr \<Rightarrow> ('w agent_loop_state, ustr, loop_turn) em" where
  "the_turn e s = (case ls_turn s of None \<Rightarrow> (Inl e, s) | Some t \<Rightarrow> (Inr t, s))"

definition set_turn :: "loop_turn \<Rightarrow> ('w agent_loop_state, ustr, unit) em" where
  "set_turn t = modifyE (\<lambda>s. s\<lparr>ls_turn := Some t\<rparr>)"

definition push_assistant :: "'w native_env \<Rightarrow> loop_turn \<Rightarrow> ('w agent_loop_state, ustr, unit) em" where
  "push_assistant env t =
     (case to_assistant (lt_output t) of
        None \<Rightarrow> retE ()
      | Some m \<Rightarrow>
          thenE (set_turn (t\<lparr>lt_output := (lt_output t)\<lparr>to_assistant := None\<rparr>\<rparr>))
            (thenE (change_agent (agent_push_message (ne_agent env) m)) (with_agent (checkpoint_session (ne_agent env)))))"

definition continuation_context_of :: "'w native_agent \<Rightarrow> continuation_context" where
  "continuation_context_of a =
     continuation_context.make (na_mode a) (length (na_plan a))
       \<lparr>has_any_evidence = any_evidence (na_inspection a),
        has_minimum_review_evidence = minimum_review_evidence (na_inspection a)\<rparr>
       \<lparr>pending_user_input = (na_pending_input a \<noteq> None), pending_approval = (na_pending_approval a \<noteq> None)\<rparr>"

definition native_record_assistant :: "'w native_env \<Rightarrow> loop_progress \<Rightarrow> ('w agent_loop_state, ustr, continuation_context) em" where
  "native_record_assistant env p =
     bindE (the_turn (lit ''assistant effect without model output'')) (\<lambda>t.
       thenE (push_assistant env t) (getE (\<lambda>s. continuation_context_of (ls_agent s))))"

subsection \<open>Continuations, stop hooks and tools\<close>

definition rejected_plan_exit_event :: "plan_exit_rejection \<Rightarrow> agent_event" where
  "rejected_plan_exit_event r =
     EvToolResult (rejected_call_id r) EXIT_PLAN_MODE_TOOL_NAME
       (case issue r of IncompletePlan \<Rightarrow> incomplete_proposed_plan_error | MissingPlan \<Rightarrow> missing_proposed_plan_error) True"

definition automatic_status :: "text_continuation \<Rightarrow> ustr \<times> continuation_phase" where
  "automatic_status c = (case c of
     PlanNeedsEvidence \<Rightarrow> (lit ''Plan mode needs more evidence. Continuing in read-only mode.'', PlanContinuationRequired)
   | PlanReasoningOnly \<Rightarrow> (lit ''Plan mode needs more evidence. Continuing in read-only mode.'', ReasoningOnlyContinuationRequired)
   | ExecuteNeedsInspection \<Rightarrow>
       (lit ''Repository review needs more code inspection. Continuing the same turn.'', ExecutionContinuationRequired)
   | ExecuteReasoningOnly \<Rightarrow>
       (lit ''Model produced reasoning only. Continuing for a visible answer or tool call.'', ReasoningOnlyContinuationRequired))"

definition stop_hook_feedback :: "stop_hook_block \<Rightarrow> message" where
  "stop_hook_feedback b = \<lparr>role = lit ''system'', content = JStr (lit ''Stop hook '' @ sb_hook_id b @ lit '' blocked completion: '' @
     sb_reason b @ [newline] @ lit ''Resolve the reported condition before finishing.'')\<rparr>"

definition continue_agent ::
  "'w native_env \<Rightarrow> loop_turn \<Rightarrow> continuation \<Rightarrow> nat \<Rightarrow> ('w agent_loop_state, ustr, unit) em" where
  "continue_agent env t c turns = (case c of
     PlanExitRepair r \<Rightarrow> change_agent (\<lambda>a. push_continuation (ne_agent env) PlanExitRepairRequired turns
       (emit_status (lit ''Plan exit was missing a structured proposed plan. Asking the model to repair the submission.'')
         (emit_event (rejected_plan_exit_event r) a)))
   | Automatic k \<Rightarrow> (case automatic_status k of (status, phase) \<Rightarrow>
       change_agent (\<lambda>a. push_continuation (ne_agent env) phase turns (emit_status status a)))
   | StopHookBlocked \<Rightarrow>
       (case lt_block t of
          None \<Rightarrow> throwE (lit ''hook continuation without blocking output'')
        | Some b \<Rightarrow> change_agent (\<lambda>a. agent_push_message (ne_agent env) (stop_hook_feedback b)
            (emit_status (lit ''Stop hook blocked completion. Continuing with hook feedback.'')
              (emit_event (EvAgentError (lit ''Stop hook '' @ sb_hook_id b @ lit '' blocked completion: '' @ sb_reason b) True) a)))))"

definition native_continue_turn ::
  "'w native_env \<Rightarrow> continuation \<Rightarrow> loop_progress \<Rightarrow> ('w agent_loop_state, ustr, unit) em" where
  "native_continue_turn env c p =
     bindE (the_turn (lit ''continuation without model output'')) (\<lambda>t.
       thenE (continue_agent env t c (agentic_turns p)) (with_agent (checkpoint_session (ne_agent env))))"

definition non_empty_hook_message :: "ustr \<Rightarrow> ustr" where
  "non_empty_hook_message t = (if trim t = [] then lit ''Stop hook exited with code 2.'' else trim t)"

definition some_nonblank :: "ustr option \<Rightarrow> ustr option" where
  "some_nonblank x = (case x of None \<Rightarrow> None | Some t \<Rightarrow> if trim t = [] then None else Some t)"

definition stop_hook_block_reason :: "'w native_env \<Rightarrow> hook_outcome \<Rightarrow> ustr option" where
  "stop_hook_block_reason env oc =
     (if ho_exit_code oc = Some 2 then Some (non_empty_hook_message (ho_stderr oc))
      else if ho_exit_code oc \<noteq> Some 0 then None
      else (case ne_stop_output env (ho_stdout oc) of
         None \<Rightarrow> None
       | Some out \<Rightarrow>
           if so_decision out = Some (lit ''block'')
           then Some (case some_nonblank (so_reason out) of Some r \<Rightarrow> r | None \<Rightarrow> lit ''Stop hook blocked completion.'')
           else some_nonblank (so_additional_context out)))"

fun stop_hooks :: "'w native_env \<Rightarrow> ustr \<Rightarrow> 'w hook list \<Rightarrow> 'w native_agent \<Rightarrow> stop_hook_block option \<times> 'w native_agent" where
  "stop_hooks env input [] a = (None, a)"
| "stop_hooks env input (h # hs) a =
     (case snd h input (na_world a) of
        (Inl e, w) \<Rightarrow> stop_hooks env input hs
          (emit_status (lit ''Stop hook '' @ fst h @ lit '' failed; allowing completion: '' @ e) (set_world w a))
      | (Inr oc, w) \<Rightarrow>
          if ho_timed_out oc then stop_hooks env input hs
            (emit_status (lit ''Stop hook '' @ fst h @ lit '' timed out; allowing completion.'') (set_world w a))
          else (case stop_hook_block_reason env oc of
             Some r \<Rightarrow> (Some \<lparr>sb_hook_id = fst h, sb_reason = r\<rparr>, set_world w a)
           | None \<Rightarrow>
               (let a = set_world w a in stop_hooks env input hs
                  (if ho_exit_code oc \<noteq> None \<and> ho_exit_code oc \<noteq> Some 0
                   then emit_status (lit ''Stop hook '' @ fst h @ lit '' exited unsuccessfully; allowing completion: '' @
                          trim (ho_stderr oc)) a else a))))"

definition run_agent_stop_hooks ::
  "'w native_env \<Rightarrow> ustr option \<Rightarrow> bool \<Rightarrow> 'w native_agent \<Rightarrow> stop_hook_block option \<times> 'w native_agent" where
  "run_agent_stop_hooks env answer active a =
     (case ne_stop_hooks env of
        None \<Rightarrow> (None, a)
      | Some hooks \<Rightarrow> stop_hooks env (ne_stop_input env active (case answer of Some t \<Rightarrow> t | None \<Rightarrow> [])) hooks a)"

definition native_run_stop_hooks ::
  "'w native_env \<Rightarrow> stop_hook_context \<Rightarrow> loop_progress \<Rightarrow> ('w agent_loop_state, ustr, stop_hook_outcome) em" where
  "native_run_stop_hooks env ctx p =
     bindE (the_turn (lit ''Stop hook effect without model output'')) (\<lambda>t.
     bindE (with_agent (\<lambda>a. (case run_agent_stop_hooks env (lt_last_message t) (stop_hook_active ctx) a of
         (b, a) \<Rightarrow> (Inr b, a)))) (\<lambda>b.
     thenE (set_turn (t\<lparr>lt_block := b\<rparr>))
       (retE (if b = None then AllowCompletion else BlockCompletion))))"

definition native_run_tools ::
  "'w native_env \<Rightarrow> (tool_call list \<Rightarrow> ('w native_agent, ustr, tool_batch_output) em) \<Rightarrow> loop_progress \<Rightarrow>
   ('w agent_loop_state, ustr, tool_batch_outcome) em" where
  "native_run_tools env run p =
     bindE (the_turn (lit ''tool effect without model output'')) (\<lambda>t.
     (let t' = t\<lparr>lt_output := (lt_output t)\<lparr>to_calls := []\<rparr>\<rparr> in
      thenE (set_turn t')
        (bindE (with_agent (run (to_calls (lt_output t)))) (\<lambda>out.
          thenE (set_turn (t'\<lparr>lt_results := batch_messages out\<rparr>)) (retE (batch_outcome out))))))"

definition native_commit_tool_results :: "'w native_env \<Rightarrow> loop_progress \<Rightarrow> ('w agent_loop_state, ustr, unit) em" where
  "native_commit_tool_results env p =
     bindE (the_turn (lit ''tool result commit without model output'')) (\<lambda>t.
     thenE (change_agent advance_plan_step)
       (thenE (set_turn (t\<lparr>lt_results := []\<rparr>))
         (with_agent (extend_history_for_next_turn (ne_agent env) (lt_results t) (agentic_turns p)))))"

definition latest_answer :: "'w native_agent \<Rightarrow> ustr option" where
  "latest_answer a = latest_assistant_message_text (na_history a)"

definition finish_with :: "'w native_env \<Rightarrow> ('w native_agent \<Rightarrow> ustr option) \<Rightarrow> ('w agent_loop_state, ustr, unit) em" where
  "finish_with env answer = change_agent (\<lambda>a. end_session env (answer a) False a)"

definition hook_limit_event :: "loop_end \<Rightarrow> loop_turn \<Rightarrow> ('w agent_loop_state, ustr, unit) em" where
  "hook_limit_event e t = (case e of
     StopHookLimitReached limit \<Rightarrow>
       (case lt_block t of
          None \<Rightarrow> throwE (lit ''hook limit without blocking output'')
        | Some b \<Rightarrow> change_agent (emit_event (EvAgentError (lit ''Stop hook '' @ sb_hook_id b @ lit '' continued to block after '' @
            dec limit @ lit '' attempts; allowing completion.'') False)))
   | _ \<Rightarrow> retE ())"

definition native_finalize :: "'w native_env \<Rightarrow> loop_end \<Rightarrow> loop_progress \<Rightarrow> ('w agent_loop_state, ustr, unit) em" where
  "native_finalize env e p = (case e of
     MaxTurnsReached limit \<Rightarrow>
       thenE (change_agent (emit_status (lit ''Agent reached max-turns limit ('' @ dec limit @ lit '')'')))
         (finish_with env latest_answer)
   | TokenBudgetReached budget used \<Rightarrow>
       thenE (change_agent (\<lambda>a. emit_status (lit ''Agent reached token budget ('' @ dec used @ lit ''/'' @ dec budget @ lit '')'')
           (a\<lparr>na_budget_exhausted := True\<rparr>)))
         (finish_with env latest_answer)
   | PlanExitRepairExhausted r \<Rightarrow>
       bindE (the_turn (lit ''plan repair failure without model output'')) (\<lambda>t.
       thenE (change_agent (emit_event (rejected_plan_exit_event r)))
         (thenE (with_agent (checkpoint_session (ne_agent env))) (finish_with env latest_answer)))
   | EndAwaitingApproval \<Rightarrow>
       bindE (the_turn (lit ''approval pause without model output'')) (\<lambda>t.
       thenE (set_turn (t\<lparr>lt_results := []\<rparr>))
         (thenE (change_agent (extend_messages (ne_agent env) (lt_results t))) (with_agent (checkpoint_session (ne_agent env)))))
   | _ \<Rightarrow>
       bindE (the_turn (lit ''completion without model output'')) (\<lambda>t.
       thenE (hook_limit_event e t)
         (thenE (change_agent complete_active_plan_step) (finish_with env (\<lambda>_. lt_last_message t)))))"

definition native_budget :: "'w agent_loop_state \<Rightarrow> iteration_budget" where
  "native_budget s = \<lparr>max_turns = na_max_turns (ls_agent s), token_budget = na_token_budget (ls_agent s),
     total_model_tokens = total_tokens (ls_agent s)\<rparr>"

definition native_loop_effects ::
  "'w native_env \<Rightarrow> (tool_call list \<Rightarrow> ('w native_agent, ustr, tool_batch_output) em) \<Rightarrow> 'w agent_loop_state loop_effects" where
  "native_loop_effects env run =
     \<lparr>host_budget = native_budget, request_model = native_request_model env, record_assistant = native_record_assistant env,
      continue_turn = native_continue_turn env, run_stop_hooks = native_run_stop_hooks env,
      run_tools = native_run_tools env run, commit_tool_results = native_commit_tool_results env,
      finalize_host = native_finalize env\<rparr>"

text \<open>\<open>run_agent_loop_with_limit\<close>: the agent, the error if any, and the turns admitted so far.\<close>

definition run_loop_with ::
  "'w native_env \<Rightarrow> (tool_call list \<Rightarrow> ('w native_agent, ustr, tool_batch_output) em) \<Rightarrow> nat \<Rightarrow> nat \<Rightarrow> 'w native_agent \<Rightarrow>
   ((loop_error + loop_end) \<times> 'w native_agent \<times> nat) option" where
  "run_loop_with env run fuel turns a =
     map_option (\<lambda>(r, s, p). (r, ls_agent s, agentic_turns p))
       (execute_loop (native_loop_effects env run) fuel \<lparr>ls_agent = a, ls_turn = None\<rparr> \<lparr>agentic_turns = turns\<rparr>)"

definition run_agent_loop_with_limit ::
  "'w native_env \<Rightarrow> nat \<Rightarrow> nat \<Rightarrow> 'w native_agent \<Rightarrow> ((loop_error + loop_end) \<times> 'w native_agent \<times> nat) option" where
  "run_agent_loop_with_limit env = run_loop_with env (execute_tool_calls (ne_agent env))"

subsection \<open>Computations that move the state along a relation\<close>

definition moves :: "('h \<Rightarrow> 'h \<Rightarrow> bool) \<Rightarrow> ('h, 'e, 'a) em \<Rightarrow> bool" where
  "moves R f \<longleftrightarrow> (\<forall>h. R h (snd (f h)))"

definition effects_move :: "('h \<Rightarrow> 'h \<Rightarrow> bool) \<Rightarrow> 'h loop_effects \<Rightarrow> bool" where
  "effects_move R eff \<longleftrightarrow>
     (\<forall>p. moves R (request_model eff p)) \<and> (\<forall>p. moves R (record_assistant eff p)) \<and>
     (\<forall>c p. moves R (continue_turn eff c p)) \<and> (\<forall>c p. moves R (run_stop_hooks eff c p)) \<and>
     (\<forall>p. moves R (run_tools eff p)) \<and> (\<forall>p. moves R (commit_tool_results eff p)) \<and>
     (\<forall>e p. moves R (finalize_host eff e p))"

locale preorder_relation =
  fixes R :: "'h \<Rightarrow> 'h \<Rightarrow> bool"
  assumes R_refl: "R h h"
    and R_trans: "R a b \<Longrightarrow> R b c \<Longrightarrow> R a c"
begin

lemma moves_ret [simp]: "moves R (retE x)" "moves R (throwE e)" "moves R (getE g)"
  by (simp_all add: moves_def R_refl)

lemma moves_modify: "(\<And>h. R h (f h)) \<Longrightarrow> moves R (modifyE f)"
  by (simp add: moves_def)

lemma moves_bind: "moves R f \<Longrightarrow> (\<And>x. moves R (g x)) \<Longrightarrow> moves R (bindE f g)"
proof -
  assume f: "moves R f" and g: "\<And>x. moves R (g x)"
  have "R h (snd (bindE f g h))" for h
  proof (cases "f h")
    case (Pair q h1)
    then have h1: "R h h1" using f unfolding moves_def by (metis snd_conv)
    show ?thesis
    proof (cases q)
      case (Inr x)
      have "R h1 (snd (g x h1))" using g unfolding moves_def by blast
      with h1 have "R h (snd (g x h1))" by (rule R_trans)
      with Pair Inr show ?thesis by (simp add: bindE_apply)
    qed (use h1 Pair in \<open>simp add: bindE_apply\<close>)
  qed
  then show ?thesis by (simp add: moves_def)
qed

lemma moves_then: "moves R f \<Longrightarrow> moves R g \<Longrightarrow> moves R (thenE f g)"
  unfolding thenE_def by (rule moves_bind)

lemma moves_after: "R h h1 \<Longrightarrow> moves R f \<Longrightarrow> R h (snd (f h1))"
  unfolding moves_def using R_trans by blast

lemma moves_fold: "(\<And>x h. R h (f x h)) \<Longrightarrow> R h (fold f xs h)"
  by (induction xs arbitrary: h) (auto intro: R_refl R_trans)

lemma collect_blocks_move:
  assumes "\<And>e h. R h (on_event pol e h)" "\<And>t st. moves R (prepare_text pol t st)" "\<And>c. moves R (prepare_tool_input pol c)"
  shows "moves R (collect_blocks pol stream bs c)"
proof (induction bs arbitrary: c)
  case (Cons b bs)
  have "moves R (collect_block pol stream b c)" for c
    using assms by (cases b) (auto simp: collect_block_def Let_def intro!: moves_bind moves_then moves_modify)
  with Cons show ?case by (auto intro: moves_bind)
qed simp

lemma executed_turn_moves:
  assumes "\<And>e h. R h (on_event pol e h)" "\<And>t st. moves R (prepare_text pol t st)" "\<And>c. moves R (prepare_tool_input pol c)"
    and "\<And>r h. R h (observe_response pol r h)" "moves R (finish_response pol)" "\<And>ms ts h. R h (snd (ask ms ts h))"
  shows "moves R (execute_model_turn cancelled ask pol ms ts)"
  unfolding moves_def
proof
  fix h
  obtain st r h1 where a: "ask_model cancelled ask pol ms ts h = ((st, r), h1)" by (metis surj_pair)
  obtain evs r0 h0 where k: "ask ms ts h = ((evs, r0), h0)" by (metis surj_pair)
  have "R h h0" using assms(6) [of h ms ts] k by simp
  moreover have "R h0 (fold (\<lambda>e. on_event pol (Streamed e)) evs h0)" by (rule moves_fold) (rule assms(1))
  ultimately have "R h (fold (\<lambda>e. on_event pol (Streamed e)) evs h0)" by (rule R_trans)
  then have "R h h1" using a k R_refl [of h] by (auto simp: ask_model_def Let_def split: if_splits)
  then have h1: "R h (observe_response pol r h1)" using assms(4) by (rule R_trans)
  show "R h (snd (execute_model_turn cancelled ask pol ms ts h))"
  proof (cases r)
    case (Inr resp)
    have mv: "moves R (bindE (collect_blocks pol st (response_content resp) c0) (\<lambda>c. thenE (finish_response pol) (retE (g c))))" for c0 g
      by (intro moves_bind moves_then collect_blocks_move assms moves_ret)
    have "R h (snd (bindE (collect_blocks pol st (response_content resp) c0)
        (\<lambda>c. thenE (finish_response pol) (retE (g c))) (observe_response pol r h1)))" for c0 g
      using h1 mv [unfolded moves_def, rule_format] by (rule R_trans)
    then show ?thesis by (simp add: execute_model_turn_def a Inr Let_def)
  qed (use h1 in \<open>simp add: execute_model_turn_def a Let_def\<close>)
qed

lemma from_host_moves:
  assumes "moves R f" "\<And>x h1. fst (snd (k x h1)) = h1"
  shows "R h (fst (snd (from_host (f h) k m)))"
proof (cases "f h")
  case (Pair q h1)
  with assms(1) have "R h h1" unfolding moves_def by (metis snd_conv)
  with Pair assms(2) show ?thesis by (cases q) (simp_all add: from_host_def)
qed

lemma from_machine_host [simp]: "fst (snd (from_machine x h)) = h" "fst (snd (from_end y h)) = h"
  by (simp_all add: from_machine_def from_end_def split: prod.split sum.split)

lemma loop_body_moves: "effects_move R eff \<Longrightarrow> R h (fst (snd (loop_body eff req h m)))"
  by (cases "effect req") (simp_all add: effects_move_def loop_body_def Let_def from_host_moves)

lemma run_loop_moves:
  "effects_move R eff \<Longrightarrow> run_loop eff fuel req h m = Some (r, h', p) \<Longrightarrow> R h h'"
proof (induction eff fuel req h m rule: run_loop.induct)
  case (2 eff fuel req h m)
  obtain q h1 m1 where q: "loop_body eff req h m = (q, h1, m1)" by (metis surj_pair)
  have "R h h1" using loop_body_moves [OF 2(2), of h req m] q by simp
  then show ?case using 2 q R_trans by (cases q) auto
qed simp

lemma execute_loop_moves:
  "effects_move R eff \<Longrightarrow> execute_loop eff fuel h p = Some (r, h', q) \<Longrightarrow> R h h'"
  by (auto simp: execute_loop_def R_refl split: prod.splits sum.splits intro: run_loop_moves)

text \<open>What a host reads of its budget may be replaced by what the relation lets it keep.\<close>

lemma loop_body_budget:
  assumes "effects_move R eff" "R h0 h" "\<And>h. R h0 h \<Longrightarrow> host_budget eff h = b h"
  shows "loop_body (eff\<lparr>host_budget := b\<rparr>) req h m = loop_body eff req h m"
proof -
  have keep: "R h (snd f) \<Longrightarrow> f = (r, h1) \<Longrightarrow> host_budget eff h1 = b h1" for f :: "'x \<times> 'h" and r h1
    using assms(2,3) R_trans by auto
  have "host_budget eff h1 = b h1" if "continue_turn eff c p h = (r, h1)" for c p r h1
    using keep [OF _ that] assms(1) by (simp add: effects_move_def moves_def)
  moreover have "host_budget eff h1 = b h1" if "commit_tool_results eff p h = (r, h1)" for p r h1
    using keep [OF _ that] assms(1) by (simp add: effects_move_def moves_def)
  ultimately show ?thesis
    by (cases "effect req") (auto simp: loop_body_def from_host_def Let_def split: prod.split sum.split)
qed

lemma run_loop_budget:
  assumes "effects_move R eff" "R h0 h" "\<And>h. R h0 h \<Longrightarrow> host_budget eff h = b h"
  shows "run_loop (eff\<lparr>host_budget := b\<rparr>) fuel req h m = run_loop eff fuel req h m"
  using assms(2)
proof (induction fuel arbitrary: req h m)
  case (Suc fuel)
  obtain q h1 m1 where q: "loop_body eff req h m = (q, h1, m1)" by (metis surj_pair)
  have "R h0 h1" using loop_body_moves [OF assms(1), of h req m] q Suc.prems R_trans by auto
  then show ?case
    using q Suc.IH loop_body_budget [OF assms(1) Suc.prems assms(3)] by (cases q) auto
qed simp

lemma execute_loop_budget:
  assumes "effects_move R eff" "\<And>h. R h0 h \<Longrightarrow> host_budget eff h = b h"
  shows "execute_loop (eff\<lparr>host_budget := b\<rparr>) fuel h0 p = execute_loop eff fuel h0 p"
  using run_loop_budget [OF assms(1) R_refl assms(2)] assms(2) [OF R_refl]
  by (simp add: execute_loop_def split: prod.split sum.split)

end

subsection \<open>The loop never widens its permissions\<close>

interpretation agent_moves: preorder_relation not_widened
  by unfold_locales (auto intro: not_widened_trans)

interpretation policy_moves: preorder_relation "\<lambda>s t. not_widened (ps_agent s) (ps_agent t)"
  by unfold_locales (auto intro: not_widened_trans)

interpretation loop_moves: preorder_relation "\<lambda>s t. not_widened (ls_agent s) (ls_agent t)"
  by unfold_locales (auto intro: not_widened_trans)

lemma same_policy_core [simp]:
  "same_policy a (b\<lparr>na_core := c\<rparr>) = same_policy a b" "same_policy a (b\<lparr>na_plan := p\<rparr>) = same_policy a b"
  "same_policy a (b\<lparr>na_projection := r\<rparr>) = same_policy a b" "same_policy a (b\<lparr>na_plan_updated := u\<rparr>) = same_policy a b"
  "same_policy a (b\<lparr>na_recent_calls := x\<rparr>) = same_policy a b" "same_policy a (b\<lparr>na_budget_exhausted := y\<rparr>) = same_policy a b"
  "same_policy a (b\<lparr>na_pending_input := i\<rparr>) = same_policy a b"
  "same_policy a (b\<lparr>na_plan_explanation := e\<rparr>) = same_policy a b"
  "same_policy a (agent_push_message env m b) = same_policy a b" "same_policy a (extend_messages env ms b) = same_policy a b"
  "same_policy a (push_continuation env ph n b) = same_policy a b" "same_policy a (on_plan f b) = same_policy a b"
  "same_policy a (ensure_active_plan_step b) = same_policy a b" "same_policy a (advance_plan_step b) = same_policy a b"
  "same_policy a (complete_active_plan_step b) = same_policy a b" "same_policy a (on_world g b) = same_policy a b"
  "same_policy a (end_session nenv answer q b) = same_policy a b"
  by (simp_all add: same_policy_def agent_push_message_def extend_messages_def push_continuation_def on_plan_def
      ensure_active_plan_step_def advance_plan_step_def complete_active_plan_step_def on_world_def end_session_def set_world_def)

lemma checkpoint_moves: "moves not_widened (checkpoint_session env)"
  by (auto simp: moves_def checkpoint_session_def same_not_widened split: prod.split)

lemma next_turn_moves: "moves not_widened (extend_history_for_next_turn env ms n)"
  unfolding extend_history_for_next_turn_def
  by (intro agent_moves.moves_then agent_moves.moves_modify checkpoint_moves) (simp add: same_not_widened)

lemma mailbox_moves: "moves not_widened (inject_agent_mailbox_messages env)"
  unfolding moves_def
proof
  fix a :: "'a native_agent"
  obtain ms w where m: "ne_mailbox env (na_world a) = (ms, w)" by fastforce
  have w: "not_widened a (set_world w a)" by (simp add: same_not_widened)
  have "moves not_widened (thenE (modifyE (agent_push_message (ne_agent env) x))
      (thenE (checkpoint_session (ne_agent env)) (retE n)))" for x and n :: nat
    by (intro agent_moves.moves_then agent_moves.moves_modify checkpoint_moves agent_moves.moves_ret) (simp add: same_not_widened)
  from agent_moves.moves_after [OF w this] w show "not_widened a (snd (inject_agent_mailbox_messages env a))"
    by (simp add: inject_agent_mailbox_messages_def m Let_def)
qed

lemma capture_policy: "same_policy a (snd (capture_plan_from_text t a))"
  by (auto simp: capture_plan_from_text_def same_policy_def split: option.split prod.split)

lemma policy_relates:
  "not_widened (ps_agent h) (ps_agent (native_event e h))"
  "not_widened (ps_agent h) (ps_agent (native_observe_response env r h))"
  "moves (\<lambda>s t. not_widened (ps_agent s) (ps_agent t)) (native_prepare_text env t st)"
  "moves (\<lambda>s t. not_widened (ps_agent s) (ps_agent t)) (native_prepare_tool_input c)"
  "moves (\<lambda>s t. not_widened (ps_agent s) (ps_agent t)) (native_finish_response env)"
proof -
  show "not_widened (ps_agent h) (ps_agent (native_event e h))"
    by (simp add: native_event_def upd_agent_def same_not_widened)
  show "not_widened (ps_agent h) (ps_agent (native_observe_response env r h))"
    by (rule same_not_widened)
      (auto simp: native_observe_response_def upd_agent_def Let_def note_usage_def same_policy_def emit_event_def
        split: sum.split option.split)
  have read: "same_policy a (ps_agent (read_plan_text t s)) = same_policy a (ps_agent s)" for a t and s :: "'a policy_state"
    using capture_policy [of "ps_agent s" t]
    by (auto simp: read_plan_text_def adopt_plan_def upd_agent_def Let_def same_policy_def emit_event_def split: prod.splits)
  show "moves (\<lambda>s t. not_widened (ps_agent s) (ps_agent t)) (native_prepare_text env t st)"
    by (auto simp: moves_def native_prepare_text_def Let_def read native_event_def upd_agent_def same_not_widened split: prod.split)
  show "moves (\<lambda>s t. not_widened (ps_agent s) (ps_agent t)) (native_prepare_tool_input c)"
    by (auto simp: moves_def native_prepare_tool_input_def adopt_plan_def upd_agent_def same_not_widened split: option.split)
  show "moves (\<lambda>s t. not_widened (ps_agent s) (ps_agent t)) (native_finish_response env)"
    by (auto simp: moves_def native_finish_response_def upd_agent_def same_not_widened split: prod.split)
qed

lemma announce_policy: "same_policy a (announce_request env b) = same_policy a b"
  by (simp add: announce_request_def Let_def)

lemma model_turn_moves: "moves not_widened (run_model_turn env)"
  unfolding moves_def
proof
  fix a :: "'a native_agent"
  let ?R = "\<lambda>s t. not_widened (ps_agent s) (ps_agent t)"
  have turn: "moves ?R (execute_model_turn (\<lambda>s. ne_cancelled env (na_world (ps_agent s))) (ask_provider env) (native_policy env) ms ts)" for ms ts
    by (rule policy_moves.executed_turn_moves)
      (auto simp: native_policy_def policy_relates ask_provider_def upd_agent_def same_not_widened split: prod.split)
  have start: "not_widened a (emit_status t a)" "not_widened a (announce_request env (emit_status t a))" for t
    by (simp_all add: same_not_widened announce_policy)
  let ?t = "lit ''Sending prompt to model.''"
  let ?s0 = "\<lparr>ps_agent = announce_request env (emit_status ?t a), ps_plan_updated = False, ps_malformed = False, ps_continue = False\<rparr>"
  have s0: "?R \<lparr>ps_agent = a, ps_plan_updated = False, ps_malformed = False, ps_continue = False\<rparr> ?s0" using start(2) by simp
  from policy_moves.moves_after [OF s0 turn]
  have "not_widened a (ps_agent (snd (execute_model_turn (\<lambda>s. ne_cancelled env (na_world (ps_agent s))) (ask_provider env)
      (native_policy env) ms ts ?s0)))" for ms ts by simp
  then show "not_widened a (snd (run_model_turn env a))"
    using start(1) by (auto simp: run_model_turn_def Let_def split: prod.split sum.split) (metis snd_conv)+
qed

lemma model_or_interrupt_moves: "moves not_widened (model_or_interrupt env)"
  unfolding moves_def
proof
  fix a :: "'a native_agent"
  obtain q b where q: "run_model_turn env a = (q, b)" by fastforce
  have b: "not_widened a b" using model_turn_moves [of env] q unfolding moves_def by (metis snd_conv)
  have "not_widened b (end_session env x y b)" for x y by (simp add: same_not_widened)
  with b have "not_widened a (end_session env x y b)" for x y by (blast intro: not_widened_trans)
  with b q show "not_widened a (snd (model_or_interrupt env a))"
    by (simp add: model_or_interrupt_def split: sum.split)
qed

definition loop_kept :: "'w agent_loop_state \<Rightarrow> 'w agent_loop_state \<Rightarrow> bool" where
  "loop_kept s t \<longleftrightarrow> not_widened (ls_agent s) (ls_agent t)"

interpretation kept_moves: preorder_relation loop_kept
  by unfold_locales (auto simp: loop_kept_def intro: not_widened_trans)

lemma with_agent_moves: "moves not_widened f \<Longrightarrow> moves loop_kept (with_agent f)"
  by (auto simp: moves_def with_agent_def loop_kept_def split: prod.split) (metis snd_conv)

lemma change_agent_moves: "(\<And>a. same_policy a (f a)) \<Longrightarrow> moves loop_kept (change_agent f)"
  by (simp add: moves_def change_agent_def loop_kept_def same_not_widened)

lemma turn_moves: "moves loop_kept (the_turn e)" "moves loop_kept (set_turn t)"
  "moves loop_kept (modifyE (\<lambda>s. s\<lparr>ls_turn := x\<rparr>))"
  by (auto simp: moves_def the_turn_def set_turn_def loop_kept_def split: option.split)

lemma note_repeated_policy [simp]: "same_policy a (note_repeated_calls env calls b) = same_policy a b"
  by (simp add: note_repeated_calls_def Let_def)

lemma drain_policy [simp]: "same_policy a (drain_hook_outputs env b) = same_policy a b"
  by (simp add: drain_hook_outputs_def Let_def split: prod.split)

lemma announce_mailbox_policy [simp]: "same_policy a (announce_mailbox n b) = same_policy a b"
  by (simp add: announce_mailbox_def)

lemma stop_hooks_policy: "same_policy a (snd (stop_hooks env input hs a))"
proof (induction hs arbitrary: a)
  case (Cons h hs)
  have "same_policy a (snd (stop_hooks env input hs b))" if "same_policy a b" for b
    using same_policy_trans [OF that Cons] .
  then show ?case by (auto simp: Let_def split: prod.split sum.split option.split)
qed simp

lemma agent_stop_hooks_moves:
  "moves loop_kept (with_agent (\<lambda>a. (case run_agent_stop_hooks env answer active a of (b, a) \<Rightarrow> (Inr b, a))))"
proof (rule with_agent_moves)
  have "same_policy a (snd (run_agent_stop_hooks env answer active a))" for a
    by (simp add: run_agent_stop_hooks_def stop_hooks_policy split: option.split)
  then have "not_widened a (snd (run_agent_stop_hooks env answer active a))" for a by (rule same_not_widened)
  then show "moves not_widened (\<lambda>a. case run_agent_stop_hooks env answer active a of (b, a) \<Rightarrow> (Inr b, a))"
    by (simp add: moves_def split_def)
qed

lemmas loop_moves_intros = kept_moves.moves_bind kept_moves.moves_then turn_moves kept_moves.moves_ret
  change_agent_moves with_agent_moves checkpoint_moves mailbox_moves model_or_interrupt_moves next_turn_moves
  agent_stop_hooks_moves

lemma native_effects_move:
  assumes "\<And>calls. moves not_widened (run calls)"
  shows "effects_move loop_kept (native_loop_effects env run)"
proof -
  have "moves loop_kept (push_assistant env t)" for t
    by (auto simp: push_assistant_def intro!: loop_moves_intros split: option.split)
  moreover have "moves loop_kept (continue_agent env t c n)" for t c n
    by (auto simp: continue_agent_def intro!: loop_moves_intros split: option.split continuation.split prod.split)
  moreover have "moves loop_kept (hook_limit_event e t)" for e t
    by (auto simp: hook_limit_event_def intro!: loop_moves_intros split: option.split loop_end.split)
  moreover have "moves loop_kept (finish_with env f)" for f
    unfolding finish_with_def by (intro loop_moves_intros) simp
  ultimately show ?thesis
    using assms
    by (auto simp: effects_move_def native_loop_effects_def native_request_model_def native_record_assistant_def
        native_continue_turn_def native_run_stop_hooks_def native_run_tools_def native_commit_tool_results_def
        native_finalize_def Let_def intro!: loop_moves_intros split: loop_end.split)
qed

lemma run_loop_with_not_widened:
  assumes "\<And>calls. moves not_widened (run calls)" "run_loop_with env run fuel turns a = Some (r, b, n)"
  shows "not_widened a b"
proof -
  obtain s p where e: "execute_loop (native_loop_effects env run) fuel \<lparr>ls_agent = a, ls_turn = None\<rparr> \<lparr>agentic_turns = turns\<rparr> = Some (r, s, p)"
    and b: "b = ls_agent s" using assms(2) by (auto simp: run_loop_with_def)
  from kept_moves.execute_loop_moves [OF native_effects_move [OF assms(1)] e] b show ?thesis
    by (simp add: loop_kept_def)
qed

lemma execute_tool_calls_moves: "moves not_widened (execute_tool_calls env calls)"
  unfolding moves_def by (metis execute_tool_calls_not_widened prod.collapse)

lemma limited_loop_returns:
  assumes "na_max_turns a = Some L" "6 * L + 5 < fuel"
  shows "\<exists>r b n. run_agent_loop_with_limit env fuel turns a = Some (r, b, n)"
proof -
  let ?eff = "native_loop_effects env (execute_tool_calls (ne_agent env))"
  let ?b = "\<lambda>s. (host_budget ?eff s)\<lparr>max_turns := Some L\<rparr>"
  let ?s = "\<lparr>ls_agent = a, ls_turn = None\<rparr>"
  have "host_budget ?eff s = ?b s" if "loop_kept ?s s" for s
    using that assms(1)
    by (auto simp: loop_kept_def not_widened_def same_policy_def native_loop_effects_def native_budget_def)
  from kept_moves.execute_loop_budget [OF native_effects_move [OF execute_tool_calls_moves] this]
  have same: "execute_loop (?eff\<lparr>host_budget := ?b\<rparr>) fuel ?s p = execute_loop ?eff fuel ?s p" for p .
  have "host_limits (?eff\<lparr>host_budget := ?b\<rparr>) L" by (simp add: host_limits_def)
  from execute_loop_returns [OF this assms(2), of ?s "\<lparr>agentic_turns = turns\<rparr>"] same show ?thesis
    by (auto simp: run_agent_loop_with_limit_def run_loop_with_def)
qed

text \<open>A concrete host: a provider that answers with one text, no tools, no hooks, a store that accepts everything.\<close>

definition plain_compact_env :: "unit compact_env" where
  "plain_compact_env = \<lparr>ce_text_of = (\<lambda>_. []), ce_parse = (\<lambda>_. None), ce_bpe = None, ce_budget = (\<lambda>_ _. None),
     ce_instruction = (\<lambda>_. []), ce_summarize = (\<lambda>_ _ w. (SummaryTimeout, w)), ce_checkpoint = (\<lambda>_ w. (Inr (), w)),
     ce_persist = (\<lambda>_ w. (Inr (), w))\<rparr>"

definition plain_agent_env :: "unit agent_env" where
  "plain_agent_env = \<lparr>ae_compact = plain_compact_env, ae_pretty = (\<lambda>_. []), ae_tools = [],
     ae_call_tool = (\<lambda>_ w. (([], Inr JNull), w)), ae_serde_error = (\<lambda>_. []), ae_classify = (\<lambda>_ w. (Inl [], w)),
     ae_read_response = (\<lambda>_. Inl []), ae_pre_hooks = None, ae_plugin_pre = None,
     ae_compact_result = (\<lambda>_ _ _ _ w. (Inr [], w)), ae_read_todo = (\<lambda>_. Inl []), ae_save_todo = (\<lambda>_ w. (Inr (), w))\<rparr>"

definition plain_env :: "unit native_env" where
  "plain_env = \<lparr>ne_agent = plain_agent_env, ne_parse = (\<lambda>_. None), ne_mailbox = (\<lambda>w. ([], w)), ne_hook_outputs = (\<lambda>w. ([], w)),
     ne_system_prompt = (\<lambda>_. []), ne_projection_policy = (\<lambda>_. default_projection_policy),
     ne_ask = (\<lambda>_ _ w. (([], Inr \<lparr>response_content = [TextBlock (lit ''done'')], stop_reason = None, usage = None\<rparr>), w)),
     ne_cancelled = (\<lambda>_. False), ne_model_label = None, ne_save_plan = (\<lambda>_ w. (Inr (), w)), ne_stop_hooks = None,
     ne_stop_input = (\<lambda>_ _. []), ne_stop_output = (\<lambda>_. None), ne_session_end = (\<lambda>_ _ w. w), ne_is_interrupt = (\<lambda>_. False)\<rparr>"

text \<open>
  With a turn limit of L the agent's loop returns: whatever the provider, the tools, the hooks and the
  session store do, a run ends with a loop end or an error after at most \<open>6 * L + 6\<close> effects.
\<close>
theorem native_loop_returns:
  assumes "na_max_turns a = Some L" "6 * L + 5 < fuel"
  shows "\<exists>r b n. run_agent_loop_with_limit env fuel turns a = Some (r, b, n)"
  using assms by (rule limited_loop_returns)

theorem native_loop_returns_witness:
  "\<exists>r b n. run_agent_loop_with_limit plain_env 30 0 (set_max_turns 4 (new_agent ())) = Some (r, b, n)"
  using native_loop_returns [of "set_max_turns 4 (new_agent ())" 4 30] by (simp add: set_max_turns_def)

text \<open>
  A run of the agent's loop never widens its own permissions, whatever the model, the tools and the
  hooks do: approval mode, approved prefixes, full access and limits stay as they were, and the mode
  stays too, unless an executing agent puts itself into plan mode. In particular it never leaves plan mode.
\<close>
theorem loop_never_widens_permissions:
  assumes "run_agent_loop_with_limit env fuel turns a = Some (r, b, n)"
  shows "na_bash_approval b = na_bash_approval a \<and> na_approved_prefixes b = na_approved_prefixes a \<and>
    na_full_access b = na_full_access a \<and> na_max_turns b = na_max_turns a \<and> na_token_budget b = na_token_budget a \<and>
    (na_mode b = na_mode a \<or> na_mode a = Execute \<and> na_mode b = Plan)"
proof -
  have "not_widened a b"
    by (rule run_loop_with_not_widened [where run = "execute_tool_calls (ne_agent env)",
      OF execute_tool_calls_moves assms [unfolded run_agent_loop_with_limit_def]])
  then show ?thesis by (auto simp: not_widened_def same_policy_def)
qed

theorem loop_never_widens_permissions_witness:
  "\<exists>r b n. run_agent_loop_with_limit plain_env 30 0 (set_max_turns 4 (new_agent ())) = Some (r, b, n) \<and>
     na_mode b \<noteq> Review \<and> na_bash_approval b = ApproveAlways \<and> na_approved_prefixes b = []"
proof -
  obtain r b n where e: "run_agent_loop_with_limit plain_env 30 0 (set_max_turns 4 (new_agent ())) = Some (r, b, n)"
    using limited_loop_returns [of "set_max_turns 4 (new_agent ())" 4 30 plain_env 0] by (auto simp: set_max_turns_def)
  show ?thesis
    using loop_never_widens_permissions [OF e] e by (auto simp: new_agent_def set_max_turns_def)
qed

text \<open>
  C3. Whatever the provider answers, whatever hooks and tools do, every tool the agent's loop runs is
  allowed by the policy in the state in which it runs: looking at the policy again immediately before
  each invocation changes nothing of a run. A shell command runs in plan mode only if it is read-only,
  and where approval is needed only if it is read-only or covered by a stored approval; no writing
  tool runs outside execution.
\<close>
theorem every_tool_run_is_allowed:
  "run_agent_loop_with_limit env fuel turns a =
     run_loop_with env (execute_tool_calls_with (checked_tool_effects (ne_agent env))) fuel turns a"
  by (simp add: run_agent_loop_with_limit_def checked_batch)

end
