(* ===== verification/NativeSession.thy ===== *)
theory NativeSession
  imports NativeLoop
begin

section \<open>What a user's input does to the agent (src/agent/runtime.rs, planning.rs, execution.rs, control_handler.rs)\<close>

text \<open>
  The operations around the loop: a query, the decision on a paused shell command, the decision on a
  plan, an answer to a question, and the control request that carries any of them. Prompt assembly,
  memory retrieval, plugin hooks, source refreshes and stores are parameters; inference leases, the
  candidates shown by clients and the print of terminal mode are left out. Lemmas: the permissions of
  a session change only by the user's decisions; a paused command is answered exactly once; with a
  turn limit every request returns.
\<close>

datatype plan_approval_decision = ApprovePlan | ContinuePlanning | RejectPlan

datatype input_control_request =
    SubmitUserPrompt ustr
  | AnswerPendingInput ustr
  | AnswerPlanApproval plan_approval_decision "ustr option"
  | AnswerShellApproval bash_approval_decision
  | SubmitFollowUp ustr

datatype session_control_request =
    CreateSession | ResumeSession ustr | CancelCurrentTurn | InterruptCurrentTurn | QueryRuntimeState

record turn_prompt_context =
  tc_environment :: ustr
  tc_execution_mode :: ustr
  tc_protocol_sources :: "ustr option"

datatype io_error_kind =
    PermissionDenied | NotFound | AlreadyExists | Interrupted | WouldBlock | WriteZero | UnexpectedEof | StorageFull
  | OtherIo ustr

record 'w session_env =
  se_loop :: "'w native_env"
  se_turn_context :: "'w native_agent \<Rightarrow> turn_prompt_context"
  se_skill_listing :: "'w \<Rightarrow> ustr option"
  se_memory_text :: "'w native_agent \<Rightarrow> ustr option"
  se_plan_file :: ustr
  se_refresh_prompts :: "'w \<Rightarrow> 'w"
  se_refresh_skills :: "'w \<Rightarrow> (ustr + unit) \<times> 'w"
  se_plugins :: "(('w \<Rightarrow> 'w) \<times> (ustr \<Rightarrow> 'w \<Rightarrow> 'w)) option"
  se_memory_enabled :: bool
  se_retrieve :: "message list \<Rightarrow> 'w \<Rightarrow> retrieved_memory_candidate list \<times> 'w"
  se_memory_notice :: "nat \<Rightarrow> 'w \<Rightarrow> ustr"
  se_refresh_files :: "message list \<Rightarrow> 'w \<Rightarrow> 'w"
  se_persist_transcript :: bool
  se_save_context :: "nat \<Rightarrow> ustr \<Rightarrow> 'w \<Rightarrow> bool \<times> 'w"
  se_debug_text :: "json \<Rightarrow> ustr"
  se_consolidate :: "'w \<Rightarrow> 'w"
  se_io_error :: "loop_error \<Rightarrow> io_error_kind option"
  se_error_text :: "loop_error \<Rightarrow> ustr"
  se_redacted_chain :: "loop_error \<Rightarrow> ustr"
  se_request_cancel :: "'w \<Rightarrow> 'w"

definition agent_env_of :: "'w session_env \<Rightarrow> 'w agent_env" where
  "agent_env_of env = ne_agent (se_loop env)"

subsection \<open>Operations that run the loop\<close>

text \<open>An operation that may run the loop: none when the fuel is used up.\<close>

type_synonym ('s, 'a) run = "'s \<Rightarrow> ((loop_error + 'a) \<times> 's) option"

definition step_run :: "('s, ustr, 'a) em \<Rightarrow> ('s, 'a) run" where
  "step_run f s = Some (case f s of (Inl e, s) \<Rightarrow> (Inl (HostError e), s) | (Inr x, s) \<Rightarrow> (Inr x, s))"

definition run_bind :: "('s, 'a) run \<Rightarrow> ('a \<Rightarrow> ('s, 'b) run) \<Rightarrow> ('s, 'b) run" where
  "run_bind f g s = (case f s of None \<Rightarrow> None | Some (Inl e, s) \<Rightarrow> Some (Inl e, s) | Some (Inr x, s) \<Rightarrow> g x s)"

definition run_then :: "('s, 'a) run \<Rightarrow> ('s, 'b) run \<Rightarrow> ('s, 'b) run" where
  "run_then f g = run_bind f (\<lambda>_. g)"

definition run_step :: "('s \<Rightarrow> 's) \<Rightarrow> ('s, unit) run" where
  "run_step f = step_run (modifyE f)"

definition on_core :: "('w compact_agent \<Rightarrow> 'w compact_agent) \<Rightarrow> 'w native_agent \<Rightarrow> 'w native_agent" where
  "on_core f a = a\<lparr>na_core := f (na_core a)\<rparr>"

definition set_history :: "message list \<Rightarrow> 'w native_agent \<Rightarrow> 'w native_agent" where
  "set_history h = on_core (\<lambda>c. c\<lparr>ca_history := h\<rparr>)"

definition recompute_tokens :: "'w session_env \<Rightarrow> 'w native_agent \<Rightarrow> 'w native_agent" where
  "recompute_tokens env = on_core (recompute_history_token_estimate (ae_compact (agent_env_of env)))"

definition agent_checkpoint :: "'w session_env \<Rightarrow> ('w native_agent, ustr, unit) em" where
  "agent_checkpoint env = checkpoint_session (agent_env_of env)"

subsection \<open>Context of the latest request (memory_retrieval.rs)\<close>

definition CLEARED_PROTOCOL_PROMPT_SOURCES :: ustr where
  "CLEARED_PROTOCOL_PROMPT_SOURCES =
     lit ''## Protocol Prompt Sources'' @ [newline, newline] @ lit ''No protocol prompt sources are active for this turn.''"

definition CLEARED_SKILL_LISTING :: ustr where
  "CLEARED_SKILL_LISTING = lit ''### Available Skills'' @ [newline, newline] @ lit ''No skills are currently available.''"

definition context_fragments :: "'w session_env \<Rightarrow> 'w native_agent \<Rightarrow> model_context_fragment list" where
  "context_fragments env a =
     (let tc = se_turn_context env a; h = na_history a in
      push_changed_context h EnvironmentContext (tc_environment tc) @
      push_changed_context h ExecutionModeContext (tc_execution_mode tc) @
      changed_or_cleared h ProtocolPromptSources CLEARED_PROTOCOL_PROMPT_SOURCES (tc_protocol_sources tc) @
      changed_or_cleared h SkillListing CLEARED_SKILL_LISTING (se_skill_listing env (na_world a)))"

definition upsert_context :: "'w session_env \<Rightarrow> model_context_fragment list \<Rightarrow> 'w native_agent \<Rightarrow> bool \<times> 'w native_agent" where
  "upsert_context env fs a =
     (case upsert_latest_user_model_context (show_json (agent_env_of env)) (na_history a) fs of
        (changed, h) \<Rightarrow> (changed, set_history h a))"

definition persist_model_context :: "'w session_env \<Rightarrow> 'w native_agent \<Rightarrow> bool \<times> 'w native_agent" where
  "persist_model_context env a =
     (case upsert_context env (context_fragments env a) a of
        (changed, a) \<Rightarrow>
          (case se_memory_text env a of
             None \<Rightarrow> (changed, a)
           | Some t \<Rightarrow>
               (case upsert_context env [\<lparr>mf_kind = RetrievedMemory, mf_text = t\<rparr>] a of
                  (changed2, a) \<Rightarrow> (changed \<or> changed2, a))))"

definition repair_history :: "'w session_env \<Rightarrow> 'w native_agent \<Rightarrow> bool \<times> 'w native_agent" where
  "repair_history env a =
     (let h = repair_tool_result_history (na_history a) in
      if h = na_history a then (False, a) else (True, on_core (replace_history (ae_compact (agent_env_of env)) h) a))"

text \<open>What \<open>run_agent_loop\<close> does before its loop.\<close>

definition prepare_loop :: "'w session_env \<Rightarrow> ('w native_agent, ustr, unit) em" where
  "prepare_loop env a =
     (case repair_history env a of
        (repaired, a) \<Rightarrow>
          (case persist_model_context env a of
             (changed, a) \<Rightarrow> if changed \<or> repaired then agent_checkpoint env (recompute_tokens env a) else (Inr (), a)))"

definition loop_run :: "'w session_env \<Rightarrow> nat \<Rightarrow> nat \<Rightarrow> ('w native_agent, unit) run" where
  "loop_run env fuel turns a =
     (case run_agent_loop_with_limit (se_loop env) fuel turns a of
        None \<Rightarrow> None | Some (Inl e, b, n) \<Rightarrow> Some (Inl e, b) | Some (Inr _, b, n) \<Rightarrow> Some (Inr (), b))"

definition run_agent_loop :: "'w session_env \<Rightarrow> nat \<Rightarrow> ('w native_agent, unit) run" where
  "run_agent_loop env fuel = run_then (step_run (prepare_loop env)) (loop_run env fuel 0)"

subsection \<open>The decision on a shell command (planning.rs)\<close>

definition open_decision :: "bash_approval_decision \<Rightarrow> pending_approval \<Rightarrow> 'w native_agent \<Rightarrow> 'w native_agent" where
  "open_decision sel p a =
     emit_event (EvApprovalAnswered (pa_tool_use_id p) (sel \<noteq> DecideSuggestion))
       (a\<lparr>na_pending_approval := None, na_pending_input := None, na_completed_approval := None\<rparr>)"

definition bash_approval :: "ustr \<Rightarrow> 'w native_agent \<Rightarrow> 'w native_agent" where
  "bash_approval t a = a\<lparr>na_completed_approval := Some \<lparr>ci_title = lit ''Bash approval'', ci_summary = t\<rparr>\<rparr>"

definition bash_call :: "pending_approval \<Rightarrow> tool_call" where
  "bash_call p = \<lparr>call_id = pa_tool_use_id p, call_name = lit ''bash'', call_input = to_value (pa_request p)\<rparr>"

definition approved_status :: "'w agent_env \<Rightarrow> json \<Rightarrow> ustr" where
  "approved_status env input =
     (case from_value (ae_serde_error env) input of
        Inr r \<Rightarrow> lit ''Running approved shell command: '' @ summary r
      | Inl _ \<Rightarrow> lit ''Running approved bash command.'')"

definition push_reply :: "'w agent_env \<Rightarrow> tool_call \<Rightarrow> ustr \<Rightarrow> bool \<Rightarrow> ('w native_agent, ustr, unit) em" where
  "push_reply env call t is_error =
     thenE (modifyE (\<lambda>a. agent_push_message env (tool_result_message (call_id call) t is_error)
         (emit_event (EvToolResult (call_id call) (call_name call) t is_error) a)))
       (checkpoint_session env)"

definition invoke_pending :: "'w agent_env \<Rightarrow> tool_call \<Rightarrow> ('w native_agent, ustr, unit) em" where
  "invoke_pending env call a =
     (case ae_call_tool env call (na_world a) of
        ((events, r), w) \<Rightarrow>
          (let a = fold (\<lambda>e. emit_event (EvToolProgress (call_id call) (call_name call) e)) events (set_world w a) in
           (case r of
              Inr v \<Rightarrow> bindE (compact_result env call v) (\<lambda>t. push_reply env call t False) a
            | Inl e \<Rightarrow> push_reply env call (lit ''Error: '' @ show_tool_error e) True a)))"

definition execute_pending_bash :: "'w agent_env \<Rightarrow> bool \<Rightarrow> pending_approval \<Rightarrow> ('w native_agent, ustr, unit) em" where
  "execute_pending_bash env keep_always p a =
     (let call = bash_call p;
          a = emit_event (EvToolUse (call_id call) (call_name call) (call_input call)) a in
      if \<not> has_tool env (lit ''bash'') then (Inl (lit ''bash tool is unavailable''), a)
      else thenE (modifyE (emit_status (approved_status env (call_input call))))
        (thenE (invoke_pending env call)
          (thenE (modifyE (push_continuation env ToolResultsAvailable 1))
            (thenE (checkpoint_session env)
              (modifyE (\<lambda>a. if keep_always then a else a\<lparr>na_bash_approval := ApproveSuggestion\<rparr>))))) a)"

definition rejected_command_error :: "pending_approval \<Rightarrow> ustr" where
  "rejected_command_error p =
     lit ''Error: bash command rejected by user. The command was not run: '' @ summary (pa_request p)"

definition reject_pending_bash :: "'w agent_env \<Rightarrow> pending_approval \<Rightarrow> ('w native_agent, ustr, unit) em" where
  "reject_pending_bash env p =
     thenE (modifyE (\<lambda>a. push_continuation env ToolResultsAvailable 0
         (agent_push_message env (tool_result_message (pa_tool_use_id p) (rejected_command_error p) True)
           (emit_event (EvToolResult (pa_tool_use_id p) (lit ''bash'') (rejected_command_error p) True)
             (bash_approval (lit ''Rejected command: '' @ summary (pa_request p)) a)))))
       (checkpoint_session env)"

definition prefix_to_approve :: "pending_approval \<Rightarrow> ustr" where
  "prefix_to_approve p =
     (case request_approval_prefix (pa_request p) of Some t \<Rightarrow> t | None \<Rightarrow> summary (pa_request p))"

definition add_prefix :: "ustr \<Rightarrow> ustr list \<Rightarrow> ustr list" where
  "add_prefix t ts = (if t \<in> set ts then ts else ts @ [t])"

text \<open>Everything before the loop is entered again.\<close>

definition resolve_approval ::
  "'w agent_env \<Rightarrow> bash_approval_decision \<Rightarrow> pending_approval \<Rightarrow> ('w native_agent, ustr, unit) em" where
  "resolve_approval env sel p =
     thenE (modifyE (open_decision sel p)) (case sel of
       DecideOnce \<Rightarrow>
         thenE (modifyE (bash_approval (lit ''Approved once for command: '' @ summary (pa_request p))))
           (execute_pending_bash env False p)
     | DecidePrefix \<Rightarrow>
         thenE (modifyE (\<lambda>a. bash_approval (lit ''Approved prefix for session: '' @ prefix_to_approve p)
             (a\<lparr>na_approved_prefixes := add_prefix (prefix_to_approve p) (na_approved_prefixes a)\<rparr>)))
           (execute_pending_bash env False p)
     | DecideAlways \<Rightarrow>
         thenE (modifyE (\<lambda>a. bash_approval (lit ''Approved for session: '' @ summary (pa_request p))
             (a\<lparr>na_bash_approval := ApproveAlways\<rparr>)))
           (execute_pending_bash env True p)
     | DecideSuggestion \<Rightarrow> reject_pending_bash env p)"

definition answer_pending_approval ::
  "'w session_env \<Rightarrow> nat \<Rightarrow> bash_approval_decision \<Rightarrow> ('w native_agent, unit) run" where
  "answer_pending_approval env fuel sel a =
     (case na_pending_approval a of
        None \<Rightarrow> Some (Inl (HostError (lit ''No pending approval to answer'')), a)
      | Some p \<Rightarrow>
          run_then (step_run (resolve_approval (agent_env_of env) sel p))
            (run_then (run_agent_loop env fuel) (step_run (agent_checkpoint env))) a)"

subsection \<open>The decision on a plan (planning.rs)\<close>

definition feedback_text :: "ustr option \<Rightarrow> ustr" where
  "feedback_text f = (case Option.bind f (\<lambda>t. some_text (trim t)) of
     None \<Rightarrow> [] | Some t \<Rightarrow> [newline] @ lit ''User feedback: '' @ t)"

definition reply_to_exit :: "'w session_env \<Rightarrow> ustr option \<Rightarrow> ustr \<Rightarrow> bool \<Rightarrow> 'w native_agent \<Rightarrow> 'w native_agent" where
  "reply_to_exit env tool t is_error a =
     (case tool of None \<Rightarrow> a | Some i \<Rightarrow> agent_push_message (agent_env_of env) (tool_result_message i t is_error) a)"

definition approved_plan_text :: "'w session_env \<Rightarrow> 'w native_agent \<Rightarrow> ustr" where
  "approved_plan_text env a =
     lit ''User has approved your plan. You can now start coding.'' @ [newline, newline] @
     lit ''Your plan has been saved to: '' @ se_plan_file env @ [newline] @
     lit ''You can refer back to it if needed during implementation.'' @ [newline, newline] @
     lit ''## Approved Plan:'' @ [newline] @ current_plan_markdown a"

definition continue_planning_text :: "ustr option \<Rightarrow> ustr" where
  "continue_planning_text f =
     lit ''User chose to continue planning. Revise the plan and call exit_plan_mode again when it is ready for approval.'' @
     feedback_text f"

definition emit_answer :: "ustr option \<Rightarrow> bool \<Rightarrow> 'w native_agent \<Rightarrow> 'w native_agent" where
  "emit_answer tool approved a = (case tool of None \<Rightarrow> a | Some i \<Rightarrow> emit_event (EvApprovalAnswered i approved) a)"

definition decide_plan :: "'w session_env \<Rightarrow> bool \<Rightarrow> ustr option \<Rightarrow> ('w native_agent, ustr, unit) em" where
  "decide_plan env continue_planning feedback a =
     (let tool = na_pending_plan_exit a;
          a = emit_answer tool (\<not> continue_planning) (discard_pending_interactions a);
          a = (if continue_planning then
                 push_continuation (agent_env_of env) PlanContinuationRequired 0
                   (reply_to_exit env tool (continue_planning_text feedback) False
                     (emit_status (lit ''Continuing plan refinement from the current plan state.'') (a\<lparr>na_mode := Plan\<rparr>)))
               else
                 push_continuation (agent_env_of env) PlanApprovedPhase 0
                   (reply_to_exit env tool (approved_plan_text env a) False
                     (emit_status (lit ''Plan approved. Continuing with implementation.'') (a\<lparr>na_mode := Execute\<rparr>)))) in
      thenE (agent_checkpoint env)
        (modifyE (\<lambda>a. emit_event (EvPlanUpdated (na_plan a) (na_plan_explanation a)) a)) a)"

definition resume_after_plan_approval ::
  "'w session_env \<Rightarrow> nat \<Rightarrow> bool \<Rightarrow> ustr option \<Rightarrow> ('w native_agent, unit) run" where
  "resume_after_plan_approval env fuel continue_planning feedback =
     run_then (step_run (decide_plan env continue_planning feedback)) (run_agent_loop env fuel)"

definition reject_pending_plan_approval :: "'w session_env \<Rightarrow> ustr option \<Rightarrow> ('w native_agent, ustr, unit) em" where
  "reject_pending_plan_approval env feedback a =
     agent_checkpoint env
       (reply_to_exit env (na_pending_plan_exit a)
         (lit ''User rejected the plan. Do not start implementation.'' @ feedback_text feedback) True
         ((discard_pending_interactions a)\<lparr>na_mode := Execute\<rparr>))"

subsection \<open>Recovery from a runtime error (agent.rs, execution.rs)\<close>

definition io_error_label :: "io_error_kind \<Rightarrow> ustr" where
  "io_error_label k = (case k of
     PermissionDenied \<Rightarrow> lit ''permission_denied'' | NotFound \<Rightarrow> lit ''path_not_found''
   | AlreadyExists \<Rightarrow> lit ''path_already_exists'' | Interrupted \<Rightarrow> lit ''interrupted''
   | WouldBlock \<Rightarrow> lit ''would_block'' | WriteZero \<Rightarrow> lit ''write_zero''
   | UnexpectedEof \<Rightarrow> lit ''unexpected_eof'' | StorageFull \<Rightarrow> lit ''storage_full''
   | OtherIo t \<Rightarrow> if contains_str (map to_ascii_lowercase t) (lit ''operation not permitted'')
                  then lit ''operation_not_permitted'' else lit ''io_error'')"

definition recoverable_runtime_error_kind :: "'w session_env \<Rightarrow> loop_error \<Rightarrow> ustr option" where
  "recoverable_runtime_error_kind env e =
     (case se_io_error env e of
        Some k \<Rightarrow> Some (io_error_label k)
      | None \<Rightarrow>
          (let t = map to_ascii_lowercase (se_error_text env e) in
           if contains_str t (lit ''no space left on device'') then Some (lit ''storage_full'')
           else if contains_str t (lit ''sandbox'') \<or> contains_str t (lit ''operation not permitted'')
           then Some (lit ''operation_not_permitted'') else None))"

definition recoverable_runtime_error_message :: "'w session_env \<Rightarrow> ustr \<Rightarrow> loop_error \<Rightarrow> message" where
  "recoverable_runtime_error_message env kind e = user_text (join
     [lit ''<agent_runtime_error>'', lit ''kind: '' @ kind, lit ''error:'', se_redacted_chain env e, [],
      lit ''instructions:'',
      lit ''- Treat this as a recoverable local runtime or filesystem error from the previous step.'',
      lit ''- Explain the likely cause briefly, then choose the safest next action.'',
      lit ''- If the error came from disk space, sandboxing, or file permissions, inspect or suggest remediation instead of repeating the exact failing operation blindly.'',
      lit ''- Continue the same user task when it is safe to do so.'', lit ''</agent_runtime_error>''] [newline])"

definition MAX_RUNTIME_ERROR_RECOVERY_ATTEMPTS :: nat where
  "MAX_RUNTIME_ERROR_RECOVERY_ATTEMPTS = 1"

definition try_continue_after_recoverable_runtime_error ::
  "'w session_env \<Rightarrow> nat \<Rightarrow> loop_error \<Rightarrow> nat \<Rightarrow> nat \<Rightarrow> ('w native_agent, bool) run" where
  "try_continue_after_recoverable_runtime_error env fuel e turns recoveries a =
     (case recoverable_runtime_error_kind env e of
        None \<Rightarrow> Some (Inr False, a)
      | Some kind \<Rightarrow>
          if MAX_RUNTIME_ERROR_RECOVERY_ATTEMPTS \<le> recoveries then Some (Inr False, a)
          else run_then (run_step (\<lambda>a. agent_push_message (agent_env_of env) (recoverable_runtime_error_message env kind e)
                   (emit_status (lit ''Recoverable local runtime error detected ('' @ kind @
                      lit ''). Asking the model to handle it.'') a)))
                 (run_then (loop_run env fuel turns) (step_run (retE True))) a)"

subsection \<open>A query (runtime.rs)\<close>

definition MEMORY_NOTICE_PREFIX :: ustr where
  "MEMORY_NOTICE_PREFIX = lit ''Memory '' @ [0xb7]"

definition memory_notice :: "ustr \<Rightarrow> ustr" where
  "memory_notice t = MEMORY_NOTICE_PREFIX @ lit '' '' @ t"

definition start_query :: "'w session_env \<Rightarrow> ustr \<Rightarrow> 'w native_agent \<Rightarrow> 'w native_agent" where
  "start_query env prompt a =
     (let a = a\<lparr>na_inspection := default_inspection, na_plan_updated := False, na_pending_plan_exit := None\<rparr> in
      case se_plugins env of
        None \<Rightarrow> a
      | Some (session_start, prompt_submit) \<Rightarrow>
          on_world (prompt_submit prompt)
            (if na_start_hooks_ran a then a else on_world session_start (a\<lparr>na_start_hooks_ran := True\<rparr>)))"

definition compaction_event :: "compact_report \<Rightarrow> agent_event" where
  "compaction_event r = (case r of CompactStatus t \<Rightarrow> EvStatus t | CompactDone n b c t fs \<Rightarrow> EvCompaction n b c t fs)"

definition compact_before_query :: "'w session_env \<Rightarrow> ('w native_agent, ustr, unit) em" where
  "compact_before_query env a =
     (case compact_if_needed (ae_compact (agent_env_of env)) (na_core a) of
        (r, c) \<Rightarrow>
          (r, fold (\<lambda>e. emit_event (compaction_event e)) (drop (length (ca_reports (na_core a))) (ca_reports c))
                (a\<lparr>na_core := c\<rparr>)))"

definition repair_before_query :: "'w session_env \<Rightarrow> ('w native_agent, ustr, unit) em" where
  "repair_before_query env a =
     (case repair_history env a of (repaired, a) \<Rightarrow> if repaired then agent_checkpoint env a else (Inr (), a))"

definition retrieve_memory :: "'w session_env \<Rightarrow> 'w native_agent \<Rightarrow> 'w native_agent" where
  "retrieve_memory env a =
     (if \<not> se_memory_enabled env then on_core (\<lambda>c. c\<lparr>ca_candidates := []\<rparr>) a
      else (case se_retrieve env (na_history a) (na_world a) of
        (cs, w) \<Rightarrow>
          emit_event (EvMemoryAction (memory_notice (se_memory_notice env (length cs) w)))
            (on_core (\<lambda>c. c\<lparr>ca_candidates := cs\<rparr>) (set_world w
              (emit_event (EvMemoryAction (memory_notice (lit ''querying workspace memory''))) a)))))"

definition refresh_sources :: "'w session_env \<Rightarrow> ('w native_agent, ustr, unit) em" where
  "refresh_sources env a =
     (case se_refresh_skills env (se_refresh_prompts env (na_world a)) of (r, w) \<Rightarrow> (r, set_world w a))"

definition refresh_context :: "'w session_env \<Rightarrow> ('w native_agent, ustr, unit) em" where
  "refresh_context env a =
     (case persist_model_context env a of
        (changed, a) \<Rightarrow> if changed then agent_checkpoint env (recompute_tokens env a) else (Inr (), a))"

definition prepare_query :: "'w session_env \<Rightarrow> ustr \<Rightarrow> ('w native_agent, ustr, unit) em" where
  "prepare_query env prompt =
     thenE (modifyE (start_query env prompt))
    (thenE (compact_before_query env)
    (thenE (repair_before_query env)
    (thenE (modifyE (\<lambda>a. agent_push_message (agent_env_of env) (user_text prompt) (clear_completed_interactions a)))
    (thenE (agent_checkpoint env)
    (thenE (modifyE (\<lambda>a. on_world (se_refresh_files env (na_history a)) (retrieve_memory env a)))
    (thenE (refresh_sources env) (refresh_context env)))))))"

definition transcript_text :: "'w session_env \<Rightarrow> ustr \<Rightarrow> 'w native_agent \<Rightarrow> ustr" where
  "transcript_text env prompt a =
     lit ''User: '' @ prompt @ [newline] @ lit ''Agent Response: '' @ se_debug_text env (content (last (na_history a)))"

definition save_transcript :: "'w session_env \<Rightarrow> nat \<Rightarrow> ustr \<Rightarrow> 'w native_agent \<Rightarrow> 'w native_agent" where
  "save_transcript env start prompt a =
     (if \<not> se_persist_transcript env then a
      else (case se_save_context env (start mod 2 ^ 32) (transcript_text env prompt a) (na_world a) of
        (saved, w) \<Rightarrow>
          (let a = set_world w a in
           if saved then emit_event (EvMemoryAction (memory_notice (lit ''wrote session checkpoint''))) a else a)))"

definition run_or_recover :: "'w session_env \<Rightarrow> nat \<Rightarrow> ('w native_agent, unit) run" where
  "run_or_recover env fuel a =
     (case run_agent_loop_with_limit (se_loop env) fuel 0 a of
        None \<Rightarrow> None
      | Some (Inr _, a, n) \<Rightarrow> Some (Inr (), if se_memory_enabled env then on_world (se_consolidate env) a else a)
      | Some (Inl e, a, n) \<Rightarrow>
          run_bind (try_continue_after_recoverable_runtime_error env fuel e n 0)
            (\<lambda>continued. if continued
               then run_step (emit_status (lit ''Runtime error was surfaced to the model and the turn continued.''))
               else (\<lambda>a. Some (Inl e, a))) a)"

definition query_inner :: "'w session_env \<Rightarrow> nat \<Rightarrow> ustr \<Rightarrow> ('w native_agent, unit) run" where
  "query_inner env fuel prompt a =
     run_then (step_run (prepare_query env prompt))
       (run_then (run_or_recover env fuel)
         (run_then (step_run (agent_checkpoint env)) (run_step (save_transcript env (length (na_history a)) prompt)))) a"

subsection \<open>Control requests (control_handler.rs)\<close>

definition handle_session_control :: "'w session_env \<Rightarrow> session_control_request \<Rightarrow> 'w native_agent \<Rightarrow> 'w native_agent" where
  "handle_session_control env req a =
     (if req = CancelCurrentTurn \<or> req = InterruptCurrentTurn then on_world (se_request_cancel env) a else a)"

definition no_plan_to_decide :: "'w native_agent \<Rightarrow> bool" where
  "no_plan_to_decide a \<longleftrightarrow> na_pending_plan_exit a = None \<and> \<not> (na_mode a = Plan \<and> na_plan a \<noteq> [])"

definition control_guard :: "'w session_env \<Rightarrow> input_control_request \<Rightarrow> ('w native_agent, ustr, unit) em" where
  "control_guard env req a = (case req of
     AnswerPlanApproval d _ \<Rightarrow>
       if no_plan_to_decide a then (Inl (lit ''no pending plan approval''), a)
       else if d = RejectPlan then (Inr (), a) else refresh_sources env a
   | AnswerShellApproval _ \<Rightarrow>
       if na_pending_approval a = None then (Inl (lit ''no pending shell approval''), a) else refresh_sources env a
   | AnswerPendingInput _ \<Rightarrow>
       if na_pending_input a = None then (Inl (lit ''no pending user input''), a) else (Inr (), a)
   | _ \<Rightarrow> (Inr (), a))"

definition reject_plan :: "'w session_env \<Rightarrow> ustr option \<Rightarrow> ('w native_agent, ustr, unit) em" where
  "reject_plan env feedback a =
     thenE (reject_pending_plan_approval env feedback) (modifyE (emit_answer (na_pending_plan_exit a) False)) a"

definition control_action :: "'w session_env \<Rightarrow> nat \<Rightarrow> input_control_request \<Rightarrow> ('w native_agent, unit) run" where
  "control_action env fuel req = (case req of
     SubmitUserPrompt prompt \<Rightarrow> query_inner env fuel prompt
   | AnswerPendingInput answer \<Rightarrow>
       run_then (run_step (consume_pending_user_input answer)) (query_inner env fuel answer)
   | AnswerPlanApproval ApprovePlan _ \<Rightarrow> resume_after_plan_approval env fuel False None
   | AnswerPlanApproval ContinuePlanning feedback \<Rightarrow> resume_after_plan_approval env fuel True feedback
   | AnswerPlanApproval RejectPlan feedback \<Rightarrow> step_run (reject_plan env feedback)
   | AnswerShellApproval d \<Rightarrow> answer_pending_approval env fuel d
   | SubmitFollowUp prompt \<Rightarrow> query_inner env fuel prompt)"

definition handle_input_control :: "'w session_env \<Rightarrow> nat \<Rightarrow> input_control_request \<Rightarrow> ('w native_agent, unit) run" where
  "handle_input_control env fuel req = run_then (step_run (control_guard env req)) (control_action env fuel req)"

subsection \<open>A new thread (thread_reset.rs)\<close>

text \<open>The conversation is forgotten; permissions, limits, mode and world stay. Hook outputs of the old thread are drained.\<close>

definition reset_for_new_thread :: "'w session_env \<Rightarrow> 'w native_agent \<Rightarrow> 'w native_agent" where
  "reset_for_new_thread env a =
     (let s = ca_state (na_core a) in
      on_world (\<lambda>w. snd (ne_hook_outputs (se_loop env) w))
       (a\<lparr>na_core := (na_core a)\<lparr>ca_history := [], ca_candidates := [],
            ca_state := default_compact_state\<lparr>context_window_tokens := context_window_tokens s,
              compact_threshold_tokens := compact_threshold_tokens s, reserved_output_tokens := reserved_output_tokens s\<rparr>\<rparr>,
          na_input_tokens := 0, na_output_tokens := 0, na_cache_hit := 0, na_cache_miss := 0,
          na_aux_cache_hit := 0, na_aux_cache_miss := 0, na_budget_exhausted := False,
          na_plan := [], na_plan_explanation := None, na_pending_input := None, na_pending_approval := None,
          na_completed_input := None, na_completed_approval := None, na_todo := None,
          na_projection := default_projection_report, na_inspection := default_inspection, na_plan_updated := False,
          na_recent_calls := [], na_pending_plan_exit := None, na_start_hooks_ran := False\<rparr>))"

end
