(* ===== verification/NativeControl.thy ===== *)
theory NativeControl
  imports NativeSession
begin

section \<open>What a control request may change\<close>

text \<open>
  Lemmas on the operations of \<open>NativeSession\<close>: permissions change only by the user's decisions, a
  paused command is answered exactly once, and with a turn limit every request returns.
\<close>

subsection \<open>Operations that keep a relation and return\<close>

definition run_moves :: "('s \<Rightarrow> 's \<Rightarrow> bool) \<Rightarrow> ('s, 'a) run \<Rightarrow> bool" where
  "run_moves R f \<longleftrightarrow> (\<forall>s r t. f s = Some (r, t) \<longrightarrow> R s t)"

definition run_returns :: "('s \<Rightarrow> bool) \<Rightarrow> ('s, 'a) run \<Rightarrow> bool" where
  "run_returns P f \<longleftrightarrow> (\<forall>s. P s \<longrightarrow> f s \<noteq> None)"

context preorder_relation
begin

lemma run_moves_step: "moves R f \<Longrightarrow> run_moves R (step_run f)"
  unfolding run_moves_def step_run_def moves_def
  by (auto split: prod.splits sum.splits) (metis snd_conv)+

lemma run_moves_change: "(\<And>s. R s (f s)) \<Longrightarrow> run_moves R (run_step f)"
  unfolding run_step_def by (rule run_moves_step, rule moves_modify)

lemma run_moves_bind: "run_moves R f \<Longrightarrow> (\<And>x. run_moves R (g x)) \<Longrightarrow> run_moves R (run_bind f g)"
  unfolding run_moves_def run_bind_def
  by (auto split: option.splits sum.splits) (use R_trans in blast)

lemma run_moves_then: "run_moves R f \<Longrightarrow> run_moves R g \<Longrightarrow> run_moves R (run_then f g)"
  unfolding run_then_def by (rule run_moves_bind)

lemma run_moves_ret: "run_moves R (\<lambda>a. Some (r, a))"
  by (simp add: run_moves_def R_refl)

end

text \<open>A run returns from every state with a property that its parts keep.\<close>

locale kept_property = preorder_relation R for R :: "'h \<Rightarrow> 'h \<Rightarrow> bool" +
  fixes P :: "'h \<Rightarrow> bool"
  assumes P_kept: "P s \<Longrightarrow> R s t \<Longrightarrow> P t"
begin

lemma run_returns_step: "run_returns P (step_run f)" "run_returns P (run_step g)" "run_returns P (\<lambda>a. Some (r, a))"
  by (simp_all add: run_returns_def step_run_def run_step_def)

lemma run_returns_bind:
  assumes "run_moves R f" "run_returns P f" "\<And>x. run_returns P (g x)"
  shows "run_returns P (run_bind f g)"
  unfolding run_returns_def
proof (intro allI impI)
  fix s assume s: "P s"
  then obtain r t where f: "f s = Some (r, t)"
    using assms(2) unfolding run_returns_def by (metis not_None_eq surj_pair)
  with assms(1) s P_kept have "P t" unfolding run_moves_def by blast
  with assms(3) f show "run_bind f g s \<noteq> None"
    by (simp add: run_bind_def run_returns_def split: sum.split)
qed

lemma run_returns_then: "run_moves R f \<Longrightarrow> run_returns P f \<Longrightarrow> run_returns P g \<Longrightarrow> run_returns P (run_then f g)"
  unfolding run_then_def by (rule run_returns_bind)

end

subsection \<open>Steps that keep the policy\<close>

lemma same_policy_steps [simp]:
  "same_policy a (on_core f b) = same_policy a b" "same_policy a (set_history h b) = same_policy a b"
  "same_policy a (recompute_tokens env b) = same_policy a b"
  "same_policy a (b\<lparr>na_completed_approval := x\<rparr>) = same_policy a b" "same_policy a (b\<lparr>na_completed_input := x\<rparr>) = same_policy a b"
  "same_policy a (b\<lparr>na_pending_approval := y\<rparr>) = same_policy a b" "same_policy a (b\<lparr>na_pending_plan_exit := z\<rparr>) = same_policy a b"
  "same_policy a (b\<lparr>na_inspection := i\<rparr>) = same_policy a b" "same_policy a (b\<lparr>na_start_hooks_ran := s\<rparr>) = same_policy a b"
  by (simp_all add: same_policy_def on_core_def set_history_def recompute_tokens_def)

lemma same_policy_small [simp]:
  "same_policy a (on_world f b) = same_policy a b" "same_policy a (bash_approval t b) = same_policy a b"
  "same_policy a (open_decision sel p b) = same_policy a b"
  "same_policy a (discard_pending_interactions b) = same_policy a b"
  "same_policy a (clear_completed_interactions b) = same_policy a b"
  "same_policy a (emit_answer tool yes b) = same_policy a b"
  "same_policy a (reply_to_exit env2 tool u e b) = same_policy a b"
  "same_policy a (start_query env2 prompt b) = same_policy a b"
  "same_policy a (retrieve_memory env2 b) = same_policy a b"
  "same_policy a (save_transcript env2 n prompt b) = same_policy a b"
  "same_policy a (consume_pending_user_input answer b) = same_policy a b"
  by (simp_all add: on_world_def bash_approval_def open_decision_def discard_pending_interactions_def
      clear_completed_interactions_def emit_answer_def reply_to_exit_def start_query_def retrieve_memory_def
      save_transcript_def consume_pending_user_input_def Let_def split: option.split prod.split)

text \<open>The permissions a request of a kind may change.\<close>

definition grants :: "input_control_request \<Rightarrow> 'w native_agent \<Rightarrow> 'w native_agent \<Rightarrow> bool" where
  "grants req a b \<longleftrightarrow>
     na_full_access b = na_full_access a \<and> na_max_turns b = na_max_turns a \<and> na_token_budget b = na_token_budget a \<and>
     (na_mode a = Plan \<longrightarrow> na_mode b = Plan \<or> (\<exists>d f. req = AnswerPlanApproval d f \<and> d \<noteq> ContinuePlanning)) \<and>
     (na_approved_prefixes b = na_approved_prefixes a \<or> req = AnswerShellApproval DecidePrefix) \<and>
     (na_bash_approval b = na_bash_approval a \<or>
        (\<exists>d. req = AnswerShellApproval d \<and> (na_bash_approval b = ApproveSuggestion \<or> d = DecideAlways)))"

interpretation granted: preorder_relation "grants req" for req
  by unfold_locales (auto simp: grants_def)

lemma same_grants: "same_policy a b \<Longrightarrow> grants req a b"
  by (simp add: same_policy_def grants_def)

lemma not_widened_grants: "not_widened a b \<Longrightarrow> grants req a b"
  by (auto simp: not_widened_def same_policy_def grants_def)

lemma change_grants: "(\<And>a. same_policy a (f a)) \<Longrightarrow> moves (grants req) (modifyE f)"
  by (rule granted.moves_modify) (simp add: same_grants)

lemma moves_same: "(\<And>a. same_policy a (snd (f a))) \<Longrightarrow> moves (grants req) f"
  by (simp add: moves_def same_grants)

lemma checkpoint_grants: "moves (grants req) (checkpoint_session env)" "moves (grants req) (agent_checkpoint senv)"
  unfolding agent_checkpoint_def
  by (auto intro!: moves_same simp: checkpoint_session_def split: prod.split)

lemma upsert_policy: "upsert_context env fs a = (c, b) \<Longrightarrow> same_policy a b"
  by (auto simp: upsert_context_def split: prod.splits)

lemma persist_policy: "persist_model_context env a = (c, b) \<Longrightarrow> same_policy a b"
  by (auto simp: persist_model_context_def split: prod.splits option.splits
      dest!: upsert_policy intro: same_policy_trans)

lemma repair_policy: "repair_history env a = (c, b) \<Longrightarrow> same_policy a b"
  by (auto simp: repair_history_def Let_def split: if_splits)

lemma agent_checkpoint_policy [simp]: "same_policy a (snd (agent_checkpoint env b)) = same_policy a b"
  by (simp add: agent_checkpoint_def checkpoint_session_def split: prod.split)

lemma prepare_loop_policy: "same_policy a (snd (prepare_loop env a))"
  by (auto simp: prepare_loop_def split: prod.splits dest!: repair_policy persist_policy intro: same_policy_trans)

lemma refresh_policy: "same_policy a (snd (refresh_context env a))" "same_policy a (snd (refresh_sources env a))"
  "same_policy a (snd (repair_before_query env a))" "same_policy a (snd (compact_before_query env a))"
  by (auto simp: refresh_context_def refresh_sources_def repair_before_query_def compact_before_query_def
      split: prod.splits dest: persist_policy repair_policy)

lemma loop_run_grants: "run_moves (grants req) (loop_run env fuel turns)"
proof -
  have "grants req a b" if "run_agent_loop_with_limit (se_loop env) fuel turns a = Some (r, b, n)" for a b r n
    by (rule not_widened_grants, rule run_loop_with_not_widened [where run = "execute_tool_calls (ne_agent (se_loop env))",
          OF execute_tool_calls_moves that [unfolded run_agent_loop_with_limit_def]])
  then show ?thesis
    by (auto simp: run_moves_def loop_run_def split: option.splits sum.splits)
qed

lemma run_agent_loop_grants: "run_moves (grants req) (run_agent_loop env fuel)"
  unfolding run_agent_loop_def
  by (intro granted.run_moves_then granted.run_moves_step loop_run_grants moves_same prepare_loop_policy)

lemmas grants_intros = granted.run_moves_then granted.run_moves_bind granted.run_moves_step granted.run_moves_change
  granted.run_moves_ret granted.moves_then granted.moves_bind granted.moves_ret change_grants checkpoint_grants
  loop_run_grants run_agent_loop_grants

lemma recover_grants: "run_moves (grants req) (try_continue_after_recoverable_runtime_error env fuel e n k)"
proof -
  have "run_moves (grants req) (run_then (run_step (\<lambda>a. agent_push_message (agent_env_of env) m (emit_status t a)))
          (run_then (loop_run env fuel n) (step_run (retE True))))" for m t
    by (intro grants_intros) (simp add: same_grants)
  then show ?thesis
    by (auto simp: run_moves_def try_continue_after_recoverable_runtime_error_def granted.R_refl
        split: option.splits if_splits)
qed

lemma run_or_recover_grants: "run_moves (grants req) (run_or_recover env fuel)"
proof -
  have rec: "run_moves (grants req) (run_bind (try_continue_after_recoverable_runtime_error env fuel e n k)
      (\<lambda>c. if c then run_step (emit_status t) else (\<lambda>a. Some (Inl e, a))))" for e n k t
    by (intro granted.run_moves_bind recover_grants) (auto intro!: grants_intros same_grants)
  have loop: "grants req a b" if "run_agent_loop_with_limit (se_loop env) fuel 0 a = Some (r, b, n)" for a r b n
  proof -
    have "loop_run env fuel 0 a = Some (map_sum id (\<lambda>_. ()) r, b)" using that by (cases r) (simp_all add: loop_run_def)
    then show ?thesis using loop_run_grants unfolding run_moves_def by blast
  qed
  show ?thesis
    unfolding run_moves_def
  proof (intro allI impI)
    fix a r b assume run: "run_or_recover env fuel a = Some (r, b)"
    then obtain q a1 n where q: "run_agent_loop_with_limit (se_loop env) fuel 0 a = Some (q, a1, n)"
      by (auto simp: run_or_recover_def split: option.splits)
    note g = loop [OF q]
    show "grants req a b"
    proof (cases q)
      case (Inl e)
      with run q rec have "grants req a1 b" unfolding run_moves_def run_or_recover_def by fastforce
      with g show ?thesis by (rule granted.R_trans)
    next
      case (Inr x)
      with run q have "b = (if se_memory_enabled env then on_world (se_consolidate env) a1 else a1)"
        by (simp add: run_or_recover_def)
      then have "grants req a1 b" by (simp add: same_grants)
      with g show ?thesis by (rule granted.R_trans)
    qed
  qed
qed

lemma prepare_query_grants: "moves (grants req) (prepare_query env prompt)"
  unfolding prepare_query_def
  by (intro grants_intros moves_same refresh_policy) simp_all

lemma query_grants: "run_moves (grants req) (query_inner env fuel prompt)"
proof -
  have "run_moves (grants req) (run_then (step_run (prepare_query env prompt)) (run_then (run_or_recover env fuel)
      (run_then (step_run (agent_checkpoint env)) (run_step (save_transcript env n prompt)))))" for n
    by (intro grants_intros prepare_query_grants run_or_recover_grants) (simp add: same_grants)
  then show ?thesis by (simp add: run_moves_def query_inner_def)
qed

subsection \<open>Decisions\<close>

lemma push_reply_grants: "moves (grants req) (push_reply env call t e)"
  unfolding push_reply_def by (intro grants_intros) simp

lemma invoke_pending_grants: "moves (grants req) (invoke_pending env call)"
  unfolding moves_def
proof
  fix a
  obtain events r w where call: "ae_call_tool env call (na_world a) = ((events, r), w)" by (metis surj_pair)
  let ?a = "fold (\<lambda>e. emit_event (EvToolProgress (call_id call) (call_name call) e)) events (set_world w a)"
  have compact: "moves (grants req) (compact_result env call v)" for v
    by (rule moves_same) (metis compact_result_policy prod.collapse)
  have m: "moves (grants req) (bindE (compact_result env call v) (\<lambda>t. push_reply env call t False))" for v
    by (intro granted.moves_bind compact push_reply_grants)
  have "grants req a ?a" by (simp add: same_grants)
  from granted.moves_after [OF this m] granted.moves_after [OF this push_reply_grants]
  show "grants req a (snd (invoke_pending env call a))"
    by (simp add: invoke_pending_def call Let_def split: sum.split)
qed

lemma execute_pending_grants:
  fixes env :: "'w agent_env"
  assumes "\<And>a :: 'w native_agent. grants req a (if keep then a else a\<lparr>na_bash_approval := ApproveSuggestion\<rparr>)"
  shows "moves (grants req) (execute_pending_bash env keep p)"
  unfolding moves_def
proof
  fix a :: "'w native_agent"
  let ?a = "emit_event (EvToolUse (call_id (bash_call p)) (call_name (bash_call p)) (call_input (bash_call p))) a"
  let ?run = "thenE (modifyE (emit_status (approved_status env (call_input (bash_call p)))))
    (thenE (invoke_pending env (bash_call p)) (thenE (modifyE (push_continuation env ToolResultsAvailable 1))
      (thenE (checkpoint_session env) (modifyE (\<lambda>a. if keep then a else a\<lparr>na_bash_approval := ApproveSuggestion\<rparr>)))))"
  have narrow: "moves (grants req) (modifyE (\<lambda>a :: 'w native_agent. if keep then a else a\<lparr>na_bash_approval := ApproveSuggestion\<rparr>))"
    by (rule granted.moves_modify) (rule assms)
  have run: "moves (grants req) ?run"
    by (intro granted.moves_then invoke_pending_grants checkpoint_grants narrow) (rule change_grants, simp)+
  have a: "grants req a ?a" by (simp add: same_grants)
  from granted.moves_after [OF a run] a show "grants req a (snd (execute_pending_bash env keep p a))"
    by (simp add: execute_pending_bash_def Let_def)
qed

lemma resolve_approval_grants: "moves (grants (AnswerShellApproval sel)) (resolve_approval env sel p)"
proof (cases sel)
  case DecideOnce
  have "moves (grants (AnswerShellApproval DecideOnce)) (execute_pending_bash env False p)"
    by (rule execute_pending_grants) (simp add: grants_def)
  then show ?thesis unfolding DecideOnce resolve_approval_def by (auto intro!: grants_intros)
next
  case DecidePrefix
  have run: "moves (grants (AnswerShellApproval DecidePrefix)) (execute_pending_bash env False p)"
    by (rule execute_pending_grants) (simp add: grants_def)
  show ?thesis unfolding DecidePrefix resolve_approval_def bash_approval_decision.case
    by (intro granted.moves_then run, rule change_grants, simp, rule granted.moves_modify)
      (simp add: grants_def bash_approval_def)
next
  case DecideAlways
  have run: "moves (grants (AnswerShellApproval DecideAlways)) (execute_pending_bash env True p)"
    by (rule execute_pending_grants) (simp add: grants_def)
  show ?thesis unfolding DecideAlways resolve_approval_def bash_approval_decision.case
    by (intro granted.moves_then run, rule change_grants, simp, rule granted.moves_modify)
      (simp add: grants_def bash_approval_def)
next
  case DecideSuggestion
  then show ?thesis unfolding resolve_approval_def reject_pending_bash_def by (auto intro!: grants_intros)
qed

lemma answer_grants: "run_moves (grants (AnswerShellApproval sel)) (answer_pending_approval env fuel sel)"
proof -
  have "run_moves (grants (AnswerShellApproval sel)) (run_then (step_run (resolve_approval (agent_env_of env) sel p))
      (run_then (run_agent_loop env fuel) (step_run (agent_checkpoint env))))" for p
    by (intro grants_intros resolve_approval_grants)
  then show ?thesis
    by (auto simp: run_moves_def answer_pending_approval_def granted.R_refl split: option.splits)
qed

lemma mode_change_grants:
  "same_policy (a\<lparr>na_mode := m\<rparr>) b \<Longrightarrow> m = Plan \<or> (\<exists>d f. req = AnswerPlanApproval d f \<and> d \<noteq> ContinuePlanning) \<Longrightarrow>
     grants req a b"
  by (auto simp: same_policy_def grants_def)

lemma same_policy_mode [simp]:
  "same_policy (a\<lparr>na_mode := m\<rparr>) ((discard_pending_interactions a)\<lparr>na_mode := m\<rparr>)"
  "same_policy (a\<lparr>na_mode := m\<rparr>) ((emit_answer t u (discard_pending_interactions a))\<lparr>na_mode := m\<rparr>)"
  by (simp_all add: same_policy_def discard_pending_interactions_def emit_answer_def emit_event_def split: option.split)

lemma decide_plan_grants:
  fixes env :: "'w session_env"
  assumes "continue_planning \<or> (\<exists>d f. req = AnswerPlanApproval d f \<and> d \<noteq> ContinuePlanning)"
  shows "moves (grants req) (decide_plan env continue_planning feedback)"
  unfolding moves_def
proof
  fix a :: "'w native_agent"
  let ?a = "emit_answer (na_pending_plan_exit a) (\<not> continue_planning) (discard_pending_interactions a)"
  let ?m = "if continue_planning then Plan else Execute"
  have rest: "moves (grants req) (thenE (agent_checkpoint env)
      (modifyE (\<lambda>a :: 'w native_agent. emit_event (EvPlanUpdated (na_plan a) (na_plan_explanation a)) a)))"
    by (intro grants_intros) simp
  have "grants req a (push_continuation (agent_env_of env) ph 0 (reply_to_exit env t u e (emit_status v (?a\<lparr>na_mode := ?m\<rparr>))))" for ph t u e v
    by (rule mode_change_grants [where m = ?m]) (use assms in auto)
  note after = granted.moves_after [OF this rest]
  show "grants req a (snd (decide_plan env continue_planning feedback a))"
    using after by (cases continue_planning) (simp_all add: decide_plan_def Let_def)
qed

lemma reject_plan_grants:
  fixes env :: "'w session_env"
  shows "moves (grants (AnswerPlanApproval RejectPlan f)) (reject_plan env feedback)"
  unfolding moves_def
proof
  fix a :: "'w native_agent"
  let ?a = "\<lambda>t. reply_to_exit env (na_pending_plan_exit a) t True ((discard_pending_interactions a)\<lparr>na_mode := Execute\<rparr>)"
  have "grants (AnswerPlanApproval RejectPlan f) a (?a t)" for t
    by (rule mode_change_grants [where m = Execute]) auto
  moreover have "moves (grants (AnswerPlanApproval RejectPlan f))
      (thenE (agent_checkpoint env) (modifyE (emit_answer tool False :: 'w native_agent \<Rightarrow> _)))" for tool
    by (intro grants_intros) simp
  ultimately have "grants (AnswerPlanApproval RejectPlan f) a
      (snd (thenE (agent_checkpoint env) (modifyE (emit_answer tool False)) (?a t)))" for t tool
    by (rule granted.moves_after)
  then show "grants (AnswerPlanApproval RejectPlan f) a (snd (reject_plan env feedback a))"
    by (simp add: reject_plan_def reject_pending_plan_approval_def thenE_def bindE_def)
qed

lemma guard_grants: "moves (grants req) (control_guard env req)"
  by (rule moves_same) (simp add: control_guard_def refresh_policy split: input_control_request.split)

lemma action_grants: "run_moves (grants req) (control_action env fuel req)"
proof (cases req)
  case (AnswerPlanApproval d f)
  then show ?thesis
    unfolding control_action_def resume_after_plan_approval_def
    by (cases d) (auto intro!: granted.run_moves_then granted.run_moves_step run_agent_loop_grants decide_plan_grants reject_plan_grants)
qed (auto simp: control_action_def query_grants answer_grants same_grants intro!: granted.run_moves_then granted.run_moves_change)

lemma control_grants: "handle_input_control env fuel req a = Some (r, b) \<Longrightarrow> grants req a b"
proof -
  have "run_moves (grants req) (handle_input_control env fuel req)"
    unfolding handle_input_control_def by (intro granted.run_moves_then granted.run_moves_step guard_grants action_grants)
  then show "handle_input_control env fuel req a = Some (r, b) \<Longrightarrow> grants req a b"
    unfolding run_moves_def by blast
qed

subsection \<open>Every request returns\<close>

interpretation limited: kept_property "grants req" "\<lambda>a. na_max_turns a = Some L" for req L
  by unfold_locales (auto simp: grants_def)

lemma loop_run_returns: "6 * L + 5 < fuel \<Longrightarrow> run_returns (\<lambda>a. na_max_turns a = Some L) (loop_run env fuel turns)"
proof -
  assume fuel: "6 * L + 5 < fuel"
  show ?thesis
    unfolding run_returns_def
  proof (intro allI impI)
    fix a :: "'a native_agent" assume "na_max_turns a = Some L"
    from limited_loop_returns [OF this fuel, of "se_loop env" turns] show "loop_run env fuel turns a \<noteq> None"
      by (auto simp: loop_run_def split: sum.split)
  qed
qed

lemma run_agent_loop_returns:
  "6 * L + 5 < fuel \<Longrightarrow> run_returns (\<lambda>a. na_max_turns a = Some L) (run_agent_loop env fuel)"
  unfolding run_agent_loop_def
  by (intro limited.run_returns_then limited.run_returns_step loop_run_returns granted.run_moves_step moves_same prepare_loop_policy)

lemma recover_returns:
  assumes "6 * L + 5 < fuel"
  shows "run_returns (\<lambda>a. na_max_turns a = Some L) (try_continue_after_recoverable_runtime_error env fuel e n k)"
proof -
  have "run_returns (\<lambda>a. na_max_turns a = Some L)
      (run_then (run_step (\<lambda>a. agent_push_message (agent_env_of env) m (emit_status t a)))
        (run_then (loop_run env fuel n) (step_run (retE True))))" for m t
    by (intro limited.run_returns_then limited.run_returns_step loop_run_returns assms granted.run_moves_change loop_run_grants)
      (simp add: same_grants)
  then show ?thesis
    by (auto simp: run_returns_def try_continue_after_recoverable_runtime_error_def split: option.splits if_splits)
qed

lemma run_or_recover_returns:
  assumes "6 * L + 5 < fuel"
  shows "run_returns (\<lambda>a. na_max_turns a = Some L) (run_or_recover env fuel)"
  unfolding run_returns_def
proof (intro allI impI)
  fix a :: "'a native_agent" assume a: "na_max_turns a = Some L"
  then obtain q b n where q: "run_agent_loop_with_limit (se_loop env) fuel 0 a = Some (q, b, n)"
    using limited_loop_returns [OF a assms] by blast
  then have "loop_run env fuel 0 a = Some (map_sum id (\<lambda>_. ()) q, b)" by (cases q) (simp_all add: loop_run_def)
  then have "grants undefined a b" using loop_run_grants unfolding run_moves_def by blast
  with a have b: "na_max_turns b = Some L" by (simp add: grants_def)
  have "run_returns (\<lambda>a. na_max_turns a = Some L)
      (run_bind (try_continue_after_recoverable_runtime_error env fuel e n 0)
        (\<lambda>c. if c then run_step (emit_status t) else (\<lambda>a. Some (Inl e, a))))" for e t
    by (intro limited.run_returns_bind recover_returns assms recover_grants) (simp add: limited.run_returns_step)
  with b q show "run_or_recover env fuel a \<noteq> None"
    by (auto simp: run_or_recover_def run_returns_def split: sum.split)
qed

lemma query_returns:
  assumes "6 * L + 5 < fuel"
  shows "run_returns (\<lambda>a. na_max_turns a = Some L) (query_inner env fuel prompt)"
proof -
  have "run_returns (\<lambda>a. na_max_turns a = Some L) (run_then (step_run (prepare_query env prompt))
      (run_then (run_or_recover env fuel) (run_then (step_run (agent_checkpoint env)) (run_step (save_transcript env n prompt)))))" for n
    by (intro limited.run_returns_then limited.run_returns_step run_or_recover_returns assms granted.run_moves_step
        prepare_query_grants run_or_recover_grants checkpoint_grants)
  then show ?thesis by (simp add: run_returns_def query_inner_def)
qed

lemma answer_returns:
  assumes "6 * L + 5 < fuel"
  shows "run_returns (\<lambda>a. na_max_turns a = Some L) (answer_pending_approval env fuel sel)"
proof -
  have "run_returns (\<lambda>a. na_max_turns a = Some L) (run_then (step_run (resolve_approval (agent_env_of env) sel p))
      (run_then (run_agent_loop env fuel) (step_run (agent_checkpoint env))))" for p
    by (intro limited.run_returns_then [where req = "AnswerShellApproval sel"] limited.run_returns_step
        run_agent_loop_returns assms granted.run_moves_step resolve_approval_grants run_agent_loop_grants)
  then show ?thesis by (auto simp: run_returns_def answer_pending_approval_def split: option.splits)
qed

lemma action_returns:
  assumes "6 * L + 5 < fuel"
  shows "run_returns (\<lambda>a. na_max_turns a = Some L) (control_action env fuel req)"
proof (cases req)
  case (AnswerPlanApproval d f)
  have "run_returns (\<lambda>a. na_max_turns a = Some L) (resume_after_plan_approval env fuel c g)" for c g
    unfolding resume_after_plan_approval_def
    by (intro limited.run_returns_then [where req = "AnswerPlanApproval RejectPlan None"] limited.run_returns_step
        run_agent_loop_returns assms granted.run_moves_step decide_plan_grants) simp
  then show ?thesis
    unfolding AnswerPlanApproval control_action_def by (cases d) (simp_all add: limited.run_returns_step)
next
  case (AnswerPendingInput answer)
  then show ?thesis
    unfolding control_action_def
    by (auto intro!: limited.run_returns_then limited.run_returns_step query_returns assms granted.run_moves_change same_grants)
qed (simp_all add: control_action_def query_returns answer_returns assms)

text \<open>A concrete session: the plain host, no plugins, nothing to refresh.\<close>

definition plain_session :: "unit session_env" where
  "plain_session = \<lparr>se_loop = plain_env, se_turn_context = (\<lambda>_. \<lparr>tc_environment = [], tc_execution_mode = [], tc_protocol_sources = None\<rparr>),
     se_skill_listing = (\<lambda>_. None), se_memory_text = (\<lambda>_. None), se_plan_file = [], se_refresh_prompts = (\<lambda>w. w),
     se_refresh_skills = (\<lambda>w. (Inr (), w)), se_plugins = None, se_memory_enabled = False, se_retrieve = (\<lambda>_ w. ([], w)),
     se_memory_notice = (\<lambda>_ _. []), se_refresh_files = (\<lambda>_ w. w), se_persist_transcript = False,
     se_save_context = (\<lambda>_ _ w. (True, w)), se_debug_text = (\<lambda>_. []), se_consolidate = (\<lambda>w. w), se_io_error = (\<lambda>_. None),
     se_error_text = (\<lambda>_. []), se_redacted_chain = (\<lambda>_. []), se_request_cancel = (\<lambda>w. w)\<rparr>"

definition planning_agent :: "unit native_agent" where
  "planning_agent = (set_max_turns 4 (new_agent ()))\<lparr>na_mode := Plan\<rparr>"

lemma planning_agent_simps [simp]:
  "na_max_turns planning_agent = Some 4" "na_mode planning_agent = Plan" "na_bash_approval planning_agent = ApproveAlways"
  "na_approved_prefixes planning_agent = []" "na_full_access planning_agent = False" "na_pending_approval planning_agent = None"
  by (simp_all add: planning_agent_def set_max_turns_def new_agent_def)

lemma planning_agent_returns:
  "\<exists>r b. handle_input_control plain_session 30 (SubmitUserPrompt (lit ''hi'')) planning_agent = Some (r, b)"
proof -
  have "run_returns (\<lambda>a. na_max_turns a = Some 4) (query_inner plain_session 30 (lit ''hi''))"
    by (rule query_returns) simp
  then show ?thesis
    by (auto simp: run_returns_def handle_input_control_def control_guard_def control_action_def run_then_def run_bind_def
        step_run_def)
qed

text \<open>
  C4. With a turn limit of L every request of a client returns, recovery from one runtime error included:
  fuel of \<open>6 * L + 6\<close> for each run of the loop is enough, whatever the provider, the tools, the hooks
  and the stores do.
\<close>
theorem control_request_returns:
  assumes "na_max_turns a = Some L" "6 * L + 5 < fuel"
  shows "\<exists>r b. handle_input_control env fuel req a = Some (r, b)"
proof -
  have "run_returns (\<lambda>a. na_max_turns a = Some L) (handle_input_control env fuel req)"
    unfolding handle_input_control_def
    by (intro limited.run_returns_then [where req = req] limited.run_returns_step action_returns assms
        granted.run_moves_step guard_grants)
  then show ?thesis using assms(1) unfolding run_returns_def by (metis not_None_eq surj_pair)
qed

theorem control_request_returns_witness:
  "\<exists>r b. handle_input_control plain_session 30 (AnswerShellApproval DecideOnce) planning_agent = Some (r, b)"
  using control_request_returns [of planning_agent 4 30] by simp

text \<open>
  C2. Permissions change only by the user's decision: whatever a request makes the model and the tools
  do, full access and limits stay; plan mode is left only by a request that approves or rejects a
  plan; the approved prefixes grow only when the user approves a prefix; the approval of shell commands
  changes only by a decision on a command, and if it becomes laxer the decision was to always approve.
\<close>
theorem permissions_follow_decisions:
  assumes "handle_input_control env fuel req a = Some (r, b)"
  shows "na_full_access b = na_full_access a \<and> na_max_turns b = na_max_turns a \<and> na_token_budget b = na_token_budget a \<and>
    (na_mode a = Plan \<longrightarrow> na_mode b = Plan \<or> (\<exists>d f. req = AnswerPlanApproval d f \<and> d \<noteq> ContinuePlanning)) \<and>
    (na_approved_prefixes b = na_approved_prefixes a \<or> req = AnswerShellApproval DecidePrefix) \<and>
    (na_bash_approval b = na_bash_approval a \<or>
       (\<exists>d. req = AnswerShellApproval d \<and> (na_bash_approval b = ApproveSuggestion \<or> d = DecideAlways)))"
  using control_grants [OF assms] unfolding grants_def .

theorem permissions_follow_decisions_witness:
  "\<exists>r b. handle_input_control plain_session 30 (SubmitUserPrompt (lit ''hi'')) planning_agent = Some (r, b) \<and>
     na_mode b = Plan \<and> na_bash_approval b = ApproveAlways \<and> na_approved_prefixes b = []"
proof -
  obtain r b where e: "handle_input_control plain_session 30 (SubmitUserPrompt (lit ''hi'')) planning_agent = Some (r, b)"
    using planning_agent_returns by blast
  show ?thesis using permissions_follow_decisions [OF e] e by auto
qed

subsection \<open>A paused command\<close>

lemma other_tool_simps [simp]:
  "checkpoint_session (env\<lparr>ae_call_tool := f\<rparr>) = checkpoint_session env"
  "agent_push_message (env\<lparr>ae_call_tool := f\<rparr>) = agent_push_message env"
  "push_continuation (env\<lparr>ae_call_tool := f\<rparr>) = push_continuation env"
  "compact_result (env\<lparr>ae_call_tool := f\<rparr>) = compact_result env"
  "approved_status (env\<lparr>ae_call_tool := f\<rparr>) = approved_status env"
  "has_tool (env\<lparr>ae_call_tool := f\<rparr>) = has_tool env"
  by (simp_all add: fun_eq_iff checkpoint_session_def agent_push_message_def push_continuation_def
      runtime_continuation_message_def compact_result_def approved_status_def has_tool_def)

lemma replies_other_tool [simp]:
  "push_reply (env\<lparr>ae_call_tool := f\<rparr>) = push_reply env"
  "reject_pending_bash (env\<lparr>ae_call_tool := f\<rparr>) = reject_pending_bash env"
  by (intro ext; simp only: push_reply_def reject_pending_bash_def other_tool_simps)+

lemma invoke_other_tool:
  "f call = ae_call_tool env call \<Longrightarrow> invoke_pending (env\<lparr>ae_call_tool := f\<rparr>) call = invoke_pending env call"
  by (intro ext) (simp add: invoke_pending_def Let_def split: prod.split sum.split)

lemma execute_pending_other_tool:
  "f (bash_call p) = ae_call_tool env (bash_call p) \<Longrightarrow>
     execute_pending_bash (env\<lparr>ae_call_tool := f\<rparr>) keep p = execute_pending_bash env keep p"
  by (intro ext) (simp add: execute_pending_bash_def invoke_other_tool Let_def split: if_split)


lemma history_steps [simp]:
  "na_history (agent_push_message env m a) = na_history a @ [m]"
  "na_history (emit_event e a) = na_history a" "na_history (emit_status t a) = na_history a"
  "na_history (set_world w a) = na_history a" "na_history (open_decision sel p a) = na_history a"
  "na_history (bash_approval t a) = na_history a" "na_history (a\<lparr>na_bash_approval := x\<rparr>) = na_history a"
  "na_history (a\<lparr>na_approved_prefixes := y\<rparr>) = na_history a"
  by (simp_all add: na_history_def agent_push_message_def push_history_message_def record_history_message_tokens_def
      emit_status_def emit_event_def set_world_def open_decision_def bash_approval_def)

text \<open>The call a step answers: one reply at the end of the history, nothing else said, nothing pending changed.\<close>

definition said :: "message list \<Rightarrow> 'w native_agent \<Rightarrow> 'w native_agent \<Rightarrow> bool" where
  "said ms a b \<longleftrightarrow> na_history b = na_history a @ ms \<and>
     na_pending_approval b = na_pending_approval a \<and> na_pending_input b = na_pending_input a"

lemma said_trans: "said ms a b \<Longrightarrow> said ns b c \<Longrightarrow> said (ms @ ns) a c"
  by (simp add: said_def)

lemma said_simps [simp]:
  "said [m] a (agent_push_message env m a)" "said [] a (emit_event e a)" "said [] a (emit_status t a)" "said [] a (set_world w a)"
  "said [] a (bash_approval t a)" "said [] a (a\<lparr>na_bash_approval := x\<rparr>)" "said [] a (a\<lparr>na_approved_prefixes := y\<rparr>)"
  "said [] a (fold (\<lambda>e. emit_event (g e)) es a)"
proof -
  show "said [] a (fold (\<lambda>e. emit_event (g e)) es a)"
    by (induction es arbitrary: a) (auto simp: said_def emit_event_def na_history_def)
qed (simp_all add: said_def agent_push_message_def emit_event_def emit_status_def set_world_def bash_approval_def
      na_history_def push_history_message_def record_history_message_tokens_def)

lemma checkpoint_said: "checkpoint_session env a = (r, b) \<Longrightarrow> said [] a b"
  by (auto simp: checkpoint_session_def split: prod.splits)

lemma push_reply_said: "push_reply env call t e a = (r, b) \<Longrightarrow> said [tool_result_message (call_id call) t e] a b"
proof -
  let ?a = "emit_event (EvToolResult (call_id call) (call_name call) t e) a"
  assume "push_reply env call t e a = (r, b)"
  then have "checkpoint_session env (agent_push_message env (tool_result_message (call_id call) t e) ?a) = (r, b)"
    by (simp add: push_reply_def thenE_apply)
  from said_trans [OF said_trans [OF said_simps(2) said_simps(1)] checkpoint_said [OF this]]
  show ?thesis by simp
qed

lemma push_continuation_said: "\<exists>m. said [user_text m] a (push_continuation env ph n a)"
  unfolding push_continuation_def runtime_continuation_message_def by (rule exI, rule said_simps(1))

lemma invoke_pending_said:
  assumes "invoke_pending env call a = (Inr (), b)"
  shows "\<exists>t e. said [tool_result_message (call_id call) t e] a b"
proof -
  obtain events r w where call: "ae_call_tool env call (na_world a) = ((events, r), w)" by (metis surj_pair)
  let ?a = "fold (\<lambda>e. emit_event (EvToolProgress (call_id call) (call_name call) e)) events (set_world w a)"
  have start: "said [] a ?a" using said_trans [OF said_simps(4) said_simps(8)] by simp
  show ?thesis
  proof (cases r)
    case (Inl x)
    with assms call have "push_reply env call (lit ''Error: '' @ show_tool_error x) True ?a = (Inr (), b)"
      by (simp add: invoke_pending_def Let_def)
    from said_trans [OF start push_reply_said [OF this]] show ?thesis by auto
  next
    case (Inr v)
    with assms call obtain t c where "compact_result env call v ?a = (Inr t, c)" "push_reply env call t False c = (Inr (), b)"
      by (auto simp: invoke_pending_def Let_def bindE_apply split: prod.splits sum.splits)
    moreover from this have "said [] ?a c" by (auto simp: compact_result_def split: prod.splits)
    ultimately have "said [tool_result_message (call_id call) t False] ?a b"
      using said_trans [OF _ push_reply_said] by fastforce
    from said_trans [OF start this] show ?thesis by auto
  qed
qed

lemma execute_pending_said:
  assumes "execute_pending_bash env keep p a = (Inr (), b)"
  shows "\<exists>t e m. said [tool_result_message (pa_tool_use_id p) t e, user_text m] a b"
proof -
  let ?call = "bash_call p"
  let ?a = "emit_status (approved_status env (call_input ?call)) (emit_event (EvToolUse (call_id ?call) (call_name ?call) (call_input ?call)) a)"
  from assms obtain c d where c: "invoke_pending env ?call ?a = (Inr (), c)"
    and d: "checkpoint_session env (push_continuation env ToolResultsAvailable 1 c) = (Inr (), d)"
    and b: "b = (if keep then d else d\<lparr>na_bash_approval := ApproveSuggestion\<rparr>)"
    by (auto simp: execute_pending_bash_def Let_def thenE_apply split: if_splits prod.splits sum.splits)
  have start: "said [] a ?a" using said_trans [OF said_simps(2) said_simps(3)] by simp
  obtain t e where "said [tool_result_message (pa_tool_use_id p) t e] ?a c"
    using invoke_pending_said [OF c] by (auto simp: bash_call_def)
  moreover obtain m where "said [user_text m] c (push_continuation env ToolResultsAvailable 1 c)"
    using push_continuation_said by blast
  moreover have "said [] (push_continuation env ToolResultsAvailable 1 c) d" using checkpoint_said [OF d] .
  moreover have "said [] d b" by (simp add: b said_def)
  ultimately have "said ((([] @ [tool_result_message (pa_tool_use_id p) t e]) @ [user_text m]) @ [] @ []) a b"
    using start said_trans by metis
  then show ?thesis by auto
qed

lemma reject_pending_said:
  assumes "reject_pending_bash env p a = (r, b)"
  shows "\<exists>m. said [tool_result_message (pa_tool_use_id p) (rejected_command_error p) True, user_text m] a b"
proof -
  let ?e = "EvToolResult (pa_tool_use_id p) (lit ''bash'') (rejected_command_error p) True"
  let ?a = "emit_event ?e (bash_approval (lit ''Rejected command: '' @ summary (pa_request p)) a)"
  let ?b = "agent_push_message env (tool_result_message (pa_tool_use_id p) (rejected_command_error p) True) ?a"
  from assms have r: "checkpoint_session env (push_continuation env ToolResultsAvailable 0 ?b) = (r, b)"
    by (simp add: reject_pending_bash_def thenE_apply)
  obtain m where m: "said [user_text m] ?b (push_continuation env ToolResultsAvailable 0 ?b)"
    using push_continuation_said by blast
  from said_trans [OF said_trans [OF said_trans [OF said_trans [OF said_simps(5) said_simps(2)] said_simps(1)] m] checkpoint_said [OF r]]
  show ?thesis by auto
qed

lemma open_decision_pending:
  "na_pending_approval (open_decision sel p a) = None" "na_pending_input (open_decision sel p a) = None"
  by (simp_all add: open_decision_def emit_event_def)

lemma resolve_approval_said:
  assumes "resolve_approval env sel p a = (Inr (), b)"
  shows "\<exists>t e m. said [tool_result_message (pa_tool_use_id p) t e, user_text m] (open_decision sel p a) b \<and>
    (sel = DecideSuggestion \<longrightarrow> e \<and> t = rejected_command_error p)"
proof -
  have approved: "\<exists>t e m. said [tool_result_message (pa_tool_use_id p) t e, user_text m] (open_decision sel p a) b"
    if "execute_pending_bash env keep p c = (Inr (), b)" "said [] (open_decision sel p a) c" for keep c
    using execute_pending_said [OF that(1)] said_trans [OF that(2)] by fastforce
  have prefixes: "said [] x (bash_approval t (x\<lparr>na_approved_prefixes := ps\<rparr>))" for t ps and x :: "'a native_agent"
    using said_trans [OF said_simps(7) said_simps(5)] by simp
  have always: "said [] x (bash_approval t (x\<lparr>na_bash_approval := m\<rparr>))" for t m and x :: "'a native_agent"
    using said_trans [OF said_simps(6) said_simps(5)] by simp
  show ?thesis
  proof (cases sel)
    case DecideOnce
    with assms approved [OF _ said_simps(5)] show ?thesis by (simp add: resolve_approval_def thenE_apply)
  next
    case DecidePrefix
    with assms approved [OF _ prefixes] show ?thesis by (simp add: resolve_approval_def thenE_apply)
  next
    case DecideAlways
    with assms approved [OF _ always] show ?thesis by (simp add: resolve_approval_def thenE_apply)
  next
    case DecideSuggestion
    with assms reject_pending_said [of env p "open_decision sel p a" "Inr ()" b] show ?thesis
      by (auto simp: resolve_approval_def thenE_apply)
  qed
qed


definition paused :: pending_approval where
  "paused = \<lparr>pa_tool_use_id = lit ''c1'', pa_request = cd_request\<rparr>"


subsection \<open>A new thread\<close>

text \<open>Agents that differ only in their conversation, plan and counters are the same agent in a new thread.\<close>

lemma new_thread_forgets_the_conversation:
  "reset_for_new_thread env (a\<lparr>na_core := (na_core a)\<lparr>ca_history := h, ca_candidates := cs\<rparr>, na_plan := sts,
      na_plan_explanation := x, na_pending_input := q, na_pending_approval := p, na_pending_plan_exit := i, na_todo := t,
      na_input_tokens := n, na_output_tokens := m\<rparr>) = reset_for_new_thread env a"
  by (simp add: reset_for_new_thread_def Let_def)

lemma new_thread_keeps_policy: "same_policy a (reset_for_new_thread env a)"
  by (simp add: reset_for_new_thread_def Let_def same_policy_def on_world_def set_world_def)

subsection \<open>A rejected plan\<close>

text \<open>
  \<open>docs/features/planning-mode.md\<close> says that the model remains in planning mode after a plan was rejected;
  rejecting a plan puts the agent into execution.
\<close>

lemma rejection_leaves_plan_mode:
  "na_mode (snd (reject_pending_plan_approval env feedback a)) = Execute"
  by (simp add: reject_pending_plan_approval_def agent_checkpoint_def checkpoint_session_def reply_to_exit_def
      agent_push_message_def set_world_def split: prod.split option.split)

end
