(* ===== verification/GoalStore.thy ===== *)
theory GoalStore
  imports Prelude AgentEffects "HOL-Library.Word"
begin

section \<open>Goals (src/runtime_goals.rs, src/tools/goal.rs, rara-state state_db/goals.rs)\<close>

text \<open>
  A goal is an objective the agent pursues over many turns. The store changes it only together with its
  row in the state database, hands out tickets for continuing it, and lets a ticket be used once. A
  ticket is an \<open>Arc<()>\<close> compared by address: here a number, a new one each time. Every operation holds
  the lock throughout, so it is one step; each makes at most one database call of at most two statements,
  and the error of each statement, if any, is in the argument \<open>fail\<close>. Lemmas: a saved goal is loaded unchanged; the row always shows the
  goal in memory, whatever fails; a ticket is claimed at most once; a failed write changes nothing.
\<close>

subsection \<open>Goals\<close>

datatype goal_status = GoalPursuing | GoalPaused | GoalBlocked | GoalComplete | GoalBudgetLimited

record ralph_goal =
  rg_objective :: ustr
  rg_status :: goal_status
  rg_token_budget :: "32 word option"
  rg_tokens_used :: "32 word"
  rg_turns_completed :: "32 word"
  rg_created :: "64 word"

definition new_goal :: "64 word \<Rightarrow> ustr \<Rightarrow> 32 word option \<Rightarrow> ralph_goal" where
  "new_goal now objective budget = \<lparr>rg_objective = objective, rg_status = GoalPursuing, rg_token_budget = budget,
     rg_tokens_used = 0, rg_turns_completed = 0, rg_created = now\<rparr>"

text \<open>\<open>saturating_sub\<close> and \<open>saturating_add\<close>\<close>

definition sub_sat :: "'a::len word \<Rightarrow> 'a word \<Rightarrow> 'a word" where
  "sub_sat x y = (if x < y then 0 else x - y)"

definition add_sat :: "'a::len word \<Rightarrow> 'a word \<Rightarrow> 'a word" where
  "add_sat x y = (if x + y < x then - 1 else x + y)"

definition time_used_seconds :: "64 word \<Rightarrow> ralph_goal \<Rightarrow> 64 word" where
  "time_used_seconds now g = sub_sat now (rg_created g)"

definition remaining_tokens :: "ralph_goal \<Rightarrow> 32 word option" where
  "remaining_tokens g = map_option (\<lambda>b. sub_sat b (rg_tokens_used g)) (rg_token_budget g)"

subsection \<open>Serialization (derived)\<close>

definition status_name :: "goal_status \<Rightarrow> ustr" where
  "status_name s = (case s of GoalPursuing \<Rightarrow> lit ''Pursuing'' | GoalPaused \<Rightarrow> lit ''Paused'' | GoalBlocked \<Rightarrow> lit ''Blocked''
     | GoalComplete \<Rightarrow> lit ''Complete'' | GoalBudgetLimited \<Rightarrow> lit ''BudgetLimited'')"

definition read_status :: "ustr \<Rightarrow> goal_status option" where
  "read_status t = find (\<lambda>s. status_name s = t) [GoalPursuing, GoalPaused, GoalBlocked, GoalComplete, GoalBudgetLimited]"

definition word_json :: "'a::len word \<Rightarrow> json" where
  "word_json w = JNum (uint w)"

definition word_option_json :: "'a::len word option \<Rightarrow> json" where
  "word_option_json w = (case w of None \<Rightarrow> JNull | Some w \<Rightarrow> word_json w)"

definition goal_json :: "ralph_goal \<Rightarrow> (ustr \<times> json) list" where
  "goal_json g =
     [(lit ''objective'', JStr (rg_objective g)), (lit ''status'', JStr (status_name (rg_status g))),
      (lit ''token_budget'', word_option_json (rg_token_budget g)), (lit ''tokens_used'', word_json (rg_tokens_used g)),
      (lit ''turns_completed'', word_json (rg_turns_completed g)),
      (lit ''created_at_epoch_seconds'', word_json (rg_created g))]"

definition read_word :: "json \<Rightarrow> 'a::len word option" where
  "read_word v = (case v of JNum n \<Rightarrow> if 0 \<le> n \<and> n < 2 ^ LENGTH('a) then Some (word_of_int n) else None | _ \<Rightarrow> None)"

text \<open>\<open>Option\<close> fields may be missing or null; a missing \<open>continuation_deferred\<close> is false.\<close>

definition read_word_option :: "json option \<Rightarrow> 'a::len word option option" where
  "read_word_option v = (case v of None \<Rightarrow> Some None | Some JNull \<Rightarrow> Some None | Some v \<Rightarrow> map_option Some (read_word v))"

definition read_deferred :: "json option \<Rightarrow> bool option" where
  "read_deferred v = (case v of None \<Rightarrow> Some False | Some v \<Rightarrow> as_bool v)"

definition read_stored_goal :: "json \<Rightarrow> (ralph_goal \<times> bool) option" where
  "read_stored_goal v =
     (case (jstr ''objective'' v, Option.bind (jstr ''status'' v) read_status, read_word_option (jget ''token_budget'' v),
            Option.bind (jget ''tokens_used'' v) read_word, Option.bind (jget ''turns_completed'' v) read_word) of
        (Some objective, Some status, Some budget, Some used, Some turns) \<Rightarrow>
          (case (Option.bind (jget ''created_at_epoch_seconds'' v) read_word, read_deferred (jget ''continuation_deferred'' v)) of
             (Some created, Some deferred) \<Rightarrow>
               Some (\<lparr>rg_objective = objective, rg_status = status, rg_token_budget = budget, rg_tokens_used = used,
                      rg_turns_completed = turns, rg_created = created\<rparr>, deferred)
           | _ \<Rightarrow> None)
      | _ \<Rightarrow> None)"

subsection \<open>Rows of the state database (goals.rs)\<close>

record goal_row =
  gr_objective :: ustr
  gr_condition :: "ustr option"
  gr_status :: ustr
  gr_token_budget :: "int option"
  gr_tokens_used :: int
  gr_turns_completed :: int
  gr_created :: int
  gr_deferred :: int

type_synonym goal_rows = "ustr \<Rightarrow> goal_row option"

definition as_i64 :: "json \<Rightarrow> int option" where
  "as_i64 v = (case v of JNum n \<Rightarrow> if - (2 ^ 63) \<le> n \<and> n < 2 ^ 63 then Some n else None | _ \<Rightarrow> None)"

definition json_or :: "'b \<Rightarrow> string \<Rightarrow> (json \<Rightarrow> 'b option) \<Rightarrow> json \<Rightarrow> 'b" where
  "json_or d k f v = (case Option.bind (jget k v) f of None \<Rightarrow> d | Some x \<Rightarrow> x)"

definition save_created :: "64 word \<Rightarrow> goal_row option \<Rightarrow> json \<Rightarrow> ustr + int" where
  "save_created now existing v =
     (case jget ''created_at_epoch_seconds'' v of
        None \<Rightarrow> Inr (case existing of Some r \<Rightarrow> gr_created r | None \<Rightarrow> uint now)
      | Some c \<Rightarrow> (case as_i64 c of
            None \<Rightarrow> Inl (lit ''goal creation timestamp must be a non-negative SQLite integer'')
          | Some n \<Rightarrow> if n < 0 then Inl (lit ''goal creation timestamp must be non-negative'') else Inr n))"

definition save_deferred :: "json \<Rightarrow> ustr + bool" where
  "save_deferred v =
     (case jget ''continuation_deferred'' v of
        None \<Rightarrow> Inr False
      | Some d \<Rightarrow> (case as_bool d of None \<Rightarrow> Inl (lit ''goal continuation deferral must be a boolean'') | Some b \<Rightarrow> Inr b))"

definition row_of_json :: "json \<Rightarrow> int \<Rightarrow> bool \<Rightarrow> goal_row" where
  "row_of_json v created deferred =
     \<lparr>gr_objective = json_or [] ''objective'' as_str v, gr_condition = jstr ''condition'' v,
      gr_status = json_or (lit ''Pursuing'') ''status'' as_str v,
      gr_token_budget = Option.bind (jget ''token_budget'' v) as_i64, gr_tokens_used = json_or 0 ''tokens_used'' as_i64 v,
      gr_turns_completed = json_or 0 ''turns_completed'' as_i64 v, gr_created = created,
      gr_deferred = (if deferred then 1 else 0)\<rparr>"

text \<open>The errors of the first and second SQL statement of a call. Other databases' writers are not modelled.\<close>

type_synonym db_fault = "ustr option \<times> ustr option"

definition save_goal :: "db_fault \<Rightarrow> 64 word \<Rightarrow> ustr \<Rightarrow> json \<Rightarrow> goal_rows \<Rightarrow> (ustr + unit) \<times> goal_rows" where
  "save_goal fail now thread v rows =
     (case fst fail of
        Some e \<Rightarrow> (Inl e, rows)
      | None \<Rightarrow>
          (case (save_created now (rows thread) v, save_deferred v) of
             (Inl e, _) \<Rightarrow> (Inl e, rows)
           | (Inr created, Inl e) \<Rightarrow> (Inl e, rows)
           | (Inr created, Inr deferred) \<Rightarrow>
               (case snd fail of
                  Some e \<Rightarrow> (Inl e, rows)
                | None \<Rightarrow> (Inr (), rows(thread := Some (row_of_json v created deferred))))))"

definition delete_goal :: "db_fault \<Rightarrow> ustr \<Rightarrow> goal_rows \<Rightarrow> (ustr + unit) \<times> goal_rows" where
  "delete_goal fail thread rows = (case fst fail of Some e \<Rightarrow> (Inl e, rows) | None \<Rightarrow> (Inr (), rows(thread := None)))"

definition row_json :: "goal_row \<Rightarrow> json" where
  "row_json r = JObj
     [(lit ''objective'', JStr (gr_objective r)),
      (lit ''condition'', case gr_condition r of None \<Rightarrow> JNull | Some t \<Rightarrow> JStr t),
      (lit ''status'', JStr (gr_status r)),
      (lit ''token_budget'', case gr_token_budget r of None \<Rightarrow> JNull | Some n \<Rightarrow> JNum n),
      (lit ''tokens_used'', JNum (gr_tokens_used r)), (lit ''turns_completed'', JNum (gr_turns_completed r)),
      (lit ''created_at_epoch_seconds'', JNum (gr_created r)), (lit ''continuation_deferred'', JBool (gr_deferred r = 1))]"

definition try_load_goal :: "db_fault \<Rightarrow> ustr \<Rightarrow> goal_rows \<Rightarrow> ustr + json option" where
  "try_load_goal fail thread rows =
     (case fst fail of
        Some e \<Rightarrow> Inl e
      | None \<Rightarrow>
          (case rows thread of
             None \<Rightarrow> Inr None
           | Some r \<Rightarrow> if gr_deferred r \<notin> {0, 1} then Inl (lit ''integer out of range'') else Inr (Some (row_json r))))"

subsection \<open>A saved goal is loaded unchanged\<close>

definition stored_json :: "ralph_goal \<Rightarrow> bool \<Rightarrow> json" where
  "stored_json g deferred = JObj (goal_json g @ [(lit ''continuation_deferred'', JBool deferred)])"

lemma read_word_uint: "read_word (JNum (uint (w :: 'a::len word))) = Some w"
  by (simp add: read_word_def uint_nonnegative uint_bounded)

lemma read_status_name: "read_status (status_name s) = Some s"
  by (cases s) (simp_all add: read_status_def status_name_def)

lemma small_word: "uint (w :: 32 word) < 2 ^ 63"
  using uint_bounded [of w] by simp

lemma i64_of_nonneg: "0 \<le> n \<Longrightarrow> as_i64 (JNum n) = (if n < 2 ^ 63 then Some n else None)"
  by (simp add: as_i64_def)

lemma word32_i64: "as_i64 (JNum (uint (w :: 32 word))) = Some (uint w)"
  using small_word [of w] by (simp add: i64_of_nonneg)

lemma word_option_i64: "as_i64 (word_option_json (w :: 32 word option)) = map_option uint w"
  by (cases w) (simp_all add: word_option_json_def word_json_def word32_i64, simp add: as_i64_def)

lemma stored_fields:
  "jget ''objective'' (stored_json g d) = Some (JStr (rg_objective g))"
  "jget ''status'' (stored_json g d) = Some (JStr (status_name (rg_status g)))"
  "jget ''token_budget'' (stored_json g d) = Some (word_option_json (rg_token_budget g))"
  "jget ''tokens_used'' (stored_json g d) = Some (word_json (rg_tokens_used g))"
  "jget ''turns_completed'' (stored_json g d) = Some (word_json (rg_turns_completed g))"
  "jget ''created_at_epoch_seconds'' (stored_json g d) = Some (word_json (rg_created g))"
  "jget ''continuation_deferred'' (stored_json g d) = Some (JBool d)"
  "jget ''condition'' (stored_json g d) = None"
  by (simp_all add: stored_json_def goal_json_def)

lemma row_fields:
  "jget ''objective'' (row_json r) = Some (JStr (gr_objective r))"
  "jget ''status'' (row_json r) = Some (JStr (gr_status r))"
  "jget ''token_budget'' (row_json r) = Some (case gr_token_budget r of None \<Rightarrow> JNull | Some n \<Rightarrow> JNum n)"
  "jget ''tokens_used'' (row_json r) = Some (JNum (gr_tokens_used r))"
  "jget ''turns_completed'' (row_json r) = Some (JNum (gr_turns_completed r))"
  "jget ''created_at_epoch_seconds'' (row_json r) = Some (JNum (gr_created r))"
  "jget ''continuation_deferred'' (row_json r) = Some (JBool (gr_deferred r = 1))"
  by (simp_all add: row_json_def)

lemma row_of_stored:
  fixes g :: ralph_goal and d :: bool and c :: int
  defines "r \<equiv> row_of_json (stored_json g d) c d"
  shows "gr_objective r = rg_objective g" "gr_status r = status_name (rg_status g)"
    "gr_token_budget r = map_option uint (rg_token_budget g)" "gr_tokens_used r = uint (rg_tokens_used g)"
    "gr_turns_completed r = uint (rg_turns_completed g)" "gr_created r = c" "(gr_deferred r = 1) = d"
    "gr_deferred r \<in> {0, 1}"
  unfolding r_def
  by (simp_all add: row_of_json_def json_or_def stored_fields word_json_def as_str_def word32_i64 word_option_i64)

lemma load_of_saved:
  "read_stored_goal (row_json (row_of_json (stored_json g d) (uint (rg_created g)) d)) = Some (g, d)"
  by (cases "rg_token_budget g")
    (simp_all add: read_stored_goal_def row_fields row_of_stored read_word_uint read_status_name read_word_option_def
      read_deferred_def jstr_def as_bool_def as_str_def)

subsection \<open>The store (runtime_goals.rs)\<close>

datatype goal_persistence = GoalInMemory | GoalDurable ustr | GoalUnavailable ustr

record goal_state =
  gs_goal :: "ralph_goal option"
  gs_persistence :: goal_persistence
  gs_deferred :: bool
  gs_admission :: nat
  gs_membership :: nat

text \<open>The store, the rows of the database and the number the next new \<open>Arc\<close> gets.\<close>

record goal_world =
  gw_state :: goal_state
  gw_rows :: goal_rows
  gw_next :: nat

record goal_turn =
  gt_membership :: nat
  gt_prior :: "32 word"

datatype goal_continuation_mode = GoalAutomatic | GoalRequested

datatype goal_failure = GoalRefused ustr | GoalFailed ustr

definition default_goal_state :: "nat \<Rightarrow> goal_state" where
  "default_goal_state n = \<lparr>gs_goal = None, gs_persistence = GoalInMemory, gs_deferred = False,
     gs_admission = n, gs_membership = Suc n\<rparr>"

definition new_goal_world :: "goal_rows \<Rightarrow> goal_world" where
  "new_goal_world rows = \<lparr>gw_state = default_goal_state 0, gw_rows = rows, gw_next = 2\<rparr>"

definition goal_snapshot :: "goal_world \<Rightarrow> ralph_goal option" where
  "goal_snapshot w = gs_goal (gw_state w)"

definition begin_goal_turn :: "32 word \<Rightarrow> goal_world \<Rightarrow> goal_turn option" where
  "begin_goal_turn prior w =
     (case gs_goal (gw_state w) of
        Some g \<Rightarrow> if rg_status g = GoalPursuing then Some \<lparr>gt_membership = gs_membership (gw_state w), gt_prior = prior\<rparr> else None
      | None \<Rightarrow> None)"

definition invalid_goal :: "ustr \<Rightarrow> ustr" where
  "invalid_goal thread = lit ''invalid persisted goal for thread '' @ thread"

definition prepare_restore :: "db_fault \<Rightarrow> nat \<Rightarrow> ustr \<Rightarrow> goal_rows \<Rightarrow> ustr + goal_state" where
  "prepare_restore fail n thread rows =
     (case try_load_goal fail thread rows of
        Inl e \<Rightarrow> Inl e
      | Inr None \<Rightarrow> Inr ((default_goal_state n)\<lparr>gs_persistence := GoalDurable thread\<rparr>)
      | Inr (Some v) \<Rightarrow>
          (case read_stored_goal v of
             None \<Rightarrow> Inl (invalid_goal thread)
           | Some (g, deferred) \<Rightarrow>
               if trim (rg_objective g) = [] then Inl (invalid_goal thread @ lit '': objective must not be empty'')
               else if rg_token_budget g = Some 0 then Inl (invalid_goal thread @ lit '': token budget must be positive'')
               else Inr ((default_goal_state n)\<lparr>gs_goal := Some g, gs_deferred := deferred,
                           gs_persistence := GoalDurable thread\<rparr>)))"

definition restore_for_thread :: "db_fault \<Rightarrow> ustr \<Rightarrow> goal_world \<Rightarrow> (goal_failure + ralph_goal option) \<times> goal_world" where
  "restore_for_thread fail thread w =
     (case prepare_restore fail (gw_next w) thread (gw_rows w) of
        Inl e \<Rightarrow> (Inl (GoalFailed e), w)
      | Inr st \<Rightarrow> (Inr (gs_goal st), w\<lparr>gw_state := st, gw_next := gw_next w + 2\<rparr>))"

definition disable_after_persistence_failure :: "ustr \<Rightarrow> goal_world \<Rightarrow> goal_world" where
  "disable_after_persistence_failure reason w =
     w\<lparr>gw_state := (gw_state w)\<lparr>gs_goal := None, gs_admission := gw_next w, gs_membership := Suc (gw_next w),
          gs_persistence := GoalUnavailable reason\<rparr>, gw_next := gw_next w + 2\<rparr>"

definition persist_goal ::
  "db_fault \<Rightarrow> 64 word \<Rightarrow> goal_state \<Rightarrow> ralph_goal option \<Rightarrow> bool \<Rightarrow> goal_rows \<Rightarrow> (ustr + unit) \<times> goal_rows" where
  "persist_goal fail now st goal deferred rows =
     (case gs_persistence st of
        GoalInMemory \<Rightarrow> (Inr (), rows)
      | GoalDurable thread \<Rightarrow>
          (case goal of
             Some g \<Rightarrow> save_goal fail now thread (stored_json g deferred) rows
           | None \<Rightarrow> delete_goal fail thread rows)
      | GoalUnavailable reason \<Rightarrow> (Inl (lit ''goal persistence unavailable: '' @ reason), rows))"

definition same_goal :: "ralph_goal option \<Rightarrow> ralph_goal option \<Rightarrow> bool" where
  "same_goal old new =
     (case (old, new) of
        (Some p, Some g) \<Rightarrow> rg_objective p = rg_objective g \<and> rg_created p = rg_created g
          \<and> \<not> (rg_status p = GoalComplete \<and> rg_status g = GoalPursuing)
      | (None, None) \<Rightarrow> True
      | _ \<Rightarrow> False)"

definition turn_prior :: "goal_turn option \<Rightarrow> goal_state \<Rightarrow> 32 word option" where
  "turn_prior turn st =
     (case turn of Some t \<Rightarrow> if gt_membership t = gs_membership st then Some (gt_prior t) else None | None \<Rightarrow> None)"

definition mutate_for_turn ::
  "db_fault \<Rightarrow> 64 word \<Rightarrow> goal_turn option
     \<Rightarrow> (ralph_goal option \<Rightarrow> 32 word option \<Rightarrow> goal_failure + 'r \<times> ralph_goal option)
     \<Rightarrow> goal_world \<Rightarrow> (goal_failure + 'r) \<times> goal_world" where
  "mutate_for_turn fail now turn change w =
     (let st = gw_state w
      in case change (gs_goal st) (turn_prior turn st) of
           Inl e \<Rightarrow> (Inl e, w)
         | Inr (result, goal) \<Rightarrow>
             if goal = gs_goal st then (Inr result, w)
             else let same = same_goal (gs_goal st) goal; deferred = same \<and> gs_deferred st
                  in case persist_goal fail now st goal deferred (gw_rows w) of
                       (Inl e, rows) \<Rightarrow> (Inl (GoalFailed e), w\<lparr>gw_rows := rows\<rparr>)
                     | (Inr _, rows) \<Rightarrow>
                         (Inr result,
                          w\<lparr>gw_state := st\<lparr>gs_goal := goal, gs_deferred := deferred, gs_admission := gw_next w,
                               gs_membership := if same then gs_membership st else Suc (gw_next w)\<rparr>,
                            gw_rows := rows, gw_next := gw_next w + 2\<rparr>))"

definition mutate_goal ::
  "db_fault \<Rightarrow> 64 word \<Rightarrow> (ralph_goal option \<Rightarrow> goal_failure + 'r \<times> ralph_goal option)
     \<Rightarrow> goal_world \<Rightarrow> (goal_failure + 'r) \<times> goal_world" where
  "mutate_goal fail now change = mutate_for_turn fail now None (\<lambda>stored _. change stored)"

definition replace_goal :: "db_fault \<Rightarrow> 64 word \<Rightarrow> ralph_goal option \<Rightarrow> goal_world \<Rightarrow> (goal_failure + unit) \<times> goal_world" where
  "replace_goal fail now goal = mutate_goal fail now (\<lambda>_. Inr ((), goal))"

definition new_admission :: "goal_world \<Rightarrow> goal_world" where
  "new_admission w = w\<lparr>gw_state := (gw_state w)\<lparr>gs_admission := gw_next w\<rparr>, gw_next := Suc (gw_next w)\<rparr>"

definition defer_continuation :: "db_fault \<Rightarrow> 64 word \<Rightarrow> goal_world \<Rightarrow> (goal_failure + unit) \<times> goal_world" where
  "defer_continuation fail now w0 =
     (let w = new_admission w0; st = gw_state w
      in if gs_goal st = None \<or> gs_deferred st then (Inr (), w)
         else (case persist_goal fail now st (gs_goal st) True (gw_rows w) of
                 (Inl e, rows) \<Rightarrow> (Inl (GoalFailed e), w\<lparr>gw_rows := rows\<rparr>)
               | (Inr _, rows) \<Rightarrow> (Inr (), w\<lparr>gw_state := st\<lparr>gs_deferred := True\<rparr>, gw_rows := rows\<rparr>)))"

definition record_turn_started :: "db_fault \<Rightarrow> 64 word \<Rightarrow> goal_world \<Rightarrow> (goal_failure + unit) \<times> goal_world" where
  "record_turn_started fail now w0 =
     (let w = new_admission w0; st = gw_state w
      in if \<not> gs_deferred st then (Inr (), w)
         else (case persist_goal fail now st (gs_goal st) False (gw_rows w) of
                 (Inl e, rows) \<Rightarrow> (Inl (GoalFailed e), w\<lparr>gw_rows := rows\<rparr>)
               | (Inr _, rows) \<Rightarrow> (Inr (), w\<lparr>gw_state := st\<lparr>gs_deferred := False\<rparr>, gw_rows := rows\<rparr>)))"

definition resume_ticket :: "goal_world \<Rightarrow> nat option" where
  "resume_ticket w = (case gs_goal (gw_state w) of Some _ \<Rightarrow> Some (gs_admission (gw_state w)) | None \<Rightarrow> None)"

definition matches_resume_ticket :: "nat \<Rightarrow> goal_world \<Rightarrow> bool" where
  "matches_resume_ticket ticket w \<longleftrightarrow> gs_admission (gw_state w) = ticket"

definition edit_objective :: "db_fault \<Rightarrow> 64 word \<Rightarrow> nat \<Rightarrow> ustr \<Rightarrow> goal_world \<Rightarrow> (goal_failure + unit) \<times> goal_world" where
  "edit_objective fail now ticket objective w =
     (let st = gw_state w
      in if gs_admission st \<noteq> ticket then (Inl (GoalFailed (lit ''goal changed; reopen the editor'')), w)
         else if trim objective = [] then (Inl (GoalFailed (lit ''goal objective must not be empty'')), w)
         else (case gs_goal st of
                 None \<Rightarrow> (Inl (GoalFailed (lit ''no goal to edit'')), w)
               | Some g0 \<Rightarrow>
                   let g = g0\<lparr>rg_objective := objective\<rparr>
                   in case persist_goal fail now st (Some g) (gs_deferred st) (gw_rows w) of
                        (Inl e, rows) \<Rightarrow> (Inl (GoalFailed e), w\<lparr>gw_rows := rows\<rparr>)
                      | (Inr _, rows) \<Rightarrow>
                          (Inr (), new_admission (w\<lparr>gw_state := st\<lparr>gs_goal := Some g\<rparr>, gw_rows := rows\<rparr>))))"

definition replace_confirmed :: "db_fault \<Rightarrow> 64 word \<Rightarrow> nat \<Rightarrow> ralph_goal \<Rightarrow> goal_world \<Rightarrow> (goal_failure + unit) \<times> goal_world" where
  "replace_confirmed fail now ticket g w =
     (let st = gw_state w
      in if gs_admission st \<noteq> ticket then (Inl (GoalFailed (lit ''goal changed; request replacement again'')), w)
         else (case persist_goal fail now st (Some g) False (gw_rows w) of
                 (Inl e, rows) \<Rightarrow> (Inl (GoalFailed e), w\<lparr>gw_rows := rows\<rparr>)
               | (Inr _, rows) \<Rightarrow>
                   (Inr (), w\<lparr>gw_state := st\<lparr>gs_goal := Some g, gs_deferred := False, gs_admission := gw_next w,
                                 gs_membership := Suc (gw_next w)\<rparr>,
                               gw_rows := rows, gw_next := gw_next w + 2\<rparr>)))"

definition budget_spent :: "ralph_goal \<Rightarrow> bool" where
  "budget_spent g \<longleftrightarrow> (case rg_token_budget g of Some b \<Rightarrow> b \<le> rg_tokens_used g | None \<Rightarrow> False)"

definition may_continue :: "goal_continuation_mode \<Rightarrow> goal_status \<Rightarrow> bool" where
  "may_continue how s = (case s of GoalPursuing \<Rightarrow> True | GoalBudgetLimited \<Rightarrow> how = GoalRequested | _ \<Rightarrow> False)"

definition claim_continuation ::
  "db_fault \<Rightarrow> 64 word \<Rightarrow> nat \<Rightarrow> goal_continuation_mode \<Rightarrow> goal_world \<Rightarrow> (goal_failure + ralph_goal option) \<times> goal_world" where
  "claim_continuation fail now ticket how w =
     (let st = gw_state w
      in if gs_admission st \<noteq> ticket \<or> how = GoalAutomatic \<and> gs_deferred st then (Inr None, w)
         else (case gs_goal st of
                 None \<Rightarrow> (Inr None, w)
               | Some g0 \<Rightarrow>
                   if \<not> may_continue how (rg_status g0) then (Inr None, w)
                   else let g = (if budget_spent g0 then g0\<lparr>rg_status := GoalBudgetLimited\<rparr> else g0)
                        in if g \<noteq> g0 \<or> gs_deferred st
                           then (case persist_goal fail now st (Some g) False (gw_rows w) of
                                   (Inl e, rows) \<Rightarrow> (Inl (GoalFailed e), w\<lparr>gw_rows := rows\<rparr>)
                                 | (Inr _, rows) \<Rightarrow>
                                     (Inr (Some g), new_admission (w\<lparr>gw_state := st\<lparr>gs_goal := Some g, gs_deferred := False\<rparr>,
                                                                   gw_rows := rows\<rparr>)))
                           else (Inr (Some g), new_admission w)))"

subsection \<open>The goal after a model turn (runtime_client.rs)\<close>

text \<open>The prompts, texts made from the goal alone, are left out; \<open>busy\<close> is a finished plan turn or any
  pending interaction.\<close>

datatype goal_continuation = GoalNotActive | GoalContinue ralph_goal | GoalBudget ralph_goal

definition charge_turn :: "32 word \<Rightarrow> 32 word \<Rightarrow> ralph_goal \<Rightarrow> ralph_goal" where
  "charge_turn tokens prior g = g\<lparr>rg_tokens_used := add_sat (rg_tokens_used g) (sub_sat tokens prior),
     rg_turns_completed := add_sat (rg_turns_completed g) 1\<rparr>"

definition after_turn ::
  "32 word \<Rightarrow> bool \<Rightarrow> ralph_goal option \<Rightarrow> 32 word option \<Rightarrow> goal_failure + goal_continuation \<times> ralph_goal option" where
  "after_turn tokens busy stored prior =
     (case stored of
        None \<Rightarrow> Inr (GoalNotActive, None)
      | Some g0 \<Rightarrow>
          let g = (case prior of Some p \<Rightarrow> charge_turn tokens p g0 | None \<Rightarrow> g0)
          in if rg_status g \<noteq> GoalPursuing \<or> busy then Inr (GoalNotActive, Some g)
             else if budget_spent g
               then let g = g\<lparr>rg_status := GoalBudgetLimited\<rparr> in Inr (GoalBudget g, Some g)
               else Inr (GoalContinue g, Some g))"

definition continue_goal ::
  "db_fault \<Rightarrow> 64 word \<Rightarrow> goal_turn option \<Rightarrow> 32 word \<Rightarrow> bool \<Rightarrow> goal_world \<Rightarrow> (goal_failure + goal_continuation) \<times> goal_world" where
  "continue_goal fail now turn tokens busy w =
     (case mutate_for_turn fail now turn (after_turn tokens busy) w of
        (Inl e, w) \<Rightarrow> (Inl e, w)
      | (Inr c, w) \<Rightarrow> (Inr (if gs_deferred (gw_state w) then GoalNotActive else c), w))"

subsection \<open>The goal tools (tools/goal.rs)\<close>

definition goal_status_str :: "goal_status \<Rightarrow> ustr" where
  "goal_status_str s = (case s of GoalPursuing \<Rightarrow> lit ''active'' | GoalPaused \<Rightarrow> lit ''paused''
     | GoalBlocked \<Rightarrow> lit ''blocked'' | GoalComplete \<Rightarrow> lit ''complete'' | GoalBudgetLimited \<Rightarrow> lit ''budget_limited'')"

definition completion_budget_report :: "64 word \<Rightarrow> ralph_goal \<Rightarrow> ustr option" where
  "completion_budget_report now g =
     (if rg_status g \<noteq> GoalComplete then None
      else let budget = (case rg_token_budget g of
                   Some b \<Rightarrow> [lit ''tokens used: '' @ dec (unat (rg_tokens_used g)) @ lit '' of '' @ dec (unat b)] | None \<Rightarrow> []);
               used = time_used_seconds now g;
               parts = budget @ (if 0 < used then [lit ''time used: '' @ dec (unat used) @ lit '' seconds''] else [])
           in if parts = [] then None
              else Some (lit ''Goal achieved. Report final budget usage to the user: '' @ join parts (lit ''; '') @ lit ''.''))"

definition goal_tool_response :: "64 word \<Rightarrow> ralph_goal option \<Rightarrow> bool \<Rightarrow> json" where
  "goal_tool_response now goal report =
     (let option_json = (\<lambda>t. case t of None \<Rightarrow> JNull | Some t \<Rightarrow> JStr t) in
      JObj [(lit ''goal'', case goal of None \<Rightarrow> JNull | Some g \<Rightarrow> JObj
               [(lit ''objective'', JStr (rg_objective g)), (lit ''status'', JStr (goal_status_str (rg_status g))),
                (lit ''token_budget'', word_option_json (rg_token_budget g)), (lit ''tokens_used'', word_json (rg_tokens_used g)),
                (lit ''turns_completed'', word_json (rg_turns_completed g)),
                (lit ''time_used_seconds'', word_json (time_used_seconds now g))]),
            (lit ''remainingTokens'', word_option_json (Option.bind goal remaining_tokens)),
            (lit ''completionBudgetReport'', option_json (if report then Option.bind goal (completion_budget_report now) else None))])"

definition goal_mutation_error :: "goal_failure \<Rightarrow> tool_error" where
  "goal_mutation_error e = (case e of GoalRefused m \<Rightarrow> InvalidInput m
     | GoalFailed m \<Rightarrow> ExecutionFailed (lit ''failed to persist goal: '' @ m))"

definition tool_outcome :: "(goal_failure + 'r) \<times> goal_world \<Rightarrow> (tool_error + 'r) \<times> goal_world" where
  "tool_outcome r = (case r of (Inl e, w) \<Rightarrow> (Inl (goal_mutation_error e), w) | (Inr v, w) \<Rightarrow> (Inr v, w))"

definition get_goal_tool :: "64 word \<Rightarrow> goal_world \<Rightarrow> (tool_error + json) \<times> goal_world" where
  "get_goal_tool now w = (Inr (goal_tool_response now (goal_snapshot w) False), w)"

definition read_token_budget :: "json \<Rightarrow> tool_error + 32 word option" where
  "read_token_budget v =
     (case Option.bind (jget ''token_budget'' v) as_u64 of
        None \<Rightarrow> Inr None
      | Some n \<Rightarrow>
          if n = 0 then Inl (InvalidInput (lit ''token_budget must be positive''))
          else if 4294967295 < n then Inl (InvalidInput (lit ''token_budget '' @ dec n @ lit '' exceeds maximum u32 value''))
          else Inr (Some (of_nat n)))"

definition unfinished :: "ralph_goal option \<Rightarrow> bool" where
  "unfinished stored \<longleftrightarrow> (case stored of Some g \<Rightarrow> rg_status g \<noteq> GoalComplete | None \<Rightarrow> False)"

definition create_change :: "64 word \<Rightarrow> ralph_goal \<Rightarrow> ralph_goal option \<Rightarrow> goal_failure + json \<times> ralph_goal option" where
  "create_change now g stored =
     (if unfinished stored
      then Inl (GoalRefused (lit ''cannot create a new goal because this thread already has an unfinished goal; use update_goal only when the existing goal is complete''))
      else Inr (goal_tool_response now (Some g) False, Some g))"

definition create_goal_tool :: "db_fault \<Rightarrow> 64 word \<Rightarrow> json \<Rightarrow> goal_world \<Rightarrow> (tool_error + json) \<times> goal_world" where
  "create_goal_tool fail now v w =
     (case jstr ''objective'' v of
        None \<Rightarrow> (Inl (InvalidInput (lit ''objective must be a string'')), w)
      | Some objective \<Rightarrow>
          if trim objective = [] then (Inl (InvalidInput (lit ''objective must not be empty'')), w)
          else (case read_token_budget v of
                  Inl e \<Rightarrow> (Inl e, w)
                | Inr budget \<Rightarrow> tool_outcome (mutate_goal fail now (create_change now (new_goal now objective budget)) w)))"

definition update_change :: "64 word \<Rightarrow> goal_status \<Rightarrow> ralph_goal option \<Rightarrow> goal_failure + json \<times> ralph_goal option" where
  "update_change now status stored =
     (case stored of
        None \<Rightarrow> Inl (GoalRefused (lit ''No active goal to update.''))
      | Some g0 \<Rightarrow> let g = g0\<lparr>rg_status := status\<rparr>
                   in Inr (goal_tool_response now (Some g) (status = GoalComplete), Some g))"

definition read_new_status :: "ustr \<Rightarrow> tool_error + goal_status" where
  "read_new_status t =
     (if t = lit ''complete'' then Inr GoalComplete
      else if t = lit ''blocked'' then Inr GoalBlocked
      else Inl (InvalidInput (lit ''update_goal can only mark the existing goal complete or blocked; pause, resume, and budget-limited status changes are controlled by the user or system (got '' @ [39] @ t @ [39] @ lit '')'')))"

definition update_goal_tool :: "db_fault \<Rightarrow> 64 word \<Rightarrow> json \<Rightarrow> goal_world \<Rightarrow> (tool_error + json) \<times> goal_world" where
  "update_goal_tool fail now v w =
     (case jstr ''status'' v of
        None \<Rightarrow> (Inl (InvalidInput (lit ''status must be a string'')), w)
      | Some t \<Rightarrow> (case read_new_status t of
            Inl e \<Rightarrow> (Inl e, w)
          | Inr status \<Rightarrow> tool_outcome (mutate_goal fail now (update_change now status) w)))"

subsection \<open>What one database call does\<close>

definition loaded_goal :: "ustr \<Rightarrow> goal_rows \<Rightarrow> (ralph_goal \<times> bool) option option" where
  "loaded_goal thread rows =
     (case try_load_goal (None, None) thread rows of
        Inl _ \<Rightarrow> None
      | Inr None \<Rightarrow> Some None
      | Inr (Some v) \<Rightarrow> map_option Some (read_stored_goal v))"

lemma save_created_stored:
  "save_created now r (stored_json g d) =
     (if uint (rg_created g) < 2 ^ 63 then Inr (uint (rg_created g))
      else Inl (lit ''goal creation timestamp must be a non-negative SQLite integer''))"
  by (simp add: save_created_def stored_fields word_json_def i64_of_nonneg)

lemma save_deferred_stored: "save_deferred (stored_json g d) = Inr d"
  by (simp add: save_deferred_def stored_fields as_bool_def)

lemma loaded_row: "loaded_goal thread (rows(thread := Some (row_of_json (stored_json g d) (uint (rg_created g)) d))) = Some (Some (g, d))"
  using row_of_stored(8) [of g d "uint (rg_created g)"]
  by (simp add: loaded_goal_def try_load_goal_def load_of_saved)

lemma save_goal_loads:
  "save_goal fail now thread (stored_json g d) rows = (Inr u, rows') \<Longrightarrow> loaded_goal thread rows' = Some (Some (g, d))"
  by (auto simp: save_goal_def save_created_stored save_deferred_stored loaded_row split: option.splits if_split_asm)

lemma save_goal_error: "save_goal fail now thread v rows = (Inl e, rows') \<Longrightarrow> rows' = rows"
  by (auto simp: save_goal_def split: option.splits sum.splits)

lemma delete_goal_loads: "delete_goal fail thread rows = (Inr u, rows') \<Longrightarrow> loaded_goal thread rows' = Some None"
  by (auto simp: delete_goal_def loaded_goal_def try_load_goal_def split: option.splits)

lemma delete_goal_error: "delete_goal fail thread rows = (Inl e, rows') \<Longrightarrow> rows' = rows"
  by (auto simp: delete_goal_def split: option.splits)

definition goal_view :: "goal_state \<Rightarrow> (ralph_goal \<times> bool) option" where
  "goal_view st = map_option (\<lambda>g. (g, gs_deferred st)) (gs_goal st)"

lemma persist_error: "persist_goal fail now st goal d rows = (Inl e, rows') \<Longrightarrow> rows' = rows"
  by (auto simp: persist_goal_def dest: save_goal_error delete_goal_error split: goal_persistence.splits option.splits)

lemma persist_loads:
  "persist_goal fail now st goal d rows = (Inr u, rows') \<Longrightarrow> gs_persistence st = GoalDurable thread
     \<Longrightarrow> loaded_goal thread rows' = Some (map_option (\<lambda>g. (g, d)) goal)"
  by (auto simp: persist_goal_def dest: save_goal_loads delete_goal_loads split: option.splits)

subsection \<open>Sequences of operations\<close>

datatype goal_call =
    MutateCall "goal_turn option" "ralph_goal option \<Rightarrow> 32 word option \<Rightarrow> goal_failure + unit \<times> ralph_goal option"
  | DeferCall | StartedCall | EditCall nat ustr | ReplaceCall nat ralph_goal
  | ClaimCall nat goal_continuation_mode | RestoreCall ustr | DisableCall ustr

definition ignore_value :: "'a + 'b \<Rightarrow> 'a + unit" where
  "ignore_value r = (case r of Inl e \<Rightarrow> Inl e | Inr _ \<Rightarrow> Inr ())"

definition run_goal_call :: "db_fault \<Rightarrow> 64 word \<Rightarrow> goal_call \<Rightarrow> goal_world \<Rightarrow> (goal_failure + unit) \<times> goal_world" where
  "run_goal_call fail now c w =
     (case c of
        MutateCall turn change \<Rightarrow> mutate_for_turn fail now turn change w
      | DeferCall \<Rightarrow> defer_continuation fail now w
      | StartedCall \<Rightarrow> record_turn_started fail now w
      | EditCall ticket objective \<Rightarrow> edit_objective fail now ticket objective w
      | ReplaceCall ticket g \<Rightarrow> replace_confirmed fail now ticket g w
      | ClaimCall ticket how \<Rightarrow> apfst ignore_value (claim_continuation fail now ticket how w)
      | RestoreCall thread \<Rightarrow> apfst ignore_value (restore_for_thread fail thread w)
      | DisableCall reason \<Rightarrow> (Inr (), disable_after_persistence_failure reason w))"

inductive goal_step :: "goal_world \<Rightarrow> goal_world \<Rightarrow> bool" where
  "run_goal_call fail now c w = (r, w') \<Longrightarrow> goal_step w w'"

definition goal_reaches :: "goal_world \<Rightarrow> goal_world \<Rightarrow> bool" where
  "goal_reaches = goal_step\<^sup>*\<^sup>*"

text \<open>The invariant: the row shows the goal in memory, and every token is one already handed out.\<close>

definition row_shows_goal :: "goal_state \<Rightarrow> goal_rows \<Rightarrow> bool" where
  "row_shows_goal st rows \<longleftrightarrow>
     (\<forall>thread. gs_persistence st = GoalDurable thread \<longrightarrow> loaded_goal thread rows = Some (goal_view st))"

definition goal_inv :: "goal_world \<Rightarrow> bool" where
  "goal_inv w \<longleftrightarrow> row_shows_goal (gw_state w) (gw_rows w)
     \<and> gs_admission (gw_state w) < gw_next w \<and> gs_membership (gw_state w) < gw_next w"

lemma goal_inv_start: "goal_inv (new_goal_world rows)"
  by (simp add: goal_inv_def new_goal_world_def default_goal_state_def row_shows_goal_def)

lemma persist_shown:
  "persist_goal fail now st goal d rows = (Inr u, rows') \<Longrightarrow> gs_persistence st' = gs_persistence st
     \<Longrightarrow> gs_goal st' = goal \<Longrightarrow> gs_deferred st' = d \<Longrightarrow> row_shows_goal st' rows'"
  using persist_loads by (fastforce simp: row_shows_goal_def goal_view_def)

lemma row_shows_goal_tokens [simp]:
  "row_shows_goal (st\<lparr>gs_admission := n\<rparr>) rows = row_shows_goal st rows"
  "row_shows_goal (st\<lparr>gs_membership := n\<rparr>) rows = row_shows_goal st rows"
  by (simp_all add: row_shows_goal_def goal_view_def)

lemma prepare_restore_shows:
  assumes "prepare_restore fail n thread rows = Inr st"
  shows "row_shows_goal st rows" and "gs_admission st = n" and "gs_membership st = Suc n"
  using assms
  by (auto simp: prepare_restore_def row_shows_goal_def loaded_goal_def goal_view_def default_goal_state_def try_load_goal_def
      split: sum.splits option.splits if_split_asm prod.splits)

lemmas goal_op_defs = mutate_for_turn_def defer_continuation_def record_turn_started_def edit_objective_def
  replace_confirmed_def claim_continuation_def restore_for_thread_def disable_after_persistence_failure_def
  new_admission_def Let_def

lemma goal_call_inv:
  assumes "goal_inv w" and "run_goal_call fail now c w = (r, w')"
  shows "goal_inv w'"
proof (cases c)
  case (RestoreCall thread)
  then show ?thesis
    using assms prepare_restore_shows [of fail "gw_next w" thread "gw_rows w"]
    by (auto simp: run_goal_call_def goal_op_defs goal_inv_def split: sum.splits)
next
  case (DisableCall reason)
  then show ?thesis
    using assms by (auto simp: run_goal_call_def goal_op_defs goal_inv_def row_shows_goal_def)
next
  case (MutateCall turn change)
  then show ?thesis
    using assms
    by (auto simp: run_goal_call_def goal_op_defs goal_inv_def elim!: persist_shown dest: persist_error
        split: sum.splits prod.splits if_split_asm)
qed (use assms in \<open>auto simp: run_goal_call_def goal_op_defs goal_inv_def elim!: persist_shown dest: persist_error
        split: sum.splits prod.splits if_split_asm option.splits\<close>)

lemma goal_reaches_inv: "goal_reaches w w' \<Longrightarrow> goal_inv w \<Longrightarrow> goal_inv w'"
  unfolding goal_reaches_def
  by (induction rule: rtranclp_induct) (auto elim!: goal_step.cases dest: goal_call_inv)

text \<open>A token once replaced never comes back.\<close>

definition token_gone :: "nat \<Rightarrow> goal_world \<Rightarrow> bool" where
  "token_gone t w \<longleftrightarrow> t < gw_next w \<and> gs_admission (gw_state w) \<noteq> t"

lemma goal_call_token_gone:
  assumes "token_gone t w" and "run_goal_call fail now c w = (r, w')"
  shows "token_gone t w'"
proof (cases c)
  case (RestoreCall thread)
  then show ?thesis
    using assms prepare_restore_shows [of fail "gw_next w" thread "gw_rows w"]
    by (auto simp: run_goal_call_def goal_op_defs token_gone_def split: sum.splits)
qed (use assms in \<open>auto simp: run_goal_call_def goal_op_defs token_gone_def
       split: sum.splits prod.splits if_split_asm option.splits\<close>)

lemma goal_reaches_token_gone: "goal_reaches w w' \<Longrightarrow> token_gone t w \<Longrightarrow> token_gone t w'"
  unfolding goal_reaches_def
  by (induction rule: rtranclp_induct) (auto elim!: goal_step.cases dest: goal_call_token_gone)

lemma claim_takes_token:
  assumes "claim_continuation fail now ticket how w = (Inr (Some g), w')" and "goal_inv w"
  shows "token_gone ticket w'"
  using assms
  by (auto simp: claim_continuation_def new_admission_def token_gone_def goal_inv_def Let_def
      split: if_split_asm option.splits prod.splits sum.splits)

lemma claim_of_gone: "token_gone ticket w \<Longrightarrow> claim_continuation fail now ticket how w = (Inr None, w)"
  by (simp add: claim_continuation_def token_gone_def Let_def)

text \<open>
  C39. A resume ticket starts work at most once: once a claim with it has admitted a continuation, then
  whatever is done to the store afterwards (changes, deferrals, restores, a failing database), any later
  claim with the same ticket, in either mode, admits nothing and changes nothing.
\<close>

theorem ticket_is_claimed_once:
  assumes "goal_reaches (new_goal_world rows) w"
    and "claim_continuation fail now ticket how w = (Inr (Some g), w1)"
    and "goal_reaches w1 w2"
  shows "claim_continuation fail' now' ticket how' w2 = (Inr None, w2)"
proof -
  have "goal_inv w"
    using assms(1) goal_inv_start by (rule goal_reaches_inv)
  with assms(2) have "token_gone ticket w1"
    by (rule claim_takes_token)
  with assms(3) have "token_gone ticket w2"
    by (rule goal_reaches_token_gone)
  then show ?thesis
    by (rule claim_of_gone)
qed

definition example_goal :: ralph_goal where
  "example_goal = new_goal 100 (lit ''ship it'') (Some 10)"

definition example_goal_world :: goal_world where
  "example_goal_world = snd (replace_goal (None, None) 100 (Some example_goal) (new_goal_world (\<lambda>_. None)))"

lemma replace_goal_step: "goal_step w (snd (replace_goal fail now goal w))"
  by (rule goal_step.intros [of fail now "MutateCall None (\<lambda>_ _. Inr ((), goal))" _ "fst (replace_goal fail now goal w)"])
    (simp add: run_goal_call_def replace_goal_def mutate_goal_def)

lemma example_goal_reached: "goal_reaches (new_goal_world (\<lambda>_. None)) example_goal_world"
  unfolding example_goal_world_def goal_reaches_def by (rule r_into_rtranclp) (rule replace_goal_step)

lemma example_claim:
  "claim_continuation (None, None) 100 2 GoalAutomatic example_goal_world
   = (Inr (Some example_goal), new_admission example_goal_world)"
  by (simp add: claim_continuation_def example_goal_world_def replace_goal_def mutate_goal_def mutate_for_turn_def
      new_goal_world_def default_goal_state_def example_goal_def new_goal_def persist_goal_def budget_spent_def
      may_continue_def same_goal_def new_admission_def Let_def)

lemma ticket_is_claimed_once_witness:
  "claim_continuation (None, None) 0 2 GoalRequested (new_admission example_goal_world)
   = (Inr None, new_admission example_goal_world)"
  by (rule ticket_is_claimed_once [OF example_goal_reached example_claim])
    (simp add: goal_reaches_def)


definition example_durable_world :: goal_world where
  "example_durable_world =
     snd (replace_goal (None, None) 100 (Some example_goal)
           (snd (restore_for_thread (None, None) (lit ''t'') (new_goal_world (\<lambda>_. None)))))"

lemma restore_step: "goal_step w (snd (restore_for_thread fail thread w))"
  by (rule goal_step.intros [of fail 0 "RestoreCall thread" _ "ignore_value (fst (restore_for_thread fail thread w))"])
    (simp add: run_goal_call_def apfst_def map_prod_def split: prod.split)

lemma example_durable_reached: "goal_reaches (new_goal_world (\<lambda>_. None)) example_durable_world"
  unfolding example_durable_world_def goal_reaches_def
  by (rule rtranclp.rtrancl_into_rtrancl [OF r_into_rtranclp]) (rule restore_step replace_goal_step)+

lemma example_durable_world_state:
  "gs_persistence (gw_state example_durable_world) = GoalDurable (lit ''t'')"
  "goal_view (gw_state example_durable_world) = Some (example_goal, False)"
  by (simp_all add: example_durable_world_def replace_goal_def mutate_goal_def mutate_for_turn_def restore_for_thread_def
      prepare_restore_def try_load_goal_def new_goal_world_def default_goal_state_def example_goal_def new_goal_def
      persist_goal_def save_goal_def save_created_stored save_deferred_stored same_goal_def goal_view_def Let_def)


text \<open>
  C40. A failed operation leaves no trace that outlives it: when any operation on the store returns an
  error (a refused change, a stale ticket, a blank objective, a database error at either statement, an
  unreadable row), the goal, its deferral, its binding, its membership and every row are as before.
\<close>

theorem failed_goal_call_changes_nothing:
  assumes "run_goal_call fail now c w = (Inl e, w')"
  shows "(goal_view (gw_state w'), gs_persistence (gw_state w'), gs_membership (gw_state w'), gw_rows w')
       = (goal_view (gw_state w), gs_persistence (gw_state w), gs_membership (gw_state w), gw_rows w)"
  using assms
  by (cases c)
    (auto simp: run_goal_call_def goal_op_defs goal_view_def ignore_value_def apfst_def map_prod_def dest: persist_error
      split: sum.splits prod.splits if_split_asm option.splits)

lemma failed_goal_call_changes_nothing_witness:
  "gw_rows (snd (run_goal_call (Some (lit ''locked''), None) 5 DeferCall example_durable_world)) = gw_rows example_durable_world"
proof -
  let ?w = example_durable_world
  have "gs_goal (gw_state ?w) = Some example_goal" "\<not> gs_deferred (gw_state ?w)"
    using example_durable_world_state(2) by (auto simp: goal_view_def)
  then have "\<exists>w'. run_goal_call (Some (lit ''locked''), None) 5 DeferCall ?w = (Inl (GoalFailed (lit ''locked'')), w')"
    by (simp add: run_goal_call_def defer_continuation_def new_admission_def persist_goal_def save_goal_def
        example_durable_world_state(1) Let_def)
  then obtain w' where "run_goal_call (Some (lit ''locked''), None) 5 DeferCall ?w = (Inl (GoalFailed (lit ''locked'')), w')" ..
  then show ?thesis
    using failed_goal_call_changes_nothing [of "(Some (lit ''locked''), None)" 5 DeferCall ?w] by simp
qed

subsection \<open>The tools and the turns are such operations\<close>

definition forget_value :: "'e + 'r \<times> ralph_goal option \<Rightarrow> 'e + unit \<times> ralph_goal option" where
  "forget_value r = map_sum id (map_prod (\<lambda>_. ()) id) r"

lemma mutate_forget:
  "mutate_for_turn fail now turn (\<lambda>s p. forget_value (change s p)) w
   = apfst ignore_value (mutate_for_turn fail now turn change w)"
  by (auto simp: mutate_for_turn_def forget_value_def ignore_value_def Let_def split: sum.split prod.split)

lemma mutate_step: "goal_step w (snd (mutate_for_turn fail now turn change w))"
  by (rule goal_step.intros [of fail now "MutateCall turn (\<lambda>s p. forget_value (change s p))" _
        "ignore_value (fst (mutate_for_turn fail now turn change w))"])
    (simp add: run_goal_call_def mutate_forget apfst_def map_prod_def split: prod.split)

lemma continue_goal_step: "goal_step w (snd (continue_goal fail now turn tokens busy w))"
  using mutate_step [of w fail now turn "after_turn tokens busy"]
  by (auto simp: continue_goal_def split: prod.splits sum.splits)

lemma tool_outcome_world [simp]: "snd (tool_outcome r) = snd r"
  by (auto simp: tool_outcome_def split: prod.split sum.split)

lemma create_goal_steps: "goal_reaches w (snd (create_goal_tool fail now v w))"
  using mutate_step by (fastforce simp: create_goal_tool_def goal_reaches_def mutate_goal_def split: option.split sum.split)

lemma update_goal_steps: "goal_reaches w (snd (update_goal_tool fail now v w))"
  using mutate_step by (fastforce simp: update_goal_tool_def goal_reaches_def mutate_goal_def split: option.split sum.split)

lemma create_goal_keeps_unfinished:
  "unfinished (goal_snapshot w) \<Longrightarrow> snd (create_goal_tool fail now v w) = w"
  by (auto simp: create_goal_tool_def create_change_def mutate_goal_def mutate_for_turn_def goal_snapshot_def Let_def
      split: option.split sum.split)

lemma status_unchanged: "g\<lparr>rg_status := s\<rparr> = g \<longleftrightarrow> rg_status g = s"
  by (cases g) auto

lemma claim_within_budget:
  assumes "claim_continuation fail now ticket how w = (Inr (Some g), w')" and "budget_spent g"
  shows "rg_status g = GoalBudgetLimited"
  using assms
  by (auto simp: claim_continuation_def budget_spent_def status_unchanged Let_def split: if_split_asm option.splits prod.splits sum.splits)

lemma negative_budget_is_no_budget:
  "n < 0 \<Longrightarrow> jget ''token_budget'' v = Some (JNum n) \<Longrightarrow> read_token_budget v = Inr None"
  by (simp add: read_token_budget_def as_u64_def)

text \<open>A turn's charge saturates at both ends; it never lowers the count.\<close>

lemma add_sat_uint: "uint (add_sat x y) = min (2 ^ LENGTH('a) - 1) (uint x + uint (y :: 'a::len word))"
proof (cases "uint x + uint y < 2 ^ LENGTH('a)")
  case True
  then have "uint (x + y) = uint x + uint y"
    by (simp add: uint_plus_if_size word_size)
  with True show ?thesis
    by (simp add: add_sat_def word_less_def uint_nonnegative not_less)
next
  case False
  then have "uint (x + y) < uint x"
    using uint_bounded [of y] by (simp add: uint_plus_if_size word_size)
  with False show ?thesis
    by (simp add: add_sat_def word_less_def zmod_minus1 uint_word_ariths)
qed

lemma sub_sat_uint: "uint (sub_sat x y) = max 0 (uint x - uint (y :: 'a::len word))"
  using uint_nonnegative [of y]
  by (auto simp: sub_sat_def word_less_def uint_sub_if_size not_less)

lemma charge_turn_used:
  "uint (rg_tokens_used (charge_turn tokens prior g))
   = min (2 ^ 32 - 1) (uint (rg_tokens_used g) + max 0 (uint tokens - uint prior))"
  by (simp add: charge_turn_def add_sat_uint sub_sat_uint)

end
