(* ===== verification/Spec2Isabelle.thy ===== *)
theory Spec2Isabelle
  imports LoopExecutor ToolHistory TaskList BashReadonly PatchTool HostTurn Compaction DeepseekStream MemorySelection BashRequest TodoList ToolResults NativeControl GoalStore
begin

text \<open>
  RARA (\<open>src/\<close>) is a coding agent that runs in a terminal: a loop asks a model, runs the tools the model
  calls, and feeds the results back until the model is done. This development models the parts of the
  Rust program that decide what happens, and proves what they promise. Every definition follows the code
  statement by statement, early returns, error paths and the order of effects included.

  \<^bold>\<open>The program and its parts.\<close>

  \<^item> \<^emph>\<open>The loop.\<close> \<open>rara-agent\<close> holds the control state machine (\<open>machine.rs\<close>, theory \<open>LoopMachine\<close>) and the
    executor that performs the effects it asks for through a host (\<open>executor.rs\<close>, \<open>LoopExecutor\<close>). One model
    turn and one batch of tool calls are shared by all hosts (\<open>model.rs\<close>, \<open>tools.rs\<close>, \<open>AgentEffects\<close>), and so
    is the repair of a transcript (\<open>history.rs\<close>, \<open>ToolHistory\<close>). A machine call is an error-state
    transformer, so what a rejected call leaves behind is part of the result.
  \<^item> \<^emph>\<open>The native agent.\<close> \<open>src/agent\<close> is the host behind the terminal and protocol clients: its state, modes
    and plan (\<open>NativeAgent\<close>), the reader of plans (\<open>planning/parser.rs\<close>, \<open>PlanParser\<close>), the permission policy of
    a batch (\<open>tool_effects.rs\<close>, \<open>NativeTools\<close>, with the classifier in \<open>PermissionClassifier\<close>), the loop host and
    model policy (\<open>loop_driver.rs\<close>, \<open>model_policy.rs\<close>, \<open>NativeLoop\<close>), context blocks (\<open>model_context.rs\<close>,
    \<open>ModelContext\<close>), and the operations a client triggers (queries, answers, decisions, \<open>NativeSession\<close>).
  \<^item> \<^emph>\<open>Embedded sessions.\<close> \<open>rara-runtime/native\<close> runs a session as an actor behind a queue: the types
    (\<open>RuntimeTypes\<close>), the numbered event log with replay (\<open>event_log.rs\<close>, \<open>EventLog\<close>), the stream that
    follows it (\<open>event_stream.rs\<close>, \<open>EventStream\<close>), the actor (\<open>actor.rs\<close>, \<open>SessionActor\<close>), its invariants and
    protocol (\<open>SessionInvariants\<close>, \<open>SessionProtocol\<close>, \<open>SessionAnswers\<close>, \<open>SessionCursor\<close>), the driver of an embedding
    host (\<open>host_driver.rs\<close>, \<open>HostDriver\<close>), its turn (\<open>host_turn.rs\<close>, \<open>HostTurn\<close>), and the session handle that
    puts them together (\<open>HostSession\<close>).
  \<^item> \<^emph>\<open>The history.\<close> Compaction plans a cut at API rounds (\<open>CompactPlan\<close>), carries facts over (\<open>CompactCarry\<close>)
    and replaces the prefix by a summary (\<open>Compaction\<close>, all of \<open>src/agent/compact\<close>); old tool results are
    shortened for a request (\<open>src/tool_result\<close>, \<open>ToolResults\<close>); recalled memories are chosen under a budget
    (\<open>src/context\<close>, \<open>MemorySelection\<close>).
  \<^item> \<^emph>\<open>Tools.\<close> File edits under the rule that only what was read may be changed (\<open>rara-tools/file.rs\<close>,
    \<open>FileTools\<close>), the patch engine and its tool (\<open>rara-apply-patch\<close>, \<open>patch.rs\<close>, theories \<open>ApplyPatch\<close>,
    \<open>PatchTool\<close>), shell commands and approvals (\<open>bash_readonly.rs\<close>, \<open>bash.rs\<close>, \<open>BashReadonly\<close>, \<open>BashRequest\<close>),
    the shared task list (\<open>tasklist.rs\<close>, \<open>TaskList\<close>), the todo list (\<open>todo.rs\<close>, \<open>TodoList\<close>) and the goal of a
    thread with its tools (\<open>runtime_goals.rs\<close>, \<open>goal.rs\<close>, theory \<open>GoalStore\<close>).
  \<^item> \<^emph>\<open>What is shown.\<close> Model text is scrubbed of internal tags (\<open>control_tokens.rs\<close>, \<open>ControlTokens\<close>), of inline
    tool-call markup and hidden reasoning (\<open>deepseek_dsml.rs\<close>, \<open>openai_compatible.rs\<close>, \<open>DsmlText\<close>,
    \<open>DeepseekStream\<close>), and of terminal escapes (\<open>display_sanitize.rs\<close>, \<open>DisplaySanitize\<close>).
  \<^item> \<^emph>\<open>Shared vocabulary.\<close> \<open>RustStd\<close> (integers, strings and the std operations used), \<open>Prelude\<close> (error-state
    transformers, JSON values, the locales for bounded step systems and keyed stores), \<open>BTreeMap\<close>,
    \<open>TextSearch\<close>.

  \<^bold>\<open>How state and effects are modelled.\<close> A struct is a record, an enum a datatype. A method that changes
  state and may fail is a function \<open>'s \<Rightarrow> (error + 'a) \<times> 's\<close>, so an error keeps what was already written.
  A trait the code calls through (the loop's host, a driver, a policy, a batch) is a record of functions;
  the contracts clients rely on are locales (\<open>preorder_relation\<close>, \<open>kept_property\<close>, \<open>driver_relation\<close>, the
  stores and step systems of the prelude), each interpreted on the model's own definitions. Strings are
  lists of Unicode scalar values; positions count characters where the code counts bytes, and both are
  used only to cut at a match. Machine integers are naturals with the width written out wherever an
  operation can pass it (checked, saturating or wrapping as in the code).

  \<^bold>\<open>Loops and fuel.\<close> Loops over data are structural or come with a measure. Two loops may run on for ever
  and take fuel, \<open>None\<close> being a run that has not ended: the agent loop, for which \<open>6 * L + 6\<close> steps are
  proved enough under a turn limit of \<open>L\<close> (\<open>execute_loop_returns\<close>; carried over to the native agent and to
  every client request), and the receiving loop of an event stream, where \<open>None\<close> is a receiver that waits;
  \<open>2 * n + 3\<close> rounds are enough when the last event has number \<open>n\<close>. Without a turn limit the agent loop
  really can run for ever.

  \<^bold>\<open>What the lemmas show.\<close> For the loop: protocol, bounds, return. For the native agent: every tool that
  runs is allowed in the state in which it runs; permissions change only by the user's decisions; a paused
  command is answered once, and at most the stored command runs; a plan is worked in order and read back
  as printed. For sessions: every request answered once, refinement of the phase automaton, gap-free
  delivery. For histories: the tool protocol survives repair, compaction and projection; budgets are met.
  For tools: read-only commands run listed programs only, stale edits are refused, deltas undo patches,
  dependencies stay symmetric, claims are exclusive, a goal in memory is the goal on disk and its
  tickets are used once. For text: what must be hidden is not shown, the rest
  is unchanged. Theorems numbered \<open>C1\<close>, \<open>C2\<close>, ... are the main properties; each of the others supports one
  of them or describes a component.

  \<^bold>\<open>Parameters.\<close> Code outside \<open>src/\<close> and effects on the outside world are arguments: \<open>char::is_alphabetic\<close>,
  file systems and clocks (environments of the stores), tokio's channels, providers, tokenizer and
  context budget, the text and the parsing of JSON (\<open>serde_json\<close>) and its error messages, tools behind
  their registry, hooks and the classifier's model, session stores, prompt assembly. Nothing is assumed of
  them except where a theorem says so.

  \<^bold>\<open>Not modelled.\<close> The terminal user interface beyond the text it shows (\<open>src/tui\<close>: layout, key handling,
  overlays), provider clients and their HTTP (\<open>src/llm\<close>, \<open>bedrock\<close>, \<open>google_oauth.rs\<close>, \<open>oauth.rs\<close>),
  language servers, process execution and sandbox profiles (\<open>sandbox\<close>, the running half of \<open>bash.rs\<close>, PTYs),
  configuration files, the session and thread stores on SQLite and disk, memory databases, MCP
  connections, plugins and the running of hooks, skills and prompt texts, the command line and the
  JSON-RPC server, web tools, the wasm core, observability, and the model server in Python. These are
  input and output, rendering, glue to other systems, or generated text; the decisions taken from their
  results are in the parts above. Within the modelled parts, log lines, timings, cost accounting, traces
  and candidates that only clients display are left out, and so are waiting sides of channels.
\<close>

end
